(* ===== verification/Prelude.thy ===== *)
theory Prelude
  imports Main "HOL-Library.Word" "HOL-Library.Mapping" "HOL-Library.Multiset"
begin

text \<open>
  Shared vocabulary of the development.

  \<^item> \<open>'e + 'a\<close> stands for Rust's \<open>Result\<close>, with \<open>Inl\<close> for \<open>Err\<close>; \<open>try_bind\<close> is the
    \<open>?\<close> operator, \<open>try_fold\<close> a loop whose body may return early, \<open>try_map\<close> the collection of an
    iterator of results, \<open>ok_or\<close> and \<open>map_err\<close> the library methods of the same name.
  \<^item> \<open>u8\<close>, \<open>u16\<close>, \<open>u32\<close>, \<open>u64\<close> are machine words. \<open>usize\<close> values are \<open>nat\<close>; the checked
    additions on them carry the 64-bit limit explicitly.
  \<^item> Lists: \<open>update_first\<close> is a write through \<open>iter_mut().find(..)\<close>, \<open>insert_at\<close>, \<open>remove_at\<close> and
    \<open>list_move\<close> are the abstract order operations the Board refines, and the position tables at the
    end (\<open>represents\<close>) connect an unsorted table of positions with the ordered list it denotes.
\<close>

named_theorems result_simps \<open>unfolding of result combinators at a known outcome\<close>

type_synonym u8 = "8 word"
type_synonym u16 = "16 word"
type_synonym u32 = "32 word"
type_synonym u64 = "64 word"

section \<open>Results\<close>

fun try_bind :: "'e + 'a \<Rightarrow> ('a \<Rightarrow> 'e + 'b) \<Rightarrow> 'e + 'b" where
  "try_bind (Inl e) f = Inl e"
| "try_bind (Inr x) f = f x"

definition ok_or :: "'e \<Rightarrow> 'a option \<Rightarrow> 'e + 'a" where
  "ok_or e m = (case m of None \<Rightarrow> Inl e | Some x \<Rightarrow> Inr x)"

fun map_err :: "('e \<Rightarrow> 'f) \<Rightarrow> 'e + 'a \<Rightarrow> 'f + 'a" where
  "map_err g (Inl e) = Inl (g e)"
| "map_err g (Inr x) = Inr x"

fun try_fold :: "('s \<Rightarrow> 'a \<Rightarrow> 'e + 's) \<Rightarrow> 's \<Rightarrow> 'a list \<Rightarrow> 'e + 's" where
  "try_fold f s [] = Inr s"
| "try_fold f s (x # xs) = try_bind (f s x) (\<lambda>s'. try_fold f s' xs)"

fun try_map :: "('a \<Rightarrow> 'e + 'b) \<Rightarrow> 'a list \<Rightarrow> 'e + 'b list" where
  "try_map f [] = Inr []"
| "try_map f (x # xs) = try_bind (f x) (\<lambda>y. try_bind (try_map f xs) (\<lambda>ys. Inr (y # ys)))"

fun find_map :: "('a \<Rightarrow> 'b option) \<Rightarrow> 'a list \<Rightarrow> 'b option" where
  "find_map f [] = None"
| "find_map f (x # xs) = (case f x of None \<Rightarrow> find_map f xs | Some y \<Rightarrow> Some y)"

definition filter_opt :: "('a \<Rightarrow> bool) \<Rightarrow> 'a option \<Rightarrow> 'a option" where
  "filter_opt P m = (case m of None \<Rightarrow> None | Some x \<Rightarrow> if P x then Some x else None)"

definition nth_opt :: "'a list \<Rightarrow> nat \<Rightarrow> 'a option" where
  "nth_opt xs i = (if i < length xs then Some (xs ! i) else None)"

fun index_of :: "('a \<Rightarrow> bool) \<Rightarrow> 'a list \<Rightarrow> nat option" where
  "index_of P [] = None"
| "index_of P (x # xs) = (if P x then Some 0 else map_option Suc (index_of P xs))"

lemma try_bind_Inr_iff [simp, result_simps]:
  "try_bind m f = Inr y \<longleftrightarrow> (\<exists>x. m = Inr x \<and> f x = Inr y)"
  by (cases m) auto

lemma try_bind_Inl_iff [simp, result_simps]:
  "try_bind m f = Inl e \<longleftrightarrow> m = Inl e \<or> (\<exists>x. m = Inr x \<and> f x = Inl e)"
  by (cases m) auto

lemma Inr_eq_try_bind_iff [simp]:
  "Inr y = try_bind m f \<longleftrightarrow> (\<exists>x. m = Inr x \<and> f x = Inr y)"
  by (cases m) auto

lemma ok_or_simps [simp, result_simps]:
  "ok_or e None = Inl e"
  "ok_or e (Some x) = Inr x"
  "ok_or e m = Inr x \<longleftrightarrow> m = Some x"
  "ok_or e m = Inl d \<longleftrightarrow> m = None \<and> d = e"
  by (auto simp: ok_or_def split: option.splits)

lemma map_err_Inr_iff [simp, result_simps]: "map_err g m = Inr x \<longleftrightarrow> m = Inr x"
  by (cases m) auto

lemma map_err_Inl_iff [simp, result_simps]: "map_err g m = Inl d \<longleftrightarrow> (\<exists>e. m = Inl e \<and> d = g e)"
  by (cases m) auto

lemma filter_opt_simps [simp]:
  "filter_opt P None = None"
  "filter_opt P (Some x) = (if P x then Some x else None)"
  by (auto simp: filter_opt_def)

lemma filter_opt_Some_iff [simp]: "filter_opt P m = Some x \<longleftrightarrow> m = Some x \<and> P x"
  by (cases m) auto

lemma filter_opt_None_iff: "filter_opt P m = None \<longleftrightarrow> (\<forall>x. m = Some x \<longrightarrow> \<not> P x)"
  by (cases m) auto

lemma nth_opt_Some_iff [simp]: "nth_opt xs i = Some x \<longleftrightarrow> i < length xs \<and> xs ! i = x"
  by (auto simp: nth_opt_def)

lemma nth_opt_None_iff [simp]: "nth_opt xs i = None \<longleftrightarrow> length xs \<le> i"
  by (auto simp: nth_opt_def)

lemma index_of_Some_iff:
  "index_of P xs = Some i \<longleftrightarrow> i < length xs \<and> P (xs ! i) \<and> (\<forall>j < i. \<not> P (xs ! j))"
proof (induction xs arbitrary: i)
  case Nil
  then show ?case by simp
next
  case (Cons x xs)
  show ?case
  proof (cases i)
    case 0
    then show ?thesis by auto
  next
    case (Suc k)
    have "(\<forall>j < Suc k. \<not> P ((x # xs) ! j)) \<longleftrightarrow> \<not> P x \<and> (\<forall>j < k. \<not> P (xs ! j))"
      by (auto simp: less_Suc_eq_0_disj)
    then show ?thesis using Suc Cons.IH [of k] by auto
  qed
qed

lemma index_of_None_iff [simp]: "index_of P xs = None \<longleftrightarrow> (\<forall>x \<in> set xs. \<not> P x)"
  by (induction xs) auto

lemma try_map_Inr_length: "try_map f xs = Inr ys \<Longrightarrow> length ys = length xs"
  by (induction xs arbitrary: ys) auto

lemma try_map_Inr_nth:
  "try_map f xs = Inr ys \<Longrightarrow> i < length xs \<Longrightarrow> f (xs ! i) = Inr (ys ! i)"
proof (induction xs arbitrary: ys i)
  case Nil
  then show ?case by simp
next
  case (Cons x xs)
  then show ?case by (cases i) auto
qed

lemma try_map_Inr_map: "(\<And>x. x \<in> set xs \<Longrightarrow> f x = Inr (g x)) \<Longrightarrow> try_map f xs = Inr (map g xs)"
  by (induction xs) auto

lemma find_map_cong [fundef_cong]:
  "xs = ys \<Longrightarrow> (\<And>x. x \<in> set ys \<Longrightarrow> f x = g x) \<Longrightarrow> find_map f xs = find_map g ys"
  by (induction xs arbitrary: ys) (auto split: option.splits)

lemma try_fold_cong [fundef_cong]:
  "s = s' \<Longrightarrow> xs = ys \<Longrightarrow> (\<And>x s. x \<in> set ys \<Longrightarrow> f s x = g s x) \<Longrightarrow> try_fold f s xs = try_fold g s' ys"
proof (induction ys arbitrary: xs s s')
  case Nil
  then show ?case by simp
next
  case (Cons y ys)
  then have "\<And>s. try_fold f s ys = try_fold g s ys" by simp
  then show ?case using Cons.prems by simp
qed

lemma try_fold_append: "try_fold f s (xs @ ys) = try_bind (try_fold f s xs) (\<lambda>s'. try_fold f s' ys)"
proof (induction xs arbitrary: s)
  case Nil
  then show ?case by simp
next
  case (Cons x xs)
  then show ?case by (cases "f s x") auto
qed

lemma try_fold_invariant:
  assumes "P s" and "\<And>s x s'. P s \<Longrightarrow> x \<in> set xs \<Longrightarrow> f s x = Inr s' \<Longrightarrow> P s'"
    and "try_fold f s xs = Inr s'"
  shows "P s'"
  using assms
proof (induction xs arbitrary: s)
  case Nil
  then show ?case by simp
next
  case (Cons x xs)
  from Cons.prems(3) obtain s1 where s1: "f s x = Inr s1" and rest: "try_fold f s1 xs = Inr s'"
    by auto
  have "P s1" using Cons.prems(2) [OF Cons.prems(1) _ s1] by simp
  then show ?case
    by (rule Cons.IH [OF _ _ rest]) (rule Cons.prems(2), auto)
qed

lemma find_Some_iff_mem: "List.find P xs = Some x \<Longrightarrow> x \<in> set xs \<and> P x"
  by (induction xs) (auto split: if_splits)

section \<open>Machine integers\<close>

definition usize_max :: nat where
  "usize_max = 2 ^ 64 - 1"

definition checked_add_usize :: "nat \<Rightarrow> nat \<Rightarrow> nat option" where
  "checked_add_usize a b = (if a + b \<le> usize_max then Some (a + b) else None)"

definition sat_succ32 :: "u32 \<Rightarrow> u32" where
  "sat_succ32 p = (if p = - 1 then p else p + 1)"

definition checked_succ64 :: "u64 \<Rightarrow> u64 option" where
  "checked_succ64 q = (if q = - 1 then None else Some (q + 1))"

lemma checked_add_usize_Some_iff [simp]:
  "checked_add_usize a b = Some c \<longleftrightarrow> c = a + b \<and> a + b \<le> usize_max"
  by (auto simp: checked_add_usize_def)

text \<open>A code equation over binary integers, so that evaluation never unfolds the bound in unary.\<close>

lemma checked_add_usize_code [code]:
  "checked_add_usize a b = (if int (a + b) \<le> 18446744073709551615 then Some (a + b) else None)"
proof -
  have "int (a + b) \<le> 18446744073709551615 \<longleftrightarrow> a + b \<le> usize_max" by (simp add: usize_max_def) linarith
  then show ?thesis by (simp add: checked_add_usize_def)
qed

lemma checked_add_usize_None_iff [simp]: "checked_add_usize a b = None \<longleftrightarrow> usize_max < a + b"
  by (auto simp: checked_add_usize_def)

lemma unat_max32: "unat (- 1 :: u32) = 2 ^ 32 - 1"
  by (simp add: unsigned_minus_1_eq_mask mask_eq_exp_minus_1)

lemma unat_sat_succ32: "unat p + 1 < 2 ^ 32 \<Longrightarrow> unat (sat_succ32 p) = unat p + 1"
proof -
  assume lt: "unat p + 1 < 2 ^ 32"
  then have "p \<noteq> - 1" by (auto simp: unat_max32)
  then show ?thesis using lt by (simp add: sat_succ32_def unat_word_ariths)
qed

lemma unat_pred32: "0 < unat (p :: u32) \<Longrightarrow> unat (p - 1) = unat p - 1"
  by (simp add: unat_gt_0 unat_minus_one)

lemma unat_u32_less [simp]: "unat (p :: u32) < 4294967296"
  using unsigned_less [of p] by simp

lemma unat_of_nat_u32: "n < 2 ^ 32 \<Longrightarrow> unat (of_nat n :: u32) = n"
  by (simp add: unat_of_nat)

lemma checked_succ64_Some:
  "checked_succ64 q = Some r \<Longrightarrow> q < r \<and> unat r = unat q + 1"
proof -
  assume a: "checked_succ64 q = Some r"
  then have ne: "q \<noteq> - 1" and r: "r = q + 1" by (auto simp: checked_succ64_def split: if_splits)
  have "unat q < 2 ^ 64" using unsigned_less [of q] by simp
  moreover have "unat q \<noteq> 2 ^ 64 - 1"
  proof
    assume "unat q = 2 ^ 64 - 1"
    then have "unat q = unat (- 1 :: u64)"
      by (simp add: unsigned_minus_1_eq_mask mask_eq_exp_minus_1)
    then show False using ne by (simp add: word_unat_eq_iff)
  qed
  ultimately have "unat q + 1 < 2 ^ 64" by linarith
  then have "unat r = unat q + 1" using r by (simp add: unat_word_ariths)
  then show ?thesis by (simp add: word_less_nat_alt)
qed

section \<open>Lists\<close>

fun update_first :: "('a \<Rightarrow> bool) \<Rightarrow> ('a \<Rightarrow> 'a) \<Rightarrow> 'a list \<Rightarrow> 'a list" where
  "update_first P f [] = []"
| "update_first P f (x # xs) = (if P x then f x # xs else x # update_first P f xs)"

definition insert_at :: "nat \<Rightarrow> 'a \<Rightarrow> 'a list \<Rightarrow> 'a list" where
  "insert_at k x xs = take k xs @ x # drop k xs"

definition remove_at :: "nat \<Rightarrow> 'a list \<Rightarrow> 'a list" where
  "remove_at k xs = take k xs @ drop (Suc k) xs"

definition list_move :: "nat \<Rightarrow> nat \<Rightarrow> 'a list \<Rightarrow> 'a list" where
  "list_move i j xs = insert_at j (xs ! i) (remove_at i xs)"

lemma length_update_first [simp]: "length (update_first P f xs) = length xs"
  by (induction xs) auto

lemma update_first_eq_map:
  assumes "\<And>x y. x \<in> set xs \<Longrightarrow> y \<in> set xs \<Longrightarrow> P x \<Longrightarrow> P y \<Longrightarrow> x = y" and "distinct xs"
  shows "update_first P f xs = map (\<lambda>x. if P x then f x else x) xs"
  using assms
proof (induction xs)
  case Nil
  then show ?case by simp
next
  case (Cons x xs)
  show ?case
  proof (cases "P x")
    case True
    then have "\<forall>y \<in> set xs. \<not> P y" using Cons.prems by auto
    with True show ?thesis by (auto intro: map_idI [symmetric])
  next
    case False
    then show ?thesis using Cons by simp
  qed
qed

lemma update_first_map_key:
  assumes "distinct (map key xs)"
  shows "update_first (\<lambda>x. key x = k) f xs = map (\<lambda>x. if key x = k then f x else x) xs"
  using assms by (intro update_first_eq_map) (auto simp: distinct_map dest: inj_onD)

lemma map_update_first_same:
  "(\<And>x. P x \<Longrightarrow> g (f x) = g x) \<Longrightarrow> map g (update_first P f xs) = map g xs"
  by (induction xs) auto

lemma update_first_split:
  "\<exists>x \<in> set xs. P x \<Longrightarrow>
    \<exists>ys x zs. xs = ys @ x # zs \<and> P x \<and> (\<forall>y \<in> set ys. \<not> P y) \<and> update_first P f xs = ys @ f x # zs"
proof (induction xs)
  case Nil
  then show ?case by simp
next
  case (Cons a xs)
  show ?case
  proof (cases "P a")
    case True
    then have "a # xs = [] @ a # xs \<and> P a \<and> (\<forall>y \<in> set []. \<not> P y)
        \<and> update_first P f (a # xs) = [] @ f a # xs"
      by simp
    then show ?thesis by blast
  next
    case False
    with Cons obtain ys x zs where "xs = ys @ x # zs" "P x" "\<forall>y \<in> set ys. \<not> P y"
      "update_first P f xs = ys @ f x # zs" by auto
    with False have "a # xs = (a # ys) @ x # zs \<and> P x \<and> (\<forall>y \<in> set (a # ys). \<not> P y)
        \<and> update_first P f (a # xs) = (a # ys) @ f x # zs"
      by simp
    then show ?thesis by blast
  qed
qed

lemma find_update_first_same:
  "List.find P xs = Some x \<Longrightarrow> P (f x) \<Longrightarrow> List.find P (update_first P f xs) = Some (f x)"
  by (induction xs) (auto split: if_splits)

lemma find_update_first_other:
  assumes "\<And>x. P x \<Longrightarrow> \<not> Q x" and "\<And>x. P x \<Longrightarrow> \<not> Q (f x)"
  shows "List.find Q (update_first P f xs) = List.find Q xs"
  using assms by (induction xs) auto

lemma find_map_key:
  "(\<And>x. key (f x) = key x) \<Longrightarrow>
    List.find (\<lambda>x. key x = k) (map f xs) = map_option f (List.find (\<lambda>x. key x = k) xs)"
  by (induction xs) auto

lemma find_key_None_iff: "List.find (\<lambda>x. key x = k) xs = None \<longleftrightarrow> k \<notin> key ` set xs"
  by (auto simp: find_None_iff)

lemma find_key_Some_distinct:
  "distinct (map key xs) \<Longrightarrow> List.find (\<lambda>x. key x = k) xs = Some x \<longleftrightarrow> x \<in> set xs \<and> key x = k"
  by (induction xs) auto

lemma length_insert_at [simp]: "length (insert_at k x xs) = Suc (length xs)"
  by (simp add: insert_at_def)

lemma length_remove_at [simp]: "k < length xs \<Longrightarrow> length (remove_at k xs) = length xs - 1"
  by (simp add: remove_at_def)

lemma set_insert_at [simp]: "set (insert_at k x xs) = insert x (set xs)"
proof -
  have "set (insert_at k x xs) = insert x (set (take k xs @ drop k xs))"
    by (simp only: insert_at_def set_append list.set) blast
  then show ?thesis by simp
qed

lemma remove_at_insert_at [simp]: "k \<le> length xs \<Longrightarrow> remove_at k (insert_at k x xs) = xs"
  by (simp add: insert_at_def remove_at_def)

lemma insert_at_remove_at [simp]: "k < length xs \<Longrightarrow> insert_at k (xs ! k) (remove_at k xs) = xs"
  by (simp add: insert_at_def remove_at_def id_take_nth_drop [symmetric])

lemma nth_insert_at_same [simp]: "k \<le> length xs \<Longrightarrow> insert_at k x xs ! k = x"
  by (simp add: insert_at_def nth_append)

lemma length_list_move [simp]: "i < length xs \<Longrightarrow> length (list_move i j xs) = length xs"
  by (simp add: list_move_def)

lemma list_move_inverse:
  assumes "i < length xs" and "j < length xs"
  shows "list_move j i (list_move i j xs) = xs"
proof -
  have "j \<le> length (remove_at i xs)" using assms by simp
  then show ?thesis using assms(1) by (simp add: list_move_def)
qed

lemma mset_insert_at [simp]: "mset (insert_at k x xs) = add_mset x (mset xs)"
  by (metis append_take_drop_id insert_at_def mset.simps(2) mset_append union_mset_add_mset_right)

lemma mset_remove_at: "k < length xs \<Longrightarrow> add_mset (xs ! k) (mset (remove_at k xs)) = mset xs"
  using insert_at_remove_at [of k xs] by (metis mset_insert_at)

lemma mset_list_move [simp]: "i < length xs \<Longrightarrow> mset (list_move i j xs) = mset xs"
  by (simp add: list_move_def mset_remove_at)

section \<open>Position tables\<close>

text \<open>
  A position table is the multiset of (item, position) pairs of a collection whose order is kept as
  a number in every item. \<open>represents T xs\<close>: the positions of \<open>T\<close> are exactly \<open>0, 1, ..., n - 1\<close>,
  and \<open>xs\<close> lists the items by position. The three shifts are what inserting, removing and moving
  do to the positions of the other items.
\<close>

definition represents :: "('a \<times> nat) multiset \<Rightarrow> 'a list \<Rightarrow> bool" where
  "represents T xs \<longleftrightarrow> T = mset (zip xs [0..<length xs])"

definition shift_up :: "nat \<Rightarrow> nat \<Rightarrow> nat" where
  "shift_up k p = (if k \<le> p then Suc p else p)"

definition shift_down :: "nat \<Rightarrow> nat \<Rightarrow> nat" where
  "shift_down k p = (if k < p then p - 1 else p)"

definition shift_between :: "nat \<Rightarrow> nat \<Rightarrow> nat \<Rightarrow> nat" where
  "shift_between i j p = (if i < p \<and> p \<le> j then p - 1 else if j \<le> p \<and> p < i then Suc p else p)"

lemma represents_size: "represents T xs \<Longrightarrow> size T = length xs"
  by (simp add: represents_def)

lemma represents_nth:
  assumes "represents T xs"
  shows "(x, p) \<in># T \<longleftrightarrow> p < length xs \<and> xs ! p = x"
  using assms by (auto simp: represents_def in_set_zip)

lemma represents_unique: "represents T xs \<Longrightarrow> represents T ys \<Longrightarrow> xs = ys"
proof -
  assume a: "represents T xs" and b: "represents T ys"
  then have len: "length xs = length ys" by (metis represents_size)
  show "xs = ys"
  proof (rule nth_equalityI [OF len])
    fix i assume "i < length xs"
    then show "xs ! i = ys ! i" using represents_nth [OF a, of "xs ! i" i] represents_nth [OF b, of "xs ! i" i]
      by simp
  qed
qed

lemma map_insort_key:
  "map f (insort_key (\<lambda>e. g (f e)) x xs) = insort_key g (f x) (map f xs)"
  by (induction xs) auto

lemma map_sort_key: "map f (sort_key (\<lambda>e. g (f e)) xs) = sort_key g (map f xs)"
  by (induction xs) (simp_all add: map_insort_key)

lemma zip_upt_append:
  "zip (ys @ ws) [0..<length (ys @ ws)]
    = zip ys [0..<length ys] @ zip ws [length ys..<length ys + length ws]"
  by (simp add: zip_append1 upt_add_eq_append [of 0])

lemma represents_sort_key:
  assumes "represents (mset (map f es)) xs"
  shows "map f (sort_key (\<lambda>e. snd (f e)) es) = zip xs [0..<length xs]"
proof -
  have "map f (sort_key (\<lambda>e. snd (f e)) es) = sort_key snd (map f es)"
    by (rule map_sort_key)
  also have "\<dots> = zip xs [0..<length xs]"
  proof (rule sort_key_inj_key_eq)
    show m: "mset (map f es) = mset (zip xs [0..<length xs])"
      using assms by (simp add: represents_def)
    then have "set (map f es) = set (zip xs [0..<length xs])" by (rule mset_eq_setD)
    then show "inj_on snd (set (map f es))" by (auto simp: inj_on_def in_set_zip)
    show "sorted (map snd (zip xs [0..<length xs]))" by simp
  qed
  finally show ?thesis .
qed

lemma represents_insert:
  assumes "represents T xs" and "k \<le> length xs"
  shows "represents (add_mset (x, k) (image_mset (apsnd (shift_up k)) T)) (insert_at k x xs)"
proof -
  define ys zs where "ys = take k xs" and "zs = drop k xs"
  have xs: "xs = ys @ zs" and len: "length ys = k"
    using assms(2) by (simp_all add: ys_def zs_def)
  have zip_xs: "zip xs [0..<length xs] = zip ys [0..<k] @ zip zs [k..<k + length zs]"
    using zip_upt_append [of ys zs] by (simp only: xs len)
  have low: "map (apsnd (shift_up k)) (zip ys [0..<k]) = zip ys [0..<k]"
    by (intro map_idI) (auto simp: shift_up_def in_set_zip)
  have high: "map (apsnd (shift_up k)) (zip zs [k..<k + length zs])
      = zip zs [Suc k..<Suc (k + length zs)]"
    by (rule nth_equalityI) (auto simp: shift_up_def simp del: upt_Suc)
  have ins: "insert_at k x xs = ys @ x # zs"
    by (simp add: insert_at_def ys_def zs_def)
  have "zip (x # zs) [k..<k + length (x # zs)] = (x, k) # zip zs [Suc k..<Suc (k + length zs)]"
    by (simp add: upt_conv_Cons del: upt_Suc)
  then have zip_ins: "zip (insert_at k x xs) [0..<length (insert_at k x xs)]
      = zip ys [0..<k] @ (x, k) # zip zs [Suc k..<Suc (k + length zs)]"
    using zip_upt_append [of ys "x # zs"] by (simp only: ins len)
  show ?thesis
    unfolding represents_def zip_ins
    using assms(1) [unfolded represents_def zip_xs] low high
    by (simp add: image_mset_union mset_map [symmetric] del: mset_map)
qed

lemma represents_take_out:
  assumes "represents (add_mset (x, k) T) xs"
  shows "k < length xs" and "xs ! k = x"
    and "T = image_mset (apsnd (shift_up k)) (mset (zip (remove_at k xs) [0..<length xs - 1]))"
proof -
  show k: "k < length xs" and x: "xs ! k = x"
    using represents_nth [OF assms, of x k] by simp_all
  let ?ys = "remove_at k xs"
  have "represents (add_mset (x, k) (image_mset (apsnd (shift_up k)) (mset (zip ?ys [0..<length ?ys]))))
      (insert_at k x ?ys)"
    using k by (intro represents_insert) (simp_all add: represents_def)
  moreover have "insert_at k x ?ys = xs" using k x by (metis insert_at_remove_at)
  ultimately show "T = image_mset (apsnd (shift_up k)) (mset (zip ?ys [0..<length xs - 1]))"
    using assms k unfolding represents_def
    by (metis add_mset_add_mset_same_iff length_remove_at)
qed

lemma represents_remove:
  assumes "represents (add_mset (x, k) T) xs"
  shows "represents (image_mset (apsnd (shift_down k)) T) (remove_at k xs)"
proof -
  have inv: "apsnd (shift_down k) \<circ> apsnd (shift_up k) = (id :: 'a \<times> nat \<Rightarrow> 'a \<times> nat)"
    by (auto simp: fun_eq_iff shift_up_def shift_down_def)
  show ?thesis
    using represents_take_out(1,3) [OF assms]
    by (simp add: represents_def multiset.map_comp inv)
qed

lemma represents_move:
  assumes "represents (add_mset (x, i) T) xs" and "j < length xs"
  shows "represents (add_mset (x, j) (image_mset (apsnd (shift_between i j)) T)) (list_move i j xs)"
proof -
  have i: "i < length xs" and x: "xs ! i = x" and T: "\<And>y p. (y, p) \<in># T \<Longrightarrow> p \<noteq> i"
    using represents_take_out [OF assms(1)] by (auto simp: shift_up_def split: if_splits)
  have "represents (add_mset (x, j) (image_mset (apsnd (shift_up j)) (image_mset (apsnd (shift_down i)) T)))
      (insert_at j x (remove_at i xs))"
    using i assms(2) by (intro represents_insert represents_remove [OF assms(1)]) simp
  moreover have "image_mset (apsnd (shift_up j)) (image_mset (apsnd (shift_down i)) T)
      = image_mset (apsnd (shift_between i j)) T"
    unfolding multiset.map_comp
    by (intro image_mset_cong) (auto simp: shift_up_def shift_down_def shift_between_def dest!: T)
  ultimately show ?thesis using x by (simp add: list_move_def)
qed

lemma represents_exists_iff:
  "(\<exists>xs. represents (mset es) xs) \<longleftrightarrow> map snd (sort_key snd es) = [0..<length es]"
proof
  assume "\<exists>xs. represents (mset es) xs"
  then obtain xs where xs: "represents (mset es) xs" by blast
  then have "sort_key snd es = zip xs [0..<length xs]"
    using represents_sort_key [of "\<lambda>e. e" es xs] by simp
  moreover have "length xs = length es" using represents_size [OF xs] by simp
  ultimately show "map snd (sort_key snd es) = [0..<length es]" by simp
next
  assume a: "map snd (sort_key snd es) = [0..<length es]"
  let ?xs = "map fst (sort_key snd es)"
  have "zip ?xs [0..<length ?xs] = zip ?xs (map snd (sort_key snd es))" by (simp add: a)
  also have "\<dots> = sort_key snd es" by (rule zip_map_fst_snd)
  finally have "mset (zip ?xs [0..<length ?xs]) = mset es" by simp
  then show "\<exists>xs. represents (mset es) xs" unfolding represents_def by metis
qed

end
