(* ===== verification/Identifiers.thy ===== *)
theory Identifiers
  imports Prelude
begin

text \<open>
  Strongly typed external identifiers (\<open>src/domain/identifiers.rs\<close>): the canonical lowercase
  base32hex codec, the typed wrappers around a UUID, their display form and its parser.

  A UUID is represented by its sixteen bytes, which is the only view of it the code takes; the version
  and variant tests of the \<open>uuid\<close> crate are parameters. A \<open>&str\<close> is represented here by its UTF-8
  bytes, because the codec works on \<open>payload.bytes()\<close> and on byte lengths.
\<close>

unbundle bit_operations_syntax

type_synonym bytes = "u8 list"
type_synonym uuid = bytes

section \<open>The codec\<close>

definition ENCODED_LEN :: nat where
  "ENCODED_LEN = 26"

definition ALPHABET :: bytes where
  "ALPHABET = map of_char ''0123456789abcdefghijklmnopqrstuv''"

datatype id_error = WrongPrefix bytes | InvalidLength | NonCanonicalEncoding | NotUuidV7

fun encode_drain :: "u16 \<Rightarrow> nat \<Rightarrow> bytes \<Rightarrow> nat \<times> bytes" where
  "encode_drain buffer bits out =
     (if 5 \<le> bits then
        (let bits' = bits - 5;
             index = unat (drop_bit bits' buffer AND 0x1f)
         in encode_drain buffer bits' (out @ [ALPHABET ! index]))
      else (bits, out))"

fun encode_step :: "u16 \<times> nat \<times> bytes \<Rightarrow> u8 \<Rightarrow> u16 \<times> nat \<times> bytes" where
  "encode_step (buffer, bits, out) byte =
     (let buffer' = push_bit 8 buffer OR ucast byte;
          (bits', out') = encode_drain buffer' (bits + 8) out
      in (if 0 < bits' then buffer' AND (push_bit bits' 1 - 1) else 0, bits', out'))"

definition encode :: "bytes \<Rightarrow> bytes" where
  "encode bytes =
     (let (buffer, bits, out) = foldl encode_step (0, 0, []) bytes
      in if 0 < bits then out @ [ALPHABET ! unat (push_bit (5 - bits) buffer AND 0x1f)] else out)"

definition decode_char :: "u8 \<Rightarrow> u8 option" where
  "decode_char c =
     (if 0x30 \<le> c \<and> c \<le> 0x39 then Some (c - 0x30)
      else if 0x61 \<le> c \<and> c \<le> 0x76 then Some (c - 0x61 + 10)
      else None)"

definition try_u8 :: "u16 \<Rightarrow> u8 option" where
  "try_u8 w = (if w < 256 then Some (ucast w) else None)"

fun decode_step :: "bytes \<times> u16 \<times> nat \<Rightarrow> u8 \<Rightarrow> id_error + (bytes \<times> u16 \<times> nat)" where
  "decode_step (out, buffer, bits) character =
     try_bind (ok_or NonCanonicalEncoding (decode_char character)) (\<lambda>value.
       (let buffer' = push_bit 5 buffer OR ucast value;
            bits' = bits + 5
        in if 8 \<le> bits' then
             (if 16 \<le> length out then Inl NonCanonicalEncoding
              else try_bind (ok_or NonCanonicalEncoding (try_u8 (drop_bit (bits' - 8) buffer')))
                (\<lambda>byte. Inr (out @ [byte],
                   if 0 < bits' - 8 then buffer' AND (push_bit (bits' - 8) 1 - 1) else 0,
                   bits' - 8)))
           else Inr (out, buffer', bits')))"

definition decode :: "bytes \<Rightarrow> id_error + bytes" where
  "decode payload =
     (if length payload \<noteq> ENCODED_LEN then Inl InvalidLength
      else try_bind (try_fold decode_step ([], 0, 0) payload) (\<lambda>(out, buffer, bits).
        if length out \<noteq> 16 \<or> buffer AND (push_bit bits 1 - 1) \<noteq> 0
        then Inl NonCanonicalEncoding else Inr out))"

section \<open>Typed identifiers\<close>

datatype session_id = SessionId uuid
datatype thought_id = ThoughtId uuid
datatype separator_id = SeparatorId uuid
datatype revision_id = RevisionId uuid
datatype operation_id = OperationId uuid
datatype instance_id = InstanceId uuid
datatype request_id = RequestId uuid
datatype submission_id = SubmissionId uuid

definition validate_v7 :: "(uuid \<Rightarrow> bool) \<Rightarrow> (uuid \<Rightarrow> bool) \<Rightarrow> uuid \<Rightarrow> id_error + unit" where
  "validate_v7 sort_rand rfc4122 u = (if sort_rand u \<and> rfc4122 u then Inr () else Inl NotUuidV7)"

definition from_uuid :: "(uuid \<Rightarrow> bool) \<Rightarrow> (uuid \<Rightarrow> bool) \<Rightarrow> (uuid \<Rightarrow> 'id) \<Rightarrow> uuid \<Rightarrow> id_error + 'id" where
  "from_uuid sort_rand rfc4122 wrap u = try_bind (validate_v7 sort_rand rfc4122 u) (\<lambda>_. Inr (wrap u))"

definition display_id :: "bytes \<Rightarrow> uuid \<Rightarrow> bytes" where
  "display_id pre u = pre @ [0x5f] @ encode u"

definition strip_prefix :: "bytes \<Rightarrow> bytes \<Rightarrow> bytes option" where
  "strip_prefix pre s = (if take (length pre) s = pre then Some (drop (length pre) s) else None)"

definition from_str ::
  "(uuid \<Rightarrow> bool) \<Rightarrow> (uuid \<Rightarrow> bool) \<Rightarrow> bytes \<Rightarrow> (uuid \<Rightarrow> 'id) \<Rightarrow> bytes \<Rightarrow> id_error + 'id" where
  "from_str sort_rand rfc4122 pre wrap s =
     try_bind (ok_or (WrongPrefix pre) (strip_prefix (pre @ [0x5f]) s)) (\<lambda>payload.
       try_bind (decode payload) (\<lambda>u. from_uuid sort_rand rfc4122 wrap u))"

definition SES :: bytes where "SES = map of_char ''ses''"
definition THT :: bytes where "THT = map of_char ''tht''"
definition SEP :: bytes where "SEP = map of_char ''sep''"
definition REV :: bytes where "REV = map of_char ''rev''"
definition OP :: bytes where "OP = map of_char ''op''"
definition INS :: bytes where "INS = map of_char ''ins''"
definition REQ :: bytes where "REQ = map of_char ''req''"
definition SUB :: bytes where "SUB = map of_char ''sub''"

section \<open>Bit streams\<close>

text \<open>
  Both loops move a stream of bits, most significant first, from eight-bit to five-bit groups or back.
  \<open>bits_be n w\<close> is the stream of the low \<open>n\<close> bits of \<open>w\<close>.
\<close>

definition bits_be :: "nat \<Rightarrow> 'a::len word \<Rightarrow> bool list" where
  "bits_be n w = map (\<lambda>i. bit w (n - 1 - i)) [0..<n]"

definition char_bits :: "u8 \<Rightarrow> bool list" where
  "char_bits c = (case decode_char c of None \<Rightarrow> [] | Some v \<Rightarrow> bits_be 5 v)"

abbreviation byte_stream :: "bytes \<Rightarrow> bool list" where
  "byte_stream bs \<equiv> concat (map (bits_be 8) bs)"

abbreviation char_stream :: "bytes \<Rightarrow> bool list" where
  "char_stream cs \<equiv> concat (map char_bits cs)"

lemma length_bits_be [simp]: "length (bits_be n w) = n"
  by (simp add: bits_be_def)

lemma nth_bits_be [simp]: "i < n \<Longrightarrow> bits_be n w ! i = bit w (n - 1 - i)"
  by (simp add: bits_be_def)

lemma bits_be_0 [simp]: "bits_be 0 w = []"
  by (simp add: bits_be_def)

lemma bits_be_eqI: "(\<And>k. k < n \<Longrightarrow> bit v k = bit w k) \<Longrightarrow> bits_be n v = bits_be n w"
  by (rule nth_equalityI) auto

lemma bits_be_eqD:
  assumes "bits_be n v = bits_be n w" and "k < n"
  shows "bit v k = bit w k"
proof -
  have "bits_be n v ! (n - 1 - k) = bits_be n w ! (n - 1 - k)" using assms(1) by simp
  then show ?thesis using assms(2) by simp
qed

lemma bits_be_append:
  assumes "\<And>k. k < m \<Longrightarrow> bit u k = bit w k" and "\<And>k. k < n \<Longrightarrow> bit u (m + k) = bit v k"
  shows "bits_be (n + m) u = bits_be n v @ bits_be m w"
proof (rule nth_equalityI)
  fix i assume i: "i < length (bits_be (n + m) u)"
  show "bits_be (n + m) u ! i = (bits_be n v @ bits_be m w) ! i"
  proof (cases "i < n")
    case True
    have "n + m - 1 - i = m + (n - 1 - i)" using True by simp
    then show ?thesis using i True assms(2) [of "n - 1 - i"] by (simp add: nth_append)
  next
    case False
    have "n + m - 1 - i = m - 1 - (i - n)" using False i by simp
    then show ?thesis using i False assms(1) [of "m - 1 - (i - n)"] by (simp add: nth_append)
  qed
qed simp

lemma bits_be_inject: "bits_be 8 v = bits_be 8 w \<longleftrightarrow> v = (w :: u8)"
  by (auto intro!: bit_word_eqI dest: bits_be_eqD)

lemma bit_mask_sub: "bit (push_bit n 1 - 1 :: u16) k \<longleftrightarrow> k < n \<and> k < 16"
  using bit_mask_iff [of n k, where 'a = "16 word"]
  by (simp add: mask_eq_decr_exp push_bit_eq_mult conj_commute)

lemma ALPHABET_decode: "i < 32 \<Longrightarrow> decode_char (ALPHABET ! i) = Some (of_nat i)"
proof -
  have "list_all (\<lambda>i. decode_char (ALPHABET ! i) = Some (of_nat i)) [0..<32]"
    by code_simp
  then show "i < 32 \<Longrightarrow> decode_char (ALPHABET ! i) = Some (of_nat i)"
    by (simp add: list_all_iff)
qed

lemma decode_char_cases:
  assumes "decode_char c = Some v"
  obtains "48 \<le> unat c" "unat c \<le> 57" "unat v = unat c - 48"
    | "97 \<le> unat c" "unat c \<le> 118" "unat v = unat c - 87"
proof -
  from assms consider "0x30 \<le> c \<and> c \<le> 0x39 \<and> v = c - 0x30"
    | "0x61 \<le> c \<and> c \<le> 0x76 \<and> v = c - 0x61 + 10"
    by (auto simp: decode_char_def split: if_splits)
  then show thesis
  proof cases
    case 1
    then have "48 \<le> unat c \<and> unat c \<le> 57 \<and> unat v = unat c - 48"
      by (simp add: word_le_nat_alt unat_sub)
    then show thesis using that(1) by blast
  next
    case 2
    then have le: "97 \<le> unat c" "unat c \<le> 118" and v: "v = c - 87"
      by (simp_all add: word_le_nat_alt)
    from le have "unat v = unat c - 87" by (simp add: v unat_sub word_le_nat_alt)
    then show thesis using le that(2) by blast
  qed
qed

lemma decode_char_inject: "decode_char c = Some v \<Longrightarrow> decode_char d = Some v \<Longrightarrow> c = d"
  by (elim decode_char_cases) (simp_all add: word_unat_eq_iff)

lemma decode_char_less: "decode_char c = Some v \<Longrightarrow> unat v < 32"
  by (elim decode_char_cases) simp_all

lemma decode_char_ALPHABET: "decode_char c = Some v \<Longrightarrow> ALPHABET ! unat v = c"
  using decode_char_inject [of "ALPHABET ! unat v" v c] ALPHABET_decode [of "unat v"]
  by (simp add: decode_char_less)

lemma char_bits_ALPHABET: "char_bits (ALPHABET ! unat (w AND 0x1f)) = bits_be 5 (w :: u16)"
proof -
  have mask5: "(0x1f :: u16) = mask 5" by (simp add: mask_eq_exp_minus_1)
  have "unat (w AND 0x1f) < 32"
    using take_bit_nat_less_exp [of 5 "unat w"]
    by (simp add: mask5 take_bit_eq_mask [symmetric] unsigned_take_bit_eq)
  then have "char_bits (ALPHABET ! unat (w AND 0x1f)) = bits_be 5 (of_nat (unat (w AND 0x1f)) :: u8)"
    by (simp add: char_bits_def ALPHABET_decode)
  also have "\<dots> = bits_be 5 w"
    by (rule nth_equalityI) (auto simp: mask5 bit_simps)
  finally show ?thesis .
qed

lemma bit_mask_pow: "bit (2 ^ n - 1 :: u16) k \<longleftrightarrow> k < n \<and> k < 16"
  using bit_mask_sub [of n k] by (simp add: push_bit_eq_mult)

declare encode_drain.simps [simp del]

lemma encode_drain_stream:
  assumes "encode_drain buffer bits out = (bits', out')"
  shows "char_stream out' @ bits_be bits' buffer = char_stream out @ bits_be bits buffer
    \<and> bits' < 5 \<and> length out' * 5 + bits' = length out * 5 + bits"
  using assms
proof (induction buffer bits out rule: encode_drain.induct)
  case (1 buffer bits out)
  show ?case
  proof (cases "5 \<le> bits")
    case False
    then show ?thesis using "1.prems" by (simp add: encode_drain.simps [of buffer bits out])
  next
    case True
    let ?c = "ALPHABET ! unat (drop_bit (bits - 5) buffer AND 0x1f)"
    have rec: "encode_drain buffer (bits - 5) (out @ [?c]) = (bits', out')"
      using "1.prems" True by (simp add: encode_drain.simps [of buffer bits out] Let_def)
    have "bits_be (5 + (bits - 5)) buffer = bits_be 5 (drop_bit (bits - 5) buffer) @ bits_be (bits - 5) buffer"
      by (rule bits_be_append) (simp_all add: bit_simps)
    then have "bits_be bits buffer = char_bits ?c @ bits_be (bits - 5) buffer"
      using True by (simp add: char_bits_ALPHABET)
    then show ?thesis using "1.IH" [OF True refl refl rec] True by simp
  qed
qed

lemma encode_step_stream:
  assumes "encode_step (buffer, bits, out) byte = (buffer', bits', out')" and "bits < 5"
  shows "char_stream out' @ bits_be bits' buffer' = char_stream out @ bits_be bits buffer @ bits_be 8 byte
    \<and> bits' < 5 \<and> length out' * 5 + bits' = length out * 5 + bits + 8"
proof -
  let ?b = "push_bit 8 buffer OR (ucast byte :: u16)"
  obtain n o1 where d: "encode_drain ?b (bits + 8) out = (n, o1)" by force
  have r: "bits' = n" "out' = o1" "buffer' = (if 0 < n then ?b AND (push_bit n 1 - 1) else 0)"
    using assms(1) d by (auto simp: Let_def)
  have "bits_be (bits + 8) ?b = bits_be bits buffer @ bits_be 8 byte"
    using assms(2) by (intro bits_be_append) (auto simp: bit_simps dest: bit_imp_le_length)
  moreover have "bits_be n buffer' = bits_be n ?b"
    using encode_drain_stream [OF d] by (intro bits_be_eqI) (auto simp: r(3) bit_simps bit_mask_pow)
  ultimately show ?thesis using encode_drain_stream [OF d] by (simp add: r(1,2))
qed

lemma encode_fold_stream:
  assumes "foldl encode_step (buffer, bits, out) bs = (buffer', bits', out')" and "bits < 5"
  shows "char_stream out' @ bits_be bits' buffer' = char_stream out @ bits_be bits buffer @ byte_stream bs
    \<and> bits' < 5 \<and> length out' * 5 + bits' = length out * 5 + bits + 8 * length bs"
  using assms
proof (induction bs arbitrary: buffer bits out)
  case Nil
  then show ?case by simp
next
  case (Cons b bs)
  obtain b1 n1 o1 where s: "encode_step (buffer, bits, out) b = (b1, n1, o1)"
    by (metis prod_cases3)
  have one: "char_stream o1 @ bits_be n1 b1 = char_stream out @ bits_be bits buffer @ bits_be 8 b
      \<and> n1 < 5 \<and> length o1 * 5 + n1 = length out * 5 + bits + 8"
    by (rule encode_step_stream [OF s Cons.prems(2)])
  have "foldl encode_step (b1, n1, o1) bs = (buffer', bits', out')"
    using Cons.prems(1) by (simp add: s del: encode_step.simps)
  from Cons.IH [OF this] one
  have "char_stream out' @ bits_be bits' buffer' = (char_stream o1 @ bits_be n1 b1) @ byte_stream bs
    \<and> bits' < 5 \<and> length out' * 5 + bits' = length o1 * 5 + n1 + 8 * length bs" by simp
  then show ?case using one by simp
qed

text \<open>Sixteen bytes are 128 bits: 26 groups of five with two zero bits of padding.\<close>

lemma encode_stream:
  assumes "length bs = 16"
  shows "length (encode bs) = 26" and "char_stream (encode bs) = byte_stream bs @ [False, False]"
proof -
  obtain buffer bits out where f: "foldl encode_step (0, 0, []) bs = (buffer, bits, out)"
    by (metis prod_cases3)
  have s: "char_stream out @ bits_be bits buffer = byte_stream bs" "bits < 5"
      "length out * 5 + bits = 128"
    using encode_fold_stream [OF f] assms by simp_all
  have out: "length out = 25" and bits: "bits = 3" using s(2,3) by presburger+
  have e: "encode bs = out @ [ALPHABET ! unat (push_bit 2 buffer AND 0x1f)]"
    by (simp add: encode_def f bits)
  have "bits_be (3 + 2) (push_bit 2 buffer) = bits_be 3 buffer @ bits_be 2 (0 :: u16)"
    by (rule bits_be_append) (auto simp: bit_simps)
  moreover have "bits_be 2 (0 :: u16) = [False, False]" by (simp add: bits_be_def upt_rec)
  ultimately have "char_stream (encode bs) = char_stream out @ bits_be 3 buffer @ [False, False]"
    by (simp add: e char_bits_ALPHABET)
  then show "char_stream (encode bs) = byte_stream bs @ [False, False]"
    using s(1) by (simp add: bits flip: append_assoc)
  show "length (encode bs) = 26" by (simp add: e out)
qed

lemma less_256_high_bits:
  assumes "\<And>k. 8 \<le> k \<Longrightarrow> \<not> bit w k"
  shows "(w :: u16) < 256"
proof -
  have "take_bit 8 w = w"
    by (rule bit_word_eqI) (use assms in \<open>auto simp: bit_simps not_less [symmetric]\<close>)
  then have "unat w = take_bit 8 (unat w)" by (metis unsigned_take_bit_eq)
  then have "unat w < 2 ^ 8" by (metis take_bit_nat_less_exp)
  then show ?thesis by (simp add: word_less_nat_alt)
qed

lemma decode_char_high:
  assumes "decode_char c = Some v" and "5 \<le> k"
  shows "\<not> bit v k"
proof -
  have "unat v < 2 ^ 5" using decode_char_less [OF assms(1)] by simp
  also have "(2 :: nat) ^ 5 \<le> 2 ^ k" using assms(2) by (intro power_increasing) auto
  finally have "\<not> bit (unat v) k" by (simp add: bit_iff_odd)
  then show ?thesis by (simp add: bit_unsigned_iff)
qed

definition decode_inv :: "bytes \<Rightarrow> bytes \<times> u16 \<times> nat \<Rightarrow> bool" where
  "decode_inv cs = (\<lambda>(out, buffer, bits).
     byte_stream out @ bits_be bits buffer = char_stream cs \<and> bits < 8
     \<and> (\<forall>k \<ge> bits. \<not> bit buffer k) \<and> length out * 8 + bits = length cs * 5
     \<and> (\<forall>c \<in> set cs. decode_char c \<noteq> None))"

lemma decode_step_inv:
  assumes inv: "decode_inv cs (out, buffer, bits)" and v: "decode_char c = Some v"
    and room: "8 \<le> bits + 5 \<Longrightarrow> length out < 16"
  shows "\<exists>s'. decode_step (out, buffer, bits) c = Inr s' \<and> decode_inv (cs @ [c]) s'"
proof -
  let ?b = "push_bit 5 buffer OR (ucast v :: u16)"
  note high = decode_char_high [OF v]
  from inv have st: "byte_stream out @ bits_be bits buffer = char_stream cs" and bits: "bits < 8"
    and clear: "\<And>k. bits \<le> k \<Longrightarrow> \<not> bit buffer k" and len: "length out * 8 + bits = length cs * 5"
    and all: "\<forall>c \<in> set cs. decode_char c \<noteq> None"
    by (auto simp: decode_inv_def)
  have clear': "\<And>k. bits + 5 \<le> k \<Longrightarrow> \<not> bit ?b k"
    using clear high by (auto simp: bit_simps)
  have "bits_be (bits + 5) ?b = bits_be bits buffer @ bits_be 5 v"
    using bits by (intro bits_be_append) (auto simp: bit_simps high dest: bit_imp_le_length)
  then have st': "byte_stream out @ bits_be (bits + 5) ?b = char_stream (cs @ [c])"
    using st v by (simp add: char_bits_def flip: append_assoc)
  show ?thesis
  proof (cases "8 \<le> bits + 5")
    case False
    then show ?thesis using v st' clear' len all by (simp add: decode_inv_def Let_def)
  next
    case True
    define m where "m = bits + 5 - 8"
    have m: "bits + 5 = 8 + m" using True by (simp add: m_def)
    have "drop_bit m ?b < 256"
    proof (rule less_256_high_bits)
      fix k :: nat assume "8 \<le> k"
      then have "\<not> bit ?b (m + k)" using m by (intro clear') simp
      then show "\<not> bit (drop_bit m ?b) k" by (simp only: bit_drop_bit_eq o_apply not_False_eq_True)
    qed
    then have byte: "try_u8 (drop_bit m ?b) = Some (ucast (drop_bit m ?b))"
      by (simp add: try_u8_def)
    let ?b' = "if 0 < m then ?b AND (push_bit m 1 - 1) else 0"
    have "bits_be (8 + m) ?b = bits_be 8 (ucast (drop_bit m ?b) :: u8) @ bits_be m ?b'"
      using bits m by (intro bits_be_append) (auto simp: bit_simps bit_mask_pow)
    then have "byte_stream (out @ [ucast (drop_bit m ?b)]) @ bits_be m ?b' = char_stream (cs @ [c])"
      using st' by (simp add: m)
    moreover have "\<forall>k \<ge> m. \<not> bit ?b' k" by (auto simp: bit_simps bit_mask_pow)
    ultimately have "decode_inv (cs @ [c]) (out @ [ucast (drop_bit m ?b)], ?b', m)"
      using bits m len all v by (simp add: decode_inv_def)
    moreover have "decode_step (out, buffer, bits) c = Inr (out @ [ucast (drop_bit m ?b)], ?b', m)"
      using True room [OF True] v byte by (simp add: Let_def m_def)
    ultimately show ?thesis by blast
  qed
qed

lemma decode_fold_inv:
  assumes "decode_inv ds s" and "\<forall>c \<in> set cs. decode_char c \<noteq> None" and "length (ds @ cs) \<le> 26"
  shows "\<exists>s'. try_fold decode_step s cs = Inr s' \<and> decode_inv (ds @ cs) s'"
  using assms
proof (induction cs arbitrary: ds s)
  case Nil
  then show ?case by simp
next
  case (Cons c cs)
  obtain out buffer bits where s: "s = (out, buffer, bits)" by (metis prod_cases3)
  from Cons.prems(2) obtain v where v: "decode_char c = Some v" by auto
  have "length out * 8 + bits = length ds * 5" using Cons.prems(1) by (simp add: s decode_inv_def)
  then have room: "8 \<le> bits + 5 \<Longrightarrow> length out < 16" using Cons.prems(3) by simp
  obtain s1 where s1: "decode_step s c = Inr s1" "decode_inv (ds @ [c]) s1"
    using decode_step_inv [OF Cons.prems(1) [unfolded s] v room] unfolding s by blast
  from Cons.IH [OF s1(2)] Cons.prems(2,3) s1(1) show ?case by (simp del: decode_step.simps)
qed

lemma decode_fold_chars:
  "try_fold decode_step s cs = Inr s' \<Longrightarrow> \<forall>c \<in> set cs. decode_char c \<noteq> None"
proof (induction cs arbitrary: s)
  case Nil
  then show ?case by simp
next
  case (Cons c cs)
  then show ?case by (cases s rule: prod_cases3) auto
qed

lemma decode_inv_init: "decode_inv [] ([], 0, 0)"
  by (simp add: decode_inv_def)

lemma concat_map_blocks_inject:
  assumes "concat (map f xs) = concat (map f ys)" and "length xs = length ys"
    and "\<And>x. x \<in> set xs \<union> set ys \<Longrightarrow> length (f x) = w" and "inj_on f (set xs \<union> set ys)"
  shows "xs = ys"
  using assms(2,1,3,4)
proof (induction xs ys rule: list_induct2)
  case Nil
  then show ?case by simp
next
  case (Cons x xs y ys)
  have "f x = f y" and rest: "concat (map f xs) = concat (map f ys)"
    using Cons.prems(1) Cons.prems(2) [of x] Cons.prems(2) [of y] by auto
  then have "x = y" using Cons.prems(3) by (meson UnI1 UnI2 inj_onD list.set_intros(1))
  moreover have "xs = ys"
    by (rule Cons.IH [OF rest]) (use Cons.prems(2,3) in \<open>auto intro: inj_on_subset\<close>)
  ultimately show ?case by simp
qed

lemma bits_be5_inject:
  assumes "decode_char c = Some v" and "decode_char d = Some w" and "bits_be 5 v = bits_be 5 w"
  shows "c = d"
proof -
  have "bit v k = bit w k" for k
    using bits_be_eqD [OF assms(3)] decode_char_high [OF assms(1)] decode_char_high [OF assms(2)]
    by (cases "k < 5") (auto simp: not_less)
  then have "v = w" by (intro bit_word_eqI) simp
  then show ?thesis using assms(1,2) decode_char_inject by blast
qed

lemma char_stream_inject:
  assumes "char_stream cs = char_stream ds" and "length cs = length ds"
    and "\<forall>c \<in> set cs \<union> set ds. decode_char c \<noteq> None"
  shows "cs = ds"
proof (rule concat_map_blocks_inject [OF assms(1,2), of 5])
  show "\<And>x. x \<in> set cs \<union> set ds \<Longrightarrow> length (char_bits x) = 5"
    using assms(3) by (auto simp: char_bits_def split: option.splits)
  show "inj_on char_bits (set cs \<union> set ds)"
  proof (rule inj_onI)
    fix x y assume "x \<in> set cs \<union> set ds" "y \<in> set cs \<union> set ds" and e: "char_bits x = char_bits y"
    then obtain v w where "decode_char x = Some v" "decode_char y = Some w" using assms(3) by blast
    moreover from this have "bits_be 5 v = bits_be 5 w" using e by (simp add: char_bits_def)
    ultimately show "x = y" by (rule bits_be5_inject)
  qed
qed

lemma byte_stream_inject: "byte_stream bs = byte_stream cs \<Longrightarrow> length bs = length cs \<Longrightarrow> bs = cs"
  by (rule concat_map_blocks_inject [of "bits_be 8" _ _ 8]) (auto simp: inj_on_def bits_be_inject)

lemma length_char_stream_le: "length (char_stream cs) \<le> 5 * length cs"
  by (induction cs) (auto simp: char_bits_def split: option.splits)

lemma char_stream_full:
  "length (char_stream cs) = 5 * length cs \<Longrightarrow> \<forall>c \<in> set cs. decode_char c \<noteq> None"
proof (induction cs)
  case Nil
  then show ?case by simp
next
  case (Cons c cs)
  have "length (char_bits c) = 5"
    using Cons.prems length_char_stream_le [of cs] length_char_stream_le [of "[c]"] by simp
  then have "decode_char c \<noteq> None" by (auto simp: char_bits_def split: option.splits)
  moreover have "length (char_stream cs) = 5 * length cs"
    using Cons.prems \<open>length (char_bits c) = 5\<close> by simp
  ultimately show ?case using Cons.IH by simp
qed

lemma length_byte_stream [simp]: "length (byte_stream bs) = 8 * length bs"
  by (induction bs) simp_all

lemma encode_chars: "length bs = 16 \<Longrightarrow> \<forall>c \<in> set (encode bs). decode_char c \<noteq> None"
  by (rule char_stream_full) (simp only: encode_stream length_append length_byte_stream, simp)

text \<open>A decoded payload and the encoding of its result carry the same 130 bits.\<close>

lemma decode_stream_iff:
  assumes "length payload = 26" and "\<forall>c \<in> set payload. decode_char c \<noteq> None"
  shows "decode payload = Inr bs \<longleftrightarrow> length bs = 16 \<and> char_stream payload = byte_stream bs @ [False, False]"
proof -
  obtain out buffer bits where f: "try_fold decode_step ([], 0, 0) payload = Inr (out, buffer, bits)"
    and inv: "decode_inv payload (out, buffer, bits)"
    using decode_fold_inv [OF decode_inv_init assms(2)] assms(1) by (metis append_Nil order_refl prod_cases3)
  from inv assms(1) have st: "byte_stream out @ bits_be bits buffer = char_stream payload"
    and "bits < 8" and len: "length out * 8 + bits = 130" by (auto simp: decode_inv_def)
  then have out: "length out = 16" and bits: "bits = 2" by presburger+
  have pad: "buffer AND (push_bit 2 1 - 1) = 0 \<longleftrightarrow> bits_be 2 buffer = [False, False]"
  proof -
    have "bits_be 2 buffer = [bit buffer 1, bit buffer 0]" by (simp add: bits_be_def upt_rec)
    moreover have "buffer AND (push_bit 2 1 - 1) = 0 \<longleftrightarrow> \<not> bit buffer 0 \<and> \<not> bit buffer 1"
    proof
      assume z: "buffer AND (push_bit 2 1 - 1) = 0"
      have "\<not> bit (buffer AND (push_bit 2 1 - 1)) n" for n unfolding z by simp
      then have "\<not> (bit buffer n \<and> n < 2 \<and> n < 16)" for n
        unfolding bit_and_iff bit_mask_sub by blast
      from this [of 0] this [of 1] show "\<not> bit buffer 0 \<and> \<not> bit buffer 1" by simp
    next
      assume "\<not> bit buffer 0 \<and> \<not> bit buffer 1"
      then have "\<not> (bit buffer n \<and> n < 2 \<and> n < 16)" for n by (metis One_nat_def less_2_cases)
      then have "\<not> bit (buffer AND (push_bit 2 1 - 1)) n" for n
        unfolding bit_and_iff bit_mask_sub by blast
      then show "buffer AND (push_bit 2 1 - 1) = 0" by (intro bit_word_eqI) simp
    qed
    ultimately show ?thesis by auto
  qed
  have "decode payload = Inr bs \<longleftrightarrow> bs = out \<and> bits_be 2 buffer = [False, False]"
    using assms(1) f out bits pad by (auto simp: decode_def ENCODED_LEN_def)
  also have "\<dots> \<longleftrightarrow> length bs = 16 \<and> char_stream payload = byte_stream bs @ [False, False]"
    (is "?L \<longleftrightarrow> ?R")
  proof
    assume ?L then show ?R using st out bits by simp
  next
    assume R: ?R
    have "byte_stream out @ bits_be 2 buffer = byte_stream bs @ [False, False]"
      using R st bits by simp
    then have "byte_stream out = byte_stream bs \<and> bits_be 2 buffer = [False, False]"
      using R out by (subst (asm) append_eq_append_conv) simp_all
    then show ?L using byte_stream_inject R out by metis
  qed
  finally show ?thesis .
qed

section \<open>Round trips\<close>

lemma decode_encode: "length bs = 16 \<Longrightarrow> decode (encode bs) = Inr bs"
  using decode_stream_iff [of "encode bs" bs] by (simp add: encode_stream encode_chars)

lemma encode_decode:
  assumes "decode payload = Inr bs"
  shows "length bs = 16 \<and> encode bs = payload"
proof -
  obtain s' where f: "try_fold decode_step ([], 0, 0) payload = Inr s'" and len: "length payload = 26"
    using assms by (auto simp: decode_def ENCODED_LEN_def split: if_splits)
  note chars = decode_fold_chars [OF f]
  have bs: "length bs = 16" and "char_stream payload = byte_stream bs @ [False, False]"
    using decode_stream_iff [OF len chars, of bs] assms by simp_all
  then have "char_stream (encode bs) = char_stream payload" by (simp add: encode_stream)
  then have "encode bs = payload"
    using bs len chars by (intro char_stream_inject) (auto simp: encode_stream dest: encode_chars)
  then show ?thesis using bs by simp
qed

lemma strip_prefix_append [simp]: "strip_prefix p (p @ s) = Some s"
  by (simp add: strip_prefix_def)

lemma strip_prefix_Some: "strip_prefix p s = Some r \<Longrightarrow> s = p @ r"
  by (auto simp: strip_prefix_def split: if_splits) (metis append_take_drop_id)

text \<open>C17: Parsing inverts printing and accepts nothing else: a typed identifier's text parses to that
  identifier exactly when its UUID passes the version and variant test, and any text that parses is
  the display form of the identifier it denotes, so the external spelling is canonical.\<close>

theorem from_str_iff_display:
  "from_str sort_rand rfc4122 pre wrap s = Inr i \<longleftrightarrow>
    (\<exists>u. length u = 16 \<and> sort_rand u \<and> rfc4122 u \<and> i = wrap u \<and> s = display_id pre u)"
proof
  assume "from_str sort_rand rfc4122 pre wrap s = Inr i"
  then obtain payload u where p: "strip_prefix (pre @ [0x5f]) s = Some payload"
    and u: "decode payload = Inr u" and "sort_rand u" "rfc4122 u" "i = wrap u"
    by (auto simp: from_str_def from_uuid_def validate_v7_def split: if_splits)
  moreover have "s = display_id pre u"
    using strip_prefix_Some [OF p] encode_decode [OF u] by (simp add: display_id_def)
  ultimately show "\<exists>u. length u = 16 \<and> sort_rand u \<and> rfc4122 u \<and> i = wrap u \<and> s = display_id pre u"
    using encode_decode [OF u] by blast
next
  assume "\<exists>u. length u = 16 \<and> sort_rand u \<and> rfc4122 u \<and> i = wrap u \<and> s = display_id pre u"
  then obtain u where u: "length u = 16" "sort_rand u" "rfc4122 u" "i = wrap u" "s = display_id pre u"
    by blast
  have "strip_prefix (pre @ [0x5f]) s = Some (encode u)"
    using strip_prefix_append [of "pre @ [0x5f]" "encode u"] by (simp add: u(5) display_id_def)
  then show "from_str sort_rand rfc4122 pre wrap s = Inr i"
    using u by (simp add: from_str_def from_uuid_def validate_v7_def decode_encode)
qed

end
