(* ===== verification/Rust_Text.thy ===== *)
theory Rust_Text
  imports Prelude
begin

text \<open>
  The part of Rust's \<open>str\<close> and \<open>char\<close> the program uses. A \<open>String\<close> is the list of its Unicode scalar
  values; \<open>str_len\<close> is its UTF-8 byte length, and \<open>split_at\<close>, \<open>is_char_boundary\<close>, \<open>str_get\<close> address it by
  byte offsets the way the library does: an offset inside a character is no boundary, and \<open>get\<close>
  returns \<open>None\<close> there. Whitespace is Unicode's \<open>White_Space\<close> and control characters are category
  \<open>Cc\<close>, as in \<open>char::is_whitespace\<close> and \<open>char::is_control\<close>.
\<close>

type_synonym rstr = "nat list"

abbreviation lit :: "string \<Rightarrow> rstr" where
  "lit s \<equiv> map of_char s"

definition utf8_len :: "nat \<Rightarrow> nat" where
  "utf8_len c = (if c < 0x80 then 1 else if c < 0x800 then 2 else if c < 0x10000 then 3 else 4)"

definition str_len :: "rstr \<Rightarrow> nat" where
  "str_len s = sum_list (map utf8_len s)"

fun split_at :: "rstr \<Rightarrow> nat \<Rightarrow> (rstr \<times> rstr) option" where
  "split_at s 0 = Some ([], s)"
| "split_at [] (Suc n) = None"
| "split_at (c # s) (Suc n) =
     (if utf8_len c \<le> Suc n then map_option (apfst (Cons c)) (split_at s (Suc n - utf8_len c)) else None)"

definition is_char_boundary :: "rstr \<Rightarrow> nat \<Rightarrow> bool" where
  "is_char_boundary s i \<longleftrightarrow> split_at s i \<noteq> None"

definition get_to :: "rstr \<Rightarrow> nat \<Rightarrow> rstr option" where
  "get_to s i = map_option fst (split_at s i)"

definition get_from :: "rstr \<Rightarrow> nat \<Rightarrow> rstr option" where
  "get_from s i = map_option snd (split_at s i)"

definition str_get :: "rstr \<Rightarrow> nat \<Rightarrow> nat \<Rightarrow> rstr option" where
  "str_get s a b =
     (if a \<le> b then Option.bind (get_to s b) (\<lambda>p. get_from p a) else None)"

definition is_whitespace :: "nat \<Rightarrow> bool" where
  "is_whitespace c \<longleftrightarrow> (0x9 \<le> c \<and> c \<le> 0xd) \<or> c = 0x20 \<or> c = 0x85 \<or> c = 0xa0 \<or> c = 0x1680
     \<or> (0x2000 \<le> c \<and> c \<le> 0x200a) \<or> c = 0x2028 \<or> c = 0x2029 \<or> c = 0x202f \<or> c = 0x205f \<or> c = 0x3000"

definition is_control :: "nat \<Rightarrow> bool" where
  "is_control c \<longleftrightarrow> c < 0x20 \<or> (0x7f \<le> c \<and> c < 0xa0)"

definition trim_start :: "rstr \<Rightarrow> rstr" where
  "trim_start s = dropWhile is_whitespace s"

definition trim_end :: "rstr \<Rightarrow> rstr" where
  "trim_end s = rev (dropWhile is_whitespace (rev s))"

definition trim :: "rstr \<Rightarrow> rstr" where
  "trim s = trim_end (trim_start s)"

definition starts_with_char :: "rstr \<Rightarrow> nat \<Rightarrow> bool" where
  "starts_with_char s c \<longleftrightarrow> (case s of [] \<Rightarrow> False | d # _ \<Rightarrow> d = c)"

fun join :: "rstr \<Rightarrow> rstr list \<Rightarrow> rstr" where
  "join sep [] = []"
| "join sep [s] = s"
| "join sep (s # t # ts) = s @ sep @ join sep (t # ts)"

lemma utf8_len_pos [simp]: "0 < utf8_len c"
  by (simp add: utf8_len_def)

lemma str_len_simps [simp]:
  "str_len [] = 0"
  "str_len (c # s) = utf8_len c + str_len s"
  "str_len (s @ t) = str_len s + str_len t"
  by (simp_all add: str_len_def)

lemma str_len_0_iff [simp]: "str_len s = 0 \<longleftrightarrow> s = []"
  by (cases s) (auto simp: less_imp_neq [OF utf8_len_pos, symmetric])

text \<open>Cutting at a byte offset is cutting the character list, since every character has bytes.\<close>

lemma append_str_len_inject:
  assumes "p @ q = p' @ q'" and "str_len p = str_len p'"
  shows "p = p' \<and> q = q'"
proof -
  from assms(1) obtain us where "p = p' @ us \<and> us @ q = q' \<or> p @ us = p' \<and> q = us @ q'"
    by (auto simp: append_eq_append_conv2)
  then show ?thesis using assms(2) by auto
qed

lemma split_at_Some_iff: "split_at s n = Some (p, q) \<longleftrightarrow> s = p @ q \<and> str_len p = n"
proof
  show "split_at s n = Some (p, q) \<Longrightarrow> s = p @ q \<and> str_len p = n"
    by (induction s n arbitrary: p q rule: split_at.induct) (auto split: if_splits)
  have "split_at (p @ q) (str_len p) = Some (p, q)"
  proof (induction p)
    case Nil
    then show ?case by simp
  next
    case (Cons c p)
    obtain m where m: "utf8_len c + str_len p = Suc m"
      using utf8_len_pos [of c] by (metis add_is_0 gr0_implies_Suc less_numeral_extra(3) neq0_conv)
    then have "Suc m - utf8_len c = str_len p" and "utf8_len c \<le> Suc m" by simp_all
    then show ?case using Cons by (simp add: m del: Suc_diff_le)
  qed
  then show "s = p @ q \<and> str_len p = n \<Longrightarrow> split_at s n = Some (p, q)" by auto
qed

lemma is_char_boundary_iff: "is_char_boundary s i \<longleftrightarrow> (\<exists>p q. s = p @ q \<and> str_len p = i)"
  using split_at_Some_iff [of s i] by (auto simp: is_char_boundary_def)

lemma is_char_boundary_append [intro, simp]: "is_char_boundary (p @ q) (str_len p)"
  by (auto simp: is_char_boundary_iff)

lemma is_char_boundary_0 [simp]: "is_char_boundary s 0"
  by (simp add: is_char_boundary_def)

lemma is_char_boundary_len [simp]: "is_char_boundary s (str_len s)"
  using is_char_boundary_append [of s "[]"] by simp

lemma is_char_boundary_le: "is_char_boundary s i \<Longrightarrow> i \<le> str_len s"
  by (auto simp: is_char_boundary_iff)

lemma get_to_Some_iff: "get_to s i = Some p \<longleftrightarrow> (\<exists>q. s = p @ q \<and> str_len p = i)"
  by (auto simp: get_to_def split_at_Some_iff)

lemma get_from_Some_iff: "get_from s i = Some q \<longleftrightarrow> (\<exists>p. s = p @ q \<and> str_len p = i)"
  by (auto simp: get_from_def split_at_Some_iff)

lemma str_get_Some_iff:
  "str_get s a b = Some m \<longleftrightarrow> (\<exists>p q. s = p @ m @ q \<and> str_len p = a \<and> str_len p + str_len m = b)"
proof
  assume "str_get s a b = Some m"
  then obtain y q p where "s = y @ q" "str_len y = b" "y = p @ m" "str_len p = a"
    by (auto simp: str_get_def bind_eq_Some_conv get_to_Some_iff get_from_Some_iff split: if_splits)
  then have "s = p @ m @ q \<and> str_len p = a \<and> str_len p + str_len m = b" by simp
  then show "\<exists>p q. s = p @ m @ q \<and> str_len p = a \<and> str_len p + str_len m = b" by blast
next
  assume "\<exists>p q. s = p @ m @ q \<and> str_len p = a \<and> str_len p + str_len m = b"
  then obtain p q where s: "s = (p @ m) @ q" "str_len p = a" "str_len (p @ m) = b" by auto
  then have "get_to s b = Some (p @ m)" and "get_from (p @ m) a = Some m"
    unfolding get_to_Some_iff get_from_Some_iff by blast+
  then show "str_get s a b = Some m" using s(2,3) by (auto simp: str_get_def)
qed

lemma boundary_shift_left:
  "i \<le> str_len p \<Longrightarrow> is_char_boundary (p @ q) i \<longleftrightarrow> is_char_boundary p i"
proof
  assume le: "i \<le> str_len p" and "is_char_boundary (p @ q) i"
  then obtain u v where uv: "p @ q = u @ v" "str_len u = i" by (auto simp: is_char_boundary_iff)
  then consider us where "p = u @ us" | us where "u = p @ us" by (auto simp: append_eq_append_conv2)
  then show "is_char_boundary p i"
  proof cases
    case 1
    then show ?thesis using uv(2) by auto
  next
    case 2
    then have "str_len us = 0" using le uv(2) by (simp del: str_len_0_iff)
    then show ?thesis using 2 uv(2) by auto
  qed
next
  assume "is_char_boundary p i"
  then obtain u v where "p = u @ v" "str_len u = i" by (auto simp: is_char_boundary_iff)
  then have "p @ q = u @ (v @ q) \<and> str_len u = i" by simp
  then show "is_char_boundary (p @ q) i" unfolding is_char_boundary_iff by blast
qed

lemma boundary_shift_right:
  "str_len p \<le> i \<Longrightarrow> is_char_boundary (p @ q) i \<longleftrightarrow> is_char_boundary q (i - str_len p)"
proof
  assume le: "str_len p \<le> i" and "is_char_boundary (p @ q) i"
  then obtain u v where uv: "p @ q = u @ v" "str_len u = i" by (auto simp: is_char_boundary_iff)
  then consider us where "p = u @ us" | us where "u = p @ us" "us @ v = q"
    by (auto simp: append_eq_append_conv2)
  then show "is_char_boundary q (i - str_len p)"
  proof cases
    case 1
    then have "i = str_len p" using le uv(2) by simp
    then show ?thesis by simp
  next
    case 2
    then show ?thesis using uv(2) by auto
  qed
next
  assume le: "str_len p \<le> i" and "is_char_boundary q (i - str_len p)"
  then obtain u v where "q = u @ v" "str_len u = i - str_len p" by (auto simp: is_char_boundary_iff)
  then have "p @ q = (p @ u) @ v \<and> str_len (p @ u) = i" using le by simp
  then show "is_char_boundary (p @ q) i" unfolding is_char_boundary_iff by blast
qed

lemma option_eq_by_Some: "(\<And>m. x = Some m \<longleftrightarrow> y = Some m) \<Longrightarrow> x = y"
  by (cases x; cases y) auto

lemma str_get_append_right: "str_get (p @ t) (str_len p + i) (str_len p + j) = str_get t i j"
proof (rule option_eq_by_Some)
  fix m
  show "str_get (p @ t) (str_len p + i) (str_len p + j) = Some m \<longleftrightarrow> str_get t i j = Some m"
  proof
    assume "str_get (p @ t) (str_len p + i) (str_len p + j) = Some m"
    then obtain u v where uv: "p @ t = u @ m @ v" "str_len u = str_len p + i" "str_len m + i = j"
      by (auto simp: str_get_Some_iff)
    then have "is_char_boundary (p @ t) (str_len p + i)" unfolding is_char_boundary_iff by blast
    then obtain w x where wx: "t = w @ x" "str_len w = i"
      using boundary_shift_right [of p "str_len p + i" t] by (auto simp: is_char_boundary_iff)
    have "u @ m @ v = (p @ w) @ x" "str_len u = str_len (p @ w)" using uv wx by simp_all
    then have "m @ v = x" by (metis append_str_len_inject)
    then show "str_get t i j = Some m" using wx uv(3) by (auto simp: str_get_Some_iff)
  next
    assume "str_get t i j = Some m"
    then obtain u v where "t = u @ m @ v" "str_len u = i" "str_len u + str_len m = j"
      by (auto simp: str_get_Some_iff)
    then have "p @ t = (p @ u) @ m @ v \<and> str_len (p @ u) = str_len p + i
        \<and> str_len (p @ u) + str_len m = str_len p + j" by simp
    then show "str_get (p @ t) (str_len p + i) (str_len p + j) = Some m"
      unfolding str_get_Some_iff by blast
  qed
qed

lemma str_get_append_left:
  assumes "j \<le> str_len t"
  shows "str_get (t @ q) i j = str_get t i j"
proof (rule option_eq_by_Some)
  fix m
  show "str_get (t @ q) i j = Some m \<longleftrightarrow> str_get t i j = Some m"
  proof
    assume "str_get (t @ q) i j = Some m"
    then obtain u v where uv: "t @ q = (u @ m) @ v" "str_len u = i" "str_len (u @ m) = j"
      by (auto simp: str_get_Some_iff)
    then have "is_char_boundary (t @ q) j" unfolding is_char_boundary_iff by blast
    then obtain w x where wx: "t = w @ x" "str_len w = j"
      using boundary_shift_left [OF assms] by (auto simp: is_char_boundary_iff)
    have "(u @ m) @ v = w @ (x @ q)" "str_len (u @ m) = str_len w" using uv wx by simp_all
    then have "u @ m = w" by (metis append_str_len_inject)
    then have "t = u @ m @ x" using wx(1) by simp
    then show "str_get t i j = Some m" using uv(2,3) by (auto simp: str_get_Some_iff)
  next
    assume "str_get t i j = Some m"
    then obtain u v where "t = u @ m @ v" "str_len u = i" "str_len u + str_len m = j"
      by (auto simp: str_get_Some_iff)
    then have "t @ q = u @ m @ (v @ q) \<and> str_len u = i \<and> str_len u + str_len m = j" by simp
    then show "str_get (t @ q) i j = Some m" unfolding str_get_Some_iff by blast
  qed
qed

lemma str_get_is_Some: "str_get s a b \<noteq> None \<longleftrightarrow> a \<le> b \<and> is_char_boundary s a \<and> is_char_boundary s b"
proof
  assume "str_get s a b \<noteq> None"
  then obtain m p q where "s = p @ m @ q" "str_len p = a" "str_len p + str_len m = b"
    by (auto simp: str_get_Some_iff)
  then have "s = p @ (m @ q) \<and> str_len p = a" "s = (p @ m) @ q \<and> str_len (p @ m) = b" "a \<le> b" by auto
  then show "a \<le> b \<and> is_char_boundary s a \<and> is_char_boundary s b"
    unfolding is_char_boundary_iff by blast
next
  assume "a \<le> b \<and> is_char_boundary s a \<and> is_char_boundary s b"
  then obtain p q where pq: "s = p @ q" "str_len p = b" and a: "is_char_boundary p a"
    using boundary_shift_left by (metis is_char_boundary_iff)
  then obtain u m where "p = u @ m" "str_len u = a" by (auto simp: is_char_boundary_iff)
  then have "s = u @ m @ q \<and> str_len u = a \<and> str_len u + str_len m = b" using pq by simp
  then show "str_get s a b \<noteq> None" unfolding not_None_eq str_get_Some_iff by blast
qed

lemma join_Cons: "ts \<noteq> [] \<Longrightarrow> join sep (s # ts) = s @ sep @ join sep ts"
  by (cases ts) simp_all

end
