(* ===== verification/Domain_Values.thy ===== *)
theory Domain_Values
  imports Identifiers Rust_Text
begin

text \<open>
  Value objects of the domain: time stamps, sequences, positions, presentation, optional names and
  the typed domain error (\<open>src/domain/model.rs\<close>, \<open>src/domain/thought_name.rs\<close>,
  \<open>src/domain/text.rs\<close>, \<open>src/domain/model/session.rs\<close> for the session-name rule).

  A \<open>Timestamp\<close> is an \<open>int\<close> of milliseconds (the code compares time stamps and never adds them);
  a \<open>PathBuf\<close> is its bytes;
  \<open>OperationSequence\<close> and \<open>ThoughtPosition\<close> keep their widths, 64 and 32 bits.
\<close>

type_synonym path = bytes
type_synonym timestamp = int
type_synonym operation_sequence = u64
type_synonym thought_position = u32

definition checked_next :: "operation_sequence \<Rightarrow> operation_sequence option" where
  "checked_next q = checked_succ64 q"

record text_position =
  line :: nat
  grapheme :: nat

datatype thought_name = ThoughtName rstr

datatype thought_presentation = Automatic | Expanded | Collapsed

datatype domain_error =
    InvalidThoughtName
  | InvalidThoughtPresentation rstr
  | BlankSessionName
  | InvalidBrowserOperation
  | RelativeDirectory path
  | WrongSession thought_id session_id
  | WrongSeparatorSession separator_id session_id
  | ThoughtNotFound thought_id
  | ThoughtAlreadyExists thought_id
  | SeparatorNotFound separator_id
  | SeparatorAlreadyExists separator_id
  | DuplicateThoughtId thought_id
  | DuplicateSeparatorId separator_id
  | InvalidPosition nat nat
  | NonNormalizedPositions
  | SequenceExhausted
  | InvalidContentAnnotation
  | InvalidContentRange
  | EmptyContentRange
  | ContentLengthOverflow
  | ThoughtContentConflict thought_id
  | ThoughtNameConflict thought_id

fun as_str :: "thought_presentation \<Rightarrow> rstr" where
  "as_str Automatic = lit ''automatic''"
| "as_str Expanded = lit ''expanded''"
| "as_str Collapsed = lit ''collapsed''"

definition parse_presentation :: "rstr \<Rightarrow> domain_error + thought_presentation" where
  "parse_presentation value =
     (if value = lit ''automatic'' then Inr Automatic
      else if value = lit ''expanded'' then Inr Expanded
      else if value = lit ''collapsed'' then Inr Collapsed
      else Inl (InvalidThoughtPresentation value))"

definition THOUGHT_NAME_MAX_CHARS :: nat where
  "THOUGHT_NAME_MAX_CHARS = 80"

definition is_disallowed :: "nat \<Rightarrow> bool" where
  "is_disallowed c \<longleftrightarrow> is_control c \<or> c = 0x85 \<or> c = 0x2028 \<or> c = 0x2029"

definition new_thought_name :: "rstr \<Rightarrow> domain_error + thought_name" where
  "new_thought_name value =
     (if trim value = [] \<or> trim value \<noteq> value \<or> length value > THOUGHT_NAME_MAX_CHARS
         \<or> list_ex is_disallowed value
      then Inl InvalidThoughtName else Inr (ThoughtName value))"

fun name_str :: "thought_name \<Rightarrow> rstr" where
  "name_str (ThoughtName s) = s"

definition validate_session_name :: "rstr \<Rightarrow> domain_error + unit" where
  "validate_session_name name = (if trim name = [] then Inl BlankSessionName else Inr ())"

lemma parse_as_str: "parse_presentation (as_str p) = Inr p"
  by (cases p) (simp_all add: parse_presentation_def)

lemma parse_presentation_Inr: "parse_presentation v = Inr p \<Longrightarrow> v = as_str p"
  by (auto simp: parse_presentation_def split: if_splits)

lemma new_thought_name_Inr:
  "new_thought_name v = Inr n \<Longrightarrow>
    name_str n = v \<and> v \<noteq> [] \<and> length v \<le> 80 \<and> (\<forall>c \<in> set v. \<not> is_disallowed c)"
  by (auto simp: new_thought_name_def THOUGHT_NAME_MAX_CHARS_def list_ex_iff trim_def trim_end_def
      trim_start_def split: if_splits)

end
