(* ===== verification/Annotations.thy ===== *)
theory Annotations
  imports Domain_Values
begin

text \<open>
  Durable presentation metadata over exact content (\<open>src/domain/annotation.rs\<close>) and its range
  transformations (\<open>src/domain/annotation/ranges.rs\<close>): splitting at a boundary, extracting a range,
  concatenating parts, and rebasing through an ordered text transaction.
\<close>

section \<open>Annotations and their validation\<close>

datatype attachment_ordinal = AttachmentOrdinal u64

datatype annotation_kind =
    Attachment "attachment_ordinal option" bool rstr
  | LargePaste nat nat
  | InvocationReference rstr
  | ShortcutEmphasis

record content_annotation =
  ann_start :: nat
  ann_end :: nat
  ann_kind :: annotation_kind

datatype annotation_behavior = Substitution | InlineStyle

definition MAX_INVOCATION_REFERENCE_LABEL_CHARS :: nat where
  "MAX_INVOCATION_REFERENCE_LABEL_CHARS = 256"

fun behavior :: "annotation_kind \<Rightarrow> annotation_behavior" where
  "behavior (Attachment _ _ _) = Substitution"
| "behavior (LargePaste _ _) = Substitution"
| "behavior (InvocationReference _) = Substitution"
| "behavior ShortcutEmphasis = InlineStyle"

definition is_shortcut_emphasis :: "content_annotation \<Rightarrow> bool" where
  "is_shortcut_emphasis a \<longleftrightarrow> ann_kind a = ShortcutEmphasis"

definition invalid_range :: "rstr \<Rightarrow> content_annotation \<Rightarrow> nat \<Rightarrow> bool" where
  "invalid_range content a previous_end \<longleftrightarrow>
     ann_start a \<ge> ann_end a \<or> ann_end a > str_len content
     \<or> \<not> is_char_boundary content (ann_start a) \<or> \<not> is_char_boundary content (ann_end a)
     \<or> ann_start a < previous_end"

fun invalid_invocation_label :: "annotation_kind \<Rightarrow> bool" where
  "invalid_invocation_label (InvocationReference display_name) \<longleftrightarrow>
     trim display_name \<noteq> display_name \<or> \<not> starts_with_char display_name 0x40
     \<or> length display_name \<le> 1 \<or> length display_name > MAX_INVOCATION_REFERENCE_LABEL_CHARS
     \<or> list_ex is_control display_name"
| "invalid_invocation_label _ \<longleftrightarrow> False"

definition validate_annotations :: "rstr \<Rightarrow> content_annotation list \<Rightarrow> domain_error + unit" where
  "validate_annotations content annotations =
     try_bind (try_fold (\<lambda>previous_end a.
         if invalid_range content a previous_end \<or> invalid_invocation_label (ann_kind a)
         then Inl InvalidContentAnnotation else Inr (ann_end a)) 0 annotations)
       (\<lambda>_. Inr ())"

section \<open>Range transformations\<close>

record annotation_text_change =
  old_start :: nat
  old_end :: nat
  new_start :: nat
  new_end :: nat


definition validate_range :: "rstr \<Rightarrow> content_annotation list \<Rightarrow> nat \<Rightarrow> nat \<Rightarrow> domain_error + unit" where
  "validate_range content annotations s e =
     try_bind (validate_annotations content annotations) (\<lambda>_.
       if s > e \<or> e > str_len content \<or> \<not> is_char_boundary content s \<or> \<not> is_char_boundary content e
       then Inl InvalidContentRange else Inr ())"

definition shift_left :: "nat \<Rightarrow> content_annotation \<Rightarrow> content_annotation" where
  "shift_left n a = \<lparr>ann_start = ann_start a - n, ann_end = ann_end a - n, ann_kind = ann_kind a\<rparr>"

definition partition_annotations ::
  "rstr \<Rightarrow> content_annotation list \<Rightarrow> nat \<Rightarrow> domain_error + (content_annotation list \<times> content_annotation list)"
where
  "partition_annotations content annotations at =
     try_bind (validate_range content annotations at at) (\<lambda>_.
       Inr (foldl (\<lambda>(left, right) a.
              if ann_end a \<le> at then (left @ [a], right)
              else if ann_start a \<ge> at then (left, right @ [shift_left at a])
              else (left, right)) ([], []) annotations))"

definition extract_annotations ::
  "rstr \<Rightarrow> content_annotation list \<Rightarrow> nat \<Rightarrow> nat \<Rightarrow> domain_error + (content_annotation list \<times> content_annotation list)"
where
  "extract_annotations content annotations s e =
     try_bind (validate_range content annotations s e) (\<lambda>_.
       if s \<ge> e then Inl EmptyContentRange
       else (let removed = e - s in
         Inr (foldl (\<lambda>(remaining, extracted) a.
              if ann_end a \<le> s then (remaining @ [a], extracted)
              else if ann_start a \<ge> e then (remaining @ [shift_left removed a], extracted)
              else if ann_start a \<ge> s \<and> ann_end a \<le> e then (remaining, extracted @ [shift_left s a])
              else (remaining, extracted)) ([], []) annotations)))"

definition shift_right :: "nat \<Rightarrow> content_annotation \<Rightarrow> domain_error + content_annotation" where
  "shift_right offset a =
     try_bind (ok_or ContentLengthOverflow (checked_add_usize offset (ann_start a))) (\<lambda>s.
     try_bind (ok_or ContentLengthOverflow (checked_add_usize offset (ann_end a))) (\<lambda>e.
       Inr \<lparr>ann_start = s, ann_end = e, ann_kind = ann_kind a\<rparr>))"

fun merge_loop ::
  "rstr \<Rightarrow> nat \<Rightarrow> content_annotation list \<Rightarrow> (rstr \<times> content_annotation list) list
    \<Rightarrow> domain_error + content_annotation list"
where
  "merge_loop separator offset merged [] = Inr merged"
| "merge_loop separator offset merged ((content, annotations) # parts) =
     try_bind (validate_annotations content annotations) (\<lambda>_.
     try_bind (try_map (shift_right offset) annotations) (\<lambda>shifted.
     try_bind (ok_or ContentLengthOverflow (checked_add_usize offset (str_len content))) (\<lambda>offset1.
     try_bind (if parts \<noteq> [] then ok_or ContentLengthOverflow (checked_add_usize offset1 (str_len separator))
               else Inr offset1) (\<lambda>offset2.
       merge_loop separator offset2 (merged @ shifted) parts))))"

definition merge_annotations ::
  "(rstr \<times> content_annotation list) list \<Rightarrow> rstr \<Rightarrow> domain_error + content_annotation list" where
  "merge_annotations parts separator = merge_loop separator 0 [] parts"

definition validate_changes :: "rstr \<Rightarrow> rstr \<Rightarrow> annotation_text_change list \<Rightarrow> domain_error + unit" where
  "validate_changes before after changes =
     try_bind (try_fold (\<lambda>(oe, ne) c.
         if old_start c < oe \<or> new_start c < ne \<or> old_start c > old_end c \<or> new_start c > new_end c
            \<or> old_end c > str_len before \<or> new_end c > str_len after
            \<or> \<not> is_char_boundary before (old_start c) \<or> \<not> is_char_boundary before (old_end c)
            \<or> \<not> is_char_boundary after (new_start c) \<or> \<not> is_char_boundary after (new_end c)
            \<or> str_get before oe (old_start c) \<noteq> str_get after ne (new_start c)
         then Inl InvalidContentRange else Inr (old_end c, new_end c)) (0, 0) changes)
       (\<lambda>(oe, ne). if get_from before oe \<noteq> get_from after ne then Inl InvalidContentRange else Inr ())"






section \<open>Well-formed annotation lists\<close>

text \<open>\<open>anns_ok content prev as\<close>: what a successful validation from the end \<open>prev\<close> of the previous
  annotation amounts to, as a recursive predicate.\<close>

fun anns_ok :: "rstr \<Rightarrow> nat \<Rightarrow> content_annotation list \<Rightarrow> bool" where
  "anns_ok content prev [] \<longleftrightarrow> True"
| "anns_ok content prev (a # as) \<longleftrightarrow>
     prev \<le> ann_start a \<and> ann_start a < ann_end a
     \<and> is_char_boundary content (ann_start a) \<and> is_char_boundary content (ann_end a)
     \<and> \<not> invalid_invocation_label (ann_kind a) \<and> anns_ok content (ann_end a) as"

lemma validate_loop_iff:
  "(\<exists>n. try_fold (\<lambda>previous_end a.
      if invalid_range content a previous_end \<or> invalid_invocation_label (ann_kind a)
      then Inl InvalidContentAnnotation else Inr (ann_end a)) prev as = Inr n) \<longleftrightarrow> anns_ok content prev as"
proof (induction as arbitrary: prev)
  case Nil
  then show ?case by simp
next
  case (Cons a as)
  have "\<not> invalid_range content a prev \<longleftrightarrow> prev \<le> ann_start a \<and> ann_start a < ann_end a
     \<and> is_char_boundary content (ann_start a) \<and> is_char_boundary content (ann_end a)"
    by (auto simp: invalid_range_def not_less dest: is_char_boundary_le)
  then show ?case using Cons.IH [of "ann_end a"] by auto
qed

lemma validate_annotations_iff [simp]:
  "validate_annotations content as = Inr u \<longleftrightarrow> anns_ok content 0 as"
  using validate_loop_iff [of content 0 as] by (simp add: validate_annotations_def)

lemma validate_annotations_Inl:
  "validate_annotations content as = Inl e \<longleftrightarrow> e = InvalidContentAnnotation \<and> \<not> anns_ok content 0 as"
proof -
  have only: "try_fold (\<lambda>previous_end a.
      if invalid_range content a previous_end \<or> invalid_invocation_label (ann_kind a)
      then Inl InvalidContentAnnotation else Inr (ann_end a)) prev as = Inl d \<Longrightarrow>
      d = InvalidContentAnnotation" for prev d
    by (induction as arbitrary: prev) (auto split: if_splits)
  show ?thesis
  proof (cases "validate_annotations content as")
    case (Inl d)
    moreover have "\<not> anns_ok content 0 as" using Inl validate_annotations_iff [of content as "()"] by auto
    ultimately show ?thesis using only by (auto simp: validate_annotations_def)
  next
    case (Inr u)
    then show ?thesis by (metis sum.distinct(1) validate_annotations_iff)
  qed
qed

lemma anns_ok_prev_mono: "anns_ok content prev as \<Longrightarrow> prev' \<le> prev \<Longrightarrow> anns_ok content prev' as"
  by (cases as) auto

lemma anns_ok_start: "anns_ok content prev as \<Longrightarrow> a \<in> set as \<Longrightarrow> prev \<le> ann_start a"
proof (induction as arbitrary: prev)
  case Nil
  then show ?case by simp
next
  case (Cons b as)
  then show ?case by fastforce
qed

lemma anns_ok_member:
  "anns_ok content prev as \<Longrightarrow> a \<in> set as \<Longrightarrow>
    ann_start a < ann_end a \<and> is_char_boundary content (ann_start a)
    \<and> is_char_boundary content (ann_end a) \<and> \<not> invalid_invocation_label (ann_kind a)"
  by (induction as arbitrary: prev) auto

lemma anns_ok_filter: "anns_ok content prev as \<Longrightarrow> anns_ok content prev (filter P as)"
proof (induction as arbitrary: prev)
  case Nil
  then show ?case by simp
next
  case (Cons a as)
  then show ?case by (auto intro: anns_ok_prev_mono [of content "ann_end a"])
qed

lemma foldl_partition:
  "foldl (\<lambda>(left, right) a. if P a then (left @ [f a], right)
      else if Q a then (left @ [g a], right)
      else if R a then (left, right @ [h a]) else (left, right)) (l, r) as
    = (l @ map (\<lambda>a. if P a then f a else g a) (filter (\<lambda>a. P a \<or> Q a) as),
       r @ map h (filter (\<lambda>a. \<not> P a \<and> \<not> Q a \<and> R a) as))"
  by (induction as arbitrary: l r) auto

lemma foldl_partition2:
  "foldl (\<lambda>(left, right) a. if P a then (left @ [a], right)
      else if R a then (left, right @ [h a]) else (left, right)) (l, r) as
    = (l @ filter P as, r @ map h (filter (\<lambda>a. \<not> P a \<and> R a) as))"
  by (induction as arbitrary: l r) auto

lemma partition_annotations_eq:
  "partition_annotations content as at = Inr (left, right) \<longleftrightarrow>
    anns_ok content 0 as \<and> is_char_boundary content at
    \<and> left = filter (\<lambda>a. ann_end a \<le> at) as
    \<and> right = map (shift_left at) (filter (\<lambda>a. at < ann_end a \<and> at \<le> ann_start a) as)"
  by (auto simp: partition_annotations_def validate_range_def foldl_partition2 not_le
      dest: is_char_boundary_le split: if_splits)

text \<open>Two ways to move an annotation list to another text: the text it covers stays the same.\<close>

lemma anns_ok_transfer:
  assumes "anns_ok content prev as"
    and "\<And>a. a \<in> set as \<Longrightarrow> ann_start (f a) < ann_end (f a) \<and> ann_kind (f a) = ann_kind a
       \<and> is_char_boundary content' (ann_start (f a)) \<and> is_char_boundary content' (ann_end (f a))"
    and "\<And>a b. a \<in> set as \<Longrightarrow> b \<in> set as \<Longrightarrow> ann_end a \<le> ann_start b \<Longrightarrow> ann_end (f a) \<le> ann_start (f b)"
    and "\<And>a. a \<in> set as \<Longrightarrow> prev' \<le> ann_start (f a)"
  shows "anns_ok content' prev' (map f as)"
  using assms
proof (induction as arbitrary: prev prev')
  case Nil
  then show ?case by simp
next
  case (Cons a as)
  have "anns_ok content' (ann_end (f a)) (map f as)"
  proof (rule Cons.IH)
    show "anns_ok content (ann_end a) as" using Cons.prems(1) by simp
    then have "\<And>b. b \<in> set as \<Longrightarrow> ann_end a \<le> ann_start b" by (rule anns_ok_start)
    then show "\<And>b. b \<in> set as \<Longrightarrow> ann_end (f a) \<le> ann_start (f b)"
      using Cons.prems(3) [of a] by simp
  qed (use Cons.prems in \<open>simp_all\<close>)
  then show ?case using Cons.prems(1,2,4) by simp
qed

lemma anns_ok_shift_left:
  assumes "anns_ok (p @ q) prev as" and "\<And>a. a \<in> set as \<Longrightarrow> str_len p \<le> ann_start a"
  shows "anns_ok q 0 (map (shift_left (str_len p)) as)"
proof (rule anns_ok_transfer [OF assms(1)])
  fix a assume a: "a \<in> set as"
  note m = anns_ok_member [OF assms(1) a]
  show "ann_start (shift_left (str_len p) a) < ann_end (shift_left (str_len p) a)
      \<and> ann_kind (shift_left (str_len p) a) = ann_kind a
      \<and> is_char_boundary q (ann_start (shift_left (str_len p) a))
      \<and> is_char_boundary q (ann_end (shift_left (str_len p) a))"
    using m assms(2) [OF a] boundary_shift_right [of p "ann_start a" q] boundary_shift_right [of p "ann_end a" q]
    by (auto simp: shift_left_def)
qed (auto simp: shift_left_def)

lemma anns_ok_restrict:
  assumes "anns_ok (p @ q) prev as" and "\<And>a. a \<in> set as \<Longrightarrow> ann_end a \<le> str_len p"
  shows "anns_ok p prev as"
proof -
  have "anns_ok p prev (map (\<lambda>a. a) as)"
  proof (rule anns_ok_transfer [OF assms(1)])
    fix a assume a: "a \<in> set as"
    show "ann_start a < ann_end a \<and> ann_kind a = ann_kind a \<and> is_char_boundary p (ann_start a)
        \<and> is_char_boundary p (ann_end a)"
      using anns_ok_member [OF assms(1) a] assms(2) [OF a] boundary_shift_left [of "ann_start a" p q]
        boundary_shift_left [of "ann_end a" p q] by auto
    show "prev \<le> ann_start a" by (rule anns_ok_start [OF assms(1) a])
  qed simp
  then show ?thesis by simp
qed

lemma anns_ok_extend:
  assumes "anns_ok p prev as"
  shows "anns_ok (p @ q) prev as"
proof -
  have "anns_ok (p @ q) prev (map (\<lambda>a. a) as)"
  proof (rule anns_ok_transfer [OF assms])
    fix a assume a: "a \<in> set as"
    have "ann_end a \<le> str_len p" using anns_ok_member [OF assms a] is_char_boundary_le by blast
    then show "ann_start a < ann_end a \<and> ann_kind a = ann_kind a
        \<and> is_char_boundary (p @ q) (ann_start a) \<and> is_char_boundary (p @ q) (ann_end a)"
      using anns_ok_member [OF assms a] boundary_shift_left [of "ann_start a" p q]
        boundary_shift_left [of "ann_end a" p q] by auto
    show "prev \<le> ann_start a" by (rule anns_ok_start [OF assms a])
  qed simp
  then show ?thesis by simp
qed

lemma anns_ok_append:
  "anns_ok c prev (as @ bs) \<longleftrightarrow>
    anns_ok c prev as \<and> anns_ok c (if as = [] then prev else ann_end (last as)) bs"
  by (induction as arbitrary: prev) auto

lemma anns_ok_end_le: "anns_ok c prev as \<Longrightarrow> as \<noteq> [] \<Longrightarrow> ann_end (last as) \<le> str_len c"
  using anns_ok_member [of c prev as "last as"] is_char_boundary_le by simp


lemma partition_annotations_sound:
  assumes "partition_annotations content as at = Inr (left, right)"
  shows "\<exists>p q. content = p @ q \<and> str_len p = at \<and> get_to content at = Some p \<and> get_from content at = Some q
    \<and> anns_ok p 0 left \<and> anns_ok q 0 right"
proof -
  from assms have ok: "anns_ok content 0 as" and l: "left = filter (\<lambda>a. ann_end a \<le> at) as"
    and r: "right = map (shift_left at) (filter (\<lambda>a. at < ann_end a \<and> at \<le> ann_start a) as)"
    and b: "is_char_boundary content at"
    by (simp_all add: partition_annotations_eq)
  from b obtain p q where c: "content = p @ q" and at: "str_len p = at"
    by (auto simp: is_char_boundary_iff)
  have "anns_ok p 0 left" unfolding l
    by (rule anns_ok_restrict [OF anns_ok_filter [OF ok [unfolded c]]]) (simp add: at)
  moreover have "anns_ok q 0 right" unfolding r at [symmetric]
    by (rule anns_ok_shift_left [OF anns_ok_filter [OF ok [unfolded c]]]) simp
  moreover have "get_to content at = Some p" "get_from content at = Some q"
    using c at by (auto simp: get_to_Some_iff get_from_Some_iff)
  ultimately show ?thesis using c at by blast
qed

lemma extract_annotations_eq:
  "extract_annotations content as s e = Inr (remaining, extracted) \<longleftrightarrow>
    anns_ok content 0 as \<and> s < e \<and> is_char_boundary content s \<and> is_char_boundary content e
    \<and> remaining = map (\<lambda>a. if ann_end a \<le> s then a else shift_left (e - s) a)
         (filter (\<lambda>a. ann_end a \<le> s \<or> e \<le> ann_start a) as)
    \<and> extracted = map (shift_left s)
         (filter (\<lambda>a. \<not> ann_end a \<le> s \<and> \<not> e \<le> ann_start a \<and> s \<le> ann_start a \<and> ann_end a \<le> e) as)"
proof -
  have fold: "foldl (\<lambda>(remaining, extracted) a.
      if ann_end a \<le> s then (remaining @ [a], extracted)
      else if ann_start a \<ge> e then (remaining @ [shift_left (e - s) a], extracted)
      else if ann_start a \<ge> s \<and> ann_end a \<le> e then (remaining, extracted @ [shift_left s a])
      else (remaining, extracted)) ([], []) as
    = (map (\<lambda>a. if ann_end a \<le> s then a else shift_left (e - s) a)
         (filter (\<lambda>a. ann_end a \<le> s \<or> e \<le> ann_start a) as),
       map (shift_left s)
         (filter (\<lambda>a. \<not> ann_end a \<le> s \<and> \<not> e \<le> ann_start a \<and> s \<le> ann_start a \<and> ann_end a \<le> e) as))"
    using foldl_partition [of "\<lambda>a. ann_end a \<le> s" "\<lambda>a. a" "\<lambda>a. e \<le> ann_start a" "shift_left (e - s)"
        "\<lambda>a. s \<le> ann_start a \<and> ann_end a \<le> e" "shift_left s" "[]" "[]" as] by simp
  show ?thesis
    unfolding extract_annotations_def validate_range_def Let_def fold
    by (auto simp: not_le dest: is_char_boundary_le)
qed

lemma extract_annotations_sound:
  assumes "extract_annotations content as s e = Inr (remaining, extracted)"
  shows "\<exists>p m q. content = p @ m @ q \<and> str_len p = s \<and> str_get content s e = Some m
    \<and> get_to content s = Some p \<and> get_from content e = Some q
    \<and> anns_ok (p @ q) 0 remaining \<and> anns_ok m 0 extracted"
proof -
  from assms have ok: "anns_ok content 0 as" and lt: "s < e" and b: "is_char_boundary content s" "is_char_boundary content e"
    and rem: "remaining = map (\<lambda>a. if ann_end a \<le> s then a else shift_left (e - s) a)
         (filter (\<lambda>a. ann_end a \<le> s \<or> e \<le> ann_start a) as)"
    and ex: "extracted = map (shift_left s)
         (filter (\<lambda>a. \<not> ann_end a \<le> s \<and> \<not> e \<le> ann_start a \<and> s \<le> ann_start a \<and> ann_end a \<le> e) as)"
    by (simp_all add: extract_annotations_eq)
  obtain m where g: "str_get content s e = Some m"
    using b lt str_get_is_Some [of content s e] by auto
  then obtain p q where c: "content = p @ m @ q" and s: "str_len p = s" and e: "str_len p + str_len m = e"
    by (auto simp: str_get_Some_iff)
  let ?X = "filter (\<lambda>a. \<not> ann_end a \<le> s \<and> \<not> e \<le> ann_start a \<and> s \<le> ann_start a \<and> ann_end a \<le> e) as"
  have "anns_ok (p @ m) 0 ?X"
    by (rule anns_ok_restrict [of _ q]) (use anns_ok_filter [OF ok] c e in auto)
  then have x: "anns_ok m 0 extracted" unfolding ex s [symmetric] by (rule anns_ok_shift_left) auto
  have r: "anns_ok (p @ q) 0 remaining" unfolding rem
  proof (rule anns_ok_transfer [OF anns_ok_filter [OF ok]])
    fix a assume "a \<in> set (filter (\<lambda>a. ann_end a \<le> s \<or> e \<le> ann_start a) as)"
    then have a: "a \<in> set as" and side: "ann_end a \<le> s \<or> e \<le> ann_start a" by auto
    note mem = anns_ok_member [OF ok a]
    let ?f = "\<lambda>a. if ann_end a \<le> s then a else shift_left (e - s) a"
    have right: "is_char_boundary (p @ q) (i - (e - s))" if "is_char_boundary content i" "e \<le> i" for i
      using that boundary_shift_right [of "p @ m" i q] boundary_shift_right [of p "i - (e - s)" q] c s e lt
      by (simp add: diff_diff_eq)
    have left: "is_char_boundary (p @ q) i" if "is_char_boundary content i" "i \<le> s" for i
      using that boundary_shift_left [of i p "m @ q"] boundary_shift_left [of i p q] c s by simp
    show "ann_start (?f a) < ann_end (?f a) \<and> ann_kind (?f a) = ann_kind a
      \<and> is_char_boundary (p @ q) (ann_start (?f a)) \<and> is_char_boundary (p @ q) (ann_end (?f a))"
      using mem side lt left [of "ann_start a"] left [of "ann_end a"] right [of "ann_start a"] right [of "ann_end a"]
      by (auto simp: shift_left_def)
  next
    fix a b assume "a \<in> set (filter (\<lambda>a. ann_end a \<le> s \<or> e \<le> ann_start a) as)"
      "b \<in> set (filter (\<lambda>a. ann_end a \<le> s \<or> e \<le> ann_start a) as)" "ann_end a \<le> ann_start b"
    then show "ann_end (if ann_end a \<le> s then a else shift_left (e - s) a)
        \<le> ann_start (if ann_end b \<le> s then b else shift_left (e - s) b)"
      using lt anns_ok_member [OF ok, of a] anns_ok_member [OF ok, of b] by (auto simp: shift_left_def)
  qed simp
  have "get_to content s = Some p" "get_from content e = Some q"
    using c s e unfolding get_to_Some_iff get_from_Some_iff by (metis append_assoc str_len_simps(3))+
  then show ?thesis using c s g r x by blast
qed


section \<open>Merging\<close>

definition offset_by :: "nat \<Rightarrow> content_annotation \<Rightarrow> content_annotation" where
  "offset_by n a = \<lparr>ann_start = n + ann_start a, ann_end = n + ann_end a, ann_kind = ann_kind a\<rparr>"

lemma shift_right_Inr_iff:
  "shift_right n a = Inr b \<longleftrightarrow> b = offset_by n a \<and> n + ann_start a \<le> usize_max \<and> n + ann_end a \<le> usize_max"
  by (auto simp: shift_right_def offset_by_def)

lemma try_map_shift_right:
  "try_map (shift_right n) as = Inr bs \<longleftrightarrow>
    bs = map (offset_by n) as \<and> (\<forall>a \<in> set as. n + ann_start a \<le> usize_max \<and> n + ann_end a \<le> usize_max)"
  by (induction as arbitrary: bs) (auto simp: shift_right_Inr_iff)

lemma anns_ok_offset:
  assumes "anns_ok t prev as"
  shows "anns_ok (p @ t) (str_len p + prev) (map (offset_by (str_len p)) as)"
proof (rule anns_ok_transfer [OF assms])
  fix a assume a: "a \<in> set as"
  show "ann_start (offset_by (str_len p) a) < ann_end (offset_by (str_len p) a)
      \<and> ann_kind (offset_by (str_len p) a) = ann_kind a
      \<and> is_char_boundary (p @ t) (ann_start (offset_by (str_len p) a))
      \<and> is_char_boundary (p @ t) (ann_end (offset_by (str_len p) a))"
    using anns_ok_member [OF assms a] by (simp add: offset_by_def boundary_shift_right)
  show "str_len p + prev \<le> ann_start (offset_by (str_len p) a)"
    using anns_ok_start [OF assms a] by (simp add: offset_by_def)
qed (simp add: offset_by_def)

lemma anns_ok_join_lists:
  assumes "anns_ok c 0 as" and "\<forall>a \<in> set as. ann_end a \<le> k" and "anns_ok c k bs"
  shows "anns_ok c 0 (as @ bs)"
  using assms by (auto simp: anns_ok_append intro: anns_ok_prev_mono)

lemma merge_loop_sound:
  assumes "merge_loop sep (str_len pre) merged parts = Inr out" and "anns_ok pre 0 merged"
  shows "anns_ok (pre @ join sep (map fst parts)) 0 out"
  using assms
proof (induction parts arbitrary: pre merged)
  case Nil
  then show ?case by simp
next
  case (Cons part parts)
  obtain c as where part: "part = (c, as)" by force
  let ?m = "merged @ map (offset_by (str_len pre)) as"
  have "\<forall>a \<in> set merged. ann_end a \<le> str_len pre"
    using anns_ok_member [OF Cons.prems(2)] is_char_boundary_le by blast
  moreover have ok: "anns_ok c 0 as" using Cons.prems(1) by (auto simp: part)
  ultimately have here: "anns_ok (pre @ c) 0 ?m"
    using anns_ok_offset [OF ok, of pre] by (intro anns_ok_join_lists anns_ok_extend [OF Cons.prems(2)]) auto
  show ?case
  proof (cases "parts = []")
    case True
    then show ?thesis using Cons.prems(1) here by (auto simp: part try_map_shift_right)
  next
    case False
    have "merge_loop sep (str_len (pre @ c @ sep)) ?m parts = Inr out"
      using Cons.prems(1) False by (auto simp: part try_map_shift_right add.assoc)
    moreover have "anns_ok (pre @ c @ sep) 0 ?m" using anns_ok_extend [OF here, of sep] by simp
    ultimately have "anns_ok ((pre @ c @ sep) @ join sep (map fst parts)) 0 out" by (rule Cons.IH)
    then show ?thesis using False by (simp add: part join_Cons)
  qed
qed

text \<open>The offsets: where each part starts in the joined text.\<close>

fun part_offsets :: "rstr \<Rightarrow> nat \<Rightarrow> (rstr \<times> content_annotation list) list \<Rightarrow> content_annotation list" where
  "part_offsets sep n [] = []"
| "part_offsets sep n ((c, as) # parts) =
     map (offset_by n) as @ part_offsets sep (n + str_len c + str_len sep) parts"

lemma merge_loop_step:
  assumes "anns_ok c 0 as" and "n + str_len (join sep (c # map fst parts)) \<le> usize_max"
  shows "merge_loop sep n merged ((c, as) # parts)
    = merge_loop sep (n + str_len c + (if parts = [] then 0 else str_len sep)) (merged @ map (offset_by n) as) parts"
proof -
  have bound: "n + str_len c \<le> usize_max" and more: "parts \<noteq> [] \<Longrightarrow> n + str_len c + str_len sep \<le> usize_max"
    using assms(2) by (cases "parts = []"; simp add: join_Cons)+
  have "\<forall>a \<in> set as. n + ann_start a \<le> usize_max \<and> n + ann_end a \<le> usize_max"
  proof
    fix a assume a: "a \<in> set as"
    have "ann_end a \<le> str_len c" "ann_start a < ann_end a"
      using anns_ok_member [OF assms(1) a] is_char_boundary_le by blast+
    then show "n + ann_start a \<le> usize_max \<and> n + ann_end a \<le> usize_max" using bound by simp
  qed
  then have shift: "try_map (shift_right n) as = Inr (map (offset_by n) as)" by (simp add: try_map_shift_right)
  have val: "validate_annotations c as = Inr ()" using assms(1) by simp
  have off: "checked_add_usize n (str_len c) = Some (n + str_len c)" using bound by simp
  have sep: "parts \<noteq> [] \<Longrightarrow> checked_add_usize (n + str_len c) (str_len sep) = Some (n + str_len c + str_len sep)"
    using more by simp
  show ?thesis by (cases "parts = []") (simp_all add: shift val off sep)
qed

lemma merge_loop_eq:
  assumes "n + str_len (join sep (map fst parts)) \<le> usize_max"
  shows "merge_loop sep n merged parts =
    (if \<forall>(c, as) \<in> set parts. anns_ok c 0 as then Inr (merged @ part_offsets sep n parts)
     else Inl InvalidContentAnnotation)"
  using assms
proof (induction parts arbitrary: n merged)
  case Nil
  then show ?case by simp
next
  case (Cons part parts)
  obtain c as where part: "part = (c, as)" by force
  show ?case
  proof (cases "anns_ok c 0 as")
    case True
    let ?n = "n + str_len c + (if parts = [] then 0 else str_len sep)"
    have "merge_loop sep n merged (part # parts) = merge_loop sep ?n (merged @ map (offset_by n) as) parts"
      using merge_loop_step [OF True] Cons.prems by (simp add: part)
    also have "\<dots> = (if \<forall>(c, as) \<in> set parts. anns_ok c 0 as
        then Inr ((merged @ map (offset_by n) as) @ part_offsets sep ?n parts) else Inl InvalidContentAnnotation)"
      using Cons.prems by (intro Cons.IH) (cases parts, simp_all add: part)
    finally show ?thesis using True by (cases "parts = []") (simp_all add: part)
  next
    case False
    then have "validate_annotations c as = Inl InvalidContentAnnotation" by (simp add: validate_annotations_Inl)
    then show ?thesis using False by (simp add: part)
  qed
qed

lemma anns_ok_span: "anns_ok c prev as \<Longrightarrow> a \<in> set as \<Longrightarrow> b \<in> set as \<Longrightarrow> a = b \<or> ann_end a \<le> ann_start b \<or> ann_end b \<le> ann_start a"
proof (induction as arbitrary: prev)
  case Nil
  then show ?case by simp
next
  case (Cons x as)
  then show ?case using anns_ok_start [of c "ann_end x" as] by auto
qed

lemma filter_cut:
  assumes "anns_ok c prev as"
  shows "filter (\<lambda>a. ann_end a \<le> k) as @ filter (\<lambda>a. k < ann_end a \<and> k \<le> ann_start a) as
    = filter (\<lambda>a. ann_end a \<le> k \<or> k \<le> ann_start a) as"
  using assms
proof (induction as arbitrary: prev)
  case Nil
  then show ?case by simp
next
  case (Cons x as)
  show ?case
  proof (cases "ann_end x \<le> k")
    case True
    then show ?thesis using Cons by auto
  next
    case False
    have "\<forall>b \<in> set as. ann_end x \<le> ann_start b \<and> ann_start b < ann_end b"
      using Cons.prems anns_ok_start [of c "ann_end x" as] anns_ok_member [of c "ann_end x" as] by auto
    then have "filter (\<lambda>a. ann_end a \<le> k) as = []" using False by (auto simp: filter_empty_conv)
    then show ?thesis using Cons False by auto
  qed
qed

lemma merge_partition:
  assumes "partition_annotations content as at = Inr (left, right)" and "str_len content \<le> usize_max"
    and "content = p @ q" and "str_len p = at"
  shows "merge_annotations [(p, left), (q, right)] []
    = Inr (filter (\<lambda>a. ann_end a \<le> at \<or> at \<le> ann_start a) as)"
proof -
  from assms(1) have ok: "anns_ok content 0 as" and l: "left = filter (\<lambda>a. ann_end a \<le> at) as"
    and r: "right = map (shift_left at) (filter (\<lambda>a. at < ann_end a \<and> at \<le> ann_start a) as)"
    by (simp_all add: partition_annotations_eq)
  obtain p' q' where "content = p' @ q'" "str_len p' = at" "anns_ok p' 0 left" "anns_ok q' 0 right"
    using partition_annotations_sound [OF assms(1)] by blast
  then have lr: "anns_ok p 0 left" "anns_ok q 0 right"
    using assms(3,4) append_str_len_inject by metis+
  have "map (offset_by at) right = filter (\<lambda>a. at < ann_end a \<and> at \<le> ann_start a) as"
    unfolding r map_map by (intro map_idI) (auto simp: offset_by_def shift_left_def)
  moreover have "map (offset_by 0) left = left"
    by (intro map_idI) (simp add: offset_by_def)
  moreover have "merge_annotations [(p, left), (q, right)] []
      = Inr (part_offsets [] 0 [(p, left), (q, right)])"
    unfolding merge_annotations_def using lr assms(2,3)
    by (subst merge_loop_eq) auto
  ultimately show ?thesis using filter_cut [OF ok] assms(4) by (simp add: l)
qed


section \<open>Rebasing through an edit\<close>

text \<open>What a successful \<open>validate_changes\<close> amounts to from the state \<open>(oe, ne)\<close> of its loop.\<close>

fun changes_ok :: "rstr \<Rightarrow> rstr \<Rightarrow> nat \<Rightarrow> nat \<Rightarrow> annotation_text_change list \<Rightarrow> bool" where
  "changes_ok before after oe ne [] \<longleftrightarrow> get_from before oe = get_from after ne"
| "changes_ok before after oe ne (c # cs) \<longleftrightarrow>
     oe \<le> old_start c \<and> ne \<le> new_start c \<and> old_start c \<le> old_end c \<and> new_start c \<le> new_end c
     \<and> is_char_boundary before (old_start c) \<and> is_char_boundary before (old_end c)
     \<and> is_char_boundary after (new_start c) \<and> is_char_boundary after (new_end c)
     \<and> str_get before oe (old_start c) = str_get after ne (new_start c)
     \<and> changes_ok before after (old_end c) (new_end c) cs"

lemma changes_loop_iff:
  "(\<exists>oe' ne'. try_fold (\<lambda>(oe, ne) c.
         if old_start c < oe \<or> new_start c < ne \<or> old_start c > old_end c \<or> new_start c > new_end c
            \<or> old_end c > str_len before \<or> new_end c > str_len after
            \<or> \<not> is_char_boundary before (old_start c) \<or> \<not> is_char_boundary before (old_end c)
            \<or> \<not> is_char_boundary after (new_start c) \<or> \<not> is_char_boundary after (new_end c)
            \<or> str_get before oe (old_start c) \<noteq> str_get after ne (new_start c)
         then Inl InvalidContentRange else Inr (old_end c, new_end c)) (oe, ne) cs = Inr (oe', ne')
      \<and> get_from before oe' = get_from after ne') \<longleftrightarrow> changes_ok before after oe ne cs"
proof (induction cs arbitrary: oe ne)
  case Nil
  then show ?case by simp
next
  case (Cons c cs)
  show ?case using Cons.IH [of "old_end c" "new_end c"]
    by (auto simp: not_less dest: is_char_boundary_le)
qed

lemma validate_changes_iff [simp]:
  "validate_changes before after cs = Inr u \<longleftrightarrow> changes_ok before after 0 0 cs"
  unfolding validate_changes_def changes_loop_iff [symmetric]
  by (auto split: prod.splits if_splits)














section \<open>Properties\<close>

text \<open>C14: Splitting a text at a boundary yields annotations that are valid over each half, an
  annotation that crosses the boundary is dropped, and concatenating the two halves again restores
  exactly the annotations that did not cross it.\<close>

theorem partition_merge_roundtrip:
  assumes "partition_annotations content as at = Inr (left, right)" and "str_len content \<le> usize_max"
  shows "\<exists>p q. get_to content at = Some p \<and> get_from content at = Some q \<and> content = p @ q
    \<and> validate_annotations p left = Inr () \<and> validate_annotations q right = Inr ()
    \<and> merge_annotations [(p, left), (q, right)] [] = Inr (filter (\<lambda>a. ann_end a \<le> at \<or> at \<le> ann_start a) as)"
  using partition_annotations_sound [OF assms(1)] merge_partition [OF assms] by force

lemma partition_merge_roundtrip_witness:
  "\<exists>p q. get_to [97, 233, 98] 1 = Some p \<and> get_from [97, 233, 98] 1 = Some q \<and> [97, 233, 98] = p @ q
    \<and> validate_annotations p [\<lparr>ann_start = 0, ann_end = 1, ann_kind = ShortcutEmphasis\<rparr>] = Inr ()
    \<and> validate_annotations q [\<lparr>ann_start = 2, ann_end = 3, ann_kind = LargePaste 1 1\<rparr>] = Inr ()
    \<and> merge_annotations [(p, [\<lparr>ann_start = 0, ann_end = 1, ann_kind = ShortcutEmphasis\<rparr>]),
          (q, [\<lparr>ann_start = 2, ann_end = 3, ann_kind = LargePaste 1 1\<rparr>])] []
      = Inr (filter (\<lambda>a. ann_end a \<le> 1 \<or> 1 \<le> ann_start a)
          [\<lparr>ann_start = 0, ann_end = 1, ann_kind = ShortcutEmphasis\<rparr>,
           \<lparr>ann_start = 3, ann_end = 4, ann_kind = LargePaste 1 1\<rparr>])"
proof (rule partition_merge_roundtrip)
  show "partition_annotations [97, 233, 98]
      [\<lparr>ann_start = 0, ann_end = 1, ann_kind = ShortcutEmphasis\<rparr>,
       \<lparr>ann_start = 3, ann_end = 4, ann_kind = LargePaste 1 1\<rparr>] 1
    = Inr ([\<lparr>ann_start = 0, ann_end = 1, ann_kind = ShortcutEmphasis\<rparr>],
           [\<lparr>ann_start = 2, ann_end = 3, ann_kind = LargePaste 1 1\<rparr>])"
    by code_simp
  show "str_len [97, 233, 98] \<le> usize_max" by (simp add: utf8_len_def usize_max_def)
qed

text \<open>Extracting a range leaves annotations that are valid over the text that remains and
  annotations that are valid over the text that was taken out; annotations on the border of the
  range are dropped and no other.\<close>

theorem extract_annotations_correct:
  assumes "extract_annotations content as s e = Inr (remaining, extracted)"
  shows "\<exists>p m q. content = p @ m @ q \<and> get_to content s = Some p \<and> str_get content s e = Some m
    \<and> get_from content e = Some q
    \<and> validate_annotations (p @ q) remaining = Inr () \<and> validate_annotations m extracted = Inr ()
    \<and> length remaining + length extracted + length (filter (\<lambda>a.
         (ann_start a < s \<and> s < ann_end a) \<or> (ann_start a < e \<and> e < ann_end a)) as) = length as"
proof -
  have "anns_ok content 0 as" and lt: "s < e"
    and rem: "remaining = map (\<lambda>a. if ann_end a \<le> s then a else shift_left (e - s) a)
         (filter (\<lambda>a. ann_end a \<le> s \<or> e \<le> ann_start a) as)"
    and ex: "extracted = map (shift_left s)
         (filter (\<lambda>a. \<not> ann_end a \<le> s \<and> \<not> e \<le> ann_start a \<and> s \<le> ann_start a \<and> ann_end a \<le> e) as)"
    using assms by (simp_all add: extract_annotations_eq)
  have "length (filter (\<lambda>a. ann_end a \<le> s \<or> e \<le> ann_start a) as)
      + length (filter (\<lambda>a. \<not> ann_end a \<le> s \<and> \<not> e \<le> ann_start a \<and> s \<le> ann_start a \<and> ann_end a \<le> e) as)
      + length (filter (\<lambda>a. (ann_start a < s \<and> s < ann_end a) \<or> (ann_start a < e \<and> e < ann_end a)) as)
      = length as" if "\<forall>a \<in> set as. ann_start a < ann_end a" for as
    using that lt by (induction as) auto
  moreover have "\<forall>a \<in> set as. ann_start a < ann_end a"
    using anns_ok_member [OF \<open>anns_ok content 0 as\<close>] by simp
  ultimately show ?thesis using extract_annotations_sound [OF assms] by (auto simp: rem ex)
qed

lemma extract_annotations_correct_witness:
  "\<exists>p m q. [97, 233, 98, 99] = p @ m @ q \<and> get_to [97, 233, 98, 99] 1 = Some p
    \<and> str_get [97, 233, 98, 99] 1 3 = Some m \<and> get_from [97, 233, 98, 99] 3 = Some q
    \<and> validate_annotations (p @ q) [\<lparr>ann_start = 1, ann_end = 2, ann_kind = ShortcutEmphasis\<rparr>] = Inr ()
    \<and> validate_annotations m [] = Inr ()
    \<and> length [\<lparr>ann_start = 1, ann_end = 2, ann_kind = ShortcutEmphasis\<rparr>] + length ([] :: content_annotation list)
      + length (filter (\<lambda>a. (ann_start a < 1 \<and> 1 < ann_end a) \<or> (ann_start a < 3 \<and> 3 < ann_end a))
          [\<lparr>ann_start = 0, ann_end = 3, ann_kind = LargePaste 1 1\<rparr>,
           \<lparr>ann_start = 3, ann_end = 4, ann_kind = ShortcutEmphasis\<rparr>])
      = length [\<lparr>ann_start = 0, ann_end = 3, ann_kind = LargePaste 1 1\<rparr>,
           \<lparr>ann_start = 3, ann_end = 4, ann_kind = ShortcutEmphasis\<rparr>]"
  by (rule extract_annotations_correct) code_simp

text \<open>Concatenating annotated parts with a separator, where the joined text fits the address
  space, succeeds exactly when the annotations of every part are valid over it, and then yields each
  annotation moved to where its part starts in the joined text, a list that is valid over that text.\<close>

theorem merge_annotations_correct:
  assumes "str_len (join sep (map fst parts)) \<le> usize_max"
  shows "merge_annotations parts sep =
      (if list_all (\<lambda>(c, as). validate_annotations c as = Inr ()) parts
       then Inr (part_offsets sep 0 parts) else Inl InvalidContentAnnotation)
    \<and> (list_all (\<lambda>(c, as). validate_annotations c as = Inr ()) parts
       \<longrightarrow> validate_annotations (join sep (map fst parts)) (part_offsets sep 0 parts) = Inr ())"
proof -
  have eq: "merge_annotations parts sep = (if list_all (\<lambda>(c, as). validate_annotations c as = Inr ()) parts
       then Inr (part_offsets sep 0 parts) else Inl InvalidContentAnnotation)"
    using assms by (simp add: merge_annotations_def merge_loop_eq list_all_iff)
  moreover have "validate_annotations (join sep (map fst parts)) (part_offsets sep 0 parts) = Inr ()"
    if "list_all (\<lambda>(c, as). validate_annotations c as = Inr ()) parts"
    using merge_loop_sound [of sep "[]" "[]" parts "part_offsets sep 0 parts"] eq that
    by (simp add: merge_annotations_def)
  ultimately show ?thesis by blast
qed

lemma merge_annotations_correct_witness:
  "merge_annotations [([97, 98], [\<lparr>ann_start = 0, ann_end = 2, ann_kind = ShortcutEmphasis\<rparr>]),
      ([99], [\<lparr>ann_start = 0, ann_end = 1, ann_kind = LargePaste 1 1\<rparr>])] [10]
    = Inr [\<lparr>ann_start = 0, ann_end = 2, ann_kind = ShortcutEmphasis\<rparr>, \<lparr>ann_start = 3, ann_end = 4, ann_kind = LargePaste 1 1\<rparr>]"
proof -
  let ?parts = "[([97, 98], [\<lparr>ann_start = 0, ann_end = 2, ann_kind = ShortcutEmphasis\<rparr>]),
      ([99], [\<lparr>ann_start = 0, ann_end = 1, ann_kind = LargePaste 1 1\<rparr>])]"
  have "str_len (join [10] (map fst ?parts)) \<le> usize_max" by (simp add: utf8_len_def usize_max_def)
  moreover have "list_all (\<lambda>(c, as). validate_annotations c as = Inr ()) ?parts" by code_simp
  moreover have "part_offsets [10] 0 ?parts
      = [\<lparr>ann_start = 0, ann_end = 2, ann_kind = ShortcutEmphasis\<rparr>, \<lparr>ann_start = 3, ann_end = 4, ann_kind = LargePaste 1 1\<rparr>]"
    by code_simp
  ultimately show ?thesis using merge_annotations_correct [of "[10]" ?parts] by simp
qed




end
