(* ===== verification/Numbering.thy ===== *)
theory Numbering
  imports Annotations
begin

text \<open>
  Session-scoped attachment numbering (\<open>src/domain/attachment_numbering.rs\<close>): the two high-water
  marks, allocation of ordinals to new occurrences, observation of assigned ones, and the uniqueness
  test of the live board. Operations that mutate in place in the code return the new values here;
  every caller in the code works on a copy that it drops when the operation fails.
\<close>

record attachment_counters =
  image_counter :: u64
  file_counter :: u64

definition i64_max :: u64 where
  "i64_max = 0x7FFFFFFFFFFFFFFF"

definition default_counters :: attachment_counters where
  "default_counters = \<lparr>image_counter = 0, file_counter = 0\<rparr>"

fun ordinal_get :: "attachment_ordinal \<Rightarrow> u64" where
  "ordinal_get (AttachmentOrdinal n) = n"

definition ordinal_try_from :: "u64 \<Rightarrow> domain_error + attachment_ordinal" where
  "ordinal_try_from value =
     (if value = 0 \<or> value > i64_max then Inl InvalidContentAnnotation else Inr (AttachmentOrdinal value))"

definition new_counters :: "u64 \<Rightarrow> u64 \<Rightarrow> domain_error + attachment_counters" where
  "new_counters img file =
     (if img > i64_max \<or> file > i64_max then Inl InvalidContentAnnotation
      else Inr \<lparr>image_counter = img, file_counter = file\<rparr>)"

definition counter :: "bool \<Rightarrow> attachment_counters \<Rightarrow> u64" where
  "counter img c = (if img then image_counter c else file_counter c)"

definition set_counter :: "bool \<Rightarrow> u64 \<Rightarrow> attachment_counters \<Rightarrow> attachment_counters" where
  "set_counter img n c = (if img then c\<lparr>image_counter := n\<rparr> else c\<lparr>file_counter := n\<rparr>)"

fun assign_one ::
  "attachment_counters \<Rightarrow> content_annotation \<Rightarrow> domain_error + (content_annotation \<times> attachment_counters)"
where
  "assign_one candidate a =
     (case ann_kind a of
        Attachment None img name \<Rightarrow>
          try_bind (ok_or InvalidContentAnnotation (checked_succ64 (counter img candidate))) (\<lambda>next.
          try_bind (ordinal_try_from next) (\<lambda>ordinal.
            Inr (a\<lparr>ann_kind := Attachment (Some ordinal) img name\<rparr>, set_counter img next candidate)))
      | _ \<Rightarrow> Inr (a, candidate))"

fun assign ::
  "attachment_counters \<Rightarrow> content_annotation list \<Rightarrow> domain_error + (content_annotation list \<times> attachment_counters)"
where
  "assign candidate [] = Inr ([], candidate)"
| "assign candidate (a # as) =
     try_bind (assign_one candidate a) (\<lambda>(a', candidate').
     try_bind (assign candidate' as) (\<lambda>(as', candidate''). Inr (a' # as', candidate'')))"

definition observe_one :: "attachment_counters \<Rightarrow> content_annotation \<Rightarrow> domain_error + attachment_counters" where
  "observe_one c a =
     (case ann_kind a of
        Attachment ordinal img _ \<Rightarrow>
          try_bind (ok_or InvalidContentAnnotation ordinal) (\<lambda>ordinal.
            Inr (set_counter img (max (counter img c) (ordinal_get ordinal)) c))
      | _ \<Rightarrow> Inr c)"

definition observe :: "attachment_counters \<Rightarrow> content_annotation list \<Rightarrow> domain_error + attachment_counters" where
  "observe c annotations = try_fold observe_one c annotations"

definition validate_unique ::
  "content_annotation list \<Rightarrow> (bool \<times> attachment_ordinal) set \<Rightarrow> domain_error + (bool \<times> attachment_ordinal) set"
where
  "validate_unique annotations identities =
     try_fold (\<lambda>ids a.
        case ann_kind a of
          Attachment ordinal img _ \<Rightarrow>
            try_bind (ok_or InvalidContentAnnotation ordinal) (\<lambda>ordinal.
              if (img, ordinal) \<in> ids then Inl InvalidContentAnnotation
              else Inr (insert (img, ordinal) ids))
        | _ \<Rightarrow> Inr ids) identities annotations"

fun renew_kind :: "annotation_kind \<Rightarrow> annotation_kind" where
  "renew_kind (Attachment _ img name) = Attachment None img name"
| "renew_kind k = k"

definition renew_attachment_occurrences :: "content_annotation list \<Rightarrow> content_annotation list" where
  "renew_attachment_occurrences annotations = map (\<lambda>a. a\<lparr>ann_kind := renew_kind (ann_kind a)\<rparr>) annotations"

section \<open>What the counters promise\<close>

text \<open>\<open>occurrences as\<close>: the numbered occurrences of a list, as kind and ordinal; \<open>unassigned b a\<close>:
  \<open>a\<close> is an attachment of kind \<open>b\<close> without a number.\<close>

fun occurrence :: "content_annotation \<Rightarrow> (bool \<times> nat) option" where
  "occurrence a = (case ann_kind a of
     Attachment (Some n) img _ \<Rightarrow> Some (img, unat (ordinal_get n)) | _ \<Rightarrow> None)"

definition occurrences :: "content_annotation list \<Rightarrow> (bool \<times> nat) list" where
  "occurrences as = List.map_filter occurrence as"

fun unassigned_kind :: "annotation_kind \<Rightarrow> bool option" where
  "unassigned_kind (Attachment None img _) = Some img"
| "unassigned_kind _ = None"

definition unassigned :: "bool \<Rightarrow> content_annotation \<Rightarrow> bool" where
  "unassigned b a \<longleftrightarrow> unassigned_kind (ann_kind a) = Some b"

definition fresh_numbers :: "bool \<Rightarrow> content_annotation list \<Rightarrow> content_annotation list \<Rightarrow> nat list" where
  "fresh_numbers b as as' =
     List.map_filter (\<lambda>(a, a'). if unassigned b a then map_option snd (occurrence a') else None) (zip as as')"

lemma counter_set_counter [simp]:
  "counter b (set_counter d n c) = (if b = d then n else counter b c)"
  by (simp add: counter_def set_counter_def)

lemma ordinal_try_from_Inr [simp]:
  "ordinal_try_from n = Inr r \<longleftrightarrow> r = AttachmentOrdinal n \<and> n \<noteq> 0 \<and> n \<le> i64_max"
  by (auto simp: ordinal_try_from_def)

lemma unat_i64_max: "unat i64_max = 2 ^ 63 - 1"
  by (simp add: i64_max_def)

lemma next_ordinal:
  "checked_succ64 n = Some m \<and> m \<noteq> 0 \<and> m \<le> i64_max \<longleftrightarrow> m = n + 1 \<and> unat n + 1 < 2 ^ 63"
proof (cases "n = - 1")
  case True
  then have "unat n = 2 ^ 64 - 1" by (simp add: unsigned_minus_1_eq_mask mask_eq_exp_minus_1)
  then show ?thesis using True by (simp add: checked_succ64_def)
next
  case False
  then have "unat (n + 1) = unat n + 1" using checked_succ64_Some [of n "n + 1"] by (simp add: checked_succ64_def)
  then show ?thesis using False
    by (auto simp: checked_succ64_def word_le_nat_alt unat_i64_max word_unat_eq_iff)
qed

lemma assign_one_unassigned:
  assumes "ann_kind a = Attachment None b name"
  shows "assign_one c a = (if unat (counter b c) + 1 < 2 ^ 63
    then Inr (a\<lparr>ann_kind := Attachment (Some (AttachmentOrdinal (counter b c + 1))) b name\<rparr>,
              set_counter b (counter b c + 1) c)
    else Inl InvalidContentAnnotation)"
proof (cases "checked_succ64 (counter b c)")
  case None
  then have "\<not> unat (counter b c) + 1 < 2 ^ 63" using next_ordinal [of "counter b c" "counter b c + 1"] by simp
  then show ?thesis using None assms by simp
next
  case (Some m)
  then show ?thesis using next_ordinal [of "counter b c" m] assms
    by (auto simp: ordinal_try_from_def checked_succ64_def split: if_splits)
qed

lemma unassigned_cases:
  obtains (unassigned) b name where "ann_kind a = Attachment None b name" "\<And>d. unassigned d a \<longleftrightarrow> d = b"
  | (other) "\<And>b. \<not> unassigned b a"
  by (cases "ann_kind a"; cases "unassigned_kind (ann_kind a)")
    (auto simp: unassigned_def elim!: unassigned_kind.elims)

lemma assign_one_other:
  assumes "\<And>b. \<not> unassigned b a"
  shows "assign_one c a = Inr (a, c)"
proof -
  have "ann_kind a \<noteq> Attachment None b name" for b name
    using assms [of b] by (auto simp: unassigned_def)
  then show ?thesis by (auto split: annotation_kind.splits option.splits)
qed

lemma occurrence_fresh [simp]:
  "occurrence (a\<lparr>ann_kind := Attachment (Some (AttachmentOrdinal n)) b name\<rparr>) = Some (b, unat n)"
  by simp

declare occurrence.simps [simp del] assign_one.simps [simp del]

lemma fresh_numbers_simps [simp]:
  "fresh_numbers b [] [] = []"
  "fresh_numbers b (a # as) (a' # as') =
     (if unassigned b a \<and> occurrence a' \<noteq> None then snd (the (occurrence a')) # fresh_numbers b as as'
      else fresh_numbers b as as')"
  by (auto simp: fresh_numbers_def List.map_filter_def)

definition room :: "attachment_counters \<Rightarrow> content_annotation list \<Rightarrow> bool" where
  "room c as \<longleftrightarrow> (\<forall>b. filter (unassigned b) as = []
     \<or> unat (counter b c) + length (filter (unassigned b) as) < 2 ^ 63)"

definition numbered :: "attachment_counters \<Rightarrow> content_annotation list \<Rightarrow> content_annotation list
    \<Rightarrow> attachment_counters \<Rightarrow> bool" where
  "numbered c as as' c' \<longleftrightarrow>
     list_all2 (\<lambda>a a'. ann_start a' = ann_start a \<and> ann_end a' = ann_end a
        \<and> unassigned_kind (ann_kind a') = None \<and> renew_kind (ann_kind a') = renew_kind (ann_kind a)
        \<and> (unassigned_kind (ann_kind a) = None \<longrightarrow> a' = a)) as as'
     \<and> (\<forall>b. fresh_numbers b as as' = [Suc (unat (counter b c)) ..< Suc (unat (counter b c'))]
           \<and> unat (counter b c') = unat (counter b c) + length (filter (unassigned b) as))"

lemma assign_Inr: "assign c as = Inr (as', c') \<Longrightarrow> numbered c as as' c'"
proof (induction as arbitrary: c as')
  case Nil
  then show ?case by (simp add: numbered_def)
next
  case (Cons a as)
  from Cons.prems obtain a1 c1 as1 where one: "assign_one c a = Inr (a1, c1)"
    and rest: "assign c1 as = Inr (as1, c')" and as': "as' = a1 # as1" by auto
  note IH = Cons.IH [OF rest]
  show ?case
  proof (cases a rule: unassigned_cases)
    case (unassigned b name)
    note lt = assign_one_unassigned [OF unassigned(1), of c]
    have fits: "unat (counter b c) + 1 < 2 ^ 63" using one lt by (simp split: if_splits)
    then have "unat (counter b c + 1) = unat (counter b c) + 1"
      using next_ordinal [of "counter b c" "counter b c + 1"] checked_succ64_Some by blast
    moreover have "a1 = a\<lparr>ann_kind := Attachment (Some (AttachmentOrdinal (counter b c + 1))) b name\<rparr>"
        "c1 = set_counter b (counter b c + 1) c" using one lt fits by simp_all
    moreover have "[Suc n..<Suc (Suc n + m)] = Suc n # [Suc (Suc n)..<Suc (Suc n + m)]" for n m :: nat
      by (simp add: upt_conv_Cons del: upt_Suc)
    ultimately show ?thesis using IH unassigned
      by (auto simp: as' numbered_def simp del: upt_Suc)
  next
    case other
    then have "a1 = a" "c1 = c" "unassigned_kind (ann_kind a) = None"
      using one assign_one_other [OF other] by (auto simp: unassigned_def)
    then show ?thesis using IH other by (simp add: as' numbered_def)
  qed
qed

lemma assign_success: "(\<exists>r. assign c as = Inr r) \<longleftrightarrow> room c as"
proof (induction as arbitrary: c)
  case Nil
  then show ?case by (simp add: room_def)
next
  case (Cons a as)
  show ?case
  proof (cases a rule: unassigned_cases)
    case (unassigned b name)
    note lt = assign_one_unassigned [OF unassigned(1), of c]
    show ?thesis
    proof (cases "unat (counter b c) + 1 < 2 ^ 63")
      case True
      have "unat (counter b c + 1) = unat (counter b c) + 1"
        using next_ordinal [of "counter b c" "counter b c + 1"] checked_succ64_Some True by blast
      then have "room (set_counter b (counter b c + 1) c) as \<longleftrightarrow> room c (a # as)"
        unfolding room_def using True
        by (intro all_cong1) (auto simp: unassigned(2))
      then show ?thesis using Cons.IH [of "set_counter b (counter b c + 1) c"] lt True
        by (auto split: prod.splits)
    next
      case False
      then have "\<not> room c (a # as)" unfolding room_def not_all by (intro exI [of _ b]) (simp add: unassigned(2))
      then show ?thesis using lt False by simp
    qed
  next
    case other
    then have "room c (a # as) \<longleftrightarrow> room c as" by (simp add: room_def)
    then show ?thesis using Cons.IH [of c] assign_one_other [OF other] by (auto split: prod.splits)
  qed
qed

lemma assign_Inl: "assign c as = Inl e \<Longrightarrow> e = InvalidContentAnnotation"
proof (induction as arbitrary: c)
  case Nil
  then show ?case by simp
next
  case (Cons a as)
  show ?case
  proof (cases a rule: unassigned_cases)
    case (unassigned b name)
    then show ?thesis using Cons assign_one_unassigned [OF unassigned(1), of c]
      by (auto split: if_splits prod.splits)
  next
    case other
    then show ?thesis using Cons assign_one_other [OF other, of c] by (auto split: prod.splits)
  qed
qed

text \<open>Occurrences the counters already cover.\<close>

definition covered :: "attachment_counters \<Rightarrow> content_annotation list \<Rightarrow> bool" where
  "covered c as \<longleftrightarrow> (\<forall>(b, n) \<in> set (occurrences as). n \<le> unat (counter b c))"

lemma occurrences_Cons [simp]:
  "occurrences [] = []"
  "occurrences (a # as) = (case occurrence a of None \<Rightarrow> occurrences as | Some x \<Rightarrow> x # occurrences as)"
  by (simp_all add: occurrences_def List.map_filter_def split: option.splits)

lemma observe_one_cases:
  "observe_one c a =
    (case occurrence a of
       Some (b, n) \<Rightarrow> Inr (set_counter b (max (counter b c) (of_nat n)) c)
     | None \<Rightarrow> if unassigned_kind (ann_kind a) = None then Inr c else Inl InvalidContentAnnotation)"
  by (auto simp: observe_one_def occurrence.simps split: annotation_kind.splits option.splits)

lemma unat_max_word: "unat (max a b) = max (unat a) (unat (b :: u64))"
  by (simp add: max_def word_le_nat_alt)

lemma occurrence_unat: "occurrence a = Some (b, n) \<Longrightarrow> unat (of_nat n :: u64) = n"
  by (auto simp: occurrence.simps split: annotation_kind.splits option.splits)

lemma observe_Inr:
  "observe c as = Inr c' \<Longrightarrow>
    (\<forall>a \<in> set as. unassigned_kind (ann_kind a) = None) \<and> covered c' as
    \<and> (\<forall>b. unat (counter b c) \<le> unat (counter b c'))"
proof (induction as arbitrary: c)
  case Nil
  then show ?case by (simp add: observe_def covered_def)
next
  case (Cons a as)
  from Cons.prems obtain c1 where one: "observe_one c a = Inr c1" and rest: "observe c1 as = Inr c'"
    by (auto simp: observe_def)
  note IH = Cons.IH [OF rest]
  show ?case
  proof (cases "occurrence a")
    case None
    then show ?thesis using one IH by (auto simp: observe_one_cases covered_def split: if_splits)
  next
    case (Some x)
    obtain b n where x: "x = (b, n)" by force
    have n: "unat (of_nat n :: u64) = n" using occurrence_unat Some x by blast
    have c1: "c1 = set_counter b (max (counter b c) (of_nat n)) c" using one Some x by (simp add: observe_one_cases)
    have le: "unat (counter d c) \<le> unat (counter d c1)" "n \<le> unat (counter b c1)" for d
      using n by (auto simp: c1 unat_max_word)
    have "unassigned_kind (ann_kind a) = None" using Some
      by (auto simp: occurrence.simps split: annotation_kind.splits option.splits)
    moreover have "\<forall>d. unat (counter d c) \<le> unat (counter d c')" using IH le(1) order_trans by blast
    ultimately show ?thesis using IH le(2) Some x by (auto simp: covered_def intro: order_trans)
  qed
qed

lemma observe_success: "(\<exists>c'. observe c as = Inr c') \<longleftrightarrow> (\<forall>a \<in> set as. unassigned_kind (ann_kind a) = None)"
proof (induction as arbitrary: c)
  case Nil
  then show ?case by (simp add: observe_def)
next
  case (Cons a as)
  then show ?case by (cases "ann_kind a"; cases "unassigned_kind (ann_kind a)")
    (auto simp: observe_def observe_one_def elim!: unassigned_kind.elims)
qed

lemma occurrences_append [simp]: "occurrences (as @ bs) = occurrences as @ occurrences bs"
  by (simp add: occurrences_def List.map_filter_def)

lemma assign_fresh:
  assumes "assign c as = Inr (as', c')" and "covered c bs" and "distinct (occurrences bs)"
    and "\<forall>a \<in> set as. occurrence a = None"
  shows "covered c' (bs @ as') \<and> distinct (occurrences (bs @ as'))"
  using assms
proof (induction as arbitrary: c as' bs)
  case Nil
  then show ?case by simp
next
  case (Cons a as)
  from Cons.prems(1) obtain a1 c1 as1 where one: "assign_one c a = Inr (a1, c1)"
    and rest: "assign c1 as = Inr (as1, c')" and as': "as' = a1 # as1" by auto
  have "covered c1 (bs @ [a1]) \<and> distinct (occurrences (bs @ [a1]))"
  proof (cases a rule: unassigned_cases)
    case (unassigned b name)
    note lt = assign_one_unassigned [OF unassigned(1), of c]
    have fits: "unat (counter b c) + 1 < 2 ^ 63" using one lt by (simp split: if_splits)
    then have next1: "unat (counter b c + 1) = unat (counter b c) + 1"
      using next_ordinal [of "counter b c" "counter b c + 1"] checked_succ64_Some by blast
    have "a1 = a\<lparr>ann_kind := Attachment (Some (AttachmentOrdinal (counter b c + 1))) b name\<rparr>"
        and c1: "c1 = set_counter b (counter b c + 1) c" using one lt fits by simp_all
    then have new: "occurrence a1 = Some (b, unat (counter b c) + 1)" using next1 by simp
    have "(b, unat (counter b c) + 1) \<notin> set (occurrences bs)"
      using Cons.prems(2) by (auto simp: covered_def)
    then show ?thesis using new c1 Cons.prems(2,3) next1 by (fastforce simp: covered_def)
  next
    case other
    then show ?thesis using one assign_one_other [OF other] Cons.prems(2,3,4) by (simp add: covered_def)
  qed
  then have "covered c' ((bs @ [a1]) @ as1) \<and> distinct (occurrences ((bs @ [a1]) @ as1))"
    using Cons.prems(4) by (intro Cons.IH [OF rest]) auto
  then show ?case by (simp add: as')
qed

lemma renew_occurrence: "a \<in> set (renew_attachment_occurrences as) \<Longrightarrow> occurrence a = None"
proof -
  have "renew_kind k \<noteq> Attachment (Some n) b name" for k n b name by (cases k) simp_all
  then show "a \<in> set (renew_attachment_occurrences as) \<Longrightarrow> occurrence a = None"
    by (auto simp: renew_attachment_occurrences_def occurrence.simps split: annotation_kind.splits option.splits)
qed

definition identity_numbers :: "(bool \<times> attachment_ordinal) set \<Rightarrow> (bool \<times> nat) set" where
  "identity_numbers ids = (\<lambda>(b, n). (b, unat (ordinal_get n))) ` ids"

lemma identity_numbers_mem: "(b, unat (ordinal_get n)) \<in> identity_numbers ids \<longleftrightarrow> (b, n) \<in> ids"
proof -
  have "unat (ordinal_get n) = unat (ordinal_get m) \<longleftrightarrow> n = m" for m
    by (cases m; cases n) (simp add: word_unat_eq_iff)
  then show ?thesis by (auto simp: identity_numbers_def image_iff split: prod.splits)
qed

lemma validate_unique_iff:
  "(\<exists>ids'. validate_unique as ids = Inr ids' \<and> X = identity_numbers ids') \<longleftrightarrow>
    (\<forall>a \<in> set as. unassigned_kind (ann_kind a) = None) \<and> distinct (occurrences as)
    \<and> set (occurrences as) \<inter> identity_numbers ids = {} \<and> X = identity_numbers ids \<union> set (occurrences as)"
proof (induction as arbitrary: ids)
  case Nil
  then show ?case by (auto simp: validate_unique_def)
next
  case (Cons a as)
  consider (num) n b name where "ann_kind a = Attachment (Some n) b name"
    | (un) b name where "ann_kind a = Attachment None b name"
    | (other) "\<And>m b name. ann_kind a \<noteq> Attachment m b name" by (metis option.exhaust)
  then show ?case
  proof cases
    case num
    have ins: "identity_numbers (insert (b, n) ids) = insert (b, unat (ordinal_get n)) (identity_numbers ids)"
      by (simp add: identity_numbers_def)
    have "validate_unique (a # as) ids = (if (b, n) \<in> ids then Inl InvalidContentAnnotation
        else validate_unique as (insert (b, n) ids))"
      using num by (simp add: validate_unique_def)
    then show ?thesis using Cons.IH [of "insert (b, n) ids"] identity_numbers_mem [of b n ids] num
      by (auto simp: ins occurrence.simps)
  next
    case un
    then show ?thesis by (simp add: validate_unique_def)
  next
    case other
    have "occurrence a = None" "unassigned_kind (ann_kind a) = None"
      using other by (cases "ann_kind a"; simp add: occurrence.simps)+
    moreover have "validate_unique (a # as) ids = validate_unique as ids"
      using other by (simp add: validate_unique_def split: annotation_kind.splits)
    ultimately show ?thesis using Cons.IH [of ids] by simp
  qed
qed

section \<open>Properties\<close>

text \<open>C15: Allocation succeeds exactly when each kind of attachment has room below the durable
  integer limit. It then keeps every range, name and already assigned number, and the unassigned
  occurrences of each kind receive, in order, the consecutive numbers that follow the old high-water
  mark, up to exactly the new one.\<close>

theorem assign_correct:
  "case assign c as of
     Inl e \<Rightarrow> e = InvalidContentAnnotation \<and> \<not> room c as
   | Inr (as', c') \<Rightarrow> room c as \<and> numbered c as as' c'"
proof (cases "assign c as")
  case (Inl e)
  then show ?thesis using assign_Inl [OF Inl] assign_success [of c as] by auto
next
  case (Inr r)
  then show ?thesis using assign_Inr [of c as] assign_success [of c as] by (cases r) auto
qed

text \<open>C16: Copied annotations that are renewed and then numbered never repeat a number that the
  counters cover: next to any set of occurrences the counters have observed, the numbers stay
  pairwise distinct, the uniqueness test of the board accepts them, and the counters cover them.\<close>

theorem renewed_numbers_fresh:
  assumes "observe c0 bs = Inr c" and "distinct (occurrences bs)"
    and "assign c (renew_attachment_occurrences as) = Inr (as', c')"
  shows "distinct (occurrences (bs @ as')) \<and> covered c' (bs @ as')
    \<and> (\<exists>ids. validate_unique (bs @ as') {} = Inr ids)"
proof -
  have bs: "\<forall>a \<in> set bs. unassigned_kind (ann_kind a) = None" "covered c bs"
    using observe_Inr [OF assms(1)] by blast+
  have "\<forall>a' \<in> set as'. unassigned_kind (ann_kind a') = None"
    using assign_Inr [OF assms(3)] by (auto simp: numbered_def list_all2_conv_all_nth in_set_conv_nth)
  then show ?thesis
    using assign_fresh [OF assms(3) bs(2) assms(2)] renew_occurrence bs(1) validate_unique_iff [of "bs @ as'" "{}"]
    by (force simp: identity_numbers_def)
qed

lemma renewed_numbers_fresh_witness:
  "distinct (occurrences ([\<lparr>ann_start = 0, ann_end = 1, ann_kind = Attachment (Some (AttachmentOrdinal 4)) True [97]\<rparr>]
      @ [\<lparr>ann_start = 0, ann_end = 1, ann_kind = Attachment (Some (AttachmentOrdinal 5)) True [98]\<rparr>]))"
proof -
  let ?b = "[\<lparr>ann_start = 0, ann_end = 1, ann_kind = Attachment (Some (AttachmentOrdinal 4)) True [97]\<rparr>]"
  let ?a = "[\<lparr>ann_start = 0, ann_end = 1, ann_kind = Attachment (Some (AttachmentOrdinal 4)) True [98]\<rparr>]"
  let ?n = "[\<lparr>ann_start = 0, ann_end = 1, ann_kind = Attachment (Some (AttachmentOrdinal 5)) True [98]\<rparr>]"
  have "observe default_counters ?b = Inr \<lparr>image_counter = 4, file_counter = 0\<rparr>" by code_simp
  moreover have "distinct (occurrences ?b)" by (simp split: option.splits)
  moreover have "assign \<lparr>image_counter = 4, file_counter = 0\<rparr> (renew_attachment_occurrences ?a)
      = Inr (?n, \<lparr>image_counter = 5, file_counter = 0\<rparr>)" by code_simp
  ultimately show ?thesis using renewed_numbers_fresh [of default_counters ?b _ ?a ?n] by blast
qed

end
