(* ===== verification/Board_Model.thy ===== *)
theory Board_Model
  imports Numbering
begin

text \<open>
  The session board aggregate: sessions (\<open>src/domain/model/session.rs\<close>), thoughts and their editor
  revisions (\<open>src/domain/model.rs\<close>), separators and the shared item identity
  (\<open>src/domain/board_item.rs\<close>), the reversible mutations and the aggregate that applies them
  (\<open>src/domain/operations.rs\<close> and \<open>src/domain/operations/\<close>).

  The private in-place mutators work on the candidate copy that \<open>apply_mutation\<close> makes and drops on an
  error, so each of them is a function from a board to an error or a new board. A \<open>u32\<close> position read
  as \<open>usize\<close> is its \<open>unat\<close>. A path is absolute when it starts with the byte of \<open>/\<close>.
\<close>

section \<open>Sessions\<close>

record session =
  ses_id :: session_id
  ses_name :: "rstr option"
  origin_cwd :: path
  last_opened_cwd :: path
  ses_created_at :: timestamp
  last_opened_at :: timestamp
  last_active_at :: timestamp
  last_durable_sequence :: operation_sequence
  ses_deleted_at :: "timestamp option"

definition is_absolute :: "path \<Rightarrow> bool" where
  "is_absolute p \<longleftrightarrow> (case p of [] \<Rightarrow> False | b # _ \<Rightarrow> b = 0x2f)"

definition validate_absolute_path :: "path \<Rightarrow> domain_error + unit" where
  "validate_absolute_path p = (if is_absolute p then Inr () else Inl (RelativeDirectory p))"

definition validate_optional_name :: "rstr option \<Rightarrow> domain_error + unit" where
  "validate_optional_name name = (case name of None \<Rightarrow> Inr () | Some n \<Rightarrow> validate_session_name n)"

definition session_with_name ::
  "session_id \<Rightarrow> path \<Rightarrow> timestamp \<Rightarrow> rstr option \<Rightarrow> domain_error + session" where
  "session_with_name i cwd now name =
     try_bind (validate_absolute_path cwd) (\<lambda>_.
     try_bind (validate_optional_name name) (\<lambda>_.
       Inr \<lparr>ses_id = i, ses_name = name, origin_cwd = cwd, last_opened_cwd = cwd,
            ses_created_at = now, last_opened_at = now, last_active_at = now,
            last_durable_sequence = 0, ses_deleted_at = None\<rparr>))"

definition session_new :: "session_id \<Rightarrow> path \<Rightarrow> timestamp \<Rightarrow> domain_error + session" where
  "session_new i cwd now = session_with_name i cwd now None"

definition session_rename :: "session \<Rightarrow> rstr option \<Rightarrow> domain_error + session" where
  "session_rename s name = try_bind (validate_optional_name name) (\<lambda>_. Inr (s\<lparr>ses_name := name\<rparr>))"

definition session_validate :: "session \<Rightarrow> domain_error + unit" where
  "session_validate s =
     try_bind (validate_absolute_path (origin_cwd s)) (\<lambda>_.
     try_bind (validate_absolute_path (last_opened_cwd s)) (\<lambda>_.
       validate_optional_name (ses_name s)))"

definition record_open :: "session \<Rightarrow> path \<Rightarrow> timestamp \<Rightarrow> domain_error + session" where
  "record_open s cwd now =
     try_bind (validate_absolute_path cwd) (\<lambda>_.
       Inr (s\<lparr>last_opened_cwd := cwd, last_opened_at := now, last_active_at := max (last_active_at s) now\<rparr>))"

section \<open>Thoughts, revisions and separators\<close>

record thought =
  t_id :: thought_id
  t_session_id :: session_id
  t_content :: rstr
  t_name :: "thought_name option"
  t_annotations :: "content_annotation list"
  t_position :: thought_position
  t_created_at :: timestamp
  t_updated_at :: timestamp
  t_presentation :: thought_presentation
  t_deleted_at :: "timestamp option"

definition thought_new :: "thought_id \<Rightarrow> session_id \<Rightarrow> rstr \<Rightarrow> thought_position \<Rightarrow> timestamp \<Rightarrow> thought" where
  "thought_new i s content position now =
     \<lparr>t_id = i, t_session_id = s, t_content = content, t_name = None, t_annotations = [],
      t_position = position, t_created_at = now, t_updated_at = now, t_presentation = Automatic,
      t_deleted_at = None\<rparr>"

definition t_is_live :: "thought \<Rightarrow> bool" where
  "t_is_live t \<longleftrightarrow> t_deleted_at t = None"

definition set_annotations :: "thought \<Rightarrow> content_annotation list \<Rightarrow> domain_error + thought" where
  "set_annotations t annotations =
     try_bind (validate_annotations (t_content t) annotations) (\<lambda>_. Inr (t\<lparr>t_annotations := annotations\<rparr>))"

record thought_revision =
  rev_id :: revision_id
  rev_session_id :: session_id
  rev_thought_id :: thought_id
  rev_sequence :: operation_sequence
  before_content :: rstr
  after_content :: rstr
  before_annotations :: "content_annotation list"
  after_annotations :: "content_annotation list"
  before_cursor :: text_position
  before_selection_anchor :: "text_position option"
  after_cursor :: text_position
  after_selection_anchor :: "text_position option"
  rev_created_at :: timestamp

definition revision_validate_annotations :: "thought_revision \<Rightarrow> domain_error + unit" where
  "revision_validate_annotations r =
     try_bind (validate_annotations (before_content r) (before_annotations r)) (\<lambda>_.
       validate_annotations (after_content r) (after_annotations r))"

record separator =
  sep_id :: separator_id
  sep_session_id :: session_id
  sep_position :: thought_position
  sep_created_at :: timestamp
  sep_updated_at :: timestamp
  sep_deleted_at :: "timestamp option"

definition separator_new :: "separator_id \<Rightarrow> session_id \<Rightarrow> thought_position \<Rightarrow> timestamp \<Rightarrow> separator" where
  "separator_new i s position now =
     \<lparr>sep_id = i, sep_session_id = s, sep_position = position, sep_created_at = now,
      sep_updated_at = now, sep_deleted_at = None\<rparr>"

definition sep_is_live :: "separator \<Rightarrow> bool" where
  "sep_is_live s \<longleftrightarrow> sep_deleted_at s = None"

datatype board_item_id = ThoughtItem thought_id | SeparatorItem separator_id

datatype board_item = ThoughtRef thought | SeparatorRef separator

fun item_thought_id :: "board_item_id \<Rightarrow> thought_id option" where
  "item_thought_id (ThoughtItem i) = Some i"
| "item_thought_id (SeparatorItem _) = None"

fun item_id :: "board_item \<Rightarrow> board_item_id" where
  "item_id (ThoughtRef t) = ThoughtItem (t_id t)"
| "item_id (SeparatorRef s) = SeparatorItem (sep_id s)"

fun item_position :: "board_item \<Rightarrow> thought_position" where
  "item_position (ThoughtRef t) = t_position t"
| "item_position (SeparatorRef s) = sep_position s"

fun item_thought :: "board_item \<Rightarrow> thought option" where
  "item_thought (ThoughtRef t) = Some t"
| "item_thought (SeparatorRef _) = None"

section \<open>Mutations and operations\<close>

datatype board_mutation =
    Batch "board_mutation list"
  | AddThought thought
  | AddThoughtFromCompose thought text_position "text_position option"
  | AddSeparator separator
  | SetDeletion thought_id "timestamp option" thought_position
  | SetDeletionExact thought_id rstr "content_annotation list" "timestamp option" thought_position
      "timestamp option" thought_position
  | SetSeparatorDeletion separator_id "timestamp option" thought_position
  | MoveThought thought_id thought_position thought_position
  | MoveSeparator separator_id thought_position thought_position
  | ReplaceContent thought_id rstr "content_annotation list" rstr "content_annotation list"
  | SetPresentation thought_id thought_presentation
  | SetName thought_id "thought_name option" "thought_name option"
  | LegacySetCollapsed thought_id bool

datatype board_operation_kind =
    Create | InsertSeparator | Delete | Cut | Reorder | Collapse | Rename | Duplicate
  | SubmitAndRemove | TransferAndRemove | Split | Extract | Reflow | Merge
  | ExportAndRemove | ExportAndReplace

fun belongs_to_thought_content :: "board_operation_kind \<Rightarrow> bool" where
  "belongs_to_thought_content InsertSeparator = False"
| "belongs_to_thought_content Reorder = False"
| "belongs_to_thought_content Collapse = False"
| "belongs_to_thought_content Rename = False"
| "belongs_to_thought_content _ = True"

record board_operation =
  op_id :: operation_id
  op_session_id :: session_id
  op_sequence :: operation_sequence
  op_kind :: board_operation_kind
  op_forward :: board_mutation
  op_inverse :: board_mutation
  op_created_at :: timestamp

datatype undo_scope = BoardScope | EditorScope thought_id

fun mutation_validate_annotations :: "board_mutation \<Rightarrow> domain_error + unit" where
  "mutation_validate_annotations (Batch ms) = try_fold (\<lambda>_ m. mutation_validate_annotations m) () ms"
| "mutation_validate_annotations (AddThought t) = validate_annotations (t_content t) (t_annotations t)"
| "mutation_validate_annotations (AddThoughtFromCompose t _ _) =
     validate_annotations (t_content t) (t_annotations t)"
| "mutation_validate_annotations (ReplaceContent _ bc ba ac aa) =
     try_bind (validate_annotations bc ba) (\<lambda>_. validate_annotations ac aa)"
| "mutation_validate_annotations (SetDeletionExact _ content annotations _ _ _ _) =
     validate_annotations content annotations"
| "mutation_validate_annotations _ = Inr ()"

definition operation_validate_annotations :: "board_operation \<Rightarrow> domain_error + unit" where
  "operation_validate_annotations operation =
     try_bind (mutation_validate_annotations (op_forward operation)) (\<lambda>_.
       mutation_validate_annotations (op_inverse operation))"

fun addresses :: "thought_id \<Rightarrow> board_mutation \<Rightarrow> bool" where
  "addresses i (Batch ms) \<longleftrightarrow> list_ex (addresses i) ms"
| "addresses i (AddThought t) \<longleftrightarrow> t_id t = i"
| "addresses i (AddThoughtFromCompose t _ _) \<longleftrightarrow> t_id t = i"
| "addresses i (AddSeparator _) \<longleftrightarrow> False"
| "addresses i (SetSeparatorDeletion _ _ _) \<longleftrightarrow> False"
| "addresses i (MoveSeparator _ _ _) \<longleftrightarrow> False"
| "addresses i (SetDeletion affected _ _) \<longleftrightarrow> affected = i"
| "addresses i (SetDeletionExact affected _ _ _ _ _ _) \<longleftrightarrow> affected = i"
| "addresses i (MoveThought affected _ _) \<longleftrightarrow> affected = i"
| "addresses i (ReplaceContent affected _ _ _ _) \<longleftrightarrow> affected = i"
| "addresses i (SetPresentation affected _) \<longleftrightarrow> affected = i"
| "addresses i (SetName affected _ _) \<longleftrightarrow> affected = i"
| "addresses i (LegacySetCollapsed affected _) \<longleftrightarrow> affected = i"

definition push_distinct :: "'a list \<Rightarrow> 'a \<Rightarrow> 'a list" where
  "push_distinct ids i = (if i \<in> set ids then ids else ids @ [i])"

fun collect_thought_ids :: "thought_id list \<Rightarrow> board_mutation \<Rightarrow> thought_id list" where
  "collect_thought_ids ids (Batch ms) = foldl collect_thought_ids ids ms"
| "collect_thought_ids ids (AddThought t) = push_distinct ids (t_id t)"
| "collect_thought_ids ids (AddThoughtFromCompose t _ _) = push_distinct ids (t_id t)"
| "collect_thought_ids ids (AddSeparator _) = ids"
| "collect_thought_ids ids (SetSeparatorDeletion _ _ _) = ids"
| "collect_thought_ids ids (MoveSeparator _ _ _) = ids"
| "collect_thought_ids ids (SetDeletion i _ _) = push_distinct ids i"
| "collect_thought_ids ids (SetDeletionExact i _ _ _ _ _ _) = push_distinct ids i"
| "collect_thought_ids ids (MoveThought i _ _) = push_distinct ids i"
| "collect_thought_ids ids (ReplaceContent i _ _ _ _) = push_distinct ids i"
| "collect_thought_ids ids (SetPresentation i _) = push_distinct ids i"
| "collect_thought_ids ids (SetName i _ _) = push_distinct ids i"
| "collect_thought_ids ids (LegacySetCollapsed i _) = push_distinct ids i"

definition addresses_thought :: "board_operation \<Rightarrow> thought_id \<Rightarrow> bool" where
  "addresses_thought operation i \<longleftrightarrow> addresses i (op_forward operation) \<or> addresses i (op_inverse operation)"

definition content_thought_ids :: "board_operation \<Rightarrow> thought_id list" where
  "content_thought_ids operation =
     (if \<not> belongs_to_thought_content (op_kind operation) then []
      else collect_thought_ids (collect_thought_ids [] (op_forward operation)) (op_inverse operation))"

definition compose_handoff :: "board_operation \<Rightarrow> (thought_id \<times> text_position \<times> text_position option) option" where
  "compose_handoff operation =
     (case op_forward operation of
        AddThoughtFromCompose t cursor anchor \<Rightarrow> Some (t_id t, cursor, anchor) | _ \<Rightarrow> None)"

fun observe_mutation :: "attachment_counters \<Rightarrow> board_mutation \<Rightarrow> domain_error + attachment_counters" where
  "observe_mutation c (Batch ms) = try_fold observe_mutation c ms"
| "observe_mutation c (AddThought t) = observe c (t_annotations t)"
| "observe_mutation c (AddThoughtFromCompose t _ _) = observe c (t_annotations t)"
| "observe_mutation c (ReplaceContent _ _ ba _ aa) = try_bind (observe c ba) (\<lambda>c. observe c aa)"
| "observe_mutation c (SetDeletionExact _ _ annotations _ _ _ _) = observe c annotations"
| "observe_mutation c _ = Inr c"

section \<open>The aggregate\<close>

record session_board =
  b_session :: session
  b_thoughts :: "thought list"
  b_separators :: "separator list"
  b_counters :: attachment_counters

definition live_thoughts :: "session_board \<Rightarrow> thought list" where
  "live_thoughts b = sort_key t_position (filter t_is_live (b_thoughts b))"

definition live_separators :: "session_board \<Rightarrow> separator list" where
  "live_separators b = sort_key sep_position (filter sep_is_live (b_separators b))"

definition live_items :: "session_board \<Rightarrow> board_item list" where
  "live_items b = sort_key item_position
     (map ThoughtRef (filter t_is_live (b_thoughts b)) @ map SeparatorRef (filter sep_is_live (b_separators b)))"

definition thought_of :: "session_board \<Rightarrow> thought_id \<Rightarrow> thought option" where
  "thought_of b i = List.find (\<lambda>t. t_id t = i) (b_thoughts b)"

definition separator_of :: "session_board \<Rightarrow> separator_id \<Rightarrow> separator option" where
  "separator_of b i = List.find (\<lambda>s. sep_id s = i) (b_separators b)"

definition thought_mut :: "session_board \<Rightarrow> thought_id \<Rightarrow> (thought \<Rightarrow> thought) \<Rightarrow> session_board" where
  "thought_mut b i f = b\<lparr>b_thoughts := update_first (\<lambda>t. t_id t = i) f (b_thoughts b)\<rparr>"

definition separator_mut :: "session_board \<Rightarrow> separator_id \<Rightarrow> (separator \<Rightarrow> separator) \<Rightarrow> session_board" where
  "separator_mut b i f = b\<lparr>b_separators := update_first (\<lambda>s. sep_id s = i) f (b_separators b)\<rparr>"

fun item_position_of :: "session_board \<Rightarrow> board_item_id \<Rightarrow> thought_position option" where
  "item_position_of b (ThoughtItem i) = map_option t_position (filter_opt t_is_live (thought_of b i))"
| "item_position_of b (SeparatorItem i) = map_option sep_position (filter_opt sep_is_live (separator_of b i))"

definition restore_attachment_counters ::
  "session_board \<Rightarrow> attachment_counters \<Rightarrow> domain_error + session_board" where
  "restore_attachment_counters b c =
     (if image_counter c < image_counter (b_counters b) \<or> file_counter c < file_counter (b_counters b)
      then Inl InvalidContentAnnotation else Inr (b\<lparr>b_counters := c\<rparr>))"

definition observe_attachments :: "session_board \<Rightarrow> domain_error + session_board" where
  "observe_attachments b =
     try_bind (try_fold (\<lambda>c t. observe c (t_annotations t)) (b_counters b) (b_thoughts b)) (\<lambda>c.
       Inr (b\<lparr>b_counters := c\<rparr>))"

definition validate_thoughts :: "session_board \<Rightarrow> domain_error + unit" where
  "validate_thoughts b =
     try_bind (try_fold (\<lambda>(identities, attachment_ids) t.
        if t_id t \<in> identities then Inl (DuplicateThoughtId (t_id t))
        else if t_session_id t \<noteq> ses_id (b_session b)
        then Inl (WrongSession (t_id t) (ses_id (b_session b)))
        else try_bind (validate_annotations (t_content t) (t_annotations t)) (\<lambda>_.
          try_bind (case t_name t of None \<Rightarrow> Inr () | Some n \<Rightarrow> try_bind (new_thought_name (name_str n)) (\<lambda>_. Inr ())) (\<lambda>_.
          try_bind (if t_is_live t then validate_unique (t_annotations t) attachment_ids else Inr attachment_ids)
            (\<lambda>attachment_ids. Inr (insert (t_id t) identities, attachment_ids)))))
        ({}, {}) (b_thoughts b)) (\<lambda>_. Inr ())"

definition validate_separators :: "session_board \<Rightarrow> domain_error + unit" where
  "validate_separators b =
     try_bind (try_fold (\<lambda>identities s.
        if sep_id s \<in> identities then Inl (DuplicateSeparatorId (sep_id s))
        else if sep_session_id s \<noteq> ses_id (b_session b)
        then Inl (WrongSeparatorSession (sep_id s) (ses_id (b_session b)))
        else Inr (insert (sep_id s) identities)) {} (b_separators b)) (\<lambda>_. Inr ())"

definition validate :: "session_board \<Rightarrow> domain_error + unit" where
  "validate b =
     try_bind (session_validate (b_session b)) (\<lambda>_.
     try_bind (validate_thoughts b) (\<lambda>_.
     try_bind (validate_separators b) (\<lambda>_.
       if list_all (\<lambda>(expected, item). unat (item_position item) = expected) (enumerate 0 (live_items b))
       then Inr () else Inl NonNormalizedPositions)))"

definition with_separators :: "session \<Rightarrow> thought list \<Rightarrow> separator list \<Rightarrow> domain_error + session_board" where
  "with_separators s ts ss =
     try_bind (observe_attachments \<lparr>b_session = s, b_thoughts = ts, b_separators = ss,
         b_counters = default_counters\<rparr>) (\<lambda>b.
     try_bind (validate b) (\<lambda>_. Inr b))"

definition board_new :: "session \<Rightarrow> thought list \<Rightarrow> domain_error + session_board" where
  "board_new s ts = with_separators s ts []"

end
