(* ===== verification/Board_Mutations.thy ===== *)
theory Board_Mutations
  imports Board_Model
begin

text \<open>
  The exact mutation mechanics of the board (\<open>src/domain/operations/mutation.rs\<close>) and their
  dispatch (\<open>apply_mutation\<close> in \<open>src/domain/operations.rs\<close>).
\<close>

datatype shift_direction = TowardStart | TowardEnd

definition to_u32 :: "nat \<Rightarrow> domain_error + u32" where
  "to_u32 value = (if value \<le> 4294967295 then Inr (of_nat value) else Inl (InvalidPosition value 4294967295))"

definition shift_item_for_insert ::
  "('a \<Rightarrow> bool) \<Rightarrow> ('a \<Rightarrow> u32) \<Rightarrow> (u32 \<Rightarrow> 'a \<Rightarrow> 'a) \<Rightarrow> nat \<Rightarrow> 'a \<Rightarrow> 'a" where
  "shift_item_for_insert live pos set_pos target x =
     (if live x \<and> unat (pos x) \<ge> target then set_pos (sat_succ32 (pos x)) x else x)"

definition shift_item_after_remove ::
  "('a \<Rightarrow> bool) \<Rightarrow> ('a \<Rightarrow> u32) \<Rightarrow> (u32 \<Rightarrow> 'a \<Rightarrow> 'a) \<Rightarrow> nat \<Rightarrow> 'a \<Rightarrow> 'a" where
  "shift_item_after_remove live pos set_pos removed x =
     (if live x \<and> unat (pos x) > removed then set_pos (pos x - 1) x else x)"

definition shift_items ::
  "('a \<Rightarrow> bool) \<Rightarrow> ('a \<Rightarrow> u32) \<Rightarrow> (u32 \<Rightarrow> 'a \<Rightarrow> 'a) \<Rightarrow> 'a list \<Rightarrow> nat \<Rightarrow> nat \<Rightarrow> shift_direction
    \<Rightarrow> domain_error + 'a list" where
  "shift_items live pos set_pos items s e direction =
     try_map (\<lambda>x.
       if \<not> live x then Inr x
       else (let position = unat (pos x) in
         case direction of
           TowardStart \<Rightarrow> if position > s \<and> position \<le> e
             then try_bind (to_u32 (position - 1)) (\<lambda>p. Inr (set_pos p x)) else Inr x
         | TowardEnd \<Rightarrow> if position \<ge> s \<and> position < e
             then try_bind (to_u32 (position + 1)) (\<lambda>p. Inr (set_pos p x)) else Inr x)) items"

definition t_set_position :: "u32 \<Rightarrow> thought \<Rightarrow> thought" where
  "t_set_position p t = t\<lparr>t_position := p\<rparr>"

definition sep_set_position :: "u32 \<Rightarrow> separator \<Rightarrow> separator" where
  "sep_set_position p s = s\<lparr>sep_position := p\<rparr>"

definition shift_for_insert :: "session_board \<Rightarrow> nat \<Rightarrow> session_board" where
  "shift_for_insert b target =
     b\<lparr>b_thoughts := map (shift_item_for_insert t_is_live t_position t_set_position target) (b_thoughts b),
       b_separators := map (shift_item_for_insert sep_is_live sep_position sep_set_position target) (b_separators b)\<rparr>"

definition shift_after_remove :: "session_board \<Rightarrow> nat \<Rightarrow> session_board" where
  "shift_after_remove b removed =
     b\<lparr>b_thoughts := map (shift_item_after_remove t_is_live t_position t_set_position removed) (b_thoughts b),
       b_separators := map (shift_item_after_remove sep_is_live sep_position sep_set_position removed) (b_separators b)\<rparr>"

definition shift_range :: "session_board \<Rightarrow> nat \<Rightarrow> nat \<Rightarrow> shift_direction \<Rightarrow> domain_error + session_board" where
  "shift_range b s e direction =
     try_bind (shift_items t_is_live t_position t_set_position (b_thoughts b) s e direction) (\<lambda>ts.
     try_bind (shift_items sep_is_live sep_position sep_set_position (b_separators b) s e direction) (\<lambda>ss.
       Inr (b\<lparr>b_thoughts := ts, b_separators := ss\<rparr>)))"

definition add_or_restore :: "session_board \<Rightarrow> thought \<Rightarrow> timestamp \<Rightarrow> domain_error + session_board" where
  "add_or_restore b t at =
     (if t_session_id t \<noteq> ses_id (b_session b) then Inl (WrongSession (t_id t) (ses_id (b_session b)))
      else (let target = unat (t_position t); live_len = length (live_items b) in
        if target > live_len then Inl (InvalidPosition target live_len)
        else case thought_of b (t_id t) of
          Some existing \<Rightarrow>
            if t_is_live existing then Inl (ThoughtAlreadyExists (t_id t))
            else try_bind (to_u32 target) (\<lambda>p.
              Inr (thought_mut (shift_for_insert b target) (t_id t)
                (\<lambda>x. x\<lparr>t_deleted_at := None, t_position := p, t_updated_at := at\<rparr>)))
        | None \<Rightarrow>
            try_bind (to_u32 target) (\<lambda>p.
              (let b' = shift_for_insert b target in
               Inr (b'\<lparr>b_thoughts := b_thoughts b'
                  @ [t\<lparr>t_position := p, t_deleted_at := None, t_updated_at := at\<rparr>]\<rparr>)))))"

definition set_deletion ::
  "session_board \<Rightarrow> thought_id \<Rightarrow> timestamp option \<Rightarrow> thought_position \<Rightarrow> timestamp \<Rightarrow> domain_error + session_board"
where
  "set_deletion b i deleted_at position at =
     try_bind (ok_or (ThoughtNotFound i) (thought_of b i)) (\<lambda>current.
       case (t_deleted_at current, deleted_at) of
         (None, Some deleted) \<Rightarrow>
           Inr (shift_after_remove
             (thought_mut b i (\<lambda>x. x\<lparr>t_deleted_at := Some deleted, t_updated_at := at\<rparr>))
             (unat (t_position current)))
       | (Some _, None) \<Rightarrow>
           (let target = unat position; len = length (live_items b) in
            if target > len then Inl (InvalidPosition target len)
            else Inr (thought_mut (shift_for_insert b target) i
              (\<lambda>x. x\<lparr>t_deleted_at := None, t_position := position, t_updated_at := at\<rparr>)))
       | _ \<Rightarrow> Inr b)"

definition set_deletion_exact ::
  "session_board \<Rightarrow> thought_id \<Rightarrow> rstr \<Rightarrow> content_annotation list \<Rightarrow> timestamp option \<Rightarrow> thought_position
    \<Rightarrow> timestamp option \<Rightarrow> thought_position \<Rightarrow> timestamp \<Rightarrow> domain_error + session_board"
where
  "set_deletion_exact b i expected_content expected_annotations expected_deleted_at expected_position
     deleted_at position at =
     try_bind (ok_or (ThoughtNotFound i) (thought_of b i)) (\<lambda>t.
       if t_content t \<noteq> expected_content \<or> t_annotations t \<noteq> expected_annotations
          \<or> t_deleted_at t \<noteq> expected_deleted_at \<or> t_position t \<noteq> expected_position
       then Inl (ThoughtContentConflict i)
       else set_deletion b i deleted_at position at)"

definition move_shift :: "session_board \<Rightarrow> nat \<Rightarrow> nat \<Rightarrow> domain_error + session_board" where
  "move_shift b from to =
     (if from < to then shift_range b from to TowardStart
      else if to < from then shift_range b to from TowardEnd
      else Inr b)"

definition move_thought ::
  "session_board \<Rightarrow> thought_id \<Rightarrow> thought_position \<Rightarrow> thought_position \<Rightarrow> timestamp \<Rightarrow> domain_error + session_board"
where
  "move_thought b i from_pos to_pos at =
     (let len = length (live_items b); from = unat from_pos; to = unat to_pos in
      if from \<ge> len \<or> to \<ge> len then Inl (InvalidPosition (max from to) len)
      else try_bind (ok_or (ThoughtNotFound i) (thought_of b i)) (\<lambda>current.
        if \<not> t_is_live current \<or> unat (t_position current) \<noteq> from then Inl (InvalidPosition from len)
        else try_bind (move_shift b from to) (\<lambda>b'.
          try_bind (to_u32 to) (\<lambda>p.
            Inr (thought_mut b' i (\<lambda>x. x\<lparr>t_position := p, t_updated_at := at\<rparr>))))))"

definition live_thought_of :: "session_board \<Rightarrow> thought_id \<Rightarrow> domain_error + thought" where
  "live_thought_of b i = ok_or (ThoughtNotFound i) (filter_opt t_is_live (thought_of b i))"

definition replace_content ::
  "session_board \<Rightarrow> thought_id \<Rightarrow> rstr \<Rightarrow> content_annotation list \<Rightarrow> rstr \<Rightarrow> content_annotation list \<Rightarrow> timestamp
    \<Rightarrow> domain_error + session_board"
where
  "replace_content b i bc ba ac aa at =
     try_bind (validate_annotations ac aa) (\<lambda>_.
     try_bind (live_thought_of b i) (\<lambda>t.
       if t_content t \<noteq> bc \<or> t_annotations t \<noteq> ba then Inl (ThoughtContentConflict i)
       else Inr (thought_mut b i (\<lambda>x. x\<lparr>t_content := ac, t_annotations := aa, t_updated_at := at\<rparr>))))"

definition set_name ::
  "session_board \<Rightarrow> thought_id \<Rightarrow> thought_name option \<Rightarrow> thought_name option \<Rightarrow> timestamp \<Rightarrow> domain_error + session_board"
where
  "set_name b i before after at =
     try_bind (live_thought_of b i) (\<lambda>t.
       if t_name t \<noteq> before then Inl (ThoughtNameConflict i)
       else Inr (thought_mut b i (\<lambda>x. x\<lparr>t_name := after, t_updated_at := at\<rparr>)))"

definition set_presentation ::
  "session_board \<Rightarrow> thought_id \<Rightarrow> thought_presentation \<Rightarrow> timestamp \<Rightarrow> domain_error + session_board" where
  "set_presentation b i presentation at =
     try_bind (ok_or (ThoughtNotFound i) (thought_of b i)) (\<lambda>_.
       Inr (thought_mut b i (\<lambda>x. x\<lparr>t_presentation := presentation, t_updated_at := at\<rparr>)))"

definition set_legacy_collapsed ::
  "session_board \<Rightarrow> thought_id \<Rightarrow> bool \<Rightarrow> timestamp \<Rightarrow> domain_error + session_board" where
  "set_legacy_collapsed b i collapsed at =
     set_presentation b i (if collapsed then Collapsed else Automatic) at"

definition add_or_restore_separator :: "session_board \<Rightarrow> separator \<Rightarrow> timestamp \<Rightarrow> domain_error + session_board" where
  "add_or_restore_separator b s at =
     (if sep_session_id s \<noteq> ses_id (b_session b)
      then Inl (WrongSeparatorSession (sep_id s) (ses_id (b_session b)))
      else (let target = unat (sep_position s); live_len = length (live_items b) in
        if target > live_len then Inl (InvalidPosition target live_len)
        else case separator_of b (sep_id s) of
          Some existing \<Rightarrow>
            if sep_is_live existing then Inl (SeparatorAlreadyExists (sep_id s))
            else try_bind (to_u32 target) (\<lambda>p.
              Inr (separator_mut (shift_for_insert b target) (sep_id s)
                (\<lambda>x. x\<lparr>sep_deleted_at := None, sep_position := p, sep_updated_at := at\<rparr>)))
        | None \<Rightarrow>
            try_bind (to_u32 target) (\<lambda>p.
              (let b' = shift_for_insert b target in
               Inr (b'\<lparr>b_separators := b_separators b'
                  @ [s\<lparr>sep_position := p, sep_deleted_at := None, sep_updated_at := at\<rparr>]\<rparr>)))))"

definition set_separator_deletion ::
  "session_board \<Rightarrow> separator_id \<Rightarrow> timestamp option \<Rightarrow> thought_position \<Rightarrow> timestamp \<Rightarrow> domain_error + session_board"
where
  "set_separator_deletion b i deleted_at position at =
     try_bind (ok_or (SeparatorNotFound i) (separator_of b i)) (\<lambda>current.
       case (sep_deleted_at current, deleted_at) of
         (None, Some deleted) \<Rightarrow>
           Inr (shift_after_remove
             (separator_mut b i (\<lambda>x. x\<lparr>sep_deleted_at := Some deleted, sep_updated_at := at\<rparr>))
             (unat (sep_position current)))
       | (Some _, None) \<Rightarrow>
           (let target = unat position; len = length (live_items b) in
            if target > len then Inl (InvalidPosition target len)
            else Inr (separator_mut (shift_for_insert b target) i
              (\<lambda>x. x\<lparr>sep_deleted_at := None, sep_position := position, sep_updated_at := at\<rparr>)))
       | _ \<Rightarrow> Inr b)"

definition move_separator ::
  "session_board \<Rightarrow> separator_id \<Rightarrow> thought_position \<Rightarrow> thought_position \<Rightarrow> timestamp \<Rightarrow> domain_error + session_board"
where
  "move_separator b i from_pos to_pos at =
     (let len = length (live_items b); from = unat from_pos; to = unat to_pos in
      if from \<ge> len \<or> to \<ge> len then Inl (InvalidPosition (max from to) len)
      else try_bind (ok_or (SeparatorNotFound i) (separator_of b i)) (\<lambda>current.
        if \<not> sep_is_live current \<or> unat (sep_position current) \<noteq> from then Inl (InvalidPosition from len)
        else try_bind (move_shift b from to) (\<lambda>b'.
          try_bind (to_u32 to) (\<lambda>p.
            Inr (separator_mut b' i (\<lambda>x. x\<lparr>sep_position := p, sep_updated_at := at\<rparr>))))))"

definition touch_session :: "timestamp \<Rightarrow> session_board \<Rightarrow> session_board" where
  "touch_session at b = b\<lparr>b_session := (b_session b)\<lparr>last_active_at := max (last_active_at (b_session b)) at\<rparr>\<rparr>"

fun apply_mutation_in_place :: "timestamp \<Rightarrow> session_board \<Rightarrow> board_mutation \<Rightarrow> domain_error + session_board" where
  "apply_mutation_in_place at b (Batch ms) =
     try_bind (try_fold (apply_mutation_in_place at) b ms) (\<lambda>b. Inr (touch_session at b))"
| "apply_mutation_in_place at b (AddThought t) =
     try_bind (add_or_restore b t at) (\<lambda>b. Inr (touch_session at b))"
| "apply_mutation_in_place at b (AddThoughtFromCompose t _ _) =
     try_bind (add_or_restore b t at) (\<lambda>b. Inr (touch_session at b))"
| "apply_mutation_in_place at b (AddSeparator s) =
     try_bind (add_or_restore_separator b s at) (\<lambda>b. Inr (touch_session at b))"
| "apply_mutation_in_place at b (SetDeletion i deleted_at position) =
     try_bind (set_deletion b i deleted_at position at) (\<lambda>b. Inr (touch_session at b))"
| "apply_mutation_in_place at b (SetDeletionExact i ec ea ed ep deleted_at position) =
     try_bind (set_deletion_exact b i ec ea ed ep deleted_at position at) (\<lambda>b. Inr (touch_session at b))"
| "apply_mutation_in_place at b (SetSeparatorDeletion i deleted_at position) =
     try_bind (set_separator_deletion b i deleted_at position at) (\<lambda>b. Inr (touch_session at b))"
| "apply_mutation_in_place at b (MoveThought i from to) =
     try_bind (move_thought b i from to at) (\<lambda>b. Inr (touch_session at b))"
| "apply_mutation_in_place at b (MoveSeparator i from to) =
     try_bind (move_separator b i from to at) (\<lambda>b. Inr (touch_session at b))"
| "apply_mutation_in_place at b (ReplaceContent i bc ba ac aa) =
     try_bind (replace_content b i bc ba ac aa at) (\<lambda>b. Inr (touch_session at b))"
| "apply_mutation_in_place at b (SetPresentation i presentation) =
     try_bind (set_presentation b i presentation at) (\<lambda>b. Inr (touch_session at b))"
| "apply_mutation_in_place at b (SetName i before after) =
     try_bind (set_name b i before after at) (\<lambda>b. Inr (touch_session at b))"
| "apply_mutation_in_place at b (LegacySetCollapsed i collapsed) =
     try_bind (set_legacy_collapsed b i collapsed at) (\<lambda>b. Inr (touch_session at b))"

definition apply_mutation :: "session_board \<Rightarrow> board_mutation \<Rightarrow> timestamp \<Rightarrow> domain_error + session_board" where
  "apply_mutation b m at =
     try_bind (apply_mutation_in_place at b m) (\<lambda>candidate.
     try_bind (observe_attachments candidate) (\<lambda>candidate.
     try_bind (validate candidate) (\<lambda>_. Inr candidate)))"

text \<open>A code equation over binary integers, so that evaluation never unfolds the bound in unary.\<close>

lemma to_u32_code [code]:
  "to_u32 value = (if int value \<le> 4294967295 then Inr (of_nat value) else Inl (InvalidPosition value 4294967295))"
proof -
  have "int value \<le> 4294967295 \<longleftrightarrow> value \<le> 4294967295" by linarith
  then show ?thesis by (simp add: to_u32_def)
qed

end
