(* ===== verification/Board_Order.thy ===== *)
theory Board_Order
  imports Board_Mutations
begin

text \<open>
  The board as an ordered list. A board stores its live items unsorted, each with a position; the
  table of positions (\<open>entries\<close>) represents one ordered list of item identities (\<open>order\<close>). The locale
  \<open>positioned_item\<close> is the trait \<open>PositionedItem\<close> of \<open>src/domain/operations/mutation.rs\<close> with the laws its
  implementations obey; it is interpreted for thoughts and for separators. On top of it every mutator
  refines an operation on lists: insertion, removal and move.
\<close>

section \<open>The trait of positioned items\<close>

definition position_table :: "('a \<Rightarrow> 'k) \<Rightarrow> ('a \<Rightarrow> bool) \<Rightarrow> ('a \<Rightarrow> u32) \<Rightarrow> 'a list \<Rightarrow> ('k \<times> nat) multiset" where
  "position_table key live pos xs = mset (map (\<lambda>x. (key x, unat (pos x))) (filter live xs))"

definition shifted_from_to :: "nat \<Rightarrow> nat \<Rightarrow> shift_direction \<Rightarrow> nat \<Rightarrow> nat" where
  "shifted_from_to s e direction p =
     (case direction of TowardStart \<Rightarrow> if s < p \<and> p \<le> e then p - 1 else p
      | TowardEnd \<Rightarrow> if s \<le> p \<and> p < e then p + 1 else p)"

locale positioned_item =
  fixes key :: "'a \<Rightarrow> 'k" and live :: "'a \<Rightarrow> bool" and pos :: "'a \<Rightarrow> u32" and set_pos :: "u32 \<Rightarrow> 'a \<Rightarrow> 'a"
  assumes key_set_pos: "key (set_pos p x) = key x"
    and live_set_pos: "live (set_pos p x) \<longleftrightarrow> live x"
    and pos_set_pos: "pos (set_pos p x) = p"
    and set_pos_pos: "set_pos (pos x) x = x"
begin

lemmas laws = key_set_pos live_set_pos pos_set_pos set_pos_pos

lemma table_Nil: "position_table key live pos [] = {#}"
  by (simp add: position_table_def)

lemma table_Cons:
  "position_table key live pos (x # xs) =
    (if live x then add_mset (key x, unat (pos x)) (position_table key live pos xs) else position_table key live pos xs)"
  by (simp add: position_table_def)

lemma table_append:
  "position_table key live pos (xs @ ys) = position_table key live pos xs + position_table key live pos ys"
  by (simp add: position_table_def)

lemma table_map:
  assumes "\<And>x. x \<in> set xs \<Longrightarrow> key (f x) = key x \<and> (live (f x) \<longleftrightarrow> live x)"
    and "\<And>x. x \<in> set xs \<Longrightarrow> live x \<Longrightarrow> unat (pos (f x)) = g (unat (pos x))"
  shows "position_table key live pos (map f xs) = image_mset (apsnd g) (position_table key live pos xs)"
  using assms by (induction xs) (auto simp: table_Nil table_Cons)

lemma table_shift_for_insert:
  assumes "\<And>x. x \<in> set xs \<Longrightarrow> live x \<Longrightarrow> unat (pos x) + 1 < 2 ^ 32"
  shows "position_table key live pos (map (shift_item_for_insert live pos set_pos k) xs)
    = image_mset (apsnd (shift_up k)) (position_table key live pos xs)"
  using assms
  by (intro table_map) (auto simp: shift_item_for_insert_def shift_up_def laws unat_sat_succ32)

lemma table_shift_after_remove:
  "position_table key live pos (map (shift_item_after_remove live pos set_pos k) xs)
    = image_mset (apsnd (shift_down k)) (position_table key live pos xs)"
  by (intro table_map) (auto simp: shift_item_after_remove_def shift_down_def laws unat_pred32)

lemma shift_items_Inr:
  assumes "e < 2 ^ 32"
  shows "shift_items live pos set_pos xs s e direction =
    Inr (map (\<lambda>x. if live x then set_pos (of_nat (shifted_from_to s e direction (unat (pos x)))) x else x) xs)"
proof (induction xs)
  case Nil
  then show ?case by (simp add: shift_items_def)
next
  case (Cons x xs)
  have "to_u32 (unat (pos x) - 1) = Inr (of_nat (unat (pos x) - 1))"
    using less_imp_le_nat [OF unat_u32_less [of "pos x"]] by (simp add: to_u32_def le_diff_conv)
  moreover have "unat (pos x) < e \<Longrightarrow> to_u32 (unat (pos x) + 1) = Inr (of_nat (unat (pos x) + 1))"
    using assms by (simp add: to_u32_def)
  ultimately show ?case using Cons
    by (cases direction) (auto simp: shift_items_def shifted_from_to_def laws)
qed

lemma shift_items_table:
  assumes "e < 2 ^ 32" and "shift_items live pos set_pos xs s e direction = Inr ys"
  shows "position_table key live pos ys
    = image_mset (apsnd (shifted_from_to s e direction)) (position_table key live pos xs)"
proof -
  have "unat (of_nat (shifted_from_to s e direction (unat (pos x))) :: u32)
      = shifted_from_to s e direction (unat (pos x))" for x
    using assms(1) unat_u32_less [of "pos x"]
    by (intro unat_of_nat_u32) (auto simp: shifted_from_to_def split: shift_direction.splits)
  moreover have "ys = map (\<lambda>x. if live x
      then set_pos (of_nat (shifted_from_to s e direction (unat (pos x)))) x else x) xs"
    using assms(2) shift_items_Inr [OF assms(1)] by simp
  ultimately show ?thesis by (simp only:) (rule table_map; simp add: laws)
qed

text \<open>No shift changes anything but positions, and none changes a dormant item.\<close>

lemma shift_frame:
  assumes "\<And>p x. F (set_pos p x) = F x"
  shows "map F (map (shift_item_for_insert live pos set_pos k) xs) = map F xs"
    and "map F (map (shift_item_after_remove live pos set_pos k) xs) = map F xs"
    and "e < 2 ^ 32 \<Longrightarrow> shift_items live pos set_pos xs s e direction = Inr ys \<Longrightarrow> map F ys = map F xs"
proof -
  show "map F (map (shift_item_for_insert live pos set_pos k) xs) = map F xs"
    using assms by (simp add: shift_item_for_insert_def)
  show "map F (map (shift_item_after_remove live pos set_pos k) xs) = map F xs"
    using assms by (simp add: shift_item_after_remove_def)
  assume "e < 2 ^ 32" "shift_items live pos set_pos xs s e direction = Inr ys"
  then have "ys = map (\<lambda>x. if live x then set_pos (of_nat (shifted_from_to s e direction (unat (pos x)))) x else x) xs"
    by (simp add: shift_items_Inr)
  then show "map F ys = map F xs" using assms by simp
qed

text \<open>Rewriting the one item with a given key.\<close>

lemma table_update:
  assumes "List.find (\<lambda>x. key x = k) xs = Some x" and "key (f x) = k"
  shows "position_table key live pos (update_first (\<lambda>x. key x = k) f xs)
      + (if live x then {#(k, unat (pos x))#} else {#})
    = position_table key live pos xs + (if live (f x) then {#(k, unat (pos (f x)))#} else {#})"
  using assms by (induction xs) (auto simp: table_Cons split: if_splits)

lemma table_member:
  "List.find (\<lambda>x. key x = k) xs = Some x \<Longrightarrow> live x \<Longrightarrow> (k, unat (pos x)) \<in># position_table key live pos xs"
  by (induction xs) (auto simp: table_Cons split: if_splits)

lemma table_member_unique:
  assumes "distinct (map key xs)" and "List.find (\<lambda>x. key x = k) xs = y"
  shows "(k, p) \<in># position_table key live pos xs \<longleftrightarrow> (\<exists>x. y = Some x \<and> live x \<and> p = unat (pos x))"
  using assms
proof (induction xs arbitrary: y)
  case Nil
  then show ?case by (simp add: table_Nil)
next
  case (Cons x xs)
  have "(k, p) \<notin># position_table key live pos xs" if "key x = k"
    using Cons.prems that by (auto simp: position_table_def)
  moreover have "(k, p) \<in># position_table key live pos xs \<longleftrightarrow>
      (\<exists>x. List.find (\<lambda>x. key x = k) xs = Some x \<and> live x \<and> p = unat (pos x))"
    using Cons.prems(1) by (intro Cons.IH) simp_all
  ultimately show ?case using Cons.prems(2) by (cases "key x = k") (auto simp: table_Cons)
qed

end

interpretation tp: positioned_item t_id t_is_live t_position t_set_position
  by unfold_locales (simp_all add: t_set_position_def t_is_live_def)

interpretation sp: positioned_item sep_id sep_is_live sep_position sep_set_position
  by unfold_locales (simp_all add: sep_set_position_def sep_is_live_def)

section \<open>The board as an ordered list\<close>

definition order :: "session_board \<Rightarrow> board_item_id list" where
  "order b = map item_id (live_items b)"

definition entries :: "session_board \<Rightarrow> (board_item_id \<times> nat) multiset" where
  "entries b =
     image_mset (apfst ThoughtItem) (position_table t_id t_is_live t_position (b_thoughts b))
     + image_mset (apfst SeparatorItem) (position_table sep_id sep_is_live sep_position (b_separators b))"

lemma insort_key_unat: "insort_key (\<lambda>x. unat (f x :: u32)) x xs = insort_key f x xs"
  by (induction xs) (auto simp: word_le_nat_alt)

lemma sort_key_unat: "sort_key (\<lambda>x. unat (f x :: u32)) xs = sort_key f xs"
  by (induction xs) (simp_all add: insort_key_unat)

lemma sort_key_map: "sort_key k (map f xs) = map f (sort_key (\<lambda>x. k (f x)) xs)"
proof (induction xs)
  case Nil
  then show ?case by simp
next
  case (Cons x xs)
  have "insort_key k (f x) (map f ys) = map f (insort_key (\<lambda>x. k (f x)) x ys)" for ys
    by (induction ys) auto
  then show ?case using Cons by simp
qed

lemma entries_mset:
  "entries b = mset (map (\<lambda>i. (item_id i, unat (item_position i)))
     (map ThoughtRef (filter t_is_live (b_thoughts b)) @ map SeparatorRef (filter sep_is_live (b_separators b))))"
  by (simp add: entries_def position_table_def image_mset.compositionality comp_def apfst_def map_prod_def)

lemma represents_order: "represents (entries b) xs \<Longrightarrow> order b = xs"
proof -
  assume "represents (entries b) xs"
  then have "map (\<lambda>i. (item_id i, unat (item_position i))) (live_items b) = zip xs [0..<length xs]"
    unfolding entries_mset live_items_def by (drule_tac represents_sort_key) (simp add: sort_key_unat)
  then have "map fst (map (\<lambda>i. (item_id i, unat (item_position i))) (live_items b)) = xs" by simp
  then show "order b = xs" by (simp add: order_def comp_def)
qed

lemma list_all_enumerate:
  "list_all (\<lambda>(e, x). f x = e) (enumerate n xs) \<longleftrightarrow> map f xs = [n..<n + length xs]"
  by (induction xs arbitrary: n) (auto simp: upt_rec)

definition normalized :: "session_board \<Rightarrow> bool" where
  "normalized b \<longleftrightarrow> list_all (\<lambda>(expected, item). unat (item_position item) = expected) (enumerate 0 (live_items b))"

lemma normalized_iff: "normalized b \<longleftrightarrow> represents (entries b) (order b)"
proof -
  let ?es = "map (\<lambda>i. (item_id i, unat (item_position i)))
     (map ThoughtRef (filter t_is_live (b_thoughts b)) @ map SeparatorRef (filter sep_is_live (b_separators b)))"
  have "sort_key snd ?es = map (\<lambda>i. (item_id i, unat (item_position i))) (live_items b)"
    unfolding live_items_def sort_key_unat [symmetric] by (simp only: sort_key_map snd_conv)
  then have "map snd (sort_key snd ?es) = map (\<lambda>i. unat (item_position i)) (live_items b)" by simp
  moreover have "length ?es = length (live_items b)" by (simp add: live_items_def)
  ultimately have "normalized b \<longleftrightarrow> (\<exists>xs. represents (entries b) xs)"
    unfolding normalized_def entries_mset represents_exists_iff list_all_enumerate by simp
  then show ?thesis using represents_order by blast
qed


lemma represents_bound:
  assumes "represents (entries b) xs"
  shows "length xs \<le> 2 ^ 32" and "length (live_items b) = length xs" and "normalized b"
proof -
  show len: "length (live_items b) = length xs" using represents_order [OF assms] by (auto simp: order_def)
  show "normalized b" using assms represents_order [OF assms] by (simp add: normalized_iff)
  show "length xs \<le> 2 ^ 32"
  proof (cases "xs = []")
    case False
    let ?p = "length xs - 1"
    have "(xs ! ?p, ?p) \<in># entries b" using represents_nth [OF assms] False by simp
    then have "\<exists>q :: u32. ?p = unat q" by (auto simp: entries_mset)
    then have "?p < 2 ^ 32" using unat_u32_less by auto
    then show ?thesis by simp
  qed simp
qed

lemma entries_thought: "(ThoughtItem i, p) \<in># entries b \<longleftrightarrow> (i, p) \<in># position_table t_id t_is_live t_position (b_thoughts b)"
  by (force simp: entries_def image_iff)

lemma entries_separator:
  "(SeparatorItem i, p) \<in># entries b \<longleftrightarrow> (i, p) \<in># position_table sep_id sep_is_live sep_position (b_separators b)"
  by (force simp: entries_def image_iff)

lemma apfst_apsnd_mset: "image_mset (apfst f) (image_mset (apsnd g) T) = image_mset (apsnd g) (image_mset (apfst f) T)"
  by (simp add: image_mset.compositionality comp_def)

text \<open>The three shifts, on the whole table.\<close>

lemma live_bound:
  assumes "represents (entries b) xs" and "length xs < 2 ^ 32"
  shows "x \<in> set (b_thoughts b) \<Longrightarrow> t_is_live x \<Longrightarrow> unat (t_position x) + 1 < 2 ^ 32"
    and "s \<in> set (b_separators b) \<Longrightarrow> sep_is_live s \<Longrightarrow> unat (sep_position s) + 1 < 2 ^ 32"
proof -
  assume "x \<in> set (b_thoughts b)" "t_is_live x"
  then have "(ThoughtItem (t_id x), unat (t_position x)) \<in># entries b"
    unfolding entries_thought position_table_def by force
  then show "unat (t_position x) + 1 < 2 ^ 32" using represents_nth [OF assms(1)] assms(2) by fastforce
next
  assume "s \<in> set (b_separators b)" "sep_is_live s"
  then have "(SeparatorItem (sep_id s), unat (sep_position s)) \<in># entries b"
    unfolding entries_separator position_table_def by force
  then show "unat (sep_position s) + 1 < 2 ^ 32" using represents_nth [OF assms(1)] assms(2) by fastforce
qed

lemma entries_shift_for_insert:
  assumes "represents (entries b) xs" and "length xs < 2 ^ 32"
  shows "entries (shift_for_insert b k) = image_mset (apsnd (shift_up k)) (entries b)"
  using live_bound [OF assms]
  by (simp add: entries_def shift_for_insert_def tp.table_shift_for_insert sp.table_shift_for_insert apfst_apsnd_mset)

lemma entries_shift_after_remove:
  "entries (shift_after_remove b k) = image_mset (apsnd (shift_down k)) (entries b)"
  by (simp add: entries_def shift_after_remove_def tp.table_shift_after_remove sp.table_shift_after_remove
      apfst_apsnd_mset)

lemma entries_move_shift:
  assumes "from < 2 ^ 32" and "to < 2 ^ 32"
  shows "\<exists>b'. move_shift b from to = Inr b' \<and> b_session b' = b_session b \<and> b_counters b' = b_counters b
    \<and> entries b' = image_mset (apsnd (shift_between from to)) (entries b)"
proof -
  have range: "\<exists>b'. shift_range b s e d = Inr b' \<and> b_session b' = b_session b \<and> b_counters b' = b_counters b
      \<and> entries b' = image_mset (apsnd (shifted_from_to s e d)) (entries b)" if "e < 2 ^ 32" for s e d
    using tp.shift_items_table [OF that, of "b_thoughts b" s d] sp.shift_items_table [OF that, of "b_separators b" s d]
      tp.shift_items_Inr [OF that, of "b_thoughts b" s d] sp.shift_items_Inr [OF that, of "b_separators b" s d]
    by (simp add: shift_range_def entries_def apfst_apsnd_mset)
  consider (up) "from < to" | (down) "to < from" | (stay) "from = to" by linarith
  then show ?thesis
  proof cases
    case up
    then have "shifted_from_to from to TowardStart = shift_between from to"
      by (auto simp: shifted_from_to_def shift_between_def fun_eq_iff)
    then show ?thesis using range [OF assms(2), of "from" TowardStart] up by (auto simp: move_shift_def)
  next
    case down
    then have "shifted_from_to to from TowardEnd = shift_between from to"
      by (auto simp: shifted_from_to_def shift_between_def fun_eq_iff)
    then show ?thesis using range [OF assms(1), of to TowardEnd] down by (auto simp: move_shift_def)
  next
    case stay
    then have "shift_between from to = id" by (auto simp: shift_between_def fun_eq_iff)
    then show ?thesis using stay by (simp add: move_shift_def)
  qed
qed


text \<open>What a shift keeps: everything of a board but the positions of its live items.\<close>

definition t_body :: "thought \<Rightarrow> thought" where
  "t_body t = t\<lparr>t_position := 0\<rparr>"

definition sep_body :: "separator \<Rightarrow> separator" where
  "sep_body s = s\<lparr>sep_position := 0\<rparr>"

definition same_bodies :: "session_board \<Rightarrow> session_board \<Rightarrow> bool" where
  "same_bodies b b' \<longleftrightarrow> b_session b' = b_session b \<and> b_counters b' = b_counters b
     \<and> map t_body (b_thoughts b') = map t_body (b_thoughts b)
     \<and> map sep_body (b_separators b') = map sep_body (b_separators b)"

lemma body_set_position [simp]:
  "t_body (t_set_position p t) = t_body t" "sep_body (sep_set_position p s) = sep_body s"
  by (simp_all add: t_body_def t_set_position_def sep_body_def sep_set_position_def)

lemma t_body_eq_iff:
  "t_body u = t_body t \<longleftrightarrow> t_id u = t_id t \<and> t_session_id u = t_session_id t \<and> t_content u = t_content t
    \<and> t_name u = t_name t \<and> t_annotations u = t_annotations t \<and> t_created_at u = t_created_at t
    \<and> t_updated_at u = t_updated_at t \<and> t_presentation u = t_presentation t \<and> t_deleted_at u = t_deleted_at t"
  by (cases u; cases t) (auto simp: t_body_def)

lemma sep_body_eq_iff:
  "sep_body u = sep_body t \<longleftrightarrow> sep_id u = sep_id t \<and> sep_session_id u = sep_session_id t
    \<and> sep_created_at u = sep_created_at t \<and> sep_updated_at u = sep_updated_at t
    \<and> sep_deleted_at u = sep_deleted_at t"
  by (cases u; cases t) (auto simp: sep_body_def)

lemma same_bodies_refl [simp]: "same_bodies b b"
  by (simp add: same_bodies_def)

lemma same_bodies_shift_for_insert: "same_bodies b (shift_for_insert b k)"
  using tp.shift_frame(1) [of t_body k "b_thoughts b"] sp.shift_frame(1) [of sep_body k "b_separators b"]
  by (simp add: same_bodies_def shift_for_insert_def)

lemma same_bodies_shift_after_remove: "same_bodies b (shift_after_remove b k)"
  using tp.shift_frame(2) [of t_body k "b_thoughts b"] sp.shift_frame(2) [of sep_body k "b_separators b"]
  by (simp add: same_bodies_def shift_after_remove_def)

lemma same_bodies_move_shift:
  assumes "from < 2 ^ 32" and "to < 2 ^ 32" and "move_shift b from to = Inr b'"
  shows "same_bodies b b'"
proof -
  have "same_bodies b b'" if "e < 2 ^ 32" "shift_range b s e d = Inr b'" for s e d
    using that(2) tp.shift_frame(3) [of t_body e "b_thoughts b" s d] that(1)
      sp.shift_frame(3) [of sep_body e "b_separators b" s d]
    by (auto simp: shift_range_def same_bodies_def)
  then show ?thesis using assms by (auto simp: move_shift_def split: if_splits)
qed

text \<open>A field of a body is unchanged, list-wise and by identity.\<close>

lemma map_body_eq:
  assumes "map t_body ts' = map t_body ts" and "\<And>t. F (t_body t) = F t"
  shows "map F ts' = map F ts"
proof -
  have "map F us = map F (map t_body us)" for us using assms(2) by simp
  then show ?thesis using assms(1) by metis
qed

lemma map_sep_body_eq:
  assumes "map sep_body ss' = map sep_body ss" and "\<And>s. F (sep_body s) = F s"
  shows "map F ss' = map F ss"
proof -
  have "map F us = map F (map sep_body us)" for us using assms(2) by simp
  then show ?thesis using assms(1) by metis
qed

lemma find_body:
  assumes "map t_body ts' = map t_body ts"
  shows "map_option t_body (List.find (\<lambda>t. t_id t = i) ts') = map_option t_body (List.find (\<lambda>t. t_id t = i) ts)"
  using assms
proof (induction ts arbitrary: ts')
  case Nil
  then show ?case by simp
next
  case (Cons t ts)
  then obtain u us where us: "ts' = u # us" "t_body u = t_body t" "map t_body us = map t_body ts" by auto
  have "t_id u = t_id t" using us(2) by (simp add: t_body_eq_iff)
  then show ?case using Cons.IH [OF us(3)] us(1,2) by (cases "t_id t = i") simp_all
qed


lemma find_sep_body:
  assumes "map sep_body ts' = map sep_body ts"
  shows "map_option sep_body (List.find (\<lambda>t. sep_id t = i) ts') = map_option sep_body (List.find (\<lambda>t. sep_id t = i) ts)"
  using assms
proof (induction ts arbitrary: ts')
  case Nil
  then show ?case by simp
next
  case (Cons t ts)
  then obtain u us where us: "ts' = u # us" "sep_body u = sep_body t" "map sep_body us = map sep_body ts" by auto
  have "sep_id u = sep_id t" using us(2) by (simp add: sep_body_eq_iff)
  then show ?case using Cons.IH [OF us(3)] us(1,2) by (cases "sep_id t = i") simp_all
qed

lemma same_bodies_thought_of:
  assumes "same_bodies b b'"
  shows "map_option t_body (thought_of b' i) = map_option t_body (thought_of b i)"
    and "map_option sep_body (separator_of b' j) = map_option sep_body (separator_of b j)"
  using assms find_body [of "b_thoughts b'" "b_thoughts b" i] find_sep_body [of "b_separators b'" "b_separators b" j]
  by (simp_all add: same_bodies_def thought_of_def separator_of_def)

section \<open>The structural invariant\<close>

definition board_inv :: "session_board \<Rightarrow> bool" where
  "board_inv b \<longleftrightarrow> represents (entries b) (order b)
     \<and> distinct (map t_id (b_thoughts b)) \<and> distinct (map sep_id (b_separators b))
     \<and> (\<forall>t \<in> set (b_thoughts b). t_session_id t = ses_id (b_session b))
     \<and> (\<forall>s \<in> set (b_separators b). sep_session_id s = ses_id (b_session b))"

definition item_count :: "session_board \<Rightarrow> nat" where
  "item_count b = length (b_thoughts b) + length (b_separators b)"

text \<open>What the identity-preserving part of the invariant needs: the same identities and owners.\<close>

definition idents :: "session_board \<Rightarrow> (thought_id \<times> session_id) list \<times> (separator_id \<times> session_id) list \<times> session_id" where
  "idents b = (map (\<lambda>t. (t_id t, t_session_id t)) (b_thoughts b),
     map (\<lambda>s. (sep_id s, sep_session_id s)) (b_separators b), ses_id (b_session b))"

definition idents_ok :: "(thought_id \<times> session_id) list \<times> (separator_id \<times> session_id) list \<times> session_id \<Rightarrow> bool" where
  "idents_ok = (\<lambda>(ts, ss, s). distinct (map fst ts) \<and> distinct (map fst ss)
     \<and> (\<forall>(_, owner) \<in> set ts. owner = s) \<and> (\<forall>(_, owner) \<in> set ss. owner = s))"

lemma board_inv_iff: "board_inv b \<longleftrightarrow> represents (entries b) (order b) \<and> idents_ok (idents b)"
  by (auto simp: board_inv_def idents_ok_def idents_def comp_def)

lemma board_invI: "represents (entries b) xs \<Longrightarrow> idents_ok (idents b) \<Longrightarrow> board_inv b \<and> order b = xs"
  using represents_order by (auto simp: board_inv_iff)

lemma item_count_idents: "item_count b = length (fst (idents b)) + length (fst (snd (idents b)))"
  by (simp add: item_count_def idents_def)

lemma same_bodies_idents: "same_bodies b b' \<Longrightarrow> idents b' = idents b"
  using map_body_eq [of "b_thoughts b'" "b_thoughts b" "\<lambda>t. (t_id t, t_session_id t)"]
    map_sep_body_eq [of "b_separators b'" "b_separators b" "\<lambda>t. (sep_id t, sep_session_id t)"]
  by (simp add: same_bodies_def idents_def t_body_def sep_body_def)

lemma idents_mut [simp]:
  "(\<And>t. t_id (f t) = t_id t \<and> t_session_id (f t) = t_session_id t) \<Longrightarrow> idents (thought_mut b i f) = idents b"
  "(\<And>t. sep_id (g t) = sep_id t \<and> sep_session_id (g t) = sep_session_id t) \<Longrightarrow> idents (separator_mut b j g) = idents b"
  by (auto simp: idents_def thought_mut_def separator_mut_def intro!: map_update_first_same)

lemma touch_session_simps [simp]:
  "entries (touch_session at b) = entries b" "order (touch_session at b) = order b"
  "idents (touch_session at b) = idents b" "live_items (touch_session at b) = live_items b"
  "b_thoughts (touch_session at b) = b_thoughts b" "b_separators (touch_session at b) = b_separators b"
  "thought_of (touch_session at b) i = thought_of b i"
  by (simp_all add: touch_session_def entries_def order_def idents_def live_items_def thought_of_def)

lemma length_order: "length (order b) = length (filter t_is_live (b_thoughts b)) + length (filter sep_is_live (b_separators b))"
  by (simp add: order_def live_items_def)

lemma length_order_le: "length (order b) \<le> item_count b"
  unfolding length_order item_count_def by (intro add_mono length_filter_le)

lemma order_dormant:
  "thought_of b i = Some t \<Longrightarrow> \<not> t_is_live t \<Longrightarrow> length (order b) < item_count b"
  "separator_of b j = Some s \<Longrightarrow> \<not> sep_is_live s \<Longrightarrow> length (order b) < item_count b"
proof -
  assume "thought_of b i = Some t" "\<not> t_is_live t"
  then have "length (filter t_is_live (b_thoughts b)) < length (b_thoughts b)"
    by (intro length_filter_less [of t]) (auto simp: thought_of_def dest!: find_Some_iff_mem)
  then show "length (order b) < item_count b"
    unfolding length_order item_count_def by (intro add_less_le_mono length_filter_le)
next
  assume "separator_of b j = Some s" "\<not> sep_is_live s"
  then have "length (filter sep_is_live (b_separators b)) < length (b_separators b)"
    by (intro length_filter_less [of s]) (auto simp: separator_of_def dest!: find_Some_iff_mem)
  then show "length (order b) < item_count b"
    unfolding length_order item_count_def by (intro add_le_less_mono length_filter_le)
qed


section \<open>Single-item steps\<close>

lemma entries_thought_mut:
  assumes "thought_of b i = Some t" and "t_id (f t) = i"
  shows "entries (thought_mut b i f) + (if t_is_live t then {#(ThoughtItem i, unat (t_position t))#} else {#})
    = entries b + (if t_is_live (f t) then {#(ThoughtItem i, unat (t_position (f t)))#} else {#})"
  using arg_cong [OF tp.table_update [of i "b_thoughts b" t f], of "image_mset (apfst ThoughtItem)"] assms
  by (auto simp: entries_def thought_mut_def thought_of_def split: if_splits)

lemma entries_separator_mut:
  assumes "separator_of b i = Some s" and "sep_id (f s) = i"
  shows "entries (separator_mut b i f) + (if sep_is_live s then {#(SeparatorItem i, unat (sep_position s))#} else {#})
    = entries b + (if sep_is_live (f s) then {#(SeparatorItem i, unat (sep_position (f s)))#} else {#})"
  using arg_cong [OF sp.table_update [of i "b_separators b" s f], of "image_mset (apfst SeparatorItem)"] assms
  by (auto simp: entries_def separator_mut_def separator_of_def split: if_splits)

lemma thought_of_id: "thought_of b i = Some t \<Longrightarrow> t_id t = i"
  by (auto simp: thought_of_def dest!: find_Some_iff_mem)

lemma separator_of_id: "separator_of b i = Some s \<Longrightarrow> sep_id s = i"
  by (auto simp: separator_of_def dest!: find_Some_iff_mem)

lemma thought_of_shifted:
  assumes "same_bodies b b'" and "thought_of b i = Some t"
  shows "\<exists>t'. thought_of b' i = Some t' \<and> t_body t' = t_body t"
  using same_bodies_thought_of(1) [OF assms(1), of i] assms(2) by auto

lemma separator_of_shifted:
  assumes "same_bodies b b'" and "separator_of b i = Some t"
  shows "\<exists>t'. separator_of b' i = Some t' \<and> sep_body t' = sep_body t"
  using same_bodies_thought_of(2) [OF assms(1), of i] assms(2) by auto

lemma live_body: "t_body t' = t_body t \<Longrightarrow> t_is_live t' \<longleftrightarrow> t_is_live t"
  "sep_body s' = sep_body s \<Longrightarrow> sep_is_live s' \<longleftrightarrow> sep_is_live s"
  by (simp_all add: t_body_eq_iff sep_body_eq_iff t_is_live_def sep_is_live_def)

lemmas inv_rep = board_inv_iff [THEN iffD1, THEN conjunct1]
lemmas inv_ids = board_inv_iff [THEN iffD1, THEN conjunct2]

text \<open>Inserting an item at position \<open>k\<close>, whatever the way its entry came about.\<close>

lemma insert_step:
  assumes "board_inv b" and "length (order b) < 2 ^ 32" and "k \<le> length (order b)"
    and "entries b' = add_mset (x, k) (entries (shift_for_insert b k))" and "idents_ok (idents b')"
  shows "board_inv b' \<and> order b' = insert_at k x (order b)"
  using represents_insert [OF inv_rep [OF assms(1)] assms(3), of x] assms(4,5)
    entries_shift_for_insert [OF inv_rep [OF assms(1)] assms(2)]
  by (intro board_invI) simp_all

lemma restore_thought:
  assumes "board_inv b" and "thought_of b i = Some t" and "\<not> t_is_live t" and "item_count b \<le> 2 ^ 32"
    and "unat p \<le> length (order b)"
    and "\<And>x. t_id (f x) = t_id x \<and> t_session_id (f x) = t_session_id x \<and> t_is_live (f x) \<and> t_position (f x) = p"
  shows "board_inv (thought_mut (shift_for_insert b (unat p)) i f)
    \<and> order (thought_mut (shift_for_insert b (unat p)) i f) = insert_at (unat p) (ThoughtItem i) (order b)"
proof -
  let ?s = "shift_for_insert b (unat p)"
  obtain t' where t': "thought_of ?s i = Some t'" "t_body t' = t_body t"
    using thought_of_shifted [OF same_bodies_shift_for_insert assms(2)] by blast
  have "entries (thought_mut ?s i f) = add_mset (ThoughtItem i, unat p) (entries ?s)"
    using entries_thought_mut [OF t'(1), of f] thought_of_id [OF t'(1)] live_body(1) [OF t'(2)] assms(3,6) by simp
  moreover have "idents (thought_mut ?s i f) = idents b"
    using assms(6) same_bodies_idents [OF same_bodies_shift_for_insert] by simp
  ultimately show ?thesis
    using order_dormant(1) [OF assms(2,3)] assms(1,4,5) inv_ids [OF assms(1)] by (intro insert_step) simp_all
qed

lemma restore_separator:
  assumes "board_inv b" and "separator_of b i = Some t" and "\<not> sep_is_live t" and "item_count b \<le> 2 ^ 32"
    and "unat p \<le> length (order b)"
    and "\<And>x. sep_id (f x) = sep_id x \<and> sep_session_id (f x) = sep_session_id x \<and> sep_is_live (f x) \<and> sep_position (f x) = p"
  shows "board_inv (separator_mut (shift_for_insert b (unat p)) i f)
    \<and> order (separator_mut (shift_for_insert b (unat p)) i f) = insert_at (unat p) (SeparatorItem i) (order b)"
proof -
  let ?s = "shift_for_insert b (unat p)"
  obtain t' where t': "separator_of ?s i = Some t'" "sep_body t' = sep_body t"
    using separator_of_shifted [OF same_bodies_shift_for_insert assms(2)] by blast
  have "entries (separator_mut ?s i f) = add_mset (SeparatorItem i, unat p) (entries ?s)"
    using entries_separator_mut [OF t'(1), of f] separator_of_id [OF t'(1)] live_body(2) [OF t'(2)] assms(3,6) by simp
  moreover have "idents (separator_mut ?s i f) = idents b"
    using assms(6) same_bodies_idents [OF same_bodies_shift_for_insert] by simp
  ultimately show ?thesis
    using order_dormant(2) [OF assms(2,3)] assms(1,4,5) inv_ids [OF assms(1)] by (intro insert_step) simp_all
qed

lemma push_thought:
  assumes "board_inv b" and "thought_of b (t_id t) = None" and "item_count b < 2 ^ 32"
    and "unat (t_position t) \<le> length (order b)" and "t_is_live t" and "t_session_id t = ses_id (b_session b)"
  defines "b' \<equiv> shift_for_insert b (unat (t_position t))"
  shows "board_inv (b'\<lparr>b_thoughts := b_thoughts b' @ [t]\<rparr>)
    \<and> order (b'\<lparr>b_thoughts := b_thoughts b' @ [t]\<rparr>) = insert_at (unat (t_position t)) (ThoughtItem (t_id t)) (order b)"
proof (rule insert_step [OF assms(1)])
  show "length (order b) < 2 ^ 32" using length_order_le [of b] assms(3) by simp
  show "unat (t_position t) \<le> length (order b)" by (rule assms(4))
  show "entries (b'\<lparr>b_thoughts := b_thoughts b' @ [t]\<rparr>)
      = add_mset (ThoughtItem (t_id t), unat (t_position t)) (entries (shift_for_insert b (unat (t_position t))))"
    using assms(5) by (simp add: entries_def b'_def tp.table_append tp.table_Cons tp.table_Nil)
  have "idents b' = idents b" using same_bodies_idents [OF same_bodies_shift_for_insert] by (simp add: b'_def)
  moreover have "t_id t \<notin> t_id ` set (b_thoughts b)"
    using assms(2) by (auto simp: thought_of_def find_None_iff)
  ultimately show "idents_ok (idents (b'\<lparr>b_thoughts := b_thoughts b' @ [t]\<rparr>))"
    using inv_ids [OF assms(1)] assms(6) by (auto simp: idents_ok_def idents_def comp_def)
qed

lemma push_separator:
  assumes "board_inv b" and "separator_of b (sep_id t) = None" and "item_count b < 2 ^ 32"
    and "unat (sep_position t) \<le> length (order b)" and "sep_is_live t" and "sep_session_id t = ses_id (b_session b)"
  defines "b' \<equiv> shift_for_insert b (unat (sep_position t))"
  shows "board_inv (b'\<lparr>b_separators := b_separators b' @ [t]\<rparr>)
    \<and> order (b'\<lparr>b_separators := b_separators b' @ [t]\<rparr>) = insert_at (unat (sep_position t)) (SeparatorItem (sep_id t)) (order b)"
proof (rule insert_step [OF assms(1)])
  show "length (order b) < 2 ^ 32" using length_order_le [of b] assms(3) by simp
  show "unat (sep_position t) \<le> length (order b)" by (rule assms(4))
  show "entries (b'\<lparr>b_separators := b_separators b' @ [t]\<rparr>)
      = add_mset (SeparatorItem (sep_id t), unat (sep_position t)) (entries (shift_for_insert b (unat (sep_position t))))"
    using assms(5) by (simp add: entries_def b'_def sp.table_append sp.table_Cons sp.table_Nil)
  have "idents b' = idents b" using same_bodies_idents [OF same_bodies_shift_for_insert] by (simp add: b'_def)
  moreover have "sep_id t \<notin> sep_id ` set (b_separators b)"
    using assms(2) by (auto simp: separator_of_def find_None_iff)
  ultimately show "idents_ok (idents (b'\<lparr>b_separators := b_separators b' @ [t]\<rparr>))"
    using inv_ids [OF assms(1)] assms(6) by (auto simp: idents_ok_def idents_def comp_def)
qed


lemma entries_unique:
  assumes "idents_ok (idents b)"
  shows "(ThoughtItem i, p) \<in># entries b \<longleftrightarrow> (\<exists>t. thought_of b i = Some t \<and> t_is_live t \<and> p = unat (t_position t))"
    and "(SeparatorItem j, p) \<in># entries b \<longleftrightarrow> (\<exists>s. separator_of b j = Some s \<and> sep_is_live s \<and> p = unat (sep_position s))"
proof -
  have "distinct (map t_id (b_thoughts b))" "distinct (map sep_id (b_separators b))"
    using assms by (simp_all add: idents_ok_def idents_def comp_def)
  then show "(ThoughtItem i, p) \<in># entries b \<longleftrightarrow> (\<exists>t. thought_of b i = Some t \<and> t_is_live t \<and> p = unat (t_position t))"
    "(SeparatorItem j, p) \<in># entries b \<longleftrightarrow> (\<exists>s. separator_of b j = Some s \<and> sep_is_live s \<and> p = unat (sep_position s))"
    by (simp_all add: entries_thought entries_separator tp.table_member_unique sp.table_member_unique
        thought_of_def separator_of_def)
qed

lemma order_distinct:
  assumes "board_inv b"
  shows "distinct (order b)"
proof -
  have "order b ! p = order b ! q \<Longrightarrow> p = q" if "p < length (order b)" "q < length (order b)" for p q
  proof -
    assume eq: "order b ! p = order b ! q"
    have "(order b ! p, p) \<in># entries b" "(order b ! q, q) \<in># entries b"
      using represents_nth [OF inv_rep [OF assms]] that by blast+
    then show "p = q" using entries_unique [OF inv_ids [OF assms]] eq by (cases "order b ! q") auto
  qed
  then show ?thesis by (auto simp: distinct_conv_nth)
qed

lemma order_mem:
  assumes "board_inv b"
  shows "ThoughtItem i \<in> set (order b) \<longleftrightarrow> (\<exists>t. thought_of b i = Some t \<and> t_is_live t)"
    and "SeparatorItem j \<in> set (order b) \<longleftrightarrow> (\<exists>s. separator_of b j = Some s \<and> sep_is_live s)"
proof -
  have "x \<in> set (order b) \<longleftrightarrow> (\<exists>p. (x, p) \<in># entries b)" for x
    using represents_nth [OF inv_rep [OF assms], of x] by (auto simp: in_set_conv_nth)
  then show "ThoughtItem i \<in> set (order b) \<longleftrightarrow> (\<exists>t. thought_of b i = Some t \<and> t_is_live t)"
    "SeparatorItem j \<in> set (order b) \<longleftrightarrow> (\<exists>s. separator_of b j = Some s \<and> sep_is_live s)"
    using entries_unique [OF inv_ids [OF assms]] by auto
qed

lemma order_nth:
  assumes "board_inv b"
  shows "thought_of b i = Some t \<Longrightarrow> t_is_live t \<Longrightarrow>
      unat (t_position t) < length (order b) \<and> order b ! unat (t_position t) = ThoughtItem i"
    and "separator_of b j = Some s \<Longrightarrow> sep_is_live s \<Longrightarrow>
      unat (sep_position s) < length (order b) \<and> order b ! unat (sep_position s) = SeparatorItem j"
  using entries_unique [OF inv_ids [OF assms]] represents_nth [OF inv_rep [OF assms]] by blast+

lemma remove_at_filter:
  assumes "distinct xs" and "k < length xs"
  shows "remove_at k xs = filter (\<lambda>x. x \<noteq> xs ! k) xs"
proof -
  have xs: "xs = take k xs @ xs ! k # drop (Suc k) xs" using assms(2) by (rule id_take_nth_drop)
  then have "distinct (take k xs @ xs ! k # drop (Suc k) xs)" using assms(1) by simp
  then have "filter (\<lambda>x. x \<noteq> xs ! k) (take k xs) = take k xs" "filter (\<lambda>x. x \<noteq> xs ! k) (drop (Suc k) xs) = drop (Suc k) xs"
    by (auto simp: filter_id_conv)
  then have "filter (\<lambda>x. x \<noteq> xs ! k) (take k xs @ xs ! k # drop (Suc k) xs) = remove_at k xs"
    by (simp add: remove_at_def)
  then show ?thesis using xs by simp
qed

text \<open>Taking an item out, moving it, and rewriting a part of it that is not its place.\<close>

lemma remove_step:
  assumes "board_inv b" and "entries b = add_mset (x, k) (entries b1)" and "idents b1 = idents b"
  shows "board_inv (shift_after_remove b1 k) \<and> order (shift_after_remove b1 k) = filter (\<lambda>y. y \<noteq> x) (order b)"
proof -
  have rep: "represents (add_mset (x, k) (entries b1)) (order b)" using inv_rep [OF assms(1)] assms(2) by simp
  have "remove_at k (order b) = filter (\<lambda>y. y \<noteq> x) (order b)"
    using remove_at_filter [OF order_distinct [OF assms(1)]] represents_take_out(1,2) [OF rep] by simp
  moreover have "board_inv (shift_after_remove b1 k) \<and> order (shift_after_remove b1 k) = remove_at k (order b)"
    using represents_remove [OF rep] inv_ids [OF assms(1)] assms(3)
      same_bodies_idents [OF same_bodies_shift_after_remove [of b1 k]]
    by (intro board_invI) (simp_all add: entries_shift_after_remove)
  ultimately show ?thesis by simp
qed

lemma remove_thought:
  assumes "board_inv b" and "thought_of b i = Some t" and "t_is_live t"
    and "\<And>x. t_id (f x) = t_id x \<and> t_session_id (f x) = t_session_id x \<and> \<not> t_is_live (f x)"
  shows "board_inv (shift_after_remove (thought_mut b i f) (unat (t_position t)))
    \<and> order (shift_after_remove (thought_mut b i f) (unat (t_position t))) = filter (\<lambda>y. y \<noteq> ThoughtItem i) (order b)"
  using entries_thought_mut [OF assms(2), of f] thought_of_id [OF assms(2)] assms
  by (intro remove_step) simp_all

lemma remove_separator:
  assumes "board_inv b" and "separator_of b i = Some t" and "sep_is_live t"
    and "\<And>x. sep_id (f x) = sep_id x \<and> sep_session_id (f x) = sep_session_id x \<and> \<not> sep_is_live (f x)"
  shows "board_inv (shift_after_remove (separator_mut b i f) (unat (sep_position t)))
    \<and> order (shift_after_remove (separator_mut b i f) (unat (sep_position t))) = filter (\<lambda>y. y \<noteq> SeparatorItem i) (order b)"
  using entries_separator_mut [OF assms(2), of f] separator_of_id [OF assms(2)] assms
  by (intro remove_step) simp_all

lemma move_step:
  assumes "board_inv b" and "(x, from) \<in># entries b" and "to < length (order b)"
    and "move_shift b from to = Inr b1"
  shows "same_bodies b b1 \<and> (x, from) \<in># entries b1
    \<and> (\<forall>b'. entries b' + {#(x, from)#} = entries b1 + {#(x, to)#} \<longrightarrow> idents b' = idents b \<longrightarrow>
         board_inv b' \<and> order b' = list_move from to (order b))"
proof -
  have lt: "from < length (order b)" using represents_nth [OF inv_rep [OF assms(1)]] assms(2) by blast
  have bound: "length (order b) \<le> 2 ^ 32" using represents_bound(1) [OF inv_rep [OF assms(1)]] .
  obtain T where T: "entries b = add_mset (x, from) T" using assms(2) by (meson multi_member_split)
  have "shift_between from to from = from" by (simp add: shift_between_def)
  then have e1: "entries b1 = add_mset (x, from) (image_mset (apsnd (shift_between from to)) T)"
    using entries_move_shift [of "from" to b] lt bound assms(3,4) T by auto
  have rep: "represents (add_mset (x, to) (image_mset (apsnd (shift_between from to)) T)) (list_move from to (order b))"
    using represents_move [of x "from" T "order b" to] inv_rep [OF assms(1)] T assms(3) by simp
  have "same_bodies b b1" using same_bodies_move_shift [OF _ _ assms(4)] lt bound assms(3) by simp
  moreover have "board_inv b' \<and> order b' = list_move from to (order b)"
    if "entries b' + {#(x, from)#} = entries b1 + {#(x, to)#}" "idents b' = idents b" for b'
    using that e1 rep inv_ids [OF assms(1)] by (intro board_invI) simp_all
  ultimately show ?thesis using e1 by simp
qed

lemma move_thought_step:
  assumes "board_inv b" and "thought_of b i = Some t" and "t_is_live t" and "unat to < length (order b)"
    and "move_shift b (unat (t_position t)) (unat to) = Inr b1"
    and "\<And>x. t_id (f x) = t_id x \<and> t_session_id (f x) = t_session_id x
       \<and> (t_is_live (f x) \<longleftrightarrow> t_is_live x) \<and> t_position (f x) = to"
  shows "board_inv (thought_mut b1 i f)
    \<and> order (thought_mut b1 i f) = list_move (unat (t_position t)) (unat to) (order b)"
proof -
  have "(ThoughtItem i, unat (t_position t)) \<in># entries b"
    using entries_unique(1) [OF inv_ids [OF assms(1)]] assms(2,3) by blast
  note step = move_step [OF assms(1) this assms(4,5)]
  obtain t' where t': "thought_of b1 i = Some t'" "t_body t' = t_body t"
    using thought_of_shifted [OF step [THEN conjunct1] assms(2)] by blast
  have ids: "idents b1 = idents b" by (rule same_bodies_idents [OF step [THEN conjunct1]])
  then have pos: "unat (t_position t') = unat (t_position t)"
    using entries_unique(1) [of b1 i "unat (t_position t)"] inv_ids [OF assms(1)] step t' by auto
  have "entries (thought_mut b1 i f) + {#(ThoughtItem i, unat (t_position t))#} = entries b1 + {#(ThoughtItem i, unat to)#}"
    using entries_thought_mut [OF t'(1), of f] thought_of_id [OF t'(1)] live_body(1) [OF t'(2)] assms(3,6) pos by simp
  then show ?thesis using step ids assms(6) by simp
qed

lemma move_separator_step:
  assumes "board_inv b" and "separator_of b i = Some t" and "sep_is_live t" and "unat to < length (order b)"
    and "move_shift b (unat (sep_position t)) (unat to) = Inr b1"
    and "\<And>x. sep_id (f x) = sep_id x \<and> sep_session_id (f x) = sep_session_id x
       \<and> (sep_is_live (f x) \<longleftrightarrow> sep_is_live x) \<and> sep_position (f x) = to"
  shows "board_inv (separator_mut b1 i f)
    \<and> order (separator_mut b1 i f) = list_move (unat (sep_position t)) (unat to) (order b)"
proof -
  have "(SeparatorItem i, unat (sep_position t)) \<in># entries b"
    using entries_unique(2) [OF inv_ids [OF assms(1)]] assms(2,3) by blast
  note step = move_step [OF assms(1) this assms(4,5)]
  obtain t' where t': "separator_of b1 i = Some t'" "sep_body t' = sep_body t"
    using separator_of_shifted [OF step [THEN conjunct1] assms(2)] by blast
  have ids: "idents b1 = idents b" by (rule same_bodies_idents [OF step [THEN conjunct1]])
  then have pos: "unat (sep_position t') = unat (sep_position t)"
    using entries_unique(2) [of b1 i "unat (sep_position t)"] inv_ids [OF assms(1)] step t' by auto
  have "entries (separator_mut b1 i f) + {#(SeparatorItem i, unat (sep_position t))#}
      = entries b1 + {#(SeparatorItem i, unat to)#}"
    using entries_separator_mut [OF t'(1), of f] separator_of_id [OF t'(1)] live_body(2) [OF t'(2)] assms(3,6) pos
    by simp
  then show ?thesis using step ids assms(6) by simp
qed

lemma keep_thought:
  assumes "board_inv b" and "thought_of b i = Some t"
    and "\<And>x. t_id (f x) = t_id x \<and> t_session_id (f x) = t_session_id x
       \<and> (t_is_live (f x) \<longleftrightarrow> t_is_live x) \<and> t_position (f x) = t_position x"
  shows "board_inv (thought_mut b i f) \<and> order (thought_mut b i f) = order b"
  using entries_thought_mut [OF assms(2), of f] thought_of_id [OF assms(2)] assms(3)
    inv_rep [OF assms(1)] inv_ids [OF assms(1)]
  by (intro board_invI) (simp_all split: if_splits)

end
