(* ===== verification/Board_Refinement.thy ===== *)
theory Board_Refinement
  imports Board_Order
begin

text \<open>
  Refinement of the board mutators by operations on an ordered list of identities, for every mutation
  and for batches of them; what the aggregate validation accepts; what a mutation leaves alone; and
  that the inverse mutations of the history undo what the forward ones did.
\<close>

section \<open>The abstract board: an ordered list of identities\<close>

fun spec_order :: "board_mutation \<Rightarrow> board_item_id list \<Rightarrow> board_item_id list" where
  "spec_order (Batch ms) xs = foldl (\<lambda>xs m. spec_order m xs) xs ms"
| "spec_order (AddThought t) xs = insert_at (unat (t_position t)) (ThoughtItem (t_id t)) xs"
| "spec_order (AddThoughtFromCompose t _ _) xs = insert_at (unat (t_position t)) (ThoughtItem (t_id t)) xs"
| "spec_order (AddSeparator s) xs = insert_at (unat (sep_position s)) (SeparatorItem (sep_id s)) xs"
| "spec_order (SetDeletion i (Some _) _) xs = filter (\<lambda>x. x \<noteq> ThoughtItem i) xs"
| "spec_order (SetDeletion i None p) xs =
     (if ThoughtItem i \<in> set xs then xs else insert_at (unat p) (ThoughtItem i) xs)"
| "spec_order (SetDeletionExact i _ _ _ _ (Some _) _) xs = filter (\<lambda>x. x \<noteq> ThoughtItem i) xs"
| "spec_order (SetDeletionExact i _ _ _ _ None p) xs =
     (if ThoughtItem i \<in> set xs then xs else insert_at (unat p) (ThoughtItem i) xs)"
| "spec_order (SetSeparatorDeletion i (Some _) _) xs = filter (\<lambda>x. x \<noteq> SeparatorItem i) xs"
| "spec_order (SetSeparatorDeletion i None p) xs =
     (if SeparatorItem i \<in> set xs then xs else insert_at (unat p) (SeparatorItem i) xs)"
| "spec_order (MoveThought _ from to) xs = list_move (unat from) (unat to) xs"
| "spec_order (MoveSeparator _ from to) xs = list_move (unat from) (unat to) xs"
| "spec_order (ReplaceContent _ _ _ _ _) xs = xs"
| "spec_order (SetPresentation _ _) xs = xs"
| "spec_order (SetName _ _ _) xs = xs"
| "spec_order (LegacySetCollapsed _ _) xs = xs"

fun additions :: "board_mutation \<Rightarrow> nat" where
  "additions (Batch ms) = sum_list (map additions ms)"
| "additions (AddThought _) = 1"
| "additions (AddThoughtFromCompose _ _ _) = 1"
| "additions (AddSeparator _) = 1"
| "additions _ = 0"

definition refines :: "board_mutation \<Rightarrow> session_board \<Rightarrow> session_board \<Rightarrow> bool" where
  "refines m b b' \<longleftrightarrow> board_inv b' \<and> order b' = spec_order m (order b) \<and> item_count b' \<le> item_count b + additions m
     \<and> ses_id (b_session b') = ses_id (b_session b)"

lemma to_u32_unat [simp]: "to_u32 (unat p) = Inr p"
proof -
  have "unat p \<le> 4294967295" using unat_u32_less [of p] by linarith
  then show ?thesis by (simp add: to_u32_def)
qed

lemma inv_live_len: "length (live_items b) = length (order b)"
  by (simp add: order_def)

lemma item_count_mut [simp]:
  "item_count (thought_mut b i f) = item_count b" "item_count (separator_mut b j g) = item_count b"
  "item_count (shift_for_insert b k) = item_count b" "item_count (shift_after_remove b k) = item_count b"
  "item_count (touch_session at b) = item_count b"
  by (simp_all add: item_count_def thought_mut_def separator_mut_def shift_for_insert_def shift_after_remove_def
      touch_session_def)

lemma session_mut [simp]:
  "b_session (thought_mut b i f) = b_session b" "b_session (separator_mut b j g) = b_session b"
  "b_session (shift_for_insert b k) = b_session b" "b_session (shift_after_remove b k) = b_session b"
  "ses_id (b_session (touch_session at b)) = ses_id (b_session b)"
  by (simp_all add: thought_mut_def separator_mut_def shift_for_insert_def shift_after_remove_def touch_session_def)

lemma refines_touch [simp]: "refines m b (touch_session at b') \<longleftrightarrow> refines m b b'"
  by (simp add: refines_def board_inv_iff)

lemma add_or_restore_refines:
  assumes "add_or_restore b t at = Inr b'" and "board_inv b" and "item_count b \<le> 4294967295"
  shows "refines (AddThought t) b b'"
proof (cases "thought_of b (t_id t)")
  case None
  let ?t = "t\<lparr>t_position := t_position t, t_deleted_at := None, t_updated_at := at\<rparr>"
  let ?s = "shift_for_insert b (unat (t_position t))"
  have b': "b' = ?s\<lparr>b_thoughts := b_thoughts ?s @ [?t]\<rparr>" and "t_session_id t = ses_id (b_session b)"
    and "unat (t_position t) \<le> length (order b)"
    using assms(1) None by (simp_all add: add_or_restore_def Let_def inv_live_len split: if_splits)
  then have "board_inv b' \<and> order b' = insert_at (unat (t_position t)) (ThoughtItem (t_id t)) (order b)"
    using push_thought [of b ?t] None assms(2,3) by (simp add: t_is_live_def)
  then show ?thesis using b' by (simp add: refines_def item_count_def shift_for_insert_def)
next
  case (Some e)
  then show ?thesis
    using assms restore_thought [OF assms(2) Some, of "t_position t"]
    by (auto simp: add_or_restore_def Let_def inv_live_len refines_def t_is_live_def split: if_splits)
qed

lemma add_or_restore_separator_refines:
  assumes "add_or_restore_separator b t at = Inr b'" and "board_inv b" and "item_count b \<le> 4294967295"
  shows "refines (AddSeparator t) b b'"
proof (cases "separator_of b (sep_id t)")
  case None
  let ?t = "t\<lparr>sep_position := sep_position t, sep_deleted_at := None, sep_updated_at := at\<rparr>"
  let ?s = "shift_for_insert b (unat (sep_position t))"
  have b': "b' = ?s\<lparr>b_separators := b_separators ?s @ [?t]\<rparr>" and "sep_session_id t = ses_id (b_session b)"
    and "unat (sep_position t) \<le> length (order b)"
    using assms(1) None by (simp_all add: add_or_restore_separator_def Let_def inv_live_len split: if_splits)
  then have "board_inv b' \<and> order b' = insert_at (unat (sep_position t)) (SeparatorItem (sep_id t)) (order b)"
    using push_separator [of b ?t] None assms(2,3) by (simp add: sep_is_live_def)
  then show ?thesis using b' by (simp add: refines_def item_count_def shift_for_insert_def)
next
  case (Some e)
  then show ?thesis
    using assms restore_separator [OF assms(2) Some, of "sep_position t"]
    by (auto simp: add_or_restore_separator_def Let_def inv_live_len refines_def sep_is_live_def split: if_splits)
qed

lemma set_deletion_refines:
  assumes "set_deletion b i d p at = Inr b'" and "board_inv b" and "item_count b \<le> 4294967296"
  shows "refines (SetDeletion i d p) b b'"
proof -
  obtain t where t: "thought_of b i = Some t" using assms(1) by (auto simp: set_deletion_def)
  have mem: "ThoughtItem i \<in> set (order b) \<longleftrightarrow> t_deleted_at t = None"
    using order_mem(1) [OF assms(2)] t by (simp add: t_is_live_def)
  show ?thesis
  proof (cases "t_deleted_at t"; cases d)
    fix e assume "t_deleted_at t = None" "d = Some e"
    then show ?thesis using assms(1) t remove_thought [OF assms(2) t]
      by (auto simp: set_deletion_def refines_def t_is_live_def)
  next
    fix e assume "t_deleted_at t = Some e" "d = None"
    then show ?thesis using assms t mem restore_thought [OF assms(2) t, of p]
      by (auto simp: set_deletion_def refines_def t_is_live_def inv_live_len Let_def split: if_splits)
  next
    fix e e' assume "t_deleted_at t = Some e" "d = Some e'"
    then show ?thesis using assms t mem
      by (auto simp: set_deletion_def refines_def intro!: filter_True [symmetric])
  next
    assume "t_deleted_at t = None" "d = None"
    then show ?thesis using assms t mem by (auto simp: set_deletion_def refines_def)
  qed
qed

lemma set_separator_deletion_refines:
  assumes "set_separator_deletion b i d p at = Inr b'" and "board_inv b" and "item_count b \<le> 4294967296"
  shows "refines (SetSeparatorDeletion i d p) b b'"
proof -
  obtain t where t: "separator_of b i = Some t" using assms(1) by (auto simp: set_separator_deletion_def)
  have mem: "SeparatorItem i \<in> set (order b) \<longleftrightarrow> sep_deleted_at t = None"
    using order_mem(2) [OF assms(2)] t by (simp add: sep_is_live_def)
  show ?thesis
  proof (cases "sep_deleted_at t"; cases d)
    fix e assume "sep_deleted_at t = None" "d = Some e"
    then show ?thesis using assms(1) t remove_separator [OF assms(2) t]
      by (auto simp: set_separator_deletion_def refines_def sep_is_live_def)
  next
    fix e assume "sep_deleted_at t = Some e" "d = None"
    then show ?thesis using assms t mem restore_separator [OF assms(2) t, of p]
      by (auto simp: set_separator_deletion_def refines_def sep_is_live_def inv_live_len Let_def split: if_splits)
  next
    fix e e' assume "sep_deleted_at t = Some e" "d = Some e'"
    then show ?thesis using assms t mem
      by (auto simp: set_separator_deletion_def refines_def intro!: filter_True [symmetric])
  next
    assume "sep_deleted_at t = None" "d = None"
    then show ?thesis using assms t mem by (auto simp: set_separator_deletion_def refines_def)
  qed
qed


lemma move_thought_refines:
  assumes "move_thought b i from to at = Inr b'" and "board_inv b"
  shows "refines (MoveThought i from to) b b'"
proof -
  obtain t b1 where t: "thought_of b i = Some t" "t_is_live t" "unat (t_position t) = unat from"
    and lt: "unat to < length (order b)" "unat from < length (order b)"
    and b1: "move_shift b (unat (t_position t)) (unat to) = Inr b1"
    and b': "b' = thought_mut b1 i (\<lambda>x. x\<lparr>t_position := to, t_updated_at := at\<rparr>)"
    using assms(1) by (auto simp: move_thought_def Let_def inv_live_len split: if_splits)
  have "same_bodies b b1"
    using same_bodies_move_shift [OF _ _ b1] unat_u32_less by (simp add: t(3))
  then have "item_count b1 = item_count b" "b_session b1 = b_session b"
    using same_bodies_idents [of b b1] by (simp_all add: item_count_idents same_bodies_def)
  then show ?thesis using move_thought_step [OF assms(2) t(1,2) lt(1) b1] b' t(3)
    by (simp add: refines_def t_is_live_def)
qed

lemma move_separator_refines:
  assumes "move_separator b i from to at = Inr b'" and "board_inv b"
  shows "refines (MoveSeparator i from to) b b'"
proof -
  obtain t b1 where t: "separator_of b i = Some t" "sep_is_live t" "unat (sep_position t) = unat from"
    and lt: "unat to < length (order b)" "unat from < length (order b)"
    and b1: "move_shift b (unat (sep_position t)) (unat to) = Inr b1"
    and b': "b' = separator_mut b1 i (\<lambda>x. x\<lparr>sep_position := to, sep_updated_at := at\<rparr>)"
    using assms(1) by (auto simp: move_separator_def Let_def inv_live_len split: if_splits)
  have "same_bodies b b1"
    using same_bodies_move_shift [OF _ _ b1] unat_u32_less by (simp add: t(3))
  then have "item_count b1 = item_count b" "b_session b1 = b_session b"
    using same_bodies_idents [of b b1] by (simp_all add: item_count_idents same_bodies_def)
  then show ?thesis using move_separator_step [OF assms(2) t(1,2) lt(1) b1] b' t(3)
    by (simp add: refines_def sep_is_live_def)
qed

lemma edit_refines:
  assumes "board_inv b"
  shows "replace_content b i bc ba ac aa at = Inr b' \<Longrightarrow> refines (ReplaceContent i bc ba ac aa) b b'"
    and "set_name b i n n' at = Inr b' \<Longrightarrow> refines (SetName i n n') b b'"
    and "set_presentation b i p at = Inr b' \<Longrightarrow> refines (SetPresentation i p) b b'"
    and "set_legacy_collapsed b i c at = Inr b' \<Longrightarrow> refines (LegacySetCollapsed i c) b b'"
  using keep_thought [OF assms]
  by (auto simp: replace_content_def set_name_def set_presentation_def set_legacy_collapsed_def live_thought_of_def
      refines_def t_is_live_def split: if_splits)

lemma refines_trans:
  "refines m b b1 \<Longrightarrow> refines (Batch ms) b1 b2 \<Longrightarrow> refines (Batch (m # ms)) b b2"
  by (auto simp: refines_def)

lemma batch_refines:
  assumes "\<And>m b b'. m \<in> set ms \<Longrightarrow> step b m = Inr b' \<Longrightarrow> board_inv b \<Longrightarrow> item_count b + additions m \<le> 2 ^ 32 \<Longrightarrow>
      refines m b b'"
    and "try_fold step b ms = Inr b'" and "board_inv b" and "item_count b + additions (Batch ms) \<le> 2 ^ 32"
  shows "refines (Batch ms) b b'"
  using assms
proof (induction ms arbitrary: b)
  case Nil
  then show ?case by (simp add: refines_def)
next
  case (Cons m ms)
  from Cons.prems(2) obtain b1 where one: "step b m = Inr b1" and rest: "try_fold step b1 ms = Inr b'" by auto
  have first: "refines m b b1" using Cons.prems(1) [OF _ one Cons.prems(3)] Cons.prems(4) by simp
  have "refines (Batch ms) b1 b'"
    using Cons.prems(1) first Cons.prems(4) by (intro Cons.IH [OF _ rest]) (auto simp: refines_def)
  with first show ?case by (rule refines_trans)
qed

lemma refines_compose [simp]: "refines (AddThoughtFromCompose t c s) b b' \<longleftrightarrow> refines (AddThought t) b b'"
  by (simp add: refines_def)

lemma apply_in_place_refines:
  "apply_mutation_in_place at b m = Inr b' \<Longrightarrow> board_inv b \<Longrightarrow> item_count b + additions m \<le> 2 ^ 32 \<Longrightarrow>
    refines m b b'"
proof (induction m arbitrary: b b')
  case (Batch ms)
  then obtain b1 where fold: "try_fold (apply_mutation_in_place at) b ms = Inr b1" and b': "b' = touch_session at b1" by auto
  then show ?case
    using batch_refines [of ms "apply_mutation_in_place at" b b1] Batch by simp
next
  case (SetDeletionExact i ec ea ed ep d p)
  then have "refines (SetDeletion i d p) b b'"
    using set_deletion_refines by (auto simp: set_deletion_exact_def split: if_splits)
  then show ?case by (cases d) (simp_all add: refines_def)
qed (auto intro: add_or_restore_refines add_or_restore_separator_refines set_deletion_refines
    set_separator_deletion_refines move_thought_refines move_separator_refines edit_refines)


section \<open>What validation accepts\<close>

definition t_ok :: "thought \<Rightarrow> bool" where
  "t_ok t \<longleftrightarrow> anns_ok (t_content t) 0 (t_annotations t)
     \<and> (\<forall>n. t_name t = Some n \<longrightarrow> (\<exists>r. new_thought_name (name_str n) = Inr r))"

definition live_annotations :: "thought list \<Rightarrow> content_annotation list" where
  "live_annotations ts = concat (map t_annotations (filter t_is_live ts))"

abbreviation thought_step where
  "thought_step owner \<equiv> (\<lambda>(identities, attachment_ids) t.
        if t_id t \<in> identities then Inl (DuplicateThoughtId (t_id t))
        else if t_session_id t \<noteq> owner then Inl (WrongSession (t_id t) owner)
        else try_bind (validate_annotations (t_content t) (t_annotations t)) (\<lambda>_.
          try_bind (case t_name t of None \<Rightarrow> Inr () | Some n \<Rightarrow> try_bind (new_thought_name (name_str n)) (\<lambda>_. Inr ())) (\<lambda>_.
          try_bind (if t_is_live t then validate_unique (t_annotations t) attachment_ids else Inr attachment_ids)
            (\<lambda>attachment_ids. Inr (insert (t_id t) identities, attachment_ids)))))"

lemma validate_unique_append:
  "validate_unique (as @ bs) ids = try_bind (validate_unique as ids) (\<lambda>ids. validate_unique bs ids)"
  by (simp add: validate_unique_def try_fold_append)

lemma thought_step_Inr:
  "thought_step owner (ids, atts) t = Inr (ids', atts') \<longleftrightarrow>
    t_id t \<notin> ids \<and> t_session_id t = owner \<and> t_ok t \<and> ids' = insert (t_id t) ids
    \<and> validate_unique (if t_is_live t then t_annotations t else []) atts = Inr atts'"
  by (auto simp: t_ok_def validate_unique_def split: option.splits if_splits)

lemma thoughts_fold_Inr:
  "try_fold (thought_step owner) (ids, atts) ts = Inr (ids', atts') \<longleftrightarrow>
    distinct (map t_id ts) \<and> t_id ` set ts \<inter> ids = {} \<and> (\<forall>t \<in> set ts. t_session_id t = owner \<and> t_ok t)
    \<and> ids' = ids \<union> t_id ` set ts \<and> validate_unique (live_annotations ts) atts = Inr atts'"
proof (induction ts arbitrary: ids atts)
  case Nil
  then show ?case by (auto simp: live_annotations_def validate_unique_def)
next
  case (Cons t ts)
  have "validate_unique (live_annotations (t # ts)) atts
      = try_bind (validate_unique (if t_is_live t then t_annotations t else []) atts)
          (\<lambda>ids. validate_unique (live_annotations ts) ids)"
    by (simp add: live_annotations_def validate_unique_append [symmetric])
  moreover have "try_fold (thought_step owner) (ids, atts) (t # ts) = Inr (ids', atts') \<longleftrightarrow>
      (\<exists>ids1 atts1. thought_step owner (ids, atts) t = Inr (ids1, atts1)
         \<and> try_fold (thought_step owner) (ids1, atts1) ts = Inr (ids', atts'))"
    by auto
  ultimately show ?case unfolding thought_step_Inr Cons.IH by auto
qed

lemma validate_thoughts_iff:
  "validate_thoughts b = Inr () \<longleftrightarrow>
    distinct (map t_id (b_thoughts b)) \<and> (\<forall>t \<in> set (b_thoughts b). t_session_id t = ses_id (b_session b) \<and> t_ok t)
    \<and> (\<exists>atts. validate_unique (live_annotations (b_thoughts b)) {} = Inr atts)"
proof -
  have "validate_thoughts b = Inr () \<longleftrightarrow>
      (\<exists>ids atts. try_fold (thought_step (ses_id (b_session b))) ({}, {}) (b_thoughts b) = Inr (ids, atts))"
    by (simp add: validate_thoughts_def)
  then show ?thesis unfolding thoughts_fold_Inr by auto
qed

lemma validate_separators_iff:
  "validate_separators b = Inr () \<longleftrightarrow>
    distinct (map sep_id (b_separators b)) \<and> (\<forall>s \<in> set (b_separators b). sep_session_id s = ses_id (b_session b))"
proof -
  have loop: "(\<exists>r. try_fold (\<lambda>identities s.
        if sep_id s \<in> identities then Inl (DuplicateSeparatorId (sep_id s))
        else if sep_session_id s \<noteq> owner
        then Inl (WrongSeparatorSession (sep_id s) owner)
        else Inr (insert (sep_id s) identities)) ids ss = Inr r) \<longleftrightarrow>
      distinct (map sep_id ss) \<and> sep_id ` set ss \<inter> ids = {} \<and> (\<forall>s \<in> set ss. sep_session_id s = owner)" for owner ids ss
    by (induction ss arbitrary: ids) auto
  show ?thesis using loop [of "ses_id (b_session b)" "{}" "b_separators b"] by (simp add: validate_separators_def)
qed

lemma validate_iff:
  "validate b = Inr () \<longleftrightarrow> session_validate (b_session b) = Inr () \<and> board_inv b
    \<and> (\<forall>t \<in> set (b_thoughts b). t_ok t) \<and> (\<exists>atts. validate_unique (live_annotations (b_thoughts b)) {} = Inr atts)"
proof -
  have "validate b = Inr () \<longleftrightarrow> session_validate (b_session b) = Inr () \<and> validate_thoughts b = Inr ()
      \<and> validate_separators b = Inr () \<and> normalized b"
    by (auto simp: validate_def normalized_def)
  then show ?thesis by (auto simp: validate_thoughts_iff validate_separators_iff normalized_iff board_inv_def)
qed

text \<open>A board with the structural invariant fails validation only for its content.\<close>

lemma validate_unique_Inl: "validate_unique as ids = Inl e \<Longrightarrow> e = InvalidContentAnnotation"
  unfolding validate_unique_def
  by (induction as arbitrary: ids) (auto split: annotation_kind.splits if_splits option.splits)

lemma new_thought_name_Inl: "new_thought_name v = Inl e \<Longrightarrow> e = InvalidThoughtName"
  by (auto simp: new_thought_name_def split: if_splits)

lemma validate_inv_Inl:
  assumes "validate b = Inl e" and "board_inv b" and "session_validate (b_session b) = Inr ()"
  shows "e = InvalidContentAnnotation \<or> e = InvalidThoughtName"
proof -
  have ths: "try_fold (thought_step owner) (ids, atts) ts = Inl e \<Longrightarrow> distinct (map t_id ts) \<Longrightarrow> t_id ` set ts \<inter> ids = {} \<Longrightarrow>
      \<forall>t \<in> set ts. t_session_id t = owner \<Longrightarrow> e = InvalidContentAnnotation \<or> e = InvalidThoughtName" for owner ids atts ts
  proof (induction ts arbitrary: ids atts)
    case Nil
    then show ?case by simp
  next
    case (Cons t ts)
    show ?case
    proof (cases "thought_step owner (ids, atts) t")
      case (Inl d)
      then show ?thesis using Cons.prems
        by (auto simp: validate_annotations_Inl split: if_splits option.splits
            dest: validate_unique_Inl new_thought_name_Inl)
    next
      case (Inr r)
      obtain ids1 atts1 where r: "r = (ids1, atts1)" by force
      have "ids1 = insert (t_id t) ids" using Inr unfolding r thought_step_Inr by blast
      then have "t_id ` set ts \<inter> ids1 = {}" using Cons.prems(2,3) by auto
      moreover have "try_fold (thought_step owner) (ids1, atts1) ts = Inl e" using Inr r Cons.prems(1) by simp
      ultimately show ?thesis using Cons.IH Cons.prems(2,4) by simp
    qed
  qed
  have sep: "validate_separators b = Inr ()" and norm: "normalized b"
    using assms(2) by (auto simp: validate_separators_iff normalized_iff board_inv_def)
  have "validate_thoughts b = Inl e"
    using assms(1,3) sep norm by (auto simp: validate_def normalized_def)
  then show ?thesis using ths [of "ses_id (b_session b)" "{}" "{}" "b_thoughts b"] assms(2)
    by (simp add: validate_thoughts_def board_inv_def)
qed


section \<open>What a mutation leaves alone\<close>

lemma update_first_none: "\<forall>x \<in> set xs. \<not> P x \<Longrightarrow> update_first P f xs = xs"
  by (induction xs) auto

lemma thought_of_mut:
  assumes "\<And>t. t_id (f t) = t_id t"
  shows "thought_of (thought_mut b i f) j = (if j = i then map_option f (thought_of b i) else thought_of b j)"
proof (cases "j = i")
  case True
  show ?thesis
  proof (cases "thought_of b i")
    case None
    then have "\<forall>t \<in> set (b_thoughts b). t_id t \<noteq> i" by (auto simp: thought_of_def find_None_iff)
    then have "update_first (\<lambda>t. t_id t = i) f (b_thoughts b) = b_thoughts b" by (rule update_first_none)
    then show ?thesis using None True by (simp add: thought_of_def thought_mut_def)
  next
    case (Some t)
    then show ?thesis using True find_update_first_same [of "\<lambda>t. t_id t = i" "b_thoughts b" t f] assms thought_of_id [OF Some]
      by (simp add: thought_of_def thought_mut_def)
  qed
next
  case False
  then show ?thesis using find_update_first_other [of "\<lambda>t. t_id t = i" "\<lambda>t. t_id t = j" f "b_thoughts b"] assms
    by (simp add: thought_of_def thought_mut_def)
qed

lemma thought_of_separator_mut [simp]: "thought_of (separator_mut b i f) j = thought_of b j"
  by (simp add: thought_of_def separator_mut_def)

definition same_body :: "thought_id \<Rightarrow> session_board \<Rightarrow> session_board \<Rightarrow> bool" where
  "same_body i b b' \<longleftrightarrow> map_option t_body (thought_of b' i) = map_option t_body (thought_of b i)"

lemma same_body_bodies: "same_bodies b b' \<Longrightarrow> same_body i b b'"
  by (simp add: same_body_def same_bodies_thought_of(1))

lemma same_body_trans: "same_body i b b1 \<Longrightarrow> same_body i b1 b2 \<Longrightarrow> same_body i b b2"
  by (simp add: same_body_def)

lemma same_body_mut: "(\<And>t. t_id (f t) = t_id t) \<Longrightarrow> i \<noteq> j \<Longrightarrow> same_body i b (thought_mut b' j f) \<longleftrightarrow> same_body i b b'"
  by (simp add: same_body_def thought_of_mut)

lemma same_body_simps [simp]:
  "same_body i b (separator_mut b' j g) \<longleftrightarrow> same_body i b b'"
  "same_body i b (touch_session at b') \<longleftrightarrow> same_body i b b'"
  "same_body i b b"
  by (simp_all add: same_body_def)

lemma same_body_shift [simp]:
  "same_body i b (shift_for_insert b k)" "same_body i b (shift_after_remove b' k) \<longleftrightarrow> same_body i b b'"
  using same_body_bodies [OF same_bodies_shift_for_insert] same_body_bodies [OF same_bodies_shift_after_remove, of i b' k]
  by (auto simp: same_body_def)

lemma same_body_push: "t_id t \<noteq> i \<Longrightarrow> same_body i b (b'\<lparr>b_thoughts := b_thoughts b' @ [t]\<rparr>) \<longleftrightarrow> same_body i b b'"
  "same_body i b (b'\<lparr>b_separators := ss\<rparr>) \<longleftrightarrow> same_body i b b'"
proof -
  have "t_id t \<noteq> i \<Longrightarrow> List.find (\<lambda>t. t_id t = i) (ts @ [t]) = List.find (\<lambda>t. t_id t = i) ts" for ts by (induction ts) auto
  then show "t_id t \<noteq> i \<Longrightarrow> same_body i b (b'\<lparr>b_thoughts := b_thoughts b' @ [t]\<rparr>) \<longleftrightarrow> same_body i b b'"
    by (simp add: same_body_def thought_of_def)
  show "same_body i b (b'\<lparr>b_separators := ss\<rparr>) \<longleftrightarrow> same_body i b b'"
    by (simp add: same_body_def thought_of_def)
qed

lemma same_body_move_shift: "move_shift b (unat (p :: u32)) (unat (q :: u32)) = Inr b' \<Longrightarrow> same_body i b b'"
  by (rule same_body_bodies) (rule same_bodies_move_shift; simp)

lemma set_deletion_frame: "set_deletion b j d p at = Inr b' \<Longrightarrow> i \<noteq> j \<Longrightarrow> same_body i b b'"
  by (auto simp: set_deletion_def same_body_mut Let_def split: option.splits if_splits)

lemma frame_batch:
  assumes "\<And>m b b'. m \<in> set ms \<Longrightarrow> step b m = Inr b' \<Longrightarrow> same_body i b b'" and "try_fold step b ms = Inr b'"
  shows "same_body i b b'"
  using assms
proof (induction ms arbitrary: b)
  case Nil
  then show ?case by simp
next
  case (Cons m ms)
  from Cons.prems(2) obtain b1 where one: "step b m = Inr b1" and rest: "try_fold step b1 ms = Inr b'" by auto
  have "same_body i b b1" using Cons.prems(1) [OF _ one] by simp
  moreover have "same_body i b1 b'" using Cons.prems(1) by (intro Cons.IH [OF _ rest]) auto
  ultimately show ?case by (rule same_body_trans)
qed

lemma apply_in_place_frame:
  "apply_mutation_in_place at b m = Inr b' \<Longrightarrow> \<not> addresses i m \<Longrightarrow> same_body i b b'"
proof (induction m arbitrary: b b')
  case (Batch ms)
  then obtain b1 where fold: "try_fold (apply_mutation_in_place at) b ms = Inr b1" and b': "b' = touch_session at b1" by auto
  have "same_body i b b1"
    by (rule frame_batch [OF _ fold]) (use Batch in \<open>auto simp: list_ex_iff\<close>)
  then show ?case using b' by simp
next
  case (MoveSeparator j p q)
  then show ?case by (auto simp: move_separator_def Let_def split: if_splits intro: same_body_move_shift)
next
  case (MoveThought j p q)
  then show ?case by (auto simp: move_thought_def Let_def same_body_mut split: if_splits intro: same_body_move_shift)
qed (auto simp: add_or_restore_def add_or_restore_separator_def set_deletion_exact_def set_separator_deletion_def
    replace_content_def set_name_def set_presentation_def set_legacy_collapsed_def live_thought_of_def Let_def
    same_body_mut same_body_push intro: set_deletion_frame split: if_splits option.splits)


section \<open>Errors of a mutation\<close>

definition same_owner :: "session_board \<Rightarrow> session_board \<Rightarrow> bool" where
  "same_owner b b' \<longleftrightarrow> (\<exists>x. b_session b' = (b_session b)\<lparr>last_active_at := x\<rparr>)"

lemma same_owner_eq: "b_session b' = b_session b \<Longrightarrow> same_owner b b'"
  unfolding same_owner_def by (intro exI [of _ "last_active_at (b_session b)"]) simp

lemma same_owner_touch [simp]: "same_owner b (touch_session at b') \<longleftrightarrow> same_owner b b'"
proof
  assume "same_owner b (touch_session at b')"
  then obtain x where "(b_session b')\<lparr>last_active_at := max (last_active_at (b_session b')) at\<rparr> = (b_session b)\<lparr>last_active_at := x\<rparr>"
    by (auto simp: same_owner_def touch_session_def)
  then have "b_session b' = (b_session b)\<lparr>last_active_at := last_active_at (b_session b')\<rparr>"
    by (cases "b_session b"; cases "b_session b'") simp
  then show "same_owner b b'" unfolding same_owner_def by blast
next
  assume "same_owner b b'"
  then show "same_owner b (touch_session at b')" by (auto simp: same_owner_def touch_session_def)
qed

lemma same_owner_simps [simp]:
  "same_owner b b"
  "same_owner b (thought_mut b' i f) \<longleftrightarrow> same_owner b b'" "same_owner b (separator_mut b' j g) \<longleftrightarrow> same_owner b b'"
  "same_owner b (shift_for_insert b' k) \<longleftrightarrow> same_owner b b'" "same_owner b (shift_after_remove b' k) \<longleftrightarrow> same_owner b b'"
  "same_owner b (b'\<lparr>b_thoughts := ts\<rparr>) \<longleftrightarrow> same_owner b b'" "same_owner b (b'\<lparr>b_separators := ss\<rparr>) \<longleftrightarrow> same_owner b b'"
  by (rule same_owner_eq, simp) (simp_all add: same_owner_def)

lemma same_owner_trans: "same_owner b b1 \<Longrightarrow> same_owner b1 b2 \<Longrightarrow> same_owner b b2"
  by (auto simp: same_owner_def)

lemma move_shift_session: "move_shift b p q = Inr b' \<Longrightarrow> same_owner b b'"
  by (rule same_owner_eq) (auto simp: move_shift_def shift_range_def split: if_splits)

lemma set_deletion_session: "set_deletion b i d p at = Inr b' \<Longrightarrow> same_owner b b'"
  by (auto simp: set_deletion_def Let_def split: option.splits if_splits)

lemma apply_in_place_owner: "apply_mutation_in_place at b m = Inr b' \<Longrightarrow> same_owner b b'"
proof (induction m arbitrary: b b')
  case (Batch ms)
  then obtain b1 where fold: "try_fold (apply_mutation_in_place at) b ms = Inr b1" and b': "b' = touch_session at b1" by auto
  have "same_owner b b1"
  proof (rule try_fold_invariant [where P = "same_owner b", OF _ _ fold])
    show "same_owner b b" by (rule same_owner_eq) simp
    show "\<And>s x s'. same_owner b s \<Longrightarrow> x \<in> set ms \<Longrightarrow> apply_mutation_in_place at s x = Inr s' \<Longrightarrow> same_owner b s'"
      using Batch.IH same_owner_trans by blast
  qed
  then show ?case using b' by simp
qed (auto simp: add_or_restore_def add_or_restore_separator_def set_deletion_exact_def set_separator_deletion_def
    replace_content_def set_name_def set_presentation_def set_legacy_collapsed_def live_thought_of_def Let_def
    move_thought_def move_separator_def
    dest: move_shift_session set_deletion_session split: if_splits option.splits)

lemma same_owner_validate: "same_owner b b' \<Longrightarrow> session_validate (b_session b') = session_validate (b_session b)"
  by (auto simp: same_owner_def session_validate_def)

fun structural :: "domain_error \<Rightarrow> bool" where
  "structural NonNormalizedPositions \<longleftrightarrow> True"
| "structural (DuplicateThoughtId _) \<longleftrightarrow> True"
| "structural (DuplicateSeparatorId _) \<longleftrightarrow> True"
| "structural BlankSessionName \<longleftrightarrow> True"
| "structural (RelativeDirectory _) \<longleftrightarrow> True"
| "structural _ \<longleftrightarrow> False"

lemma try_fold_Inl: "try_fold f s xs = Inl e \<Longrightarrow> \<exists>s' x. x \<in> set xs \<and> f s' x = Inl e"
proof (induction xs arbitrary: s)
  case Nil
  then show ?case by simp
next
  case (Cons x xs)
  then show ?case by auto blast
qed

lemma to_u32_Inl: "to_u32 n = Inl e \<Longrightarrow> \<not> structural e"
  by (auto simp: to_u32_def split: if_splits)

lemma try_map_Inl: "try_map f xs = Inl e \<Longrightarrow> \<exists>x \<in> set xs. f x = Inl e"
  by (induction xs) auto

lemma move_shift_Inl: "move_shift b p q = Inl e \<Longrightarrow> \<not> structural e"
  by (auto simp: move_shift_def shift_range_def shift_items_def Let_def dest!: try_map_Inl to_u32_Inl
      split: if_splits shift_direction.splits)

lemma set_deletion_Inl: "set_deletion b i d p at = Inl e \<Longrightarrow> \<not> structural e"
  by (auto simp: set_deletion_def Let_def split: option.splits if_splits)

lemma apply_in_place_Inl: "apply_mutation_in_place at b m = Inl e \<Longrightarrow> \<not> structural e"
proof (induction m arbitrary: b)
  case (Batch ms)
  then show ?case by (auto dest!: try_fold_Inl)
qed (auto simp: add_or_restore_def add_or_restore_separator_def set_deletion_exact_def set_separator_deletion_def
    replace_content_def set_name_def set_presentation_def set_legacy_collapsed_def live_thought_of_def Let_def
    move_thought_def move_separator_def validate_annotations_Inl
    dest: move_shift_Inl set_deletion_Inl to_u32_Inl split: if_splits option.splits)

lemma observe_Inl: "observe c as = Inl e \<Longrightarrow> e = InvalidContentAnnotation"
proof -
  have "observe_one c a = Inl e \<Longrightarrow> e = InvalidContentAnnotation" for c a
    by (cases "ann_kind a") (auto simp: observe_one_def)
  then show "observe c as = Inl e \<Longrightarrow> e = InvalidContentAnnotation"
    unfolding observe_def by (auto dest: try_fold_Inl)
qed

lemma observe_attachments_Inl: "observe_attachments b = Inl e \<Longrightarrow> e = InvalidContentAnnotation"
  by (auto simp: observe_attachments_def dest!: try_fold_Inl observe_Inl)

lemma observe_attachments_Inr:
  "observe_attachments b = Inr b' \<Longrightarrow> b_thoughts b' = b_thoughts b \<and> b_separators b' = b_separators b \<and> b_session b' = b_session b"
  by (auto simp: observe_attachments_def)

lemma order_cong:
  assumes "b_thoughts b' = b_thoughts b" and "b_separators b' = b_separators b" and "b_session b' = b_session b"
  shows "order b' = order b" and "board_inv b' \<longleftrightarrow> board_inv b" and "thought_of b' i = thought_of b i"
    and "item_count b' = item_count b"
  using assms by (simp_all add: order_def live_items_def board_inv_iff entries_def idents_def thought_of_def item_count_def)

lemma apply_mutation_Inr:
  assumes "apply_mutation b m at = Inr b'"
  shows "\<exists>c. apply_mutation_in_place at b m = Inr c \<and> b_thoughts b' = b_thoughts c
    \<and> b_separators b' = b_separators c \<and> b_session b' = b_session c \<and> validate b' = Inr ()"
  using assms observe_attachments_Inr by (auto simp: apply_mutation_def)


section \<open>The abstract board with its content\<close>

text \<open>The abstract state: the order of the live items, and for every retained thought what the user
  wrote, its annotations, its name and its presentation.\<close>

record payload =
  p_content :: rstr
  p_annotations :: "content_annotation list"
  p_name :: "thought_name option"
  p_presentation :: thought_presentation

type_synonym abstract_board = "board_item_id list \<times> (thought_id \<Rightarrow> payload option)"

definition t_payload :: "thought \<Rightarrow> payload" where
  "t_payload t = \<lparr>p_content = t_content t, p_annotations = t_annotations t, p_name = t_name t,
     p_presentation = t_presentation t\<rparr>"

definition payloads :: "session_board \<Rightarrow> thought_id \<Rightarrow> payload option" where
  "payloads b i = map_option t_payload (thought_of b i)"

definition abs_board :: "session_board \<Rightarrow> abstract_board" where
  "abs_board b = (order b, payloads b)"

definition upd_payload :: "thought_id \<Rightarrow> (payload \<Rightarrow> payload) \<Rightarrow> (thought_id \<Rightarrow> payload option) \<Rightarrow> thought_id \<Rightarrow> payload option" where
  "upd_payload i f pl = pl(i := map_option f (pl i))"

definition add_payload :: "thought \<Rightarrow> (thought_id \<Rightarrow> payload option) \<Rightarrow> thought_id \<Rightarrow> payload option" where
  "add_payload t pl = (case pl (t_id t) of None \<Rightarrow> pl(t_id t := Some (t_payload t)) | Some _ \<Rightarrow> pl)"

fun spec_payload :: "board_mutation \<Rightarrow> (thought_id \<Rightarrow> payload option) \<Rightarrow> thought_id \<Rightarrow> payload option" where
  "spec_payload (Batch ms) pl = foldl (\<lambda>pl m. spec_payload m pl) pl ms"
| "spec_payload (AddThought t) pl = add_payload t pl"
| "spec_payload (AddThoughtFromCompose t _ _) pl = add_payload t pl"
| "spec_payload (ReplaceContent i _ _ ac aa) pl = upd_payload i (\<lambda>p. p\<lparr>p_content := ac, p_annotations := aa\<rparr>) pl"
| "spec_payload (SetPresentation i q) pl = upd_payload i (\<lambda>p. p\<lparr>p_presentation := q\<rparr>) pl"
| "spec_payload (SetName i _ n) pl = upd_payload i (\<lambda>p. p\<lparr>p_name := n\<rparr>) pl"
| "spec_payload (LegacySetCollapsed i c) pl =
     upd_payload i (\<lambda>p. p\<lparr>p_presentation := if c then Collapsed else Automatic\<rparr>) pl"
| "spec_payload _ pl = pl"

definition spec_step :: "board_mutation \<Rightarrow> abstract_board \<Rightarrow> abstract_board" where
  "spec_step m st = (spec_order m (fst st), spec_payload m (snd st))"

lemma payload_body: "t_body t' = t_body t \<Longrightarrow> t_payload t' = t_payload t"
  by (simp add: t_body_eq_iff t_payload_def)

lemma same_body_payload: "same_body i b b' \<Longrightarrow> payloads b' i = payloads b i"
  by (cases "thought_of b i"; cases "thought_of b' i") (auto simp: same_body_def payloads_def intro: payload_body)

lemma payloads_bodies: "same_bodies b b' \<Longrightarrow> payloads b' = payloads b"
  by (rule ext) (rule same_body_payload [OF same_body_bodies])

lemma payloads_simps [simp]:
  "payloads (shift_for_insert b k) = payloads b" "payloads (shift_after_remove b k) = payloads b"
  "payloads (separator_mut b j g) = payloads b" "payloads (touch_session at b) = payloads b"
  "payloads (b\<lparr>b_separators := ss\<rparr>) = payloads b"
  using payloads_bodies [OF same_bodies_shift_for_insert] payloads_bodies [OF same_bodies_shift_after_remove]
  by (auto simp: payloads_def fun_eq_iff) (simp add: thought_of_def)

lemma payloads_mut:
  assumes "\<And>t. t_id (f t) = t_id t" and "\<And>t. t_payload (f t) = g (t_payload t)"
  shows "payloads (thought_mut b i f) = upd_payload i g (payloads b)"
  using assms by (auto simp: payloads_def thought_of_mut upd_payload_def fun_eq_iff option.map_comp comp_def)

lemma upd_payload_id [simp]: "upd_payload i (\<lambda>p. p) pl = pl"
  by (simp add: upd_payload_def option.map_ident)

lemma payloads_push:
  assumes "thought_of b (t_id t) = None" and "b_thoughts b' = b_thoughts b @ [t]"
  shows "payloads b' = (payloads b)(t_id t := Some (t_payload t))"
proof -
  have "List.find (\<lambda>x. x_id x = i) (ts @ [t]) = (case List.find (\<lambda>x. x_id x = i) ts of
      Some x \<Rightarrow> Some x | None \<Rightarrow> if x_id t = i then Some t else None)" for x_id :: "thought \<Rightarrow> thought_id" and i ts
    by (induction ts) auto
  then have "thought_of b' i = (case thought_of b i of Some x \<Rightarrow> Some x | None \<Rightarrow> if t_id t = i then Some t else None)" for i
    by (simp add: thought_of_def assms(2))
  then show ?thesis using assms(1) by (auto simp: payloads_def fun_eq_iff split: option.splits)
qed

lemma thought_of_shift_None: "thought_of b i = None \<Longrightarrow> thought_of (shift_for_insert b k) i = None"
  using same_bodies_thought_of(1) [OF same_bodies_shift_for_insert, of b k i] by simp

lemma move_shift_payloads: "move_shift b (unat (p :: u32)) (unat (q :: u32)) = Inr b' \<Longrightarrow> payloads b' = payloads b"
  by (rule payloads_bodies) (rule same_bodies_move_shift; simp)

lemma add_or_restore_payloads: "add_or_restore b t at = Inr b' \<Longrightarrow> payloads b' = add_payload t (payloads b)"
proof -
  assume a: "add_or_restore b t at = Inr b'"
  show ?thesis
  proof (cases "thought_of b (t_id t)")
    case None
    let ?s = "shift_for_insert b (unat (t_position t))"
    let ?t = "t\<lparr>t_deleted_at := None, t_updated_at := at\<rparr>"
    have "b_thoughts b' = b_thoughts ?s @ [?t]"
      using a None by (auto simp: add_or_restore_def Let_def split: if_splits)
    then have "payloads b' = (payloads ?s)(t_id ?t := Some (t_payload ?t))"
      using thought_of_shift_None [OF None] by (intro payloads_push) simp_all
    then show ?thesis using None by (simp add: add_payload_def payloads_def [of b "t_id t"] t_payload_def)
  next
    case (Some e)
    then show ?thesis using a
      by (auto simp: add_or_restore_def Let_def add_payload_def payloads_def [of b "t_id t"] t_payload_def
          payloads_mut [where g = "\<lambda>p. p"] split: if_splits)
  qed
qed

lemma set_deletion_payloads: "set_deletion b i d p at = Inr b' \<Longrightarrow> payloads b' = payloads b"
  by (auto simp: set_deletion_def Let_def t_payload_def payloads_mut [where g = "\<lambda>p. p"]
      split: option.splits if_splits)

lemma edit_payloads:
  "replace_content b i bc ba ac aa at = Inr b' \<Longrightarrow> payloads b' = spec_payload (ReplaceContent i bc ba ac aa) (payloads b)"
  "set_name b i n n' at = Inr b' \<Longrightarrow> payloads b' = spec_payload (SetName i n n') (payloads b)"
  "set_presentation b i q at = Inr b' \<Longrightarrow> payloads b' = spec_payload (SetPresentation i q) (payloads b)"
  by (auto simp: replace_content_def set_name_def set_presentation_def live_thought_of_def t_payload_def
      intro!: payloads_mut split: if_splits)

lemma apply_in_place_payloads:
  "apply_mutation_in_place at b m = Inr b' \<Longrightarrow> payloads b' = spec_payload m (payloads b)"
proof (induction m arbitrary: b b')
  case (Batch ms)
  then obtain b1 where fold: "try_fold (apply_mutation_in_place at) b ms = Inr b1" and b': "b' = touch_session at b1" by auto
  have "payloads b1 = foldl (\<lambda>pl m. spec_payload m pl) (payloads b) ms"
    using fold Batch.IH
  proof (induction ms arbitrary: b)
    case Nil
    then show ?case by simp
  next
    case (Cons m ms)
    from Cons.prems(1) obtain c where one: "apply_mutation_in_place at b m = Inr c"
      and rest: "try_fold (apply_mutation_in_place at) c ms = Inr b1" by auto
    have "payloads c = spec_payload m (payloads b)" using Cons.prems(2) [OF _ one] by simp
    moreover have "payloads b1 = foldl (\<lambda>pl m. spec_payload m pl) (payloads c) ms"
      by (rule Cons.IH [OF rest]) (use Cons.prems(2) in auto)
    ultimately show ?case by simp
  qed
  then show ?case using b' by simp
next
  case (MoveSeparator j p q)
  then show ?case by (auto simp: move_separator_def Let_def split: if_splits dest: move_shift_payloads)
next
  case (MoveThought j p q)
  then show ?case
    by (auto simp: move_thought_def Let_def t_payload_def payloads_mut [where g = "\<lambda>p. p"] split: if_splits
        dest: move_shift_payloads)
qed (auto simp: set_deletion_exact_def set_legacy_collapsed_def add_or_restore_separator_def set_separator_deletion_def
    Let_def dest: add_or_restore_payloads set_deletion_payloads edit_payloads split: if_splits option.splits)

lemma apply_in_place_abs:
  assumes "apply_mutation_in_place at b m = Inr b'" and "board_inv b" and "item_count b + additions m \<le> 2 ^ 32"
  shows "abs_board b' = spec_step m (abs_board b) \<and> board_inv b'"
  using apply_in_place_refines [OF assms] apply_in_place_payloads [OF assms(1)]
  by (simp add: abs_board_def spec_step_def refines_def)

end
