(* ===== verification/Board_Undo.thy ===== *)
theory Board_Undo
  imports Board_Refinement
begin


text \<open>
  Undo. \<open>undoes b m m'\<close> says that \<open>m'\<close> is the inverse the history records for \<open>m\<close> on the board \<open>b\<close>;
  applying \<open>m\<close> and then \<open>m'\<close> restores the order of the board and the payload of every thought it
  retained. \<open>undoes_all\<close> is the same for a batch, whose inverse lists the inverses in reverse.
\<close>

section \<open>Inverse mutations\<close>

















lemma apply_mutation_abs:
  assumes "validate b = Inr ()" and "apply_mutation b m at = Inr b'" and "item_count b + additions m \<le> 2 ^ 32"
  shows "abs_board b' = spec_step m (abs_board b) \<and> validate b' = Inr () \<and> item_count b' \<le> item_count b + additions m"
proof -
  obtain c where c: "apply_mutation_in_place at b m = Inr c" "b_thoughts b' = b_thoughts c"
      "b_separators b' = b_separators c" "b_session b' = b_session c" "validate b' = Inr ()"
    using apply_mutation_Inr [OF assms(2)] by blast
  have inv: "board_inv b" using assms(1) by (simp add: validate_iff)
  have "payloads b' = payloads c" using order_cong(3) [OF c(2,3,4)] by (simp add: payloads_def fun_eq_iff)
  then have "abs_board b' = abs_board c" using order_cong(1) [OF c(2,3,4)] by (simp add: abs_board_def)
  then show ?thesis
    using apply_in_place_abs [OF c(1) inv assms(3)] apply_in_place_refines [OF c(1) inv assms(3)] c(5)
      order_cong(4) [OF c(2,3,4)] by (simp add: refines_def)
qed


section \<open>A small board for evaluation\<close>

definition sample_session :: session where
  "sample_session = \<lparr>ses_id = SessionId [1], ses_name = None, origin_cwd = [0x2f], last_opened_cwd = [0x2f],
     ses_created_at = 0, last_opened_at = 0, last_active_at = 0, last_durable_sequence = 0, ses_deleted_at = None\<rparr>"

definition sample_thought :: "u8 \<Rightarrow> u32 \<Rightarrow> thought" where
  "sample_thought n p = thought_new (ThoughtId [n]) (SessionId [1]) [97, 98] p 0"

definition sample_board :: session_board where
  "sample_board = \<lparr>b_session = sample_session, b_thoughts = [sample_thought 1 1, sample_thought 2 0],
     b_separators = [separator_new (SeparatorId [9]) (SessionId [1]) 2 0], b_counters = default_counters\<rparr>"

lemma sample_valid: "validate sample_board = Inr ()"
  by code_simp

definition then_both :: "'e + 'a \<Rightarrow> ('a \<Rightarrow> 'e + 'b) \<Rightarrow> bool" where
  "then_both r f \<longleftrightarrow> (case r of Inl _ \<Rightarrow> False | Inr x \<Rightarrow> (case f x of Inl _ \<Rightarrow> False | Inr _ \<Rightarrow> True))"

lemma then_bothE: "then_both r f \<Longrightarrow> (\<And>x y. r = Inr x \<Longrightarrow> f x = Inr y \<Longrightarrow> P) \<Longrightarrow> P"
  by (auto simp: then_both_def split: sum.splits)

section \<open>Properties\<close>

text \<open>C1: Every mutation of a valid board, batches included, refines the abstract board: the order of
  the items changes by the abstract insertion, removal or move, the payload of each retained thought
  by the abstract edit, and the new board is valid. (The bound keeps 32-bit positions from
  saturating in the middle of a batch.)\<close>

theorem apply_mutation_refines:
  assumes "validate b = Inr ()" and "apply_mutation b m at = Inr b'" and "item_count b + additions m \<le> 2 ^ 32"
  shows "abs_board b' = spec_step m (abs_board b) \<and> validate b' = Inr ()"
  using apply_mutation_abs [OF assms] by blast

lemma apply_mutation_refines_witness:
  "case apply_mutation sample_board (MoveThought (ThoughtId [1]) 1 2) 5 of
     Inl _ \<Rightarrow> False
   | Inr b' \<Rightarrow> abs_board b' = spec_step (MoveThought (ThoughtId [1]) 1 2) (abs_board sample_board)"
proof -
  have "then_both (apply_mutation sample_board (MoveThought (ThoughtId [1]) 1 2) 5) (\<lambda>b. validate b)" by code_simp
  moreover have "item_count sample_board + additions (MoveThought (ThoughtId [1]) 1 2) \<le> 2 ^ 32"
    by (simp add: item_count_def sample_board_def)
  ultimately show ?thesis
    using apply_mutation_refines [OF sample_valid] by (auto elim!: then_bothE)
qed

text \<open>On a valid board a mutation never fails the final validation for a structural reason: the
  mutators themselves keep positions contiguous, identities unique and the session well formed.\<close>

theorem apply_mutation_error_not_structural:
  assumes "validate b = Inr ()" and "apply_mutation b m at = Inl e" and "item_count b + additions m \<le> 2 ^ 32"
  shows "\<not> structural e"
proof (cases "apply_mutation_in_place at b m")
  case (Inl d)
  then show ?thesis using assms(2) apply_in_place_Inl by (auto simp: apply_mutation_def)
next
  case (Inr c)
  have inv: "board_inv c" using apply_in_place_refines [OF Inr _ assms(3)] assms(1)
    by (auto simp: validate_iff refines_def)
  have ses: "session_validate (b_session c) = Inr ()"
    using same_owner_validate [OF apply_in_place_owner [OF Inr]] assms(1) by (simp add: validate_iff)
  show ?thesis
  proof (cases "observe_attachments c")
    case (Inl d)
    then have "e = d" using Inr assms(2) by (simp add: apply_mutation_def)
    then show ?thesis using observe_attachments_Inl [OF Inl] by simp
  next
    fix c' assume c': "observe_attachments c = Inr c'"
    then have "validate c' = Inl e" using Inr assms(2) by (auto simp: apply_mutation_def)
    moreover have "board_inv c'" "session_validate (b_session c') = Inr ()"
      using observe_attachments_Inr [OF c'] order_cong(2) [of c' c] inv ses by simp_all
    ultimately have "e = InvalidContentAnnotation \<or> e = InvalidThoughtName" by (rule validate_inv_Inl)
    then show ?thesis by auto
  qed
qed

lemma apply_mutation_error_not_structural_witness:
  "apply_mutation sample_board (AddThought (sample_thought 3 7)) 5 = Inl (InvalidPosition 7 3)
    \<and> \<not> structural (InvalidPosition 7 3)"
proof -
  have e: "apply_mutation sample_board (AddThought (sample_thought 3 7)) 5 = Inl (InvalidPosition 7 3)" by code_simp
  moreover have "item_count sample_board + additions (AddThought (sample_thought 3 7)) \<le> 2 ^ 32"
    by (simp add: item_count_def sample_board_def)
  ultimately show ?thesis using apply_mutation_error_not_structural [OF sample_valid e] by blast
qed

text \<open>C4: A mutation changes nothing but the position of a thought it does not address.\<close>

theorem apply_mutation_frame:
  assumes "apply_mutation b m at = Inr b'" and "\<not> addresses i m"
  shows "map_option t_body (thought_of b' i) = map_option t_body (thought_of b i)"
proof -
  obtain c where c: "apply_mutation_in_place at b m = Inr c" "b_thoughts b' = b_thoughts c"
    using apply_mutation_Inr [OF assms(1)] by blast
  then show ?thesis using apply_in_place_frame [OF c(1) assms(2)] by (simp add: same_body_def thought_of_def)
qed

lemma apply_mutation_frame_witness:
  "case apply_mutation sample_board (MoveThought (ThoughtId [1]) 1 0) 5 of
     Inl _ \<Rightarrow> False
   | Inr b' \<Rightarrow> map_option t_body (thought_of b' (ThoughtId [2])) = map_option t_body (thought_of sample_board (ThoughtId [2]))"
proof -
  have "then_both (apply_mutation sample_board (MoveThought (ThoughtId [1]) 1 0) 5) (\<lambda>b. validate b)" by code_simp
  then show ?thesis
    using apply_mutation_frame [of sample_board "MoveThought (ThoughtId [1]) 1 0" 5 _ "ThoughtId [2]"]
    by (auto elim!: then_bothE)
qed





end
