(* ===== verification/Attachments.thy ===== *)
theory Attachments
  imports Board_Model "HOL-Library.List_Lexorder" "HOL-Library.AList_Mapping"
begin

text \<open>
  Transient attachment health, bounded scheduling and submission preflight
  (\<open>src/application/attachments.rs\<close>, \<open>src/application/attachments/keys.rs\<close>,
  \<open>src/application/attachments/presentation.rs\<close>) with the request and result types of
  \<open>src/ports/attachment_accessibility.rs\<close>.

  A \<open>BTreeMap\<close> is a \<open>mapping\<close>; where the code iterates one in key order the model does so over
  \<open>ordered_keys\<close>. Identifiers are ordered by their bytes, as the derived \<open>Ord\<close> of a UUID is. The SHA-256
  digest of the \<open>sha2\<close> crate is the parameter \<open>digest\<close>. A \<open>Duration\<close> is a \<open>nat\<close> of milliseconds (the code
  compares and subtracts durations, saturating at zero).
\<close>

section \<open>Orders and maps\<close>

fun thought_bytes :: "thought_id \<Rightarrow> u8 list" where
  "thought_bytes (ThoughtId u) = u"

fun submission_bytes :: "submission_id \<Rightarrow> u8 list" where
  "submission_bytes (SubmissionId u) = u"

instantiation thought_id :: linorder
begin

definition less_eq_thought_id :: "thought_id \<Rightarrow> thought_id \<Rightarrow> bool" where
  "less_eq_thought_id a b \<longleftrightarrow> thought_bytes a \<le> thought_bytes b"

definition less_thought_id :: "thought_id \<Rightarrow> thought_id \<Rightarrow> bool" where
  "less_thought_id a b \<longleftrightarrow> thought_bytes a < thought_bytes b"

instance
proof
  have inj: "thought_bytes a = thought_bytes b \<Longrightarrow> a = b" for a b by (cases a; cases b) simp
  fix a b c :: thought_id
  show "a < b \<longleftrightarrow> a \<le> b \<and> \<not> b \<le> a" by (auto simp: less_eq_thought_id_def less_thought_id_def)
  show "a \<le> a" by (simp add: less_eq_thought_id_def)
  show "a \<le> b \<Longrightarrow> b \<le> c \<Longrightarrow> a \<le> c" by (auto simp: less_eq_thought_id_def)
  show "a \<le> b \<Longrightarrow> b \<le> a \<Longrightarrow> a = b" by (auto simp: less_eq_thought_id_def intro: inj)
  show "a \<le> b \<or> b \<le> a" by (auto simp: less_eq_thought_id_def)
qed

end

instantiation submission_id :: linorder
begin

definition less_eq_submission_id :: "submission_id \<Rightarrow> submission_id \<Rightarrow> bool" where
  "less_eq_submission_id a b \<longleftrightarrow> submission_bytes a \<le> submission_bytes b"

definition less_submission_id :: "submission_id \<Rightarrow> submission_id \<Rightarrow> bool" where
  "less_submission_id a b \<longleftrightarrow> submission_bytes a < submission_bytes b"

instance
proof
  have inj: "submission_bytes a = submission_bytes b \<Longrightarrow> a = b" for a b by (cases a; cases b) simp
  fix a b c :: submission_id
  show "a < b \<longleftrightarrow> a \<le> b \<and> \<not> b \<le> a" by (auto simp: less_eq_submission_id_def less_submission_id_def)
  show "a \<le> a" by (simp add: less_eq_submission_id_def)
  show "a \<le> b \<Longrightarrow> b \<le> c \<Longrightarrow> a \<le> c" by (auto simp: less_eq_submission_id_def)
  show "a \<le> b \<Longrightarrow> b \<le> a \<Longrightarrow> a = b" by (auto simp: less_eq_submission_id_def intro: inj)
  show "a \<le> b \<or> b \<le> a" by (auto simp: less_eq_submission_id_def)
qed

end

definition ordered_keys :: "('k :: linorder, 'v) mapping \<Rightarrow> 'k list" where
  "ordered_keys m = sorted_list_of_set (Mapping.keys m)"

definition ordered_values :: "('k :: linorder, 'v) mapping \<Rightarrow> 'v list" where
  "ordered_values m = List.map_filter (Mapping.lookup m) (ordered_keys m)"

definition first_key :: "('k :: linorder, 'v) mapping \<Rightarrow> 'k option" where
  "first_key m = (case ordered_keys m of [] \<Rightarrow> None | k # _ \<Rightarrow> Some k)"

definition map_entry_or_insert :: "'k \<Rightarrow> 'v \<Rightarrow> ('k, 'v) mapping \<Rightarrow> ('k, 'v) mapping" where
  "map_entry_or_insert k v m = (case Mapping.lookup m k of None \<Rightarrow> Mapping.update k v m | Some _ \<Rightarrow> m)"

section \<open>Keys, purposes and results\<close>

record attachment_check_key =
  key_thought_id :: thought_id
  annotation_index :: nat
  annotation_start :: nat
  annotation_end :: nat
  key_image :: bool
  key_ordinal :: attachment_ordinal
  key_display_name :: rstr
  canonical_path :: rstr
  content_revision :: "u8 list"

datatype attachment_access_failure =
  Missing | PermissionDenied | Unmounted | Unreadable | Io | TimedOut | Cancelled

datatype attachment_availability = AvAvailable | AvInCloud | AvDownloading

datatype attachment_check_purpose = Background | SubmissionPreflight submission_id

record attachment_check_batch =
  batch_id :: u64
  batch_purpose :: attachment_check_purpose
  batch_checks :: "attachment_check_key list"
  batch_timeout :: nat

record attachment_check_result =
  result_key :: attachment_check_key
  result_value :: "attachment_access_failure + attachment_availability"

record attachment_check_batch_result =
  done_id :: u64
  done_purpose :: attachment_check_purpose
  done_results :: "attachment_check_result list"

datatype attachment_health =
    Unknown | Checking | Available | InCloud | Downloading | Inaccessible attachment_access_failure

fun health_from :: "attachment_access_failure + attachment_availability \<Rightarrow> attachment_health" where
  "health_from (Inr AvAvailable) = Available"
| "health_from (Inr AvInCloud) = InCloud"
| "health_from (Inr AvDownloading) = Downloading"
| "health_from (Inl failure) = Inaccessible failure"

fun is_result :: "attachment_health option \<Rightarrow> bool" where
  "is_result (Some Available) = True"
| "is_result (Some InCloud) = True"
| "is_result (Some Downloading) = True"
| "is_result (Some (Inaccessible _)) = True"
| "is_result _ = False"

record in_flight =
  fl_id :: u64
  fl_purpose :: attachment_check_purpose
  fl_keys :: "attachment_check_key list"
  fl_epoch :: u64

record submission_preflight =
  remaining :: "attachment_check_key list"
  pre_inaccessible :: nat

record manual_refresh =
  mr_epoch :: u64
  mr_pending :: "attachment_check_key set"

record preflight_outcome =
  po_submission :: submission_id
  po_inaccessible :: nat

datatype refresh_cause = Quiet | Manual

record refresh_outcome =
  ro_total :: nat
  ro_inaccessible :: nat

record attachment_state =
  known :: "(thought_id, attachment_check_key list) mapping"
  health :: "(attachment_check_key, attachment_health) mapping"
  background :: "attachment_check_key list"
  queued :: "attachment_check_key set"
  preflights :: "(submission_id, submission_preflight) mapping"
  flight :: "in_flight option"
  flight_replacements :: "(attachment_check_key, attachment_check_key) mapping"
  next_batch_id :: u64
  background_epoch :: u64
  manual :: "manual_refresh option"
  last_deliberate :: "nat option"
  refreshed_since_last_deliberate :: bool

definition attachment_default :: attachment_state where
  "attachment_default = \<lparr>known = Mapping.empty, health = Mapping.empty, background = [], queued = {},
     preflights = Mapping.empty, flight = None, flight_replacements = Mapping.empty, next_batch_id = 1,
     background_epoch = 0, manual = None, last_deliberate = None, refreshed_since_last_deliberate = False\<rparr>"

definition BACKGROUND_BATCH_SIZE :: nat where "BACKGROUND_BATCH_SIZE = 16"
definition PREFLIGHT_BATCH_SIZE :: nat where "PREFLIGHT_BATCH_SIZE = 32"
definition BACKGROUND_TIMEOUT :: nat where "BACKGROUND_TIMEOUT = 2000"
definition PREFLIGHT_TIMEOUT :: nat where "PREFLIGHT_TIMEOUT = 5000"
definition INACTIVE_REFRESH_AFTER :: nat where "INACTIVE_REFRESH_AFTER = 5 * 60 * 1000"

section \<open>Exact keys\<close>

definition attachment_key_at ::
  "(rstr \<Rightarrow> u8 list) \<Rightarrow> thought \<Rightarrow> nat \<times> content_annotation \<Rightarrow> attachment_check_key option" where
  "attachment_key_at digest t = (\<lambda>(index, a).
     case ann_kind a of
       Attachment ordinal img display_name \<Rightarrow>
         Option.bind (str_get (t_content t) (ann_start a) (ann_end a)) (\<lambda>path.
         Option.bind ordinal (\<lambda>ordinal.
           Some \<lparr>key_thought_id = t_id t, annotation_index = index, annotation_start = ann_start a,
             annotation_end = ann_end a, key_image = img, key_ordinal = ordinal,
             key_display_name = display_name, canonical_path = path,
             content_revision = digest (t_content t)\<rparr>))
     | _ \<Rightarrow> None)"

definition attachment_keys :: "(rstr \<Rightarrow> u8 list) \<Rightarrow> thought \<Rightarrow> attachment_check_key list" where
  "attachment_keys digest t = List.map_filter (attachment_key_at digest t) (enumerate 0 (t_annotations t))"

definition attachment_keys_by_thought ::
  "(rstr \<Rightarrow> u8 list) \<Rightarrow> session_board \<Rightarrow> (thought_id, attachment_check_key list) mapping" where
  "attachment_keys_by_thought digest b =
     foldl (\<lambda>m t. Mapping.update (t_id t) (attachment_keys digest t) m) Mapping.empty (live_thoughts b)"

definition known_keys :: "attachment_state \<Rightarrow> attachment_check_key list" where
  "known_keys st = concat (ordered_values (known st))"

definition keys_of :: "attachment_state \<Rightarrow> thought_id \<Rightarrow> attachment_check_key list" where
  "keys_of st i = (case Mapping.lookup (known st) i of None \<Rightarrow> [] | Some ks \<Rightarrow> ks)"

definition seed_unknown :: "attachment_state \<Rightarrow> attachment_state" where
  "seed_unknown st = st\<lparr>health := foldl (\<lambda>h k. map_entry_or_insert k Unknown h) (health st) (known_keys st)\<rparr>"

definition has_result :: "attachment_state \<Rightarrow> attachment_check_key \<Rightarrow> bool" where
  "has_result st k \<longleftrightarrow> is_result (Mapping.lookup (health st) k)"

definition mark_checking :: "attachment_state \<Rightarrow> attachment_check_key list \<Rightarrow> attachment_state" where
  "mark_checking st ks = st\<lparr>health := foldl (\<lambda>h k.
     if is_result (Mapping.lookup h k) then h else Mapping.update k Checking h) (health st) ks\<rparr>"

definition mark_paths_accessible :: "attachment_state \<Rightarrow> thought_id \<Rightarrow> rstr list \<Rightarrow> attachment_state" where
  "mark_paths_accessible st i paths = st\<lparr>health := foldl (\<lambda>h k.
     if canonical_path k \<in> set paths then Mapping.update k Available h else h) (health st) (keys_of st i)\<rparr>"

definition mark_thought_accessible :: "attachment_state \<Rightarrow> thought_id \<Rightarrow> attachment_state" where
  "mark_thought_accessible st i =
     st\<lparr>health := foldl (\<lambda>h k. Mapping.update k Available h) (health st) (keys_of st i)\<rparr>"

definition retain_current_health :: "attachment_state \<Rightarrow> attachment_state" where
  "retain_current_health st = st\<lparr>health := Mapping.filter (\<lambda>k _. k \<in> set (known_keys st)) (health st)\<rparr>"

definition same_attachment :: "attachment_check_key \<Rightarrow> attachment_check_key \<Rightarrow> bool" where
  "same_attachment l r \<longleftrightarrow> key_thought_id l = key_thought_id r \<and> key_image l = key_image r
     \<and> key_ordinal l = key_ordinal r \<and> key_display_name l = key_display_name r
     \<and> canonical_path l = canonical_path r"

definition matching_index ::
  "attachment_check_key list \<Rightarrow> attachment_check_key \<Rightarrow> nat set \<Rightarrow> nat option" where
  "matching_index old_keys new_key used =
     find_map (\<lambda>(i, old). if i \<notin> used \<and> same_attachment old new_key then Some i else None) (enumerate 0 old_keys)"

definition exact_index :: "attachment_check_key list \<Rightarrow> attachment_check_key \<Rightarrow> nat option" where
  "exact_index old_keys new_key =
     find_map (\<lambda>(i, old). if old = new_key then Some i else None) (enumerate 0 old_keys)"

fun second_pass ::
  "attachment_check_key list \<Rightarrow> nat set \<Rightarrow> (attachment_check_key \<times> nat option) list
    \<Rightarrow> (attachment_check_key \<times> nat option) list" where
  "second_pass old_keys used [] = []"
| "second_pass old_keys used ((new_key, Some i) # rest) = (new_key, Some i) # second_pass old_keys used rest"
| "second_pass old_keys used ((new_key, None) # rest) =
     (case matching_index old_keys new_key used of
        None \<Rightarrow> (new_key, None) # second_pass old_keys used rest
      | Some i \<Rightarrow> (new_key, Some i) # second_pass old_keys (insert i used) rest)"

definition matching_key_pairs ::
  "attachment_check_key list \<Rightarrow> attachment_check_key list \<Rightarrow> (attachment_check_key \<times> attachment_check_key) list"
where
  "matching_key_pairs old_keys new_keys =
     (let first_pass = map (\<lambda>k. (k, exact_index old_keys k)) new_keys;
          used = set (List.map_filter snd first_pass)
      in List.map_filter (\<lambda>(new_key, i). map_option (\<lambda>i. (old_keys ! i, new_key)) i)
           (second_pass old_keys used first_pass))"

definition migrate_health ::
  "attachment_state \<Rightarrow> (thought_id, attachment_check_key list) mapping \<Rightarrow> thought_id list
    \<Rightarrow> attachment_state \<times> (attachment_check_key, attachment_check_key) mapping \<times> bool" where
  "migrate_health st current changed =
     (let previous = health st;
          kept = Mapping.filter (\<lambda>k _. key_thought_id k \<notin> set changed
             \<and> (case Mapping.lookup current (key_thought_id k) of None \<Rightarrow> False | Some ks \<Rightarrow> k \<in> set ks)) previous;
          (h, replacements, stable) = foldl (\<lambda>(h, replacements, stable) i.
             let old_keys = keys_of st i;
                 new_keys = (case Mapping.lookup current i of None \<Rightarrow> [] | Some ks \<Rightarrow> ks);
                 pairs = matching_key_pairs old_keys new_keys
             in (foldl (\<lambda>h (old, new). case Mapping.lookup previous old of
                     None \<Rightarrow> h | Some x \<Rightarrow> Mapping.update new x h) h pairs,
                 foldl (\<lambda>m (old, new). Mapping.update old new m) replacements pairs,
                 stable \<and> length pairs = length old_keys \<and> length pairs = length new_keys))
             (kept, Mapping.empty, True) changed
      in (st\<lparr>health := h\<rparr>, replacements, stable))"

definition remap_key ::
  "(attachment_check_key, attachment_check_key) mapping \<Rightarrow> attachment_check_key set
    \<Rightarrow> attachment_check_key \<Rightarrow> attachment_check_key option" where
  "remap_key replacements current k =
     (case Mapping.lookup replacements k of Some k' \<Rightarrow> Some k' | None \<Rightarrow> if k \<in> current then Some k else None)"

definition remap_scheduled_keys ::
  "attachment_state \<Rightarrow> (attachment_check_key, attachment_check_key) mapping \<Rightarrow> attachment_state" where
  "remap_scheduled_keys st replacements =
     (let current = set (known_keys st);
          bg = List.map_filter (remap_key replacements current) (background st);
          moved = Mapping.map_values (\<lambda>_ r. case Mapping.lookup replacements r of None \<Rightarrow> r | Some n \<Rightarrow> n)
                    (flight_replacements st);
          aliased = (case flight st of None \<Rightarrow> moved
             | Some batch \<Rightarrow> foldl (\<lambda>m k. case Mapping.lookup replacements k of
                 None \<Rightarrow> m | Some r \<Rightarrow> Mapping.update k r m) moved (fl_keys batch))
      in st\<lparr>background := bg, queued := set bg,
           manual := map_option (\<lambda>m. m\<lparr>mr_pending :=
               Option.these (remap_key replacements current ` mr_pending m)\<rparr>) (manual st),
           flight_replacements := aliased\<rparr>)"

definition replaced_key :: "attachment_state \<Rightarrow> attachment_check_key \<Rightarrow> attachment_check_key" where
  "replaced_key st k = (case Mapping.lookup (flight_replacements st) k of None \<Rightarrow> k | Some r \<Rightarrow> r)"

definition current_result_key :: "attachment_state \<Rightarrow> attachment_check_key \<Rightarrow> attachment_check_key option" where
  "current_result_key st k =
     (let candidate = replaced_key st k in
      if candidate \<in> set (keys_of st (key_thought_id candidate)) then Some candidate else None)"

definition key_in_current_in_flight :: "attachment_state \<Rightarrow> attachment_check_key \<Rightarrow> bool" where
  "key_in_current_in_flight st k \<longleftrightarrow>
     (case flight st of None \<Rightarrow> False
      | Some batch \<Rightarrow> (fl_purpose batch \<noteq> Background \<or> fl_epoch batch = background_epoch st)
          \<and> list_ex (\<lambda>c. c = k \<or> Mapping.lookup (flight_replacements st) c = Some k) (fl_keys batch))"

section \<open>Queueing and scheduling\<close>

definition should_enqueue :: "attachment_state \<Rightarrow> attachment_check_key \<Rightarrow> bool \<Rightarrow> bool" where
  "should_enqueue st k force \<longleftrightarrow>
     k \<notin> queued st \<and> \<not> key_in_current_in_flight st k \<and> (force \<or> \<not> has_result st k)"

definition enqueue_thought_back :: "bool \<Rightarrow> attachment_state \<Rightarrow> thought_id \<Rightarrow> attachment_state" where
  "enqueue_thought_back force st i =
     foldl (\<lambda>st k. if should_enqueue st k force
              then st\<lparr>queued := insert k (queued st), background := background st @ [k]\<rparr> else st)
       st (keys_of st i)"

definition enqueue_thought_front :: "bool \<Rightarrow> attachment_state \<Rightarrow> thought_id \<Rightarrow> attachment_state" where
  "enqueue_thought_front force st i =
     foldl (\<lambda>st k. if key_in_current_in_flight st k \<or> (\<not> force \<and> has_result st k) then st
              else st\<lparr>queued := insert k (queued st), background := k # filter (\<lambda>q. q \<noteq> k) (background st)\<rparr>)
       st (rev (keys_of st i))"

definition enqueue_board :: "attachment_state \<Rightarrow> session_board \<Rightarrow> thought_id option \<Rightarrow> bool \<Rightarrow> attachment_state" where
  "enqueue_board st b focused force =
     foldl (enqueue_thought_back force)
       (case focused of None \<Rightarrow> st | Some i \<Rightarrow> enqueue_thought_back force st i)
       (filter (\<lambda>i. Some i \<noteq> focused) (map t_id (live_thoughts b)))"

definition next_wrapping :: "u64 \<Rightarrow> u64" where
  "next_wrapping n = max (n + 1) 1"

definition start_batch ::
  "attachment_state \<Rightarrow> attachment_check_purpose \<Rightarrow> attachment_check_key list \<Rightarrow> nat
    \<Rightarrow> attachment_check_batch list \<times> attachment_state" where
  "start_batch st purpose ks timeout =
     (if ks = [] then ([], st)
      else ([\<lparr>batch_id = next_batch_id st, batch_purpose = purpose, batch_checks = ks, batch_timeout = timeout\<rparr>],
            mark_checking (st\<lparr>next_batch_id := next_wrapping (next_batch_id st),
              flight := Some \<lparr>fl_id = next_batch_id st, fl_purpose = purpose, fl_keys = ks,
                fl_epoch = background_epoch st\<rparr>\<rparr>) ks))"

definition schedule :: "attachment_state \<Rightarrow> attachment_check_batch list \<times> attachment_state" where
  "schedule st =
     (if flight st \<noteq> None then ([], st)
      else case first_key (preflights st) of
        None \<Rightarrow>
          (let ks = take BACKGROUND_BATCH_SIZE (background st) in
           start_batch (st\<lparr>background := drop BACKGROUND_BATCH_SIZE (background st),
             queued := queued st - set ks\<rparr>) Background ks BACKGROUND_TIMEOUT)
      | Some i \<Rightarrow>
          (case Mapping.lookup (preflights st) i of
             None \<Rightarrow> ([], st)
           | Some p \<Rightarrow>
               start_batch (st\<lparr>preflights := Mapping.update i
                   (p\<lparr>remaining := drop PREFLIGHT_BATCH_SIZE (remaining p)\<rparr>) (preflights st)\<rparr>)
                 (SubmissionPreflight i) (take PREFLIGHT_BATCH_SIZE (remaining p)) PREFLIGHT_TIMEOUT))"

definition start_attachments ::
  "(rstr \<Rightarrow> u8 list) \<Rightarrow> attachment_state \<Rightarrow> session_board \<Rightarrow> thought_id option \<Rightarrow> nat
    \<Rightarrow> attachment_check_batch list \<times> attachment_state" where
  "start_attachments digest st b focused now =
     schedule (enqueue_board (seed_unknown (st\<lparr>last_deliberate := Some now,
       known := attachment_keys_by_thought digest b\<rparr>)) b focused False)"

definition restart_manual_refresh ::
  "attachment_state \<Rightarrow> session_board \<Rightarrow> thought_id option \<Rightarrow> attachment_state" where
  "restart_manual_refresh st b focused =
     (let epoch = background_epoch st + 1 in
      enqueue_board (st\<lparr>background_epoch := epoch, background := [], queued := {},
        manual := Some \<lparr>mr_epoch = epoch, mr_pending = set (known_keys st)\<rparr>\<rparr>) b focused True)"

definition reconcile ::
  "(rstr \<Rightarrow> u8 list) \<Rightarrow> attachment_state \<Rightarrow> session_board \<Rightarrow> attachment_check_batch list \<times> attachment_state" where
  "reconcile digest st b =
     (let current = attachment_keys_by_thought digest b;
          changed = filter (\<lambda>i. Mapping.lookup (known st) i \<noteq> Mapping.lookup current i)
            (sorted_list_of_set (Mapping.keys (known st) \<union> Mapping.keys current))
      in if changed = [] then ([], st)
         else (let (migrated, replacements, stable) = migrate_health st current changed;
                   st1 = remap_scheduled_keys (seed_unknown (migrated\<lparr>known := current\<rparr>)) replacements;
                   st2 = (if manual st1 \<noteq> None \<and> \<not> stable
                          then restart_manual_refresh st1 b (case changed of [] \<Rightarrow> None | i # _ \<Rightarrow> Some i)
                          else if \<not> stable then foldl (enqueue_thought_front False) st1 (rev changed)
                          else st1)
               in schedule st2))"

definition prioritize_focus ::
  "attachment_state \<Rightarrow> thought_id \<Rightarrow> attachment_check_batch list \<times> attachment_state" where
  "prioritize_focus st i = schedule (enqueue_thought_front False st i)"

definition refresh_all ::
  "(rstr \<Rightarrow> u8 list) \<Rightarrow> attachment_state \<Rightarrow> session_board \<Rightarrow> thought_id option \<Rightarrow> refresh_cause
    \<Rightarrow> (attachment_check_batch list \<times> refresh_outcome option) \<times> attachment_state" where
  "refresh_all digest st b focused cause =
     (if cause = Quiet \<and> manual st \<noteq> None then (([], None), st)
      else
        (let epoch = background_epoch st + 1;
             st1 = seed_unknown (retain_current_health (st\<lparr>background_epoch := epoch, background := [],
               queued := {}, known := attachment_keys_by_thought digest b\<rparr>));
             st2 = st1\<lparr>refreshed_since_last_deliberate := True\<rparr>;
             total = length (known_keys st2);
             st3 = (if cause = Manual
                    then st2\<lparr>manual := Some \<lparr>mr_epoch = epoch, mr_pending = set (known_keys st2)\<rparr>\<rparr> else st2);
             st4 = enqueue_board st3 b focused True;
             (immediate, st5) = (if cause = Manual \<and> total = 0
                then (Some \<lparr>ro_total = 0, ro_inaccessible = 0\<rparr>, st4\<lparr>manual := None\<rparr>) else (None, st4));
             (batches, st6) = schedule st5
         in ((batches, immediate), st6)))"

definition note_deliberate_interaction ::
  "(rstr \<Rightarrow> u8 list) \<Rightarrow> attachment_state \<Rightarrow> session_board \<Rightarrow> thought_id option \<Rightarrow> nat
    \<Rightarrow> (attachment_check_batch list \<times> bool) \<times> attachment_state" where
  "note_deliberate_interaction digest st b focused now =
     (let should_refresh = (case last_deliberate st of None \<Rightarrow> False
            | Some previous \<Rightarrow> now - previous \<ge> INACTIVE_REFRESH_AFTER \<and> \<not> refreshed_since_last_deliberate st);
          st1 = st\<lparr>last_deliberate := Some now, refreshed_since_last_deliberate := False\<rparr>
      in if should_refresh
         then (let coalesced = manual st1 \<noteq> None;
                   ((batches, _), st2) = refresh_all digest st1 b focused Quiet
               in ((batches, \<not> coalesced), st2))
         else (([], False), st1))"

definition begin_preflight ::
  "attachment_state \<Rightarrow> submission_id \<Rightarrow> attachment_check_key list
    \<Rightarrow> (attachment_check_batch list \<times> preflight_outcome option) \<times> attachment_state" where
  "begin_preflight st i ks =
     (if ks = [] then (([], Some \<lparr>po_submission = i, po_inaccessible = 0\<rparr>), st)
      else (let (batches, st') = schedule (st\<lparr>preflights :=
                  Mapping.update i \<lparr>remaining = ks, pre_inaccessible = 0\<rparr> (preflights st)\<rparr>)
            in ((batches, None), st')))"

definition returned_value ::
  "attachment_check_result list \<Rightarrow> attachment_check_key \<Rightarrow> attachment_access_failure + attachment_availability" where
  "returned_value results k =
     (case List.find (\<lambda>r. result_key r = k) (rev results) of None \<Rightarrow> Inl Io | Some r \<Rightarrow> result_value r)"

definition apply_results ::
  "attachment_state \<Rightarrow> in_flight \<Rightarrow> attachment_check_result list \<Rightarrow> nat \<times> attachment_state" where
  "apply_results st batch results =
     foldl (\<lambda>(failures, st) k.
       let result = returned_value results k;
           failures' = (if result \<noteq> Inr AvAvailable then failures + 1 else failures);
           fresh_background = (fl_purpose batch \<noteq> Background \<or> fl_epoch batch = background_epoch st)
       in case current_result_key st k of
            None \<Rightarrow> (failures', st)
          | Some target \<Rightarrow>
              (failures', if fresh_background
                          then st\<lparr>health := Mapping.update target (health_from result) (health st)\<rparr> else st))
     (0, st) (fl_keys batch)"

definition finish_manual_refresh_batch ::
  "attachment_state \<Rightarrow> in_flight \<Rightarrow> refresh_outcome option \<times> attachment_state" where
  "finish_manual_refresh_batch st batch =
     (case manual st of None \<Rightarrow> (None, st)
      | Some refresh \<Rightarrow>
          (let pending = (if mr_epoch refresh = fl_epoch batch
                 then mr_pending refresh - set (map (replaced_key st) (fl_keys batch)) else mr_pending refresh)
           in if pending \<noteq> {} then (None, st\<lparr>manual := Some (refresh\<lparr>mr_pending := pending\<rparr>)\<rparr>)
              else (Some \<lparr>ro_total = length (known_keys st),
                     ro_inaccessible = length (filter (\<lambda>k. Mapping.lookup (health st) k \<noteq> Some Available) (known_keys st))\<rparr>,
                    st\<lparr>manual := None\<rparr>)))"

definition finish_preflight_batch ::
  "attachment_state \<Rightarrow> submission_id \<Rightarrow> nat \<Rightarrow> preflight_outcome option \<times> attachment_state" where
  "finish_preflight_batch st i failures =
     (case Mapping.lookup (preflights st) i of None \<Rightarrow> (None, st)
      | Some p \<Rightarrow>
          (let total = min (pre_inaccessible p + failures) usize_max in
           if remaining p \<noteq> []
           then (None, st\<lparr>preflights := Mapping.update i (p\<lparr>pre_inaccessible := total\<rparr>) (preflights st)\<rparr>)
           else (Some \<lparr>po_submission = i, po_inaccessible = total\<rparr>,
                 st\<lparr>preflights := Mapping.delete i (preflights st)\<rparr>)))"

definition complete ::
  "attachment_state \<Rightarrow> attachment_check_batch_result
    \<Rightarrow> (attachment_check_batch list \<times> preflight_outcome option \<times> refresh_outcome option) \<times> attachment_state" where
  "complete st completion =
     (case flight st of
        None \<Rightarrow> (([], None, None), st)
      | Some batch \<Rightarrow>
          if done_id completion \<noteq> fl_id batch \<or> done_purpose completion \<noteq> fl_purpose batch
          then (([], None, None), st)
          else
            (let (failures, st1) = apply_results (st\<lparr>flight := None\<rparr>) batch (done_results completion);
                 (preflight, refresh, st2) = (case fl_purpose batch of
                     Background \<Rightarrow> (let (r, s) = finish_manual_refresh_batch st1 batch in (None, r, s))
                   | SubmissionPreflight i \<Rightarrow> (let (p, s) = finish_preflight_batch st1 i failures in (p, None, s)));
                 st3 = st2\<lparr>flight_replacements := foldl (\<lambda>m k. Mapping.delete k m) (flight_replacements st2) (fl_keys batch)\<rparr>;
                 (batches, st4) = schedule st3
             in ((batches, preflight, refresh), st4)))"

definition keys_for :: "attachment_state \<Rightarrow> thought_id list \<Rightarrow> attachment_check_key list option" where
  "keys_for st ids =
     foldl (\<lambda>acc i. Option.bind acc (\<lambda>ks. map_option ((@) ks) (Mapping.lookup (known st) i))) (Some []) ids"

datatype presentation_state = PsAvailable | PsInCloud | PsDownloading | PsInaccessible

fun presentation_of :: "attachment_health \<Rightarrow> presentation_state" where
  "presentation_of Unknown = PsAvailable"
| "presentation_of Checking = PsAvailable"
| "presentation_of Available = PsAvailable"
| "presentation_of InCloud = PsInCloud"
| "presentation_of Downloading = PsDownloading"
| "presentation_of (Inaccessible _) = PsInaccessible"

definition presentation_state_of :: "attachment_state \<Rightarrow> thought_id \<Rightarrow> nat \<Rightarrow> presentation_state" where
  "presentation_state_of st i index =
     (case Option.bind (Option.bind (Mapping.lookup (known st) i)
               (List.find (\<lambda>k. annotation_index k = index))) (Mapping.lookup (health st)) of
        None \<Rightarrow> PsAvailable | Some h \<Rightarrow> presentation_of h)"

end
