(* ===== verification/App_Model.thy ===== *)
theory App_Model
  imports Attachments Board_Mutations
begin

text \<open>
  The state of the reducer lane and the ordering of its two history owners
  (\<open>src/application/model.rs\<close>, \<open>src/application/model/history.rs\<close>, \<open>src/application/model/clipboard.rs\<close>,
  \<open>src/application/error.rs\<close>) with the Browser operation a session rename records
  (\<open>src/domain/browser_history.rs\<close>).

  A method that mutates \<open>&mut self\<close> and may fail returns its result and the state it leaves behind, so
  that what a failing call has already changed is part of the model: \<open>try_st\<close> is the \<open>?\<close> operator
  on a value, \<open>then_st\<close> on a call that takes the state. A \<open>HashMap\<close> or \<open>BTreeMap\<close> is a \<open>mapping\<close>, a
  \<open>BTreeSet\<close> a set (\<open>first\<close> and \<open>last\<close> are its minimum and maximum).
\<close>

section \<open>Fallible state passing\<close>

type_synonym ('e, 'a, 's) outcome = "('e + 'a) \<times> 's"

definition try_st :: "'e + 'a \<Rightarrow> 's \<Rightarrow> ('a \<Rightarrow> ('e, 'b, 's) outcome) \<Rightarrow> ('e, 'b, 's) outcome" where
  "try_st r s k = (case r of Inl e \<Rightarrow> (Inl e, s) | Inr x \<Rightarrow> k x)"

definition then_st :: "('e, 'a, 's) outcome \<Rightarrow> ('a \<Rightarrow> 's \<Rightarrow> ('e, 'b, 's) outcome) \<Rightarrow> ('e, 'b, 's) outcome" where
  "then_st r k = (case r of (Inl e, s) \<Rightarrow> (Inl e, s) | (Inr x, s) \<Rightarrow> k x s)"

section \<open>Errors\<close>

datatype failure_code =
    FcThoughtNotFound | FcContentConflict | FcThoughtLocked | FcInvalidState | FcClipboardFailed
  | FcClipboardMetadataUnsupported | FcStorageFailed | FcRecoveryCapacity | FcInvariantViolation

datatype app_error =
    AppDomain domain_error
  | AppThoughtNotFound thought_id
  | RevisionConflict thought_id
  | HistoryDependency thought_id
  | AppContentConflict thought_id
  | AppThoughtLocked thought_id
  | NoncontiguousSelection
  | AppInvalidState
  | AppSequenceExhausted

fun error_code :: "app_error \<Rightarrow> failure_code" where
  "error_code (AppThoughtNotFound _) = FcThoughtNotFound"
| "error_code (AppContentConflict _) = FcContentConflict"
| "error_code (AppThoughtLocked _) = FcThoughtLocked"
| "error_code (RevisionConflict _) = FcInvalidState"
| "error_code (HistoryDependency _) = FcInvalidState"
| "error_code NoncontiguousSelection = FcInvalidState"
| "error_code AppInvalidState = FcInvalidState"
| "error_code AppSequenceExhausted = FcInvalidState"
| "error_code (AppDomain _) = FcInvariantViolation"

abbreviation domain :: "domain_error + 'a \<Rightarrow> app_error + 'a" where
  "domain r \<equiv> map_err AppDomain r"

section \<open>Browser operations\<close>

datatype browser_operation_kind = BrowserRename | BrowserTrash | BrowserRestore

datatype browser_mutation =
    BrowserSetName session_id "rstr option" "rstr option"
  | BrowserSetDeletedAt session_id "timestamp option" "timestamp option" timestamp timestamp

record browser_operation =
  br_id :: operation_id
  br_kind :: browser_operation_kind
  br_forward :: browser_mutation
  br_inverse :: browser_mutation
  br_created_at :: timestamp

definition browser_rename ::
  "operation_id \<Rightarrow> session_id \<Rightarrow> rstr option \<Rightarrow> rstr option \<Rightarrow> timestamp \<Rightarrow> domain_error + browser_operation" where
  "browser_rename i s before after at =
     try_bind (validate_optional_name before) (\<lambda>_.
     try_bind (validate_optional_name after) (\<lambda>_.
       if before = after then Inl InvalidBrowserOperation
       else Inr \<lparr>br_id = i, br_kind = BrowserRename, br_forward = BrowserSetName s before after,
                 br_inverse = BrowserSetName s after before, br_created_at = at\<rparr>))"

section \<open>State\<close>

datatype interaction_mode = BoardMode | Compose | Edit thought_id

datatype durability_state =
    Durable operation_sequence
  | Pending operation_sequence operation_sequence
  | Failed operation_sequence operation_sequence failure_code

datatype clipboard_intent = Copy | CutIntent | CopySessionId | CopyResumeCommand

record clipboard_source =
  cs_thought_id :: thought_id
  cs_content :: rstr
  cs_annotations :: "content_annotation list"

definition capture_source :: "thought \<Rightarrow> clipboard_source" where
  "capture_source t = \<lparr>cs_thought_id = t_id t, cs_content = t_content t, cs_annotations = t_annotations t\<rparr>"

definition still_matches :: "clipboard_source \<Rightarrow> thought \<Rightarrow> bool" where
  "still_matches c t \<longleftrightarrow> t_is_live t \<and> t_content t = cs_content c \<and> t_annotations t = cs_annotations c"

record pending_clipboard =
  pc_sources :: "clipboard_source list"
  pc_intent :: clipboard_intent
  pc_operation_id :: "operation_id option"
  pc_at :: timestamp

record editor_history =
  eh_revisions :: "thought_revision list"
  eh_cursor :: nat

definition empty_history :: editor_history where
  "empty_history = \<lparr>eh_revisions = [], eh_cursor = 0\<rparr>"

record app_state =
  board :: session_board
  mode :: interaction_mode
  focused_item :: "board_item_id option"
  insertion_index :: nat
  durability :: durability_state
  attachments :: attachment_state
  board_history :: "board_operation list"
  board_history_cursor :: nat
  editor_histories :: "(thought_id, editor_history) mapping"
  pending_clipboards :: "(request_id, pending_clipboard) mapping"
  locked_thoughts :: "thought_id set"
  pending_sequences :: "operation_sequence set"
  deferred_board_operations :: "(operation_sequence, board_operation) mapping"
  highest_sequence :: operation_sequence

datatype history_resolution =
    Ready undo_scope
  | EmptyHistory
  | BlockedByEditor thought_id
  | BlockedByBoard thought_id

datatype empty_board_transition = Preserve | ComposeAfterLocalRemoval

definition first_item :: "session_board \<Rightarrow> board_item_id option" where
  "first_item b = map_option item_id (nth_opt (live_items b) 0)"

definition app_new :: "session_board \<Rightarrow> app_state" where
  "app_new b =
     \<lparr>board = b, mode = (if first_item b \<noteq> None then BoardMode else Compose), focused_item = first_item b,
      insertion_index = length (live_items b),
      durability = Durable (last_durable_sequence (b_session b)), attachments = attachment_default,
      board_history = [], board_history_cursor = 0, editor_histories = Mapping.empty,
      pending_clipboards = Mapping.empty, locked_thoughts = {}, pending_sequences = {},
      deferred_board_operations = Mapping.empty,
      highest_sequence = last_durable_sequence (b_session b)\<rparr>"

definition editor_history_cursor :: "app_state \<Rightarrow> thought_id \<Rightarrow> nat" where
  "editor_history_cursor s i = (case Mapping.lookup (editor_histories s) i of None \<Rightarrow> 0 | Some h \<Rightarrow> eh_cursor h)"

definition next_sequence :: "app_state \<Rightarrow> app_error + operation_sequence" where
  "next_sequence s =
     (if \<not> Mapping.is_empty (deferred_board_operations s) then Inl AppInvalidState
      else ok_or AppSequenceExhausted (checked_next (highest_sequence s)))"

definition last_sequence :: "operation_sequence set \<Rightarrow> operation_sequence option" where
  "last_sequence q = (if q = {} then None else Some (Max q))"

definition first_sequence :: "operation_sequence set \<Rightarrow> operation_sequence option" where
  "first_sequence q = (if q = {} then None else Some (Min q))"

definition refresh_durability :: "app_state \<Rightarrow> app_state" where
  "refresh_durability s =
     (let durable = last_durable_sequence (b_session (board s));
          failing = (case durability s of Failed _ failed _ \<Rightarrow> failed \<in> pending_sequences s | _ \<Rightarrow> False)
      in if failing then s
         else s\<lparr>durability := (case last_sequence (pending_sequences s) of
                  None \<Rightarrow> Durable durable | Some latest \<Rightarrow> Pending durable latest)\<rparr>)"

definition track_pending :: "operation_sequence \<Rightarrow> app_state \<Rightarrow> app_state" where
  "track_pending sequence s =
     refresh_durability (s\<lparr>highest_sequence := sequence, pending_sequences := insert sequence (pending_sequences s)\<rparr>)"

definition live_thought :: "app_state \<Rightarrow> thought_id \<Rightarrow> app_error + thought" where
  "live_thought s i = ok_or (AppThoughtNotFound i) (filter_opt t_is_live (thought_of (board s) i))"

definition thought_locked :: "app_state \<Rightarrow> thought_id \<Rightarrow> bool" where
  "thought_locked s i \<longleftrightarrow> i \<in> locked_thoughts s"

definition keep_focus_valid :: "app_state \<Rightarrow> app_state" where
  "keep_focus_valid s =
     (let s1 = s\<lparr>insertion_index := min (insertion_index s) (length (live_items (board s)))\<rparr>;
          valid = (case focused_item s1 of None \<Rightarrow> False | Some i \<Rightarrow> item_position_of (board s1) i \<noteq> None)
      in if valid then s1
         else s1\<lparr>focused_item := first_item (board s1),
                mode := (case mode s1 of Edit _ \<Rightarrow> BoardMode | m \<Rightarrow> m)\<rparr>)"

definition push_board_history :: "board_operation \<Rightarrow> app_state \<Rightarrow> app_state" where
  "push_board_history operation s =
     s\<lparr>board_history := take (board_history_cursor s) (board_history s) @ [operation],
       board_history_cursor := board_history_cursor s + 1\<rparr>"

definition record_board_operation :: "board_operation \<Rightarrow> app_state \<Rightarrow> (app_error, unit, app_state) outcome" where
  "record_board_operation operation s =
     try_st (domain (apply_mutation (board s) (op_forward operation) (op_created_at operation))) s (\<lambda>b.
       (Inr (), keep_focus_valid (track_pending (op_sequence operation)
          (push_board_history operation (s\<lparr>board := b\<rparr>)))))"

definition stage_board_operation :: "board_operation \<Rightarrow> app_state \<Rightarrow> (app_error, unit, app_state) outcome" where
  "stage_board_operation operation s =
     try_st (next_sequence s) s (\<lambda>sequence.
       if op_sequence operation \<noteq> sequence then (Inl AppInvalidState, s)
       else (let s1 = track_pending (op_sequence operation) s in
         (Inr (), s1\<lparr>deferred_board_operations :=
            Mapping.update (op_sequence operation) operation (deferred_board_operations s1)\<rparr>)))"

definition commit_deferred_board_operation ::
  "operation_sequence \<Rightarrow> app_state \<Rightarrow> (app_error, unit, app_state) outcome" where
  "commit_deferred_board_operation sequence s =
     (case Mapping.lookup (deferred_board_operations s) sequence of
        None \<Rightarrow> (Inr (), s)
      | Some operation \<Rightarrow>
          try_st (domain (apply_mutation (board s) (op_forward operation) (op_created_at operation))) s (\<lambda>b.
            (let s1 = push_board_history operation (s\<lparr>board := b\<rparr>) in
             (Inr (), keep_focus_valid (s1\<lparr>deferred_board_operations :=
                Mapping.delete sequence (deferred_board_operations s1)\<rparr>)))))"

definition apply_durable_capture :: "board_operation \<Rightarrow> app_state \<Rightarrow> (app_error, unit, app_state) outcome" where
  "apply_durable_capture operation s =
     try_st (next_sequence s) s (\<lambda>sequence.
       if op_sequence operation \<noteq> sequence then (Inl AppInvalidState, s)
       else try_st (domain (apply_mutation (board s) (op_forward operation) (op_created_at operation))) s (\<lambda>b.
         (let b' = b\<lparr>b_session := (b_session b)\<lparr>last_durable_sequence := op_sequence operation\<rparr>\<rparr> in
          (Inr (), keep_focus_valid (refresh_durability
             ((push_board_history operation (s\<lparr>board := b'\<rparr>))\<lparr>highest_sequence := op_sequence operation\<rparr>))))))"

definition truncate_conflicting_board_redo :: "thought_id \<Rightarrow> app_state \<Rightarrow> app_state" where
  "truncate_conflicting_board_redo i s =
     (case index_of (\<lambda>operation. addresses i (op_forward operation) \<or> addresses i (op_inverse operation))
             (drop (board_history_cursor s) (board_history s)) of
        None \<Rightarrow> s
      | Some offset \<Rightarrow> s\<lparr>board_history := take (board_history_cursor s + offset) (board_history s)\<rparr>)"

definition reconcile_empty_board :: "empty_board_transition \<Rightarrow> app_state \<Rightarrow> app_state" where
  "reconcile_empty_board transition s =
     (if transition = ComposeAfterLocalRemoval \<and> live_items (board s) = []
      then s\<lparr>mode := Compose, focused_item := None, insertion_index := 0\<rparr> else s)"

definition focused_thought_id :: "app_state \<Rightarrow> thought_id option" where
  "focused_thought_id s = Option.bind (focused_item s) item_thought_id"

definition pending_board_cut_count :: "app_state \<Rightarrow> nat" where
  "pending_board_cut_count s =
     card {r \<in> Mapping.keys (pending_clipboards s).
       map_option pc_intent (Mapping.lookup (pending_clipboards s) r) = Some CutIntent}"

section \<open>Ordering of the history owners\<close>

definition checked_pred :: "nat \<Rightarrow> nat option" where
  "checked_pred n = (if n = 0 then None else Some (n - 1))"

definition board_operation_at :: "app_state \<Rightarrow> bool \<Rightarrow> board_operation option" where
  "board_operation_at s undo =
     (if undo then Option.bind (checked_pred (board_history_cursor s)) (nth_opt (board_history s))
      else nth_opt (board_history s) (board_history_cursor s))"

definition history_revision :: "editor_history \<Rightarrow> bool \<Rightarrow> thought_revision option" where
  "history_revision h undo =
     (if undo then Option.bind (checked_pred (eh_cursor h)) (nth_opt (eh_revisions h))
      else nth_opt (eh_revisions h) (eh_cursor h))"

definition editor_sequence :: "app_state \<Rightarrow> thought_id \<Rightarrow> bool \<Rightarrow> operation_sequence option" where
  "editor_sequence s i undo =
     Option.bind (Mapping.lookup (editor_histories s) i) (\<lambda>h. map_option rev_sequence (history_revision h undo))"

definition board_precedes_editor :: "operation_sequence \<Rightarrow> operation_sequence option \<Rightarrow> bool \<Rightarrow> bool" where
  "board_precedes_editor b editor undo =
     (case editor of None \<Rightarrow> True | Some e \<Rightarrow> if undo then b > e else b < e)"

definition editor_precedes_board :: "operation_sequence \<Rightarrow> operation_sequence \<Rightarrow> bool \<Rightarrow> bool" where
  "editor_precedes_board e b undo = (if undo then e > b else e < b)"

definition board_dependency_blocker :: "app_state \<Rightarrow> board_operation \<Rightarrow> bool \<Rightarrow> thought_id option" where
  "board_dependency_blocker s operation undo =
     List.find (\<lambda>i. case editor_sequence s i undo of None \<Rightarrow> False
        | Some e \<Rightarrow> editor_precedes_board e (op_sequence operation) undo) (content_thought_ids operation)"

definition editor_endpoint_matches :: "app_state \<Rightarrow> thought_id \<Rightarrow> bool \<Rightarrow> bool" where
  "editor_endpoint_matches s i undo =
     (case Option.bind (Mapping.lookup (editor_histories s) i) (\<lambda>h. history_revision h undo) of
        None \<Rightarrow> False
      | Some revision \<Rightarrow>
          (case filter_opt t_is_live (thought_of (board s) i) of
             None \<Rightarrow> False
           | Some current \<Rightarrow>
               if undo then t_content current = after_content revision \<and> t_annotations current = after_annotations revision
               else t_content current = before_content revision \<and> t_annotations current = before_annotations revision))"

definition board_resolution :: "app_state \<Rightarrow> board_operation \<Rightarrow> bool \<Rightarrow> history_resolution" where
  "board_resolution s operation undo =
     (case board_dependency_blocker s operation undo of None \<Rightarrow> Ready BoardScope | Some i \<Rightarrow> BlockedByEditor i)"

definition resolve_board_operation :: "app_state \<Rightarrow> bool \<Rightarrow> history_resolution" where
  "resolve_board_operation s undo =
     (case board_operation_at s undo of None \<Rightarrow> EmptyHistory | Some operation \<Rightarrow> board_resolution s operation undo)"

definition resolve_compose_redo :: "app_state \<Rightarrow> bool \<Rightarrow> history_resolution" where
  "resolve_compose_redo s undo =
     (case (if undo then None else filter_opt (\<lambda>operation. compose_handoff operation \<noteq> None) (board_operation_at s False)) of
        None \<Rightarrow> EmptyHistory | Some operation \<Rightarrow> board_resolution s operation False)"

definition resolve_edit_operation :: "app_state \<Rightarrow> thought_id \<Rightarrow> bool \<Rightarrow> history_resolution" where
  "resolve_edit_operation s i undo =
     (let editor = editor_sequence s i undo;
          structural = filter_opt (\<lambda>operation. belongs_to_thought_content (op_kind operation)
             \<and> addresses_thought operation i) (board_operation_at s undo)
      in case filter_opt (\<lambda>operation. board_precedes_editor (op_sequence operation) editor undo) structural of
           Some operation \<Rightarrow> board_resolution s operation undo
         | None \<Rightarrow>
             if editor = None then EmptyHistory
             else if editor_endpoint_matches s i undo then Ready (EditorScope i)
             else BlockedByBoard i)"

fun history_resolution_for :: "app_state \<Rightarrow> interaction_mode \<Rightarrow> bool \<Rightarrow> history_resolution" where
  "history_resolution_for s BoardMode undo = resolve_board_operation s undo"
| "history_resolution_for s Compose undo = resolve_compose_redo s undo"
| "history_resolution_for s (Edit i) undo = resolve_edit_operation s i undo"

definition history_scope :: "app_state \<Rightarrow> interaction_mode \<Rightarrow> bool \<Rightarrow> undo_scope option" where
  "history_scope s m undo = (case history_resolution_for s m undo of Ready scope \<Rightarrow> Some scope | _ \<Rightarrow> None)"

definition preferred_history_scope :: "app_state \<Rightarrow> interaction_mode \<Rightarrow> bool \<Rightarrow> undo_scope" where
  "preferred_history_scope s m undo =
     (case history_resolution_for s m undo of
        Ready scope \<Rightarrow> scope
      | BlockedByEditor i \<Rightarrow> EditorScope i
      | BlockedByBoard i \<Rightarrow> EditorScope i
      | EmptyHistory \<Rightarrow> (case m of Edit i \<Rightarrow> EditorScope i | _ \<Rightarrow> BoardScope))"

fun ensure_history_scope_ready :: "app_state \<Rightarrow> undo_scope \<Rightarrow> bool \<Rightarrow> app_error + unit" where
  "ensure_history_scope_ready s BoardScope undo =
     try_bind (ok_or AppInvalidState (board_operation_at s undo)) (\<lambda>operation.
       case board_dependency_blocker s operation undo of None \<Rightarrow> Inr () | Some i \<Rightarrow> Inl (HistoryDependency i))"
| "ensure_history_scope_ready s (EditorScope i) undo =
     try_bind (ok_or AppInvalidState (editor_sequence s i undo)) (\<lambda>editor.
       if (case board_operation_at s undo of None \<Rightarrow> False
           | Some operation \<Rightarrow> belongs_to_thought_content (op_kind operation) \<and> addresses_thought operation i
               \<and> board_precedes_editor (op_sequence operation) (Some editor) undo)
       then Inl (HistoryDependency i) else Inr ())"

definition applied_compose_handoff :: "app_state \<Rightarrow> thought_id \<Rightarrow> (text_position \<times> text_position option) option" where
  "applied_compose_handoff s i =
     Option.bind (find_map compose_handoff (rev (take (board_history_cursor s) (board_history s))))
       (\<lambda>(j, cursor, anchor). if j = i then Some (cursor, anchor) else None)"

definition restored_editor_state :: "app_state \<Rightarrow> thought_id \<Rightarrow> (text_position \<times> text_position option) option" where
  "restored_editor_state s i =
     (case Option.bind (Mapping.lookup (editor_histories s) i) (\<lambda>h.
          if eh_cursor h = 0
          then map_option (\<lambda>r. (before_cursor r, before_selection_anchor r)) (nth_opt (eh_revisions h) 0)
          else map_option (\<lambda>r. (after_cursor r, after_selection_anchor r)) (nth_opt (eh_revisions h) (eh_cursor h - 1))) of
        Some restored \<Rightarrow> Some restored
      | None \<Rightarrow> applied_compose_handoff s i)"

end
