(* ===== verification/Rust_Path.thy ===== *)
theory Rust_Path
  imports Board_Model
begin

text \<open>
  The part of \<open>std::path::Path\<close> the program uses on a Unix host. A path is its bytes;
  \<open>path_to_str\<close> is \<open>Path::to_str\<close>, which succeeds exactly on well-formed UTF-8 (no overlong form, no
  surrogate, nothing above U+10FFFF), and \<open>file_name\<close> is the last component, ignoring empty and \<open>.\<close>
  components and refusing \<open>..\<close> and the root.
\<close>

section \<open>UTF-8\<close>

definition is_scalar :: "nat \<Rightarrow> bool" where
  "is_scalar c \<longleftrightarrow> c < 0xd800 \<or> (0xdfff < c \<and> c < 0x110000)"

definition utf8_char :: "nat \<Rightarrow> nat list" where
  "utf8_char c =
     (if c < 0x80 then [c]
      else if c < 0x800 then [0xc0 + c div 64, 0x80 + c mod 64]
      else if c < 0x10000 then [0xe0 + c div 4096, 0x80 + c div 64 mod 64, 0x80 + c mod 64]
      else [0xf0 + c div 262144, 0x80 + c div 4096 mod 64, 0x80 + c div 64 mod 64, 0x80 + c mod 64])"

definition utf8_encode :: "rstr \<Rightarrow> nat list" where
  "utf8_encode s = concat (map utf8_char s)"

definition is_cont :: "nat \<Rightarrow> bool" where
  "is_cont b \<longleftrightarrow> 0x80 \<le> b \<and> b < 0xc0"

definition keep_char :: "bool \<Rightarrow> nat \<Rightarrow> rstr option \<Rightarrow> rstr option" where
  "keep_char ok c rest = (if ok then map_option (Cons c) rest else None)"

fun utf8_decode :: "nat list \<Rightarrow> rstr option" where
  "utf8_decode [] = Some []"
| "utf8_decode (b0 # bs) =
     (if b0 < 0x80 then map_option (Cons b0) (utf8_decode bs)
      else if b0 < 0xc0 then None
      else if b0 < 0xe0 then
        (case bs of
           b1 # rest \<Rightarrow>
             (let c = (b0 - 0xc0) * 64 + (b1 - 0x80) in keep_char (is_cont b1 \<and> 0x80 \<le> c) c (utf8_decode rest))
         | _ \<Rightarrow> None)
      else if b0 < 0xf0 then
        (case bs of
           b1 # b2 # rest \<Rightarrow>
             (let c = (b0 - 0xe0) * 4096 + (b1 - 0x80) * 64 + (b2 - 0x80) in
              keep_char (is_cont b1 \<and> is_cont b2 \<and> 0x800 \<le> c \<and> is_scalar c) c (utf8_decode rest))
         | _ \<Rightarrow> None)
      else
        (case bs of
           b1 # b2 # b3 # rest \<Rightarrow>
             (let c = (b0 - 0xf0) * 262144 + (b1 - 0x80) * 4096 + (b2 - 0x80) * 64 + (b3 - 0x80) in
              keep_char (is_cont b1 \<and> is_cont b2 \<and> is_cont b3 \<and> 0x10000 \<le> c \<and> is_scalar c) c (utf8_decode rest))
         | _ \<Rightarrow> None))"

definition path_to_str :: "path \<Rightarrow> rstr option" where
  "path_to_str p = utf8_decode (map unat p)"

section \<open>Components\<close>

fun split_on :: "'a \<Rightarrow> 'a list \<Rightarrow> 'a list list" where
  "split_on sep [] = [[]]"
| "split_on sep (x # xs) =
     (if x = sep then [] # split_on sep xs
      else (case split_on sep xs of [] \<Rightarrow> [[x]] | c # cs \<Rightarrow> (x # c) # cs))"

definition components :: "path \<Rightarrow> path list" where
  "components p = filter (\<lambda>c. c \<noteq> [] \<and> c \<noteq> [0x2e]) (split_on 0x2f p)"

definition file_name :: "path \<Rightarrow> path option" where
  "file_name p =
     (let cs = components p in if cs = [] \<or> last cs = [0x2e, 0x2e] then None else Some (last cs))"

section \<open>Decoding inverts encoding\<close>

lemma utf8_char_length: "length (utf8_char c) = utf8_len c"
  by (simp add: utf8_char_def utf8_len_def)

lemma utf8_encode_length: "length (utf8_encode s) = str_len s"
  by (induction s) (simp_all add: utf8_encode_def str_len_def utf8_char_length)

lemma base64_digits:
  "c div 4096 * 4096 + c div 64 mod 64 * 64 + c mod 64 = (c :: nat)"
  "c div 262144 * 262144 + c div 4096 mod 64 * 4096 + c div 64 mod 64 * 64 + c mod 64 = c"
proof -
  have e: "c div 4096 = c div 64 div 64" "c div 262144 = c div 4096 div 64" by (simp_all add: div_mult2_eq [symmetric])
  have a: "c div 64 * 64 + c mod 64 = c" "c div 64 div 64 * 64 + c div 64 mod 64 = c div 64"
    "c div 4096 div 64 * 64 + c div 4096 mod 64 = c div 4096" by (rule div_mult_mod_eq)+
  show one: "c div 4096 * 4096 + c div 64 mod 64 * 64 + c mod 64 = c" using e(1) a(1,2) by linarith
  show "c div 262144 * 262144 + c div 4096 mod 64 * 4096 + c div 64 mod 64 * 64 + c mod 64 = c"
    using e(2) a(3) one by linarith
qed

lemma utf8_decode_char:
  assumes "is_scalar c"
  shows "utf8_decode (utf8_char c @ bs) = map_option (Cons c) (utf8_decode bs)"
proof -
  consider "c < 0x80" | "0x80 \<le> c" "c < 0x800" | "0x800 \<le> c" "c < 0x10000" | "0x10000 \<le> c" by linarith
  then show ?thesis
  proof cases
    case 1
    then show ?thesis by (simp add: utf8_char_def)
  next
    case 2
    have "c div 64 * 64 + c mod 64 = c" "c div 64 < 32" using 2 by auto
    then show ?thesis using 2 by (simp add: utf8_char_def keep_char_def is_cont_def Let_def)
  next
    case 3
    note base64_digits(1) [of c]
    moreover have "c div 4096 < 16" using 3 by auto
    ultimately show ?thesis using 3 assms by (simp add: utf8_char_def keep_char_def is_cont_def Let_def)
  next
    case 4
    show ?thesis using 4 assms base64_digits(2) [of c] by (simp add: utf8_char_def keep_char_def is_cont_def Let_def)
  qed
qed

lemma utf8_decode_encode: "list_all is_scalar s \<Longrightarrow> utf8_decode (utf8_encode s) = Some s"
  by (induction s) (simp_all add: utf8_encode_def utf8_decode_char)

end
