(* ===== verification/App_Mutations.thy ===== *)
theory App_Mutations
  imports App_Model Rust_Path
begin

text \<open>
  The mutation handlers of the reducer lane (\<open>src/application/mutations.rs\<close> and
  \<open>src/application/mutations/*.rs\<close>, \<open>src/application/reorder.rs\<close>, the copy text of
  \<open>src/application/prompt.rs\<close> and the file reference of \<open>src/application/capture.rs\<close>).

  A handler takes the state and returns its ordered effects or an error together with the state it
  leaves. Where the source builds one operation before it touches the state, the part that builds
  the operation is a definition of its own (\<open>build_\<dots>\<close>): the handler records that operation and then
  sets focus, mode and insertion point. \<open>effect\<close> has the constructors of \<open>Effect\<close> that the reducer
  emits; the others belong to the terminal shell.
\<close>

section \<open>Effects\<close>

datatype effect =
    CheckAttachments attachment_check_batch
  | CommitBrowserOperation browser_operation
  | CommitBoardOperation board_operation
  | CommitThoughtNoOpRename operation_id session_id thought_id "thought_name option" operation_sequence timestamp
  | CommitRevision thought_revision
  | CommitHistoryMove operation_id session_id undo_scope bool operation_sequence timestamp
  | WriteClipboard request_id "thought_id option" clipboard_intent rstr "content_annotation list"
  | Notify failure_code
  | RetryPersistenceEffect operation_sequence

type_synonym handler = "app_state \<Rightarrow> (app_error, effect list, app_state) outcome"

definition position_u32 :: "nat \<Rightarrow> app_error + u32" where
  "position_u32 value =
     (if value \<le> 4294967295 then Inr (of_nat value) else Inl (AppDomain (InvalidPosition value 4294967295)))"

lemma position_u32_code [code]:
  "position_u32 value =
     (if int value \<le> 4294967295 then Inr (of_nat value) else Inl (AppDomain (InvalidPosition value 4294967295)))"
  unfolding position_u32_def by (rule if_cong) (linarith, simp_all)

text \<open>Recording an operation that was built, with what the handler does to the state afterwards.\<close>

definition commit_operation :: "app_error + board_operation \<Rightarrow> (board_operation \<Rightarrow> app_state \<Rightarrow> app_state) \<Rightarrow> handler" where
  "commit_operation built after s =
     try_st built s (\<lambda>operation.
     then_st (record_board_operation operation s) (\<lambda>_ s.
       (Inr [CommitBoardOperation operation], after operation s)))"

section \<open>Creation and editing\<close>

definition build_create ::
  "thought_id \<Rightarrow> operation_id \<Rightarrow> rstr \<Rightarrow> content_annotation list \<Rightarrow> nat
    \<Rightarrow> (text_position \<times> text_position option) option \<Rightarrow> bool \<Rightarrow> thought_name option \<Rightarrow> timestamp
    \<Rightarrow> app_state \<Rightarrow> app_error + board_operation" where
  "build_create i oid content annotations index handoff preserve_owned name at s =
     try_bind (next_sequence s) (\<lambda>sequence.
     try_bind (domain (validate_annotations content annotations)) (\<lambda>_.
     (let annotations = (if preserve_owned then annotations else renew_attachment_occurrences annotations) in
      try_bind (domain (assign (b_counters (board s)) annotations)) (\<lambda>(annotations, _).
      try_bind (position_u32 index) (\<lambda>position.
      try_bind (domain (set_annotations (thought_new i (ses_id (b_session (board s))) content position at) annotations)) (\<lambda>t.
      (let t = t\<lparr>t_name := name\<rparr> in
       Inr \<lparr>op_id = oid, op_session_id = ses_id (b_session (board s)), op_sequence = sequence, op_kind = Create,
            op_forward = (case handoff of None \<Rightarrow> AddThought t
                          | Some (cursor, anchor) \<Rightarrow> AddThoughtFromCompose t cursor anchor),
            op_inverse = SetDeletion i (Some at) (t_position t), op_created_at = at\<rparr>)))))))"

definition create_thought_with_handoff ::
  "thought_id \<Rightarrow> operation_id \<Rightarrow> rstr \<Rightarrow> content_annotation list \<Rightarrow> nat
    \<Rightarrow> (text_position \<times> text_position option) option \<Rightarrow> bool \<Rightarrow> thought_name option \<Rightarrow> timestamp \<Rightarrow> handler" where
  "create_thought_with_handoff i oid content annotations index handoff preserve_owned name at s =
     commit_operation (build_create i oid content annotations index handoff preserve_owned name at s)
       (\<lambda>_ s. s\<lparr>focused_item := Some (ThoughtItem i), mode := Edit i, insertion_index := index + 1\<rparr>) s"

definition create_thought ::
  "thought_id \<Rightarrow> operation_id \<Rightarrow> rstr \<Rightarrow> content_annotation list \<Rightarrow> nat \<Rightarrow> timestamp \<Rightarrow> handler" where
  "create_thought i oid content annotations index at =
     create_thought_with_handoff i oid content annotations index None False None at"

definition create_compose_thought ::
  "thought_id \<Rightarrow> operation_id \<Rightarrow> rstr \<Rightarrow> content_annotation list \<Rightarrow> text_position \<Rightarrow> text_position option \<Rightarrow> bool
    \<Rightarrow> timestamp \<Rightarrow> handler" where
  "create_compose_thought i oid content annotations cursor anchor preserve_owned at s =
     create_thought_with_handoff i oid content annotations (insertion_index s) (Some (cursor, anchor))
       preserve_owned None at s"

fun is_attachment :: "annotation_kind \<Rightarrow> bool" where
  "is_attachment (Attachment _ _ _) = True"
| "is_attachment _ = False"

definition renew_inserted :: "content_annotation list \<Rightarrow> content_annotation list \<Rightarrow> content_annotation list" where
  "renew_inserted before annotations =
     concat (map (\<lambda>a. if is_attachment (ann_kind a) \<and> \<not> list_ex (\<lambda>x. ann_kind x = ann_kind a) before
                      then renew_attachment_occurrences [a] else [a]) annotations)"

definition history_or_default :: "app_state \<Rightarrow> thought_id \<Rightarrow> editor_history" where
  "history_or_default s i = (case Mapping.lookup (editor_histories s) i of None \<Rightarrow> empty_history | Some h \<Rightarrow> h)"

definition push_revision :: "thought_revision \<Rightarrow> editor_history \<Rightarrow> editor_history" where
  "push_revision r h = \<lparr>eh_revisions = take (eh_cursor h) (eh_revisions h) @ [r], eh_cursor = eh_cursor h + 1\<rparr>"

definition edit_thought ::
  "thought_id \<Rightarrow> revision_id \<Rightarrow> rstr \<Rightarrow> rstr \<Rightarrow> content_annotation list \<Rightarrow> content_annotation list
    \<Rightarrow> text_position \<Rightarrow> text_position option \<Rightarrow> text_position \<Rightarrow> text_position option \<Rightarrow> timestamp \<Rightarrow> handler" where
  "edit_thought i rid bc ac ba aa bcur banchor acur aanchor at s =
     try_st (live_thought s i) s (\<lambda>current.
     if t_content current \<noteq> bc \<or> t_annotations current \<noteq> ba then (Inl (RevisionConflict i), s)
     else try_st (domain (validate_annotations ac aa)) s (\<lambda>_.
     if bc = ac \<and> ba = aa then (Inr [], s)
     else try_st (domain (assign (b_counters (board s)) (renew_inserted ba aa))) s (\<lambda>(aa, _).
     try_st (next_sequence s) s (\<lambda>sequence.
     (let revision = \<lparr>rev_id = rid, rev_session_id = ses_id (b_session (board s)), rev_thought_id = i,
            rev_sequence = sequence, before_content = bc, after_content = ac, before_annotations = ba,
            after_annotations = aa, before_cursor = bcur, before_selection_anchor = banchor,
            after_cursor = acur, after_selection_anchor = aanchor, rev_created_at = at\<rparr> in
      try_st (ok_or (AppThoughtNotFound i) (thought_of (board s) i)) s (\<lambda>_.
      try_st (domain (observe_attachments (thought_mut (board s) i
        (\<lambda>t. t\<lparr>t_content := ac, t_annotations := aa, t_updated_at := at\<rparr>)))) s (\<lambda>b.
      try_st (domain (validate b)) s (\<lambda>_.
      (let s1 = truncate_conflicting_board_redo i (s\<lparr>board := b\<rparr>);
           s2 = s1\<lparr>editor_histories :=
             Mapping.update i (push_revision revision (history_or_default s1 i)) (editor_histories s1)\<rparr>
       in (Inr [CommitRevision revision], track_pending sequence s2)))))))))) "

section \<open>Deletion\<close>

definition removal_kind :: "board_operation_kind \<Rightarrow> bool" where
  "removal_kind kind \<longleftrightarrow> kind \<in> {Delete, Cut, SubmitAndRemove, TransferAndRemove, ExportAndRemove}"

definition build_delete_thought_operation ::
  "app_state \<Rightarrow> operation_id \<Rightarrow> thought_id \<Rightarrow> board_operation_kind \<Rightarrow> timestamp \<Rightarrow> app_error + board_operation" where
  "build_delete_thought_operation s oid i kind at =
     (if \<not> removal_kind kind then Inl AppInvalidState
      else try_bind (live_thought s i) (\<lambda>t.
      try_bind (next_sequence s) (\<lambda>sequence.
        Inr \<lparr>op_id = oid, op_session_id = ses_id (b_session (board s)), op_sequence = sequence, op_kind = kind,
             op_forward = SetDeletion i (Some at) (t_position t),
             op_inverse = SetDeletion i None (t_position t), op_created_at = at\<rparr>)))"

text \<open>The focus that follows a removal at \<open>index\<close>: the item that took its place, else the one before it.\<close>

definition neighbour_focus :: "session_board \<Rightarrow> nat \<Rightarrow> board_item_id option" where
  "neighbour_focus b index =
     map_option item_id
       (case nth_opt (live_items b) index of
          Some item \<Rightarrow> Some item
        | None \<Rightarrow> Option.bind (checked_pred index) (nth_opt (live_items b)))"

definition delete_thought :: "operation_id \<Rightarrow> thought_id \<Rightarrow> board_operation_kind \<Rightarrow> timestamp \<Rightarrow> handler" where
  "delete_thought oid i kind at s =
     try_st (ok_or AppInvalidState (index_of (\<lambda>item. item_id item = ThoughtItem i) (live_items (board s)))) s (\<lambda>index.
       (let was_focused = (focused_item s = Some (ThoughtItem i)) in
        commit_operation (build_delete_thought_operation s oid i kind at)
          (\<lambda>_ s. if was_focused then s\<lparr>focused_item := neighbour_focus (board s) index\<rparr> else s) s))"

definition selected_thoughts :: "app_state \<Rightarrow> thought_id list \<Rightarrow> app_error + thought list" where
  "selected_thoughts s ids =
     (let selected = filter (\<lambda>t. t_id t \<in> set ids) (live_thoughts (board s)) in
      if length selected \<noteq> length ids \<or> selected = [] then Inl AppInvalidState else Inr selected)"

definition deletion :: "thought \<Rightarrow> timestamp option \<Rightarrow> board_mutation" where
  "deletion t deleted_at = SetDeletion (t_id t) deleted_at (t_position t)"

definition validate_deletion :: "thought_id list \<Rightarrow> board_operation_kind \<Rightarrow> app_error + unit" where
  "validate_deletion ids kind = (if ids = [] \<or> \<not> removal_kind kind then Inl AppInvalidState else Inr ())"

definition batch_operation ::
  "app_state \<Rightarrow> operation_id \<Rightarrow> board_operation_kind \<Rightarrow> board_mutation list \<Rightarrow> board_mutation list \<Rightarrow> timestamp
    \<Rightarrow> app_error + board_operation" where
  "batch_operation s oid kind forward backward at =
     try_bind (next_sequence s) (\<lambda>sequence.
       Inr \<lparr>op_id = oid, op_session_id = ses_id (b_session (board s)), op_sequence = sequence, op_kind = kind,
            op_forward = Batch forward, op_inverse = Batch backward, op_created_at = at\<rparr>)"

definition removal_batch ::
  "app_state \<Rightarrow> operation_id \<Rightarrow> thought list \<Rightarrow> board_operation_kind \<Rightarrow> timestamp \<Rightarrow> app_error + board_operation" where
  "removal_batch s oid selected kind at =
     batch_operation s oid kind (map (\<lambda>t. deletion t (Some at)) (rev selected))
       (map (\<lambda>t. deletion t None) selected) at"

definition delete_thoughts :: "operation_id \<Rightarrow> thought_id list \<Rightarrow> board_operation_kind \<Rightarrow> timestamp \<Rightarrow> handler" where
  "delete_thoughts oid ids kind at s =
     (case ids of
        [i] \<Rightarrow> delete_thought oid i kind at s
      | _ \<Rightarrow>
          try_st (validate_deletion ids kind) s (\<lambda>_.
          try_st (selected_thoughts s ids) s (\<lambda>selected.
            (let first_index = unat (t_position (hd selected));
                 focus_removed = (case focused_item s of None \<Rightarrow> False | Some f \<Rightarrow> list_ex (\<lambda>i. f = ThoughtItem i) ids)
             in commit_operation (removal_batch s oid selected kind at)
                  (\<lambda>_ s. if focus_removed then s\<lparr>focused_item := neighbour_focus (board s) first_index\<rparr> else s) s))))"

definition stage_submission_removal :: "operation_id \<Rightarrow> thought_id list \<Rightarrow> timestamp \<Rightarrow> handler" where
  "stage_submission_removal oid ids at s =
     (if list_ex (\<lambda>i. \<not> thought_locked s i) ids then (Inl AppInvalidState, s)
      else try_st
        (case ids of
           [i] \<Rightarrow> build_delete_thought_operation s oid i SubmitAndRemove at
         | _ \<Rightarrow>
             try_bind (validate_deletion ids SubmitAndRemove) (\<lambda>_.
             try_bind (selected_thoughts s ids) (\<lambda>selected. removal_batch s oid selected SubmitAndRemove at))) s (\<lambda>operation.
        then_st (stage_board_operation operation s) (\<lambda>_ s. (Inr [CommitBoardOperation operation], s))))"

fun item_deletion :: "board_item \<Rightarrow> timestamp option \<Rightarrow> board_mutation" where
  "item_deletion (ThoughtRef t) deleted_at = deletion t deleted_at"
| "item_deletion (SeparatorRef x) deleted_at = SetSeparatorDeletion (sep_id x) deleted_at (sep_position x)"

definition matches_exact_item_order :: "board_item list \<Rightarrow> board_item_id list \<Rightarrow> bool" where
  "matches_exact_item_order selected requested \<longleftrightarrow>
     length selected = length requested \<and> map item_id selected = requested"

definition delete_items :: "operation_id \<Rightarrow> board_item_id list \<Rightarrow> board_operation_kind \<Rightarrow> timestamp \<Rightarrow> handler" where
  "delete_items oid ids kind at s =
     (if ids = [] \<or> kind \<noteq> Delete then (Inl AppInvalidState, s)
      else (let selected = filter (\<lambda>item. item_id item \<in> set ids) (live_items (board s)) in
        if \<not> matches_exact_item_order selected ids then (Inl AppInvalidState, s)
        else try_st (ok_or AppInvalidState (map_option (\<lambda>item. unat (item_position item)) (nth_opt selected 0))) s (\<lambda>first_index.
          (let focus_removed = (case focused_item s of None \<Rightarrow> False | Some f \<Rightarrow> f \<in> set ids)
           in commit_operation
                (batch_operation s oid kind (map (\<lambda>item. item_deletion item (Some at)) (rev selected))
                   (map (\<lambda>item. item_deletion item None) selected) at)
                (\<lambda>_ s. if focus_removed then s\<lparr>focused_item := neighbour_focus (board s) first_index\<rparr> else s) s))))"

section \<open>Moves, presentation and names\<close>

definition build_move_thought ::
  "operation_id \<Rightarrow> thought_id \<Rightarrow> thought_position \<Rightarrow> thought_position \<Rightarrow> timestamp \<Rightarrow> app_state
    \<Rightarrow> app_error + board_operation" where
  "build_move_thought oid i from to at s =
     try_bind (next_sequence s) (\<lambda>sequence.
       Inr \<lparr>op_id = oid, op_session_id = ses_id (b_session (board s)), op_sequence = sequence, op_kind = Reorder,
            op_forward = MoveThought i from to, op_inverse = MoveThought i to from, op_created_at = at\<rparr>)"

definition app_move_thought :: "operation_id \<Rightarrow> thought_id \<Rightarrow> nat \<Rightarrow> timestamp \<Rightarrow> handler" where
  "app_move_thought oid i to at s =
     try_st (live_thought s i) s (\<lambda>t.
     try_st (position_u32 to) s (\<lambda>to.
       if t_position t = to then (Inr [], s)
       else commit_operation (build_move_thought oid i (t_position t) to at s) (\<lambda>_ s. s) s))"

definition build_presentation ::
  "operation_id \<Rightarrow> thought_id \<Rightarrow> thought_presentation \<Rightarrow> thought_presentation \<Rightarrow> timestamp \<Rightarrow> app_state
    \<Rightarrow> app_error + board_operation" where
  "build_presentation oid i previous presentation at s =
     try_bind (next_sequence s) (\<lambda>sequence.
       Inr \<lparr>op_id = oid, op_session_id = ses_id (b_session (board s)), op_sequence = sequence, op_kind = Collapse,
            op_forward = SetPresentation i presentation, op_inverse = SetPresentation i previous, op_created_at = at\<rparr>)"

definition app_set_presentation :: "operation_id \<Rightarrow> thought_id \<Rightarrow> thought_presentation \<Rightarrow> timestamp \<Rightarrow> handler" where
  "app_set_presentation oid i presentation at s =
     try_st (live_thought s i) s (\<lambda>t.
       if t_presentation t = presentation then (Inr [], s)
       else commit_operation (build_presentation oid i (t_presentation t) presentation at s) (\<lambda>_ s. s) s)"

definition build_rename ::
  "operation_id \<Rightarrow> thought_id \<Rightarrow> thought_name option \<Rightarrow> thought_name option \<Rightarrow> timestamp \<Rightarrow> app_state
    \<Rightarrow> app_error + board_operation" where
  "build_rename oid i previous name at s =
     try_bind (next_sequence s) (\<lambda>sequence.
       Inr \<lparr>op_id = oid, op_session_id = ses_id (b_session (board s)), op_sequence = sequence, op_kind = Rename,
            op_forward = SetName i previous name, op_inverse = SetName i name previous, op_created_at = at\<rparr>)"

definition rename_thought :: "operation_id \<Rightarrow> thought_id \<Rightarrow> thought_name option \<Rightarrow> timestamp \<Rightarrow> handler" where
  "rename_thought oid i name at s =
     try_st (live_thought s i) s (\<lambda>t.
       if t_name t = name
       then try_st (next_sequence s) s (\<lambda>sequence.
         (let s1 = track_pending sequence s in
          (Inr [CommitThoughtNoOpRename oid (ses_id (b_session (board s1))) i name sequence at], s1)))
       else commit_operation (build_rename oid i (t_name t) name at s) (\<lambda>_ s. s) s)"

definition set_presentation_many ::
  "operation_id \<Rightarrow> thought_id list \<Rightarrow> thought_presentation \<Rightarrow> timestamp \<Rightarrow> handler" where
  "set_presentation_many oid ids presentation at s =
     (case ids of
        [i] \<Rightarrow> app_set_presentation oid i presentation at s
      | _ \<Rightarrow>
          try_st (selected_thoughts s ids) s (\<lambda>selected.
            (let changed = map (\<lambda>t. (t_id t, t_presentation t)) (filter (\<lambda>t. t_presentation t \<noteq> presentation) selected) in
             if changed = [] then (Inr [], s)
             else commit_operation (batch_operation s oid Collapse
                 (map (\<lambda>(i, _). SetPresentation i presentation) changed)
                 (map (\<lambda>(i, previous). SetPresentation i previous) changed) at) (\<lambda>_ s. s) s)))"

section \<open>Copies\<close>

record transfer_item =
  source_thought_id :: thought_id
  destination_thought_id :: thought_id
  ti_content :: rstr
  ti_annotations :: "content_annotation list"
  ti_name :: "thought_name option"

text \<open>The mutations of a batch are accumulated with the counters the numbering loop threads.\<close>

type_synonym copies = "attachment_counters \<times> board_mutation list \<times> board_mutation list"

definition transfer_one ::
  "session_id \<Rightarrow> nat \<Rightarrow> timestamp \<Rightarrow> copies \<Rightarrow> nat \<times> transfer_item \<Rightarrow> app_error + copies" where
  "transfer_one ses start at = (\<lambda>(counters, additions, removals) (index, item).
     try_bind (domain (validate_annotations (ti_content item) (ti_annotations item))) (\<lambda>_.
     try_bind (domain (assign counters (renew_attachment_occurrences (ti_annotations item)))) (\<lambda>(annotations, counters).
     try_bind (position_u32 (start + index)) (\<lambda>position.
     try_bind (domain (set_annotations
        (thought_new (destination_thought_id item) ses (ti_content item) position at) annotations)) (\<lambda>t.
       Inr (counters, additions @ [AddThought (t\<lparr>t_name := ti_name item\<rparr>)],
            removals @ [SetDeletion (destination_thought_id item) (Some at) position]))))))"

fun transfer_conflict :: "transfer_item list \<Rightarrow> transfer_item list \<Rightarrow> bool" where
  "transfer_conflict previous [] \<longleftrightarrow> False"
| "transfer_conflict previous (item # items) \<longleftrightarrow>
     source_thought_id item = destination_thought_id item
     \<or> list_ex (\<lambda>p. source_thought_id p = source_thought_id item
          \<or> destination_thought_id p = destination_thought_id item) previous
     \<or> transfer_conflict (previous @ [item]) items"

definition build_owned_thoughts ::
  "operation_id \<Rightarrow> transfer_item list \<Rightarrow> timestamp \<Rightarrow> app_state \<Rightarrow> app_error + board_operation" where
  "build_owned_thoughts oid items at s =
     (if items = [] \<or> transfer_conflict [] items then Inl AppInvalidState
      else try_bind (try_fold (transfer_one (ses_id (b_session (board s))) (length (live_items (board s))) at)
          (b_counters (board s), [], []) (enumerate 0 items)) (\<lambda>(_, additions, removals).
        batch_operation s oid Create additions (rev removals) at))"

definition create_owned_thoughts :: "operation_id \<Rightarrow> transfer_item list \<Rightarrow> timestamp \<Rightarrow> handler" where
  "create_owned_thoughts oid items at s = commit_operation (build_owned_thoughts oid items at s) (\<lambda>_ s. s) s"

definition duplicate_of ::
  "attachment_counters \<Rightarrow> thought \<Rightarrow> thought_id \<Rightarrow> nat \<Rightarrow> timestamp \<Rightarrow> app_error + (thought \<times> attachment_counters)" where
  "duplicate_of counters source i index at =
     try_bind (domain (assign counters (renew_attachment_occurrences (t_annotations source)))) (\<lambda>(annotations, counters).
     try_bind (position_u32 index) (\<lambda>position.
       Inr (source\<lparr>t_annotations := annotations, t_id := i, t_position := position, t_created_at := at,
              t_updated_at := at, t_deleted_at := None\<rparr>, counters)))"

definition duplicate_one ::
  "nat \<Rightarrow> timestamp \<Rightarrow> attachment_counters \<times> thought list \<Rightarrow> nat \<times> thought \<times> thought_id
    \<Rightarrow> app_error + attachment_counters \<times> thought list" where
  "duplicate_one insertion at = (\<lambda>(counters, duplicates) (offset, source, i).
     try_bind (duplicate_of counters source i (insertion + offset) at) (\<lambda>(t, counters).
       Inr (counters, duplicates @ [t])))"

definition build_duplicates ::
  "operation_id \<Rightarrow> thought_id list \<Rightarrow> thought_id list \<Rightarrow> timestamp \<Rightarrow> app_state \<Rightarrow> app_error + board_operation" where
  "build_duplicates oid ids duplicate_ids at s =
     (if length ids \<noteq> length duplicate_ids \<or> ids = [] then Inl AppInvalidState
      else try_bind (selected_thoughts s ids) (\<lambda>selected.
      (let insertion = unat (t_position (last selected)) + 1 in
       try_bind (try_fold (duplicate_one insertion at) (b_counters (board s), [])
          (enumerate 0 (zip selected duplicate_ids))) (\<lambda>(_, duplicates).
         batch_operation s oid Duplicate (map AddThought duplicates)
           (map (\<lambda>t. deletion t (Some at)) (rev duplicates)) at))))"

definition duplicate_thoughts :: "operation_id \<Rightarrow> thought_id list \<Rightarrow> thought_id list \<Rightarrow> timestamp \<Rightarrow> handler" where
  "duplicate_thoughts oid ids duplicate_ids at s =
     commit_operation (build_duplicates oid ids duplicate_ids at s)
       (\<lambda>_ s. s\<lparr>focused_item := map_option ThoughtItem (nth_opt duplicate_ids 0)\<rparr>) s"

definition duplicate_item ::
  "nat \<Rightarrow> timestamp \<Rightarrow> copies \<Rightarrow> nat \<times> board_item \<times> board_item_id \<Rightarrow> app_error + copies" where
  "duplicate_item insertion at = (\<lambda>(counters, forward, backward) (offset, source, duplicate_id).
     try_bind (position_u32 (insertion + offset)) (\<lambda>position.
       case (source, duplicate_id) of
         (ThoughtRef t, ThoughtItem i) \<Rightarrow>
           try_bind (duplicate_of counters t i (insertion + offset) at) (\<lambda>(d, counters).
             Inr (counters, forward @ [AddThought d], backward @ [deletion d (Some at)]))
       | (SeparatorRef x, SeparatorItem i) \<Rightarrow>
           Inr (counters, forward @ [AddSeparator (separator_new i (sep_session_id x) position at)],
                backward @ [SetSeparatorDeletion i (Some at) position])
       | _ \<Rightarrow> Inl AppInvalidState))"

definition build_duplicate_items ::
  "operation_id \<Rightarrow> board_item_id list \<Rightarrow> board_item_id list \<Rightarrow> timestamp \<Rightarrow> app_state \<Rightarrow> app_error + board_operation" where
  "build_duplicate_items oid ids duplicate_ids at s =
     (if length ids \<noteq> length duplicate_ids \<or> ids = [] then Inl AppInvalidState
      else (let selected = filter (\<lambda>item. item_id item \<in> set ids) (live_items (board s)) in
        if \<not> matches_exact_item_order selected ids then Inl AppInvalidState
        else (let insertion = unat (item_position (last selected)) + 1 in
          try_bind (try_fold (duplicate_item insertion at) (b_counters (board s), [], [])
             (enumerate 0 (zip selected duplicate_ids))) (\<lambda>(_, forward, backward).
            batch_operation s oid Duplicate forward (rev backward) at))))"

definition duplicate_items :: "operation_id \<Rightarrow> board_item_id list \<Rightarrow> board_item_id list \<Rightarrow> timestamp \<Rightarrow> handler" where
  "duplicate_items oid ids duplicate_ids at s =
     commit_operation (build_duplicate_items oid ids duplicate_ids at s)
       (\<lambda>_ s. s\<lparr>focused_item := nth_opt duplicate_ids 0\<rparr>) s"

section \<open>Separators and exchanges of selected runs\<close>

definition build_separator ::
  "separator_id \<Rightarrow> operation_id \<Rightarrow> nat \<Rightarrow> timestamp \<Rightarrow> app_state \<Rightarrow> app_error + board_operation" where
  "build_separator i oid index at s =
     (if index > length (live_items (board s)) then Inl AppInvalidState
      else try_bind (position_u32 index) (\<lambda>position.
      try_bind (next_sequence s) (\<lambda>sequence.
        Inr \<lparr>op_id = oid, op_session_id = ses_id (b_session (board s)), op_sequence = sequence,
             op_kind = InsertSeparator,
             op_forward = AddSeparator (separator_new i (ses_id (b_session (board s))) position at),
             op_inverse = SetSeparatorDeletion i (Some at) position, op_created_at = at\<rparr>)))"

definition insert_separator :: "separator_id \<Rightarrow> operation_id \<Rightarrow> nat \<Rightarrow> timestamp \<Rightarrow> handler" where
  "insert_separator i oid index at s =
     commit_operation (build_separator i oid index at s)
       (\<lambda>_ s. s\<lparr>focused_item := Some (SeparatorItem i), mode := BoardMode, insertion_index := index + 1\<rparr>) s"

definition build_move_separator ::
  "operation_id \<Rightarrow> separator_id \<Rightarrow> thought_position \<Rightarrow> thought_position \<Rightarrow> timestamp \<Rightarrow> app_state
    \<Rightarrow> app_error + board_operation" where
  "build_move_separator oid i from to at s =
     try_bind (next_sequence s) (\<lambda>sequence.
       Inr \<lparr>op_id = oid, op_session_id = ses_id (b_session (board s)), op_sequence = sequence, op_kind = Reorder,
            op_forward = MoveSeparator i from to, op_inverse = MoveSeparator i to from, op_created_at = at\<rparr>)"

definition move_item :: "operation_id \<Rightarrow> board_item_id \<Rightarrow> nat \<Rightarrow> timestamp \<Rightarrow> handler" where
  "move_item oid item to at s =
     (if to \<ge> length (live_items (board s)) then (Inl AppInvalidState, s)
      else case item of
        ThoughtItem i \<Rightarrow> app_move_thought oid i to at s
      | SeparatorItem i \<Rightarrow>
          try_st (ok_or AppInvalidState (item_position_of (board s) item)) s (\<lambda>from.
          try_st (position_u32 to) s (\<lambda>to.
            if from = to then (Inr [], s)
            else commit_operation (build_move_separator oid i from to at s) (\<lambda>_ s. s) s)))"

record move_step =
  step_item :: board_item_id
  step_from :: nat
  step_to :: nat

text \<open>The maximal selected runs of an order, as inclusive index ranges from \<open>cursor\<close> on.\<close>

function move_runs :: "board_item_id list \<Rightarrow> nat \<Rightarrow> board_item_id list \<Rightarrow> (nat \<times> nat) list" where
  "move_runs selected cursor [] = []"
| "move_runs selected cursor (x # xs) =
     (if x \<notin> set selected then move_runs selected (cursor + 1) xs
      else (let n = length (takeWhile (\<lambda>y. y \<in> set selected) xs) in
        (cursor, cursor + n) # move_runs selected (cursor + n + 1) (dropWhile (\<lambda>y. y \<in> set selected) xs)))"
  by pat_completeness auto
termination
  by (relation "measure (\<lambda>(_, _, xs). length xs)") (auto simp: less_Suc_eq_le length_dropWhile_le)

definition step_up :: "board_item_id list \<Rightarrow> nat \<times> nat \<Rightarrow> move_step option" where
  "step_up order_ids = (\<lambda>(start, end').
     if start > 0 then Some \<lparr>step_item = order_ids ! (start - 1), step_from = start - 1, step_to = end'\<rparr> else None)"

definition step_down :: "board_item_id list \<Rightarrow> nat \<times> nat \<Rightarrow> move_step option" where
  "step_down order_ids = (\<lambda>(start, end').
     if end' + 1 < length order_ids
     then Some \<lparr>step_item = order_ids ! (end' + 1), step_from = end' + 1, step_to = start\<rparr> else None)"

definition selected_move_steps ::
  "board_item_id list \<Rightarrow> board_item_id list \<Rightarrow> int \<Rightarrow> app_error + move_step list" where
  "selected_move_steps order_ids selected delta =
     (if length selected < 2 \<or> (delta \<noteq> -1 \<and> delta \<noteq> 1) then Inl AppInvalidState
      else if filter (\<lambda>i. i \<in> set selected) order_ids \<noteq> selected then Inl AppInvalidState
      else (let runs = move_runs selected 0 order_ids in
        if delta < 0 then Inr (List.map_filter (step_up order_ids) runs)
        else Inr (List.map_filter (step_down order_ids) (rev runs))))"

definition item_move :: "board_item_id \<Rightarrow> nat \<Rightarrow> nat \<Rightarrow> app_error + board_mutation" where
  "item_move item from to =
     try_bind (position_u32 from) (\<lambda>from.
     try_bind (position_u32 to) (\<lambda>to.
       Inr (case item of ThoughtItem i \<Rightarrow> MoveThought i from to | SeparatorItem i \<Rightarrow> MoveSeparator i from to)))"

definition build_moves ::
  "operation_id \<Rightarrow> move_step list \<Rightarrow> timestamp \<Rightarrow> app_state \<Rightarrow> app_error + board_operation" where
  "build_moves oid steps at s =
     try_bind (try_map (\<lambda>step. item_move (step_item step) (step_from step) (step_to step)) steps) (\<lambda>forward.
     try_bind (try_map (\<lambda>step. item_move (step_item step) (step_to step) (step_from step)) (rev steps)) (\<lambda>backward.
       batch_operation s oid Reorder forward backward at))"

definition move_items :: "operation_id \<Rightarrow> board_item_id list \<Rightarrow> int \<Rightarrow> timestamp \<Rightarrow> handler" where
  "move_items oid ids delta at s =
     try_st (selected_move_steps (map item_id (live_items (board s))) ids delta) s (\<lambda>steps.
       if steps = [] then (Inr [], s)
       else if list_ex (\<lambda>step. case item_thought_id (step_item step) of None \<Rightarrow> False | Some i \<Rightarrow> thought_locked s i) steps
       then (Inl AppInvalidState, s)
       else commit_operation (build_moves oid steps at s) (\<lambda>_ s. s) s)"

section \<open>Clipboard\<close>

definition MULTI_THOUGHT_SEPARATOR :: rstr where
  "MULTI_THOUGHT_SEPARATOR = [10, 10]"

definition copy_text :: "thought list \<Rightarrow> rstr" where
  "copy_text ts = join MULTI_THOUGHT_SEPARATOR (map t_content ts)"

definition copy_payload :: "thought list \<Rightarrow> domain_error + (rstr \<times> content_annotation list)" where
  "copy_payload ts =
     try_bind (merge_annotations (map (\<lambda>t. (t_content t, t_annotations t)) ts) MULTI_THOUGHT_SEPARATOR) (\<lambda>annotations.
       Inr (copy_text ts, annotations))"

definition request_clipboard ::
  "request_id \<Rightarrow> thought_id list \<Rightarrow> clipboard_intent \<Rightarrow> operation_id option \<Rightarrow> timestamp option \<Rightarrow> handler" where
  "request_clipboard rid ids intent oid at s =
     (if ids = [] then (Inl AppInvalidState, s)
      else (let selected = filter (\<lambda>t. t_id t \<in> set ids) (live_thoughts (board s)) in
        if length selected \<noteq> length ids then (Inl AppInvalidState, s)
        else try_st (domain (copy_payload selected)) s (\<lambda>(content, annotations).
          (Inr [WriteClipboard rid (Some (t_id (hd selected))) intent content annotations],
           s\<lparr>pending_clipboards := map_entry_or_insert rid
               \<lparr>pc_sources = map capture_source selected, pc_intent = intent, pc_operation_id = oid,
                pc_at = (case at of None \<Rightarrow> 0 | Some t \<Rightarrow> t)\<rparr> (pending_clipboards s)\<rparr>))))"

definition source_changed :: "app_state \<Rightarrow> clipboard_source \<Rightarrow> bool" where
  "source_changed s c = (case thought_of (board s) (cs_thought_id c) of None \<Rightarrow> True | Some t \<Rightarrow> \<not> still_matches c t)"

definition finish_clipboard :: "request_id \<Rightarrow> failure_code + unit \<Rightarrow> handler" where
  "finish_clipboard rid result s =
     (case Mapping.lookup (pending_clipboards s) rid of
        None \<Rightarrow> (Inr [], s)
      | Some pending \<Rightarrow>
          (let s1 = s\<lparr>pending_clipboards := Mapping.delete rid (pending_clipboards s)\<rparr>;
               ids = map cs_thought_id (pc_sources pending)
           in case result of
                Inl code \<Rightarrow> (Inr [Notify code], s1)
              | Inr _ \<Rightarrow>
                  if pc_intent pending \<noteq> CutIntent then (Inr [], s1)
                  else if list_ex (source_changed s1) (pc_sources pending) then (Inr [Notify FcContentConflict], s1)
                  else case List.find (thought_locked s1) ids of
                    Some i \<Rightarrow> (Inl (AppThoughtLocked i), s1)
                  | None \<Rightarrow>
                      try_st (ok_or AppInvalidState (pc_operation_id pending)) s1 (\<lambda>oid.
                        delete_thoughts oid ids Cut (pc_at pending) s1)))"

section \<open>Transformations\<close>

record exact_source =
  xs_thought_id :: thought_id
  xs_expected_content :: rstr
  xs_expected_annotations :: "content_annotation list"
  xs_content :: rstr
  xs_annotations :: "content_annotation list"

definition exact_source_thought :: "app_state \<Rightarrow> exact_source \<Rightarrow> app_error + thought" where
  "exact_source_thought s source =
     try_bind (live_thought s (xs_thought_id source)) (\<lambda>t.
       if t_content t \<noteq> xs_expected_content source \<or> t_annotations t \<noteq> xs_expected_annotations source
       then Inl (AppContentConflict (xs_thought_id source)) else Inr t)"

definition replacement :: "thought \<Rightarrow> rstr \<Rightarrow> content_annotation list \<Rightarrow> board_mutation" where
  "replacement source content annotations =
     ReplaceContent (t_id source) (t_content source) (t_annotations source) content annotations"

definition exact_deletion :: "thought \<Rightarrow> timestamp \<Rightarrow> board_mutation" where
  "exact_deletion t at =
     SetDeletionExact (t_id t) (t_content t) (t_annotations t) None (t_position t) (Some at) (t_position t)"

definition restoration :: "thought \<Rightarrow> timestamp \<Rightarrow> board_mutation" where
  "restoration t deleted_at =
     SetDeletionExact (t_id t) (t_content t) (t_annotations t) (Some deleted_at) (t_position t) None (t_position t)"

definition truncate_editor_redo :: "thought_id \<Rightarrow> app_state \<Rightarrow> app_state" where
  "truncate_editor_redo i s =
     (case Mapping.lookup (editor_histories s) i of
        None \<Rightarrow> s
      | Some h \<Rightarrow> s\<lparr>editor_histories :=
          Mapping.update i (h\<lparr>eh_revisions := take (eh_cursor h) (eh_revisions h)\<rparr>) (editor_histories s)\<rparr>)"

definition record_transform :: "board_operation \<Rightarrow> thought_id list \<Rightarrow> app_state \<Rightarrow> (app_error, unit, app_state) outcome" where
  "record_transform operation edited s =
     then_st (record_board_operation operation s) (\<lambda>_ s. (Inr (), fold truncate_editor_redo edited s))"

definition commit_transform ::
  "app_error + board_operation \<Rightarrow> thought_id list \<Rightarrow> (board_operation \<Rightarrow> app_state \<Rightarrow> app_state) \<Rightarrow> handler" where
  "commit_transform built edited after s =
     try_st built s (\<lambda>operation.
     then_st (record_transform operation edited s) (\<lambda>_ s.
       (Inr [CommitBoardOperation operation], after operation s)))"

definition build_neighbor ::
  "operation_id \<Rightarrow> thought_id \<Rightarrow> thought \<Rightarrow> rstr \<Rightarrow> content_annotation list \<Rightarrow> rstr \<Rightarrow> content_annotation list
    \<Rightarrow> board_operation_kind \<Rightarrow> timestamp \<Rightarrow> app_state \<Rightarrow> app_error + board_operation" where
  "build_neighbor oid new_id source sc sa nc na kind at s =
     try_bind (position_u32 (unat (t_position source) + 1)) (\<lambda>position.
     try_bind (domain (set_annotations
        ((thought_new new_id (t_session_id source) nc position at)\<lparr>t_presentation := t_presentation source\<rparr>) na)) (\<lambda>neighbor.
       batch_operation s oid kind
         [replacement source sc sa, AddThought neighbor]
         [exact_deletion neighbor at, ReplaceContent (t_id source) sc sa (t_content source) (t_annotations source)] at))"

definition transform_into_neighbor ::
  "operation_id \<Rightarrow> thought_id \<Rightarrow> thought \<Rightarrow> rstr \<Rightarrow> content_annotation list \<Rightarrow> rstr \<Rightarrow> content_annotation list
    \<Rightarrow> board_operation_kind \<Rightarrow> timestamp \<Rightarrow> handler" where
  "transform_into_neighbor oid new_id source sc sa nc na kind at s =
     commit_transform (build_neighbor oid new_id source sc sa nc na kind at s) [t_id source]
       (\<lambda>_ s. s\<lparr>focused_item := Some (ThoughtItem new_id), mode := Edit new_id,
               insertion_index := unat (t_position source) + 1 + 1\<rparr>) s"

definition split_thought :: "operation_id \<Rightarrow> thought_id \<Rightarrow> exact_source \<Rightarrow> nat \<Rightarrow> timestamp \<Rightarrow> handler" where
  "split_thought oid new_id source at_byte at s =
     try_st (exact_source_thought s source) s (\<lambda>t.
     try_st (ok_or AppInvalidState (get_to (xs_content source) at_byte)) s (\<lambda>left.
     try_st (ok_or AppInvalidState (get_from (xs_content source) at_byte)) s (\<lambda>right.
     try_st (domain (partition_annotations (xs_content source) (xs_annotations source) at_byte)) s
       (\<lambda>(left_annotations, right_annotations).
       transform_into_neighbor oid new_id t left left_annotations right right_annotations Split at s))))"

definition extract_thought :: "operation_id \<Rightarrow> thought_id \<Rightarrow> exact_source \<Rightarrow> nat \<Rightarrow> nat \<Rightarrow> timestamp \<Rightarrow> handler" where
  "extract_thought oid new_id source range_start range_end at s =
     try_st (exact_source_thought s source) s (\<lambda>t.
     if range_start \<ge> range_end then (Inl AppInvalidState, s)
     else try_st (ok_or AppInvalidState (get_to (xs_content source) range_start)) s (\<lambda>prefix.
     try_st (ok_or AppInvalidState (str_get (xs_content source) range_start range_end)) s (\<lambda>extracted.
     try_st (ok_or AppInvalidState (get_from (xs_content source) range_end)) s (\<lambda>suffix.
     try_st (domain (extract_annotations (xs_content source) (xs_annotations source) range_start range_end)) s
       (\<lambda>(remaining_annotations, extracted_annotations).
       transform_into_neighbor oid new_id t (prefix @ suffix) remaining_annotations extracted extracted_annotations
         Extract at s)))))"

fun consecutive :: "nat list \<Rightarrow> bool" where
  "consecutive (p # q # ps) \<longleftrightarrow> q = p + 1 \<and> consecutive (q # ps)"
| "consecutive _ \<longleftrightarrow> True"

definition contiguous_sources :: "app_state \<Rightarrow> thought_id list \<Rightarrow> app_error + thought list" where
  "contiguous_sources s ids =
     (if length ids < 2 then Inl AppInvalidState
      else try_bind (try_map (live_thought s) ids) (\<lambda>selected.
        (let positions = List.map_filter
               (\<lambda>i. index_of (\<lambda>item. item_id item = ThoughtItem i) (live_items (board s))) ids
         in if length positions = length ids \<and> consecutive positions then Inr selected
            else Inl NoncontiguousSelection)))"

definition build_merge ::
  "operation_id \<Rightarrow> thought list \<Rightarrow> rstr \<Rightarrow> timestamp \<Rightarrow> app_state \<Rightarrow> app_error + board_operation" where
  "build_merge oid selected separator at s =
     (let first = hd selected; merged = join separator (map t_content selected) in
      try_bind (domain (merge_annotations (map (\<lambda>t. (t_content t, t_annotations t)) selected) separator)) (\<lambda>annotations.
        batch_operation s oid Merge
          (replacement first merged annotations # map (\<lambda>t. exact_deletion t at) (rev (tl selected)))
          (map (\<lambda>t. restoration t at) (tl selected)
             @ [ReplaceContent (t_id first) merged annotations (t_content first) (t_annotations first)]) at))"

definition merge_conflict :: "thought_id list \<Rightarrow> thought list \<Rightarrow> thought list \<Rightarrow> thought_id option" where
  "merge_conflict ids expected selected =
     (case find_map (\<lambda>((i, e), c). if e \<noteq> c then Some i else None) (zip (zip ids expected) selected) of
        Some i \<Rightarrow> Some i | None \<Rightarrow> nth_opt ids 0)"

definition merge_thoughts :: "operation_id \<Rightarrow> thought_id list \<Rightarrow> thought list \<Rightarrow> rstr \<Rightarrow> timestamp \<Rightarrow> handler" where
  "merge_thoughts oid ids expected separator at s =
     try_st (contiguous_sources s ids) s (\<lambda>selected.
       if selected \<noteq> expected
       then try_st (ok_or AppInvalidState (merge_conflict ids expected selected)) s (\<lambda>i. (Inl (AppContentConflict i), s))
       else commit_transform (build_merge oid selected separator at s) ids
         (\<lambda>_ s. s\<lparr>focused_item := Some (ThoughtItem (t_id (hd selected))), mode := BoardMode\<rparr>) s)"

record owned_reflow =
  or_thought_id :: thought_id
  or_operation_id :: operation_id
  or_before_content :: rstr
  or_before_annotations :: "content_annotation list"
  or_after_content :: rstr
  or_after_annotations :: "content_annotation list"
  or_at :: timestamp

record owned_reflow_batch =
  ob_operation_id :: operation_id
  ob_changes :: "owned_reflow list"
  ob_at :: timestamp

definition reflow_forward :: "thought \<Rightarrow> owned_reflow \<Rightarrow> board_mutation" where
  "reflow_forward source r = replacement source (or_after_content r) (or_after_annotations r)"

definition reflow_inverse :: "thought \<Rightarrow> owned_reflow \<Rightarrow> board_mutation" where
  "reflow_inverse source r =
     ReplaceContent (t_id source) (or_after_content r) (or_after_annotations r) (t_content source) (t_annotations source)"

definition reflow_thought :: "owned_reflow \<Rightarrow> handler" where
  "reflow_thought r s =
     try_st (live_thought s (or_thought_id r)) s (\<lambda>source.
       if t_content source \<noteq> or_before_content r \<or> t_annotations source \<noteq> or_before_annotations r
       then (Inl (AppContentConflict (t_id source)), s)
       else if t_content source = or_after_content r \<and> t_annotations source = or_after_annotations r then (Inr [], s)
       else commit_transform (batch_operation s (or_operation_id r) Reflow [reflow_forward source r]
              [reflow_inverse source r] (or_at r)) [t_id source] (\<lambda>_ s. s) s)"

type_synonym reflow_acc =
  "thought_id list \<times> board_mutation list \<times> board_mutation list \<times> thought_position option"

definition reflow_one ::
  "owned_reflow_batch \<Rightarrow> app_state \<Rightarrow> reflow_acc \<Rightarrow> owned_reflow \<Rightarrow> app_error + reflow_acc" where
  "reflow_one batch s = (\<lambda>(changed, forward, backward, previous) r.
     if or_operation_id r \<noteq> ob_operation_id batch \<or> or_at r \<noteq> ob_at batch then Inl AppInvalidState
     else try_bind (live_thought s (or_thought_id r)) (\<lambda>source.
       if t_content source \<noteq> or_before_content r \<or> t_annotations source \<noteq> or_before_annotations r
          \<or> (case previous of None \<Rightarrow> False | Some p \<Rightarrow> t_position source \<le> p)
       then Inl (AppContentConflict (t_id source))
       else if t_content source = or_after_content r \<and> t_annotations source = or_after_annotations r
       then Inl AppInvalidState
       else Inr (changed @ [t_id source], forward @ [reflow_forward source r],
                 backward @ [reflow_inverse source r], Some (t_position source))))"

definition reflow_thoughts :: "owned_reflow_batch \<Rightarrow> handler" where
  "reflow_thoughts batch s =
     (if ob_changes batch = [] then (Inr [], s)
      else try_st (try_fold (reflow_one batch s) ([], [], [], None) (ob_changes batch)) s
        (\<lambda>(changed, forward, backward, _).
          commit_transform (batch_operation s (ob_operation_id batch) Reflow forward backward (ob_at batch))
            changed (\<lambda>_ s. s) s))"

section \<open>Export completion\<close>

datatype export_board_change = ExportRemove | ReplaceWithReference thought_id path

record export_completion =
  ec_operation_id :: operation_id
  ec_thought_ids :: "thought_id list"
  ec_expected_sources :: "thought list"
  ec_change :: export_board_change
  ec_at :: timestamp

definition safe_display_name :: "path \<Rightarrow> app_error + rstr" where
  "safe_display_name p =
     ok_or AppInvalidState (filter_opt (\<lambda>name. name \<noteq> []) (Option.bind (file_name p) path_to_str))"

definition attachment_reference :: "path \<Rightarrow> bool \<Rightarrow> app_error + (rstr \<times> content_annotation)" where
  "attachment_reference p img =
     try_bind (ok_or AppInvalidState (path_to_str p)) (\<lambda>t.
       if \<not> is_absolute p then Inl AppInvalidState
       else try_bind (safe_display_name p) (\<lambda>display_name.
         Inr (t @ [0x20], \<lparr>ann_start = 0, ann_end = str_len t, ann_kind = Attachment None img display_name\<rparr>)))"

definition exact_one :: "app_state \<Rightarrow> thought_id \<times> thought \<Rightarrow> app_error + thought" where
  "exact_one s = (\<lambda>(i, expected).
     if t_id expected \<noteq> i then Inl AppInvalidState
     else try_bind (live_thought s i) (\<lambda>t.
       if t_content t \<noteq> t_content expected \<or> t_annotations t \<noteq> t_annotations expected
       then Inl (AppContentConflict i) else Inr t))"

definition exact_sources :: "app_state \<Rightarrow> export_completion \<Rightarrow> app_error + thought list" where
  "exact_sources s c =
     (if ec_thought_ids c = [] \<or> length (ec_thought_ids c) \<noteq> length (ec_expected_sources c) then Inl AppInvalidState
      else try_bind (try_map (exact_one s) (zip (ec_thought_ids c) (ec_expected_sources c))) (\<lambda>current.
        if map t_id (filter (\<lambda>t. t_id t \<in> set (ec_thought_ids c)) (live_thoughts (board s))) \<noteq> ec_thought_ids c
        then Inl AppInvalidState else Inr current))"

definition build_reference ::
  "export_completion \<Rightarrow> thought list \<Rightarrow> thought_id \<Rightarrow> path \<Rightarrow> app_state \<Rightarrow> app_error + board_operation" where
  "build_reference c sources reference_id p s =
     try_bind (ok_or AppInvalidState (nth_opt sources 0)) (\<lambda>first.
     try_bind (attachment_reference p False) (\<lambda>(content, annotation).
     try_bind (domain (assign (b_counters (board s)) [annotation])) (\<lambda>(annotations, _).
     try_bind (domain (set_annotations (thought_new reference_id (ses_id (b_session (board s))) content
        (t_position first) (ec_at c)) annotations)) (\<lambda>reference.
       batch_operation s (ec_operation_id c) ExportAndReplace
         (map (\<lambda>t. exact_deletion t (ec_at c)) (rev sources) @ [AddThought reference])
         (exact_deletion reference (ec_at c) # map (\<lambda>t. restoration t (ec_at c)) sources) (ec_at c)))))"

definition complete_export :: "export_completion \<Rightarrow> handler" where
  "complete_export c s =
     try_st (exact_sources s c) s (\<lambda>sources.
       case ec_change c of
         ExportRemove \<Rightarrow> delete_thoughts (ec_operation_id c) (ec_thought_ids c) ExportAndRemove (ec_at c) s
       | ReplaceWithReference reference_id p \<Rightarrow>
           commit_operation (build_reference c sources reference_id p s)
             (\<lambda>_ s. s\<lparr>focused_item := Some (ThoughtItem reference_id), mode := BoardMode\<rparr>) s)"

section \<open>History replay\<close>

fun replaced_thought :: "board_mutation \<Rightarrow> thought_id option" where
  "replaced_thought (Batch ms) = find_map replaced_thought ms"
| "replaced_thought (ReplaceContent i _ _ _ _) = Some i"
| "replaced_thought _ = None"

definition transform_source :: "board_operation \<Rightarrow> thought_id option" where
  "transform_source operation =
     (if op_kind operation \<in> {Split, Extract} then replaced_thought (op_forward operation) else None)"

definition restore_compose :: "board_operation \<Rightarrow> bool \<Rightarrow> app_state \<Rightarrow> app_state" where
  "restore_compose operation undo s =
     (case compose_handoff operation of
        None \<Rightarrow> s
      | Some (i, _, _) \<Rightarrow>
          if undo
          then (let s1 = (if live_items (board s) = [] then s\<lparr>mode := Compose, focused_item := None\<rparr>
                          else s\<lparr>mode := BoardMode\<rparr>)
                in s1\<lparr>insertion_index := length (live_items (board s1))\<rparr>)
          else s\<lparr>mode := Edit i, focused_item := Some (ThoughtItem i)\<rparr>)"

definition restore_source_focus :: "bool \<Rightarrow> thought_id option \<Rightarrow> app_state \<Rightarrow> app_state" where
  "restore_source_focus focus_was_removed source s =
     (case source of
        None \<Rightarrow> s
      | Some i \<Rightarrow>
          if focus_was_removed \<and> (case thought_of (board s) i of None \<Rightarrow> False | Some t \<Rightarrow> t_is_live t)
          then s\<lparr>focused_item := Some (ThoughtItem i)\<rparr> else s)"

definition step_cursor :: "bool \<Rightarrow> nat \<Rightarrow> nat" where
  "step_cursor undo cursor = (if undo then cursor - 1 else cursor + 1)"

definition move_board_history :: "timestamp \<Rightarrow> bool \<Rightarrow> app_state \<Rightarrow> (app_error, unit, app_state) outcome" where
  "move_board_history at undo s =
     try_st (ok_or AppInvalidState (board_operation_at s undo)) s (\<lambda>operation.
     try_st (domain (apply_mutation (board s) (if undo then op_inverse operation else op_forward operation) at)) s (\<lambda>b.
     (let focused_before = focused_item s;
          source = (if undo then transform_source operation else None);
          s1 = s\<lparr>board := b, board_history_cursor := step_cursor undo (board_history_cursor s)\<rparr>;
          focus_was_removed = (case focused_before of None \<Rightarrow> False | Some f \<Rightarrow> item_position_of (board s1) f = None)
      in (Inr (), restore_source_focus focus_was_removed source
            (restore_compose operation undo (keep_focus_valid s1))))))"

definition move_editor_history :: "thought_id \<Rightarrow> timestamp \<Rightarrow> bool \<Rightarrow> app_state \<Rightarrow> (app_error, unit, app_state) outcome" where
  "move_editor_history i at undo s =
     try_st (ok_or AppInvalidState (Mapping.lookup (editor_histories s) i)) s (\<lambda>h.
     try_st (ok_or AppInvalidState (history_revision h undo)) s (\<lambda>revision.
     try_st (live_thought s i) s (\<lambda>current.
     (let expected = (if undo then after_content revision else before_content revision);
          expected_annotations = (if undo then after_annotations revision else before_annotations revision);
          content = (if undo then before_content revision else after_content revision);
          annotations = (if undo then before_annotations revision else after_annotations revision)
      in if t_content current \<noteq> expected \<or> t_annotations current \<noteq> expected_annotations
         then (Inl (RevisionConflict i), s)
         else (Inr (), s\<lparr>board := thought_mut (board s) i
                 (\<lambda>t. t\<lparr>t_content := content, t_annotations := annotations, t_updated_at := at\<rparr>),
               editor_histories := Mapping.update i (h\<lparr>eh_cursor := step_cursor undo (eh_cursor h)\<rparr>)
                 (editor_histories s)\<rparr>)))))"

definition history_move :: "operation_id \<Rightarrow> undo_scope \<Rightarrow> timestamp \<Rightarrow> bool \<Rightarrow> handler" where
  "history_move oid scope at undo s =
     try_st (ensure_history_scope_ready s scope undo) s (\<lambda>_.
     try_st (next_sequence s) s (\<lambda>sequence.
     then_st (case scope of BoardScope \<Rightarrow> move_board_history at undo s
                          | EditorScope i \<Rightarrow> move_editor_history i at undo s) (\<lambda>_ s.
       (let s1 = track_pending sequence s in
        (Inr [CommitHistoryMove oid (ses_id (b_session (board s1))) scope undo sequence at], s1)))))"

section \<open>Session metadata\<close>

definition rename_session :: "operation_id \<Rightarrow> rstr option \<Rightarrow> timestamp \<Rightarrow> handler" where
  "rename_session oid name at s =
     (let previous = ses_name (b_session (board s)) in
      try_st (domain (session_rename (b_session (board s)) name)) s (\<lambda>renamed.
      (let s1 = s\<lparr>board := (board s)\<lparr>b_session := renamed\<rparr>\<rparr> in
       if previous = name then (Inr [], s1)
       else try_st (domain (browser_rename oid (ses_id (b_session (board s1))) previous name at)) s1 (\<lambda>operation.
         (Inr [CommitBrowserOperation operation], s1)))))"

end
