(* ===== verification/Reducer.thy ===== *)
theory Reducer
  imports App_Mutations
begin

text \<open>
  The reducer lane: actions (\<open>src/application/action.rs\<close>), their undo contract
  (\<open>src/application/history_contract.rs\<close>), submission locks (\<open>src/application/locks.rs\<close>), the router
  (\<open>src/application/reducer.rs\<close>, \<open>src/application/reducer/board.rs\<close>).

  SHA-256 is the parameter \<open>digest\<close> of the attachment keys. The router of the source dispatches to a
  group function per family of actions and each group function matches again, with an
  unreachable \<open>InvalidState\<close> arm; the group functions here take that arm on every other action.
\<close>

section \<open>Actions\<close>

record owned_creation =
  oc_thought_id :: thought_id
  oc_operation_id :: operation_id
  oc_content :: rstr
  oc_annotations :: "content_annotation list"
  oc_name :: "thought_name option"
  oc_insertion_index :: "nat option"
  oc_at :: timestamp

record owned_edit =
  oe_thought_id :: thought_id
  oe_revision_id :: revision_id
  oe_before_content :: rstr
  oe_after_content :: rstr
  oe_before_annotations :: "content_annotation list"
  oe_after_annotations :: "content_annotation list"
  oe_before_cursor :: text_position
  oe_before_selection_anchor :: "text_position option"
  oe_after_cursor :: text_position
  oe_after_selection_anchor :: "text_position option"
  oe_at :: timestamp

datatype (plugins only: code) action =
    RenameSession operation_id "rstr option" timestamp
  | FocusThought "thought_id option"
  | FocusItem "board_item_id option"
  | EnterEdit thought_id
  | EnterCompose
  | ExitCompose
  | ExitEdit
  | CreateThought thought_id operation_id rstr "content_annotation list" "nat option" timestamp
  | InsertSeparatorAt separator_id operation_id nat timestamp
  | CreateComposeThought thought_id operation_id rstr "content_annotation list" text_position
      "text_position option" bool timestamp
  | CreateOwnedThought owned_creation
  | CreateOwnedThoughts operation_id "transfer_item list" timestamp
  | PasteAsThought thought_id operation_id rstr "content_annotation list" timestamp
  | EditThought thought_id revision_id rstr rstr "content_annotation list" "content_annotation list"
      text_position text_position timestamp
  | ReflowThought owned_reflow
  | ReflowThoughts owned_reflow_batch
  | SplitThought thought_id thought_id operation_id rstr "content_annotation list" rstr
      "content_annotation list" nat timestamp
  | ExtractThought thought_id thought_id operation_id rstr "content_annotation list" rstr
      "content_annotation list" nat nat timestamp
  | MergeThoughts operation_id "thought_id list" "thought list" rstr timestamp
  | CompleteExport export_completion
  | EditOwnedThought owned_edit
  | CopyThoughts request_id "thought_id list"
  | CutThoughts request_id operation_id "thought_id list" timestamp
  | ClipboardResult request_id "failure_code + unit"
  | BeginSubmission "thought_id list"
  | EndSubmission "thought_id list"
  | DeleteThought operation_id thought_id board_operation_kind timestamp
  | DeleteThoughts operation_id "thought_id list" board_operation_kind timestamp
  | DeleteItems operation_id "board_item_id list" board_operation_kind timestamp
  | StageSubmissionRemoval operation_id "thought_id list" timestamp
  | MoveThoughtTo operation_id thought_id nat timestamp
  | MoveItem operation_id board_item_id nat timestamp
  | MoveItems operation_id "board_item_id list" int timestamp
  | SetPresentationTo operation_id thought_id thought_presentation timestamp
  | RenameThought operation_id thought_id "thought_name option" timestamp
  | SetPresentationMany operation_id "thought_id list" thought_presentation timestamp
  | DuplicateThoughts operation_id "thought_id list" "thought_id list" timestamp
  | DuplicateItems operation_id "board_item_id list" "board_item_id list" timestamp
  | Undo operation_id undo_scope timestamp
  | Redo operation_id undo_scope timestamp
  | PersistenceCommitted operation_sequence
  | PersistenceFailed operation_sequence failure_code
  | RetryPersistence operation_sequence

section \<open>Undo contract\<close>

datatype undo_contract =
    DurableBoard | DurableEditor | DurableBrowser | ComposeHandoff | LocalText | BrowserTextThenDurable
  | ContextualDurableMove | BoardAfterExternalIntent | BoardAfterExternalCompletion
  | IrreversibleExternal | Unavailable | Internal

definition starts_durable_mutation :: "undo_contract \<Rightarrow> bool" where
  "starts_durable_mutation c \<longleftrightarrow>
     c \<in> {DurableBoard, DurableEditor, DurableBrowser, ComposeHandoff, ContextualDurableMove, BoardAfterExternalIntent}"

definition undo_contract_of :: "action \<Rightarrow> undo_contract" where
  "undo_contract_of a =
     (case a of
        RenameSession _ _ _ \<Rightarrow> DurableBrowser
      | CreateComposeThought _ _ _ _ _ _ _ _ \<Rightarrow> ComposeHandoff
      | EditThought _ _ _ _ _ _ _ _ _ \<Rightarrow> DurableEditor
      | EditOwnedThought _ \<Rightarrow> DurableEditor
      | Undo _ _ _ \<Rightarrow> ContextualDurableMove
      | Redo _ _ _ \<Rightarrow> ContextualDurableMove
      | CutThoughts _ _ _ _ \<Rightarrow> BoardAfterExternalIntent
      | ClipboardResult _ _ \<Rightarrow> BoardAfterExternalCompletion
      | CopyThoughts _ _ \<Rightarrow> IrreversibleExternal
      | FocusThought _ \<Rightarrow> Unavailable
      | FocusItem _ \<Rightarrow> Unavailable
      | EnterEdit _ \<Rightarrow> Unavailable
      | EnterCompose \<Rightarrow> Unavailable
      | ExitCompose \<Rightarrow> Unavailable
      | ExitEdit \<Rightarrow> Unavailable
      | BeginSubmission _ \<Rightarrow> Unavailable
      | EndSubmission _ \<Rightarrow> Unavailable
      | PersistenceCommitted _ \<Rightarrow> Internal
      | PersistenceFailed _ _ \<Rightarrow> Internal
      | RetryPersistence _ \<Rightarrow> Internal
      | _ \<Rightarrow> DurableBoard)"

definition mutates_durable_state :: "action \<Rightarrow> bool" where
  "mutates_durable_state a = starts_durable_mutation (undo_contract_of a)"

section \<open>Locks\<close>

definition locked_one :: "app_state \<Rightarrow> thought_id \<Rightarrow> thought_id option" where
  "locked_one s i = (if thought_locked s i then Some i else None)"

definition locked_many :: "app_state \<Rightarrow> thought_id list \<Rightarrow> thought_id option" where
  "locked_many s ids = List.find (thought_locked s) ids"

definition locked_items :: "app_state \<Rightarrow> board_item_id list \<Rightarrow> thought_id option" where
  "locked_items s ids = find_map (locked_one s) (List.map_filter item_thought_id ids)"

fun locked_mutation :: "app_state \<Rightarrow> board_mutation \<Rightarrow> thought_id option" where
  "locked_mutation s (Batch ms) = find_map (locked_mutation s) ms"
| "locked_mutation s (AddThought t) = locked_one s (t_id t)"
| "locked_mutation s (AddThoughtFromCompose t _ _) = locked_one s (t_id t)"
| "locked_mutation s (AddSeparator _) = None"
| "locked_mutation s (SetSeparatorDeletion _ _ _) = None"
| "locked_mutation s (MoveSeparator _ _ _) = None"
| "locked_mutation s (SetDeletion i _ _) = locked_one s i"
| "locked_mutation s (SetDeletionExact i _ _ _ _ _ _) = locked_one s i"
| "locked_mutation s (MoveThought i _ _) = locked_one s i"
| "locked_mutation s (ReplaceContent i _ _ _ _) = locked_one s i"
| "locked_mutation s (SetPresentation i _) = locked_one s i"
| "locked_mutation s (SetName i _ _) = locked_one s i"
| "locked_mutation s (LegacySetCollapsed i _) = locked_one s i"

fun locked_history :: "app_state \<Rightarrow> undo_scope \<Rightarrow> bool \<Rightarrow> thought_id option" where
  "locked_history s (EditorScope i) undo = locked_one s i"
| "locked_history s BoardScope undo =
     Option.bind (board_operation_at s undo) (\<lambda>operation.
       locked_mutation s (if undo then op_inverse operation else op_forward operation))"

definition locked_action :: "app_state \<Rightarrow> action \<Rightarrow> thought_id option" where
  "locked_action s a =
     (case a of
        EnterEdit i \<Rightarrow> locked_one s i
      | EditThought i _ _ _ _ _ _ _ _ \<Rightarrow> locked_one s i
      | SplitThought i _ _ _ _ _ _ _ _ \<Rightarrow> locked_one s i
      | ExtractThought i _ _ _ _ _ _ _ _ _ \<Rightarrow> locked_one s i
      | DeleteThought _ i _ _ \<Rightarrow> locked_one s i
      | MoveThoughtTo _ i _ _ \<Rightarrow> locked_one s i
      | RenameThought _ i _ _ \<Rightarrow> locked_one s i
      | SetPresentationTo _ i _ _ \<Rightarrow> locked_one s i
      | MoveItem _ item _ _ \<Rightarrow>
          ((case item of ThoughtItem i \<Rightarrow> locked_one s i | SeparatorItem _ \<Rightarrow> None))
      | DeleteItems _ ids _ _ \<Rightarrow> locked_items s ids
      | CutThoughts _ _ ids _ \<Rightarrow> locked_many s ids
      | DeleteThoughts _ ids _ _ \<Rightarrow> locked_many s ids
      | SetPresentationMany _ ids _ _ \<Rightarrow> locked_many s ids
      | DuplicateThoughts _ ids _ _ \<Rightarrow> locked_many s ids
      | MergeThoughts _ ids _ _ _ \<Rightarrow> locked_many s ids
      | CompleteExport c \<Rightarrow> locked_many s (ec_thought_ids c)
      | DuplicateItems _ ids _ _ \<Rightarrow> locked_items s ids
      | MoveItems _ ids _ _ \<Rightarrow> locked_items s ids
      | Undo _ scope _ \<Rightarrow> locked_history s scope True
      | Redo _ scope _ \<Rightarrow> locked_history s scope False
      | ReflowThought r \<Rightarrow> locked_one s (or_thought_id r)
      | ReflowThoughts batch \<Rightarrow> find_map (\<lambda>r. locked_one s (or_thought_id r)) (ob_changes batch)
      | EditOwnedThought e \<Rightarrow> locked_one s (oe_thought_id e)
      | _ \<Rightarrow> None)"

definition ensure_action_unlocked :: "app_state \<Rightarrow> action \<Rightarrow> app_error + unit" where
  "ensure_action_unlocked s a = (case locked_action s a of None \<Rightarrow> Inr () | Some i \<Rightarrow> Inl (AppThoughtLocked i))"

definition begin_one :: "app_state \<Rightarrow> thought_id \<Rightarrow> app_error + unit" where
  "begin_one s i = try_bind (live_thought s i) (\<lambda>_. if thought_locked s i then Inl (AppThoughtLocked i) else Inr ())"

definition lock_transition :: "action \<Rightarrow> handler" where
  "lock_transition a s =
     (case a of
        BeginSubmission ids \<Rightarrow>
          ((if ids = [] then (Inl AppInvalidState, s)
           else try_st (try_map (begin_one s) ids) s (\<lambda>_.
             (Inr [], s\<lparr>locked_thoughts := locked_thoughts s \<union> set ids\<rparr>))))
      | EndSubmission ids \<Rightarrow> (Inr [], s\<lparr>locked_thoughts := locked_thoughts s - set ids\<rparr>)
      | _ \<Rightarrow> (Inl AppInvalidState, s))"

section \<open>Routing\<close>

definition reduce_navigation :: "action \<Rightarrow> handler" where
  "reduce_navigation a s =
     (case a of
        FocusThought focus \<Rightarrow>
          ((case focus of
             None \<Rightarrow> (Inr [], s\<lparr>focused_item := None\<rparr>)
           | Some i \<Rightarrow> try_st (live_thought s i) s (\<lambda>_. (Inr [], s\<lparr>focused_item := Some (ThoughtItem i)\<rparr>))))
      | FocusItem focus \<Rightarrow>
          ((if (case focus of None \<Rightarrow> False | Some item \<Rightarrow> item_position_of (board s) item = None)
           then (Inl AppInvalidState, s) else (Inr [], s\<lparr>focused_item := focus\<rparr>)))
      | EnterEdit i \<Rightarrow>
          (try_st (live_thought s i) s (\<lambda>_. (Inr [], s\<lparr>focused_item := Some (ThoughtItem i), mode := Edit i\<rparr>)))
      | EnterCompose \<Rightarrow> (Inr [], s\<lparr>mode := Compose\<rparr>)
      | ExitCompose \<Rightarrow> (Inr [], s\<lparr>mode := BoardMode\<rparr>)
      | ExitEdit \<Rightarrow> (Inr [], s\<lparr>mode := BoardMode\<rparr>)
      | _ \<Rightarrow> (Inl AppInvalidState, s))"

definition reject_new_shortcut_annotations :: "content_annotation list \<Rightarrow> app_error + unit" where
  "reject_new_shortcut_annotations annotations =
     (if list_ex is_shortcut_emphasis annotations then Inl AppInvalidState else Inr ())"

definition create_owned_thought :: "owned_creation \<Rightarrow> handler" where
  "create_owned_thought c s =
     create_thought_with_handoff (oc_thought_id c) (oc_operation_id c) (oc_content c) (oc_annotations c)
       (case oc_insertion_index c of None \<Rightarrow> insertion_index s | Some n \<Rightarrow> n) None False (oc_name c) (oc_at c) s"

definition edit_owned_thought :: "owned_edit \<Rightarrow> handler" where
  "edit_owned_thought e =
     edit_thought (oe_thought_id e) (oe_revision_id e) (oe_before_content e) (oe_after_content e)
       (oe_before_annotations e) (oe_after_annotations e) (oe_before_cursor e) (oe_before_selection_anchor e)
       (oe_after_cursor e) (oe_after_selection_anchor e) (oe_at e)"

definition reduce_creation :: "action \<Rightarrow> handler" where
  "reduce_creation a s =
     (case a of
        CreateThought i oid content annotations index at \<Rightarrow>
          (try_st (reject_new_shortcut_annotations annotations) s (\<lambda>_.
            create_thought i oid content annotations (case index of None \<Rightarrow> insertion_index s | Some n \<Rightarrow> n) at s))
      | InsertSeparatorAt i oid index at \<Rightarrow> insert_separator i oid index at s
      | CreateComposeThought i oid content annotations cursor anchor preserve_owned at \<Rightarrow>
          (create_compose_thought i oid content annotations cursor anchor preserve_owned at s)
      | CreateOwnedThought c \<Rightarrow> create_owned_thought c s
      | CreateOwnedThoughts oid items at \<Rightarrow> create_owned_thoughts oid items at s
      | PasteAsThought i oid content annotations at \<Rightarrow>
          (try_st (reject_new_shortcut_annotations annotations) s (\<lambda>_.
            create_thought i oid content annotations (insertion_index s) at s))
      | _ \<Rightarrow> (Inl AppInvalidState, s))"

definition reduce_content :: "action \<Rightarrow> handler" where
  "reduce_content a s =
     (case a of
        EditThought i rid bc ac ba aa bcur acur at \<Rightarrow>
          (try_st (reject_new_shortcut_annotations aa) s (\<lambda>_. edit_thought i rid bc ac ba aa bcur None acur None at s))
      | EditOwnedThought e \<Rightarrow> edit_owned_thought e s
      | _ \<Rightarrow> reduce_creation a s)"

definition reduce_content_transform :: "action \<Rightarrow> handler" where
  "reduce_content_transform a s =
     (case a of
        SplitThought i new_id oid ec ea sc sa at_byte at \<Rightarrow>
          (split_thought oid new_id \<lparr>xs_thought_id = i, xs_expected_content = ec, xs_expected_annotations = ea,
            xs_content = sc, xs_annotations = sa\<rparr> at_byte at s)
      | ExtractThought i new_id oid ec ea sc sa range_start range_end at \<Rightarrow>
          (extract_thought oid new_id \<lparr>xs_thought_id = i, xs_expected_content = ec, xs_expected_annotations = ea,
            xs_content = sc, xs_annotations = sa\<rparr> range_start range_end at s)
      | _ \<Rightarrow> (Inl AppInvalidState, s))"

definition is_failed :: "durability_state \<Rightarrow> bool" where
  "is_failed d = (case d of Failed _ _ _ \<Rightarrow> True | _ \<Rightarrow> False)"

definition reduce_clipboard :: "action \<Rightarrow> handler" where
  "reduce_clipboard a s =
     (case a of
        CopyThoughts rid ids \<Rightarrow> request_clipboard rid ids Copy None None s
      | CutThoughts rid oid ids at \<Rightarrow> request_clipboard rid ids CutIntent (Some oid) (Some at) s
      | ClipboardResult rid result \<Rightarrow>
          (finish_clipboard rid (if \<not> isl result \<and> is_failed (durability s) then Inl FcStorageFailed else result) s)
      | _ \<Rightarrow> (Inl AppInvalidState, s))"

definition reduce_board_bulk :: "action \<Rightarrow> handler" where
  "reduce_board_bulk a s =
     (case a of
        SetPresentationMany oid ids presentation at \<Rightarrow> set_presentation_many oid ids presentation at s
      | DuplicateThoughts oid ids duplicate_ids at \<Rightarrow> duplicate_thoughts oid ids duplicate_ids at s
      | DuplicateItems oid ids duplicate_ids at \<Rightarrow> duplicate_items oid ids duplicate_ids at s
      | MergeThoughts oid ids expected separator at \<Rightarrow> merge_thoughts oid ids expected separator at s
      | CompleteExport c \<Rightarrow> complete_export c s
      | _ \<Rightarrow> (Inl AppInvalidState, s))"

definition reduce_board :: "action \<Rightarrow> handler" where
  "reduce_board a s =
     (case a of
        DeleteThought oid i kind at \<Rightarrow> delete_thought oid i kind at s
      | DeleteThoughts oid ids kind at \<Rightarrow> delete_thoughts oid ids kind at s
      | DeleteItems oid ids kind at \<Rightarrow> delete_items oid ids kind at s
      | StageSubmissionRemoval oid ids at \<Rightarrow> stage_submission_removal oid ids at s
      | MoveThoughtTo oid i to at \<Rightarrow> app_move_thought oid i to at s
      | MoveItem oid item to at \<Rightarrow> move_item oid item to at s
      | MoveItems oid ids delta at \<Rightarrow> move_items oid ids delta at s
      | RenameThought oid i name at \<Rightarrow> rename_thought oid i name at s
      | SetPresentationTo oid i presentation at \<Rightarrow> app_set_presentation oid i presentation at s
      | _ \<Rightarrow> reduce_board_bulk a s)"

definition reduce_history :: "action \<Rightarrow> handler" where
  "reduce_history a s =
     (case a of
        Undo oid scope at \<Rightarrow> history_move oid scope at True s
      | Redo oid scope at \<Rightarrow> history_move oid scope at False s
      | _ \<Rightarrow> (Inl AppInvalidState, s))"

definition reduce_persistence :: "action \<Rightarrow> handler" where
  "reduce_persistence a s =
     (case a of
        PersistenceCommitted sequence \<Rightarrow>
          ((if first_sequence (pending_sequences s) \<noteq> Some sequence then (Inl AppInvalidState, s)
           else then_st (commit_deferred_board_operation sequence s) (\<lambda>_ s.
             (let s1 = s\<lparr>pending_sequences := pending_sequences s - {sequence},
                    board := (board s)\<lparr>b_session := (b_session (board s))\<lparr>last_durable_sequence :=
                      max (last_durable_sequence (b_session (board s))) sequence\<rparr>\<rparr>\<rparr>
              in (Inr [], refresh_durability s1)))))
      | PersistenceFailed sequence code \<Rightarrow>
          ((if sequence \<notin> pending_sequences s then (Inl AppInvalidState, s)
           else (let failed = (case durability s of Failed _ failed _ \<Rightarrow> min failed sequence | _ \<Rightarrow> sequence)
             in (Inr [Notify code],
                 s\<lparr>durability := Failed (last_durable_sequence (b_session (board s))) failed code\<rparr>))))
      | RetryPersistence sequence \<Rightarrow>
          ((if (case durability s of Failed _ _ FcRecoveryCapacity \<Rightarrow> True | _ \<Rightarrow> False) then (Inl AppInvalidState, s)
           else if \<not> (case durability s of Failed _ failed _ \<Rightarrow> failed = sequence | _ \<Rightarrow> False)
                   \<or> sequence \<notin> pending_sequences s then (Inl AppInvalidState, s)
           else try_st (ok_or AppInvalidState (last_sequence (pending_sequences s))) s (\<lambda>latest.
             (Inr [RetryPersistenceEffect sequence],
              s\<lparr>durability := Pending (last_durable_sequence (b_session (board s))) latest\<rparr>))))
      | _ \<Rightarrow> (Inl AppInvalidState, s))"

definition route :: "action \<Rightarrow> handler" where
  "route a s =
     (case a of
        RenameSession oid name at \<Rightarrow> rename_session oid name at s
      | FocusThought _ \<Rightarrow> reduce_navigation a s
      | FocusItem _ \<Rightarrow> reduce_navigation a s
      | EnterEdit _ \<Rightarrow> reduce_navigation a s
      | EnterCompose \<Rightarrow> reduce_navigation a s
      | ExitCompose \<Rightarrow> reduce_navigation a s
      | ExitEdit \<Rightarrow> reduce_navigation a s
      | CreateThought _ _ _ _ _ _ \<Rightarrow> reduce_content a s
      | InsertSeparatorAt _ _ _ _ \<Rightarrow> reduce_content a s
      | CreateComposeThought _ _ _ _ _ _ _ _ \<Rightarrow> reduce_content a s
      | CreateOwnedThought _ \<Rightarrow> reduce_content a s
      | CreateOwnedThoughts _ _ _ \<Rightarrow> reduce_content a s
      | PasteAsThought _ _ _ _ _ \<Rightarrow> reduce_content a s
      | EditThought _ _ _ _ _ _ _ _ _ \<Rightarrow> reduce_content a s
      | EditOwnedThought _ \<Rightarrow> reduce_content a s
      | ReflowThought r \<Rightarrow> reflow_thought r s
      | ReflowThoughts batch \<Rightarrow> reflow_thoughts batch s
      | SplitThought _ _ _ _ _ _ _ _ _ \<Rightarrow> reduce_content_transform a s
      | ExtractThought _ _ _ _ _ _ _ _ _ _ \<Rightarrow> reduce_content_transform a s
      | CopyThoughts _ _ \<Rightarrow> reduce_clipboard a s
      | CutThoughts _ _ _ _ \<Rightarrow> reduce_clipboard a s
      | ClipboardResult _ _ \<Rightarrow> reduce_clipboard a s
      | BeginSubmission _ \<Rightarrow> lock_transition a s
      | EndSubmission _ \<Rightarrow> lock_transition a s
      | Undo _ _ _ \<Rightarrow> reduce_history a s
      | Redo _ _ _ \<Rightarrow> reduce_history a s
      | PersistenceCommitted _ \<Rightarrow> reduce_persistence a s
      | PersistenceFailed _ _ \<Rightarrow> reduce_persistence a s
      | RetryPersistence _ \<Rightarrow> reduce_persistence a s
      | _ \<Rightarrow> reduce_board a s)"

text \<open>Attachment work that follows every successful action: the board is reconciled with the cache,
  and a thought that has just been focused is checked first.\<close>

definition refresh_attachments ::
  "(rstr \<Rightarrow> u8 list) \<Rightarrow> board_item_id option \<Rightarrow> effect list \<Rightarrow> app_state \<Rightarrow> effect list \<times> app_state" where
  "refresh_attachments digest previous_focus effects s =
     (let (batches, st) = reconcile digest (attachments s) (board s);
          s1 = s\<lparr>attachments := st\<rparr>; effects1 = effects @ map CheckAttachments batches
      in if focused_item s1 \<noteq> previous_focus
         then (case focused_thought_id s1 of
                 None \<Rightarrow> (effects1, s1)
               | Some i \<Rightarrow>
                   (let (batches, st) = prioritize_focus (attachments s1) i in
                    (effects1 @ map CheckAttachments batches, s1\<lparr>attachments := st\<rparr>)))
         else (effects1, s1))"

definition reduce :: "(rstr \<Rightarrow> u8 list) \<Rightarrow> action \<Rightarrow> handler" where
  "reduce digest a s =
     try_st (ensure_action_unlocked s a) s (\<lambda>_.
     if is_failed (durability s) \<and> mutates_durable_state a then (Inl AppInvalidState, s)
     else then_st (route a s) (\<lambda>effects s1.
       (case refresh_attachments digest (focused_item s) effects s1 of (effects, s2) \<Rightarrow> (Inr effects, s2))))"

end
