(* ===== verification/Lane_Steps.thy ===== *)
theory Lane_Steps
  imports Reducer Board_Undo
begin

text \<open>
  The reducer lane as a step relation. \<open>lane_step\<close> has one rule per way the durable part of the state
  (\<open>core\<close>) can change, with the effects that announce the change; \<open>route_ends\<close> shows that every action
  of the router takes one of these steps or fails without changing the state. The invariants and
  safety properties of the lane are proved over the rules.
\<close>

section \<open>Reasoning about fallible state passing\<close>

text \<open>\<open>ends E Q r\<close>: a call that failed left a state with \<open>E\<close>, one that succeeded a result with \<open>Q\<close>.\<close>

definition ends :: "('s \<Rightarrow> bool) \<Rightarrow> ('a \<Rightarrow> 's \<Rightarrow> bool) \<Rightarrow> ('e, 'a, 's) outcome \<Rightarrow> bool" where
  "ends E Q r = (case r of (Inl _, s) \<Rightarrow> E s | (Inr x, s) \<Rightarrow> Q x s)"

lemma ends_simps [simp]: "ends E Q (Inl e, s) = E s" "ends E Q (Inr x, s) = Q x s"
  by (simp_all add: ends_def)

lemma ends_try: "E s \<Longrightarrow> (\<And>x. r = Inr x \<Longrightarrow> ends E Q (k x)) \<Longrightarrow> ends E Q (try_st r s k)"
  by (cases r) (simp_all add: try_st_def)

lemma ends_then:
  assumes "ends E R r" and "\<And>x s. R x s \<Longrightarrow> ends E Q (k x s)"
  shows "ends E Q (then_st r k)"
proof -
  obtain v s where r: "r = (v, s)" by (cases r)
  show ?thesis using assms by (cases v) (simp_all add: r then_st_def)
qed

lemma ends_weaken:
  assumes "ends E Q r" and "\<And>s. E s \<Longrightarrow> E' s" and "\<And>x s. Q x s \<Longrightarrow> Q' x s"
  shows "ends E' Q' r"
proof -
  obtain v s where r: "r = (v, s)" by (cases r)
  show ?thesis using assms by (cases v) (simp_all add: r)
qed

lemma ends_if: "(c \<Longrightarrow> ends E Q a) \<Longrightarrow> (\<not> c \<Longrightarrow> ends E Q b) \<Longrightarrow> ends E Q (if c then a else b)"
  by simp

lemma ends_Let: "(\<And>x. x = v \<Longrightarrow> ends E Q (k x)) \<Longrightarrow> ends E Q (Let v k)"
  by (simp add: Let_def)

lemma ends_option:
  "(x = None \<Longrightarrow> ends E Q n) \<Longrightarrow> (\<And>y. x = Some y \<Longrightarrow> ends E Q (k y)) \<Longrightarrow> ends E Q (case x of None \<Rightarrow> n | Some y \<Rightarrow> k y)"
  by (cases x) simp_all

lemma ends_pair: "(\<And>a b. p = (a, b) \<Longrightarrow> ends E Q (k a b)) \<Longrightarrow> ends E Q (case p of (a, b) \<Rightarrow> k a b)"
  by (cases p) simp

lemmas ends_rules = ends_try ends_if ends_Let ends_option ends_pair

section \<open>The steps of the lane\<close>

text \<open>The part of the state that is durable or decides what becomes durable.\<close>

definition core :: "app_state \<Rightarrow> session_board \<times> durability_state \<times> board_operation list \<times> nat
    \<times> (thought_id, editor_history) mapping \<times> operation_sequence set \<times> (operation_sequence, board_operation) mapping
    \<times> operation_sequence" where
  "core s = (board s, durability s, board_history s, board_history_cursor s, editor_histories s,
     pending_sequences s, deferred_board_operations s, highest_sequence s)"

definition after_record :: "board_operation \<Rightarrow> thought_id list \<Rightarrow> session_board \<Rightarrow> app_state \<Rightarrow> app_state" where
  "after_record operation edited b s =
     fold truncate_editor_redo edited (track_pending (op_sequence operation) (push_board_history operation (s\<lparr>board := b\<rparr>)))"

lemma core_update [simp]:
  "core (s\<lparr>mode := m\<rparr>) = core s" "core (s\<lparr>focused_item := f\<rparr>) = core s"
  "core (s\<lparr>insertion_index := n\<rparr>) = core s" "core (s\<lparr>attachments := st\<rparr>) = core s"
  "core (s\<lparr>pending_clipboards := pc\<rparr>) = core s" "core (s\<lparr>locked_thoughts := l\<rparr>) = core s"
  by (simp_all add: core_def)

lemma core_keep_focus [simp]: "core (keep_focus_valid s) = core s"
  by (simp add: keep_focus_valid_def core_def Let_def)

lemma core_fields:
  assumes "core s = core s'"
  shows "board s = board s'" "durability s = durability s'" "board_history s = board_history s'"
    "board_history_cursor s = board_history_cursor s'" "editor_histories s = editor_histories s'"
    "pending_sequences s = pending_sequences s'" "deferred_board_operations s = deferred_board_operations s'"
    "highest_sequence s = highest_sequence s'"
  using assms by (simp_all add: core_def)

lemma core_truncate: "core s = core s' \<Longrightarrow> core (truncate_editor_redo i s) = core (truncate_editor_redo i s')"
  by (simp add: truncate_editor_redo_def core_def split: option.splits)

lemma core_truncates: "core s = core s' \<Longrightarrow> core (fold truncate_editor_redo ids s) = core (fold truncate_editor_redo ids s')"
proof (induction ids arbitrary: s s')
  case (Cons i ids)
  show ?case using Cons.IH [OF core_truncate [OF Cons.prems, of i]] by simp
qed simp

fun quiet :: "effect \<Rightarrow> bool" where
  "quiet (WriteClipboard _ _ _ _ _) = True"
| "quiet (Notify _) = True"
| "quiet (CheckAttachments _) = True"
| "quiet _ = False"

definition after_edit :: "thought_revision \<Rightarrow> session_board \<Rightarrow> app_state \<Rightarrow> app_state" where
  "after_edit r b s =
     (let i = rev_thought_id r; s1 = truncate_conflicting_board_redo i (s\<lparr>board := b\<rparr>) in
      track_pending (rev_sequence r) (s1\<lparr>editor_histories :=
        Mapping.update i (push_revision r (history_or_default s1 i)) (editor_histories s1)\<rparr>))"

definition put_content :: "thought_id \<Rightarrow> rstr \<Rightarrow> content_annotation list \<Rightarrow> timestamp \<Rightarrow> session_board \<Rightarrow> session_board" where
  "put_content i content annotations at b =
     thought_mut b i (\<lambda>t. t\<lparr>t_content := content, t_annotations := annotations, t_updated_at := at\<rparr>)"

definition acknowledge :: "operation_sequence \<Rightarrow> app_state \<Rightarrow> app_state" where
  "acknowledge q s = refresh_durability (s\<lparr>pending_sequences := pending_sequences s - {q},
     board := (board s)\<lparr>b_session := (b_session (board s))\<lparr>last_durable_sequence :=
       max (last_durable_sequence (b_session (board s))) q\<rparr>\<rparr>\<rparr>)"

inductive lane_step :: "app_state \<Rightarrow> effect list \<Rightarrow> app_state \<Rightarrow> bool" where
  Quiet: "core s' = core s \<Longrightarrow> list_all quiet effects \<Longrightarrow> lane_step s effects s'"
| Recorded: "next_sequence s = Inr (op_sequence operation)
    \<Longrightarrow> apply_mutation (board s) (op_forward operation) (op_created_at operation) = Inr b
    \<Longrightarrow> core s' = core (after_record operation edited b s)
    \<Longrightarrow> lane_step s [CommitBoardOperation operation] s'"
| Staged: "next_sequence s = Inr (op_sequence operation)
    \<Longrightarrow> core s' = core ((track_pending (op_sequence operation) s)\<lparr>deferred_board_operations :=
          Mapping.update (op_sequence operation) operation (deferred_board_operations s)\<rparr>)
    \<Longrightarrow> lane_step s [CommitBoardOperation operation] s'"
| Edited: "next_sequence s = Inr (rev_sequence r)
    \<Longrightarrow> live_thought s (rev_thought_id r) = Inr t
    \<Longrightarrow> t_content t = before_content r \<Longrightarrow> t_annotations t = before_annotations r
    \<Longrightarrow> observe_attachments (put_content (rev_thought_id r) (after_content r) (after_annotations r)
          (rev_created_at r) (board s)) = Inr b
    \<Longrightarrow> validate b = Inr () \<Longrightarrow> core s' = core (after_edit r b s)
    \<Longrightarrow> lane_step s [CommitRevision r] s'"
| Board_Moved: "next_sequence s = Inr q \<Longrightarrow> ensure_history_scope_ready s BoardScope undo = Inr ()
    \<Longrightarrow> board_operation_at s undo = Some operation
    \<Longrightarrow> apply_mutation (board s) (if undo then op_inverse operation else op_forward operation) at = Inr b
    \<Longrightarrow> core s' = core (track_pending q (s\<lparr>board := b, board_history_cursor := step_cursor undo (board_history_cursor s)\<rparr>))
    \<Longrightarrow> lane_step s [CommitHistoryMove oid (ses_id (b_session b)) BoardScope undo q at] s'"
| Editor_Moved: "next_sequence s = Inr q \<Longrightarrow> ensure_history_scope_ready s (EditorScope i) undo = Inr ()
    \<Longrightarrow> Mapping.lookup (editor_histories s) i = Some h \<Longrightarrow> history_revision h undo = Some r
    \<Longrightarrow> live_thought s i = Inr t
    \<Longrightarrow> t_content t = (if undo then after_content r else before_content r)
    \<Longrightarrow> t_annotations t = (if undo then after_annotations r else before_annotations r)
    \<Longrightarrow> core s' = core (track_pending q (s\<lparr>board := put_content i (if undo then before_content r else after_content r)
            (if undo then before_annotations r else after_annotations r) at (board s),
          editor_histories := Mapping.update i (h\<lparr>eh_cursor := step_cursor undo (eh_cursor h)\<rparr>) (editor_histories s)\<rparr>))
    \<Longrightarrow> lane_step s [CommitHistoryMove oid (ses_id (b_session (board s))) (EditorScope i) undo q at] s'"
| Kept_Name: "next_sequence s = Inr q \<Longrightarrow> core s' = core (track_pending q s)
    \<Longrightarrow> lane_step s [CommitThoughtNoOpRename oid (ses_id (b_session (board s))) i name q at] s'"
| Renamed: "session_rename (b_session (board s)) name = Inr renamed
    \<Longrightarrow> core s' = core (s\<lparr>board := (board s)\<lparr>b_session := renamed\<rparr>\<rparr>)
    \<Longrightarrow> effects = [] \<and> ses_name (b_session (board s)) = name \<or> (\<exists>operation. effects = [CommitBrowserOperation operation])
    \<Longrightarrow> lane_step s effects s'"
| Committed: "first_sequence (pending_sequences s) = Some q
    \<Longrightarrow> commit_deferred_board_operation q s = (Inr (), s1)
    \<Longrightarrow> core s' = core (acknowledge q s1) \<Longrightarrow> lane_step s [] s'"
| Persist_Failed: "q \<in> pending_sequences s
    \<Longrightarrow> failed = (case durability s of Failed _ failed _ \<Rightarrow> min failed q | _ \<Rightarrow> q)
    \<Longrightarrow> core s' = core (s\<lparr>durability := Failed (last_durable_sequence (b_session (board s))) failed code\<rparr>)
    \<Longrightarrow> lane_step s [Notify code] s'"
| Persist_Retried: "durability s = Failed d q code \<Longrightarrow> q \<in> pending_sequences s
    \<Longrightarrow> last_sequence (pending_sequences s) = Some latest
    \<Longrightarrow> core s' = core (s\<lparr>durability := Pending (last_durable_sequence (b_session (board s))) latest\<rparr>)
    \<Longrightarrow> lane_step s [RetryPersistenceEffect q] s'"

section \<open>Every handler takes a step or changes nothing\<close>

definition steps :: "app_state \<Rightarrow> (app_error, effect list, app_state) outcome \<Rightarrow> bool" where
  "steps s = ends (\<lambda>s'. s' = s) (lane_step s)"

lemma steps_try: "(\<And>x. r = Inr x \<Longrightarrow> steps s (k x)) \<Longrightarrow> steps s (try_st r s k)"
  unfolding steps_def by (rule ends_try) simp_all

lemma steps_simps [simp]: "steps s (Inl e, s)" "steps s (Inr [], s)"
  by (simp_all add: steps_def lane_step.Quiet)

lemma steps_if: "(c \<Longrightarrow> steps s a) \<Longrightarrow> (\<not> c \<Longrightarrow> steps s b) \<Longrightarrow> steps s (if c then a else b)"
  by simp

lemma steps_Let: "(\<And>x. x = v \<Longrightarrow> steps s (k x)) \<Longrightarrow> steps s (Let v k)"
  by (simp add: Let_def)

lemma steps_pair: "(\<And>a b. p = (a, b) \<Longrightarrow> steps s (k a b)) \<Longrightarrow> steps s (case p of (a, b) \<Rightarrow> k a b)"
  by (cases p) simp

lemmas steps_rules = steps_if steps_Let steps_pair steps_try

lemma steps_commit:
  assumes "\<And>operation. built = Inr operation \<Longrightarrow> next_sequence s = Inr (op_sequence operation)"
    and "\<And>operation s'. core (after operation s') = core s'"
  shows "steps s (commit_operation built after s)"
  unfolding commit_operation_def
proof (rule steps_try)
  fix operation assume b: "built = Inr operation"
  show "steps s (then_st (record_board_operation operation s)
      (\<lambda>_ s. (Inr [CommitBoardOperation operation], after operation s)))"
    using assms(1) [OF b] assms(2)
    by (auto simp: record_board_operation_def try_st_def then_st_def steps_def after_record_def split: sum.splits
        intro!: lane_step.Recorded [where edited = "[]"])
qed

lemma steps_transform:
  assumes "\<And>operation. built = Inr operation \<Longrightarrow> next_sequence s = Inr (op_sequence operation)"
    and "\<And>operation s'. core (after operation s') = core s'"
  shows "steps s (commit_transform built edited after s)"
  unfolding commit_transform_def
proof (rule steps_try)
  fix operation assume b: "built = Inr operation"
  show "steps s (then_st (record_transform operation edited s)
      (\<lambda>_ s. (Inr [CommitBoardOperation operation], after operation s)))"
    using assms(1) [OF b] assms(2)
    by (auto simp: record_transform_def record_board_operation_def try_st_def then_st_def steps_def after_record_def
        split: sum.splits intro!: lane_step.Recorded [where edited = edited] core_truncates)
qed

text \<open>Every operation a handler builds carries the next sequence.\<close>

lemma batch_sequence: "batch_operation s oid kind f g at = Inr operation \<Longrightarrow> next_sequence s = Inr (op_sequence operation)"
  by (auto simp: batch_operation_def)

lemma delete_sequence:
  "build_delete_thought_operation s oid i kind at = Inr operation \<Longrightarrow> next_sequence s = Inr (op_sequence operation)"
  by (auto simp: build_delete_thought_operation_def split: if_splits)

lemma built_sequence:
  "build_create i oid c an n h p nm at s = Inr operation \<Longrightarrow> next_sequence s = Inr (op_sequence operation)"
  "build_move_thought oid i from to at s = Inr operation \<Longrightarrow> next_sequence s = Inr (op_sequence operation)"
  "build_presentation oid i pr pr' at s = Inr operation \<Longrightarrow> next_sequence s = Inr (op_sequence operation)"
  "build_rename oid i nm nm' at s = Inr operation \<Longrightarrow> next_sequence s = Inr (op_sequence operation)"
  "build_separator j oid n at s = Inr operation \<Longrightarrow> next_sequence s = Inr (op_sequence operation)"
  "build_move_separator oid j from to at s = Inr operation \<Longrightarrow> next_sequence s = Inr (op_sequence operation)"
  by (auto simp: build_create_def build_move_thought_def build_presentation_def build_rename_def build_separator_def
      build_move_separator_def Let_def split: if_splits prod.splits)

lemma built_batch_sequence:
  "removal_batch s oid ts kind at = Inr operation \<Longrightarrow> next_sequence s = Inr (op_sequence operation)"
  "build_owned_thoughts oid items at s = Inr operation \<Longrightarrow> next_sequence s = Inr (op_sequence operation)"
  "build_duplicates oid ids ids' at s = Inr operation \<Longrightarrow> next_sequence s = Inr (op_sequence operation)"
  "build_duplicate_items oid ys zs at s = Inr operation \<Longrightarrow> next_sequence s = Inr (op_sequence operation)"
  "build_moves oid ms at s = Inr operation \<Longrightarrow> next_sequence s = Inr (op_sequence operation)"
  "build_neighbor oid i t sc sa nc na kind at s = Inr operation \<Longrightarrow> next_sequence s = Inr (op_sequence operation)"
  "build_merge oid ts sep at s = Inr operation \<Longrightarrow> next_sequence s = Inr (op_sequence operation)"
  "build_reference c ts i p s = Inr operation \<Longrightarrow> next_sequence s = Inr (op_sequence operation)"
  by (auto simp: removal_batch_def build_owned_thoughts_def build_duplicates_def build_duplicate_items_def
      build_moves_def build_neighbor_def build_merge_def build_reference_def Let_def
      split: if_splits prod.splits dest: batch_sequence)

lemmas sequence_rules = batch_sequence delete_sequence built_sequence built_batch_sequence

named_theorems handler_steps

lemma steps_create [handler_steps]: "steps s (create_thought_with_handoff i oid c an n h p nm at s)"
  unfolding create_thought_with_handoff_def by (rule steps_commit) (simp_all add: sequence_rules)

lemma steps_create_thought [handler_steps]: "steps s (create_thought i oid c an n at s)"
  unfolding create_thought_def by (rule steps_create)

lemma steps_create_compose [handler_steps]: "steps s (create_compose_thought i oid c an cur an' p at s)"
  unfolding create_compose_thought_def by (rule steps_create)

lemma steps_delete [handler_steps]: "steps s (delete_thought oid i kind at s)"
  unfolding delete_thought_def Let_def by (intro steps_rules steps_commit) (auto simp: sequence_rules)

lemma steps_deletes [handler_steps]: "steps s (delete_thoughts oid ids kind at s)"
  unfolding delete_thoughts_def Let_def
  by (auto simp: sequence_rules split: list.splits intro!: steps_rules steps_commit steps_delete)

lemma stage_ends: "ends (\<lambda>s'. s' = s)
   (\<lambda>_ s'. next_sequence s = Inr (op_sequence operation) \<and> s' = (track_pending (op_sequence operation) s)\<lparr>deferred_board_operations :=
          Mapping.update (op_sequence operation) operation (deferred_board_operations s)\<rparr>) (stage_board_operation operation s)"
  by (auto simp: stage_board_operation_def try_st_def Let_def track_pending_def refresh_durability_def split: sum.splits)

lemma steps_stage [handler_steps]: "steps s (stage_submission_removal oid ids at s)"
  unfolding stage_submission_removal_def
proof (intro steps_rules)
  fix operation
  show "steps s (then_st (stage_board_operation operation s) (\<lambda>_ s. (Inr [CommitBoardOperation operation], s)))"
    unfolding steps_def by (rule ends_then [OF stage_ends]) (auto intro: lane_step.Staged)
qed simp

lemma steps_moves [handler_steps]:
  "steps s (app_move_thought oid i to at s)" "steps s (move_item oid item to at s)"
  "steps s (move_items oid items delta at s)" "steps s (insert_separator j oid n at s)"
proof -
  show *: "steps s (app_move_thought oid i to at s)" for i
    unfolding app_move_thought_def by (intro steps_rules steps_commit) (auto simp: sequence_rules)
  show "steps s (move_item oid item to at s)"
    unfolding move_item_def
    by (cases item) (auto simp: * sequence_rules intro!: steps_rules steps_commit)
  show "steps s (move_items oid items delta at s)"
    unfolding move_items_def by (intro steps_rules steps_commit) (auto simp: sequence_rules)
  show "steps s (insert_separator j oid n at s)"
    unfolding insert_separator_def by (intro steps_rules steps_commit) (auto simp: sequence_rules)
qed

lemma steps_presentation [handler_steps]: "steps s (app_set_presentation oid i p at s)"
  unfolding app_set_presentation_def by (intro steps_rules steps_commit) (auto simp: sequence_rules)

lemma steps_rename [handler_steps]: "steps s (rename_thought oid i name at s)"
  unfolding rename_thought_def
proof (intro steps_rules)
  fix t q s1 assume "next_sequence s = Inr q" "s1 = track_pending q s"
  then show "steps s (Inr [CommitThoughtNoOpRename oid (ses_id (b_session (board s1))) i name q at], s1)"
    by (simp add: steps_def track_pending_def refresh_durability_def Let_def lane_step.Kept_Name)
qed (auto simp: sequence_rules intro!: steps_commit)

lemma steps_presentations [handler_steps]: "steps s (set_presentation_many oid ids p at s)"
  unfolding set_presentation_many_def Let_def
  by (auto simp: sequence_rules split: list.splits intro!: steps_rules steps_commit steps_presentation)

lemma steps_copies [handler_steps]:
  "steps s (create_owned_thoughts oid items at s)" "steps s (duplicate_thoughts oid ids ids' at s)"
  "steps s (duplicate_items oid xs ys at s)"
  unfolding create_owned_thoughts_def duplicate_thoughts_def duplicate_items_def
  by (intro steps_commit; simp add: sequence_rules)+

lemma steps_delete_items [handler_steps]: "steps s (delete_items oid xs kind at s)"
  unfolding delete_items_def Let_def by (intro steps_rules steps_commit) (auto simp: sequence_rules)

lemma steps_neighbor: "steps s (transform_into_neighbor oid i t sc sa nc na kind at s)"
  unfolding transform_into_neighbor_def by (rule steps_transform) (simp_all add: sequence_rules)

lemma steps_transforms [handler_steps]:
  "steps s (split_thought oid i src n at s)" "steps s (extract_thought oid i src n m at s)"
  "steps s (merge_thoughts oid ids ts sep at s)" "steps s (reflow_thought r s)" "steps s (reflow_thoughts batch s)"
proof -
  show "steps s (split_thought oid i src n at s)"
    unfolding split_thought_def by (intro steps_rules steps_neighbor)
  show "steps s (extract_thought oid i src n m at s)"
    unfolding extract_thought_def by (intro steps_rules steps_neighbor) simp_all
  show "steps s (merge_thoughts oid ids ts sep at s)"
    unfolding merge_thoughts_def by (intro steps_rules steps_transform) (auto simp: sequence_rules)
  show "steps s (reflow_thought r s)"
    unfolding reflow_thought_def by (intro steps_rules steps_transform) (auto simp: sequence_rules)
  show "steps s (reflow_thoughts batch s)"
    unfolding reflow_thoughts_def by (intro steps_rules steps_transform) (auto simp: sequence_rules)
qed

lemma steps_export [handler_steps]: "steps s (complete_export c s)"
  unfolding complete_export_def
  by (intro steps_rules) (auto split: export_board_change.splits simp: sequence_rules intro: steps_deletes steps_commit)

lemma steps_request [handler_steps]: "steps s (request_clipboard rid ids intent oid at s)"
  unfolding request_clipboard_def
  by (intro steps_rules) (auto simp: steps_def intro!: lane_step.Quiet)

lemma steps_edit [handler_steps]: "steps s (edit_thought i rid bc ac ba aa c1 a1 c2 a2 at s)"
  unfolding edit_thought_def
proof (intro steps_rules)
  fix current x annotations y q revision t b u s1 s2
  assume a: "live_thought s i = Inr current" "\<not> (t_content current \<noteq> bc \<or> t_annotations current \<noteq> ba)"
    "next_sequence s = Inr q"
    "revision = \<lparr>rev_id = rid, rev_session_id = ses_id (b_session (board s)), rev_thought_id = i,
            rev_sequence = q, before_content = bc, after_content = ac, before_annotations = ba,
            after_annotations = annotations, before_cursor = c1, before_selection_anchor = a1,
            after_cursor = c2, after_selection_anchor = a2, rev_created_at = at\<rparr>"
    "domain (observe_attachments (thought_mut (board s) i
        (\<lambda>t. t\<lparr>t_content := ac, t_annotations := annotations, t_updated_at := at\<rparr>))) = Inr b"
    "domain (validate b) = Inr u" "s1 = truncate_conflicting_board_redo i (s\<lparr>board := b\<rparr>)"
    "s2 = s1\<lparr>editor_histories := Mapping.update i (push_revision revision (history_or_default s1 i)) (editor_histories s1)\<rparr>"
  show "steps s (Inr [CommitRevision revision], track_pending q s2)"
    unfolding steps_def ends_simps
    by (rule lane_step.Edited [where t = current and b = b]) (use a in \<open>simp_all add: put_content_def after_edit_def Let_def\<close>)
qed simp_all

lemma board_move_ends:
  "ends (\<lambda>s'. s' = s) (\<lambda>_ s'. \<exists>operation b. board_operation_at s undo = Some operation
     \<and> apply_mutation (board s) (if undo then op_inverse operation else op_forward operation) at = Inr b
     \<and> core s' = core (s\<lparr>board := b, board_history_cursor := step_cursor undo (board_history_cursor s)\<rparr>))
    (move_board_history at undo s)"
  unfolding move_board_history_def
  by (auto simp: try_st_def Let_def restore_source_focus_def restore_compose_def split: sum.splits option.splits)

lemma editor_move_ends:
  "ends (\<lambda>s'. s' = s) (\<lambda>_ s'. \<exists>h r t. Mapping.lookup (editor_histories s) i = Some h \<and> history_revision h undo = Some r
     \<and> live_thought s i = Inr t
     \<and> t_content t = (if undo then after_content r else before_content r)
     \<and> t_annotations t = (if undo then after_annotations r else before_annotations r)
     \<and> s' = s\<lparr>board := put_content i (if undo then before_content r else after_content r)
            (if undo then before_annotations r else after_annotations r) at (board s),
          editor_histories := Mapping.update i (h\<lparr>eh_cursor := step_cursor undo (eh_cursor h)\<rparr>) (editor_histories s)\<rparr>)
    (move_editor_history i at undo s)"
  unfolding move_editor_history_def
  by (auto simp: try_st_def Let_def put_content_def split: sum.splits option.splits)

lemma core_track: "core s = core s' \<Longrightarrow> core (track_pending q s) = core (track_pending q s')"
  by (simp add: track_pending_def refresh_durability_def core_def Let_def split: durability_state.splits option.splits)

lemma track_fields [simp]:
  "board (track_pending q s) = board s" "board_history (track_pending q s) = board_history s"
  "board_history_cursor (track_pending q s) = board_history_cursor s"
  "editor_histories (track_pending q s) = editor_histories s"
  "pending_sequences (track_pending q s) = insert q (pending_sequences s)"
  "deferred_board_operations (track_pending q s) = deferred_board_operations s"
  "highest_sequence (track_pending q s) = q" "focused_item (track_pending q s) = focused_item s"
  "locked_thoughts (track_pending q s) = locked_thoughts s" "mode (track_pending q s) = mode s"
  by (simp_all add: track_pending_def refresh_durability_def Let_def)

lemma steps_history [handler_steps]: "steps s (history_move oid scope at undo s)"
  unfolding history_move_def
proof (intro steps_rules)
  fix u q assume ready: "ensure_history_scope_ready s scope undo = Inr u" and q: "next_sequence s = Inr q"
  show "steps s (then_st (case scope of BoardScope \<Rightarrow> move_board_history at undo s | EditorScope i \<Rightarrow> move_editor_history i at undo s)
     (\<lambda>_ s. let s1 = track_pending q s in (Inr [CommitHistoryMove oid (ses_id (b_session (board s1))) scope undo q at], s1)))"
  proof (cases scope)
    case BoardScope
    show ?thesis
      unfolding BoardScope undo_scope.case steps_def Let_def
    proof (rule ends_then [OF board_move_ends], elim exE conjE)
      fix x s' operation b
      assume a: "board_operation_at s undo = Some operation"
        "apply_mutation (board s) (if undo then op_inverse operation else op_forward operation) at = Inr b"
        "core s' = core (s\<lparr>board := b, board_history_cursor := step_cursor undo (board_history_cursor s)\<rparr>)"
      have b: "board s' = b" using core_fields(1) [OF a(3)] by simp
      show "ends (\<lambda>s'. s' = s) (lane_step s)
        (Inr [CommitHistoryMove oid (ses_id (b_session (board (track_pending q s')))) BoardScope undo q at], track_pending q s')"
        unfolding ends_simps track_fields b using q ready BoardScope a(1,2) core_track [OF a(3)]
        by (intro lane_step.Board_Moved) simp_all
    qed
  next
    case (EditorScope i)
    show ?thesis
      unfolding EditorScope undo_scope.case steps_def Let_def
    proof (rule ends_then [OF editor_move_ends], elim exE conjE)
      fix x s' h r t
      assume a: "Mapping.lookup (editor_histories s) i = Some h" "history_revision h undo = Some r" "live_thought s i = Inr t"
        "t_content t = (if undo then after_content r else before_content r)"
        "t_annotations t = (if undo then after_annotations r else before_annotations r)"
        and s': "s' = s\<lparr>board := put_content i (if undo then before_content r else after_content r)
            (if undo then before_annotations r else after_annotations r) at (board s),
          editor_histories := Mapping.update i (h\<lparr>eh_cursor := step_cursor undo (eh_cursor h)\<rparr>) (editor_histories s)\<rparr>"
      have ses: "b_session (board s') = b_session (board s)" by (simp add: s' put_content_def thought_mut_def)
      show "ends (\<lambda>s'. s' = s) (lane_step s)
        (Inr [CommitHistoryMove oid (ses_id (b_session (board (track_pending q s')))) (EditorScope i) undo q at], track_pending q s')"
        unfolding ends_simps track_fields ses using q ready EditorScope a s'
        by (intro lane_step.Editor_Moved) simp_all
    qed
  qed
qed

lemma live_thought_iff: "live_thought s i = Inr t \<longleftrightarrow> thought_of (board s) i = Some t \<and> t_is_live t"
  by (simp add: live_thought_def)

lemma core_lookups:
  assumes "core s = core s'"
  shows "next_sequence s = next_sequence s'" "live_thought s = live_thought s'"
    "board_operation_at s = board_operation_at s'" "editor_sequence s = editor_sequence s'"
    "board_dependency_blocker s = board_dependency_blocker s'"
proof -
  note f = core_fields [OF assms]
  show "next_sequence s = next_sequence s'" "live_thought s = live_thought s'"
    "board_operation_at s = board_operation_at s'" and e: "editor_sequence s = editor_sequence s'"
    by (simp_all add: f next_sequence_def live_thought_def fun_eq_iff board_operation_at_def editor_sequence_def)
  show "board_dependency_blocker s = board_dependency_blocker s'"
    by (simp add: e board_dependency_blocker_def fun_eq_iff)
qed

lemma core_ready: "core s = core s' \<Longrightarrow> ensure_history_scope_ready s scope undo = ensure_history_scope_ready s' scope undo"
  by (cases scope) (simp_all add: core_lookups [of s s'])

declare ensure_history_scope_ready.simps [simp del]

lemma core_put: "core s = core s' \<Longrightarrow> core (s\<lparr>board := b\<rparr>) = core (s'\<lparr>board := b\<rparr>)"
  by (simp add: core_def)

lemma core_record: "core s = core s' \<Longrightarrow> core (after_record operation edited b s) = core (after_record operation edited b s')"
  unfolding after_record_def by (intro core_truncates core_track) (simp add: core_def push_board_history_def)

text \<open>Truncation of the redo tail as an update of the history alone.\<close>

definition kept_redo :: "thought_id \<Rightarrow> nat \<Rightarrow> board_operation list \<Rightarrow> board_operation list" where
  "kept_redo i n ops =
     (case index_of (\<lambda>operation. addresses i (op_forward operation) \<or> addresses i (op_inverse operation)) (drop n ops) of
        None \<Rightarrow> ops | Some offset \<Rightarrow> take (n + offset) ops)"

lemma truncate_redo_eq:
  "truncate_conflicting_board_redo i s = s\<lparr>board_history := kept_redo i (board_history_cursor s) (board_history s)\<rparr>"
  unfolding truncate_conflicting_board_redo_def kept_redo_def by (simp del: index_of_None_iff split: option.split)

lemma core_edit: "core s = core s' \<Longrightarrow> core (after_edit r b s) = core (after_edit r b s')"
  unfolding after_edit_def Let_def truncate_redo_eq
  by (intro core_track) (simp add: core_def history_or_default_def)

lemma core_commit:
  assumes "core s = core s'" and "commit_deferred_board_operation q s = (Inr (), s1)"
  shows "\<exists>s1'. commit_deferred_board_operation q s' = (Inr (), s1') \<and> core s1' = core s1"
proof (cases "Mapping.lookup (deferred_board_operations s) q")
  case None
  then show ?thesis using assms core_fields(7) [OF assms(1)] by (simp add: commit_deferred_board_operation_def)
next
  case (Some operation)
  let ?r = "\<lambda>x. apply_mutation (board x) (op_forward operation) (op_created_at operation)"
  let ?k = "\<lambda>x b. (push_board_history operation (x\<lparr>board := b\<rparr>))\<lparr>deferred_board_operations :=
     Mapping.delete q (deferred_board_operations x)\<rparr>"
  obtain b where b: "?r s = Inr b" using assms(2) Some
    by (auto simp: commit_deferred_board_operation_def try_st_def split: sum.splits)
  have "commit_deferred_board_operation q x = (Inr (), keep_focus_valid (?k x b))" if "core x = core s" for x
    using Some b core_fields(1,7) [OF that]
    by (simp add: commit_deferred_board_operation_def try_st_def Let_def push_board_history_def)
  moreover have "core (?k s b) = core (?k s' b)" using assms(1) by (simp add: core_def push_board_history_def)
  ultimately show ?thesis using assms by (metis Pair_inject core_keep_focus)
qed

lemma core_acknowledge: "core s = core s' \<Longrightarrow> core (acknowledge q s) = core (acknowledge q s')"
  by (simp add: acknowledge_def refresh_durability_def core_def Let_def split: durability_state.splits option.splits)

lemma lane_step_core:
  assumes "lane_step s effects s'" and c: "core s = core z"
  shows "lane_step z effects s'"
  using assms(1)
proof cases
  case Quiet
  then show ?thesis using c by (intro lane_step.Quiet) simp_all
next
  case (Recorded operation b edited)
  then show ?thesis
    using core_record [OF c] core_fields(1) [OF c] core_lookups(1) [OF c] lane_step.Recorded [of z operation b s' edited] by simp
next
  case (Staged operation)
  have "core ((track_pending (op_sequence operation) s)\<lparr>deferred_board_operations := m\<rparr>)
      = core ((track_pending (op_sequence operation) z)\<lparr>deferred_board_operations := m\<rparr>)" for m
    using core_track [OF c, of "op_sequence operation"] by (simp add: core_def)
  then show ?thesis
    using Staged core_fields(7) [OF c] core_lookups(1) [OF c] lane_step.Staged [of z operation s'] by simp
next
  case (Edited r t b)
  then show ?thesis
    using core_edit [OF c] core_fields(1) [OF c] core_lookups(1,2) [OF c] lane_step.Edited [of z r t b s'] by simp
next
  case (Board_Moved q undo operation at b oid)
  have "core (s\<lparr>board := b, board_history_cursor := n\<rparr>) = core (z\<lparr>board := b, board_history_cursor := n\<rparr>)" for n
    using c by (simp add: core_def)
  from core_track [OF this] show ?thesis
    using Board_Moved core_fields(1,4) [OF c] core_lookups(1,3,5) [OF c] core_ready [OF c]
      lane_step.Board_Moved [of z q undo operation at b s' oid] by simp
next
  case (Editor_Moved q i undo h r t at oid)
  have "core (s\<lparr>board := b, editor_histories := m\<rparr>) = core (z\<lparr>board := b, editor_histories := m\<rparr>)" for b m
    using c by (simp add: core_def)
  from core_track [OF this] show ?thesis
    using Editor_Moved core_fields(1,5) [OF c] core_lookups(1,2) [OF c] core_ready [OF c]
      lane_step.Editor_Moved [of z q i undo h r t s' at oid] by simp
next
  case (Kept_Name q oid i name at)
  then show ?thesis
    using core_track [OF c] core_fields(1) [OF c] core_lookups(1) [OF c] lane_step.Kept_Name [of z q s' oid i name at] by simp
next
  case (Renamed name renamed)
  then show ?thesis
    using core_put [OF c] core_fields(1) [OF c] lane_step.Renamed [of z name renamed s' effects] by simp
next
  case (Committed q s1)
  obtain s1' where "commit_deferred_board_operation q z = (Inr (), s1')" "core s1' = core s1"
    using core_commit [OF c Committed(3)] by blast
  then show ?thesis
    using Committed core_acknowledge [of s1' s1 q] core_fields(6) [OF c] lane_step.Committed [of z q s1' s'] by simp
next
  case (Persist_Failed q failed code)
  have "core (s\<lparr>durability := d\<rparr>) = core (z\<lparr>durability := d\<rparr>)" for d using c by (simp add: core_def)
  then show ?thesis
    using Persist_Failed core_fields [OF c] lane_step.Persist_Failed [of q z failed s' code] by simp
next
  case (Persist_Retried d q code latest)
  have "core (s\<lparr>durability := d\<rparr>) = core (z\<lparr>durability := d\<rparr>)" for d using c by (simp add: core_def)
  then show ?thesis
    using Persist_Retried core_fields [OF c] lane_step.Persist_Retried [of z d q code latest s'] by simp
qed

lemma finish_clipboard_ends:
  "ends (\<lambda>s'. s' = s\<lparr>pending_clipboards := Mapping.delete rid (pending_clipboards s)\<rparr>) (lane_step s)
     (finish_clipboard rid result s)"
proof (cases "Mapping.lookup (pending_clipboards s) rid")
  case None
  then show ?thesis by (simp add: finish_clipboard_def lane_step.Quiet)
next
  case (Some pending)
  let ?s = "s\<lparr>pending_clipboards := Mapping.delete rid (pending_clipboards s)\<rparr>"
  have quiet: "lane_step s effects ?s" if "list_all quiet effects" for effects
    using that by (intro lane_step.Quiet) simp_all
  have "ends (\<lambda>s'. s' = ?s) (lane_step s) (delete_thoughts oid ids kind at ?s)" for oid ids kind at
    using steps_deletes [of ?s oid ids kind at] unfolding steps_def
    by (rule ends_weaken) (auto elim: lane_step_core)
  then show ?thesis
    unfolding finish_clipboard_def Some option.case Let_def
    by (cases result) (auto simp: quiet intro!: ends_try split: option.splits)
qed

lemma steps_navigation: "steps s (reduce_navigation a s)"
  unfolding reduce_navigation_def steps_def
  by (cases a) (auto intro!: ends_try lane_step.Quiet split: option.splits)

lemma steps_locks: "steps s (lock_transition a s)"
  unfolding lock_transition_def steps_def
  by (cases a) (auto intro!: ends_try lane_step.Quiet split: option.splits)

lemma steps_creation: "steps s (reduce_creation a s)"
  unfolding reduce_creation_def create_owned_thought_def
  by (cases a) (auto intro!: steps_try handler_steps)

lemma steps_content: "steps s (reduce_content a s)"
  unfolding reduce_content_def edit_owned_thought_def
  by (cases a) (auto intro!: steps_try handler_steps steps_creation)

lemma steps_content_transform: "steps s (reduce_content_transform a s)"
  unfolding reduce_content_transform_def by (cases a) (auto intro!: handler_steps)

lemma steps_board: "steps s (reduce_board a s)"
  unfolding reduce_board_def reduce_board_bulk_def by (cases a) (auto intro!: handler_steps)

lemma steps_reduce_history: "steps s (reduce_history a s)"
  unfolding reduce_history_def by (cases a) (auto intro!: handler_steps)

lemma commit_deferred_Inl: "commit_deferred_board_operation q s = (Inl e, s') \<Longrightarrow> s' = s"
  by (auto simp: commit_deferred_board_operation_def try_st_def Let_def split: option.splits sum.splits)

lemma steps_persistence: "steps s (reduce_persistence a s)"
proof (cases a)
  case (PersistenceCommitted q)
  show ?thesis
  proof (cases "first_sequence (pending_sequences s) = Some q")
    case True
    obtain v s1 where c: "commit_deferred_board_operation q s = (v, s1)" by fastforce
    show ?thesis
    proof (cases v)
      case (Inl e)
      then show ?thesis using True c commit_deferred_Inl [of q s e s1]
        by (simp add: PersistenceCommitted reduce_persistence_def then_st_def steps_def)
    next
      case (Inr u)
      then have "lane_step s [] (acknowledge q s1)" using True c by (intro lane_step.Committed) simp_all
      then show ?thesis using True c Inr
        by (simp add: PersistenceCommitted reduce_persistence_def then_st_def steps_def acknowledge_def Let_def)
    qed
  qed (simp add: PersistenceCommitted reduce_persistence_def steps_def)
next
  case (PersistenceFailed q code)
  then show ?thesis
    by (auto simp: reduce_persistence_def steps_def Let_def intro!: lane_step.Persist_Failed)
next
  case (RetryPersistence q)
  then show ?thesis
    by (cases "durability s")
      (auto simp: reduce_persistence_def steps_def intro!: ends_try lane_step.Persist_Retried split: failure_code.splits)
qed (simp_all add: reduce_persistence_def)

lemma rename_session_ends:
  assumes "validate_optional_name (ses_name (b_session (board s))) = Inr ()"
  shows "steps s (rename_session oid name at s)"
proof -
  let ?ses = "b_session (board s)"
  show ?thesis
  proof (cases "validate_optional_name name")
    case (Inl e)
    then show ?thesis by (simp add: rename_session_def session_rename_def try_st_def Let_def)
  next
    case (Inr u)
    let ?ses' = "?ses\<lparr>ses_name := name\<rparr>"
    have r: "session_rename ?ses name = Inr ?ses'" using Inr by (simp add: session_rename_def)
    have step: "lane_step s effects (s\<lparr>board := (board s)\<lparr>b_session := ?ses'\<rparr>\<rparr>)"
      if "effects = [] \<and> ses_name ?ses = name \<or> (\<exists>operation. effects = [CommitBrowserOperation operation])" for effects
      using r by (rule lane_step.Renamed) (use that in simp_all)
    show ?thesis using Inr assms
      by (auto simp: rename_session_def r try_st_def Let_def steps_def browser_rename_def step)
  qed
qed

text \<open>Every action takes a step of the lane. One that fails changes nothing, except that a clipboard
  completion has consumed its pending request.\<close>

definition consumed :: "action \<Rightarrow> app_state \<Rightarrow> app_state" where
  "consumed a s = (case a of
     ClipboardResult rid _ \<Rightarrow> s\<lparr>pending_clipboards := Mapping.delete rid (pending_clipboards s)\<rparr>
   | _ \<Rightarrow> s)"

lemma route_ends:
  assumes "validate_optional_name (ses_name (b_session (board s))) = Inr ()"
  shows "ends (\<lambda>s'. s' = consumed a s) (lane_step s) (route a s)"
proof (cases "\<exists>rid result. a = ClipboardResult rid result")
  case True
  then show ?thesis
    by (auto simp: route_def reduce_clipboard_def consumed_def finish_clipboard_ends)
next
  case False
  then have "steps s (route a s)"
    using rename_session_ends [OF assms]
    by (cases a) (auto simp: route_def reduce_clipboard_def intro!: steps_navigation steps_content steps_content_transform
        steps_board steps_reduce_history steps_persistence steps_locks handler_steps)
  moreover have "consumed a s = s" using False by (cases a) (auto simp: consumed_def)
  ultimately show ?thesis by (simp add: steps_def)
qed

end
