(* ===== verification/Session_Lane.thy ===== *)
theory Session_Lane
  imports Reducer
begin

text \<open>
  What surrounds the reducer lane: the durable request an effect stands for and the split of a
  mutation's effects (\<open>src/application/model/effect.rs\<close>, \<open>src/ports/store/operation.rs\<close>), rehydration of a
  lane from a durable snapshot (\<open>src/application/rehydrate.rs\<close>, \<open>src/ports/store/session.rs\<close>) and commit-first
  screenshot captures (\<open>src/application/capture.rs\<close>, \<open>src/ports/store/capture.rs\<close>,
  \<open>src/ports/store/receipt.rs\<close>).

  A 32-byte fingerprint is the list of its bytes.
\<close>

section \<open>Durable requests\<close>

type_synonym fingerprint = "u8 list"

datatype durable_identity = OperationIdentity operation_id | RevisionIdentity revision_id

record commit_receipt =
  rc_session_id :: session_id
  rc_sequence :: operation_sequence
  rc_identity :: durable_identity
  rc_idempotent_replay :: bool

datatype direction = Up | Right | Down | Left

record integration_context =
  ic_provider :: rstr
  ic_direction :: direction
  ic_agent_kind :: rstr
  ic_agent_name :: rstr
  ic_workspace_hint :: "rstr option"
  ic_tab_hint :: "rstr option"
  ic_pane_hint :: "rstr option"
  ic_verified_at :: timestamp

datatype operation_batch =
    CreateSession session
  | BatchBoard board_operation "fingerprint option"
  | BatchRevision thought_revision "fingerprint option"
  | BatchHistoryMove operation_id session_id undo_scope bool operation_sequence timestamp "fingerprint option"
  | BatchNoOpRename operation_id session_id thought_id "thought_name option" operation_sequence timestamp
      "fingerprint option"
  | BatchContext session_id "integration_context option"

fun batch_sequence_of :: "operation_batch \<Rightarrow> operation_sequence option" where
  "batch_sequence_of (BatchBoard operation _) = Some (op_sequence operation)"
| "batch_sequence_of (BatchRevision revision _) = Some (rev_sequence revision)"
| "batch_sequence_of (BatchHistoryMove _ _ _ _ sequence _ _) = Some sequence"
| "batch_sequence_of (BatchNoOpRename _ _ _ _ sequence _ _) = Some sequence"
| "batch_sequence_of (CreateSession _) = None"
| "batch_sequence_of (BatchContext _ _) = None"

text \<open>The failures of the store, without their messages.\<close>

datatype store_error =
    StoreBusy | StoreNotFound | StoreConflict | StoreIntegrity
  | UnsupportedSchema u32 u32 | UnsupportedStorageProtocol u32 u32 | MigrationRequired u32 u32
  | StoreBackup | StoreCorrupt | StoreIo | StoreSerialization | StoreInvariant | StoreDiskFull | StoreRecoveryCapacity

fun attach_semantic_fingerprint :: "durable_identity \<Rightarrow> fingerprint \<Rightarrow> operation_batch \<Rightarrow> store_error + operation_batch" where
  "attach_semantic_fingerprint identity fp (BatchBoard operation _) =
     (if identity = OperationIdentity (op_id operation) then Inr (BatchBoard operation (Some fp)) else Inl StoreConflict)"
| "attach_semantic_fingerprint identity fp (BatchRevision revision _) =
     (if identity = RevisionIdentity (rev_id revision) then Inr (BatchRevision revision (Some fp)) else Inl StoreConflict)"
| "attach_semantic_fingerprint identity fp (BatchHistoryMove oid sid scope undo q at _) =
     (if identity = OperationIdentity oid then Inr (BatchHistoryMove oid sid scope undo q at (Some fp)) else Inl StoreConflict)"
| "attach_semantic_fingerprint identity fp (BatchNoOpRename oid sid i name q at _) =
     (if identity = OperationIdentity oid then Inr (BatchNoOpRename oid sid i name q at (Some fp)) else Inl StoreConflict)"
| "attach_semantic_fingerprint identity fp (CreateSession _) = Inl StoreConflict"
| "attach_semantic_fingerprint identity fp (BatchContext _ _) = Inl StoreConflict"

fun persistence_batch :: "effect \<Rightarrow> operation_batch option" where
  "persistence_batch (CommitBoardOperation operation) = Some (BatchBoard operation None)"
| "persistence_batch (CommitThoughtNoOpRename oid sid i name q at) = Some (BatchNoOpRename oid sid i name q at None)"
| "persistence_batch (CommitRevision revision) = Some (BatchRevision revision None)"
| "persistence_batch (CommitHistoryMove oid sid scope undo q at) = Some (BatchHistoryMove oid sid scope undo q at None)"
| "persistence_batch _ = None"

datatype sequenced_error = MissingDurable | MissingSequence | MultipleDurable | UnsupportedAuxiliary | InvalidSemanticFingerprint

record sequenced_effects =
  se_batch :: operation_batch
  se_sequence :: operation_sequence
  se_auxiliary :: "effect list"

definition assign_durable_batch :: "operation_batch option \<Rightarrow> operation_batch \<Rightarrow> sequenced_error + operation_batch option" where
  "assign_durable_batch batch candidate = (if batch \<noteq> None then Inl MultipleDurable else Inr (Some candidate))"

fun split_effects :: "operation_batch option \<Rightarrow> effect list \<Rightarrow> effect list
    \<Rightarrow> sequenced_error + (operation_batch option \<times> effect list)" where
  "split_effects batch auxiliary [] = Inr (batch, auxiliary)"
| "split_effects batch auxiliary (e # es) =
     (case persistence_batch e of
        Some candidate \<Rightarrow> try_bind (assign_durable_batch batch candidate) (\<lambda>batch. split_effects batch auxiliary es)
      | None \<Rightarrow>
          (case e of CheckAttachments _ \<Rightarrow> split_effects batch (auxiliary @ [e]) es
           | _ \<Rightarrow> Inl UnsupportedAuxiliary))"

definition sequenced_new :: "effect list \<Rightarrow> sequenced_error + sequenced_effects" where
  "sequenced_new effects =
     try_bind (split_effects None [] effects) (\<lambda>(batch, auxiliary).
     try_bind (ok_or MissingDurable batch) (\<lambda>batch.
     try_bind (ok_or MissingSequence (batch_sequence_of batch)) (\<lambda>sequence.
       Inr \<lparr>se_batch = batch, se_sequence = sequence, se_auxiliary = auxiliary\<rparr>)))"

section \<open>Rehydration\<close>

record session_snapshot =
  sn_board :: session_board
  sn_board_operations :: "board_operation list"
  sn_board_history_cursor :: nat
  sn_revisions :: "thought_revision list"
  sn_editor_history_cursors :: "(thought_id \<times> nat) list"
  sn_integration_context :: "integration_context option"

definition observe_operation :: "attachment_counters \<Rightarrow> board_operation \<Rightarrow> domain_error + attachment_counters" where
  "observe_operation c operation =
     try_bind (observe_mutation c (op_forward operation)) (\<lambda>c. observe_mutation c (op_inverse operation))"

definition observe_revision :: "attachment_counters \<Rightarrow> thought_revision \<Rightarrow> domain_error + attachment_counters" where
  "observe_revision c revision =
     try_bind (observe c (before_annotations revision)) (\<lambda>c. observe c (after_annotations revision))"

definition or_default :: "(thought_id, editor_history) mapping \<Rightarrow> thought_id \<Rightarrow> editor_history" where
  "or_default m i = (case Mapping.lookup m i of None \<Rightarrow> empty_history | Some h \<Rightarrow> h)"

definition collect_revision :: "session_board \<Rightarrow> (thought_id, editor_history) mapping \<Rightarrow> thought_revision
    \<Rightarrow> app_error + (thought_id, editor_history) mapping" where
  "collect_revision b m revision =
     (if rev_session_id revision \<noteq> ses_id (b_session b) \<or> thought_of b (rev_thought_id revision) = None
      then Inl AppInvalidState
      else (let h = or_default m (rev_thought_id revision) in
        Inr (Mapping.update (rev_thought_id revision) (h\<lparr>eh_revisions := eh_revisions h @ [revision]\<rparr>) m)))"

definition collect_cursor :: "session_board
    \<Rightarrow> thought_id set \<times> (thought_id, editor_history) mapping \<Rightarrow> thought_id \<times> nat
    \<Rightarrow> app_error + thought_id set \<times> (thought_id, editor_history) mapping" where
  "collect_cursor b = (\<lambda>(owners, m) (i, cursor).
     if i \<in> owners \<or> thought_of b i = None then Inl AppInvalidState
     else (let h = or_default m i in
       if cursor > length (eh_revisions h) then Inl AppInvalidState
       else Inr (insert i owners, Mapping.update i (h\<lparr>eh_cursor := cursor\<rparr>) m)))"

definition from_snapshot :: "session_snapshot \<Rightarrow> app_error + app_state" where
  "from_snapshot sn =
     (let b = sn_board sn in
      try_bind (domain (try_fold observe_operation (b_counters b) (sn_board_operations sn))) (\<lambda>c.
      try_bind (domain (try_fold observe_revision c (sn_revisions sn))) (\<lambda>c.
      if c \<noteq> b_counters b then Inl AppInvalidState
      else if sn_board_history_cursor sn > length (sn_board_operations sn)
         \<or> list_ex (\<lambda>operation. op_session_id operation \<noteq> ses_id (b_session b)) (sn_board_operations sn)
      then Inl AppInvalidState
      else try_bind (try_fold (collect_revision b) Mapping.empty (sn_revisions sn)) (\<lambda>m.
      try_bind (try_fold (collect_cursor b) ({}, m) (sn_editor_history_cursors sn)) (\<lambda>(_, m).
        Inr ((app_new b)\<lparr>board_history := sn_board_operations sn,
          board_history_cursor := sn_board_history_cursor sn, editor_histories := m\<rparr>))))))"

section \<open>Screenshot captures\<close>

datatype screenshot_image_type = Png | Jpeg | Tiff

record screenshot_candidate =
  sc_fingerprint :: fingerprint
  sc_path :: path
  sc_image_type :: screenshot_image_type

record capture_commit =
  cc_source :: fingerprint
  cc_operation :: board_operation

record capture_receipt =
  cr_source :: fingerprint
  cr_session_id :: session_id
  cr_thought_id :: thought_id
  cr_operation_id :: operation_id
  cr_accepted_at :: timestamp

datatype capture_outcome = Created commit_receipt capture_receipt | AlreadyCaptured capture_receipt

definition prepare_capture ::
  "app_state \<Rightarrow> screenshot_candidate \<Rightarrow> thought_id \<Rightarrow> operation_id \<Rightarrow> timestamp \<Rightarrow> app_error + capture_commit" where
  "prepare_capture s candidate i oid at =
     try_bind (attachment_reference (sc_path candidate) True) (\<lambda>(content, annotation).
     try_bind (next_sequence s) (\<lambda>sequence.
     try_bind (map_err (\<lambda>_. AppInvalidState) (position_u32 (length (live_items (board s))))) (\<lambda>position.
     try_bind (domain (assign (b_counters (board s)) [annotation])) (\<lambda>(annotations, _).
     try_bind (domain (set_annotations (thought_new i (ses_id (b_session (board s))) content position at) annotations)) (\<lambda>thought.
       Inr \<lparr>cc_source = sc_fingerprint candidate,
         cc_operation = \<lparr>op_id = oid, op_session_id = ses_id (b_session (board s)), op_sequence = sequence,
           op_kind = Create, op_forward = AddThought thought, op_inverse = SetDeletion i (Some at) position,
           op_created_at = at\<rparr>\<rparr>)))))"

definition matching_capture :: "app_state \<Rightarrow> capture_commit \<Rightarrow> capture_outcome \<Rightarrow> app_error + capture_receipt option" where
  "matching_capture s commit outcome =
     (case outcome of
        Created durable capture \<Rightarrow>
          if rc_sequence durable \<noteq> op_sequence (cc_operation commit)
             \<or> rc_identity durable \<noteq> OperationIdentity (op_id (cc_operation commit))
          then Inl AppInvalidState else Inr (Some capture)
      | AlreadyCaptured capture \<Rightarrow>
          if cr_operation_id capture \<noteq> op_id (cc_operation commit) then Inr None
          else if last_durable_sequence (b_session (board s)) \<ge> op_sequence (cc_operation commit) then Inr None
          else Inr (Some capture))"

definition apply_capture ::
  "capture_commit \<Rightarrow> capture_outcome \<Rightarrow> app_state \<Rightarrow> (app_error, thought_id option, app_state) outcome" where
  "apply_capture commit outcome s =
     try_st (matching_capture s commit outcome) s (\<lambda>matching.
     case matching of
       None \<Rightarrow> (Inr None, s)
     | Some capture \<Rightarrow>
         (let operation = cc_operation commit in
          if cr_source capture \<noteq> cc_source commit \<or> cr_session_id capture \<noteq> op_session_id operation
          then (Inl AppInvalidState, s)
          else (case op_forward operation of
             AddThought thought \<Rightarrow>
               if cr_thought_id capture \<noteq> t_id thought then (Inl AppInvalidState, s)
               else then_st (apply_durable_capture operation s) (\<lambda>_ s.
                 (Inr (Some (t_id thought)), s\<lparr>insertion_index := length (live_items (board s))\<rparr>))
           | _ \<Rightarrow> (Inl AppInvalidState, s))))"

end
