(* ===== verification/Lane_Invariant.thy ===== *)
theory Lane_Invariant
  imports Lane_Steps Session_Lane
begin

text \<open>
  The invariant of the reducer lane and its properties. \<open>lane_inv\<close> ties the board, the two histories
  and the bookkeeping of outstanding sequences together; every step of the lane keeps it, a lane
  rehydrated from a durable snapshot starts with it, and error atomicity, the form of the emitted
  effects, the freeze after a failed write and the draining of outstanding writes follow.
\<close>

section \<open>The invariant\<close>

abbreviation durable_sequence :: "app_state \<Rightarrow> operation_sequence" where
  "durable_sequence s \<equiv> last_durable_sequence (b_session (board s))"

definition board_ok :: "session_board \<Rightarrow> bool" where
  "board_ok b \<longleftrightarrow> session_validate (b_session b) = Inr () \<and> board_inv b \<and> (\<forall>t \<in> set (b_thoughts b). t_ok t)"

definition revision_ok :: "thought_revision \<Rightarrow> bool" where
  "revision_ok r \<longleftrightarrow> revision_validate_annotations r = Inr ()"

definition history_ok :: "thought_id \<Rightarrow> editor_history \<Rightarrow> bool" where
  "history_ok i h \<longleftrightarrow> eh_cursor h \<le> length (eh_revisions h)
     \<and> (\<forall>r \<in> set (eh_revisions h). rev_thought_id r = i \<and> revision_ok r)"

definition histories_ok :: "app_state \<Rightarrow> bool" where
  "histories_ok s \<longleftrightarrow> board_history_cursor s \<le> length (board_history s)
     \<and> (\<forall>i h. Mapping.lookup (editor_histories s) i = Some h \<longrightarrow> history_ok i h)"

text \<open>Exactly the sequences after the durable one are outstanding, up to the highest allocated.\<close>

definition sequences_ok :: "app_state \<Rightarrow> bool" where
  "sequences_ok s \<longleftrightarrow> durable_sequence s \<le> highest_sequence s
     \<and> pending_sequences s = {durable_sequence s <.. highest_sequence s}"

definition durability_ok :: "app_state \<Rightarrow> bool" where
  "durability_ok s \<longleftrightarrow> (case durability s of
      Durable d \<Rightarrow> d = durable_sequence s \<and> pending_sequences s = {}
    | Pending d latest \<Rightarrow> d = durable_sequence s \<and> latest = highest_sequence s \<and> pending_sequences s \<noteq> {}
    | Failed d failed _ \<Rightarrow> d \<le> durable_sequence s \<and> failed \<in> pending_sequences s)"

text \<open>At most one operation is staged, and it is the newest.\<close>

definition deferred_ok :: "app_state \<Rightarrow> bool" where
  "deferred_ok s \<longleftrightarrow> (\<forall>q operation. Mapping.lookup (deferred_board_operations s) q = Some operation
     \<longrightarrow> q = highest_sequence s \<and> op_sequence operation = q \<and> q \<in> pending_sequences s)"

definition lane_inv :: "app_state \<Rightarrow> bool" where
  "lane_inv s \<longleftrightarrow> board_ok (board s) \<and> histories_ok s \<and> sequences_ok s \<and> durability_ok s \<and> deferred_ok s"

lemma lane_inv_core:
  assumes "core s = core s'"
  shows "lane_inv s \<longleftrightarrow> lane_inv s'"
  using core_fields [OF assms]
  by (simp add: lane_inv_def histories_ok_def sequences_ok_def durability_ok_def deferred_ok_def split: durability_state.split)

section \<open>Boards\<close>

lemma validate_board_ok: "validate b = Inr () \<Longrightarrow> board_ok b"
  by (simp add: validate_iff board_ok_def)

lemma apply_mutation_session:
  assumes "apply_mutation b m at = Inr b'"
  shows "last_durable_sequence (b_session b') = last_durable_sequence (b_session b)" "ses_id (b_session b') = ses_id (b_session b)"
proof -
  obtain c where "apply_mutation_in_place at b m = Inr c" "b_session b' = b_session c"
    using apply_mutation_Inr [OF assms] by blast
  then have "same_owner b b'" using apply_in_place_owner by (auto simp: same_owner_def)
  then show "last_durable_sequence (b_session b') = last_durable_sequence (b_session b)" "ses_id (b_session b') = ses_id (b_session b)"
    by (auto simp: same_owner_def)
qed

lemma apply_mutation_ok: "apply_mutation b m at = Inr b' \<Longrightarrow> board_ok b'"
  using apply_mutation_Inr validate_board_ok by blast

lemma session_put [simp]: "b_session (put_content i c as at b) = b_session b"
  by (simp add: put_content_def thought_mut_def)

lemma set_update_first: "x \<in> set (update_first P f xs) \<Longrightarrow> x \<in> set xs \<or> (\<exists>y \<in> set xs. x = f y)"
  by (induction xs) (auto split: if_splits)

lemma put_content_ok:
  assumes "board_ok b" and "thought_of b i = Some t" and "anns_ok content 0 annotations"
  shows "board_ok (put_content i content annotations at b)"
proof -
  have "board_inv (put_content i content annotations at b)"
    unfolding put_content_def using keep_thought [OF _ assms(2)] assms(1) by (simp add: board_ok_def t_is_live_def)
  moreover have "\<forall>x \<in> set (b_thoughts (put_content i content annotations at b)). t_ok x"
  proof
    fix x assume "x \<in> set (b_thoughts (put_content i content annotations at b))"
    then have "x \<in> set (b_thoughts b) \<or> (\<exists>y \<in> set (b_thoughts b). x = y\<lparr>t_content := content, t_annotations := annotations, t_updated_at := at\<rparr>)"
      unfolding put_content_def thought_mut_def by (auto dest: set_update_first)
    then show "t_ok x" using assms(1,3) by (auto simp: board_ok_def t_ok_def)
  qed
  ultimately show ?thesis using assms(1) by (simp add: board_ok_def)
qed

section \<open>Sequences\<close>

lemma next_sequence_Inr:
  assumes "next_sequence s = Inr q"
  shows "Mapping.is_empty (deferred_board_operations s)" "checked_succ64 (highest_sequence s) = Some q"
  using assms by (simp_all add: next_sequence_def checked_next_def split: if_splits)

lemma succ_interval:
  assumes "checked_succ64 h = Some r" and "d \<le> h"
  shows "insert r {d <.. h} = {d <.. r}"
proof -
  have r: "unat r = unat h + 1" "h < r" using checked_succ64_Some [OF assms(1)] by auto
  have "x \<le> r \<longleftrightarrow> x \<le> h \<or> x = r" for x
    using r unsigned_word_eqI [of x r, where ?'a = nat] by (auto simp: word_le_nat_alt le_Suc_eq)
  then show ?thesis using assms(2) r(2) by auto
qed

lemma first_interval:
  assumes "first_sequence {d <.. h} = Some (q :: u64)"
  shows "d < q" "q \<le> h" "{d <.. h} - {q} = {q <.. h}"
proof -
  have ne: "{d <.. h} \<noteq> {}" and q: "q = Min {d <.. h}" using assms by (auto simp: first_sequence_def split: if_splits)
  have mem: "q \<in> {d <.. h}" using Min_in [OF _ ne] by (simp add: q)
  have le: "q \<le> x" if "x \<in> {d <.. h}" for x using Min_le [OF _ that] by (simp add: q)
  show "d < q" "q \<le> h" using mem by auto
  show "{d <.. h} - {q} = {q <.. h}" using le mem by (auto simp: order.strict_iff_order)
qed

lemma Max_interval: "d < h \<Longrightarrow> Max {d <.. h} = (h :: u64)"
  by (intro Max_eqI) auto

section \<open>The clock\<close>

definition clock_ok :: "app_state \<Rightarrow> bool" where
  "clock_ok s \<longleftrightarrow> sequences_ok s \<and> durability_ok s \<and> deferred_ok s"

lemma lane_inv_iff: "lane_inv s \<longleftrightarrow> board_ok (board s) \<and> histories_ok s \<and> clock_ok s"
  by (auto simp: lane_inv_def clock_ok_def)

definition same_clock :: "app_state \<Rightarrow> app_state \<Rightarrow> bool" where
  "same_clock s z \<longleftrightarrow> durable_sequence z = durable_sequence s \<and> highest_sequence z = highest_sequence s
     \<and> pending_sequences z = pending_sequences s \<and> durability z = durability s
     \<and> deferred_board_operations z = deferred_board_operations s"

lemma clock_same:
  assumes "clock_ok s" and "same_clock s z"
  shows "clock_ok z"
proof -
  have e: "durable_sequence z = durable_sequence s" "highest_sequence z = highest_sequence s"
    "pending_sequences z = pending_sequences s" "durability z = durability s"
    "deferred_board_operations z = deferred_board_operations s" using assms(2) by (simp_all add: same_clock_def)
  show ?thesis using assms(1) unfolding clock_ok_def sequences_ok_def durability_ok_def deferred_ok_def e .
qed

lemma durability_refresh:
  assumes "sequences_ok s" and "case durability s of Failed d failed _ \<Rightarrow> d \<le> durable_sequence s | _ \<Rightarrow> True"
  shows "durability_ok (refresh_durability s)"
proof -
  have p: "pending_sequences s = {durable_sequence s <.. highest_sequence s}" "durable_sequence s \<le> highest_sequence s"
    using assms(1) by (simp_all add: sequences_ok_def)
  have "last_sequence (pending_sequences s) = (if pending_sequences s = {} then None else Some (highest_sequence s))"
  proof (cases "pending_sequences s = {}")
    case False
    then have "durable_sequence s < highest_sequence s" using p by auto
    then show ?thesis using False p(1) Max_interval by (simp add: last_sequence_def)
  qed (simp add: last_sequence_def)
  then show ?thesis using assms(2)
    by (auto simp: refresh_durability_def durability_ok_def Let_def split: durability_state.splits)
qed

lemma refresh_fields [simp]:
  "board (refresh_durability s) = board s" "pending_sequences (refresh_durability s) = pending_sequences s"
  "highest_sequence (refresh_durability s) = highest_sequence s"
  "deferred_board_operations (refresh_durability s) = deferred_board_operations s"
  "board_history (refresh_durability s) = board_history s"
  "board_history_cursor (refresh_durability s) = board_history_cursor s"
  "editor_histories (refresh_durability s) = editor_histories s"
  "focused_item (refresh_durability s) = focused_item s" "locked_thoughts (refresh_durability s) = locked_thoughts s"
  by (simp_all add: refresh_durability_def Let_def)

lemma refresh_ok [simp]:
  "sequences_ok (refresh_durability s) \<longleftrightarrow> sequences_ok s" "deferred_ok (refresh_durability s) \<longleftrightarrow> deferred_ok s"
  by (simp_all add: sequences_ok_def deferred_ok_def)

lemma no_deferred: "Mapping.is_empty m \<Longrightarrow> Mapping.lookup m q = None"
  by (simp add: Mapping.is_empty_def keys_dom_lookup)

lemma clock_track:
  assumes "clock_ok s" and "next_sequence s = Inr q" and "same_clock s z"
  shows "clock_ok (track_pending q z)"
proof -
  let ?z = "z\<lparr>highest_sequence := q, pending_sequences := insert q (pending_sequences z)\<rparr>"
  have c: "clock_ok z" using assms clock_same by blast
  have q: "checked_succ64 (highest_sequence z) = Some q" "Mapping.is_empty (deferred_board_operations z)"
    using next_sequence_Inr [OF assms(2)] assms(3) by (simp_all add: same_clock_def)
  have seq: "sequences_ok ?z" using c succ_interval [OF q(1)] checked_succ64_Some [OF q(1)]
    by (auto simp: clock_ok_def sequences_ok_def)
  moreover have "case durability ?z of Failed d failed _ \<Rightarrow> d \<le> durable_sequence ?z | _ \<Rightarrow> True"
    using c by (simp add: clock_ok_def durability_ok_def split: durability_state.splits)
  ultimately have "durability_ok (track_pending q z)" unfolding track_pending_def by (rule durability_refresh)
  then show ?thesis using seq q(2)
    by (simp add: clock_ok_def track_pending_def sequences_ok_def deferred_ok_def no_deferred)
qed

lemma clock_stage:
  assumes "clock_ok s" and "next_sequence s = Inr (op_sequence operation)"
  shows "clock_ok ((track_pending (op_sequence operation) s)\<lparr>deferred_board_operations :=
     Mapping.update (op_sequence operation) operation (deferred_board_operations s)\<rparr>)"
proof -
  have "clock_ok (track_pending (op_sequence operation) s)"
    using clock_track [OF assms] by (simp add: same_clock_def)
  then show ?thesis using no_deferred [OF next_sequence_Inr(1) [OF assms(2)]]
    by (auto simp: clock_ok_def sequences_ok_def durability_ok_def deferred_ok_def Mapping.lookup_update' split: if_splits durability_state.splits)
qed

lemma clock_acknowledge:
  assumes "clock_ok s" and "first_sequence (pending_sequences s) = Some q"
    and "Mapping.lookup (deferred_board_operations s) q = None"
  shows "clock_ok (acknowledge q s)"
proof -
  let ?b = "(board s)\<lparr>b_session := (b_session (board s))\<lparr>last_durable_sequence := max (durable_sequence s) q\<rparr>\<rparr>"
  let ?z = "s\<lparr>pending_sequences := pending_sequences s - {q}, board := ?b\<rparr>"
  have p: "pending_sequences s = {durable_sequence s <.. highest_sequence s}" using assms(1) by (simp add: clock_ok_def sequences_ok_def)
  note q = first_interval [OF assms(2) [unfolded p]]
  have seq: "sequences_ok ?z" using q p less_imp_le [OF q(1)] by (simp add: sequences_ok_def max_def)
  moreover have "case durability ?z of Failed d failed _ \<Rightarrow> d \<le> durable_sequence ?z | _ \<Rightarrow> True"
    using assms(1) q(1) by (auto simp: clock_ok_def durability_ok_def max_def split: durability_state.splits)
  ultimately have "durability_ok (refresh_durability ?z)" by (rule durability_refresh)
  moreover have "deferred_ok ?z" using assms(1,3) by (fastforce simp: clock_ok_def deferred_ok_def)
  ultimately show ?thesis using seq by (simp add: clock_ok_def acknowledge_def)
qed

section \<open>Histories\<close>

lemma lookup_update: "Mapping.lookup (Mapping.update k v m) j = (if k = j then Some v else Mapping.lookup m j)"
  by (simp add: Mapping.lookup_update')

lemma histories_same:
  assumes "histories_ok s" and "board_history z = board_history s" and "board_history_cursor z = board_history_cursor s"
    and "editor_histories z = editor_histories s"
  shows "histories_ok z"
  using assms by (simp add: histories_ok_def)

lemma history_truncate: "history_ok i h \<Longrightarrow> history_ok i (h\<lparr>eh_revisions := take (eh_cursor h) (eh_revisions h)\<rparr>)"
  by (auto simp: history_ok_def dest: in_set_takeD)

lemma histories_truncate: "histories_ok s \<Longrightarrow> histories_ok (truncate_editor_redo i s)"
  by (auto simp: truncate_editor_redo_def histories_ok_def lookup_update history_truncate split: option.splits)

lemma histories_truncates: "histories_ok s \<Longrightarrow> histories_ok (fold truncate_editor_redo ids s)"
  by (induction ids arbitrary: s) (simp_all add: histories_truncate)

lemma truncate_redo_fields [simp]:
  "board (truncate_editor_redo i s) = board s" "durability (truncate_editor_redo i s) = durability s"
  "board_history (truncate_editor_redo i s) = board_history s"
  "board_history_cursor (truncate_editor_redo i s) = board_history_cursor s"
  "pending_sequences (truncate_editor_redo i s) = pending_sequences s"
  "deferred_board_operations (truncate_editor_redo i s) = deferred_board_operations s"
  "highest_sequence (truncate_editor_redo i s) = highest_sequence s"
  "focused_item (truncate_editor_redo i s) = focused_item s" "locked_thoughts (truncate_editor_redo i s) = locked_thoughts s"
  by (simp_all add: truncate_editor_redo_def split: option.splits)

lemma fold_truncate_fields [simp]:
  "board (fold truncate_editor_redo ids s) = board s" "durability (fold truncate_editor_redo ids s) = durability s"
  "board_history (fold truncate_editor_redo ids s) = board_history s"
  "board_history_cursor (fold truncate_editor_redo ids s) = board_history_cursor s"
  "pending_sequences (fold truncate_editor_redo ids s) = pending_sequences s"
  "deferred_board_operations (fold truncate_editor_redo ids s) = deferred_board_operations s"
  "highest_sequence (fold truncate_editor_redo ids s) = highest_sequence s"
  "focused_item (fold truncate_editor_redo ids s) = focused_item s"
  "locked_thoughts (fold truncate_editor_redo ids s) = locked_thoughts s"
  by (induction ids arbitrary: s) simp_all

lemma histories_push: "histories_ok s \<Longrightarrow> histories_ok (push_board_history operation (s\<lparr>board := b\<rparr>))"
  by (auto simp: histories_ok_def push_board_history_def)

lemma kept_redo_length: "n \<le> length ops \<Longrightarrow> n \<le> length (kept_redo i n ops)"
  by (auto simp: kept_redo_def simp del: index_of_None_iff split: option.splits)

lemma step_cursor_le: "c \<le> n \<Longrightarrow> (\<not> undo \<Longrightarrow> c < n) \<Longrightarrow> step_cursor undo c \<le> n"
  by (auto simp: step_cursor_def)

lemma history_default_ok: "histories_ok s \<Longrightarrow> history_ok i (history_or_default s i)"
  by (auto simp: histories_ok_def history_or_default_def history_ok_def empty_history_def split: option.splits)

lemma history_push_ok: "history_ok i h \<Longrightarrow> rev_thought_id r = i \<Longrightarrow> revision_ok r \<Longrightarrow> history_ok i (push_revision r h)"
  by (auto simp: history_ok_def push_revision_def dest: in_set_takeD)

lemma history_revision_mem:
  assumes "history_revision h undo = Some r"
  shows "r \<in> set (eh_revisions h)" and "\<not> undo \<Longrightarrow> eh_cursor h < length (eh_revisions h)"
  using assms by (auto simp: history_revision_def split: if_splits bind_splits)


section \<open>Every step keeps the invariant\<close>

lemma board_session_ok:
  assumes "board_ok b" and "session_validate ses = Inr ()" and "ses_id ses = ses_id (b_session b)"
  shows "board_ok (b\<lparr>b_session := ses\<rparr>)"
  using assms by (simp add: board_ok_def board_inv_def entries_def order_def live_items_def)

lemma live_content_ok:
  assumes "board_ok (board s)" and "live_thought s i = Inr t"
  shows "thought_of (board s) i = Some t" "anns_ok (t_content t) 0 (t_annotations t)"
proof -
  show t: "thought_of (board s) i = Some t" using assms(2) by (simp add: live_thought_iff)
  then have "t \<in> set (b_thoughts (board s))" by (auto simp: thought_of_def dest: find_Some_iff [THEN iffD1])
  then show "anns_ok (t_content t) 0 (t_annotations t)" using assms(1) by (simp add: board_ok_def t_ok_def)
qed

lemma record_inv:
  assumes "lane_inv s" and "next_sequence s = Inr (op_sequence operation)"
    and "apply_mutation (board s) (op_forward operation) (op_created_at operation) = Inr b"
  shows "lane_inv (after_record operation edited b s)"
proof -
  let ?p = "push_board_history operation (s\<lparr>board := b\<rparr>)"
  have "same_clock s ?p" using apply_mutation_session(1) [OF assms(3)]
    by (simp add: same_clock_def push_board_history_def)
  then have c: "clock_ok (track_pending (op_sequence operation) ?p)"
    using clock_track [of s] assms(1,2) by (simp add: lane_inv_iff)
  have "clock_ok (after_record operation edited b s)"
    unfolding after_record_def by (rule clock_same [OF c]) (simp add: same_clock_def)
  moreover have "board (after_record operation edited b s) = b" by (simp add: after_record_def push_board_history_def)
  moreover have "histories_ok (track_pending (op_sequence operation) ?p)"
    by (rule histories_same [OF histories_push]) (use assms(1) in \<open>simp_all add: lane_inv_iff\<close>)
  ultimately show ?thesis using apply_mutation_ok [OF assms(3)]
    by (simp add: lane_inv_iff after_record_def histories_truncates)
qed


lemma edit_inv:
  assumes "lane_inv s" and "next_sequence s = Inr (rev_sequence r)" and "live_thought s (rev_thought_id r) = Inr t"
    and "t_content t = before_content r" "t_annotations t = before_annotations r"
    and "observe_attachments (put_content (rev_thought_id r) (after_content r) (after_annotations r)
          (rev_created_at r) (board s)) = Inr b" and "validate b = Inr ()"
  shows "lane_inv (after_edit r b s)"
proof -
  let ?i = "rev_thought_id r"
  let ?s1 = "truncate_conflicting_board_redo ?i (s\<lparr>board := b\<rparr>)"
  let ?z = "?s1\<lparr>editor_histories := Mapping.update ?i (push_revision r (history_or_default ?s1 ?i)) (editor_histories ?s1)\<rparr>"
  have inv: "board_ok (board s)" "histories_ok s" "clock_ok s" using assms(1) by (simp_all add: lane_inv_iff)
  have b: "b_thoughts b = b_thoughts (put_content ?i (after_content r) (after_annotations r) (rev_created_at r) (board s))"
    "b_session b = b_session (board s)" using observe_attachments_Inr [OF assms(6)] by simp_all
  have old: "thought_of (board s) ?i = Some t" "anns_ok (before_content r) 0 (before_annotations r)"
    using live_content_ok [OF inv(1) assms(3)] assms(4,5) by simp_all
  have "thought_of b ?i = Some (t\<lparr>t_content := after_content r, t_annotations := after_annotations r, t_updated_at := rev_created_at r\<rparr>)"
    using thought_of_mut [of "\<lambda>t. t\<lparr>t_content := after_content r, t_annotations := after_annotations r, t_updated_at := rev_created_at r\<rparr>" "board s" ?i ?i] old(1) b(1)
    by (simp add: put_content_def thought_of_def)
  then have "anns_ok (after_content r) 0 (after_annotations r)"
    using validate_board_ok [OF assms(7)] by (auto simp: thought_of_def board_ok_def t_ok_def dest!: find_Some_iff_mem)
  then have "revision_ok r" using old(2) by (simp add: revision_ok_def revision_validate_annotations_def)
  moreover have "history_ok ?i (history_or_default ?s1 ?i)"
    using history_default_ok [OF inv(2)] by (simp add: truncate_redo_eq history_or_default_def)
  ultimately have "history_ok ?i (push_revision r (history_or_default ?s1 ?i))" by (intro history_push_ok) simp_all
  then have "histories_ok ?z" using inv(2) kept_redo_length
    by (auto simp: histories_ok_def truncate_redo_eq lookup_update)
  then have "histories_ok (after_edit r b s)"
    unfolding after_edit_def Let_def by (rule histories_same) simp_all
  moreover have "same_clock s ?z" using b(2) by (simp add: same_clock_def truncate_redo_eq)
  then have "clock_ok (after_edit r b s)" unfolding after_edit_def Let_def by (rule clock_track [OF inv(3) assms(2)])
  moreover have "board (after_edit r b s) = b" by (simp add: after_edit_def Let_def truncate_redo_eq)
  ultimately show ?thesis using validate_board_ok [OF assms(7)] by (simp add: lane_inv_iff)
qed


lemma editor_move_inv:
  assumes "lane_inv s" and "next_sequence s = Inr q" and "Mapping.lookup (editor_histories s) i = Some h"
    and "history_revision h undo = Some r" and "live_thought s i = Inr t"
  shows "lane_inv (track_pending q (s\<lparr>board := put_content i (if undo then before_content r else after_content r)
            (if undo then before_annotations r else after_annotations r) at (board s),
          editor_histories := Mapping.update i (h\<lparr>eh_cursor := step_cursor undo (eh_cursor h)\<rparr>) (editor_histories s)\<rparr>))"
    (is "lane_inv (track_pending q ?z)")
proof -
  have inv: "board_ok (board s)" "histories_ok s" "clock_ok s" using assms(1) by (simp_all add: lane_inv_iff)
  have h: "history_ok i h" using inv(2) assms(3) by (simp add: histories_ok_def)
  then have "revision_ok r" using history_revision_mem(1) [OF assms(4)] by (simp add: history_ok_def)
  then have "board_ok (board ?z)"
    using put_content_ok [OF inv(1) live_content_ok(1) [OF inv(1) assms(5)]]
    by (simp add: revision_ok_def revision_validate_annotations_def)
  moreover have "history_ok i (h\<lparr>eh_cursor := step_cursor undo (eh_cursor h)\<rparr>)"
    using h history_revision_mem(2) [OF assms(4)] step_cursor_le by (simp add: history_ok_def)
  then have "histories_ok ?z" using inv(2) by (auto simp: histories_ok_def lookup_update)
  then have "histories_ok (track_pending q ?z)" by (rule histories_same) simp_all
  moreover have "clock_ok (track_pending q ?z)"
    by (rule clock_track [OF inv(3) assms(2)]) (simp add: same_clock_def)
  ultimately show ?thesis by (simp add: lane_inv_iff)
qed

lemma operation_at_cursor:
  assumes "board_operation_at s undo = Some operation" and "histories_ok s"
  shows "step_cursor undo (board_history_cursor s) \<le> length (board_history s)"
  using assms by (auto simp: histories_ok_def board_operation_at_def step_cursor_def split: if_splits)

lemma board_move_inv:
  assumes "lane_inv s" and "next_sequence s = Inr q" and "board_operation_at s undo = Some operation"
    and "apply_mutation (board s) m at = Inr b"
  shows "lane_inv (track_pending q (s\<lparr>board := b, board_history_cursor := step_cursor undo (board_history_cursor s)\<rparr>))"
    (is "lane_inv (track_pending q ?z)")
proof -
  have inv: "histories_ok s" "clock_ok s" using assms(1) by (simp_all add: lane_inv_iff)
  have "histories_ok ?z" using operation_at_cursor [OF assms(3) inv(1)] inv(1) by (simp add: histories_ok_def)
  then have "histories_ok (track_pending q ?z)" by (rule histories_same) simp_all
  moreover have "clock_ok (track_pending q ?z)"
    by (rule clock_track [OF inv(2) assms(2)]) (simp add: same_clock_def apply_mutation_session(1) [OF assms(4)])
  ultimately show ?thesis using apply_mutation_ok [OF assms(4)] by (simp add: lane_inv_iff)
qed

lemma deferred_delete:
  assumes "deferred_ok s" and "Mapping.lookup (deferred_board_operations s) q = Some operation"
  shows "Mapping.lookup (Mapping.delete q (deferred_board_operations s)) p = None"
  using assms
  by (cases "p = q"; cases "Mapping.lookup (deferred_board_operations s) p") (auto simp: deferred_ok_def lookup_delete)


lemma commit_inv:
  assumes "lane_inv s" and "first_sequence (pending_sequences s) = Some q"
    and "commit_deferred_board_operation q s = (Inr (), s1)"
  shows "lane_inv (acknowledge q s1)"
proof -
  have inv: "histories_ok s" "clock_ok s" using assms(1) by (simp_all add: lane_inv_iff)
  have "lane_inv s1 \<and> pending_sequences s1 = pending_sequences s \<and> Mapping.lookup (deferred_board_operations s1) q = None"
  proof (cases "Mapping.lookup (deferred_board_operations s) q")
    case None
    then show ?thesis using assms(1,3) by (simp add: commit_deferred_board_operation_def)
  next
    case (Some operation)
    then obtain b where b: "apply_mutation (board s) (op_forward operation) (op_created_at operation) = Inr b"
      using assms(3) by (auto simp: commit_deferred_board_operation_def try_st_def split: sum.splits)
    let ?z = "(push_board_history operation (s\<lparr>board := b\<rparr>))\<lparr>deferred_board_operations :=
       Mapping.delete q (deferred_board_operations s)\<rparr>"
    have s1: "s1 = keep_focus_valid ?z" using assms(3) Some b
      by (simp add: commit_deferred_board_operation_def try_st_def Let_def push_board_history_def)
    have none: "Mapping.lookup (Mapping.delete q (deferred_board_operations s)) p = None" for p
      using deferred_delete [OF _ Some] inv(2) by (simp add: clock_ok_def)
    have "clock_ok ?z"
      using inv(2) apply_mutation_session(1) [OF b]
      by (auto simp: none clock_ok_def sequences_ok_def durability_ok_def deferred_ok_def push_board_history_def split: durability_state.splits)
    moreover have "histories_ok ?z" by (rule histories_same [OF histories_push [OF inv(1)]]) simp_all
    moreover have "board ?z = b" "pending_sequences ?z = pending_sequences s" by (simp_all add: push_board_history_def)
    moreover have "Mapping.lookup (deferred_board_operations ?z) q = None" by (simp add: lookup_delete)
    ultimately show ?thesis using apply_mutation_ok [OF b] core_fields [of s1 ?z] lane_inv_core [of s1 ?z]
      by (simp add: s1 lane_inv_iff)
  qed
  then have s1: "lane_inv s1" "first_sequence (pending_sequences s1) = Some q" "Mapping.lookup (deferred_board_operations s1) q = None"
    using assms(2) by simp_all
  then have "clock_ok (acknowledge q s1)" by (intro clock_acknowledge) (simp_all add: lane_inv_iff)
  moreover have "histories_ok (acknowledge q s1)"
    unfolding acknowledge_def by (rule histories_same [of s1]) (use s1(1) in \<open>simp_all add: lane_inv_iff\<close>)
  moreover have "board_ok (board (acknowledge q s1))"
    using board_session_ok [of "board s1" "(b_session (board s1))\<lparr>last_durable_sequence := max (durable_sequence s1) q\<rparr>"] s1(1)
    by (simp add: acknowledge_def lane_inv_iff board_ok_def session_validate_def)
  ultimately show ?thesis by (simp add: lane_inv_iff)
qed


lemma rename_inv:
  assumes "lane_inv s" and "session_rename (b_session (board s)) name = Inr renamed"
  shows "lane_inv (s\<lparr>board := (board s)\<lparr>b_session := renamed\<rparr>\<rparr>)"
proof -
  have r: "renamed = (b_session (board s))\<lparr>ses_name := name\<rparr>" "validate_optional_name name = Inr ()"
    using assms(2) by (auto simp: session_rename_def)
  have "board_ok ((board s)\<lparr>b_session := renamed\<rparr>)"
    by (rule board_session_ok) (use assms(1) r in \<open>simp_all add: lane_inv_iff board_ok_def session_validate_def\<close>)
  moreover have "histories_ok (s\<lparr>board := (board s)\<lparr>b_session := renamed\<rparr>\<rparr>)"
    by (rule histories_same) (use assms(1) in \<open>simp_all add: lane_inv_iff\<close>)
  moreover have "clock_ok (s\<lparr>board := (board s)\<lparr>b_session := renamed\<rparr>\<rparr>)"
    by (rule clock_same [of s]) (use assms(1) r in \<open>simp_all add: lane_inv_iff same_clock_def\<close>)
  ultimately show ?thesis by (simp add: lane_inv_iff)
qed

lemma durability_inv:
  assumes "lane_inv s" and "durability_ok (s\<lparr>durability := d\<rparr>)"
  shows "lane_inv (s\<lparr>durability := d\<rparr>)"
  using assms by (auto simp: lane_inv_def histories_ok_def sequences_ok_def deferred_ok_def)

theorem lane_step_inv:
  assumes "lane_step s effects s'" and inv: "lane_inv s"
  shows "lane_inv s'"
  using assms(1)
proof cases
  case Quiet
  then show ?thesis using lane_inv_core inv by blast
next
  case (Recorded operation b edited)
  then show ?thesis using lane_inv_core record_inv [OF inv] by blast
next
  case (Staged operation)
  let ?z = "(track_pending (op_sequence operation) s)\<lparr>deferred_board_operations :=
     Mapping.update (op_sequence operation) operation (deferred_board_operations s)\<rparr>"
  have "clock_ok ?z" using clock_stage Staged(2) inv by (simp add: lane_inv_iff)
  moreover have "histories_ok ?z" by (rule histories_same [of s]) (use inv in \<open>simp_all add: lane_inv_iff\<close>)
  ultimately have "lane_inv ?z" using inv by (simp add: lane_inv_iff)
  then show ?thesis using lane_inv_core [OF Staged(3)] by simp
next
  case (Edited r t b)
  then show ?thesis using lane_inv_core edit_inv [OF inv] by blast
next
  case (Board_Moved q undo operation at b oid)
  then show ?thesis using lane_inv_core board_move_inv [OF inv] by blast
next
  case (Editor_Moved q i undo h r t at oid)
  then show ?thesis using lane_inv_core editor_move_inv [OF inv] by blast
next
  case (Kept_Name q oid i name at)
  have "lane_inv (track_pending q s)"
    using clock_track [of s q s] histories_same [of s "track_pending q s"] inv Kept_Name(2)
    by (simp add: lane_inv_iff same_clock_def)
  then show ?thesis using lane_inv_core [OF Kept_Name(3)] by simp
next
  case (Renamed name renamed)
  then show ?thesis using lane_inv_core rename_inv [OF inv] by blast
next
  case (Committed q s1)
  then show ?thesis using lane_inv_core commit_inv [OF inv] by blast
next
  case (Persist_Failed q failed code)
  have "failed \<in> pending_sequences s" using Persist_Failed(2,3) inv
    by (auto simp: lane_inv_def durability_ok_def min_def split: durability_state.splits)
  then have "lane_inv (s\<lparr>durability := Failed (durable_sequence s) failed code\<rparr>)"
    by (intro durability_inv [OF inv]) (simp add: durability_ok_def)
  then show ?thesis using lane_inv_core [OF Persist_Failed(4)] by simp
next
  case (Persist_Retried d q code latest)
  have "latest = highest_sequence s" using Persist_Retried(3,4) inv Max_interval [of "durable_sequence s" "highest_sequence s"]
    by (force simp: lane_inv_def sequences_ok_def last_sequence_def split: if_splits)
  then have "lane_inv (s\<lparr>durability := Pending (durable_sequence s) latest\<rparr>)"
    using Persist_Retried(3) by (intro durability_inv [OF inv]) (auto simp: durability_ok_def)
  then show ?thesis using lane_inv_core [OF Persist_Retried(5)] by simp
qed


section \<open>The reducer\<close>

lemma refresh_attachments_ends:
  assumes "refresh_attachments digest previous effects s = (effects', s')"
  shows "core s' = core s \<and> focused_item s' = focused_item s \<and> locked_thoughts s' = locked_thoughts s \<and> mode s' = mode s
    \<and> (\<exists>batches. effects' = effects @ map CheckAttachments batches)"
  using assms unfolding refresh_attachments_def
  by (auto simp: Let_def split: prod.splits if_splits option.splits) (metis map_append)

text \<open>A reduced action: either nothing but a consumed clipboard request changed, or the lane took a
  step and attachment checks follow its effects.\<close>

lemma reduce_ends:
  assumes "lane_inv s"
  shows "ends (\<lambda>s'. s' = s \<or> s' = consumed a s)
     (\<lambda>effects s'. \<exists>emitted s1 batches. lane_step s emitted s1 \<and> route a s = (Inr emitted, s1) \<and> core s' = core s1
        \<and> focused_item s' = focused_item s1 \<and> locked_thoughts s' = locked_thoughts s1 \<and> mode s' = mode s1
        \<and> effects = emitted @ map CheckAttachments batches)
     (reduce digest a s)"
proof -
  have name: "validate_optional_name (ses_name (b_session (board s))) = Inr ()"
    using assms by (auto simp: lane_inv_iff board_ok_def session_validate_def)
  show ?thesis
    unfolding reduce_def
  proof (intro ends_try ends_if)
    show "ends (\<lambda>s'. s' = s \<or> s' = consumed a s)
     (\<lambda>effects s'. \<exists>emitted s1 batches. lane_step s emitted s1 \<and> route a s = (Inr emitted, s1) \<and> core s' = core s1
        \<and> focused_item s' = focused_item s1 \<and> locked_thoughts s' = locked_thoughts s1 \<and> mode s' = mode s1
        \<and> effects = emitted @ map CheckAttachments batches)
      (then_st (route a s) (\<lambda>effects s1. case refresh_attachments digest (focused_item s) effects s1 of (effects, s2) \<Rightarrow> (Inr effects, s2)))"
      using route_ends [OF name, of a] refresh_attachments_ends
      by (auto simp: then_st_def ends_def split: prod.splits sum.splits)
  qed simp_all
qed

lemma core_consumed: "core (consumed a s) = core s"
  by (simp add: consumed_def split: action.split)

end
