(* ===== verification/Board_Similarity.thy ===== *)
theory Board_Similarity
  imports Board_Undo
begin

text \<open>
  Boards that differ only in the order in which they list their thoughts and separators, and in
  session fields other than the identity, behave alike under every mutation. The store loads the rows
  of a board in its own order, and the lane moves the durable sequence of its session; both rely on
  this.
\<close>

section \<open>Order-independent list operations\<close>

lemma try_fold_perm:
  assumes "\<And>s x y. try_bind (f s x) (\<lambda>s. f s y) = try_bind (f s y) (\<lambda>s. f s x)" and "mset xs = mset ys"
  shows "try_fold f s xs = try_fold f s ys"
  using assms(2)
proof (induction xs arbitrary: s ys)
  case (Cons x xs)
  then obtain us vs where ys: "ys = us @ x # vs" "mset xs = mset (us @ vs)"
    by (metis list.set_intros(1) mset_append mset.simps(2) add_mset_add_single set_mset_mset split_list
        union_mset_add_mset_right add_mset_remove_trivial)
  have move: "try_fold f s (us @ x # vs) = try_bind (f s x) (\<lambda>s. try_fold f s (us @ vs))" for s us
  proof (induction us arbitrary: s)
    case (Cons u us)
    have "try_fold f s ((u # us) @ x # vs) = try_bind (f s u) (\<lambda>s. try_bind (f s x) (\<lambda>s. try_fold f s (us @ vs)))"
      using Cons.IH by simp
    also have "\<dots> = try_bind (try_bind (f s u) (\<lambda>s. f s x)) (\<lambda>s. try_fold f s (us @ vs))"
      by (cases "f s u") simp_all
    also have "\<dots> = try_bind (f s x) (\<lambda>s. try_bind (f s u) (\<lambda>s. try_fold f s (us @ vs)))"
      unfolding assms(1) [of s u x] by (cases "f s x") simp_all
    finally show ?case by simp
  qed simp
  show ?case using Cons.IH [OF ys(2)] by (simp add: ys(1) move)
qed simp

lemma update_first_map:
  "distinct (map key xs) \<Longrightarrow> update_first (\<lambda>x. key x = k) f xs = map (\<lambda>x. if key x = k then f x else x) xs"
proof (induction xs)
  case (Cons x xs)
  have "map (\<lambda>x. if key x = k then f x else x) xs = xs" if "key x = k"
    using that Cons.prems by (intro map_idI) (auto simp: image_iff)
  then show ?case using Cons by simp
qed simp

lemma find_perm:
  assumes "distinct (map key xs)" and "mset xs = mset ys"
  shows "List.find (\<lambda>x. key x = k) xs = List.find (\<lambda>x. key x = k) ys"
proof -
  have s: "set xs = set ys" using assms(2) by (rule mset_eq_setD)
  have inj: "x = y" if "x \<in> set xs" "y \<in> set xs" "key x = key y" for x y
    using assms(1) that by (simp add: distinct_map inj_on_def)
  show ?thesis
  proof (cases "List.find (\<lambda>x. key x = k) xs"; cases "List.find (\<lambda>x. key x = k) ys")
    fix x assume "List.find (\<lambda>x. key x = k) xs = None" "List.find (\<lambda>x. key x = k) ys = Some x"
    then show ?thesis using find_Some_iff_mem [of "\<lambda>x. key x = k" ys x] s by (auto simp: find_None_iff)
  next
    fix x assume "List.find (\<lambda>x. key x = k) xs = Some x" "List.find (\<lambda>x. key x = k) ys = None"
    then show ?thesis using find_Some_iff_mem [of "\<lambda>x. key x = k" xs x] s by (auto simp: find_None_iff)
  next
    fix x y assume f: "List.find (\<lambda>x. key x = k) xs = Some x" "List.find (\<lambda>x. key x = k) ys = Some y"
    then have "x = y"
      using find_Some_iff_mem [OF f(1)] find_Some_iff_mem [OF f(2)] s by (intro inj) simp_all
    then show ?thesis using f by simp
  qed simp
qed

lemma try_map_Inr_iff: "try_map f xs = Inr ys \<longleftrightarrow> (\<forall>x \<in> set xs. \<not> isl (f x)) \<and> ys = map (\<lambda>x. projr (f x)) xs"
proof (induction xs arbitrary: ys)
  case (Cons x xs)
  show ?case using Cons.IH [of "map (\<lambda>x. projr (f x)) xs"] by (cases "f x"; cases "try_map f xs") (auto simp: Cons.IH)
qed auto

lemma try_map_perm:
  assumes "mset xs = mset ys" and "try_map f xs = Inr zs"
  shows "\<exists>ws. try_map f ys = Inr ws \<and> mset zs = mset ws"
proof -
  have "set ys = set xs" using mset_eq_setD [OF assms(1)] by simp
  moreover have "mset (map (\<lambda>x. projr (f x)) ys) = mset (map (\<lambda>x. projr (f x)) xs)" using assms(1) by simp
  ultimately show ?thesis using assms(2) by (simp add: try_map_Inr_iff)
qed

section \<open>Similar boards\<close>

definition board_sim :: "session_board \<Rightarrow> session_board \<Rightarrow> bool" where
  "board_sim b c \<longleftrightarrow> mset (b_thoughts b) = mset (b_thoughts c) \<and> mset (b_separators b) = mset (b_separators c)
     \<and> b_counters b = b_counters c \<and> ses_id (b_session b) = ses_id (b_session c)
     \<and> (session_validate (b_session b) = Inr () \<longleftrightarrow> session_validate (b_session c) = Inr ())"

definition ids_ok :: "session_board \<Rightarrow> bool" where
  "ids_ok b \<longleftrightarrow> distinct (map t_id (b_thoughts b)) \<and> distinct (map sep_id (b_separators b))"

lemma board_sim_refl [simp]: "board_sim b b"
  by (simp add: board_sim_def)

lemma board_sim_sym: "board_sim b c \<Longrightarrow> board_sim c b"
  by (auto simp: board_sim_def)

lemma board_sim_trans: "board_sim b c \<Longrightarrow> board_sim c d \<Longrightarrow> board_sim b d"
  by (auto simp: board_sim_def)

lemma board_inv_ids: "board_inv b \<Longrightarrow> ids_ok b"
  by (simp add: board_inv_def ids_ok_def)

lemma distinct_map_perm: "mset xs = mset ys \<Longrightarrow> distinct (map f xs) \<longleftrightarrow> distinct (map f ys)"
  by (metis mset_eq_imp_distinct_iff mset_map)

lemma sim_ids: "board_sim b c \<Longrightarrow> ids_ok b \<longleftrightarrow> ids_ok c"
  by (simp add: board_sim_def ids_ok_def distinct_map_perm [of "b_thoughts b" "b_thoughts c"]
      distinct_map_perm [of "b_separators b" "b_separators c"])

lemma sim_lookup:
  assumes "board_sim b c" and "ids_ok b"
  shows "thought_of b = thought_of c" "separator_of b = separator_of c"
  using assms by (auto simp: fun_eq_iff thought_of_def separator_of_def board_sim_def ids_ok_def intro: find_perm)

lemma length_filter_perm: "mset xs = mset ys \<Longrightarrow> length (filter P xs) = length (filter P ys)"
  by (metis mset_filter size_mset)

lemma sim_live_len: "board_sim b c \<Longrightarrow> length (live_items b) = length (live_items c)"
  by (simp add: live_items_def board_sim_def length_filter_perm [of "b_thoughts b" "b_thoughts c"]
      length_filter_perm [of "b_separators b" "b_separators c"])

lemma sim_mut:
  assumes "board_sim b c" and "ids_ok b"
  shows "board_sim (thought_mut b i f) (thought_mut c i f)" "board_sim (separator_mut b j g) (separator_mut c j g)"
  using assms sim_ids [OF assms(1)]
  by (auto simp: board_sim_def ids_ok_def thought_mut_def separator_mut_def update_first_map)

lemma sim_shift:
  assumes "board_sim b c"
  shows "board_sim (shift_for_insert b k) (shift_for_insert c k)" "board_sim (shift_after_remove b k) (shift_after_remove c k)"
  using assms by (auto simp: board_sim_def shift_for_insert_def shift_after_remove_def)

lemma sim_push:
  assumes "board_sim b c"
  shows "board_sim (b\<lparr>b_thoughts := b_thoughts b @ [t]\<rparr>) (c\<lparr>b_thoughts := b_thoughts c @ [t]\<rparr>)"
    "board_sim (b\<lparr>b_separators := b_separators b @ [s]\<rparr>) (c\<lparr>b_separators := b_separators c @ [s]\<rparr>)"
  using assms by (auto simp: board_sim_def)

lemma sim_shift_range:
  assumes "board_sim b c" and "shift_range b s e d = Inr b'"
  shows "\<exists>c'. shift_range c s e d = Inr c' \<and> board_sim b' c'"
proof -
  obtain ts ss where b: "shift_items t_is_live t_position t_set_position (b_thoughts b) s e d = Inr ts"
    "shift_items sep_is_live sep_position sep_set_position (b_separators b) s e d = Inr ss" "b' = b\<lparr>b_thoughts := ts, b_separators := ss\<rparr>"
    using assms(2) by (auto simp: shift_range_def)
  obtain ts' where "shift_items t_is_live t_position t_set_position (b_thoughts c) s e d = Inr ts'" "mset ts = mset ts'"
    using try_map_perm [OF _ b(1) [unfolded shift_items_def], of "b_thoughts c"] assms(1) by (auto simp: board_sim_def shift_items_def)
  moreover obtain ss' where "shift_items sep_is_live sep_position sep_set_position (b_separators c) s e d = Inr ss'" "mset ss = mset ss'"
    using try_map_perm [OF _ b(2) [unfolded shift_items_def], of "b_separators c"] assms(1) by (auto simp: board_sim_def shift_items_def)
  ultimately show ?thesis using assms(1) b(3) by (auto simp: shift_range_def board_sim_def)
qed

lemma sim_move_shift:
  assumes "board_sim b c" and "move_shift b p q = Inr b'"
  shows "\<exists>c'. move_shift c p q = Inr c' \<and> board_sim b' c'"
  using assms sim_shift_range by (auto simp: move_shift_def split: if_splits)


text \<open>Results: both fail, or both succeed with similar boards that still have distinct identities.\<close>

definition sim_result :: "'e + session_board \<Rightarrow> 'e + session_board \<Rightarrow> bool" where
  "sim_result r r' \<longleftrightarrow> (\<forall>b. r = Inr b \<longrightarrow> (\<exists>c. r' = Inr c \<and> board_sim b c))"

lemma sim_result_simps [simp]: "sim_result (Inl e) r" "sim_result (Inr b) (Inr c) \<longleftrightarrow> board_sim b c"
  by (simp_all add: sim_result_def)

lemma sim_bind: "(\<And>x. r = Inr x \<Longrightarrow> sim_result (k x) (k' x)) \<Longrightarrow> sim_result (try_bind r k) (try_bind r k')"
  by (cases r) simp_all

lemma sim_bind_board:
  assumes "sim_result r r'" and "\<And>b c. r = Inr b \<Longrightarrow> r' = Inr c \<Longrightarrow> board_sim b c \<Longrightarrow> sim_result (k b) (k' c)"
  shows "sim_result (try_bind r k) (try_bind r' k')"
  using assms by (cases r; cases r') (auto simp: sim_result_def)

lemma sim_touch [simp]: "board_sim b c \<Longrightarrow> board_sim (touch_session at b) (touch_session at c)"
  by (simp add: board_sim_def touch_session_def session_validate_def)

lemma ids_ok_idents: "ids_ok b \<longleftrightarrow> distinct (map fst (fst (idents b))) \<and> distinct (map fst (fst (snd (idents b))))"
  by (simp add: ids_ok_def idents_def comp_def)

lemma ids_shift [simp]: "ids_ok (shift_for_insert b k) \<longleftrightarrow> ids_ok b" "ids_ok (shift_after_remove b k) \<longleftrightarrow> ids_ok b"
  by (simp_all add: ids_ok_idents same_bodies_idents [OF same_bodies_shift_for_insert] same_bodies_idents [OF same_bodies_shift_after_remove])

lemma ids_move_shift: "move_shift b (unat (p :: u32)) (unat (q :: u32)) = Inr b' \<Longrightarrow> ids_ok b' \<longleftrightarrow> ids_ok b"
  using same_bodies_idents [OF same_bodies_move_shift, of "unat p" "unat q" b b'] by (simp add: ids_ok_idents)

lemma sim_push_thought:
  "board_sim b c \<Longrightarrow> b' = b\<lparr>b_thoughts := b_thoughts b @ [t]\<rparr> \<Longrightarrow> c' = c\<lparr>b_thoughts := b_thoughts c @ [t]\<rparr> \<Longrightarrow> board_sim b' c'"
  by (simp add: sim_push)

lemma sim_add_or_restore:
  assumes "board_sim b c" and "ids_ok b"
  shows "sim_result (add_or_restore b t at) (add_or_restore c t at)"
proof -
  have e: "ses_id (b_session c) = ses_id (b_session b)" "length (live_items c) = length (live_items b)" "thought_of c = thought_of b"
    using assms sim_live_len [OF assms(1)] sim_lookup [OF assms] by (simp_all add: board_sim_def)
  show ?thesis unfolding add_or_restore_def e Let_def
    using sim_shift(1) [OF assms(1)] assms(2)
    by (auto split: option.split intro!: sim_bind sim_mut sim_push)
qed

lemma sim_add_or_restore_separator:
  assumes "board_sim b c" and "ids_ok b"
  shows "sim_result (add_or_restore_separator b t at) (add_or_restore_separator c t at)"
proof -
  have e: "ses_id (b_session c) = ses_id (b_session b)" "length (live_items c) = length (live_items b)" "separator_of c = separator_of b"
    using assms sim_live_len [OF assms(1)] sim_lookup [OF assms] by (simp_all add: board_sim_def)
  show ?thesis unfolding add_or_restore_separator_def e Let_def
    using sim_shift(1) [OF assms(1)] assms(2)
    by (auto split: option.split intro!: sim_bind sim_mut sim_push)
qed

lemma sim_set_deletion:
  assumes "board_sim b c" and "ids_ok b"
  shows "sim_result (set_deletion b i d p at) (set_deletion c i d p at)"
    "sim_result (set_separator_deletion b j d p at) (set_separator_deletion c j d p at)"
proof -
  have e: "length (live_items c) = length (live_items b)" "thought_of c = thought_of b" "separator_of c = separator_of b"
    using assms sim_live_len [OF assms(1)] sim_lookup [OF assms] by (simp_all add: board_sim_def)
  show "sim_result (set_deletion b i d p at) (set_deletion c i d p at)"
    unfolding set_deletion_def e Let_def using sim_shift [OF assms(1)] sim_mut [OF assms] assms
    by (auto split: option.split intro!: sim_bind sim_mut sim_shift)
  show "sim_result (set_separator_deletion b j d p at) (set_separator_deletion c j d p at)"
    unfolding set_separator_deletion_def e Let_def using sim_shift [OF assms(1)] sim_mut [OF assms] assms
    by (auto split: option.split intro!: sim_bind sim_mut sim_shift)
qed

lemma sim_moves:
  assumes "board_sim b c" and "ids_ok b"
  shows "sim_result (move_thought b i p q at) (move_thought c i p q at)"
    "sim_result (move_separator b j p q at) (move_separator c j p q at)"
proof -
  have e: "length (live_items c) = length (live_items b)" "thought_of c = thought_of b" "separator_of c = separator_of b"
    using assms sim_live_len [OF assms(1)] sim_lookup [OF assms] by (simp_all add: board_sim_def)
  have m: "sim_result (move_shift b (unat p) (unat q)) (move_shift c (unat p) (unat q))"
    using sim_move_shift [OF assms(1)] by (auto simp: sim_result_def)
  show "sim_result (move_thought b i p q at) (move_thought c i p q at)"
    unfolding move_thought_def e Let_def
    by (auto intro!: sim_bind sim_bind_board [OF m] sim_mut simp: ids_move_shift assms(2))
  show "sim_result (move_separator b j p q at) (move_separator c j p q at)"
    unfolding move_separator_def e Let_def
    by (auto intro!: sim_bind sim_bind_board [OF m] sim_mut simp: ids_move_shift assms(2))
qed

lemma sim_edits:
  assumes "board_sim b c" and "ids_ok b"
  shows "sim_result (replace_content b i bc ba ac aa at) (replace_content c i bc ba ac aa at)"
    "sim_result (set_name b i x y at) (set_name c i x y at)"
    "sim_result (set_presentation b i pr at) (set_presentation c i pr at)"
    "sim_result (set_deletion_exact b i ec ea ed ep d p at) (set_deletion_exact c i ec ea ed ep d p at)"
  unfolding replace_content_def set_name_def set_presentation_def set_deletion_exact_def live_thought_of_def
    sim_lookup(1) [OF assms, symmetric]
  by (auto intro!: sim_bind sim_mut sim_set_deletion assms)


text \<open>Every mutation keeps the identities distinct.\<close>

lemma ids_touch [simp]: "ids_ok (touch_session at b) \<longleftrightarrow> ids_ok b"
  by (simp add: ids_ok_idents)

lemma ids_mut:
  "(\<And>t. t_id (f t) = t_id t \<and> t_session_id (f t) = t_session_id t) \<Longrightarrow> ids_ok (thought_mut b i f) \<longleftrightarrow> ids_ok b"
  "(\<And>t. sep_id (g t) = sep_id t \<and> sep_session_id (g t) = sep_session_id t) \<Longrightarrow> ids_ok (separator_mut b j g) \<longleftrightarrow> ids_ok b"
  by (simp_all add: ids_ok_idents)

lemma shifted_ids:
  "map t_id (b_thoughts (shift_for_insert b k)) = map t_id (b_thoughts b)"
  "map sep_id (b_separators (shift_for_insert b k)) = map sep_id (b_separators b)"
  using arg_cong [OF same_bodies_idents [OF same_bodies_shift_for_insert], of "\<lambda>x. map fst (fst x)" b k]
    arg_cong [OF same_bodies_idents [OF same_bodies_shift_for_insert], of "\<lambda>x. map fst (fst (snd x))" b k]
  by (simp_all add: idents_def comp_def)

lemma ids_push:
  "ids_ok b \<Longrightarrow> thought_of b (t_id t) = None \<Longrightarrow>
    ids_ok ((shift_for_insert b k)\<lparr>b_thoughts := b_thoughts (shift_for_insert b k) @ [t]\<rparr>)"
  "ids_ok b \<Longrightarrow> separator_of b (sep_id s) = None \<Longrightarrow>
    ids_ok ((shift_for_insert b k)\<lparr>b_separators := b_separators (shift_for_insert b k) @ [s]\<rparr>)"
proof -
  have "t_id t \<notin> set (map t_id (b_thoughts b))" if "thought_of b (t_id t) = None"
    using that by (auto simp: thought_of_def find_None_iff)
  moreover have "sep_id s \<notin> set (map sep_id (b_separators b))" if "separator_of b (sep_id s) = None"
    using that by (auto simp: separator_of_def find_None_iff)
  ultimately show "ids_ok b \<Longrightarrow> thought_of b (t_id t) = None \<Longrightarrow>
    ids_ok ((shift_for_insert b k)\<lparr>b_thoughts := b_thoughts (shift_for_insert b k) @ [t]\<rparr>)"
    "ids_ok b \<Longrightarrow> separator_of b (sep_id s) = None \<Longrightarrow>
    ids_ok ((shift_for_insert b k)\<lparr>b_separators := b_separators (shift_for_insert b k) @ [s]\<rparr>)"
    by (simp_all add: ids_ok_def shifted_ids flip: set_map)
qed

lemma in_place_ids: "apply_mutation_in_place at b m = Inr b' \<Longrightarrow> ids_ok b \<Longrightarrow> ids_ok b'"
proof (induction m arbitrary: b b')
  case (Batch ms)
  then obtain b1 where "try_fold (apply_mutation_in_place at) b ms = Inr b1" "b' = touch_session at b1" by auto
  then show ?case
    using try_fold_invariant [of ids_ok b ms "apply_mutation_in_place at" b1] Batch by simp
qed (auto simp: add_or_restore_def add_or_restore_separator_def set_deletion_def set_separator_deletion_def set_deletion_exact_def
      move_thought_def move_separator_def replace_content_def set_name_def set_presentation_def set_legacy_collapsed_def
      Let_def ids_mut ids_push ids_move_shift split: option.splits if_splits)

lemma sim_fold:
  assumes "\<And>m b c. m \<in> set ms \<Longrightarrow> board_sim b c \<Longrightarrow> ids_ok b \<Longrightarrow>
      sim_result (apply_mutation_in_place at b m) (apply_mutation_in_place at c m)"
    and "board_sim b c" and "ids_ok b"
  shows "sim_result (try_fold (apply_mutation_in_place at) b ms) (try_fold (apply_mutation_in_place at) c ms)"
  using assms
proof (induction ms arbitrary: b c)
  case (Cons m ms)
  show ?case
    unfolding try_fold.simps
  proof (rule sim_bind_board)
    show "sim_result (apply_mutation_in_place at b m) (apply_mutation_in_place at c m)" using Cons.prems by simp
    fix b1 c1 assume "apply_mutation_in_place at b m = Inr b1" "board_sim b1 c1"
    then show "sim_result (try_fold (apply_mutation_in_place at) b1 ms) (try_fold (apply_mutation_in_place at) c1 ms)"
      using Cons.prems in_place_ids by (intro Cons.IH) auto
  qed
qed simp

lemma sim_in_place:
  "board_sim b c \<Longrightarrow> ids_ok b \<Longrightarrow> sim_result (apply_mutation_in_place at b m) (apply_mutation_in_place at c m)"
proof (induction m arbitrary: b c)
  case (Batch ms)
  then show ?case by (simp add: sim_bind_board sim_fold)
qed (use sim_add_or_restore sim_add_or_restore_separator sim_set_deletion sim_moves sim_edits in
    \<open>auto simp: set_legacy_collapsed_def intro!: sim_bind_board\<close>)

section \<open>Observation and validation\<close>

lemma observe_one_commute: "try_bind (observe_one c x) (\<lambda>c. observe_one c y) = try_bind (observe_one c y) (\<lambda>c. observe_one c x)"
  by (cases "occurrence x"; cases "occurrence y")
    (auto simp: observe_one_cases set_counter_def counter_def max.commute max.left_commute)

lemma observe_append: "observe c (as @ bs) = try_bind (observe c as) (\<lambda>c. observe c bs)"
  by (simp add: observe_def try_fold_append)

lemma observe_perm: "mset as = mset bs \<Longrightarrow> observe c as = observe c bs"
  unfolding observe_def by (rule try_fold_perm) (rule observe_one_commute)

lemma sim_observe:
  assumes "board_sim b c"
  shows "sim_result (observe_attachments b) (observe_attachments c)"
proof -
  have swap: "try_bind (observe k (t_annotations x)) (\<lambda>k. observe k (t_annotations y))
      = try_bind (observe k (t_annotations y)) (\<lambda>k. observe k (t_annotations x))" for k x y
    using observe_perm [of "t_annotations x @ t_annotations y" "t_annotations y @ t_annotations x" k]
    by (simp add: observe_append)
  have "try_fold (\<lambda>c t. observe c (t_annotations t)) k (b_thoughts b)
      = try_fold (\<lambda>c t. observe c (t_annotations t)) k (b_thoughts c)" for k
    by (rule try_fold_perm [where f = "\<lambda>c t. observe c (t_annotations t)", OF swap]) (use assms in \<open>simp add: board_sim_def\<close>)
  moreover have "b_counters b = b_counters c" using assms by (simp add: board_sim_def)
  ultimately show ?thesis unfolding observe_attachments_def using assms
    by (auto intro!: sim_bind simp: board_sim_def)
qed

lemma entries_perm: "board_sim b c \<Longrightarrow> entries b = entries c"
  by (simp add: board_sim_def entries_def position_table_def)

lemma sim_inv: "board_sim b c \<Longrightarrow> board_inv b \<Longrightarrow> board_inv c"
  using entries_perm [of b c] represents_order [of c "order b"] sim_ids [of b c]
  by (auto simp: board_inv_def ids_ok_def board_sim_def dest: mset_eq_setD)

lemma occurrences_perm: "mset xs = mset ys \<Longrightarrow> mset (live_annotations xs) = mset (live_annotations ys)"
proof -
  have "mset (live_annotations zs) = (\<Sum>t \<in># filter_mset t_is_live (mset zs). mset (t_annotations t))" for zs
    by (induction zs) (simp_all add: live_annotations_def)
  then show "mset xs = mset ys \<Longrightarrow> mset (live_annotations xs) = mset (live_annotations ys)" by simp
qed

lemma unique_perm:
  assumes "mset as = mset bs"
  shows "(\<exists>atts. validate_unique as ids = Inr atts) \<longleftrightarrow> (\<exists>atts. validate_unique bs ids = Inr atts)"
proof -
  have e: "(\<exists>atts. validate_unique xs ids = Inr atts) \<longleftrightarrow> (\<forall>a \<in> set xs. unassigned_kind (ann_kind a) = None)
      \<and> distinct (occurrences xs) \<and> set (occurrences xs) \<inter> identity_numbers ids = {}" for xs
  proof
    assume "\<exists>atts. validate_unique xs ids = Inr atts"
    then obtain atts where "validate_unique xs ids = Inr atts" ..
    then show "(\<forall>a \<in> set xs. unassigned_kind (ann_kind a) = None)
      \<and> distinct (occurrences xs) \<and> set (occurrences xs) \<inter> identity_numbers ids = {}"
      using validate_unique_iff [of xs ids "identity_numbers atts"] by auto
  next
    assume "(\<forall>a \<in> set xs. unassigned_kind (ann_kind a) = None)
      \<and> distinct (occurrences xs) \<and> set (occurrences xs) \<inter> identity_numbers ids = {}"
    then show "\<exists>atts. validate_unique xs ids = Inr atts"
      using validate_unique_iff [of xs ids "identity_numbers ids \<union> set (occurrences xs)"] by auto
  qed
  have m: "mset (occurrences as) = mset (occurrences bs)" using assms
    by (simp add: occurrences_def List.map_filter_def)
  show ?thesis unfolding e mset_eq_imp_distinct_iff [OF m] mset_eq_setD [OF m] mset_eq_setD [OF assms] ..
qed

lemma sim_validate:
  assumes "board_sim b c" and "validate b = Inr ()"
  shows "validate c = Inr ()"
  using assms sim_inv [OF assms(1)] unique_perm [OF occurrences_perm, of "b_thoughts b" "b_thoughts c" "{}"]
  by (auto simp: validate_iff board_sim_def dest: mset_eq_setD)

theorem sim_apply_mutation:
  assumes "board_sim b c" and "ids_ok b"
  shows "sim_result (apply_mutation b m at) (apply_mutation c m at)"
  unfolding apply_mutation_def
proof (rule sim_bind_board [OF sim_in_place [OF assms]], rule sim_bind_board [OF sim_observe])
  fix b1 c1 assume "board_sim b1 c1"
  then show "sim_result (try_bind (validate b1) (\<lambda>_. Inr b1)) (try_bind (validate c1) (\<lambda>_. Inr c1))"
    using sim_validate by (cases "validate b1") auto
qed

end
