(* ===== verification/Lane_Properties.thy ===== *)
theory Lane_Properties
  imports Lane_Invariant Board_Similarity "HOL-Library.AList_Mapping"
begin

text \<open>
  The properties of the reducer lane: every action keeps its invariant, refused actions change
  nothing, successful ones emit one durable request with the next sequence, a failed write freezes the
  board, and acknowledgements drain the outstanding writes.
\<close>

section \<open>Reduced actions\<close>

lemma reduce_inv:
  assumes "lane_inv s"
  shows "lane_inv (snd (reduce digest a s))"
proof -
  obtain v s' where r: "reduce digest a s = (v, s')" by fastforce
  show ?thesis
  proof (cases v)
    case (Inl e)
    then have "s' = s \<or> s' = consumed a s" using reduce_ends [OF assms, of a digest] r by simp
    then show ?thesis using assms r lane_inv_core [OF core_consumed, of a s] by auto
  next
    case (Inr effects)
    then obtain emitted s1 where "lane_step s emitted s1" and c: "core s' = core s1"
      using reduce_ends [OF assms, of a digest] r by auto
    then have "lane_inv s1" using lane_step_inv assms by blast
    then show ?thesis using lane_inv_core [OF c] r by simp
  qed
qed

text \<open>C5: Every action keeps the invariant of the lane, whether it succeeds or is refused.\<close>

theorem reduce_keeps_lane_inv:
  assumes "lane_inv s"
  shows "lane_inv (snd (reduce digest a s))"
  using assms by (rule reduce_inv)

text \<open>C7: A refused action changes nothing, except that a clipboard completion has used up its request.\<close>

theorem reduce_error_atomic:
  assumes "lane_inv s" and "reduce digest a s = (Inl e, s')"
  shows "s' = s \<or> (\<exists>rid result. a = ClipboardResult rid result
    \<and> s' = s\<lparr>pending_clipboards := Mapping.delete rid (pending_clipboards s)\<rparr>)"
proof -
  have "s' = s \<or> s' = consumed a s" using reduce_ends [OF assms(1), of a digest] assms(2) by simp
  then show ?thesis by (cases a) (auto simp: consumed_def)
qed

section \<open>Effects\<close>

abbreviation body :: "session_board \<Rightarrow> thought list \<times> separator list \<times> attachment_counters" where
  "body b \<equiv> (b_thoughts b, b_separators b, b_counters b)"

lemma split_checks: "split_effects b auxiliary (map CheckAttachments batches) = Inr (b, auxiliary @ map CheckAttachments batches)"
  by (induction batches arbitrary: auxiliary) simp_all

lemma sequenced_durable:
  assumes "persistence_batch e = Some b" and "batch_sequence_of b = Some q"
  shows "sequenced_new (e # map CheckAttachments batches)
    = Inr \<lparr>se_batch = b, se_sequence = q, se_auxiliary = map CheckAttachments batches\<rparr>"
  using assms by (simp add: sequenced_new_def assign_durable_batch_def split_checks)

lemma quiet_not_durable: "quiet e \<Longrightarrow> persistence_batch e = None"
  by (cases e) simp_all

lemma after_record_fields [simp]:
  "highest_sequence (after_record operation edited b s) = op_sequence operation"
  "pending_sequences (after_record operation edited b s) = insert (op_sequence operation) (pending_sequences s)"
  by (simp_all add: after_record_def push_board_history_def)

lemma after_edit_fields [simp]:
  "highest_sequence (after_edit r b s) = rev_sequence r"
  "pending_sequences (after_edit r b s) = insert (rev_sequence r) (pending_sequences s)"
  by (simp_all add: after_edit_def Let_def truncate_redo_eq)

lemma commit_deferred_cases:
  assumes "commit_deferred_board_operation q s = (Inr (), s1)"
  shows "Mapping.lookup (deferred_board_operations s) q = None \<and> s1 = s
    \<or> (\<exists>operation b. Mapping.lookup (deferred_board_operations s) q = Some operation
        \<and> apply_mutation (board s) (op_forward operation) (op_created_at operation) = Inr b
        \<and> s1 = keep_focus_valid ((push_board_history operation (s\<lparr>board := b\<rparr>))\<lparr>deferred_board_operations :=
             Mapping.delete q (deferred_board_operations s)\<rparr>))"
  using assms
  by (auto simp: commit_deferred_board_operation_def try_st_def Let_def push_board_history_def split: option.splits sum.splits)

lemma focus_fields [simp]:
  "board (keep_focus_valid s) = board s" "durability (keep_focus_valid s) = durability s"
  "pending_sequences (keep_focus_valid s) = pending_sequences s"
  "deferred_board_operations (keep_focus_valid s) = deferred_board_operations s"
  "highest_sequence (keep_focus_valid s) = highest_sequence s"
  using core_fields [OF core_keep_focus] by simp_all

text \<open>A step either emits one durable effect with the next sequence, or leaves sequences and content
  alone unless it lands the staged operation.\<close>

definition durable_step :: "app_state \<Rightarrow> effect list \<Rightarrow> app_state \<Rightarrow> bool" where
  "durable_step s effects s' \<longleftrightarrow> (\<exists>e b q. effects = [e] \<and> persistence_batch e = Some b \<and> batch_sequence_of b = Some q
     \<and> checked_succ64 (highest_sequence s) = Some q \<and> highest_sequence s' = q \<and> pending_sequences s' = insert q (pending_sequences s))"

definition silent_step :: "app_state \<Rightarrow> effect list \<Rightarrow> app_state \<Rightarrow> bool" where
  "silent_step s effects s' \<longleftrightarrow> (\<forall>e \<in> set effects. persistence_batch e = None) \<and> highest_sequence s' = highest_sequence s
     \<and> pending_sequences s' \<subseteq> pending_sequences s
     \<and> (body (board s') = body (board s)
        \<or> (\<exists>q. Mapping.lookup (deferred_board_operations s) q \<noteq> None \<and> Mapping.lookup (deferred_board_operations s') q = None))"

lemma durable_stepI:
  assumes "next_sequence s = Inr q" and "persistence_batch e = Some b" and "batch_sequence_of b = Some q"
    and "highest_sequence s' = q" and "pending_sequences s' = insert q (pending_sequences s)"
  shows "durable_step s [e] s'"
  using assms next_sequence_Inr(2) [OF assms(1)] by (auto simp: durable_step_def)

lemma silent_stepI:
  assumes "\<forall>e \<in> set effects. persistence_batch e = None" and "core s' = core z" and "highest_sequence z = highest_sequence s"
    and "pending_sequences z = pending_sequences s" and "body (board z) = body (board s)"
  shows "silent_step s effects s'"
  using assms core_fields [OF assms(2)] by (simp add: silent_step_def)

lemma lane_step_sequenced:
  assumes "lane_step s effects s'"
  shows "durable_step s effects s' \<or> silent_step s effects s'"
  using assms
proof cases
  case Quiet
  then have "silent_step s effects s'"
    by (intro silent_stepI [where z = s]) (auto simp: list_all_iff quiet_not_durable)
  then show ?thesis ..
next
  case (Recorded operation b edited)
  then show ?thesis using core_fields(6,8) [OF Recorded(4)] by (intro disjI1) (auto intro: durable_stepI)
next
  case (Staged operation)
  then show ?thesis using core_fields(6,8) [OF Staged(3)] by (intro disjI1) (auto intro: durable_stepI)
next
  case (Edited r t b)
  then show ?thesis using core_fields(6,8) [OF Edited(8)] by (intro disjI1) (auto intro: durable_stepI)
next
  case (Board_Moved q undo operation at b oid)
  then show ?thesis using core_fields(6,8) [OF Board_Moved(6)] by (intro disjI1) (auto intro: durable_stepI)
next
  case (Editor_Moved q i undo h r t at oid)
  then show ?thesis using core_fields(6,8) [OF Editor_Moved(9)] by (intro disjI1) (auto intro: durable_stepI)
next
  case (Kept_Name q oid i name at)
  then show ?thesis using core_fields(6,8) [OF Kept_Name(3)] by (intro disjI1) (auto intro: durable_stepI)
next
  case (Renamed name renamed)
  then have "silent_step s effects s'"
    by (intro silent_stepI [where z = "s\<lparr>board := (board s)\<lparr>b_session := renamed\<rparr>\<rparr>"]) auto
  then show ?thesis ..
next
  case (Committed q s1)
  note f = core_fields(1,6,7,8) [OF Committed(4)]
  from commit_deferred_cases [OF Committed(3)] have "silent_step s effects s'"
  proof (elim disjE exE conjE)
    assume "s1 = s"
    then show ?thesis unfolding silent_step_def f Committed(1) by (simp add: acknowledge_def)
  next
    fix operation b
    assume a: "Mapping.lookup (deferred_board_operations s) q = Some operation"
      and "s1 = keep_focus_valid ((push_board_history operation (s\<lparr>board := b\<rparr>))\<lparr>deferred_board_operations :=
             Mapping.delete q (deferred_board_operations s)\<rparr>)"
    then have "Mapping.lookup (deferred_board_operations s) q \<noteq> None" "Mapping.lookup (deferred_board_operations (acknowledge q s1)) q = None"
      "highest_sequence (acknowledge q s1) = highest_sequence s" "pending_sequences (acknowledge q s1) \<subseteq> pending_sequences s"
      by (auto simp: acknowledge_def push_board_history_def lookup_delete)
    then show ?thesis unfolding silent_step_def f Committed(1) by auto
  qed
  then show ?thesis ..
next
  case (Persist_Failed q failed code)
  then have "silent_step s effects s'" by (intro silent_stepI [OF _ Persist_Failed(4)]) simp_all
  then show ?thesis ..
next
  case (Persist_Retried d q code latest)
  then have "silent_step s effects s'" by (intro silent_stepI [OF _ Persist_Retried(5)]) simp_all
  then show ?thesis ..
qed

text \<open>C6: A successful action either emits exactly one durable request, first and with the next
  sequence, which the split of its effects accepts; or it emits none, and then takes no sequence and
  changes no thought, separator or attachment counter, unless it lands a staged removal.\<close>

theorem reduce_sequenced:
  assumes "lane_inv s" and "reduce digest a s = (Inr effects, s')"
  shows "(\<exists>e b q batches. effects = e # map CheckAttachments batches \<and> persistence_batch e = Some b
      \<and> sequenced_new effects = Inr \<lparr>se_batch = b, se_sequence = q, se_auxiliary = map CheckAttachments batches\<rparr>
      \<and> checked_succ64 (highest_sequence s) = Some q \<and> highest_sequence s' = q
      \<and> pending_sequences s' = insert q (pending_sequences s))
    \<or> ((\<forall>e \<in> set effects. persistence_batch e = None) \<and> highest_sequence s' = highest_sequence s
      \<and> pending_sequences s' \<subseteq> pending_sequences s
      \<and> (body (board s') = body (board s) \<or> (\<exists>q. Mapping.lookup (deferred_board_operations s) q \<noteq> None
           \<and> Mapping.lookup (deferred_board_operations s') q = None)))"
proof -
  obtain emitted s1 batches where r: "lane_step s emitted s1" "core s' = core s1" "effects = emitted @ map CheckAttachments batches"
    using reduce_ends [OF assms(1), of a digest] assms(2) by auto
  note f = core_fields [OF r(2)]
  from lane_step_sequenced [OF r(1)] show ?thesis
  proof
    assume "durable_step s emitted s1"
    then obtain e b q where d: "emitted = [e]" "persistence_batch e = Some b" "batch_sequence_of b = Some q"
      "checked_succ64 (highest_sequence s) = Some q" "highest_sequence s1 = q" "pending_sequences s1 = insert q (pending_sequences s)"
      by (auto simp: durable_step_def)
    have "effects = e # map CheckAttachments batches" using r(3) d(1) by simp
    then show ?thesis using d(2-6) f sequenced_durable [OF d(2,3), of batches] by blast
  next
    assume "silent_step s emitted s1"
    then show ?thesis using r(3) f by (auto simp: silent_step_def)
  qed
qed

section \<open>Rehydration\<close>

definition collected_ok :: "(thought_id, editor_history) mapping \<Rightarrow> bool" where
  "collected_ok m \<longleftrightarrow> (\<forall>i h. Mapping.lookup m i = Some h \<longrightarrow> history_ok i h)"

lemma collected_default: "collected_ok m \<Longrightarrow> history_ok i (or_default m i)"
  by (auto simp: collected_ok_def or_default_def history_ok_def empty_history_def split: option.splits)

lemma collect_revision_ok:
  assumes "collected_ok m" and "revision_ok r" and "collect_revision b m r = Inr m'"
  shows "collected_ok m'"
proof -
  let ?i = "rev_thought_id r" and ?h = "or_default m (rev_thought_id r)"
  have "history_ok ?i (?h\<lparr>eh_revisions := eh_revisions ?h @ [r]\<rparr>)"
    using collected_default [OF assms(1), of ?i] assms(2) by (auto simp: history_ok_def)
  moreover have "m' = Mapping.update ?i (?h\<lparr>eh_revisions := eh_revisions ?h @ [r]\<rparr>) m"
    using assms(3) by (simp add: collect_revision_def Let_def split: if_splits)
  ultimately show ?thesis using assms(1) by (simp add: collected_ok_def lookup_update)
qed

lemma collect_cursor_ok:
  assumes "collected_ok (snd om)" and "collect_cursor b om ic = Inr om'"
  shows "collected_ok (snd om')"
proof -
  obtain owners m i cursor where e: "om = (owners, m)" "ic = (i, cursor)" by (cases om; cases ic)
  then have "cursor \<le> length (eh_revisions (or_default m i))" "snd om' = Mapping.update i ((or_default m i)\<lparr>eh_cursor := cursor\<rparr>) m"
    using assms(2) by (auto simp: collect_cursor_def Let_def split: if_splits)
  then show ?thesis using assms(1) e collected_default [of m i]
    by (auto simp: collected_ok_def lookup_update history_ok_def)
qed

lemma app_new_fields [simp]:
  "board (app_new b) = b" "highest_sequence (app_new b) = last_durable_sequence (b_session b)" "pending_sequences (app_new b) = {}"
  "durability (app_new b) = Durable (last_durable_sequence (b_session b))" "deferred_board_operations (app_new b) = Mapping.empty"
  "board_history (app_new b) = []" "board_history_cursor (app_new b) = 0" "editor_histories (app_new b) = Mapping.empty"
  "locked_thoughts (app_new b) = {}"
  by (simp_all add: app_new_def)

text \<open>C8: A lane rehydrated from a snapshot whose board is valid and whose revisions carry valid
  annotations satisfies the invariant and shows exactly that board.\<close>

theorem from_snapshot_lane_inv:
  assumes "validate (sn_board sn) = Inr ()" and "\<forall>r \<in> set (sn_revisions sn). revision_validate_annotations r = Inr ()"
    and "from_snapshot sn = Inr s"
  shows "lane_inv s \<and> board s = sn_board sn"
proof -
  obtain m om where m: "try_fold (collect_revision (sn_board sn)) Mapping.empty (sn_revisions sn) = Inr m"
    "try_fold (collect_cursor (sn_board sn)) ({}, m) (sn_editor_history_cursors sn) = Inr om"
    "sn_board_history_cursor sn \<le> length (sn_board_operations sn)"
    "s = (app_new (sn_board sn))\<lparr>board_history := sn_board_operations sn,
       board_history_cursor := sn_board_history_cursor sn, editor_histories := snd om\<rparr>"
    using assms(3) by (auto simp: from_snapshot_def Let_def split: if_splits prod.splits)
  have "collected_ok m"
    by (rule try_fold_invariant [of collected_ok, OF _ _ m(1)])
      (use assms(2) collect_revision_ok in \<open>auto simp: collected_ok_def revision_ok_def\<close>)
  then have "collected_ok (snd om)"
    by (intro try_fold_invariant [of "\<lambda>om. collected_ok (snd om)", OF _ _ m(2)]) (auto dest: collect_cursor_ok)
  then show ?thesis using m(3,4) validate_board_ok [OF assms(1)]
    by (simp add: lane_inv_def histories_ok_def collected_ok_def sequences_ok_def durability_ok_def deferred_ok_def)
qed

section \<open>The freeze after a failed write\<close>

lemma frozen_clipboard:
  assumes "finish_clipboard rid (Inl code) s = (Inr emitted, s1)"
  shows "(\<forall>e \<in> set emitted. persistence_batch e = None) \<and> board s1 = board s"
  using assms by (auto simp: finish_clipboard_def Let_def split: option.splits)

lemma frozen_route:
  assumes "is_failed (durability s)" and "\<not> mutates_durable_state a" and "\<forall>q. a \<noteq> PersistenceCommitted q"
    and "route a s = (Inr emitted, s1)"
  shows "(\<forall>e \<in> set emitted. persistence_batch e = None) \<and> board s1 = board s"
proof (cases "\<exists>rid result. a = ClipboardResult rid result")
  case True
  then obtain rid result where a: "a = ClipboardResult rid result" by blast
  then obtain code where "finish_clipboard rid (Inl code) s = (Inr emitted, s1)"
    using assms(1,4) by (cases result) (auto simp: route_def reduce_clipboard_def)
  then show ?thesis by (rule frozen_clipboard)
next
  case False
  then show ?thesis using assms(2,3,4)
    by (cases a) (auto simp: mutates_durable_state_def undo_contract_of_def starts_durable_mutation_def route_def
        reduce_navigation_def lock_transition_def reduce_clipboard_def reduce_persistence_def request_clipboard_def
        try_st_def Let_def split: option.splits sum.splits if_splits prod.splits)
qed

text \<open>C9: While a durable write is recorded as failed, no action but the acknowledgement of an earlier
  write changes the board or emits a durable request.\<close>

theorem failed_write_freezes_board:
  assumes "is_failed (durability s)" and "\<forall>q. a \<noteq> PersistenceCommitted q" and "reduce digest a s = (Inr effects, s')"
  shows "board s' = board s \<and> (\<forall>e \<in> set effects. persistence_batch e = None)"
proof -
  have a: "\<not> mutates_durable_state a" using assms(1,3) by (auto simp: reduce_def try_st_def split: sum.splits)
  then obtain emitted s1 where r: "route a s = (Inr emitted, s1)"
    "refresh_attachments digest (focused_item s) emitted s1 = (effects, s')"
    using assms(3) by (auto simp: reduce_def try_st_def then_st_def split: sum.splits prod.splits)
  from frozen_route [OF assms(1) a assms(2) r(1)] refresh_attachments_ends [OF r(2)]
  show ?thesis using core_fields(1) [of s' s1] by auto
qed


section \<open>Draining the outstanding writes\<close>

fun reduce_all :: "(rstr \<Rightarrow> u8 list) \<Rightarrow> action list \<Rightarrow> app_state \<Rightarrow> app_error + app_state" where
  "reduce_all digest [] s = Inr s"
| "reduce_all digest (a # as) s =
     (case reduce digest a s of (Inl e, _) \<Rightarrow> Inl e | (Inr _, s1) \<Rightarrow> reduce_all digest as s1)"

text \<open>The staged operation, if any, applies to the board.\<close>

definition staged_applies :: "app_state \<Rightarrow> bool" where
  "staged_applies s \<longleftrightarrow> (\<forall>q operation. Mapping.lookup (deferred_board_operations s) q = Some operation
     \<longrightarrow> (\<exists>b. apply_mutation (board s) (op_forward operation) (op_created_at operation) = Inr b))"

lemma staged_sim:
  assumes "staged_applies s" and "ids_ok (board s)" and "board_sim (board s) (board z)"
    and "\<And>q operation. Mapping.lookup (deferred_board_operations z) q = Some operation \<Longrightarrow>
       Mapping.lookup (deferred_board_operations s) q = Some operation"
  shows "staged_applies z"
  using assms sim_apply_mutation [OF assms(3,2)] unfolding staged_applies_def sim_result_def by blast

lemma commit_staged:
  assumes "staged_applies s" and "lane_inv s"
  shows "\<exists>s1. commit_deferred_board_operation q s = (Inr (), s1) \<and> staged_applies s1 \<and> pending_sequences s1 = pending_sequences s
    \<and> highest_sequence s1 = highest_sequence s \<and> ids_ok (board s1)"
proof (cases "Mapping.lookup (deferred_board_operations s) q")
  case None
  then show ?thesis using assms by (auto simp: commit_deferred_board_operation_def lane_inv_iff board_ok_def board_inv_ids)
next
  case (Some operation)
  then obtain b where b: "apply_mutation (board s) (op_forward operation) (op_created_at operation) = Inr b"
    using assms(1) by (auto simp: staged_applies_def)
  have "Mapping.lookup (Mapping.delete q (deferred_board_operations s)) p = None" for p
    using deferred_delete [OF _ Some] assms(2) by (simp add: lane_inv_def)
  then show ?thesis using Some b apply_mutation_ok [OF b]
    by (simp add: commit_deferred_board_operation_def try_st_def Let_def push_board_history_def staged_applies_def
        board_ok_def board_inv_ids)
qed

lemma acknowledge_staged:
  assumes "staged_applies s" and "ids_ok (board s)"
  shows "staged_applies (acknowledge q s)"
  using assms by (rule staged_sim) (simp_all add: acknowledge_def board_sim_def session_validate_def)

text \<open>The acknowledgement of the oldest outstanding write succeeds.\<close>

lemma reduce_acknowledge:
  assumes "lane_inv s" and "staged_applies s" and "first_sequence (pending_sequences s) = Some q"
  shows "\<exists>effects s'. reduce digest (PersistenceCommitted q) s = (Inr effects, s') \<and> lane_inv s' \<and> staged_applies s'
    \<and> pending_sequences s' = pending_sequences s - {q} \<and> highest_sequence s' = highest_sequence s"
proof -
  obtain s1 where s1: "commit_deferred_board_operation q s = (Inr (), s1)" "staged_applies s1" "ids_ok (board s1)"
    "pending_sequences s1 = pending_sequences s" "highest_sequence s1 = highest_sequence s"
    using commit_staged [OF assms(2,1)] by blast
  have "route (PersistenceCommitted q) s = (Inr [], acknowledge q s1)"
    using assms(3) s1(1) by (simp add: route_def reduce_persistence_def then_st_def acknowledge_def Let_def)
  moreover obtain effects s' where r: "refresh_attachments digest (focused_item s) [] (acknowledge q s1) = (effects, s')"
    by fastforce
  ultimately have red: "reduce digest (PersistenceCommitted q) s = (Inr effects, s')"
    by (simp add: reduce_def ensure_action_unlocked_def locked_action_def try_st_def then_st_def
        mutates_durable_state_def undo_contract_of_def starts_durable_mutation_def)
  have c: "core s' = core (acknowledge q s1)" using refresh_attachments_ends [OF r] by simp
  have "staged_applies s'" using acknowledge_staged [OF s1(2,3)] core_fields(1,7) [OF c] by (simp add: staged_applies_def)
  then show ?thesis
    using red reduce_inv [OF assms(1), of digest "PersistenceCommitted q"] core_fields(6,8) [OF c] s1(4,5)
    by (simp add: acknowledge_def)
qed

lemma sorted_pending: "first_sequence P = Some q \<Longrightarrow> sorted_list_of_set P = q # sorted_list_of_set (P - {q})"
  by (auto simp: first_sequence_def sorted_list_of_set_nonempty split: if_splits)

lemma drain:
  assumes "lane_inv s" and "staged_applies s"
  shows "\<exists>s'. reduce_all digest (map PersistenceCommitted (sorted_list_of_set (pending_sequences s))) s = Inr s'
    \<and> pending_sequences s' = {} \<and> durability s' = Durable (highest_sequence s)"
  using assms
proof (induction "card (pending_sequences s)" arbitrary: s)
  case 0
  then have e: "pending_sequences s = {}" by simp
  then have "durability s = Durable (durable_sequence s)" "highest_sequence s = durable_sequence s"
    using 0(2) by (auto simp: lane_inv_def durability_ok_def sequences_ok_def split: durability_state.splits)
  then show ?case using e by simp
next
  case (Suc n)
  then have "pending_sequences s \<noteq> {}" by auto
  then obtain q where q: "first_sequence (pending_sequences s) = Some q" by (simp add: first_sequence_def)
  obtain effects s1 where s1: "reduce digest (PersistenceCommitted q) s = (Inr effects, s1)" "lane_inv s1" "staged_applies s1"
    "pending_sequences s1 = pending_sequences s - {q}" "highest_sequence s1 = highest_sequence s"
    using reduce_acknowledge [OF Suc(3,4) q, of digest] by auto
  have p: "pending_sequences s = {durable_sequence s <.. highest_sequence s}" using Suc(3) by (simp add: lane_inv_def sequences_ok_def)
  have "q \<in> pending_sequences s" using first_interval(1,2) [OF q [unfolded p]] by (simp add: p)
  then have "n = card (pending_sequences s1)" using Suc(2) s1(4) by simp
  from Suc(1) [OF this s1(2,3)] show ?case using s1(1,4,5) sorted_pending [OF q] by simp
qed


text \<open>C10: Acknowledging the outstanding writes in order always succeeds and ends with everything
  durable, as long as the staged operation applies to the board.\<close>

theorem acknowledgements_drain:
  assumes "lane_inv s" and "staged_applies s"
  shows "\<exists>s'. reduce_all digest (map PersistenceCommitted (sorted_list_of_set (pending_sequences s))) s = Inr s'
    \<and> pending_sequences s' = {} \<and> durability s' = Durable (highest_sequence s)"
  using assms by (rule drain)

section \<open>Captures\<close>

lemma added_present:
  assumes "apply_mutation b (AddThought t) at = Inr b'"
  shows "thought_of b' (t_id t) \<noteq> None"
proof -
  obtain c where c: "add_or_restore b t at = Inr c" "b_thoughts b' = b_thoughts c"
    using apply_mutation_Inr [OF assms] by auto
  have "payloads c (t_id t) \<noteq> None" using add_or_restore_payloads [OF c(1)] by (auto simp: add_payload_def split: option.splits)
  then show ?thesis using c(2) by (auto simp: payloads_def thought_of_def)
qed

text \<open>C12: Applying a durable capture to a lane with no outstanding write keeps the invariant; when it
  adds the thought, the lane is durable at the sequence of the capture, and on an error or a replay
  nothing changes.\<close>

theorem apply_capture_lane_inv:
  assumes "lane_inv s" and "pending_sequences s = {}" and "apply_capture commit outcome s = (v, s')"
  shows "lane_inv s' \<and> (case v of
      Inr (Some i) \<Rightarrow> durability s' = Durable (op_sequence (cc_operation commit)) \<and> thought_of (board s') i \<noteq> None
    | _ \<Rightarrow> s' = s)"
proof (cases "\<exists>i. v = Inr (Some i)")
  case False
  then have "s' = s" using assms(3)
    by (auto simp: apply_capture_def apply_durable_capture_def try_st_def then_st_def Let_def
        split: sum.splits option.splits if_splits board_mutation.splits)
  then show ?thesis using assms(1) False by (simp split: sum.splits option.splits)
next
  case True
  let ?o = "cc_operation commit"
  from True obtain t b where t: "op_forward ?o = AddThought t" "v = Inr (Some (t_id t))"
    "next_sequence s = Inr (op_sequence ?o)" "apply_mutation (board s) (op_forward ?o) (op_created_at ?o) = Inr b"
    "core s' = core (refresh_durability ((push_board_history ?o (s\<lparr>board :=
        b\<lparr>b_session := (b_session b)\<lparr>last_durable_sequence := op_sequence ?o\<rparr>\<rparr>\<rparr>))\<lparr>highest_sequence := op_sequence ?o\<rparr>))"
    using assms(3)
    by (auto simp: apply_capture_def apply_durable_capture_def try_st_def then_st_def Let_def
        split: sum.splits option.splits if_splits board_mutation.splits)
  let ?b = "b\<lparr>b_session := (b_session b)\<lparr>last_durable_sequence := op_sequence ?o\<rparr>\<rparr>"
  let ?z = "(push_board_history ?o (s\<lparr>board := ?b\<rparr>))\<lparr>highest_sequence := op_sequence ?o\<rparr>"
  note f = core_fields [OF t(5)]
  have d: "durability s = Durable (durable_sequence s)" "Mapping.lookup (deferred_board_operations s) q = None" for q
    using assms(1,2) next_sequence_Inr(1) [OF t(3)] no_deferred
    by (auto simp: lane_inv_def durability_ok_def split: durability_state.splits)
  have "board_ok ?b" using apply_mutation_ok [OF t(4)]
    by (intro board_session_ok) (simp_all add: board_ok_def session_validate_def)
  moreover have "histories_ok (push_board_history ?o (s\<lparr>board := ?b\<rparr>))" using assms(1) by (simp add: histories_push lane_inv_def)
  then have "histories_ok s'" by (rule histories_same) (simp_all add: f)
  moreover have s': "durability s' = Durable (op_sequence ?o)" "board s' = ?b" "pending_sequences s' = {}"
    "highest_sequence s' = op_sequence ?o" "deferred_board_operations s' = deferred_board_operations s"
    using d(1) assms(2) by (simp_all add: f refresh_durability_def push_board_history_def Let_def last_sequence_def)
  ultimately have "lane_inv s'" using d(2)
    by (simp add: lane_inv_def sequences_ok_def durability_ok_def deferred_ok_def)
  moreover have "thought_of (board s') (t_id t) \<noteq> None" using added_present [OF t(4) [unfolded t(1)]]
    by (simp add: s'(2) thought_of_def)
  ultimately show ?thesis using t(2) s'(1) by simp
qed

section \<open>A small lane for evaluation\<close>

definition sample_lane :: app_state where
  "sample_lane = app_new sample_board"

abbreviation sample_digest :: "rstr \<Rightarrow> u8 list" where
  "sample_digest \<equiv> \<lambda>_. []"

definition sample_move :: action where
  "sample_move = MoveThoughtTo (OperationId [7]) (ThoughtId [1]) 0 5"

lemma app_new_inv: "validate b = Inr () \<Longrightarrow> lane_inv (app_new b)"
  using validate_board_ok [of b]
  by (simp add: lane_inv_def histories_ok_def sequences_ok_def durability_ok_def deferred_ok_def)

lemma sample_lane_inv: "lane_inv sample_lane"
  using app_new_inv [OF sample_valid] by (simp add: sample_lane_def)

lemma succeeds: "\<not> isl (fst r) \<Longrightarrow> (\<And>x s. r = (Inr x, s) \<Longrightarrow> P) \<Longrightarrow> P"
  by (cases r; cases "fst r") auto

lemma fails: "isl (fst r) \<Longrightarrow> (\<And>e s. r = (Inl e, s) \<Longrightarrow> P) \<Longrightarrow> P"
  by (cases r; cases "fst r") auto

lemma sample_move_ok: "\<not> isl (fst (reduce sample_digest sample_move sample_lane))"
  by code_simp

theorem reduce_keeps_lane_inv_witness:
  "lane_inv sample_lane \<and> \<not> isl (fst (reduce sample_digest sample_move sample_lane))
    \<and> lane_inv (snd (reduce sample_digest sample_move sample_lane))"
  using reduce_keeps_lane_inv [OF sample_lane_inv] sample_lane_inv sample_move_ok by blast

theorem reduce_error_atomic_witness:
  "isl (fst (reduce sample_digest (RetryPersistence 1) sample_lane))
    \<and> snd (reduce sample_digest (RetryPersistence 1) sample_lane) = sample_lane"
proof -
  have f: "isl (fst (reduce sample_digest (RetryPersistence 1) sample_lane))" by code_simp
  from f obtain e s' where "reduce sample_digest (RetryPersistence 1) sample_lane = (Inl e, s')" by (rule fails)
  then show ?thesis using f reduce_error_atomic [OF sample_lane_inv] by fastforce
qed

theorem reduce_sequenced_witness:
  "case reduce sample_digest sample_move sample_lane of
     (Inl _, _) \<Rightarrow> False
   | (Inr effects, s') \<Rightarrow> \<not> isl (sequenced_new effects) \<and> highest_sequence s' = 1"
proof -
  from sample_move_ok obtain effects s' where r: "reduce sample_digest sample_move sample_lane = (Inr effects, s')" by (rule succeeds)
  have "highest_sequence (snd (reduce sample_digest sample_move sample_lane)) = 1" "highest_sequence sample_lane = 0"
    by code_simp+
  then show ?thesis using reduce_sequenced [OF sample_lane_inv r] r by auto
qed

definition sample_snapshot :: session_snapshot where
  "sample_snapshot = \<lparr>sn_board = sample_board, sn_board_operations = [], sn_board_history_cursor = 0, sn_revisions = [],
     sn_editor_history_cursors = [(ThoughtId [1], 0), (ThoughtId [2], 0)], sn_integration_context = None\<rparr>"

theorem from_snapshot_lane_inv_witness:
  "case from_snapshot sample_snapshot of Inl _ \<Rightarrow> False | Inr s \<Rightarrow> lane_inv s \<and> board s = sample_board"
proof -
  have "\<not> isl (from_snapshot sample_snapshot)" by code_simp
  then obtain s where "from_snapshot sample_snapshot = Inr s" by (cases "from_snapshot sample_snapshot") auto
  then show ?thesis using from_snapshot_lane_inv [of sample_snapshot s] sample_valid by (simp add: sample_snapshot_def)
qed

definition sample_failed :: app_state where
  "sample_failed = (snd (reduce sample_digest sample_move sample_lane))\<lparr>durability := Failed 0 1 FcStorageFailed\<rparr>"

theorem failed_write_freezes_board_witness:
  "case reduce sample_digest (FocusThought (Some (ThoughtId [1]))) sample_failed of
     (Inl _, _) \<Rightarrow> False | (Inr _, s') \<Rightarrow> board s' = board sample_failed"
proof -
  have "\<not> isl (fst (reduce sample_digest (FocusThought (Some (ThoughtId [1]))) sample_failed))" by code_simp
  then obtain effects s' where r: "reduce sample_digest (FocusThought (Some (ThoughtId [1]))) sample_failed = (Inr effects, s')"
    by (rule succeeds)
  have "is_failed (durability sample_failed)" by (simp add: sample_failed_def is_failed_def)
  then show ?thesis using failed_write_freezes_board [OF _ _ r] r by simp
qed

theorem acknowledgements_drain_witness:
  "\<exists>s'. reduce_all sample_digest (map PersistenceCommitted (sorted_list_of_set
        (pending_sequences (snd (reduce sample_digest sample_move sample_lane))))) (snd (reduce sample_digest sample_move sample_lane)) = Inr s'
     \<and> durability s' = Durable 1"
proof -
  have "Mapping.is_empty (deferred_board_operations (snd (reduce sample_digest sample_move sample_lane)))"
    "highest_sequence (snd (reduce sample_digest sample_move sample_lane)) = 1" by code_simp+
  moreover from this have "staged_applies (snd (reduce sample_digest sample_move sample_lane))"
    by (simp add: staged_applies_def no_deferred)
  ultimately show ?thesis
    using acknowledgements_drain [OF reduce_inv [OF sample_lane_inv, of sample_digest sample_move], of sample_digest] by auto
qed

definition sample_candidate :: screenshot_candidate where
  "sample_candidate = \<lparr>sc_fingerprint = [7], sc_path = [0x2f, 0x61], sc_image_type = Png\<rparr>"

definition sample_outcome :: capture_outcome where
  "sample_outcome = Created \<lparr>rc_session_id = SessionId [1], rc_sequence = 1, rc_identity = OperationIdentity (OperationId [7]),
     rc_idempotent_replay = False\<rparr> \<lparr>cr_source = [7], cr_session_id = SessionId [1], cr_thought_id = ThoughtId [5],
     cr_operation_id = OperationId [7], cr_accepted_at = 5\<rparr>"

definition sample_capture :: "(app_error, thought_id option, app_state) outcome" where
  "sample_capture = (case prepare_capture sample_lane sample_candidate (ThoughtId [5]) (OperationId [7]) 5 of
     Inl e \<Rightarrow> (Inl e, sample_lane) | Inr commit \<Rightarrow> apply_capture commit sample_outcome sample_lane)"

theorem apply_capture_lane_inv_witness:
  "fst sample_capture = Inr (Some (ThoughtId [5])) \<and> lane_inv (snd sample_capture)"
proof -
  have f: "fst sample_capture = Inr (Some (ThoughtId [5]))" by code_simp
  then obtain commit where "sample_capture = apply_capture commit sample_outcome sample_lane"
    by (auto simp: sample_capture_def split: sum.splits)
  then have "apply_capture commit sample_outcome sample_lane = (fst sample_capture, snd sample_capture)" by simp
  moreover have "pending_sequences sample_lane = {}" by (simp add: sample_lane_def)
  ultimately show ?thesis
    using f apply_capture_lane_inv [OF sample_lane_inv, of commit sample_outcome "fst sample_capture" "snd sample_capture"] by blast
qed

end
