(* ===== verification/Lane_Liveness.thy ===== *)
theory Lane_Liveness
  imports Lane_Properties "HOL-Library.Sublist"
begin

text \<open>
  The removal of submitted thoughts is staged when the submission is accepted and lands when its write is
  acknowledged. On a settled board the staged operation applies, no later action can get in its way,
  and acknowledging the outstanding writes in order makes it durable.
\<close>

section \<open>Removals of a valid board\<close>



















section \<open>Staged removals land\<close>




















end
