(* ===== verification/Store_Model.thy ===== *)
theory Store_Model
  imports Session_Lane
begin

text \<open>
  The transactional store of sessions (\<open>src/adapters/sqlite\<close>): loading of boards and snapshots
  (\<open>load.rs\<close>, \<open>support.rs\<close>), structural and editor commits (\<open>board_commit.rs\<close>, \<open>board_persist.rs\<close>,
  \<open>board_commit/thought_names.rs\<close>), history moves and receipts (\<open>history_commit.rs\<close>), attachment high-water
  marks (\<open>attachment_numbering.rs\<close>), request lookup (\<open>operation_lookup.rs\<close>, \<open>receipt_compaction.rs\<close>),
  captures (\<open>capture.rs\<close>) and the part of the Browser history that session commits touch
  (\<open>browser_history/prune.rs\<close>, \<open>browser_history/receipts.rs\<close>).

  A database is a record of tables, a table the list of its rows, and a statement the list function its
  SQL describes; \<open>ORDER BY\<close> with several keys is a sequence of stable sorts, last key first. A
  transaction returns its result with the new database, or an error, and then the database is the old one
  (the rollback). A JSON column holds the value it encodes, so that decoding errors do not occur and two
  request texts are equal when their values are; \<open>request_digest\<close> is the parameter for the SHA-256 of a
  request text. A column of an identifier is the identifier. Foreign keys, contention and the
  derived search index are not modelled.
\<close>

section \<open>Tables\<close>

record session_row =
  sr_session :: session
  sr_cursor :: int
  sr_image_high :: int
  sr_file_high :: int

record thought_row =
  tw_thought :: thought
  tw_position :: int
  tw_cursor :: int

record separator_row =
  sw_separator :: separator
  sw_position :: int

record operation_row =
  ow_id :: operation_id
  ow_session_id :: session_id
  ow_index :: int
  ow_sequence :: int
  ow_payload :: board_operation
  ow_created_at :: timestamp

record revision_row =
  vw_id :: revision_id
  vw_session_id :: session_id
  vw_thought_id :: thought_id
  vw_index :: int
  vw_sequence :: int
  vw_payload :: thought_revision
  vw_created_at :: timestamp

datatype compacted_request =
    CompactedAdd session_id thought_id fingerprint nat
  | CompactedDelete session_id thought_id
  | CompactedMove session_id thought_id nat
  | CompactedRename session_id thought_id "thought_name option"
  | CompactedHistory session_id undo_scope bool
  | CompactedOpaque

datatype request_text =
    BoardText board_operation
  | RevisionText thought_revision
  | MoveText session_id undo_scope bool operation_sequence timestamp
  | RenameText session_id thought_id "thought_name option" operation_sequence timestamp
  | EnvelopeText fingerprint compacted_request

record receipt_row =
  kw_session_id :: session_id
  kw_sequence :: int
  kw_identity :: durable_identity
  kw_request :: request_text
  kw_fingerprint :: "fingerprint option"
  kw_created_at :: timestamp

record browser_row =
  bw_id :: operation_id
  bw_index :: int
  bw_kind :: browser_operation_kind
  bw_target :: session_id

record database =
  db_sessions :: "session_row list"
  db_thoughts :: "thought_row list"
  db_separators :: "separator_row list"
  db_operations :: "operation_row list"
  db_revisions :: "revision_row list"
  db_receipts :: "receipt_row list"
  db_contexts :: "(session_id \<times> integration_context) list"
  db_captures :: "capture_receipt list"
  db_browser_cursor :: int
  db_browser_operations :: "browser_row list"
  db_browser_identities :: "uuid list"

section \<open>Numbers\<close>

definition i64_top :: int where
  "i64_top = 9223372036854775807"

definition sequence_to_i64 :: "operation_sequence \<Rightarrow> store_error + int" where
  "sequence_to_i64 q = (if uint q \<le> i64_top then Inr (uint q) else Inl StoreCorrupt)"

definition sequence_from_i64 :: "int \<Rightarrow> store_error + operation_sequence" where
  "sequence_from_i64 v = (if 0 \<le> v then Inr (of_int v) else Inl StoreCorrupt)"

definition usize_to_i64 :: "nat \<Rightarrow> store_error + int" where
  "usize_to_i64 n = (if int n \<le> i64_top then Inr (int n) else Inl StoreCorrupt)"

definition i64_to_usize :: "int \<Rightarrow> store_error + nat" where
  "i64_to_usize v = (if 0 \<le> v then Inr (nat v) else Inl StoreCorrupt)"

definition i64_to_u32 :: "int \<Rightarrow> store_error + u32" where
  "i64_to_u32 v = (if 0 \<le> v \<and> v \<le> 4294967295 then Inr (of_int v) else Inl StoreCorrupt)"

definition checked_add_i64 :: "int \<Rightarrow> int \<Rightarrow> int option" where
  "checked_add_i64 a b = (if a + b \<le> i64_top \<and> - i64_top - 1 \<le> a + b then Some (a + b) else None)"

section \<open>Rows of a session\<close>

definition session_row_of :: "database \<Rightarrow> session_id \<Rightarrow> session_row option" where
  "session_row_of db sid = List.find (\<lambda>r. ses_id (sr_session r) = sid) (db_sessions db)"

definition update_session_row :: "session_id \<Rightarrow> (session_row \<Rightarrow> session_row) \<Rightarrow> database \<Rightarrow> database" where
  "update_session_row sid f db =
     db\<lparr>db_sessions := map (\<lambda>r. if ses_id (sr_session r) = sid then f r else r) (db_sessions db)\<rparr>"

definition thought_row_of :: "database \<Rightarrow> thought_id \<Rightarrow> thought_row option" where
  "thought_row_of db i = List.find (\<lambda>r. t_id (tw_thought r) = i) (db_thoughts db)"

definition update_thought_row :: "thought_id \<Rightarrow> (thought_row \<Rightarrow> thought_row) \<Rightarrow> database \<Rightarrow> database" where
  "update_thought_row i f db =
     db\<lparr>db_thoughts := map (\<lambda>r. if t_id (tw_thought r) = i then f r else r) (db_thoughts db)\<rparr>"

definition thought_rows :: "database \<Rightarrow> session_id \<Rightarrow> thought_row list" where
  "thought_rows db sid = filter (\<lambda>r. t_session_id (tw_thought r) = sid) (db_thoughts db)"

definition separator_rows :: "database \<Rightarrow> session_id \<Rightarrow> separator_row list" where
  "separator_rows db sid = filter (\<lambda>r. sep_session_id (sw_separator r) = sid) (db_separators db)"

definition operation_rows :: "database \<Rightarrow> session_id \<Rightarrow> operation_row list" where
  "operation_rows db sid = filter (\<lambda>r. ow_session_id r = sid) (db_operations db)"

definition revision_rows :: "database \<Rightarrow> thought_id \<Rightarrow> revision_row list" where
  "revision_rows db i = filter (\<lambda>r. vw_thought_id r = i) (db_revisions db)"

fun separator_bytes :: "separator_id \<Rightarrow> u8 list" where
  "separator_bytes (SeparatorId u) = u"

fun operation_bytes :: "operation_id \<Rightarrow> u8 list" where
  "operation_bytes (OperationId u) = u"

fun identity_bytes :: "durable_identity \<Rightarrow> u8 list" where
  "identity_bytes (OperationIdentity (OperationId u)) = u"
| "identity_bytes (RevisionIdentity (RevisionId u)) = u"

section \<open>Loading\<close>

definition load_session_record :: "database \<Rightarrow> session_id \<Rightarrow> store_error + session" where
  "load_session_record db sid = ok_or StoreNotFound (map_option sr_session (session_row_of db sid))"

definition live_first :: "bool \<Rightarrow> nat" where
  "live_first live = (if live then 0 else 1)"

definition load_thought_row :: "thought_row \<Rightarrow> store_error + thought" where
  "load_thought_row r =
     (let t = tw_thought r in
      try_bind (map_err (\<lambda>_. StoreCorrupt) (validate_annotations (t_content t) (t_annotations t))) (\<lambda>_.
      try_bind (map_err (\<lambda>_. StoreCorrupt)
        (case t_name t of None \<Rightarrow> Inr None | Some n \<Rightarrow> try_bind (new_thought_name (name_str n)) (\<lambda>n. Inr (Some n)))) (\<lambda>name.
      try_bind (i64_to_u32 (tw_position r)) (\<lambda>position.
        Inr (t\<lparr>t_name := name, t_position := position\<rparr>)))))"

definition load_thoughts :: "database \<Rightarrow> session_id \<Rightarrow> store_error + thought list" where
  "load_thoughts db sid =
     try_map load_thought_row
       (sort_key (\<lambda>r. live_first (t_is_live (tw_thought r)))
         (sort_key tw_position
           (sort_key (\<lambda>r. thought_bytes (t_id (tw_thought r))) (thought_rows db sid))))"

definition load_separator_row :: "separator_row \<Rightarrow> store_error + separator" where
  "load_separator_row r =
     try_bind (i64_to_u32 (sw_position r)) (\<lambda>position. Inr ((sw_separator r)\<lparr>sep_position := position\<rparr>))"

definition load_separators :: "database \<Rightarrow> session_id \<Rightarrow> store_error + separator list" where
  "load_separators db sid =
     try_map load_separator_row
       (sort_key (\<lambda>r. live_first (sep_is_live (sw_separator r)))
         (sort_key sw_position
           (sort_key (\<lambda>r. separator_bytes (sep_id (sw_separator r))) (separator_rows db sid))))"

fun board_load_error :: "domain_error \<Rightarrow> store_error" where
  "board_load_error InvalidContentAnnotation = StoreCorrupt"
| "board_load_error _ = StoreInvariant"

definition load_counters :: "database \<Rightarrow> session_id \<Rightarrow> store_error + attachment_counters" where
  "load_counters db sid =
     try_bind (ok_or StoreIo (session_row_of db sid)) (\<lambda>r.
     try_bind (sequence_from_i64 (sr_image_high r)) (\<lambda>img.
     try_bind (sequence_from_i64 (sr_file_high r)) (\<lambda>file.
       map_err (\<lambda>_. StoreCorrupt) (new_counters img file))))"

definition load_board :: "database \<Rightarrow> session_id \<Rightarrow> store_error + session_board" where
  "load_board db sid =
     try_bind (load_session_record db sid) (\<lambda>ses.
     try_bind (load_thoughts db sid) (\<lambda>ts.
     try_bind (load_separators db sid) (\<lambda>ss.
     try_bind (map_err board_load_error (with_separators ses ts ss)) (\<lambda>b.
     try_bind (load_counters db sid) (\<lambda>c.
       map_err (\<lambda>_. StoreCorrupt) (restore_attachment_counters b c))))))"

definition load_operation_row :: "session_id \<Rightarrow> nat \<times> operation_row \<Rightarrow> store_error + board_operation" where
  "load_operation_row sid = (\<lambda>(expected_index, r).
     try_bind (i64_to_usize (ow_index r)) (\<lambda>index.
     if index \<noteq> expected_index then Inl StoreCorrupt
     else try_bind (sequence_from_i64 (ow_sequence r)) (\<lambda>sequence.
       (let operation = ow_payload r in
        if op_id operation \<noteq> ow_id r \<or> op_session_id operation \<noteq> sid \<or> op_sequence operation \<noteq> sequence
        then Inl StoreCorrupt
        else try_bind (map_err (\<lambda>_. StoreCorrupt) (operation_validate_annotations operation)) (\<lambda>_. Inr operation)))))"

definition load_board_operations :: "database \<Rightarrow> session_id \<Rightarrow> store_error + board_operation list" where
  "load_board_operations db sid =
     try_map (load_operation_row sid) (enumerate 0 (sort_key ow_index (operation_rows db sid)))"

text \<open>The expected index of a revision counts the earlier rows of its thought.\<close>

definition load_revision_row :: "session_id
    \<Rightarrow> (thought_id \<Rightarrow> nat) \<times> thought_revision list \<Rightarrow> revision_row
    \<Rightarrow> store_error + (thought_id \<Rightarrow> nat) \<times> thought_revision list" where
  "load_revision_row sid = (\<lambda>(next_index, revisions) r.
     try_bind (i64_to_usize (vw_index r)) (\<lambda>index.
     if index \<noteq> next_index (vw_thought_id r) then Inl StoreCorrupt
     else try_bind (sequence_from_i64 (vw_sequence r)) (\<lambda>sequence.
       (let revision = vw_payload r in
        if rev_id revision \<noteq> vw_id r \<or> rev_thought_id revision \<noteq> vw_thought_id r
           \<or> rev_session_id revision \<noteq> sid \<or> rev_sequence revision \<noteq> sequence
        then Inl StoreCorrupt
        else try_bind (map_err (\<lambda>_. StoreCorrupt) (revision_validate_annotations revision)) (\<lambda>_.
          Inr (next_index(vw_thought_id r := next_index (vw_thought_id r) + 1), revisions @ [revision]))))))"

definition load_revisions :: "database \<Rightarrow> session_id \<Rightarrow> store_error + thought_revision list" where
  "load_revisions db sid =
     try_bind (try_fold (load_revision_row sid) (\<lambda>_. 0, [])
       (sort_key (\<lambda>r. thought_bytes (vw_thought_id r)) (sort_key vw_index
         (filter (\<lambda>r. vw_session_id r = sid) (db_revisions db))))) (\<lambda>(_, revisions). Inr revisions)"

definition load_editor_cursors :: "database \<Rightarrow> session_id \<Rightarrow> store_error + (thought_id \<times> nat) list" where
  "load_editor_cursors db sid =
     try_map (\<lambda>r. try_bind (i64_to_usize (tw_cursor r)) (\<lambda>cursor. Inr (t_id (tw_thought r), cursor)))
       (sort_key (\<lambda>r. thought_bytes (t_id (tw_thought r))) (thought_rows db sid))"

definition validate_commit_sequence :: "database \<Rightarrow> session_id \<Rightarrow> operation_sequence \<Rightarrow> store_error + unit" where
  "validate_commit_sequence db sid durable =
     try_bind (sequence_to_i64 durable) (\<lambda>durable.
       (let sequences = map kw_sequence (filter (\<lambda>r. kw_session_id r = sid) (db_receipts db));
            valid = (if durable = 0 then sequences = []
                     else int (length sequences) = durable \<and> sequences \<noteq> [] \<and> Min (set sequences) = 1
                       \<and> Max (set sequences) = durable)
        in if valid then Inr () else Inl StoreCorrupt))"

definition load_integration_context :: "database \<Rightarrow> session_id \<Rightarrow> integration_context option" where
  "load_integration_context db sid = map_of (db_contexts db) sid"

definition load_snapshot :: "database \<Rightarrow> session_id \<Rightarrow> store_error + session_snapshot" where
  "load_snapshot db sid =
     try_bind (load_board db sid) (\<lambda>b.
     try_bind (ok_or StoreIo (map_option sr_cursor (session_row_of db sid))) (\<lambda>board_history_cursor.
     try_bind (load_board_operations db sid) (\<lambda>operations.
     try_bind (load_revisions db sid) (\<lambda>revisions.
     try_bind (map_err (\<lambda>_. StoreCorrupt) (try_fold observe_operation (b_counters b) operations)) (\<lambda>c.
     try_bind (map_err (\<lambda>_. StoreCorrupt) (try_fold observe_revision c revisions)) (\<lambda>c.
     if c \<noteq> b_counters b then Inl StoreCorrupt
     else try_bind (load_editor_cursors db sid) (\<lambda>cursors.
     try_bind (i64_to_usize board_history_cursor) (\<lambda>cursor.
     if cursor > length operations then Inl StoreCorrupt
     else if list_ex (\<lambda>(i, cursor). cursor > length (filter (\<lambda>r. rev_thought_id r = i) revisions)) cursors
     then Inl StoreCorrupt
     else try_bind (validate_commit_sequence db sid (last_durable_sequence (b_session b))) (\<lambda>_.
       Inr \<lparr>sn_board = b, sn_board_operations = operations, sn_board_history_cursor = cursor,
         sn_revisions = revisions, sn_editor_history_cursors = cursors,
         sn_integration_context = load_integration_context db sid\<rparr>)))))))))"

end
