(* ===== verification/Store_Commit.thy ===== *)
theory Store_Commit
  imports Store_Model
begin

text \<open>
  The commits of the store (\<open>src/adapters/sqlite/board_commit.rs\<close>, \<open>board_persist.rs\<close>,
  \<open>board_commit/thought_names.rs\<close>, \<open>history_commit.rs\<close>, \<open>attachment_numbering.rs\<close>, \<open>operation_lookup.rs\<close>,
  \<open>receipt_compaction.rs\<close>, \<open>capture.rs\<close>, \<open>browser_history/prune.rs\<close>). Each takes the database of its
  transaction and returns the one it leaves.
\<close>

section \<open>Receipts\<close>

type_synonym digest_of = "request_text \<Rightarrow> fingerprint"

definition owns_identity :: "database \<Rightarrow> durable_identity \<Rightarrow> bool" where
  "owns_identity db identity \<longleftrightarrow> identity_bytes identity \<in> set (db_browser_identities db)"

definition ensure_not_used_by_browser_history :: "database \<Rightarrow> durable_identity \<Rightarrow> store_error + unit" where
  "ensure_not_used_by_browser_history db identity = (if owns_identity db identity then Inl StoreConflict else Inr ())"

fun matches_original :: "digest_of \<Rightarrow> request_text \<Rightarrow> request_text \<Rightarrow> bool" where
  "matches_original request_digest (EnvelopeText digest _) expected = (digest = request_digest expected)"
| "matches_original request_digest _ expected = False"

definition receipt_row_of :: "database \<Rightarrow> durable_identity \<Rightarrow> receipt_row option" where
  "receipt_row_of db identity = List.find (\<lambda>r. kw_identity r = identity) (db_receipts db)"

definition replayed_receipt :: "receipt_row \<Rightarrow> store_error + commit_receipt" where
  "replayed_receipt r =
     try_bind (sequence_from_i64 (kw_sequence r)) (\<lambda>sequence.
       Inr \<lparr>rc_session_id = kw_session_id r, rc_sequence = sequence, rc_identity = kw_identity r,
         rc_idempotent_replay = True\<rparr>)"

definition existing_receipt :: "digest_of \<Rightarrow> database \<Rightarrow> durable_identity \<Rightarrow> request_text \<Rightarrow> fingerprint option
    \<Rightarrow> store_error + commit_receipt option" where
  "existing_receipt request_digest db identity expected_request expected_fingerprint =
     (case receipt_row_of db identity of
        None \<Rightarrow> Inr None
      | Some r \<Rightarrow>
          (let matches = (case (kw_fingerprint r, expected_fingerprint) of
                 (Some stored, Some expected) \<Rightarrow> stored = expected
               | (None, None) \<Rightarrow> kw_request r = expected_request
                   \<or> matches_original request_digest (kw_request r) expected_request
               | _ \<Rightarrow> False)
           in if \<not> matches then Inl StoreConflict
              else try_bind (replayed_receipt r) (\<lambda>receipt. Inr (Some receipt))))"

definition insert_receipt :: "receipt_row \<Rightarrow> database \<Rightarrow> store_error + database" where
  "insert_receipt row db =
     (if list_ex (\<lambda>r. kw_identity r = kw_identity row
           \<or> kw_session_id r = kw_session_id row \<and> kw_sequence r = kw_sequence row) (db_receipts db)
      then Inl StoreConflict else Inr (db\<lparr>db_receipts := db_receipts db @ [row]\<rparr>))"

definition require_next_sequence :: "database \<Rightarrow> session_id \<Rightarrow> operation_sequence \<Rightarrow> store_error + unit" where
  "require_next_sequence db sid sequence =
     try_bind (ok_or StoreNotFound (session_row_of db sid)) (\<lambda>r.
     try_bind (ok_or StoreCorrupt (checked_add_i64 (uint (last_durable_sequence (sr_session r))) 1)) (\<lambda>expected.
     try_bind (sequence_to_i64 sequence) (\<lambda>q.
       if q \<noteq> expected then Inl StoreConflict else Inr ())))"

section \<open>Browser history\<close>

definition cursor_and_count :: "database \<Rightarrow> store_error + nat \<times> nat" where
  "cursor_and_count db =
     try_bind (i64_to_usize (db_browser_cursor db)) (\<lambda>cursor.
       (let count = length (db_browser_operations db) in
        if cursor > count then Inl StoreCorrupt else Inr (cursor, count)))"

definition normalize_indices :: "nat \<Rightarrow> database \<Rightarrow> store_error + database" where
  "normalize_indices prior_count db =
     (let ids = map bw_id (sort_key bw_index (db_browser_operations db)) in
      if ids = [] then Inr db
      else try_bind (usize_to_i64 (prior_count + 1)) (\<lambda>offset.
        Inr (db\<lparr>db_browser_operations := map (\<lambda>r.
          r\<lparr>bw_index := (case index_of (\<lambda>i. i = bw_id r) ids of None \<Rightarrow> bw_index r + offset | Some n \<Rightarrow> int n)\<rparr>)
            (db_browser_operations db)\<rparr>)))"

definition invalidate_activity_conflicts :: "session_id \<Rightarrow> database \<Rightarrow> store_error + database" where
  "invalidate_activity_conflicts sid db =
     try_bind (cursor_and_count db) (\<lambda>(cursor, count).
     try_bind (usize_to_i64 cursor) (\<lambda>cursor.
       (let kept = filter (\<lambda>r. \<not> (bw_target r = sid \<and> bw_index r \<ge> cursor \<and> bw_kind r \<noteq> BrowserRename))
              (db_browser_operations db);
            db' = db\<lparr>db_browser_operations := kept\<rparr>
        in if length kept < length (db_browser_operations db) then normalize_indices count db' else Inr db')))"

definition update_session_sequence :: "session_id \<Rightarrow> operation_sequence \<Rightarrow> timestamp \<Rightarrow> database \<Rightarrow> store_error + database" where
  "update_session_sequence sid sequence at db =
     try_bind (invalidate_activity_conflicts sid db) (\<lambda>db.
     try_bind (sequence_to_i64 sequence) (\<lambda>_.
       Inr (update_session_row sid (\<lambda>r. r\<lparr>sr_session := (sr_session r)\<lparr>last_durable_sequence := sequence,
         last_active_at := max (last_active_at (sr_session r)) at\<rparr>\<rparr>) db)))"

section \<open>Attachment high-water marks\<close>

definition persist_counters :: "session_id \<Rightarrow> attachment_counters \<Rightarrow> database \<Rightarrow> store_error + database" where
  "persist_counters sid c db =
     try_bind (sequence_to_i64 (image_counter c)) (\<lambda>img.
     try_bind (sequence_to_i64 (file_counter c)) (\<lambda>file.
       Inr (update_session_row sid (\<lambda>r. r\<lparr>sr_image_high := max (sr_image_high r) img,
         sr_file_high := max (sr_file_high r) file\<rparr>) db)))"

fun validate_new_one :: "attachment_counters \<Rightarrow> annotation_kind \<Rightarrow> store_error + unit" where
  "validate_new_one c (Attachment None img _) = Inl StoreCorrupt"
| "validate_new_one c (Attachment (Some n) img _) =
     (if ordinal_get n \<le> counter img c then Inl StoreConflict else Inr ())"
| "validate_new_one c _ = Inr ()"

definition validate_new :: "attachment_counters \<Rightarrow> content_annotation list \<Rightarrow> store_error + unit" where
  "validate_new c annotations = try_fold (\<lambda>_ a. validate_new_one c (ann_kind a)) () annotations"

fun visit_creation :: "attachment_counters \<Rightarrow> board_mutation \<Rightarrow> store_error + unit" where
  "visit_creation c (AddThought t) = validate_new c (t_annotations t)"
| "visit_creation c (Batch ms) = try_fold (\<lambda>_ m. visit_creation c m) () ms"
| "visit_creation c _ = Inr ()"

definition validate_creation :: "session_board \<Rightarrow> board_operation \<Rightarrow> store_error + unit" where
  "validate_creation b operation =
     (if op_kind operation \<noteq> Create \<and> op_kind operation \<noteq> Duplicate then Inr ()
      else visit_creation (b_counters b) (op_forward operation))"

fun retained_kind :: "annotation_kind \<Rightarrow> annotation_kind \<Rightarrow> bool" where
  "retained_kind (Attachment n img _) (Attachment m old_img _) = (old_img = img \<and> m = n)"
| "retained_kind _ _ = False"

fun revision_annotation :: "attachment_counters \<Rightarrow> content_annotation list \<Rightarrow> annotation_kind \<Rightarrow> store_error + unit" where
  "revision_annotation c before (Attachment None img _) = Inl StoreCorrupt"
| "revision_annotation c before (Attachment (Some n) img name) =
     (if \<not> list_ex (\<lambda>a. retained_kind (Attachment (Some n) img name) (ann_kind a)) before \<and> ordinal_get n \<le> counter img c
      then Inl StoreConflict else Inr ())"
| "revision_annotation c before _ = Inr ()"

definition number_revision :: "thought_revision \<Rightarrow> database \<Rightarrow> store_error + database" where
  "number_revision revision db =
     try_bind (load_counters db (rev_session_id revision)) (\<lambda>c.
     try_bind (try_fold (\<lambda>_ a. revision_annotation c (before_annotations revision) (ann_kind a)) ()
        (after_annotations revision)) (\<lambda>_.
     try_bind (load_board db (rev_session_id revision)) (\<lambda>b.
     try_bind (ok_or StoreCorrupt (thought_of b (rev_thought_id revision))) (\<lambda>_.
     try_bind (map_err (\<lambda>_. StoreCorrupt) (validate (thought_mut b (rev_thought_id revision)
        (\<lambda>t. t\<lparr>t_content := after_content revision, t_annotations := after_annotations revision\<rparr>)))) (\<lambda>_.
     try_bind (map_err (\<lambda>_. StoreCorrupt) (observe c (after_annotations revision))) (\<lambda>c.
       persist_counters (rev_session_id revision) c db))))))"

section \<open>Persisting a board\<close>

definition live_positions :: "database \<Rightarrow> session_id \<Rightarrow> int list" where
  "live_positions db sid =
     map tw_position (filter (\<lambda>r. t_is_live (tw_thought r)) (thought_rows db sid))
     @ map sw_position (filter (\<lambda>r. sep_is_live (sw_separator r)) (separator_rows db sid))"

definition shift_existing_positions :: "session_board \<Rightarrow> database \<Rightarrow> store_error + database" where
  "shift_existing_positions b db =
     (let sid = ses_id (b_session b);
          maximum = (if live_positions db sid = [] then 0 else Max (set (live_positions db sid))) in
      try_bind (usize_to_i64 (length (live_items b))) (\<lambda>count.
      try_bind (ok_or StoreCorrupt (Option.bind (checked_add_i64 maximum count) (\<lambda>v. checked_add_i64 v 2))) (\<lambda>offset.
        Inr (db\<lparr>db_thoughts := map (\<lambda>r. if t_session_id (tw_thought r) = sid \<and> t_is_live (tw_thought r)
               then r\<lparr>tw_position := tw_position r + offset\<rparr> else r) (db_thoughts db),
             db_separators := map (\<lambda>r. if sep_session_id (sw_separator r) = sid \<and> sep_is_live (sw_separator r)
               then r\<lparr>sw_position := sw_position r + offset\<rparr> else r) (db_separators db)\<rparr>))))"

text \<open>Positions of live rows of one table are unique per session; storing a row that violates this fails.\<close>

definition persist_thought :: "database \<Rightarrow> thought \<Rightarrow> store_error + database" where
  "persist_thought db t =
     (if t_is_live t \<and> list_ex (\<lambda>r. t_id (tw_thought r) \<noteq> t_id t \<and> t_session_id (tw_thought r) = t_session_id t
           \<and> t_is_live (tw_thought r) \<and> tw_position r = uint (t_position t)) (db_thoughts db)
      then Inl StoreConflict
      else Inr (case thought_row_of db (t_id t) of
        None \<Rightarrow> db\<lparr>db_thoughts := db_thoughts db @ [\<lparr>tw_thought = t, tw_position = uint (t_position t), tw_cursor = 0\<rparr>]\<rparr>
      | Some _ \<Rightarrow> update_thought_row (t_id t) (\<lambda>r. r\<lparr>tw_thought := t, tw_position := uint (t_position t)\<rparr>) db))"

definition persist_separator :: "database \<Rightarrow> separator \<Rightarrow> store_error + database" where
  "persist_separator db s =
     (if sep_is_live s \<and> list_ex (\<lambda>r. sep_id (sw_separator r) \<noteq> sep_id s \<and> sep_session_id (sw_separator r) = sep_session_id s
           \<and> sep_is_live (sw_separator r) \<and> sw_position r = uint (sep_position s)) (db_separators db)
      then Inl StoreConflict
      else if list_ex (\<lambda>r. sep_id (sw_separator r) = sep_id s) (db_separators db)
      then Inr (db\<lparr>db_separators := map (\<lambda>r. if sep_id (sw_separator r) = sep_id s
             then \<lparr>sw_separator = s, sw_position = uint (sep_position s)\<rparr> else r) (db_separators db)\<rparr>)
      else Inr (db\<lparr>db_separators := db_separators db @ [\<lparr>sw_separator = s, sw_position = uint (sep_position s)\<rparr>]\<rparr>))"

definition persist_board :: "session_board \<Rightarrow> database \<Rightarrow> store_error + database" where
  "persist_board b db =
     try_bind (persist_counters (ses_id (b_session b)) (b_counters b) db) (\<lambda>db.
     try_bind (shift_existing_positions b db) (\<lambda>db.
     try_bind (try_fold persist_thought db (b_thoughts b)) (\<lambda>db.
       try_fold persist_separator db (b_separators b))))"

section \<open>Structural commits\<close>

definition delete_operations_from :: "session_id \<Rightarrow> int \<Rightarrow> database \<Rightarrow> database" where
  "delete_operations_from sid index db =
     db\<lparr>db_operations := filter (\<lambda>r. \<not> (ow_session_id r = sid \<and> ow_index r \<ge> index)) (db_operations db)\<rparr>"

definition delete_revisions_from :: "thought_id \<Rightarrow> int \<Rightarrow> database \<Rightarrow> database" where
  "delete_revisions_from i index db =
     db\<lparr>db_revisions := filter (\<lambda>r. \<not> (vw_thought_id r = i \<and> vw_index r \<ge> index)) (db_revisions db)\<rparr>"

definition truncate_revisions :: "thought_id \<Rightarrow> database \<Rightarrow> database" where
  "truncate_revisions i db =
     (case thought_row_of db i of None \<Rightarrow> db | Some r \<Rightarrow> delete_revisions_from i (tw_cursor r) db)"

fun store_truncate_redo :: "board_mutation \<Rightarrow> database \<Rightarrow> database" where
  "store_truncate_redo (Batch ms) db = fold store_truncate_redo ms db"
| "store_truncate_redo (ReplaceContent i _ _ _ _) db = truncate_revisions i db"
| "store_truncate_redo (SetDeletionExact i _ _ _ _ _ _) db = truncate_revisions i db"
| "store_truncate_redo _ db = db"

definition insert_operation :: "operation_row \<Rightarrow> database \<Rightarrow> store_error + database" where
  "insert_operation row db =
     (if list_ex (\<lambda>r. ow_id r = ow_id row \<or> ow_session_id r = ow_session_id row \<and> ow_index r = ow_index row) (db_operations db)
      then Inl StoreConflict else Inr (db\<lparr>db_operations := db_operations db @ [row]\<rparr>))"

definition finish_board_commit :: "board_operation \<Rightarrow> nat \<Rightarrow> fingerprint option \<Rightarrow> database
    \<Rightarrow> store_error + commit_receipt \<times> database" where
  "finish_board_commit operation cursor fp db =
     try_bind (invalidate_activity_conflicts (op_session_id operation) db) (\<lambda>db.
     try_bind (usize_to_i64 cursor) (\<lambda>index.
     try_bind (sequence_to_i64 (op_sequence operation)) (\<lambda>sequence.
     try_bind (insert_operation \<lparr>ow_id = op_id operation, ow_session_id = op_session_id operation, ow_index = index,
        ow_sequence = sequence, ow_payload = operation, ow_created_at = op_created_at operation\<rparr> db) (\<lambda>db.
     try_bind (insert_receipt \<lparr>kw_session_id = op_session_id operation, kw_sequence = sequence,
        kw_identity = OperationIdentity (op_id operation), kw_request = BoardText operation, kw_fingerprint = fp,
        kw_created_at = op_created_at operation\<rparr> db) (\<lambda>db.
     try_bind (usize_to_i64 (cursor + 1)) (\<lambda>next.
       Inr (\<lparr>rc_session_id = op_session_id operation, rc_sequence = op_sequence operation,
              rc_identity = OperationIdentity (op_id operation), rc_idempotent_replay = False\<rparr>,
            update_session_row (op_session_id operation) (\<lambda>r. r\<lparr>sr_cursor := next,
              sr_session := (sr_session r)\<lparr>last_durable_sequence := op_sequence operation,
                last_active_at := max (last_active_at (sr_session r)) (op_created_at operation)\<rparr>\<rparr>) db)))))))"

definition commit_board :: "digest_of \<Rightarrow> board_operation \<Rightarrow> fingerprint option \<Rightarrow> database
    \<Rightarrow> store_error + commit_receipt \<times> database" where
  "commit_board request_digest operation fp db =
     try_bind (existing_receipt request_digest db (OperationIdentity (op_id operation)) (BoardText operation) fp) (\<lambda>existing.
     case existing of
       Some receipt \<Rightarrow> Inr (receipt, db)
     | None \<Rightarrow>
         try_bind (ensure_not_used_by_browser_history db (OperationIdentity (op_id operation))) (\<lambda>_.
         try_bind (require_next_sequence db (op_session_id operation) (op_sequence operation)) (\<lambda>_.
         try_bind (load_board db (op_session_id operation)) (\<lambda>b.
         try_bind (validate_creation b operation) (\<lambda>_.
         try_bind (map_err (\<lambda>_. StoreInvariant) (apply_mutation b (op_forward operation) (op_created_at operation))) (\<lambda>b.
         try_bind (ok_or StoreIo (map_option sr_cursor (session_row_of db (op_session_id operation)))) (\<lambda>cursor.
         try_bind (i64_to_usize cursor) (\<lambda>cursor.
         try_bind (usize_to_i64 cursor) (\<lambda>index.
         try_bind (persist_board b (store_truncate_redo (op_forward operation)
            (delete_operations_from (op_session_id operation) index db))) (\<lambda>db.
           finish_board_commit operation cursor fp db))))))))))"

section \<open>Editor commits\<close>

definition store_truncate_board_redo :: "session_id \<Rightarrow> thought_id \<Rightarrow> database \<Rightarrow> store_error + database" where
  "store_truncate_board_redo sid i db =
     try_bind (ok_or StoreIo (map_option sr_cursor (session_row_of db sid))) (\<lambda>cursor.
       Inr (case List.find (\<lambda>r. addresses i (op_forward (ow_payload r)) \<or> addresses i (op_inverse (ow_payload r)))
              (sort_key ow_index (filter (\<lambda>r. ow_index r \<ge> cursor) (operation_rows db sid))) of
            None \<Rightarrow> db | Some r \<Rightarrow> delete_operations_from sid (ow_index r) db))"

definition revision_cursor :: "thought_revision \<Rightarrow> database \<Rightarrow> store_error + int" where
  "revision_cursor revision db =
     try_bind (ok_or StoreNotFound (thought_row_of db (rev_thought_id revision))) (\<lambda>r.
       (let t = tw_thought r in
        if t_session_id t \<noteq> rev_session_id revision \<or> \<not> t_is_live t
           \<or> t_content t \<noteq> before_content revision \<or> t_annotations t \<noteq> before_annotations revision
        then Inl StoreConflict else Inr (tw_cursor r)))"

definition insert_revision :: "revision_row \<Rightarrow> database \<Rightarrow> store_error + database" where
  "insert_revision row db =
     (if list_ex (\<lambda>r. vw_id r = vw_id row \<or> vw_thought_id r = vw_thought_id row \<and> vw_index r = vw_index row) (db_revisions db)
      then Inl StoreConflict else Inr (db\<lparr>db_revisions := db_revisions db @ [row]\<rparr>))"

definition write_content :: "thought_id \<Rightarrow> rstr \<Rightarrow> content_annotation list \<Rightarrow> timestamp \<Rightarrow> int \<Rightarrow> database \<Rightarrow> database" where
  "write_content i content annotations at cursor =
     update_thought_row i (\<lambda>r. r\<lparr>tw_thought := (tw_thought r)\<lparr>t_content := content, t_annotations := annotations,
       t_updated_at := at\<rparr>, tw_cursor := cursor\<rparr>)"

definition persist_revision :: "thought_revision \<Rightarrow> int \<Rightarrow> database \<Rightarrow> store_error + database" where
  "persist_revision revision cursor db =
     try_bind (sequence_to_i64 (rev_sequence revision)) (\<lambda>sequence.
     try_bind (insert_revision \<lparr>vw_id = rev_id revision, vw_session_id = rev_session_id revision,
        vw_thought_id = rev_thought_id revision, vw_index = cursor, vw_sequence = sequence, vw_payload = revision,
        vw_created_at = rev_created_at revision\<rparr> (delete_revisions_from (rev_thought_id revision) cursor db)) (\<lambda>db.
     try_bind (ok_or StoreCorrupt (checked_add_i64 cursor 1)) (\<lambda>next.
       Inr (write_content (rev_thought_id revision) (after_content revision) (after_annotations revision)
         (rev_created_at revision) next db))))"

definition commit_revision :: "digest_of \<Rightarrow> thought_revision \<Rightarrow> fingerprint option \<Rightarrow> database
    \<Rightarrow> store_error + commit_receipt \<times> database" where
  "commit_revision request_digest revision fp db =
     try_bind (existing_receipt request_digest db (RevisionIdentity (rev_id revision)) (RevisionText revision) fp) (\<lambda>existing.
     case existing of
       Some receipt \<Rightarrow> Inr (receipt, db)
     | None \<Rightarrow>
         try_bind (ensure_not_used_by_browser_history db (RevisionIdentity (rev_id revision))) (\<lambda>_.
         try_bind (require_next_sequence db (rev_session_id revision) (rev_sequence revision)) (\<lambda>_.
         try_bind (revision_cursor revision db) (\<lambda>cursor.
         try_bind (number_revision revision db) (\<lambda>db.
         try_bind (store_truncate_board_redo (rev_session_id revision) (rev_thought_id revision) db) (\<lambda>db.
         try_bind (persist_revision revision cursor db) (\<lambda>db.
         try_bind (sequence_to_i64 (rev_sequence revision)) (\<lambda>sequence.
         try_bind (insert_receipt \<lparr>kw_session_id = rev_session_id revision, kw_sequence = sequence,
            kw_identity = RevisionIdentity (rev_id revision), kw_request = RevisionText revision, kw_fingerprint = fp,
            kw_created_at = rev_created_at revision\<rparr> db) (\<lambda>db.
         try_bind (update_session_sequence (rev_session_id revision) (rev_sequence revision) (rev_created_at revision) db) (\<lambda>db.
           Inr (\<lparr>rc_session_id = rev_session_id revision, rc_sequence = rev_sequence revision,
                  rc_identity = RevisionIdentity (rev_id revision), rc_idempotent_replay = False\<rparr>, db)))))))))))"

section \<open>History moves\<close>

definition store_move_board :: "session_id \<Rightarrow> bool \<Rightarrow> timestamp \<Rightarrow> database \<Rightarrow> store_error + database" where
  "store_move_board sid undo at db =
     try_bind (ok_or StoreNotFound (map_option sr_cursor (session_row_of db sid))) (\<lambda>cursor.
     try_bind (ok_or StoreConflict (if undo then checked_add_i64 cursor (- 1) else Some cursor)) (\<lambda>index.
     try_bind (ok_or StoreConflict (map_option ow_payload
        (List.find (\<lambda>r. ow_index r = index) (operation_rows db sid)))) (\<lambda>operation.
     try_bind (map_err (\<lambda>_. StoreCorrupt) (operation_validate_annotations operation)) (\<lambda>_.
     try_bind (load_board db sid) (\<lambda>b.
     try_bind (map_err (\<lambda>_. StoreInvariant)
        (apply_mutation b (if undo then op_inverse operation else op_forward operation) at)) (\<lambda>b.
     try_bind (persist_board b db) (\<lambda>db.
     try_bind (ok_or StoreCorrupt (if undo then Some index else checked_add_i64 cursor 1)) (\<lambda>next.
       Inr (update_session_row sid (\<lambda>r. r\<lparr>sr_cursor := next\<rparr>) db)))))))))"

definition store_move_editor :: "session_id \<Rightarrow> thought_id \<Rightarrow> bool \<Rightarrow> timestamp \<Rightarrow> database \<Rightarrow> store_error + database" where
  "store_move_editor sid i undo at db =
     try_bind (ok_or StoreNotFound (filter_opt (\<lambda>r. t_is_live (tw_thought r)) (thought_row_of db i))) (\<lambda>current.
     if t_session_id (tw_thought current) \<noteq> sid then Inl StoreConflict
     else try_bind (ok_or StoreConflict (if undo then checked_add_i64 (tw_cursor current) (- 1) else Some (tw_cursor current))) (\<lambda>index.
     try_bind (ok_or StoreConflict (map_option vw_payload
        (List.find (\<lambda>r. vw_index r = index) (revision_rows db i)))) (\<lambda>revision.
     try_bind (map_err (\<lambda>_. StoreCorrupt) (revision_validate_annotations revision)) (\<lambda>_.
     if t_content (tw_thought current) \<noteq> (if undo then after_content revision else before_content revision)
        \<or> t_annotations (tw_thought current) \<noteq> (if undo then after_annotations revision else before_annotations revision)
     then Inl StoreConflict
     else try_bind (ok_or StoreCorrupt (if undo then Some index else checked_add_i64 (tw_cursor current) 1)) (\<lambda>next.
       Inr (write_content i (if undo then before_content revision else after_content revision)
         (if undo then before_annotations revision else after_annotations revision) at next db))))))"

definition commit_history_move :: "digest_of \<Rightarrow> operation_id \<Rightarrow> session_id \<Rightarrow> undo_scope \<Rightarrow> bool \<Rightarrow> operation_sequence
    \<Rightarrow> timestamp \<Rightarrow> fingerprint option \<Rightarrow> database \<Rightarrow> store_error + commit_receipt \<times> database" where
  "commit_history_move request_digest oid sid scope undo sequence at fp db =
     (let request = MoveText sid scope undo sequence at in
      try_bind (existing_receipt request_digest db (OperationIdentity oid) request fp) (\<lambda>existing.
      case existing of
        Some receipt \<Rightarrow> Inr (receipt, db)
      | None \<Rightarrow>
          try_bind (ensure_not_used_by_browser_history db (OperationIdentity oid)) (\<lambda>_.
          try_bind (require_next_sequence db sid sequence) (\<lambda>_.
          try_bind (case scope of BoardScope \<Rightarrow> store_move_board sid undo at db
                    | EditorScope i \<Rightarrow> store_move_editor sid i undo at db) (\<lambda>db.
          try_bind (sequence_to_i64 sequence) (\<lambda>q.
          try_bind (insert_receipt \<lparr>kw_session_id = sid, kw_sequence = q, kw_identity = OperationIdentity oid,
             kw_request = request, kw_fingerprint = fp, kw_created_at = at\<rparr> db) (\<lambda>db.
          try_bind (update_session_sequence sid sequence at db) (\<lambda>db.
            Inr (\<lparr>rc_session_id = sid, rc_sequence = sequence, rc_identity = OperationIdentity oid,
                   rc_idempotent_replay = False\<rparr>, db)))))))))"

section \<open>Same-value renames\<close>

datatype stored_request =
    StoredBoard board_operation "fingerprint option" commit_receipt
  | StoredMove session_id undo_scope bool "fingerprint option" commit_receipt
  | StoredRevision thought_revision "fingerprint option" commit_receipt
  | StoredCompacted compacted_request "fingerprint option" commit_receipt
  | SessionAdministration

definition validate_board_record :: "board_operation \<Rightarrow> operation_id \<Rightarrow> session_id \<Rightarrow> operation_sequence \<Rightarrow> store_error + unit" where
  "validate_board_record operation oid sid sequence =
     (if op_id operation \<noteq> oid \<or> op_session_id operation \<noteq> sid \<or> op_sequence operation \<noteq> sequence then Inl StoreCorrupt
      else map_err (\<lambda>_. StoreCorrupt) (operation_validate_annotations operation))"

definition operation_request :: "database \<Rightarrow> operation_id \<Rightarrow> store_error + stored_request option" where
  "operation_request db oid =
     (case receipt_row_of db (OperationIdentity oid) of
        None \<Rightarrow> Inr (if owns_identity db (OperationIdentity oid) then Some SessionAdministration else None)
      | Some r \<Rightarrow>
          try_bind (replayed_receipt r) (\<lambda>receipt.
          case kw_request r of
            EnvelopeText _ replay \<Rightarrow> Inr (Some (StoredCompacted replay (kw_fingerprint r) receipt))
          | BoardText operation \<Rightarrow>
              try_bind (validate_board_record operation oid (kw_session_id r) (rc_sequence receipt)) (\<lambda>_.
                Inr (Some (StoredBoard operation (kw_fingerprint r) receipt)))
          | MoveText sid scope undo sequence _ \<Rightarrow>
              if sid \<noteq> kw_session_id r \<or> sequence \<noteq> rc_sequence receipt then Inl StoreCorrupt
              else Inr (Some (StoredMove sid scope undo (kw_fingerprint r) receipt))
          | _ \<Rightarrow> Inl StoreCorrupt))"

definition revision_request :: "database \<Rightarrow> revision_id \<Rightarrow> store_error + stored_request option" where
  "revision_request db rid =
     (case receipt_row_of db (RevisionIdentity rid) of
        None \<Rightarrow> Inr None
      | Some r \<Rightarrow>
          try_bind (replayed_receipt r) (\<lambda>receipt.
          case kw_request r of
            EnvelopeText _ replay \<Rightarrow> Inr (Some (StoredCompacted replay (kw_fingerprint r) receipt))
          | RevisionText revision \<Rightarrow>
              if rev_id revision \<noteq> rid \<or> rev_session_id revision \<noteq> kw_session_id r \<or> rev_sequence revision \<noteq> rc_sequence receipt
              then Inl StoreCorrupt
              else try_bind (map_err (\<lambda>_. StoreCorrupt) (revision_validate_annotations revision)) (\<lambda>_.
                Inr (Some (StoredRevision revision (kw_fingerprint r) receipt)))
          | _ \<Rightarrow> Inl StoreCorrupt))"

definition commit_noop_rename :: "digest_of \<Rightarrow> operation_id \<Rightarrow> session_id \<Rightarrow> thought_id \<Rightarrow> thought_name option
    \<Rightarrow> operation_sequence \<Rightarrow> timestamp \<Rightarrow> fingerprint option \<Rightarrow> database \<Rightarrow> store_error + commit_receipt \<times> database" where
  "commit_noop_rename request_digest oid sid i name sequence at fp db =
     (let replay = CompactedRename sid i name in
      try_bind (operation_request db oid) (\<lambda>existing.
      case existing of
        Some stored \<Rightarrow>
          (case stored of
             StoredCompacted stored_replay stored_fp receipt \<Rightarrow>
               if stored_replay = replay \<and> stored_fp = fp then Inr (receipt, db) else Inl StoreConflict
           | _ \<Rightarrow> Inl StoreConflict)
      | None \<Rightarrow>
          try_bind (ensure_not_used_by_browser_history db (OperationIdentity oid)) (\<lambda>_.
          try_bind (require_next_sequence db sid sequence) (\<lambda>_.
          try_bind (load_board db sid) (\<lambda>b.
          try_bind (ok_or StoreNotFound (filter_opt t_is_live (thought_of b i))) (\<lambda>t.
          if t_name t \<noteq> name then Inl StoreConflict
          else try_bind (sequence_to_i64 sequence) (\<lambda>q.
          try_bind (insert_receipt \<lparr>kw_session_id = sid, kw_sequence = q, kw_identity = OperationIdentity oid,
             kw_request = EnvelopeText (request_digest (RenameText sid i name sequence at)) replay,
             kw_fingerprint = fp, kw_created_at = at\<rparr> db) (\<lambda>db.
          try_bind (update_session_sequence sid sequence at db) (\<lambda>db.
            Inr (\<lparr>rc_session_id = sid, rc_sequence = sequence, rc_identity = OperationIdentity oid,
                   rc_idempotent_replay = False\<rparr>, db))))))))))"

section \<open>Sessions, contexts and captures\<close>

definition create_session :: "session \<Rightarrow> database \<Rightarrow> store_error + database" where
  "create_session ses db =
     (if last_durable_sequence ses \<noteq> 0 then Inl StoreConflict
      else case session_row_of db (ses_id ses) of
        Some r \<Rightarrow> if sr_session r = ses then Inr db else Inl StoreConflict
      | None \<Rightarrow> Inr (db\<lparr>db_sessions := db_sessions db
          @ [\<lparr>sr_session = ses, sr_cursor = 0, sr_image_high = 0, sr_file_high = 0\<rparr>]\<rparr>))"

definition set_integration_context :: "session_id \<Rightarrow> integration_context option \<Rightarrow> database \<Rightarrow> store_error + database" where
  "set_integration_context sid context db =
     (if session_row_of db sid = None then Inl StoreNotFound
      else Inr (db\<lparr>db_contexts := (case context of
          None \<Rightarrow> filter (\<lambda>(i, _). i \<noteq> sid) (db_contexts db)
        | Some c \<Rightarrow> (sid, c) # filter (\<lambda>(i, _). i \<noteq> sid) (db_contexts db))\<rparr>))"

definition commit_capture :: "digest_of \<Rightarrow> capture_commit \<Rightarrow> database \<Rightarrow> store_error + capture_outcome \<times> database" where
  "commit_capture request_digest capture db =
     (case List.find (\<lambda>r. cr_source r = cc_source capture) (db_captures db) of
        Some r \<Rightarrow> Inr (AlreadyCaptured r, db)
      | None \<Rightarrow>
          try_bind (commit_board request_digest (cc_operation capture) None db) (\<lambda>(durable, db).
          case op_forward (cc_operation capture) of
            AddThought t \<Rightarrow>
              (let receipt = \<lparr>cr_source = cc_source capture, cr_session_id = op_session_id (cc_operation capture),
                     cr_thought_id = t_id t, cr_operation_id = op_id (cc_operation capture),
                     cr_accepted_at = op_created_at (cc_operation capture)\<rparr>
               in Inr (Created durable receipt, db\<lparr>db_captures := db_captures db @ [receipt]\<rparr>))
          | _ \<Rightarrow> Inl StoreInvariant))"

fun commit_batch :: "digest_of \<Rightarrow> operation_batch \<Rightarrow> database \<Rightarrow> store_error + commit_receipt option \<times> database" where
  "commit_batch request_digest (CreateSession ses) db = try_bind (create_session ses db) (\<lambda>db. Inr (None, db))"
| "commit_batch request_digest (BatchBoard operation fp) db =
     try_bind (commit_board request_digest operation fp db) (\<lambda>(receipt, db). Inr (Some receipt, db))"
| "commit_batch request_digest (BatchRevision revision fp) db =
     try_bind (commit_revision request_digest revision fp db) (\<lambda>(receipt, db). Inr (Some receipt, db))"
| "commit_batch request_digest (BatchHistoryMove oid sid scope undo sequence at fp) db =
     try_bind (commit_history_move request_digest oid sid scope undo sequence at fp db) (\<lambda>(receipt, db). Inr (Some receipt, db))"
| "commit_batch request_digest (BatchNoOpRename oid sid i name sequence at fp) db =
     try_bind (commit_noop_rename request_digest oid sid i name sequence at fp db) (\<lambda>(receipt, db). Inr (Some receipt, db))"
| "commit_batch request_digest (BatchContext sid context) db =
     try_bind (set_integration_context sid context db) (\<lambda>db. Inr (None, db))"

end
