(* ===== verification/Store_Receipts.thy ===== *)
theory Store_Receipts
  imports Store_Commit
begin

text \<open>
  Which tables the parts of a commit change, and idempotency of the store: a receipt is never forgotten,
  so that a request that was committed once is answered from its receipt however often and however late
  it is sent again.
\<close>

section \<open>Frames\<close>

named_theorems frame_simps "tables a part of a commit leaves alone"

lemma update_session_row_frame [simp, frame_simps]:
  "db_thoughts (update_session_row sid f db) = db_thoughts db"
  "db_separators (update_session_row sid f db) = db_separators db"
  "db_operations (update_session_row sid f db) = db_operations db"
  "db_revisions (update_session_row sid f db) = db_revisions db"
  "db_receipts (update_session_row sid f db) = db_receipts db"
  "db_contexts (update_session_row sid f db) = db_contexts db"
  "db_captures (update_session_row sid f db) = db_captures db"
  "db_browser_cursor (update_session_row sid f db) = db_browser_cursor db"
  "db_browser_operations (update_session_row sid f db) = db_browser_operations db"
  "db_browser_identities (update_session_row sid f db) = db_browser_identities db"
  by (simp_all add: update_session_row_def)

lemma update_thought_row_frame [simp, frame_simps]:
  "db_sessions (update_thought_row i f db) = db_sessions db"
  "db_separators (update_thought_row i f db) = db_separators db"
  "db_operations (update_thought_row i f db) = db_operations db"
  "db_revisions (update_thought_row i f db) = db_revisions db"
  "db_receipts (update_thought_row i f db) = db_receipts db"
  "db_contexts (update_thought_row i f db) = db_contexts db"
  "db_captures (update_thought_row i f db) = db_captures db"
  "db_browser_cursor (update_thought_row i f db) = db_browser_cursor db"
  "db_browser_operations (update_thought_row i f db) = db_browser_operations db"
  "db_browser_identities (update_thought_row i f db) = db_browser_identities db"
  by (simp_all add: update_thought_row_def)

lemma delete_operations_from_frame [simp, frame_simps]:
  "db_sessions (delete_operations_from sid index db) = db_sessions db"
  "db_thoughts (delete_operations_from sid index db) = db_thoughts db"
  "db_separators (delete_operations_from sid index db) = db_separators db"
  "db_revisions (delete_operations_from sid index db) = db_revisions db"
  "db_receipts (delete_operations_from sid index db) = db_receipts db"
  "db_contexts (delete_operations_from sid index db) = db_contexts db"
  "db_captures (delete_operations_from sid index db) = db_captures db"
  "db_browser_cursor (delete_operations_from sid index db) = db_browser_cursor db"
  "db_browser_operations (delete_operations_from sid index db) = db_browser_operations db"
  "db_browser_identities (delete_operations_from sid index db) = db_browser_identities db"
  by (simp_all add: delete_operations_from_def)

lemma delete_revisions_from_frame [simp, frame_simps]:
  "db_sessions (delete_revisions_from i index db) = db_sessions db"
  "db_thoughts (delete_revisions_from i index db) = db_thoughts db"
  "db_separators (delete_revisions_from i index db) = db_separators db"
  "db_operations (delete_revisions_from i index db) = db_operations db"
  "db_receipts (delete_revisions_from i index db) = db_receipts db"
  "db_contexts (delete_revisions_from i index db) = db_contexts db"
  "db_captures (delete_revisions_from i index db) = db_captures db"
  "db_browser_cursor (delete_revisions_from i index db) = db_browser_cursor db"
  "db_browser_operations (delete_revisions_from i index db) = db_browser_operations db"
  "db_browser_identities (delete_revisions_from i index db) = db_browser_identities db"
  by (simp_all add: delete_revisions_from_def)

lemma truncate_revisions_frame [simp, frame_simps]:
  "db_sessions (truncate_revisions i db) = db_sessions db"
  "db_thoughts (truncate_revisions i db) = db_thoughts db"
  "db_separators (truncate_revisions i db) = db_separators db"
  "db_operations (truncate_revisions i db) = db_operations db"
  "db_receipts (truncate_revisions i db) = db_receipts db"
  "db_contexts (truncate_revisions i db) = db_contexts db"
  "db_captures (truncate_revisions i db) = db_captures db"
  "db_browser_cursor (truncate_revisions i db) = db_browser_cursor db"
  "db_browser_operations (truncate_revisions i db) = db_browser_operations db"
  "db_browser_identities (truncate_revisions i db) = db_browser_identities db"
  by (simp_all add: truncate_revisions_def split: option.splits)

lemma fold_frame: "(\<And>x db. x \<in> set xs \<Longrightarrow> p (f x db) = p db) \<Longrightarrow> p (fold f xs db) = p db"
  by (induction xs arbitrary: db) auto

lemma store_truncate_redo_frame [simp, frame_simps]:
  "db_sessions (store_truncate_redo m db) = db_sessions db"
  "db_thoughts (store_truncate_redo m db) = db_thoughts db"
  "db_separators (store_truncate_redo m db) = db_separators db"
  "db_operations (store_truncate_redo m db) = db_operations db"
  "db_receipts (store_truncate_redo m db) = db_receipts db"
  "db_contexts (store_truncate_redo m db) = db_contexts db"
  "db_captures (store_truncate_redo m db) = db_captures db"
  "db_browser_cursor (store_truncate_redo m db) = db_browser_cursor db"
  "db_browser_operations (store_truncate_redo m db) = db_browser_operations db"
  "db_browser_identities (store_truncate_redo m db) = db_browser_identities db"
  by (induction m db rule: store_truncate_redo.induct) (simp_all add: fold_frame)

text \<open>The tables that storing a board leaves alone, and those that pruning the Browser history leaves alone.\<close>

definition beside_board :: "database \<Rightarrow> _" where
  "beside_board db = (db_operations db, db_revisions db, db_receipts db, db_contexts db, db_captures db,
     db_browser_cursor db, db_browser_operations db, db_browser_identities db)"

definition beside_browser :: "database \<Rightarrow> _" where
  "beside_browser db = (db_sessions db, db_thoughts db, db_separators db, db_operations db, db_revisions db,
     db_receipts db, db_contexts db, db_captures db, db_browser_cursor db, db_browser_identities db)"

lemma try_fold_frame:
  "(\<And>x db db'. x \<in> set xs \<Longrightarrow> f db x = Inr db' \<Longrightarrow> p db' = p db) \<Longrightarrow> try_fold f db xs = Inr db' \<Longrightarrow> p db' = p db"
  by (induction xs arbitrary: db) force+

lemma persist_counters_frame:
  "persist_counters sid c db = Inr db'
   \<Longrightarrow> beside_board db' = beside_board db \<and> db_thoughts db' = db_thoughts db \<and> db_separators db' = db_separators db"
  by (auto simp: persist_counters_def beside_board_def)

lemma persist_thought_frame: "persist_thought db t = Inr db' \<Longrightarrow> beside_board db' = beside_board db \<and> db_sessions db' = db_sessions db"
  by (auto simp: persist_thought_def beside_board_def split: if_splits option.splits)

lemma persist_separator_frame: "persist_separator db s = Inr db' \<Longrightarrow> beside_board db' = beside_board db \<and> db_sessions db' = db_sessions db"
  by (auto simp: persist_separator_def beside_board_def split: if_splits)

lemma shift_existing_positions_frame:
  "shift_existing_positions b db = Inr db' \<Longrightarrow> beside_board db' = beside_board db \<and> db_sessions db' = db_sessions db"
  by (auto simp: shift_existing_positions_def beside_board_def Let_def)

lemma persist_board_frame:
  assumes "persist_board b db = Inr db'"
  shows "beside_board db' = beside_board db"
proof -
  from assms obtain d1 d2 d3 where "persist_counters (ses_id (b_session b)) (b_counters b) db = Inr d1"
    "shift_existing_positions b d1 = Inr d2" "try_fold persist_thought d2 (b_thoughts b) = Inr d3"
    "try_fold persist_separator d3 (b_separators b) = Inr db'"
    by (auto simp: persist_board_def)
  then show ?thesis
    using persist_counters_frame shift_existing_positions_frame
      try_fold_frame [of "b_thoughts b" persist_thought beside_board d2 d3] persist_thought_frame
      try_fold_frame [of "b_separators b" persist_separator beside_board d3 db'] persist_separator_frame
    by metis
qed

lemma normalize_indices_frame:
  assumes "normalize_indices n db = Inr db'"
  shows "beside_browser db' = beside_browser db"
proof -
  have "\<exists>rows. db' = db\<lparr>db_browser_operations := rows\<rparr>"
  proof (cases "map bw_id (sort_key bw_index (db_browser_operations db)) = []")
    case True
    then have "db' = db\<lparr>db_browser_operations := db_browser_operations db\<rparr>" using assms by (simp add: normalize_indices_def)
    then show ?thesis ..
  next
    case False
    from assms show ?thesis
      unfolding normalize_indices_def Let_def if_not_P [OF False] try_bind_Inr_iff sum.inject by blast
  qed
  then show ?thesis by (auto simp: beside_browser_def)
qed

lemma invalidate_activity_conflicts_frame:
  assumes "invalidate_activity_conflicts sid db = Inr db'"
  shows "beside_browser db' = beside_browser db"
proof -
  from assms obtain n rows where
    "normalize_indices n (db\<lparr>db_browser_operations := rows\<rparr>) = Inr db' \<or> db' = db\<lparr>db_browser_operations := rows\<rparr>"
    unfolding invalidate_activity_conflicts_def Let_def by (auto split: prod.splits if_split_asm)
  then show ?thesis
    using normalize_indices_frame [of n "db\<lparr>db_browser_operations := rows\<rparr>" db'] by (auto simp: beside_browser_def)
qed

lemmas beside_simps = beside_board_def beside_browser_def

lemma number_revision_persists:
  assumes "number_revision revision db = Inr db'"
  obtains c where "persist_counters (rev_session_id revision) c db = Inr db'"
  using assms unfolding number_revision_def try_bind_Inr_iff by (elim exE conjE)

lemma number_revision_frame:
  assumes "number_revision revision db = Inr db'"
  shows "beside_board db' = beside_board db \<and> db_thoughts db' = db_thoughts db \<and> db_separators db' = db_separators db"
  by (rule number_revision_persists [OF assms], rule persist_counters_frame)

section \<open>Receipts are only added\<close>

lemma insert_receipt_Inr:
  "insert_receipt row db = Inr db' \<longleftrightarrow> db' = db\<lparr>db_receipts := db_receipts db @ [row]\<rparr> \<and> receipt_row_of db (kw_identity row) = None
     \<and> (\<forall>r \<in> set (db_receipts db). \<not> (kw_session_id r = kw_session_id row \<and> kw_sequence r = kw_sequence row))"
  by (auto simp: insert_receipt_def receipt_row_of_def find_None_iff list_ex_iff)

lemma sequence_to_i64_Inr [simp]: "sequence_to_i64 q = Inr v \<longleftrightarrow> v = uint q \<and> uint q \<le> i64_top"
  by (auto simp: sequence_to_i64_def)

lemma usize_to_i64_Inr [simp]: "usize_to_i64 n = Inr v \<longleftrightarrow> v = int n \<and> int n \<le> i64_top"
  by (auto simp: usize_to_i64_def)

lemma i64_to_usize_Inr [simp]: "i64_to_usize v = Inr n \<longleftrightarrow> v = int n"
  by (auto simp: i64_to_usize_def)

lemma sequence_from_i64_uint [simp]: "sequence_from_i64 (uint q) = Inr q"
  by (simp add: sequence_from_i64_def)

text \<open>The steps of each commit that is not a replay.\<close>

lemma finish_board_commitE:
  assumes "finish_board_commit operation cursor fp db = Inr (receipt, db')"
  obtains d1 d2 d3 where "invalidate_activity_conflicts (op_session_id operation) db = Inr d1"
    "uint (op_sequence operation) \<le> i64_top" "int (cursor + 1) \<le> i64_top"
    "insert_operation \<lparr>ow_id = op_id operation, ow_session_id = op_session_id operation, ow_index = int cursor,
       ow_sequence = uint (op_sequence operation), ow_payload = operation, ow_created_at = op_created_at operation\<rparr> d1 = Inr d2"
    "insert_receipt \<lparr>kw_session_id = op_session_id operation, kw_sequence = uint (op_sequence operation),
       kw_identity = OperationIdentity (op_id operation), kw_request = BoardText operation, kw_fingerprint = fp,
       kw_created_at = op_created_at operation\<rparr> d2 = Inr d3"
    "receipt = \<lparr>rc_session_id = op_session_id operation, rc_sequence = op_sequence operation,
       rc_identity = OperationIdentity (op_id operation), rc_idempotent_replay = False\<rparr>"
    "db' = update_session_row (op_session_id operation) (\<lambda>r. r\<lparr>sr_cursor := int (cursor + 1),
       sr_session := (sr_session r)\<lparr>last_durable_sequence := op_sequence operation,
         last_active_at := max (last_active_at (sr_session r)) (op_created_at operation)\<rparr>\<rparr>) d3"
  using assms unfolding finish_board_commit_def try_bind_Inr_iff sequence_to_i64_Inr usize_to_i64_Inr
  by (elim exE conjE) (simp only: sum.inject prod.inject; elim conjE; rule that; assumption?; simp)

lemma commit_boardE:
  assumes "commit_board request_digest operation fp db = Inr (receipt, db')"
  obtains (replay) "existing_receipt request_digest db (OperationIdentity (op_id operation)) (BoardText operation) fp = Inr (Some receipt)"
      "db' = db"
  | (fresh) u b v b' row cursor d1 where
      "existing_receipt request_digest db (OperationIdentity (op_id operation)) (BoardText operation) fp = Inr None"
      "require_next_sequence db (op_session_id operation) (op_sequence operation) = Inr u"
      "load_board db (op_session_id operation) = Inr b"
      "validate_creation b operation = Inr v"
      "apply_mutation b (op_forward operation) (op_created_at operation) = Inr b'"
      "session_row_of db (op_session_id operation) = Some row" "sr_cursor row = int cursor" "int cursor \<le> i64_top"
      "persist_board b' (store_truncate_redo (op_forward operation)
         (delete_operations_from (op_session_id operation) (int cursor) db)) = Inr d1"
      "finish_board_commit operation cursor fp d1 = Inr (receipt, db')"
proof -
  obtain existing where e: "existing_receipt request_digest db (OperationIdentity (op_id operation)) (BoardText operation) fp = Inr existing"
    using assms unfolding commit_board_def try_bind_Inr_iff by (elim exE conjE)
  show thesis
  proof (cases existing)
    case None
    note r = assms [unfolded commit_board_def e try_bind.simps None option.case try_bind_Inr_iff usize_to_i64_Inr i64_to_usize_Inr ok_or_simps map_err_Inr_iff]
    from r show thesis
      by clarify (rule fresh, simp only: e None, assumption+)
  next
    case (Some a)
    have "a = receipt" "db = db'" using assms unfolding commit_board_def Let_def e Some by simp_all
    with e Some show thesis by (intro replay) simp_all
  qed
qed

lemma commit_revisionE:
  assumes "commit_revision request_digest revision fp db = Inr (receipt, db')"
  obtains (replay) "existing_receipt request_digest db (RevisionIdentity (rev_id revision)) (RevisionText revision) fp = Inr (Some receipt)"
      "db' = db"
  | (fresh) u cursor d1 d2 d3 d4 where
      "existing_receipt request_digest db (RevisionIdentity (rev_id revision)) (RevisionText revision) fp = Inr None"
      "require_next_sequence db (rev_session_id revision) (rev_sequence revision) = Inr u"
      "revision_cursor revision db = Inr cursor"
      "number_revision revision db = Inr d1"
      "store_truncate_board_redo (rev_session_id revision) (rev_thought_id revision) d1 = Inr d2"
      "persist_revision revision cursor d2 = Inr d3"
      "insert_receipt \<lparr>kw_session_id = rev_session_id revision, kw_sequence = uint (rev_sequence revision),
         kw_identity = RevisionIdentity (rev_id revision), kw_request = RevisionText revision, kw_fingerprint = fp,
         kw_created_at = rev_created_at revision\<rparr> d3 = Inr d4"
      "update_session_sequence (rev_session_id revision) (rev_sequence revision) (rev_created_at revision) d4 = Inr db'"
      "receipt = \<lparr>rc_session_id = rev_session_id revision, rc_sequence = rev_sequence revision,
         rc_identity = RevisionIdentity (rev_id revision), rc_idempotent_replay = False\<rparr>"
proof -
  obtain existing where e: "existing_receipt request_digest db (RevisionIdentity (rev_id revision)) (RevisionText revision) fp = Inr existing"
    using assms unfolding commit_revision_def try_bind_Inr_iff by (elim exE conjE)
  show thesis
  proof (cases existing)
    case None
    note r = assms [unfolded commit_revision_def e try_bind.simps None option.case try_bind_Inr_iff sequence_to_i64_Inr]
    from r show thesis by clarify (rule fresh, simp only: e None, assumption+)
  next
    case (Some a)
    have "a = receipt" "db = db'" using assms unfolding commit_revision_def Let_def e Some by simp_all
    with e Some show thesis by (intro replay) simp_all
  qed
qed

lemma commit_history_moveE:
  assumes "commit_history_move request_digest oid sid scope undo sequence at fp db = Inr (receipt, db')"
  obtains (replay) "existing_receipt request_digest db (OperationIdentity oid) (MoveText sid scope undo sequence at) fp = Inr (Some receipt)"
      "db' = db"
  | (fresh) u d1 d2 where
      "existing_receipt request_digest db (OperationIdentity oid) (MoveText sid scope undo sequence at) fp = Inr None"
      "require_next_sequence db sid sequence = Inr u"
      "(case scope of BoardScope \<Rightarrow> store_move_board sid undo at db | EditorScope i \<Rightarrow> store_move_editor sid i undo at db) = Inr d1"
      "insert_receipt \<lparr>kw_session_id = sid, kw_sequence = uint sequence, kw_identity = OperationIdentity oid,
         kw_request = MoveText sid scope undo sequence at, kw_fingerprint = fp, kw_created_at = at\<rparr> d1 = Inr d2"
      "update_session_sequence sid sequence at d2 = Inr db'"
      "receipt = \<lparr>rc_session_id = sid, rc_sequence = sequence, rc_identity = OperationIdentity oid, rc_idempotent_replay = False\<rparr>"
proof -
  obtain existing where e: "existing_receipt request_digest db (OperationIdentity oid) (MoveText sid scope undo sequence at) fp = Inr existing"
    using assms unfolding commit_history_move_def Let_def try_bind_Inr_iff by (elim exE conjE)
  show thesis
  proof (cases existing)
    case None
    note r = assms [unfolded commit_history_move_def Let_def e try_bind.simps None option.case try_bind_Inr_iff sequence_to_i64_Inr]
    from r show thesis by clarify (rule fresh, simp only: e None, assumption+)
  next
    case (Some a)
    have "a = receipt" "db = db'" using assms unfolding commit_history_move_def Let_def e Some by simp_all
    with e Some show thesis by (intro replay) simp_all
  qed
qed

lemma commit_noop_renameE:
  assumes "commit_noop_rename request_digest oid sid i name sequence at fp db = Inr (receipt, db')"
  obtains (replay) "operation_request db oid = Inr (Some (StoredCompacted (CompactedRename sid i name) fp receipt))" "db' = db"
  | (fresh) u b t d1 where
      "operation_request db oid = Inr None"
      "require_next_sequence db sid sequence = Inr u"
      "load_board db sid = Inr b" "filter_opt t_is_live (thought_of b i) = Some t" "t_name t = name"
      "insert_receipt \<lparr>kw_session_id = sid, kw_sequence = uint sequence, kw_identity = OperationIdentity oid,
         kw_request = EnvelopeText (request_digest (RenameText sid i name sequence at)) (CompactedRename sid i name),
         kw_fingerprint = fp, kw_created_at = at\<rparr> db = Inr d1"
      "update_session_sequence sid sequence at d1 = Inr db'"
      "receipt = \<lparr>rc_session_id = sid, rc_sequence = sequence, rc_identity = OperationIdentity oid, rc_idempotent_replay = False\<rparr>"
proof -
  obtain existing where e: "operation_request db oid = Inr existing"
    using assms unfolding commit_noop_rename_def Let_def try_bind_Inr_iff by (elim exE conjE)
  show thesis
  proof (cases existing)
    case None
    note r = assms [unfolded commit_noop_rename_def Let_def e try_bind.simps None option.case try_bind_Inr_iff ok_or_simps]
    from r obtain u b t where a: "require_next_sequence db sid sequence = Inr u" "load_board db sid = Inr b"
        "filter_opt t_is_live (thought_of b i) = Some t" and n: "t_name t = name"
      and c: "\<exists>q. sequence_to_i64 sequence = Inr q \<and> (\<exists>d1. insert_receipt \<lparr>kw_session_id = sid, kw_sequence = q, kw_identity = OperationIdentity oid,
         kw_request = EnvelopeText (request_digest (RenameText sid i name sequence at)) (CompactedRename sid i name),
         kw_fingerprint = fp, kw_created_at = at\<rparr> db = Inr d1 \<and> (\<exists>d2. update_session_sequence sid sequence at d1 = Inr d2 \<and> 
         Inr (\<lparr>rc_session_id = sid, rc_sequence = sequence, rc_identity = OperationIdentity oid, rc_idempotent_replay = False\<rparr>, d2) = Inr (receipt, db')))"
      by (clarsimp split: if_split_asm)
    from c [unfolded sequence_to_i64_Inr] show thesis
      by clarify (rule fresh, simp only: e None, rule a, rule a, rule a, rule n, assumption+)
  next
    case (Some stored)
    then show thesis using assms e replay
      by (cases stored) (simp_all add: commit_noop_rename_def Let_def split: if_split_asm)
  qed
qed

section \<open>Every commit leaves an answer behind\<close>

definition request_matches :: "digest_of \<Rightarrow> request_text \<Rightarrow> fingerprint option \<Rightarrow> receipt_row \<Rightarrow> bool" where
  "request_matches request_digest request fp r \<longleftrightarrow>
     (case (kw_fingerprint r, fp) of
        (Some stored, Some expected) \<Rightarrow> stored = expected
      | (None, None) \<Rightarrow> kw_request r = request \<or> matches_original request_digest (kw_request r) request
      | _ \<Rightarrow> False)"

lemma request_matches_own: "kw_request r = request \<Longrightarrow> kw_fingerprint r = fp \<Longrightarrow> request_matches request_digest request fp r"
  by (cases fp) (simp_all add: request_matches_def)

lemma existing_receipt_Some_iff:
  "existing_receipt request_digest db identity request fp = Inr (Some receipt) \<longleftrightarrow>
     (\<exists>r. receipt_row_of db identity = Some r \<and> request_matches request_digest request fp r \<and> replayed_receipt r = Inr receipt)"
  by (simp add: existing_receipt_def request_matches_def Let_def split: option.split)

lemma existing_receipt_None_iff:
  "existing_receipt request_digest db identity request fp = Inr None \<longleftrightarrow> receipt_row_of db identity = None"
  by (simp add: existing_receipt_def Let_def split: option.split)

lemma stored_rename_iff:
  "operation_request db oid = Inr (Some (StoredCompacted replay fp receipt)) \<longleftrightarrow>
     (\<exists>r text_digest. receipt_row_of db (OperationIdentity oid) = Some r \<and> kw_request r = EnvelopeText text_digest replay
       \<and> kw_fingerprint r = fp \<and> replayed_receipt r = Inr receipt)"
proof (cases "receipt_row_of db (OperationIdentity oid)")
  case (Some r)
  then show ?thesis by (cases "kw_request r") (auto simp: operation_request_def split: if_split_asm)
qed (simp add: operation_request_def)

text \<open>The receipt row that makes the store answer a request with a receipt.\<close>

fun answers :: "digest_of \<Rightarrow> operation_batch \<Rightarrow> commit_receipt \<Rightarrow> receipt_row \<Rightarrow> bool" where
  "answers request_digest (BatchBoard operation fp) receipt r \<longleftrightarrow>
     kw_identity r = OperationIdentity (op_id operation) \<and> request_matches request_digest (BoardText operation) fp r
     \<and> replayed_receipt r = Inr receipt"
| "answers request_digest (BatchRevision revision fp) receipt r \<longleftrightarrow>
     kw_identity r = RevisionIdentity (rev_id revision) \<and> request_matches request_digest (RevisionText revision) fp r
     \<and> replayed_receipt r = Inr receipt"
| "answers request_digest (BatchHistoryMove oid sid scope undo sequence at fp) receipt r \<longleftrightarrow>
     kw_identity r = OperationIdentity oid \<and> request_matches request_digest (MoveText sid scope undo sequence at) fp r
     \<and> replayed_receipt r = Inr receipt"
| "answers request_digest (BatchNoOpRename oid sid i name sequence at fp) receipt r \<longleftrightarrow>
     kw_identity r = OperationIdentity oid \<and> (\<exists>text_digest. kw_request r = EnvelopeText text_digest (CompactedRename sid i name))
     \<and> kw_fingerprint r = fp \<and> replayed_receipt r = Inr receipt"
| "answers request_digest _ receipt r \<longleftrightarrow> False"

lemma answered:
  "receipt_row_of db (kw_identity r) = Some r \<Longrightarrow> answers request_digest batch receipt r
   \<Longrightarrow> commit_batch request_digest batch db = Inr (Some receipt, db)"
  by (cases "(request_digest, batch, receipt, r)" rule: answers.cases)
    (auto simp: commit_board_def commit_revision_def commit_history_move_def commit_noop_rename_def Let_def
      existing_receipt_Some_iff [THEN iffD2] stored_rename_iff [THEN iffD2])

lemma receipt_row_of_identity: "receipt_row_of db identity = Some r \<Longrightarrow> kw_identity r = identity"
  by (auto simp: receipt_row_of_def find_Some_iff)

lemma find_append: "List.find P (xs @ ys) = (case List.find P xs of None \<Rightarrow> List.find P ys | Some x \<Rightarrow> Some x)"
  by (induction xs) auto

lemma receipt_row_of_added:
  "receipt_row_of db (kw_identity r) = None \<Longrightarrow> db_receipts db' = db_receipts db @ [r] \<Longrightarrow> receipt_row_of db' (kw_identity r) = Some r"
  by (simp add: receipt_row_of_def find_append)

lemma receipt_row_of_kept:
  "receipt_row_of db identity = Some r \<Longrightarrow> db_receipts db' = db_receipts db @ rs \<Longrightarrow> receipt_row_of db' identity = Some r"
  by (simp add: receipt_row_of_def find_append)

lemma replayed_receipt_row:
  "replayed_receipt \<lparr>kw_session_id = sid, kw_sequence = uint q, kw_identity = identity, kw_request = request, kw_fingerprint = fp,
     kw_created_at = at\<rparr>
   = Inr \<lparr>rc_session_id = sid, rc_sequence = q, rc_identity = identity, rc_idempotent_replay = True\<rparr>"
  by (simp add: replayed_receipt_def)

lemma replayed_receipt_replay: "replayed_receipt r = Inr receipt \<Longrightarrow> receipt\<lparr>rc_idempotent_replay := True\<rparr> = receipt"
  by (auto simp: replayed_receipt_def)

lemma update_session_sequence_receipts: "update_session_sequence sid q at db = Inr db' \<Longrightarrow> db_receipts db' = db_receipts db"
  unfolding update_session_sequence_def try_bind_Inr_iff
  by (elim exE conjE) (drule invalidate_activity_conflicts_frame, auto simp: beside_browser_def)

lemma persist_board_receipts: "persist_board b db = Inr db' \<Longrightarrow> db_receipts db' = db_receipts db"
  by (drule persist_board_frame) (simp add: beside_board_def)

lemma store_truncate_board_redo_receipts: "store_truncate_board_redo sid i db = Inr db' \<Longrightarrow> db_receipts db' = db_receipts db"
  by (auto simp: store_truncate_board_redo_def split: option.splits)

lemma persist_revision_receipts: "persist_revision revision cursor db = Inr db' \<Longrightarrow> db_receipts db' = db_receipts db"
  by (auto simp: persist_revision_def insert_revision_def write_content_def split: if_splits)

lemma store_move_receipts:
  "store_move_board sid undo at db = Inr db' \<Longrightarrow> db_receipts db' = db_receipts db"
  "store_move_editor sid i undo at db = Inr db' \<Longrightarrow> db_receipts db' = db_receipts db"
  by (auto simp: store_move_board_def dest!: persist_board_receipts)
    (auto simp: store_move_editor_def write_content_def split: if_split_asm)

text \<open>What a successful commit does to the receipts: none new and the answer is there, or one new that answers.\<close>

definition answered_by :: "digest_of \<Rightarrow> operation_batch \<Rightarrow> database \<Rightarrow> commit_receipt \<Rightarrow> database \<Rightarrow> bool" where
  "answered_by request_digest batch db receipt db' \<longleftrightarrow>
     (\<exists>r rs. db_receipts db' = db_receipts db @ rs \<and> receipt_row_of db' (kw_identity r) = Some r
       \<and> answers request_digest batch (receipt\<lparr>rc_idempotent_replay := True\<rparr>) r)"

lemma answered_byI:
  assumes "insert_receipt r d = Inr d'" "db_receipts d = db_receipts db" "db_receipts db' = db_receipts d'"
    and "answers request_digest batch (receipt\<lparr>rc_idempotent_replay := True\<rparr>) r"
  shows "answered_by request_digest batch db receipt db'"
proof -
  from assms(1) have "db_receipts db' = db_receipts db @ [r]" "receipt_row_of db (kw_identity r) = None"
    using assms(2,3) by (auto simp: insert_receipt_Inr receipt_row_of_def)
  then show ?thesis using receipt_row_of_added assms(4) unfolding answered_by_def by blast
qed

lemma answered_by_replay:
  assumes "receipt_row_of db identity = Some r" "answers request_digest batch receipt r" "replayed_receipt r = Inr receipt"
  shows "answered_by request_digest batch db receipt db"
  using assms receipt_row_of_identity [OF assms(1)] replayed_receipt_replay [OF assms(3)] unfolding answered_by_def by force

lemma commit_board_answered:
  assumes "commit_board request_digest operation fp db = Inr (receipt, db')"
  shows "answered_by request_digest (BatchBoard operation fp) db receipt db'"
  using assms
proof (cases rule: commit_boardE)
  case replay
  then show ?thesis
    by (auto simp: existing_receipt_Some_iff receipt_row_of_identity intro: answered_by_replay)
next
  case (fresh u b v b' row cursor d1)
  from fresh(10) show ?thesis
  proof (rule finish_board_commitE)
    fix e1 e2 e3
    assume 1: "invalidate_activity_conflicts (op_session_id operation) d1 = Inr e1"
      and 2: "insert_operation \<lparr>ow_id = op_id operation, ow_session_id = op_session_id operation, ow_index = int cursor,
       ow_sequence = uint (op_sequence operation), ow_payload = operation, ow_created_at = op_created_at operation\<rparr> e1 = Inr e2"
      and 3: "insert_receipt \<lparr>kw_session_id = op_session_id operation, kw_sequence = uint (op_sequence operation),
       kw_identity = OperationIdentity (op_id operation), kw_request = BoardText operation, kw_fingerprint = fp,
       kw_created_at = op_created_at operation\<rparr> e2 = Inr e3"
      and 4: "receipt = \<lparr>rc_session_id = op_session_id operation, rc_sequence = op_sequence operation,
       rc_identity = OperationIdentity (op_id operation), rc_idempotent_replay = False\<rparr>"
      and 5: "db' = update_session_row (op_session_id operation) (\<lambda>r. r\<lparr>sr_cursor := int (cursor + 1),
       sr_session := (sr_session r)\<lparr>last_durable_sequence := op_sequence operation,
         last_active_at := max (last_active_at (sr_session r)) (op_created_at operation)\<rparr>\<rparr>) e3"
    have "db_receipts e2 = db_receipts db"
      using invalidate_activity_conflicts_frame [OF 1] 2 persist_board_receipts [OF fresh(9)]
      by (auto simp: beside_browser_def insert_operation_def split: if_split_asm)
    then show ?thesis
      by (rule answered_byI [OF 3]) (simp_all add: 4 5 replayed_receipt_row request_matches_own)
  qed
qed

lemma commit_revision_answered:
  assumes "commit_revision request_digest revision fp db = Inr (receipt, db')"
  shows "answered_by request_digest (BatchRevision revision fp) db receipt db'"
  using assms
proof (cases rule: commit_revisionE)
  case replay
  then show ?thesis
    by (auto simp: existing_receipt_Some_iff receipt_row_of_identity intro: answered_by_replay)
next
  case (fresh u cursor d1 d2 d3 d4)
  have "db_receipts d3 = db_receipts db"
    using number_revision_frame [OF fresh(4)] store_truncate_board_redo_receipts [OF fresh(5)] persist_revision_receipts [OF fresh(6)]
    by (simp add: beside_board_def)
  then show ?thesis
    by (rule answered_byI [OF fresh(7)])
      (simp_all add: fresh(9) update_session_sequence_receipts [OF fresh(8)] replayed_receipt_row request_matches_own)
qed

lemma commit_history_move_answered:
  assumes "commit_history_move request_digest oid sid scope undo sequence at fp db = Inr (receipt, db')"
  shows "answered_by request_digest (BatchHistoryMove oid sid scope undo sequence at fp) db receipt db'"
  using assms
proof (cases rule: commit_history_moveE)
  case replay
  then show ?thesis
    by (auto simp: existing_receipt_Some_iff receipt_row_of_identity intro: answered_by_replay)
next
  case (fresh u d1 d2)
  have "db_receipts d1 = db_receipts db"
    using fresh(3) by (cases scope) (simp_all add: store_move_receipts)
  then show ?thesis
    by (rule answered_byI [OF fresh(4)])
      (simp_all add: fresh(6) update_session_sequence_receipts [OF fresh(5)] replayed_receipt_row request_matches_own)
qed

lemma commit_noop_rename_answered:
  assumes "commit_noop_rename request_digest oid sid i name sequence at fp db = Inr (receipt, db')"
  shows "answered_by request_digest (BatchNoOpRename oid sid i name sequence at fp) db receipt db'"
  using assms
proof (cases rule: commit_noop_renameE)
  case replay
  then show ?thesis
    by (auto simp: stored_rename_iff receipt_row_of_identity intro: answered_by_replay)
next
  case (fresh u b t d1)
  show ?thesis
    by (rule answered_byI [OF fresh(6)])
      (simp_all add: fresh(8) update_session_sequence_receipts [OF fresh(7)] replayed_receipt_row)
qed

lemma commit_batch_answered:
  "commit_batch request_digest batch db = Inr (Some receipt, db') \<Longrightarrow> answered_by request_digest batch db receipt db'"
  by (cases batch) (auto dest: commit_board_answered commit_revision_answered commit_history_move_answered commit_noop_rename_answered)

lemma commit_batch_receipts:
  assumes "commit_batch request_digest batch db = Inr (receipt, db')"
  obtains rs where "db_receipts db' = db_receipts db @ rs"
proof (cases receipt)
  case (Some r)
  then show ?thesis using commit_batch_answered assms that unfolding answered_by_def by blast
next
  case None
  then have "db_receipts db' = db_receipts db"
    using assms by (cases batch) (auto simp: create_session_def set_integration_context_def split: if_splits option.splits)
  then show ?thesis using that [of "[]"] by simp
qed

definition commit_all :: "digest_of \<Rightarrow> operation_batch list \<Rightarrow> database \<Rightarrow> store_error + database" where
  "commit_all request_digest batches db =
     try_fold (\<lambda>db batch. try_bind (commit_batch request_digest batch db) (\<lambda>(_, db). Inr db)) db batches"

lemma commit_all_receipts:
  assumes "commit_all request_digest batches db = Inr db'"
  shows "\<exists>rs. db_receipts db' = db_receipts db @ rs"
  using assms
proof (induction batches arbitrary: db)
  case (Cons batch batches)
  then obtain receipt d where c: "commit_batch request_digest batch db = Inr (receipt, d)" and r: "commit_all request_digest batches d = Inr db'"
    by (auto simp: commit_all_def)
  from c obtain rs where "db_receipts d = db_receipts db @ rs" by (rule commit_batch_receipts)
  with Cons.IH [OF r] show ?case by auto
qed (simp add: commit_all_def)

text \<open>C19: A request that was committed with a receipt is answered with the same receipt, marked as a replay,
  and without any change when it is sent again after any number of further commits.\<close>

theorem retried_commit_replays:
  assumes "commit_batch request_digest batch db = Inr (Some receipt, db1)"
    and "commit_all request_digest batches db1 = Inr db2"
  shows "commit_batch request_digest batch db2 = Inr (Some (receipt\<lparr>rc_idempotent_replay := True\<rparr>), db2)"
proof -
  from commit_batch_answered [OF assms(1)] obtain r
    where "receipt_row_of db1 (kw_identity r) = Some r" "answers request_digest batch (receipt\<lparr>rc_idempotent_replay := True\<rparr>) r"
    unfolding answered_by_def by blast
  with commit_all_receipts [OF assms(2)] show ?thesis using receipt_row_of_kept answered by blast
qed

section \<open>A concrete store\<close>

definition empty_database :: database where
  "empty_database = \<lparr>db_sessions = [], db_thoughts = [], db_separators = [], db_operations = [], db_revisions = [],
     db_receipts = [], db_contexts = [], db_captures = [], db_browser_cursor = 0, db_browser_operations = [],
     db_browser_identities = []\<rparr>"

definition store_session :: session where
  "store_session = \<lparr>ses_id = SessionId [1], ses_name = None, origin_cwd = [47], last_opened_cwd = [47], ses_created_at = 0,
     last_opened_at = 0, last_active_at = 0, last_durable_sequence = 0, ses_deleted_at = None\<rparr>"

definition sample_store :: database where
  "sample_store = empty_database\<lparr>db_sessions := [\<lparr>sr_session = store_session, sr_cursor = 0, sr_image_high = 0, sr_file_high = 0\<rparr>]\<rparr>"

definition sample_operation :: "u8 \<Rightarrow> u64 \<Rightarrow> board_operation" where
  "sample_operation n q = \<lparr>op_id = OperationId [n], op_session_id = SessionId [1], op_sequence = q, op_kind = Create,
     op_forward = AddThought (thought_new (ThoughtId [n]) (SessionId [1]) [97] 0 0),
     op_inverse = SetDeletion (ThoughtId [n]) None 0, op_created_at = 5\<rparr>"

definition sample_addition :: "u8 \<Rightarrow> u64 \<Rightarrow> operation_batch" where
  "sample_addition n q = BatchBoard (sample_operation n q) None"

definition commits_to :: "store_error + commit_receipt option \<times> database \<Rightarrow> commit_receipt \<Rightarrow> (database \<Rightarrow> bool) \<Rightarrow> bool" where
  "commits_to result receipt p = (case result of Inr (Some r, db) \<Rightarrow> r = receipt \<and> p db | _ \<Rightarrow> False)"

lemma commits_toE: "commits_to result receipt p \<Longrightarrow> (\<And>db. result = Inr (Some receipt, db) \<Longrightarrow> p db \<Longrightarrow> thesis) \<Longrightarrow> thesis"
  by (auto simp: commits_to_def split: sum.splits option.splits)

theorem retried_commit_replays_witness:
  "\<exists>db. commits_to (commit_batch (\<lambda>_. []) (sample_addition 7 1) db)
    \<lparr>rc_session_id = SessionId [1], rc_sequence = 1, rc_identity = OperationIdentity (OperationId [7]), rc_idempotent_replay = True\<rparr>
    (\<lambda>db'. db' = db)"
proof -
  have "commits_to (commit_batch (\<lambda>_. []) (sample_addition 7 1) sample_store)
      \<lparr>rc_session_id = SessionId [1], rc_sequence = 1, rc_identity = OperationIdentity (OperationId [7]), rc_idempotent_replay = False\<rparr>
      (\<lambda>db. \<not> isl (commit_all (\<lambda>_. []) [sample_addition 8 2] db))"
    by code_simp
  then obtain db1 where 1: "commit_batch (\<lambda>_. []) (sample_addition 7 1) sample_store
      = Inr (Some \<lparr>rc_session_id = SessionId [1], rc_sequence = 1, rc_identity = OperationIdentity (OperationId [7]),
          rc_idempotent_replay = False\<rparr>, db1)"
    and "\<not> isl (commit_all (\<lambda>_. []) [sample_addition 8 2] db1)" by (rule commits_toE)
  then obtain db2 where 2: "commit_all (\<lambda>_. []) [sample_addition 8 2] db1 = Inr db2"
    by (cases "commit_all (\<lambda>_. []) [sample_addition 8 2] db1") auto
  from retried_commit_replays [OF 1 2] show ?thesis by (intro exI [of _ db2]) (simp add: commits_to_def)
qed

end
