(* ===== verification/Lane_Store.thy ===== *)
theory Lane_Store
  imports Lane_Properties Store_Receipts
begin

text \<open>
  The reducer lane and the store together: an action is reduced, its durable requests are committed in
  order, and every receipt is acknowledged to the lane before the next action. A refused action and a
  refused commit stop the run.
\<close>

section \<open>Running the lane against the store\<close>





section \<open>Editor undo brings back a moved attachment\<close>






section \<open>The store drops an editor redo the lane keeps\<close>




end
