(* ===== verification/Keyed_Rows.thy ===== *)
theory Keyed_Rows
  imports Store_Receipts Board_Similarity
begin

text \<open>
  Storing a list of items into a table of rows keyed by identity, one upsert per item, with a unique index
  on the positions of the live rows of an owner. The locale is the contract of the table; it is interpreted
  for the thoughts and the separators of the store.
\<close>

section \<open>Upserts\<close>

definition upsert :: "('r \<Rightarrow> 'x) \<Rightarrow> ('x \<Rightarrow> 'r \<Rightarrow> 'r) \<Rightarrow> ('x \<Rightarrow> 'r) \<Rightarrow> ('x \<Rightarrow> 'k) \<Rightarrow> 'r list \<Rightarrow> 'x \<Rightarrow> 'r list" where
  "upsert item put fresh key rows x =
     (if list_ex (\<lambda>r. key (item r) = key x) rows then map (\<lambda>r. if key (item r) = key x then put x r else r) rows
      else rows @ [fresh x])"

locale keyed_rows =
  fixes item :: "'r \<Rightarrow> 'x" and row_pos :: "'r \<Rightarrow> int" and put :: "'x \<Rightarrow> 'r \<Rightarrow> 'r" and fresh :: "'x \<Rightarrow> 'r"
    and key :: "'x \<Rightarrow> 'k" and owner :: "'x \<Rightarrow> 's" and live :: "'x \<Rightarrow> bool" and pos :: "'x \<Rightarrow> int"
  assumes item_put [simp]: "item (put x r) = x" and pos_put [simp]: "row_pos (put x r) = pos x"
    and item_fresh [simp]: "item (fresh x) = x" and pos_fresh [simp]: "row_pos (fresh x) = pos x"
begin

abbreviation "store \<equiv> upsert item put fresh key"

abbreviation "keys rows \<equiv> key ` item ` set rows"

lemma keys_store [simp]: "keys (store rows x) = insert (key x) (keys rows)"
proof (cases "list_ex (\<lambda>r. key (item r) = key x) rows")
  case True
  then obtain r where "r \<in> set rows" "key (item r) = key x" by (auto simp: list_ex_iff)
  then have "key x \<in> keys rows" by (metis imageI)
  moreover have "map (\<lambda>r. key (item r)) (store rows x) = map (\<lambda>r. key (item r)) rows" using True by (simp add: upsert_def)
  then have "keys (store rows x) = keys rows" by (metis image_image list.set_map)
  ultimately show ?thesis by (simp add: insert_absorb)
next
  case False
  then show ?thesis by (simp add: upsert_def)
qed

lemma distinct_store:
  assumes "distinct (map (\<lambda>r. key (item r)) rows)"
  shows "distinct (map (\<lambda>r. key (item r)) (store rows x))"
proof (cases "list_ex (\<lambda>r. key (item r) = key x) rows")
  case True
  then have "map (\<lambda>r. key (item r)) (store rows x) = map (\<lambda>r. key (item r)) rows" by (simp add: upsert_def)
  with assms show ?thesis by (simp only:)
next
  case False
  with assms show ?thesis by (auto simp: upsert_def list_ex_iff image_iff)
qed

lemma distinct_store_all:
  "distinct (map (\<lambda>r. key (item r)) rows) \<Longrightarrow> distinct (map (\<lambda>r. key (item r)) (foldl store rows xs))"
  by (induction xs arbitrary: rows) (simp_all add: distinct_store)

lemma fold_store:
  "distinct (map key xs) \<Longrightarrow> foldl store rows xs
     = map (\<lambda>r. case List.find (\<lambda>x. key x = key (item r)) xs of Some x \<Rightarrow> put x r | None \<Rightarrow> r) rows
       @ map fresh (filter (\<lambda>x. key x \<notin> keys rows) xs)"
proof (induction xs arbitrary: rows)
  case Nil
  show ?case by (simp cong: map_cong)
next
  case (Cons x xs)
  have n: "List.find (\<lambda>y. key y = key x) xs = None" using Cons.prems by (simp add: find_key_None_iff)
  have f: "filter (\<lambda>y. key y \<noteq> key x \<and> key y \<notin> keys rows) xs = filter (\<lambda>y. key y \<notin> keys rows) xs"
  proof (intro filter_cong refl)
    fix y assume "y \<in> set xs"
    then have "key y \<in> key ` set xs" by simp
    then have "key y \<noteq> key x" using Cons.prems by (metis distinct.simps(2) list.set_map list.simps(9))
    then show "(key y \<noteq> key x \<and> key y \<notin> keys rows) = (key y \<notin> keys rows)" by simp
  qed
  show ?case
  proof (cases "key x \<in> keys rows")
    case True
    then have s: "store rows x = map (\<lambda>r. if key (item r) = key x then put x r else r) rows"
      by (auto simp: upsert_def list_ex_iff)
    show ?thesis using Cons.prems True n by (simp add: Cons.IH keys_store f del: upsert_def) (auto simp: s)
  next
    case False
    then have s: "store rows x = rows @ [fresh x]" by (auto simp: upsert_def list_ex_iff image_iff)
    have "map (\<lambda>r. case List.find (\<lambda>y. key y = key (item r)) (x # xs) of Some x \<Rightarrow> put x r | None \<Rightarrow> r) rows
        = map (\<lambda>r. case List.find (\<lambda>y. key y = key (item r)) xs of Some x \<Rightarrow> put x r | None \<Rightarrow> r) rows"
      using False by (intro map_cong) auto
    with Cons.prems False n show ?thesis by (simp add: Cons.IH f) (simp add: s n)
  qed
qed

text \<open>The unique index: storing fails when another live row of the owner has the position.\<close>

abbreviation "clash rows x \<equiv> live x \<and> list_ex (\<lambda>r. key (item r) \<noteq> key x \<and> owner (item r) = owner x
    \<and> live (item r) \<and> row_pos r = pos x) rows"

lemma clash_store:
  assumes "\<not> clash rows y" "live x \<Longrightarrow> live y \<Longrightarrow> pos x \<noteq> pos y"
  shows "\<not> clash (store rows x) y"
  using assms by (auto simp: upsert_def list_ex_iff)

lemma try_fold_store:
  assumes g: "\<And>db x. g db x = (if clash (rows_of db) x then Inl e else Inr (with_rows db (store (rows_of db) x)))"
    and w: "\<And>db rows. rows_of (with_rows db rows) = rows" "\<And>db. with_rows db (rows_of db) = db"
      "\<And>db rows rows'. with_rows (with_rows db rows) rows' = with_rows db rows'"
  shows "\<forall>x \<in> set xs. \<not> clash (rows_of db) x \<Longrightarrow> distinct (map pos (filter live xs))
    \<Longrightarrow> try_fold g db xs = Inr (with_rows db (foldl store (rows_of db) xs))"
proof (induction xs arbitrary: db)
  case (Cons x xs)
  have "\<forall>y \<in> set xs. \<not> clash (store (rows_of db) x) y"
  proof
    fix y assume y: "y \<in> set xs"
    then have "live x \<Longrightarrow> live y \<Longrightarrow> pos x \<noteq> pos y" using Cons.prems(2) by force
    with y show "\<not> clash (store (rows_of db) x) y" using clash_store Cons.prems(1) by (meson list.set_intros(2))
  qed
  moreover have "distinct (map pos (filter live xs))" using Cons.prems(2) by (simp split: if_splits)
  ultimately have "try_fold g (with_rows db (store (rows_of db) x)) xs = Inr (with_rows db (foldl store (store (rows_of db) x) xs))"
    using Cons.IH [of "with_rows db (store (rows_of db) x)"] by (simp add: w)
  moreover have "g db x = Inr (with_rows db (store (rows_of db) x))" unfolding g using Cons.prems(1) by simp
  ultimately show ?case by simp
qed (simp add: w)

text \<open>When the rows of an owner all belong to the stored items, they hold exactly the items afterwards.\<close>

lemma stored_exactly:
  assumes d: "distinct (map key xs)" "distinct (map (\<lambda>r. key (item r)) rows)" and o: "\<forall>x \<in> set xs. owner x = s"
    and r: "\<forall>r \<in> set rows. owner (item r) = s \<longleftrightarrow> key (item r) \<in> key ` set xs"
  shows "mset (map (\<lambda>r. (item r, row_pos r)) (filter (\<lambda>r. owner (item r) = s) (foldl store rows xs)))
    = mset (map (\<lambda>x. (x, pos x)) xs)"
proof -
  let ?f = "\<lambda>r. case List.find (\<lambda>x. key x = key (item r)) xs of Some x \<Rightarrow> put x r | None \<Rightarrow> r"
  have found: "?f r = put x r" if "x \<in> set xs" "key x = key (item r)" for x r
  proof -
    have "List.find (\<lambda>x. key x = key (item r)) xs = Some x" using find_key_Some_distinct [OF d(1)] that by simp
    then show ?thesis by simp
  qed
  have missing: "?f r = r" if "key (item r) \<notin> key ` set xs" for r
  proof -
    have "List.find (\<lambda>x. key x = key (item r)) xs = None" using that by (simp add: find_key_None_iff)
    then show ?thesis by simp
  qed
  have "set (map (\<lambda>r. (item r, row_pos r)) (filter (\<lambda>r. owner (item r) = s) (foldl store rows xs))) = (\<lambda>x. (x, pos x)) ` set xs"
    unfolding fold_store [OF d(1)]
  proof (intro equalityI subsetI)
    fix y assume "y \<in> set (map (\<lambda>r. (item r, row_pos r)) (filter (\<lambda>r. owner (item r) = s)
        (map ?f rows @ map fresh (filter (\<lambda>x. key x \<notin> keys rows) xs))))"
    then consider r where "r \<in> set rows" "owner (item (?f r)) = s" "y = (item (?f r), row_pos (?f r))"
      | x where "x \<in> set xs" "y = (x, pos x)" by auto
    then show "y \<in> (\<lambda>x. (x, pos x)) ` set xs"
    proof cases
      case 1
      show ?thesis
      proof (cases "key (item r) \<in> key ` set xs")
        case True
        then obtain x where "x \<in> set xs" "key x = key (item r)" by auto
        with 1(3) found [OF this] show ?thesis by auto
      next
        case False
        then show ?thesis using 1 missing [OF False] r by auto
      qed
    qed auto
  next
    fix y assume "y \<in> (\<lambda>x. (x, pos x)) ` set xs"
    then obtain x where x: "x \<in> set xs" "y = (x, pos x)" by auto
    define L where "L = map ?f rows @ map fresh (filter (\<lambda>x. key x \<notin> keys rows) xs)"
    have "\<exists>w \<in> set L. item w = x \<and> row_pos w = pos x"
    proof (cases "key x \<in> keys rows")
      case True
      then obtain r where r: "r \<in> set rows" "key x = key (item r)" unfolding image_iff by blast
      then have "put x r \<in> ?f ` set rows" by (intro image_eqI [of _ _ r]) (simp_all only: found [OF x(1) r(2)])
      then have "put x r \<in> set L" unfolding L_def set_append set_map by (rule UnI1)
      then show ?thesis by (intro bexI [of _ "put x r"]) simp_all
    next
      case False
      with x(1) have "fresh x \<in> set L" unfolding L_def by simp
      then show ?thesis by (intro bexI [of _ "fresh x"]) simp_all
    qed
    then obtain w where "w \<in> set L" "item w = x" "row_pos w = pos x" by blast
    moreover from this x(1) o have "owner (item w) = s" by simp
    ultimately have "(item w, row_pos w) \<in> set (map (\<lambda>r. (item r, row_pos r)) (filter (\<lambda>r. owner (item r) = s) L))"
      unfolding set_map set_filter by (intro imageI) simp
    then have "y \<in> set (map (\<lambda>r. (item r, row_pos r)) (filter (\<lambda>r. owner (item r) = s) L))"
      by (simp only: x(2) \<open>item w = x\<close> \<open>row_pos w = pos x\<close>)
    then show "y \<in> set (map (\<lambda>r. (item r, row_pos r)) (filter (\<lambda>r. owner (item r) = s)
        (map ?f rows @ map fresh (filter (\<lambda>x. key x \<notin> keys rows) xs))))" unfolding L_def .
  qed
  moreover have "distinct (map (\<lambda>r. (item r, row_pos r)) (filter (\<lambda>r. owner (item r) = s) (foldl store rows xs)))"
    using distinct_store_all [OF d(2), of xs] by (auto simp: distinct_map inj_on_def)
  moreover have "distinct (map (\<lambda>x. (x, pos x)) xs)" using d(1) by (auto simp: distinct_map inj_on_def)
  ultimately show ?thesis by (subst set_eq_iff_mset_eq_distinct [symmetric]) simp_all
qed

text \<open>Rows keep their key, owner and what storing does not touch; rows of other owners do not change.\<close>

lemma stored_put:
  assumes "distinct (map key xs)" "\<forall>x \<in> set xs. owner x = s" "owner (item r) = s \<longleftrightarrow> key (item r) \<in> key ` set xs"
    and aux: "\<And>x r. aux (put x r) = aux r"
  defines "r' \<equiv> case List.find (\<lambda>x. key x = key (item r)) xs of Some x \<Rightarrow> put x r | None \<Rightarrow> r"
  shows "key (item r') = key (item r)" "owner (item r') = owner (item r)" "aux r' = aux r" "owner (item r) \<noteq> s \<Longrightarrow> r' = r"
proof -
  have "key (item r') = key (item r) \<and> aux r' = aux r"
  proof (cases "List.find (\<lambda>x. key x = key (item r)) xs")
    case (Some x)
    have "key x = key (item r)" using find_Some_iff_mem [OF Some] ..
    then show ?thesis by (simp add: r'_def Some aux)
  qed (simp add: r'_def)
  then show "key (item r') = key (item r)" "aux r' = aux r" by simp_all
  show "owner (item r') = owner (item r)"
  proof (cases "List.find (\<lambda>x. key x = key (item r)) xs")
    case (Some x)
    have x: "x \<in> set xs" "key x = key (item r)" using find_Some_iff_mem [OF Some] by blast+
    from imageI [OF x(1), of key] have "key (item r) \<in> key ` set xs" by (simp only: x(2))
    then show ?thesis using assms(2,3) x(1) by (simp add: r'_def Some)
  qed (simp add: r'_def)
  assume "owner (item r) \<noteq> s"
  then have "List.find (\<lambda>x. key x = key (item r)) xs = None" using assms(3) by (simp add: find_key_None_iff)
  then show "r' = r" by (simp add: r'_def)
qed

lemma stored_keys:
  assumes "distinct (map key xs)" "\<forall>x \<in> set xs. owner x = s"
    and "\<forall>r \<in> set rows. owner (item r) = s \<longleftrightarrow> key (item r) \<in> key ` set xs" and "\<And>x r. aux (put x r) = aux r"
  shows "map (\<lambda>r. (key (item r), owner (item r), aux r)) (foldl store rows xs)
    = map (\<lambda>r. (key (item r), owner (item r), aux r)) rows
      @ map (\<lambda>x. (key x, s, aux (fresh x))) (filter (\<lambda>x. key x \<notin> keys rows) xs)"
  unfolding fold_store [OF assms(1)] map_append map_map comp_def
proof (rule arg_cong2 [of _ _ _ _ append]; rule map_cong [OF refl])
  fix r assume "r \<in> set rows"
  with assms(3) have o: "owner (item r) = s \<longleftrightarrow> key (item r) \<in> key ` set xs" by blast
  show "(key (item (case List.find (\<lambda>x. key x = key (item r)) xs of Some x \<Rightarrow> put x r | None \<Rightarrow> r)),
        owner (item (case List.find (\<lambda>x. key x = key (item r)) xs of Some x \<Rightarrow> put x r | None \<Rightarrow> r)),
        aux (case List.find (\<lambda>x. key x = key (item r)) xs of Some x \<Rightarrow> put x r | None \<Rightarrow> r))
      = (key (item r), owner (item r), aux r)"
    using stored_put(1-3) [OF assms(1,2) o, of aux, OF assms(4)] by simp
next
  fix x assume "x \<in> set (filter (\<lambda>x. key x \<notin> keys rows) xs)"
  then show "(key (item (fresh x)), owner (item (fresh x)), aux (fresh x)) = (key x, s, aux (fresh x))" using assms(2) by simp
qed

lemma stored_others:
  assumes "distinct (map key xs)" "\<forall>x \<in> set xs. owner x = s"
    and "\<forall>r \<in> set rows. owner (item r) = s \<longleftrightarrow> key (item r) \<in> key ` set xs"
  shows "filter (\<lambda>r. owner (item r) \<noteq> s) (foldl store rows xs) = filter (\<lambda>r. owner (item r) \<noteq> s) rows"
proof -
  let ?f = "\<lambda>r. case List.find (\<lambda>x. key x = key (item r)) xs of Some x \<Rightarrow> put x r | None \<Rightarrow> r"
  have f: "owner (item (?f r)) = owner (item r)" "owner (item r) \<noteq> s \<Longrightarrow> ?f r = r" if "r \<in> set rows" for r
    using stored_put [OF assms(1,2), of r "\<lambda>_. ()"] assms(3) that by simp_all
  have "filter (\<lambda>r. owner (item r) \<noteq> s) (map ?f rows) = map ?f (filter (\<lambda>r. owner (item r) \<noteq> s) rows)"
    unfolding filter_map comp_def by (rule arg_cong [of _ _ "map ?f"], rule filter_cong) (simp_all add: f)
  also have "\<dots> = filter (\<lambda>r. owner (item r) \<noteq> s) rows" by (rule map_idI) (simp add: f)
  finally show ?thesis using assms(2) unfolding fold_store [OF assms(1)] by (simp add: filter_empty_conv)
qed

end

end
