(* ===== verification/Store_Histories.thy ===== *)
theory Store_Histories
  imports Store_Receipts "HOL-Library.Multiset"
begin

text \<open>
  The histories the store keeps: the rows of a history are numbered without gaps, so that loading yields
  the operations in order, a commit drops the redo tail and appends, and a move changes only the cursor.
  The receipts of a session are numbered without gaps up to its durable sequence.
\<close>

section \<open>Rows numbered without gaps\<close>

definition gapless :: "('r \<Rightarrow> int) \<Rightarrow> 'r list \<Rightarrow> bool" where
  "gapless index rows \<longleftrightarrow> map index (sort_key index rows) = map int [0..<length rows]"

lemma gapless_mset: "gapless index rows \<Longrightarrow> mset (map index rows) = mset (map int [0..<length rows])"
  unfolding gapless_def by (metis mset_map mset_sort)

lemma gapless_set: "gapless index rows \<Longrightarrow> index ` set rows = int ` {..<length rows}"
  by (metis gapless_mset list.set_map mset_eq_setD atLeast_upt)

lemma gapless_distinct: "gapless index rows \<Longrightarrow> distinct (map index rows)"
  by (metis gapless_mset distinct_map distinct_upt inj_on_of_nat mset_eq_imp_distinct_iff)

lemma gapless_Nil [simp]: "gapless index []"
  by (simp add: gapless_def)

lemma sorted_ints [simp]: "sorted (map int [a..<b])"
  by (induction b) (auto simp: sorted_append)

lemma gapless_append:
  assumes "gapless index rows" "index r = int (length rows)"
  shows "sort_key index (rows @ [r]) = sort_key index rows @ [r]" "gapless index (rows @ [r])"
proof -
  have n: "map index (sort_key index rows @ [r]) = map int [0..<length (rows @ [r])]"
    using assms by (simp add: gapless_def)
  have "inj_on index (set (rows @ [r]))"
    using gapless_distinct [OF assms(1)] gapless_set [OF assms(1)] assms(2) by (force simp: distinct_map)
  then show s: "sort_key index (rows @ [r]) = sort_key index rows @ [r]"
    by (intro sort_key_inj_key_eq) (simp, simp, simp only: n sorted_ints)
  show "gapless index (rows @ [r])" unfolding gapless_def s by (fact n)
qed

lemma filter_numbered: "map f ys = map int [k..<k + length ys] \<Longrightarrow> filter (\<lambda>y. f y < int (k + c)) ys = take c ys"
proof (induction ys arbitrary: k c)
  case (Cons y ys)
  from Cons.prems have y: "f y = int k" and "map f ys = map int [Suc k..<Suc k + length ys]" by (simp_all add: upt_conv_Cons del: upt_Suc)
  note IH = Cons.IH [OF this(2)]
  show ?case
  proof (cases c)
    case 0
    have "filter (\<lambda>y. f y < int k) ys = []" using IH [of 0] by (auto simp: filter_empty_conv)
    then show ?thesis using 0 y by simp
  next
    case (Suc c')
    then show ?thesis using y IH [of c'] by simp
  qed
qed simp

lemma gapless_below:
  assumes "gapless index rows" "c \<le> length rows"
  shows "sort_key index (filter (\<lambda>r. index r < int c) rows) = take c (sort_key index rows)"
    "length (filter (\<lambda>r. index r < int c) rows) = c" "gapless index (filter (\<lambda>r. index r < int c) rows)"
proof -
  have "filter (\<lambda>r. index r < int (0 + c)) (sort_key index rows) = take c (sort_key index rows)"
    by (rule filter_numbered) (use assms(1) in \<open>simp add: gapless_def\<close>)
  then show s: "sort_key index (filter (\<lambda>r. index r < int c) rows) = take c (sort_key index rows)"
    by (simp add: filter_sort)
  show l: "length (filter (\<lambda>r. index r < int c) rows) = c"
    using arg_cong [OF s, of length] assms(2) by simp
  show "gapless index (filter (\<lambda>r. index r < int c) rows)"
    unfolding gapless_def s l take_map [symmetric] assms(1) [unfolded gapless_def] using assms(2) by (simp add: take_map)
qed

lemma drop_numbered: "map f ys = map int [k..<k + length ys] \<Longrightarrow> filter (\<lambda>y. \<not> f y < int (k + c)) ys = drop c ys"
proof (induction ys arbitrary: k c)
  case (Cons y ys)
  from Cons.prems have y: "f y = int k" and "map f ys = map int [Suc k..<Suc k + length ys]"
    by (simp_all add: upt_conv_Cons del: upt_Suc)
  note IH = Cons.IH [OF this(2)]
  show ?case
  proof (cases c)
    case 0
    then show ?thesis using y filter_numbered [OF Cons.prems, of 0] IH [of 0]
      by (auto simp: filter_empty_conv intro!: filter_True)
  next
    case (Suc c')
    then show ?thesis using y IH [of c'] by simp
  qed
qed simp

lemma gapless_from:
  assumes "gapless index rows"
  shows "sort_key index (filter (\<lambda>r. index r \<ge> int c) rows) = drop c (sort_key index rows)"
  using drop_numbered [of index "sort_key index rows" 0 c] assms by (simp add: gapless_def filter_sort not_less)

lemma gapless_nth:
  assumes "gapless index rows" "n < length rows"
  shows "index (sort_key index rows ! n) = int n"
  using arg_cong [OF assms(1) [unfolded gapless_def], of "\<lambda>xs. xs ! n"] assms(2) by simp

lemma gapless_find:
  assumes "gapless index rows"
  shows "List.find (\<lambda>r. index r = int n) rows = (if n < length rows then Some (sort_key index rows ! n) else None)"
proof (cases "n < length rows")
  case True
  have m: "sort_key index rows ! n \<in> set rows" using True by (metis length_sort nth_mem set_sort)
  have "r = sort_key index rows ! n" if "r \<in> set rows" "index r = int n" for r
    using gapless_distinct [OF assms] that m gapless_nth [OF assms True]
    by (metis distinct_map inj_onD)
  then have unique: "r = sort_key index rows ! n" if "r \<in> set rows \<and> index r = int n" for r using that by blast
  have "List.find (\<lambda>r. index r = int n) rows \<noteq> None"
    unfolding find_None_iff using m gapless_nth [OF assms True] by blast
  then obtain r where r: "List.find (\<lambda>r. index r = int n) rows = Some r" by blast
  have "r = sort_key index rows ! n" by (rule unique) (rule find_Some_iff_mem [OF r])
  with True r show ?thesis by simp
next
  case False
  then show ?thesis using gapless_set [OF assms] by (force simp: find_None_iff)
qed

lemma gapless_find_neg: "gapless index rows \<Longrightarrow> k < 0 \<Longrightarrow> List.find (\<lambda>r. index r = k) rows = None"
  using gapless_set [of index rows] by (force simp: find_None_iff)

lemma enumerate_numbered:
  "map f ys = map int [k..<k + length ys] \<Longrightarrow> (i, y) \<in> set (enumerate k ys) \<Longrightarrow> f y = int i"
  by (auto simp: in_set_enumerate_eq dest!: arg_cong [of _ _ "\<lambda>xs. xs ! (i - k)"])

section \<open>The histories of a database\<close>

definition history_of :: "database \<Rightarrow> session_id \<Rightarrow> board_operation list" where
  "history_of db sid = map ow_payload (sort_key ow_index (operation_rows db sid))"

definition revisions_of :: "database \<Rightarrow> thought_id \<Rightarrow> thought_revision list" where
  "revisions_of db i = map vw_payload (sort_key vw_index (revision_rows db i))"

definition operation_row_ok :: "operation_row \<Rightarrow> bool" where
  "operation_row_ok w \<longleftrightarrow> op_id (ow_payload w) = ow_id w \<and> op_session_id (ow_payload w) = ow_session_id w
     \<and> uint (op_sequence (ow_payload w)) = ow_sequence w \<and> operation_validate_annotations (ow_payload w) = Inr ()"

definition revision_row_ok :: "revision_row \<Rightarrow> bool" where
  "revision_row_ok w \<longleftrightarrow> rev_id (vw_payload w) = vw_id w \<and> rev_thought_id (vw_payload w) = vw_thought_id w
     \<and> rev_session_id (vw_payload w) = vw_session_id w \<and> uint (rev_sequence (vw_payload w)) = vw_sequence w
     \<and> revision_validate_annotations (vw_payload w) = Inr ()"

definition within :: "int \<Rightarrow> nat \<Rightarrow> bool" where
  "within cursor n \<longleftrightarrow> 0 \<le> cursor \<and> cursor \<le> int n"

text \<open>The structural history of a session and its receipts.\<close>

definition session_ok :: "operation_row list \<Rightarrow> receipt_row list \<Rightarrow> session_id \<Rightarrow> int \<Rightarrow> operation_sequence \<Rightarrow> bool" where
  "session_ok operations receipts sid cursor durable \<longleftrightarrow>
     gapless ow_index (filter (\<lambda>w. ow_session_id w = sid) operations)
     \<and> within cursor (length (filter (\<lambda>w. ow_session_id w = sid) operations))
     \<and> gapless (\<lambda>k. kw_sequence k - 1) (filter (\<lambda>k. kw_session_id k = sid) receipts)
     \<and> length (filter (\<lambda>k. kw_session_id k = sid) receipts) = unat durable \<and> uint durable \<le> i64_top"

text \<open>The editor history of a thought, and the foreign key of revisions.\<close>

definition editor_key :: "thought_row \<Rightarrow> thought_id \<times> session_id \<times> int" where
  "editor_key r = (t_id (tw_thought r), t_session_id (tw_thought r), tw_cursor r)"

fun editor_ok :: "revision_row list \<Rightarrow> thought_id \<times> session_id \<times> int \<Rightarrow> bool" where
  "editor_ok revisions (i, sid, cursor) \<longleftrightarrow>
     gapless vw_index (filter (\<lambda>w. vw_thought_id w = i) revisions)
     \<and> within cursor (length (filter (\<lambda>w. vw_thought_id w = i) revisions))
     \<and> (\<forall>w \<in> set revisions. vw_thought_id w = i \<longrightarrow> vw_session_id w = sid)"

definition editors_ok :: "(thought_id \<times> session_id \<times> int) list \<Rightarrow> revision_row list \<Rightarrow> bool" where
  "editors_ok keys revisions \<longleftrightarrow> distinct (map fst keys) \<and> (\<forall>k \<in> set keys. editor_ok revisions k)
     \<and> (\<forall>w \<in> set revisions. vw_thought_id w \<in> fst ` set keys)"

definition store_inv :: "database \<Rightarrow> bool" where
  "store_inv db \<longleftrightarrow>
     distinct (map (\<lambda>r. ses_id (sr_session r)) (db_sessions db))
     \<and> distinct (map (\<lambda>r. sep_id (sw_separator r)) (db_separators db))
     \<and> (\<forall>r \<in> set (db_sessions db). session_ok (db_operations db) (db_receipts db) (ses_id (sr_session r)) (sr_cursor r)
          (last_durable_sequence (sr_session r)))
     \<and> (\<forall>k \<in> set (db_receipts db). kw_session_id k \<in> (\<lambda>r. ses_id (sr_session r)) ` set (db_sessions db))
     \<and> (\<forall>w \<in> set (db_operations db). operation_row_ok w \<and> ow_session_id w \<in> (\<lambda>r. ses_id (sr_session r)) ` set (db_sessions db))
     \<and> editors_ok (map editor_key (db_thoughts db)) (db_revisions db)
     \<and> (\<forall>w \<in> set (db_revisions db). revision_row_ok w)"

section \<open>Loading the histories\<close>

lemma try_map_all: "(\<And>x. x \<in> set xs \<Longrightarrow> f x = Inr (g x)) \<Longrightarrow> try_map f xs = Inr (map g xs)"
  by (induction xs) simp_all

lemma load_operation_rows:
  assumes "\<And>k w. (k, w) \<in> set xs \<Longrightarrow> ow_index w = int k \<and> operation_row_ok w \<and> ow_session_id w = sid"
  shows "try_map (load_operation_row sid) xs = Inr (map (ow_payload \<circ> snd) xs)"
  using assms
proof (induction xs)
  case (Cons x xs)
  obtain k w where x: "x = (k, w)" by force
  with Cons.prems have w: "ow_index w = int k" "operation_row_ok w" "ow_session_id w = sid" by auto
  then have "sequence_from_i64 (ow_sequence w) = Inr (op_sequence (ow_payload w))"
    by (metis operation_row_ok_def sequence_from_i64_uint)
  with w have "load_operation_row sid x = Inr (ow_payload w)"
    by (simp add: x load_operation_row_def i64_to_usize_def operation_row_ok_def)
  moreover have "try_map (load_operation_row sid) xs = Inr (map (ow_payload \<circ> snd) xs)"
    by (rule Cons.IH) (use Cons.prems in auto)
  ultimately show ?case by (simp add: x)
qed simp

lemma load_board_operations_ok:
  assumes "store_inv db" "r \<in> set (db_sessions db)" "ses_id (sr_session r) = sid"
  shows "load_board_operations db sid = Inr (history_of db sid)"
proof -
  have g: "gapless ow_index (operation_rows db sid)"
    using assms unfolding store_inv_def session_ok_def operation_rows_def by blast
  have ok: "operation_row_ok w \<and> ow_session_id w = sid" if "w \<in> set (operation_rows db sid)" for w
    using assms(1) that by (auto simp: store_inv_def operation_rows_def)
  have "load_board_operations db sid = Inr (map (ow_payload \<circ> snd) (enumerate 0 (sort_key ow_index (operation_rows db sid))))"
    unfolding load_board_operations_def
  proof (rule load_operation_rows)
    fix k w assume m: "(k, w) \<in> set (enumerate 0 (sort_key ow_index (operation_rows db sid)))"
    then have "k < length (operation_rows db sid)" "sort_key ow_index (operation_rows db sid) ! k = w"
      by (simp_all add: in_set_enumerate_eq)
    then have "w \<in> set (operation_rows db sid)" by (metis length_sort nth_mem set_sort)
    moreover have "ow_index w = int k"
      by (rule enumerate_numbered [OF _ m]) (use g in \<open>simp add: gapless_def\<close>)
    ultimately show "ow_index w = int k \<and> operation_row_ok w \<and> ow_session_id w = sid" using ok by blast
  qed
  also have "map (ow_payload \<circ> snd) (enumerate 0 (sort_key ow_index (operation_rows db sid))) = history_of db sid"
    by (metis history_of_def list.map_comp map_snd_enumerate)
  finally show ?thesis .
qed

lemma load_revision_fold:
  assumes "\<forall>w \<in> set L. revision_row_ok w \<and> vw_session_id w = sid"
    and "\<forall>i. map vw_index (filter (\<lambda>w. vw_thought_id w = i) L)
      = map int [n i..<n i + length (filter (\<lambda>w. vw_thought_id w = i) L)]"
  shows "try_fold (load_revision_row sid) (n, rs) L
    = Inr (\<lambda>i. n i + length (filter (\<lambda>w. vw_thought_id w = i) L), rs @ map vw_payload L)"
  using assms
proof (induction L arbitrary: n rs)
  case (Cons w L)
  let ?i = "vw_thought_id w"
  from Cons.prems(2) have "vw_index w # map vw_index (filter (\<lambda>w. vw_thought_id w = ?i) L)
      = map int [n ?i..<n ?i + Suc (length (filter (\<lambda>w. vw_thought_id w = ?i) L))]"
    using spec [where x = ?i, OF Cons.prems(2)] by (simp del: upt_Suc)
  then have w: "vw_index w = int (n ?i)" and tl: "map vw_index (filter (\<lambda>w. vw_thought_id w = ?i) L)
      = map int [Suc (n ?i)..<Suc (n ?i) + length (filter (\<lambda>w. vw_thought_id w = ?i) L)]"
    by (simp_all add: upt_conv_Cons del: upt_Suc)
  have "sequence_from_i64 (vw_sequence w) = Inr (rev_sequence (vw_payload w))"
    using Cons.prems(1) by (metis list.set_intros(1) revision_row_ok_def sequence_from_i64_uint)
  then have step: "load_revision_row sid (n, rs) w = Inr (n(?i := n ?i + 1), rs @ [vw_payload w])"
    using Cons.prems(1) w by (simp add: load_revision_row_def i64_to_usize_def revision_row_ok_def)
  have "\<forall>i. map vw_index (filter (\<lambda>w. vw_thought_id w = i) L)
      = map int [(n(?i := n ?i + 1)) i..<(n(?i := n ?i + 1)) i + length (filter (\<lambda>w. vw_thought_id w = i) L)]"
    using Cons.prems(2) tl by (auto split: if_splits)
  from Cons.IH [OF _ this, of "rs @ [vw_payload w]"] Cons.prems(1)
  have "try_fold (load_revision_row sid) (n(?i := n ?i + 1), rs @ [vw_payload w]) L
      = Inr (\<lambda>i. (n(?i := n ?i + 1)) i + length (filter (\<lambda>w. vw_thought_id w = i) L), (rs @ [vw_payload w]) @ map vw_payload L)"
    by (simp del: fun_upd_apply)
  then show ?case using step by (auto simp: fun_eq_iff)
qed simp

lemma sort_key_constant:
  assumes "\<And>x y. x \<in> set xs \<Longrightarrow> y \<in> set xs \<Longrightarrow> f x = f y"
  shows "sort_key f xs = xs"
proof (rule sort_key_id_if_sorted)
  have "f (xs ! i) \<le> f (xs ! j)" if "i \<le> j" "j < length xs" for i j
    using assms [of "xs ! i" "xs ! j"] that by simp
  then show "sorted (map f xs)" by (simp add: sorted_iff_nth_mono)
qed

definition session_revisions :: "database \<Rightarrow> session_id \<Rightarrow> revision_row list" where
  "session_revisions db sid = sort_key (\<lambda>r. thought_bytes (vw_thought_id r)) (sort_key vw_index
     (filter (\<lambda>r. vw_session_id r = sid) (db_revisions db)))"

lemma session_revisions_of:
  assumes "editors_ok (map editor_key (db_thoughts db)) (db_revisions db)"
  shows "filter (\<lambda>w. vw_thought_id w = i) (session_revisions db sid)
    = (if \<exists>w \<in> set (db_revisions db). vw_thought_id w = i \<and> vw_session_id w = sid then sort_key vw_index (revision_rows db i) else [])"
proof -
  have same: "vw_session_id v = vw_session_id w" if v: "v \<in> set (db_revisions db)" "w \<in> set (db_revisions db)"
    "vw_thought_id v = vw_thought_id w" for v w
  proof -
    have "vw_thought_id v \<in> fst ` set (map editor_key (db_thoughts db))" using assms v(1) unfolding editors_ok_def by blast
    then obtain k where k: "k \<in> set (map editor_key (db_thoughts db))" "fst k = vw_thought_id v" by (metis imageE)
    obtain i sid c where [simp]: "k = (i, sid, c)" by (metis prod_cases3)
    have "editor_ok (db_revisions db) k" using assms k(1) unfolding editors_ok_def by blast
    then show ?thesis using k(2) v by simp
  qed
  have "filter (\<lambda>w. vw_thought_id w = i) (session_revisions db sid)
      = sort_key (\<lambda>r. thought_bytes (vw_thought_id r)) (sort_key vw_index
          (filter (\<lambda>r. vw_session_id r = sid \<and> vw_thought_id r = i) (db_revisions db)))"
    by (simp add: session_revisions_def filter_sort conj_commute)
  also have "\<dots> = sort_key vw_index (filter (\<lambda>r. vw_session_id r = sid \<and> vw_thought_id r = i) (db_revisions db))"
    by (rule sort_key_constant) auto
  also have "filter (\<lambda>r. vw_session_id r = sid \<and> vw_thought_id r = i) (db_revisions db)
      = (if \<exists>w \<in> set (db_revisions db). vw_thought_id w = i \<and> vw_session_id w = sid then revision_rows db i else [])"
  proof (cases "\<exists>w \<in> set (db_revisions db). vw_thought_id w = i \<and> vw_session_id w = sid")
    case True
    then obtain w where w: "w \<in> set (db_revisions db)" "vw_thought_id w = i" "vw_session_id w = sid" by blast
    have "filter (\<lambda>r. vw_session_id r = sid \<and> vw_thought_id r = i) (db_revisions db) = revision_rows db i"
      unfolding revision_rows_def
    proof (rule filter_cong [OF refl])
      fix v assume "v \<in> set (db_revisions db)"
      from same [OF this w(1)] w(2,3) show "(vw_session_id v = sid \<and> vw_thought_id v = i) = (vw_thought_id v = i)" by metis
    qed
    with True show ?thesis by simp
  next
    case False
    then show ?thesis by (auto simp: filter_empty_conv)
  qed
  finally show ?thesis unfolding if_distrib [of "sort_key vw_index"] sort_key_simps .
qed

lemma editor_ok_gapless:
  assumes "editors_ok (map editor_key (db_thoughts db)) (db_revisions db)"
  shows "gapless vw_index (revision_rows db i)"
proof (cases "revision_rows db i = []")
  case False
  then obtain w where "w \<in> set (db_revisions db)" "vw_thought_id w = i" by (auto simp: revision_rows_def filter_empty_conv)
  then obtain r where r: "r \<in> set (db_thoughts db)" "t_id (tw_thought r) = i"
    using assms by (force simp: editors_ok_def editor_key_def)
  then have "editor_ok (db_revisions db) (editor_key r)" using assms by (simp add: editors_ok_def)
  with r(2) show ?thesis by (simp add: editor_key_def revision_rows_def)
qed simp

lemma load_revisions_ok:
  assumes "store_inv db"
  shows "load_revisions db sid = Inr (map vw_payload (session_revisions db sid))"
proof -
  have e: "editors_ok (map editor_key (db_thoughts db)) (db_revisions db)" using assms by (simp add: store_inv_def)
  have "\<forall>w \<in> set (session_revisions db sid). revision_row_ok w \<and> vw_session_id w = sid"
    using assms by (auto simp: session_revisions_def store_inv_def)
  moreover have "\<forall>i. map vw_index (filter (\<lambda>w. vw_thought_id w = i) (session_revisions db sid))
      = map int [0..<0 + length (filter (\<lambda>w. vw_thought_id w = i) (session_revisions db sid))]"
    using editor_ok_gapless [OF e] by (simp add: session_revisions_of [OF e] gapless_def)
  ultimately show ?thesis
    using load_revision_fold [of "session_revisions db sid" sid "\<lambda>_. 0" "[]"]
    by (simp add: load_revisions_def session_revisions_def [symmetric])
qed

lemma load_editor_cursors_ok:
  assumes "store_inv db"
  shows "load_editor_cursors db sid
    = Inr (map (\<lambda>r. (t_id (tw_thought r), nat (tw_cursor r))) (sort_key (\<lambda>r. thought_bytes (t_id (tw_thought r))) (thought_rows db sid)))"
  unfolding load_editor_cursors_def
proof (rule try_map_all)
  fix r assume "r \<in> set (sort_key (\<lambda>r. thought_bytes (t_id (tw_thought r))) (thought_rows db sid))"
  then have "editor_ok (db_revisions db) (editor_key r)" using assms by (auto simp: store_inv_def editors_ok_def thought_rows_def)
  then show "try_bind (i64_to_usize (tw_cursor r)) (\<lambda>cursor. Inr (t_id (tw_thought r), cursor)) = Inr (t_id (tw_thought r), nat (tw_cursor r))"
    by (simp add: editor_key_def within_def i64_to_usize_def)
qed

lemma receipts_numbered:
  assumes "gapless (\<lambda>k. kw_sequence k - 1) rows" "length rows = n"
  shows "set (map kw_sequence rows) = {1..int n}"
proof -
  have "kw_sequence ` set rows = (\<lambda>v. v + 1) ` ((\<lambda>k. kw_sequence k - 1) ` set rows)" by (simp add: image_image)
  also have "\<dots> = (\<lambda>v. v + 1) ` int ` {..<n}" using gapless_set [OF assms(1)] assms(2) by simp
  also have "\<dots> = {1..int n}"
  proof (intro equalityI subsetI)
    fix v assume "v \<in> {1..int n}"
    then show "v \<in> (\<lambda>v. v + 1) ` int ` {..<n}" by (intro image_eqI [of _ _ "v - 1"] image_eqI [of _ _ "nat (v - 1)"]) auto
  qed auto
  finally show ?thesis by simp
qed

lemma validate_commit_sequence_ok:
  assumes "session_ok operations (db_receipts db) sid cursor durable"
  shows "validate_commit_sequence db sid durable = Inr ()"
proof -
  let ?rows = "filter (\<lambda>k. kw_session_id k = sid) (db_receipts db)"
  have n: "set (map kw_sequence ?rows) = {1..uint durable}" "int (length ?rows) = uint durable" "uint durable \<le> i64_top"
    using receipts_numbered [of ?rows "unat durable"] assms by (simp_all add: session_ok_def)
  show ?thesis
  proof (cases "uint durable = 0")
    case True
    then have "?rows = []" using n(2) by simp
    then show ?thesis using True n(3) by (simp add: validate_commit_sequence_def sequence_to_i64_def)
  next
    case False
    then have "1 \<le> uint durable" using uint_ge_0 [of durable] by linarith
    then have "length ?rows \<noteq> 0" using n(2) by linarith
    then have "?rows \<noteq> []" by (simp only: length_0_conv not_False_eq_True)
    from \<open>1 \<le> uint durable\<close> have "Min {1..uint durable} = 1" "Max {1..uint durable} = uint durable" "{1..uint durable} \<noteq> {}"
      by (auto intro: Min_eqI Max_eqI)
    then have "Min (set (map kw_sequence ?rows)) = 1" "Max (set (map kw_sequence ?rows)) = uint durable" "map kw_sequence ?rows \<noteq> []"
      unfolding n(1) using \<open>?rows \<noteq> []\<close> by simp_all
    then show ?thesis using False n(2,3) by (simp add: validate_commit_sequence_def sequence_to_i64_def Let_def)
  qed
qed

text \<open>What a loaded snapshot says of the histories.\<close>

definition shows_histories :: "database \<Rightarrow> session_id \<Rightarrow> session_row \<Rightarrow> session_snapshot \<Rightarrow> bool" where
  "shows_histories db sid r sn \<longleftrightarrow>
     sn_board_operations sn = history_of db sid \<and> int (sn_board_history_cursor sn) = sr_cursor r
     \<and> (\<forall>t \<in> set (thought_rows db sid). let i = t_id (tw_thought t) in
          filter (\<lambda>v. rev_thought_id v = i) (sn_revisions sn) = revisions_of db i
          \<and> map_of (sn_editor_history_cursors sn) i = Some (nat (tw_cursor t)))"

lemma session_revisions_rows:
  assumes "store_inv db" "t \<in> set (thought_rows db sid)"
  shows "filter (\<lambda>v. rev_thought_id v = t_id (tw_thought t)) (map vw_payload (session_revisions db sid)) = revisions_of db (t_id (tw_thought t))"
proof -
  let ?i = "t_id (tw_thought t)"
  have e: "editors_ok (map editor_key (db_thoughts db)) (db_revisions db)" using assms(1) by (simp add: store_inv_def)
  have t: "t \<in> set (db_thoughts db)" "t_session_id (tw_thought t) = sid" using assms(2) by (simp_all add: thought_rows_def)
  have own: "vw_session_id w = sid" if "w \<in> set (db_revisions db)" "vw_thought_id w = ?i" for w
  proof -
    have "editor_ok (db_revisions db) (editor_key t)" using e t(1) by (simp add: editors_ok_def)
    with that t(2) show ?thesis by (simp add: editor_key_def)
  qed
  have p: "rev_thought_id (vw_payload w) = vw_thought_id w" if "w \<in> set (session_revisions db sid)" for w
    using assms(1) that by (auto simp: store_inv_def session_revisions_def revision_row_ok_def)
  have "filter (\<lambda>v. rev_thought_id v = ?i) (map vw_payload (session_revisions db sid))
      = map vw_payload (filter (\<lambda>w. vw_thought_id w = ?i) (session_revisions db sid))"
    unfolding filter_map by (rule arg_cong [of _ _ "map vw_payload"], rule filter_cong) (simp_all add: p)
  also have "filter (\<lambda>w. vw_thought_id w = ?i) (session_revisions db sid) = sort_key vw_index (revision_rows db ?i)"
  proof (cases "\<exists>w \<in> set (db_revisions db). vw_thought_id w = ?i \<and> vw_session_id w = sid")
    case True
    then show ?thesis unfolding session_revisions_of [OF e] by (rule if_P)
  next
    case False
    then have "revision_rows db ?i = []" using own by (auto simp: revision_rows_def filter_empty_conv)
    then show ?thesis unfolding session_revisions_of [OF e] using False by simp
  qed
  finally show ?thesis by (simp add: revisions_of_def)
qed

lemma load_snapshot_histories:
  assumes inv: "store_inv db" and row: "session_row_of db sid = Some r" and board: "load_board db sid = Inr b"
    and seen: "try_fold observe_operation (b_counters b) (history_of db sid) = Inr (b_counters b)"
      "try_fold observe_revision (b_counters b) (map vw_payload (session_revisions db sid)) = Inr (b_counters b)"
  shows "\<exists>sn. load_snapshot db sid = Inr sn \<and> sn_board sn = b \<and> shows_histories db sid r sn"
proof -
  have r: "r \<in> set (db_sessions db)" "ses_id (sr_session r) = sid" using row by (auto simp: session_row_of_def dest: find_Some_iff_mem)
  have ok: "session_ok (db_operations db) (db_receipts db) sid (sr_cursor r) (last_durable_sequence (sr_session r))"
    using inv r by (auto simp: store_inv_def)
  then have c: "0 \<le> sr_cursor r" "nat (sr_cursor r) \<le> length (history_of db sid)"
    by (auto simp: session_ok_def within_def history_of_def operation_rows_def)
  have "load_session_record db sid = Inr (sr_session r)" by (simp add: load_session_record_def row)
  then have b: "b_session b = sr_session r"
    using board by (auto simp: load_board_def with_separators_def observe_attachments_def restore_attachment_counters_def split: if_splits)
  let ?revisions = "map vw_payload (session_revisions db sid)"
  let ?cursors = "map (\<lambda>r. (t_id (tw_thought r), nat (tw_cursor r))) (sort_key (\<lambda>r. thought_bytes (t_id (tw_thought r))) (thought_rows db sid))"
  have short: "\<not> list_ex (\<lambda>(i, cursor). cursor > length (filter (\<lambda>v. rev_thought_id v = i) ?revisions)) ?cursors"
  proof -
    have "nat (tw_cursor t) \<le> length (filter (\<lambda>v. rev_thought_id v = t_id (tw_thought t)) ?revisions)" if "t \<in> set (thought_rows db sid)" for t
    proof -
      have "editor_ok (db_revisions db) (editor_key t)" using inv that by (auto simp: store_inv_def editors_ok_def thought_rows_def)
      then show ?thesis unfolding session_revisions_rows [OF inv that] by (simp add: editor_key_def within_def revisions_of_def revision_rows_def nat_le_iff)
    qed
    then show ?thesis by (auto simp: list_ex_iff not_less)
  qed
  have "load_snapshot db sid = Inr \<lparr>sn_board = b, sn_board_operations = history_of db sid, sn_board_history_cursor = nat (sr_cursor r),
      sn_revisions = ?revisions, sn_editor_history_cursors = ?cursors, sn_integration_context = load_integration_context db sid\<rparr>"
    unfolding load_snapshot_def
    using c short by (simp add: board row load_board_operations_ok [OF inv r] load_revisions_ok [OF inv] seen load_editor_cursors_ok [OF inv]
        b validate_commit_sequence_ok [OF ok] i64_to_usize_def del: map_map length_map)
  moreover have "map_of ?cursors (t_id (tw_thought t)) = Some (nat (tw_cursor t))" if t: "t \<in> set (thought_rows db sid)" for t
  proof (rule map_of_is_SomeI)
    have "distinct (map fst (map editor_key (db_thoughts db)))" using inv by (simp add: store_inv_def editors_ok_def)
    then have "distinct (map (\<lambda>r. t_id (tw_thought r)) (db_thoughts db))" by (simp add: comp_def editor_key_def)
    then have "inj_on (\<lambda>r. t_id (tw_thought r)) (set (thought_rows db sid))" "distinct (thought_rows db sid)"
      by (auto simp: thought_rows_def distinct_map inj_on_def)
    then show "distinct (map fst ?cursors)" by (simp add: comp_def distinct_map)
  qed (use t in auto)
  ultimately show ?thesis using c(1) session_revisions_rows [OF inv] by (auto simp: shows_histories_def Let_def)
qed

end
