(* ===== verification/Store_Boards.thy ===== *)
theory Store_Boards
  imports Keyed_Rows Store_Histories
begin

text \<open>
  A board in the store: the rows of its session hold its items, loading them gives the board back up to
  the order of rows, and storing a valid board never runs into the unique index on live positions.
\<close>

section \<open>The tables of thoughts and separators\<close>

definition put_thought :: "thought \<Rightarrow> thought_row \<Rightarrow> thought_row" where
  "put_thought t r = r\<lparr>tw_thought := t, tw_position := uint (t_position t)\<rparr>"

definition fresh_thought :: "thought \<Rightarrow> thought_row" where
  "fresh_thought t = \<lparr>tw_thought = t, tw_position = uint (t_position t), tw_cursor = 0\<rparr>"

definition put_separator :: "separator \<Rightarrow> separator_row \<Rightarrow> separator_row" where
  "put_separator s r = \<lparr>sw_separator = s, sw_position = uint (sep_position s)\<rparr>"

definition fresh_separator :: "separator \<Rightarrow> separator_row" where
  "fresh_separator s = \<lparr>sw_separator = s, sw_position = uint (sep_position s)\<rparr>"

interpretation tt: keyed_rows tw_thought tw_position put_thought fresh_thought t_id t_session_id t_is_live "\<lambda>t. uint (t_position t)"
  by unfold_locales (simp_all add: put_thought_def fresh_thought_def)

interpretation st: keyed_rows sw_separator sw_position put_separator fresh_separator sep_id sep_session_id sep_is_live
    "\<lambda>s. uint (sep_position s)"
  by unfold_locales (simp_all add: put_separator_def fresh_separator_def)

abbreviation "store_thought \<equiv> upsert tw_thought put_thought fresh_thought t_id"

abbreviation "store_separator \<equiv> upsert sw_separator put_separator fresh_separator sep_id"

lemma persist_thought_store:
  "persist_thought db t = (if t_is_live t \<and> list_ex (\<lambda>r. t_id (tw_thought r) \<noteq> t_id t \<and> t_session_id (tw_thought r) = t_session_id t
       \<and> t_is_live (tw_thought r) \<and> tw_position r = uint (t_position t)) (db_thoughts db) then Inl StoreConflict
     else Inr (db\<lparr>db_thoughts := store_thought (db_thoughts db) t\<rparr>))"
proof -
  have "(case thought_row_of db (t_id t) of None \<Rightarrow> db\<lparr>db_thoughts := db_thoughts db @ [fresh_thought t]\<rparr>
      | Some _ \<Rightarrow> update_thought_row (t_id t) (put_thought t) db) = db\<lparr>db_thoughts := store_thought (db_thoughts db) t\<rparr>"
  proof (cases "thought_row_of db (t_id t)")
    case None
    then have "\<not> list_ex (\<lambda>r. t_id (tw_thought r) = t_id t) (db_thoughts db)"
      by (simp add: thought_row_of_def find_None_iff list_ex_iff)
    with None show ?thesis by (simp add: upsert_def)
  next
    case (Some r)
    then have "list_ex (\<lambda>r. t_id (tw_thought r) = t_id t) (db_thoughts db)"
      unfolding thought_row_of_def list_ex_iff using find_Some_iff_mem by fastforce
    with Some show ?thesis by (simp add: upsert_def update_thought_row_def)
  qed
  then show ?thesis unfolding persist_thought_def fresh_thought_def put_thought_def [abs_def] by simp
qed

lemma persist_separator_store:
  "persist_separator db s = (if sep_is_live s \<and> list_ex (\<lambda>r. sep_id (sw_separator r) \<noteq> sep_id s
       \<and> sep_session_id (sw_separator r) = sep_session_id s \<and> sep_is_live (sw_separator r) \<and> sw_position r = uint (sep_position s))
       (db_separators db) then Inl StoreConflict
     else Inr (db\<lparr>db_separators := store_separator (db_separators db) s\<rparr>))"
  unfolding persist_separator_def upsert_def put_separator_def [abs_def] fresh_separator_def by simp

section \<open>Rows that hold a board\<close>

definition row_thought :: "thought_row \<Rightarrow> thought" where
  "row_thought r = (tw_thought r)\<lparr>t_position := of_int (tw_position r)\<rparr>"

definition row_separator :: "separator_row \<Rightarrow> separator" where
  "row_separator r = (sw_separator r)\<lparr>sep_position := of_int (sw_position r)\<rparr>"

definition in_u32 :: "int \<Rightarrow> bool" where
  "in_u32 v \<longleftrightarrow> 0 \<le> v \<and> v \<le> 4294967295"

text \<open>High-water marks that cover every attachment of the board.\<close>

definition marks_ok :: "session_board \<Rightarrow> bool" where
  "marks_ok b \<longleftrightarrow> image_counter (b_counters b) \<le> i64_max \<and> file_counter (b_counters b) \<le> i64_max
     \<and> (\<exists>c. try_fold (\<lambda>c t. observe c (t_annotations t)) default_counters (b_thoughts b) = Inr c
          \<and> image_counter c \<le> image_counter (b_counters b) \<and> file_counter c \<le> file_counter (b_counters b))"

text \<open>The session row, the rows of its items and its high-water marks hold a valid board.\<close>

definition holds :: "database \<Rightarrow> session_board \<Rightarrow> bool" where
  "holds db b \<longleftrightarrow> validate b = Inr () \<and> marks_ok b
     \<and> (\<exists>r. session_row_of db (ses_id (b_session b)) = Some r \<and> session_validate (sr_session r) = Inr ()
          \<and> sr_image_high r = uint (image_counter (b_counters b)) \<and> sr_file_high r = uint (file_counter (b_counters b)))
     \<and> mset (map row_thought (thought_rows db (ses_id (b_session b)))) = mset (b_thoughts b)
     \<and> mset (map row_separator (separator_rows db (ses_id (b_session b)))) = mset (b_separators b)
     \<and> (\<forall>r \<in> set (thought_rows db (ses_id (b_session b))). in_u32 (tw_position r))
     \<and> (\<forall>r \<in> set (separator_rows db (ses_id (b_session b))). in_u32 (sw_position r))"

lemma load_thought_row_ok:
  assumes "t_ok (row_thought r)" "in_u32 (tw_position r)"
  shows "load_thought_row r = Inr (row_thought r)"
proof -
  have "validate_annotations (t_content (tw_thought r)) (t_annotations (tw_thought r)) = Inr ()"
    using assms(1) by (simp add: t_ok_def row_thought_def validate_annotations_iff)
  moreover have "(case t_name (tw_thought r) of None \<Rightarrow> Inr None | Some n \<Rightarrow> try_bind (new_thought_name (name_str n)) (\<lambda>n. Inr (Some n)))
      = Inr (t_name (tw_thought r))"
  proof (cases "t_name (tw_thought r)")
    case (Some n)
    then have "\<exists>m. new_thought_name (name_str n) = Inr m" using assms(1) by (simp add: t_ok_def row_thought_def)
    then have "new_thought_name (name_str n) = Inr n" by (cases n) (auto simp: new_thought_name_def split: if_splits)
    with Some show ?thesis by simp
  qed simp
  ultimately show ?thesis using assms(2) unfolding load_thought_row_def Let_def
    by (simp add: i64_to_u32_def in_u32_def row_thought_def del: validate_annotations_iff)
qed

lemma load_thoughts_ok:
  assumes "\<forall>r \<in> set (thought_rows db sid). t_ok (row_thought r) \<and> in_u32 (tw_position r)"
  shows "\<exists>ts. load_thoughts db sid = Inr ts \<and> mset ts = mset (map row_thought (thought_rows db sid))"
proof -
  let ?rows = "sort_key (\<lambda>r. live_first (t_is_live (tw_thought r))) (sort_key tw_position
      (sort_key (\<lambda>r. thought_bytes (t_id (tw_thought r))) (thought_rows db sid)))"
  have "load_thoughts db sid = Inr (map row_thought ?rows)"
    unfolding load_thoughts_def using assms by (intro try_map_all load_thought_row_ok) simp_all
  then show ?thesis by simp
qed

lemma load_separators_ok:
  assumes "\<forall>r \<in> set (separator_rows db sid). in_u32 (sw_position r)"
  shows "\<exists>ss. load_separators db sid = Inr ss \<and> mset ss = mset (map row_separator (separator_rows db sid))"
proof -
  let ?rows = "sort_key (\<lambda>r. live_first (sep_is_live (sw_separator r))) (sort_key sw_position
      (sort_key (\<lambda>r. separator_bytes (sep_id (sw_separator r))) (separator_rows db sid)))"
  have "load_separators db sid = Inr (map row_separator ?rows)"
    unfolding load_separators_def using assms
    by (intro try_map_all) (simp add: load_separator_row_def i64_to_u32_def in_u32_def row_separator_def)
  then show ?thesis by simp
qed

lemma i64_max_int: "img \<le> i64_max \<longleftrightarrow> uint img \<le> i64_top"
  by (simp add: word_le_def i64_max_def i64_top_def)

lemma holds_row: "holds db b \<Longrightarrow> session_row_of db (ses_id (b_session b)) = Some r \<Longrightarrow> ses_id (sr_session r) = ses_id (b_session b)"
  by (auto simp: session_row_of_def dest: find_Some_iff_mem)

lemma holds_load:
  assumes "holds db b"
  shows "\<exists>r c. session_row_of db (ses_id (b_session b)) = Some r \<and> load_board db (ses_id (b_session b)) = Inr c \<and> board_sim b c
    \<and> b_session c = sr_session r"
proof -
  let ?sid = "ses_id (b_session b)"
  note h = assms [unfolded holds_def]
  from h obtain r where r: "session_row_of db ?sid = Some r" "session_validate (sr_session r) = Inr ()"
      "sr_image_high r = uint (image_counter (b_counters b))" "sr_file_high r = uint (file_counter (b_counters b))" by blast
  from h have v: "validate b = Inr ()" "marks_ok b" by blast+
  then have b: "session_validate (b_session b) = Inr ()" "board_inv b" "\<forall>t \<in> set (b_thoughts b). t_ok t"
    by (auto simp: validate_iff)
  from h have mt: "mset (map row_thought (thought_rows db ?sid)) = mset (b_thoughts b)"
    and ms: "mset (map row_separator (separator_rows db ?sid)) = mset (b_separators b)" by blast+
  have "\<forall>r \<in> set (thought_rows db ?sid). t_ok (row_thought r) \<and> in_u32 (tw_position r)"
    using h b(3) mset_eq_setD [OF mt] by auto
  from load_thoughts_ok [OF this] obtain ts where ts: "load_thoughts db ?sid = Inr ts" "mset ts = mset (b_thoughts b)" using mt by auto
  from h load_separators_ok [of db ?sid] obtain ss where ss: "load_separators db ?sid = Inr ss" "mset ss = mset (b_separators b)"
    using ms by auto
  let ?B = "b\<lparr>b_counters := default_counters\<rparr>"
  let ?C = "\<lparr>b_session = sr_session r, b_thoughts = ts, b_separators = ss, b_counters = default_counters\<rparr>"
  have sim: "board_sim ?B ?C" using ts(2) ss(2) holds_row [OF assms r(1)] b(1) r(2) by (simp add: board_sim_def)
  from v(2) obtain k where k: "try_fold (\<lambda>c t. observe c (t_annotations t)) default_counters (b_thoughts b) = Inr k"
      "image_counter k \<le> image_counter (b_counters b)" "file_counter k \<le> file_counter (b_counters b)"
    and m: "image_counter (b_counters b) \<le> i64_max" "file_counter (b_counters b) \<le> i64_max" unfolding marks_ok_def by blast
  have "observe_attachments ?B = Inr (b\<lparr>b_counters := k\<rparr>)" by (simp add: observe_attachments_def k(1))
  with sim_observe [OF sim] obtain d where d: "observe_attachments ?C = Inr d" "board_sim (b\<lparr>b_counters := k\<rparr>) d"
    by (auto simp: sim_result_def)
  have "validate (b\<lparr>b_counters := k\<rparr>) = Inr ()" using v(1) by (simp add: validate_iff board_inv_def entries_def order_def live_items_def)
  then have "validate d = Inr ()" by (rule sim_validate [OF d(2)])
  then have w: "with_separators (sr_session r) ts ss = Inr d" using d(1) by (simp add: with_separators_def)
  have k2: "b_counters d = k" using d(2) by (simp add: board_sim_def)
  have "load_counters db ?sid = Inr (b_counters b)"
    using m by (simp add: load_counters_def r sequence_from_i64_uint new_counters_def not_less)
  then have "load_board db ?sid = Inr (d\<lparr>b_counters := b_counters b\<rparr>)"
    using k(2,3) by (simp add: load_board_def load_session_record_def r(1) ts(1) ss(1) w restore_attachment_counters_def k2 not_less)
  moreover have "board_sim b (d\<lparr>b_counters := b_counters b\<rparr>)" using d(2) by (simp add: board_sim_def)
  moreover have "b_session d = sr_session r" using d(1) by (auto simp: observe_attachments_def)
  ultimately show ?thesis using r(1) by auto
qed

section \<open>Storing a board\<close>

lemma live_positions_ok:
  assumes "board_inv b"
  shows "t \<in> set (b_thoughts b) \<Longrightarrow> t_is_live t \<Longrightarrow> uint (t_position t) < int (length (live_items b))"
    "s \<in> set (b_separators b) \<Longrightarrow> sep_is_live s \<Longrightarrow> uint (sep_position s) < int (length (live_items b))"
    "distinct (map (\<lambda>t. uint (t_position t)) (filter t_is_live (b_thoughts b)))"
    "distinct (map (\<lambda>s. uint (sep_position s)) (filter sep_is_live (b_separators b)))"
proof -
  let ?n = "length (live_items b)"
  let ?ps = "map (\<lambda>t. unat (t_position t)) (filter t_is_live (b_thoughts b)) @ map (\<lambda>s. unat (sep_position s)) (filter sep_is_live (b_separators b))"
  have r: "represents (entries b) (order b)" using assms by (simp add: board_inv_def)
  have "image_mset snd (entries b) = mset (map snd (zip (order b) [0..<length (order b)]))"
    using r by (simp only: represents_def mset_map)
  then have m: "mset ?ps = mset [0..<?n]"
    using represents_bound(2) [OF r] by (simp add: entries_mset image_mset.compositionality comp_def)
  then have s: "set ?ps = {..<?n}" by (metis atLeast_upt mset_eq_setD)
  then show "t \<in> set (b_thoughts b) \<Longrightarrow> t_is_live t \<Longrightarrow> uint (t_position t) < int ?n"
    "s \<in> set (b_separators b) \<Longrightarrow> sep_is_live s \<Longrightarrow> uint (sep_position s) < int ?n"
    unfolding uint_nat of_nat_less_iff by auto
  have d: "distinct ?ps" using m distinct_upt by (metis mset_eq_imp_distinct_iff)
  have i: "distinct (map int xs)" if "distinct xs" for xs using that by (simp add: distinct_map)
  show "distinct (map (\<lambda>t. uint (t_position t)) (filter t_is_live (b_thoughts b)))"
    "distinct (map (\<lambda>s. uint (sep_position s)) (filter sep_is_live (b_separators b)))"
    using i [of "map (\<lambda>t. unat (t_position t)) (filter t_is_live (b_thoughts b))"]
      i [of "map (\<lambda>s. unat (sep_position s)) (filter sep_is_live (b_separators b))"] d by (simp_all add: comp_def)
qed

text \<open>What storing a board expects of the database: identities are unique, every row of the session belongs
  to an item of the board and no row of another session does.\<close>

definition accepts :: "database \<Rightarrow> session_board \<Rightarrow> bool" where
  "accepts db b \<longleftrightarrow>
     (\<exists>r. session_row_of db (ses_id (b_session b)) = Some r \<and> session_validate (sr_session r) = Inr ()
        \<and> sr_image_high r \<le> uint (image_counter (b_counters b)) \<and> sr_file_high r \<le> uint (file_counter (b_counters b)))
     \<and> distinct (map (\<lambda>r. t_id (tw_thought r)) (db_thoughts db)) \<and> distinct (map (\<lambda>r. sep_id (sw_separator r)) (db_separators db))
     \<and> (\<forall>r \<in> set (db_thoughts db). t_session_id (tw_thought r) = ses_id (b_session b) \<longleftrightarrow> t_id (tw_thought r) \<in> t_id ` set (b_thoughts b))
     \<and> (\<forall>r \<in> set (db_separators db). sep_session_id (sw_separator r) = ses_id (b_session b)
          \<longleftrightarrow> sep_id (sw_separator r) \<in> sep_id ` set (b_separators b))
     \<and> (\<forall>r \<in> set (thought_rows db (ses_id (b_session b))). in_u32 (tw_position r))
     \<and> (\<forall>r \<in> set (separator_rows db (ses_id (b_session b))). in_u32 (sw_position r))"

lemma shift_ok:
  assumes "accepts db b" "board_inv b"
  shows "\<exists>offset > int (length (live_items b)). shift_existing_positions b db =
    Inr (db\<lparr>db_thoughts := map (\<lambda>r. if t_session_id (tw_thought r) = ses_id (b_session b) \<and> t_is_live (tw_thought r)
               then r\<lparr>tw_position := tw_position r + offset\<rparr> else r) (db_thoughts db),
             db_separators := map (\<lambda>r. if sep_session_id (sw_separator r) = ses_id (b_session b) \<and> sep_is_live (sw_separator r)
               then r\<lparr>sw_position := sw_position r + offset\<rparr> else r) (db_separators db)\<rparr>)"
proof -
  let ?sid = "ses_id (b_session b)"
  define maximum where "maximum = (if live_positions db ?sid = [] then 0 else Max (set (live_positions db ?sid)))"
  have "\<forall>v \<in> set (live_positions db ?sid). in_u32 v" using assms(1) by (auto simp: live_positions_def accepts_def)
  then have m: "0 \<le> maximum" "maximum \<le> 4294967295"
    unfolding maximum_def in_u32_def using Max_in [of "set (live_positions db ?sid)"] by (auto simp del: Max_in)
  have n: "int (length (live_items b)) \<le> 4294967296"
    using assms(2) represents_bound [of b "order b"] by (simp add: board_inv_def)
  have "shift_existing_positions b db = Inr (db\<lparr>db_thoughts := map (\<lambda>r. if t_session_id (tw_thought r) = ?sid \<and> t_is_live (tw_thought r)
               then r\<lparr>tw_position := tw_position r + (maximum + int (length (live_items b)) + 2)\<rparr> else r) (db_thoughts db),
             db_separators := map (\<lambda>r. if sep_session_id (sw_separator r) = ?sid \<and> sep_is_live (sw_separator r)
               then r\<lparr>sw_position := sw_position r + (maximum + int (length (live_items b)) + 2)\<rparr> else r) (db_separators db)\<rparr>)"
    unfolding shift_existing_positions_def Let_def maximum_def [symmetric] using m n
    by (simp add: usize_to_i64_def checked_add_i64_def i64_top_def)
  moreover have "maximum + int (length (live_items b)) + 2 > int (length (live_items b))" using m by simp
  ultimately show ?thesis by blast
qed

lemma holds_pairs:
  assumes "mset (map (\<lambda>r. (tw_thought r, tw_position r)) rows) = mset (map (\<lambda>t. (t, uint (t_position t))) ts)"
  shows "mset (map row_thought rows) = mset ts" "\<forall>r \<in> set rows. in_u32 (tw_position r)"
proof -
  show "mset (map row_thought rows) = mset ts"
    using arg_cong [OF assms, of "image_mset (\<lambda>(t, p). t\<lparr>t_position := of_int p\<rparr>)"]
    by (simp add: row_thought_def [abs_def] image_mset.compositionality comp_def)
  have e: "set (map (\<lambda>r. (tw_thought r, tw_position r)) rows) = set (map (\<lambda>t. (t, uint (t_position t))) ts)"
    by (rule mset_eq_setD [OF assms])
  show "\<forall>r \<in> set rows. in_u32 (tw_position r)"
  proof
    fix r assume "r \<in> set rows"
    then have "(tw_thought r, tw_position r) \<in> set (map (\<lambda>r. (tw_thought r, tw_position r)) rows)" by simp
    then have "tw_position r = uint (t_position (tw_thought r))" unfolding e by auto
    then show "in_u32 (tw_position r)" using uint_lt2p [of "t_position (tw_thought r)"] by (simp add: in_u32_def)
  qed
qed

lemma holds_separator_pairs:
  assumes "mset (map (\<lambda>r. (sw_separator r, sw_position r)) rows) = mset (map (\<lambda>t. (t, uint (sep_position t))) ts)"
  shows "mset (map row_separator rows) = mset ts" "\<forall>r \<in> set rows. in_u32 (sw_position r)"
proof -
  show "mset (map row_separator rows) = mset ts"
    using arg_cong [OF assms, of "image_mset (\<lambda>(t, p). t\<lparr>sep_position := of_int p\<rparr>)"]
    by (simp add: row_separator_def [abs_def] image_mset.compositionality comp_def)
  have e: "set (map (\<lambda>r. (sw_separator r, sw_position r)) rows) = set (map (\<lambda>t. (t, uint (sep_position t))) ts)"
    by (rule mset_eq_setD [OF assms])
  show "\<forall>r \<in> set rows. in_u32 (sw_position r)"
  proof
    fix r assume "r \<in> set rows"
    then have "(sw_separator r, sw_position r) \<in> set (map (\<lambda>r. (sw_separator r, sw_position r)) rows)" by simp
    then have "sw_position r = uint (sep_position (sw_separator r))" unfolding e by auto
    then show "in_u32 (sw_position r)" using uint_lt2p [of "sep_position (sw_separator r)"] by (simp add: in_u32_def)
  qed
qed

lemma find_map_kept: "(\<And>x. x \<in> set xs \<Longrightarrow> P (f x) = P x) \<Longrightarrow> List.find P (map f xs) = map_option f (List.find P xs)"
  by (induction xs) auto

lemma session_row_of_update:
  assumes "\<And>r. ses_id (sr_session r) = sid' \<Longrightarrow> ses_id (sr_session (f r)) = sid'"
  shows "session_row_of (update_session_row sid' f db) sid
     = map_option (\<lambda>r. if sid = sid' then f r else r) (session_row_of db sid)"
proof -
  have "List.find (\<lambda>r. ses_id (sr_session r) = sid) (map (\<lambda>r. if ses_id (sr_session r) = sid' then f r else r) (db_sessions db))
      = map_option (\<lambda>r. if ses_id (sr_session r) = sid' then f r else r) (List.find (\<lambda>r. ses_id (sr_session r) = sid) (db_sessions db))"
    by (rule find_map_kept) (use assms in auto)
  then show ?thesis unfolding session_row_of_def update_session_row_def
    by (cases "List.find (\<lambda>r. ses_id (sr_session r) = sid) (db_sessions db)") (auto dest: find_Some_iff_mem)
qed

lemma shifted_others:
  "(\<And>r. owner (f r) = owner r) \<Longrightarrow> filter (\<lambda>r. owner r \<noteq> s) (map (\<lambda>r. if owner r = s \<and> live r then f r else r) rows)
     = filter (\<lambda>r. owner r \<noteq> s) rows"
  by (induction rows) auto

text \<open>What else storing a board does: high-water marks rise, thoughts keep their owner and editor cursor and new
  ones start at zero, and rows of other sessions do not change.\<close>

definition raise_marks :: "attachment_counters \<Rightarrow> session_row \<Rightarrow> session_row" where
  "raise_marks c r = r\<lparr>sr_image_high := max (sr_image_high r) (uint (image_counter c)),
     sr_file_high := max (sr_file_high r) (uint (file_counter c))\<rparr>"

lemma raise_marks_simps [simp]: "sr_session (raise_marks c r) = sr_session r" "sr_cursor (raise_marks c r) = sr_cursor r"
  by (simp_all add: raise_marks_def)

definition stored_as :: "database \<Rightarrow> session_board \<Rightarrow> database \<Rightarrow> bool" where
  "stored_as db b db' \<longleftrightarrow>
     db_sessions db' = map (\<lambda>r. if ses_id (sr_session r) = ses_id (b_session b) then raise_marks (b_counters b) r else r) (db_sessions db)
     \<and> map editor_key (db_thoughts db') = map editor_key (db_thoughts db)
         @ map (\<lambda>t. (t_id t, ses_id (b_session b), 0))
             (filter (\<lambda>t. t_id t \<notin> t_id ` tw_thought ` set (db_thoughts db)) (b_thoughts b))
     \<and> distinct (map (\<lambda>r. sep_id (sw_separator r)) (db_separators db'))
     \<and> filter (\<lambda>r. t_session_id (tw_thought r) \<noteq> ses_id (b_session b)) (db_thoughts db')
       = filter (\<lambda>r. t_session_id (tw_thought r) \<noteq> ses_id (b_session b)) (db_thoughts db)
     \<and> filter (\<lambda>r. sep_session_id (sw_separator r) \<noteq> ses_id (b_session b)) (db_separators db')
       = filter (\<lambda>r. sep_session_id (sw_separator r) \<noteq> ses_id (b_session b)) (db_separators db)"

theorem persist_board_stores:
  assumes "accepts db b" and "validate b = Inr ()" and "marks_ok b"
  shows "\<exists>db'. persist_board b db = Inr db' \<and> holds db' b \<and> stored_as db b db'"
proof -
  let ?sid = "ses_id (b_session b)"
  have inv: "board_inv b" using assms(2) by (simp add: validate_iff)
  note pos = live_positions_ok [OF inv]
  note acc = assms(1) [unfolded accepts_def]
  have owner: "\<forall>t \<in> set (b_thoughts b). t_session_id t = ?sid" "\<forall>s \<in> set (b_separators b). sep_session_id s = ?sid"
    and ids: "distinct (map t_id (b_thoughts b))" "distinct (map sep_id (b_separators b))"
    using inv by (auto simp: board_inv_def)
  have marks: "uint (image_counter (b_counters b)) \<le> i64_top" "uint (file_counter (b_counters b)) \<le> i64_top"
    using assms(3) by (simp_all add: marks_ok_def i64_max_int)
  define d1 where "d1 = update_session_row ?sid (raise_marks (b_counters b)) db"
  have 1: "persist_counters ?sid (b_counters b) db = Inr d1"
    unfolding persist_counters_def d1_def raise_marks_def [abs_def] using marks by (simp add: sequence_to_i64_def)
  have a1: "accepts d1 b" using assms(1)
    by (auto simp: accepts_def d1_def session_row_of_update thought_rows_def separator_rows_def raise_marks_def)
  from shift_ok [OF a1 inv] obtain offset where o: "offset > int (length (live_items b))" and 2: "shift_existing_positions b d1 =
    Inr (d1\<lparr>db_thoughts := map (\<lambda>r. if t_session_id (tw_thought r) = ?sid \<and> t_is_live (tw_thought r)
               then r\<lparr>tw_position := tw_position r + offset\<rparr> else r) (db_thoughts d1),
             db_separators := map (\<lambda>r. if sep_session_id (sw_separator r) = ?sid \<and> sep_is_live (sw_separator r)
               then r\<lparr>sw_position := sw_position r + offset\<rparr> else r) (db_separators d1)\<rparr>)" (is "_ = Inr ?d2") by blast
  define d2 where "d2 = ?d2"
  have dt: "distinct (map (\<lambda>r. t_id (tw_thought r)) (db_thoughts d2))" "distinct (map (\<lambda>r. sep_id (sw_separator r)) (db_separators d2))"
    using acc by (simp_all add: d2_def d1_def if_distrib comp_def cong: if_cong)
  have rt: "\<forall>r \<in> set (db_thoughts d2). t_session_id (tw_thought r) = ?sid \<longleftrightarrow> t_id (tw_thought r) \<in> t_id ` set (b_thoughts b)"
    using acc by (auto simp: d2_def d1_def)
  have rs: "\<forall>r \<in> set (db_separators d2). sep_session_id (sw_separator r) = ?sid \<longleftrightarrow> sep_id (sw_separator r) \<in> sep_id ` set (b_separators b)"
    using acc by (auto simp: d2_def d1_def)
  have ht: "tw_position r \<ge> offset" if "r \<in> set (db_thoughts d2)" "t_session_id (tw_thought r) = ?sid" "t_is_live (tw_thought r)" for r
    using that acc by (auto simp: d2_def d1_def thought_rows_def in_u32_def split: if_splits)
  have hs: "sw_position r \<ge> offset" if "r \<in> set (db_separators d2)" "sep_session_id (sw_separator r) = ?sid" "sep_is_live (sw_separator r)" for r
    using that acc by (auto simp: d2_def d1_def separator_rows_def in_u32_def split: if_splits)
  define d3 where "d3 = d2\<lparr>db_thoughts := foldl store_thought (db_thoughts d2) (b_thoughts b)\<rparr>"
  have 3: "try_fold persist_thought d2 (b_thoughts b) = Inr d3" unfolding d3_def
  proof (rule tt.try_fold_store [of persist_thought db_thoughts StoreConflict "\<lambda>db rows. db\<lparr>db_thoughts := rows\<rparr>", OF persist_thought_store])
    show "\<forall>t \<in> set (b_thoughts b). \<not> (t_is_live t \<and> list_ex (\<lambda>r. t_id (tw_thought r) \<noteq> t_id t \<and> t_session_id (tw_thought r) = t_session_id t
        \<and> t_is_live (tw_thought r) \<and> tw_position r = uint (t_position t)) (db_thoughts d2))"
      using ht pos(1) o owner(1) by (fastforce simp: list_ex_iff)
  qed (use pos in simp_all)
  define d4 where "d4 = d3\<lparr>db_separators := foldl store_separator (db_separators d3) (b_separators b)\<rparr>"
  have 4: "try_fold persist_separator d3 (b_separators b) = Inr d4" unfolding d4_def
  proof (rule st.try_fold_store [of persist_separator db_separators StoreConflict "\<lambda>db rows. db\<lparr>db_separators := rows\<rparr>", OF persist_separator_store])
    show "\<forall>t \<in> set (b_separators b). \<not> (sep_is_live t \<and> list_ex (\<lambda>r. sep_id (sw_separator r) \<noteq> sep_id t
        \<and> sep_session_id (sw_separator r) = sep_session_id t \<and> sep_is_live (sw_separator r) \<and> sw_position r = uint (sep_position t)) (db_separators d3))"
      using hs pos(2) o owner(2) by (fastforce simp: list_ex_iff d3_def)
  qed (use pos in simp_all)
  have "persist_board b db = Inr d4" unfolding persist_board_def using 1 2 3 4 by (simp add: d2_def)
  moreover have "holds d4 b"
  proof -
    have "mset (map (\<lambda>r. (tw_thought r, tw_position r)) (thought_rows d4 ?sid)) = mset (map (\<lambda>t. (t, uint (t_position t))) (b_thoughts b))"
      using tt.stored_exactly [OF ids(1) dt(1) owner(1) rt] by (simp add: thought_rows_def d4_def d3_def)
    note t = holds_pairs [OF this]
    have "mset (map (\<lambda>r. (sw_separator r, sw_position r)) (separator_rows d4 ?sid)) = mset (map (\<lambda>t. (t, uint (sep_position t))) (b_separators b))"
      using st.stored_exactly [OF ids(2) dt(2) owner(2) rs] by (simp add: separator_rows_def d4_def d3_def)
    note s = holds_separator_pairs [OF this]
    have "db_sessions d4 = db_sessions d1" by (simp add: d4_def d3_def d2_def)
    then have "session_row_of d4 ?sid = map_option (raise_marks (b_counters b)) (session_row_of db ?sid)"
      by (simp add: session_row_of_def [of d4] session_row_of_def [of d1, symmetric]) (simp add: d1_def session_row_of_update)
    then show ?thesis using t s assms(2,3) acc by (auto simp: holds_def raise_marks_def)
  qed
  moreover have "stored_as db b d4"
  proof -
    have k: "map editor_key (db_thoughts d2) = map editor_key (db_thoughts db)"
      "map (\<lambda>r. t_id (tw_thought r)) (db_thoughts d2) = map (\<lambda>r. t_id (tw_thought r)) (db_thoughts db)"
      by (simp_all add: d2_def d1_def editor_key_def)
    from arg_cong [OF k(2), of set] have "t_id ` tw_thought ` set (db_thoughts d2) = t_id ` tw_thought ` set (db_thoughts db)"
      by (simp only: set_map image_image)
    note keys = k(1) this
    have tables: "db_thoughts d2 = map (\<lambda>r. if t_session_id (tw_thought r) = ?sid \<and> t_is_live (tw_thought r)
            then r\<lparr>tw_position := tw_position r + offset\<rparr> else r) (db_thoughts db)"
      "db_separators d2 = map (\<lambda>r. if sep_session_id (sw_separator r) = ?sid \<and> sep_is_live (sw_separator r)
            then r\<lparr>sw_position := sw_position r + offset\<rparr> else r) (db_separators db)"
      by (simp_all add: d2_def d1_def)
    have others: "filter (\<lambda>r. t_session_id (tw_thought r) \<noteq> ?sid) (db_thoughts d2) = filter (\<lambda>r. t_session_id (tw_thought r) \<noteq> ?sid) (db_thoughts db)"
      "filter (\<lambda>r. sep_session_id (sw_separator r) \<noteq> ?sid) (db_separators d2)
        = filter (\<lambda>r. sep_session_id (sw_separator r) \<noteq> ?sid) (db_separators db)"
      unfolding tables by (rule shifted_others, simp, rule shifted_others, simp)
    have "map editor_key (foldl store_thought (db_thoughts d2) (b_thoughts b)) = map editor_key (db_thoughts d2)
        @ map (\<lambda>t. (t_id t, ?sid, 0)) (filter (\<lambda>t. t_id t \<notin> t_id ` tw_thought ` set (db_thoughts d2)) (b_thoughts b))"
      using tt.stored_keys [OF ids(1) owner(1) rt, of tw_cursor]
      unfolding editor_key_def [abs_def] by (simp add: put_thought_def fresh_thought_def)
    then show ?thesis using tt.stored_others [OF ids(1) owner(1) rt] st.stored_others [OF ids(2) owner(2) rs]
        st.distinct_store_all [OF dt(2)] others unfolding keys
      by (simp add: stored_as_def d4_def d3_def) (simp add: d2_def d1_def update_session_row_def)
  qed
  ultimately show ?thesis by blast
qed

end
