(* ===== verification/Store_Refinement.thy ===== *)
theory Store_Refinement
  imports Store_Boards
begin

text \<open>
  Commits implement the board and its histories: a commit of an operation leaves the rows holding the
  board the operation gives, drops the redo tail of the history and appends the operation; a commit of a
  revision does the same for the editor history of its thought; a move shifts a cursor. The numbering of
  histories and receipts is an invariant of every commit.
\<close>

section \<open>What a mutation does to identities and counters\<close>

fun added_thoughts :: "board_mutation \<Rightarrow> thought_id set" where
  "added_thoughts (Batch ms) = \<Union> (set (map added_thoughts ms))"
| "added_thoughts (AddThought t) = {t_id t}"
| "added_thoughts (AddThoughtFromCompose t _ _) = {t_id t}"
| "added_thoughts _ = {}"

fun added_separators :: "board_mutation \<Rightarrow> separator_id set" where
  "added_separators (Batch ms) = \<Union> (set (map added_separators ms))"
| "added_separators (AddSeparator s) = {sep_id s}"
| "added_separators _ = {}"

definition footprint :: "session_board \<Rightarrow> thought_id list \<times> separator_id list \<times> attachment_counters \<times> session_id" where
  "footprint b = (map t_id (b_thoughts b), map sep_id (b_separators b), b_counters b, ses_id (b_session b))"

lemma footprint_idents:
  "footprint b = (map fst (fst (idents b)), map fst (fst (snd (idents b))), b_counters b, snd (snd (idents b)))"
  by (simp add: footprint_def idents_def comp_def)

lemma footprint_same: "idents b' = idents b \<Longrightarrow> b_counters b' = b_counters b \<Longrightarrow> footprint b' = footprint b"
  by (simp add: footprint_idents)

lemma footprint_simps [simp]:
  "footprint (touch_session at b) = footprint b"
  "footprint (shift_for_insert b k) = footprint b" "footprint (shift_after_remove b k) = footprint b"
  "(\<And>t. t_id (f t) = t_id t) \<Longrightarrow> footprint (thought_mut b i f) = footprint b"
  "(\<And>s. sep_id (g s) = sep_id s) \<Longrightarrow> footprint (separator_mut b j g) = footprint b"
  by (simp add: footprint_def touch_session_def,
      rule footprint_same [OF same_bodies_idents [OF same_bodies_shift_for_insert]], simp add: shift_for_insert_def,
      rule footprint_same [OF same_bodies_idents [OF same_bodies_shift_after_remove]], simp add: shift_after_remove_def)
    (simp_all add: footprint_def thought_mut_def separator_mut_def map_update_first_same)

lemma footprint_move_shift:
  fixes p q :: u32
  assumes "move_shift b (unat p) (unat q) = Inr b'"
  shows "footprint b' = footprint b"
proof (rule footprint_same)
  show "idents b' = idents b"
    using same_bodies_move_shift [OF _ _ assms] unat_u32_less by (simp add: same_bodies_idents)
  show "b_counters b' = b_counters b" using assms by (auto simp: move_shift_def shift_range_def split: if_splits)
qed

definition grows :: "thought_id set \<Rightarrow> separator_id set \<Rightarrow> session_board \<Rightarrow> session_board \<Rightarrow> bool" where
  "grows T S b b' \<longleftrightarrow> (\<exists>ts ss. footprint b' = (map t_id (b_thoughts b) @ ts, map sep_id (b_separators b) @ ss, b_counters b,
      ses_id (b_session b)) \<and> set ts \<subseteq> T \<and> set ss \<subseteq> S)"

lemma grows_same: "footprint b' = footprint b \<Longrightarrow> grows T S b b'"
  by (simp add: grows_def footprint_def)

lemma grows_trans: "grows T S b c \<Longrightarrow> grows T S c d \<Longrightarrow> grows T S b d"
  by (auto simp: grows_def footprint_def)

lemma grows_mono: "grows T S b c \<Longrightarrow> T \<subseteq> T' \<Longrightarrow> S \<subseteq> S' \<Longrightarrow> grows T' S' b c"
  by (fastforce simp: grows_def)

lemma grows_push:
  "footprint c = footprint b \<Longrightarrow> t_id t = i \<Longrightarrow> grows {i} S b (c\<lparr>b_thoughts := b_thoughts c @ [t]\<rparr>)"
  "footprint c = footprint b \<Longrightarrow> sep_id s = j \<Longrightarrow> grows T {j} b (c\<lparr>b_separators := b_separators c @ [s]\<rparr>)"
  by (auto simp: grows_def footprint_def)

lemma grows_insert [simp]:
  "t_id t = i \<Longrightarrow> grows {i} S b ((shift_for_insert b k)\<lparr>b_thoughts := b_thoughts (shift_for_insert b k) @ [t]\<rparr>)"
  "sep_id s = j \<Longrightarrow> grows T {j} b ((shift_for_insert b k)\<lparr>b_separators := b_separators (shift_for_insert b k) @ [s]\<rparr>)"
  by (rule grows_push, simp_all)+

lemma grows_touch [simp]: "grows T S b (touch_session at c) \<longleftrightarrow> grows T S b c"
  by (simp add: grows_def)

lemma grows_fold:
  assumes "\<And>m b c. m \<in> set ms \<Longrightarrow> apply_mutation_in_place at b m = Inr c \<Longrightarrow> grows (added_thoughts m) (added_separators m) b c"
  shows "try_fold (apply_mutation_in_place at) b ms = Inr c
    \<Longrightarrow> grows (\<Union> (set (map added_thoughts ms))) (\<Union> (set (map added_separators ms))) b c"
  using assms
proof (induction ms arbitrary: b)
  case (Cons m ms)
  then obtain d where d: "apply_mutation_in_place at b m = Inr d" "try_fold (apply_mutation_in_place at) d ms = Inr c" by auto
  let ?T = "\<Union> (set (map added_thoughts (m # ms)))" and ?S = "\<Union> (set (map added_separators (m # ms)))"
  have "grows ?T ?S b d" using grows_mono [OF Cons.prems(2) [OF _ d(1)]] by auto
  moreover have "grows (\<Union> (set (map added_thoughts ms))) (\<Union> (set (map added_separators ms))) d c"
    by (rule Cons.IH [OF d(2)]) (use Cons.prems(2) in auto)
  then have "grows ?T ?S d c" by (rule grows_mono) auto
  ultimately show ?case by (rule grows_trans)
qed (simp add: grows_def footprint_def)

lemma in_place_grows:
  "apply_mutation_in_place at b m = Inr b' \<Longrightarrow> grows (added_thoughts m) (added_separators m) b b'"
proof (induction m arbitrary: b b')
  case (Batch ms)
  then obtain c where "try_fold (apply_mutation_in_place at) b ms = Inr c" "b' = touch_session at c" by auto
  then show ?case using grows_fold [of ms at b c] Batch.IH by simp
qed (auto simp: add_or_restore_def add_or_restore_separator_def set_deletion_def set_separator_deletion_def set_deletion_exact_def
      move_thought_def move_separator_def replace_content_def set_name_def set_presentation_def set_legacy_collapsed_def
      Let_def footprint_move_shift intro: grows_same grows_push split: option.splits if_splits)

section \<open>High-water marks\<close>

definition le_counters :: "attachment_counters \<Rightarrow> attachment_counters \<Rightarrow> bool" where
  "le_counters c d \<longleftrightarrow> (\<forall>img. counter img c \<le> counter img d)"

lemma le_counters_iff: "le_counters c d \<longleftrightarrow> image_counter c \<le> image_counter d \<and> file_counter c \<le> file_counter d"
  unfolding le_counters_def counter_def by (metis (full_types))

lemma le_counters_trans: "le_counters a b \<Longrightarrow> le_counters b c \<Longrightarrow> le_counters a c"
  unfolding le_counters_def by (meson order_trans)

lemma observe_one_mono:
  assumes "observe_one c a = Inr c'" "le_counters d c"
  shows "\<exists>d'. observe_one d a = Inr d' \<and> le_counters d' c'" "le_counters c c'"
proof -
  have "(\<exists>d'. observe_one d a = Inr d' \<and> le_counters d' c') \<and> le_counters c c'"
  proof (cases "ann_kind a")
    case (Attachment ordinal img name)
    then obtain n where n: "ordinal = Some n" and c': "c' = set_counter img (max (counter img c) (ordinal_get n)) c"
      using assms(1) by (auto simp: observe_one_def)
    have "observe_one d a = Inr (set_counter img (max (counter img d) (ordinal_get n)) d)" by (simp add: observe_one_def Attachment n)
    moreover have "le_counters (set_counter img (max (counter img d) (ordinal_get n)) d) c'" "le_counters c c'"
      using assms(2) unfolding c' le_counters_def by (auto simp: counter_set_counter max.coboundedI1)
    ultimately show ?thesis by blast
  qed (use assms in \<open>auto simp: observe_one_def le_counters_def\<close>)
  then show "\<exists>d'. observe_one d a = Inr d' \<and> le_counters d' c'" "le_counters c c'" by simp_all
qed

lemma observe_mono:
  "observe c as = Inr c' \<Longrightarrow> le_counters d c \<Longrightarrow> (\<exists>d'. observe d as = Inr d' \<and> le_counters d' c') \<and> le_counters c c'"
proof (induction as arbitrary: c d)
  case (Cons a as)
  from Cons.prems(1) obtain c1 where c1: "observe_one c a = Inr c1" "observe c1 as = Inr c'" by (auto simp: observe_def)
  from observe_one_mono [OF c1(1) Cons.prems(2)] obtain d1 where d1: "observe_one d a = Inr d1" "le_counters d1 c1" "le_counters c c1" by blast
  from Cons.IH [OF c1(2) d1(2)] d1 show ?case by (auto simp: observe_def intro: le_counters_trans)
qed (simp add: observe_def le_counters_def)

lemma observe_all_mono:
  "try_fold (\<lambda>c t. observe c (f t)) c ts = Inr c' \<Longrightarrow> le_counters d c
   \<Longrightarrow> (\<exists>d'. try_fold (\<lambda>c t. observe c (f t)) d ts = Inr d' \<and> le_counters d' c') \<and> le_counters c c'"
proof (induction ts arbitrary: c d)
  case (Cons t ts)
  from Cons.prems(1) obtain c1 where c1: "observe c (f t) = Inr c1" "try_fold (\<lambda>c t. observe c (f t)) c1 ts = Inr c'" by auto
  from observe_mono [OF c1(1) Cons.prems(2)] obtain d1 where d1: "observe d (f t) = Inr d1" "le_counters d1 c1" "le_counters c c1" by blast
  from Cons.IH [OF c1(2) d1(2)] d1 show ?case by (auto intro: le_counters_trans)
qed (simp add: le_counters_def)

lemma apply_mutation_marks:
  assumes "apply_mutation b m at = Inr b'" "le_counters (b_counters b') \<lparr>image_counter = i64_max, file_counter = i64_max\<rparr>"
  shows "marks_ok b'" "le_counters (b_counters b) (b_counters b')" "grows (added_thoughts m) (added_separators m) b (b'\<lparr>b_counters := b_counters b\<rparr>)"
proof -
  from assms(1) obtain c where c: "apply_mutation_in_place at b m = Inr c" "observe_attachments c = Inr b'"
    by (auto simp: apply_mutation_def)
  note g = in_place_grows [OF c(1)]
  then have cc: "b_counters c = b_counters b" by (auto simp: grows_def footprint_def)
  from c(2) have o: "try_fold (\<lambda>c t. observe c (t_annotations t)) (b_counters c) (b_thoughts b') = Inr (b_counters b')"
    and b': "b' = c\<lparr>b_counters := b_counters b'\<rparr>"
    by (auto simp: observe_attachments_def)
  have "le_counters default_counters (b_counters c)" by (simp add: le_counters_iff default_counters_def)
  from observe_all_mono [OF o this] assms(2) show "marks_ok b'" "le_counters (b_counters b) (b_counters b')"
    by (auto simp: marks_ok_def le_counters_iff cc)
  obtain k where "b' = c\<lparr>b_counters := k\<rparr>" using b' by blast
  then have "footprint (b'\<lparr>b_counters := b_counters b\<rparr>) = footprint c" by (simp add: footprint_def cc)
  with g show "grows (added_thoughts m) (added_separators m) b (b'\<lparr>b_counters := b_counters b\<rparr>)" by (simp add: grows_def)
qed

section \<open>Storing the result of a mutation\<close>

text \<open>No row of another session carries an identity the mutation adds.\<close>

definition unclaimed :: "database \<Rightarrow> session_id \<Rightarrow> board_mutation \<Rightarrow> bool" where
  "unclaimed db sid m \<longleftrightarrow>
     (\<forall>r \<in> set (db_thoughts db). t_id (tw_thought r) \<in> added_thoughts m \<longrightarrow> t_session_id (tw_thought r) = sid)
     \<and> (\<forall>r \<in> set (db_separators db). sep_id (sw_separator r) \<in> added_separators m \<longrightarrow> sep_session_id (sw_separator r) = sid)"

abbreviation max_marks :: attachment_counters where
  "max_marks \<equiv> \<lparr>image_counter = i64_max, file_counter = i64_max\<rparr>"

lemma rows_match:
  assumes "distinct (map f rows)" "f ` {r \<in> set rows. own r} = A" "A \<subseteq> B" "\<And>r. r \<in> set rows \<Longrightarrow> f r \<in> B - A \<Longrightarrow> own r"
  shows "\<forall>r \<in> set rows. own r \<longleftrightarrow> f r \<in> B"
proof
  fix r assume r: "r \<in> set rows"
  show "own r \<longleftrightarrow> f r \<in> B"
  proof
    assume "own r"
    then show "f r \<in> B" using r assms(2,3) by blast
  next
    assume b: "f r \<in> B"
    show "own r"
    proof (cases "f r \<in> A")
      case True
      then obtain q where "q \<in> set rows" "own q" "f q = f r" using assms(2) by (metis (mono_tags, lifting) imageE mem_Collect_eq)
      then show ?thesis using assms(1) r by (metis distinct_map inj_onD)
    next
      case False
      then show ?thesis using assms(4) r b by blast
    qed
  qed
qed

lemma held_ids:
  assumes "holds db b"
  shows "(\<lambda>r. t_id (tw_thought r)) ` {r \<in> set (db_thoughts db). t_session_id (tw_thought r) = ses_id (b_session b)} = t_id ` set (b_thoughts b)"
    "(\<lambda>r. sep_id (sw_separator r)) ` {r \<in> set (db_separators db). sep_session_id (sw_separator r) = ses_id (b_session b)}
      = sep_id ` set (b_separators b)"
proof -
  have "set (map row_thought (thought_rows db (ses_id (b_session b)))) = set (b_thoughts b)"
    "set (map row_separator (separator_rows db (ses_id (b_session b)))) = set (b_separators b)"
    using assms mset_eq_setD unfolding holds_def by blast+
  from arg_cong [OF this(1), of "image t_id"] arg_cong [OF this(2), of "image sep_id"]
  show "(\<lambda>r. t_id (tw_thought r)) ` {r \<in> set (db_thoughts db). t_session_id (tw_thought r) = ses_id (b_session b)} = t_id ` set (b_thoughts b)"
    "(\<lambda>r. sep_id (sw_separator r)) ` {r \<in> set (db_separators db). sep_session_id (sw_separator r) = ses_id (b_session b)}
      = sep_id ` set (b_separators b)"
    by (simp_all add: image_image row_thought_def row_separator_def thought_rows_def separator_rows_def)
qed

lemma grown_ids:
  assumes "grows T S b b'"
  shows "t_id ` set (b_thoughts b) \<subseteq> t_id ` set (b_thoughts b')" "t_id ` set (b_thoughts b') \<subseteq> t_id ` set (b_thoughts b) \<union> T"
    "sep_id ` set (b_separators b) \<subseteq> sep_id ` set (b_separators b')" "sep_id ` set (b_separators b') \<subseteq> sep_id ` set (b_separators b) \<union> S"
    "ses_id (b_session b') = ses_id (b_session b)"
proof -
  obtain ts ss where g: "map t_id (b_thoughts b') = map t_id (b_thoughts b) @ ts" "set ts \<subseteq> T"
    "map sep_id (b_separators b') = map sep_id (b_separators b) @ ss" "set ss \<subseteq> S" "ses_id (b_session b') = ses_id (b_session b)"
    using assms by (auto simp: grows_def footprint_def)
  from arg_cong [OF g(1), of set] arg_cong [OF g(3), of set] g(2,4,5) show
    "t_id ` set (b_thoughts b) \<subseteq> t_id ` set (b_thoughts b')" "t_id ` set (b_thoughts b') \<subseteq> t_id ` set (b_thoughts b) \<union> T"
    "sep_id ` set (b_separators b) \<subseteq> sep_id ` set (b_separators b')" "sep_id ` set (b_separators b') \<subseteq> sep_id ` set (b_separators b) \<union> S"
    "ses_id (b_session b') = ses_id (b_session b)" by auto
qed

lemma accepts_grown:
  assumes inv: "store_inv db" and h: "holds db b" and g: "grows T S b (b'\<lparr>b_counters := b_counters b\<rparr>)"
    and le: "le_counters (b_counters b) (b_counters b')"
    and T: "\<forall>r \<in> set (db_thoughts db). t_id (tw_thought r) \<in> T \<longrightarrow> t_session_id (tw_thought r) = ses_id (b_session b)"
    and S: "\<forall>r \<in> set (db_separators db). sep_id (sw_separator r) \<in> S \<longrightarrow> sep_session_id (sw_separator r) = ses_id (b_session b)"
  shows "accepts db b'"
proof -
  note ids = grown_ids [OF g, simplified]
  have d: "distinct (map (\<lambda>r. t_id (tw_thought r)) (db_thoughts db))" "distinct (map (\<lambda>r. sep_id (sw_separator r)) (db_separators db))"
    using inv by (simp_all add: store_inv_def editors_ok_def comp_def editor_key_def)
  have "\<forall>r \<in> set (db_thoughts db). t_session_id (tw_thought r) = ses_id (b_session b) \<longleftrightarrow> t_id (tw_thought r) \<in> t_id ` set (b_thoughts b')"
    by (rule rows_match [OF d(1) held_ids(1) [OF h] ids(1)]) (use T ids(2) in blast)
  moreover have "\<forall>r \<in> set (db_separators db). sep_session_id (sw_separator r) = ses_id (b_session b)
      \<longleftrightarrow> sep_id (sw_separator r) \<in> sep_id ` set (b_separators b')"
    by (rule rows_match [OF d(2) held_ids(2) [OF h] ids(3)]) (use S ids(4) in blast)
  moreover have "uint (image_counter (b_counters b)) \<le> uint (image_counter (b_counters b'))"
    "uint (file_counter (b_counters b)) \<le> uint (file_counter (b_counters b'))"
    using le by (simp_all add: le_counters_iff word_le_def)
  ultimately show ?thesis using h d ids(5) by (auto simp: accepts_def holds_def)
qed

section \<open>Truncation and appending keep the numbering\<close>

lemma filter_other:
  "j \<noteq> i \<Longrightarrow> filter (\<lambda>w. key w = j) (filter (\<lambda>w. \<not> (key w = i \<and> index w \<ge> c)) rows) = filter (\<lambda>w. key w = j) rows"
  unfolding filter_filter by (rule filter_cong) auto

lemma filter_own:
  fixes index :: "'r \<Rightarrow> int"
  shows "filter (\<lambda>w. key w = i) (filter (\<lambda>w. \<not> (key w = i \<and> index w \<ge> c)) rows) = filter (\<lambda>w. index w < c) (filter (\<lambda>w. key w = i) rows)"
  unfolding filter_filter by (rule filter_cong) auto

lemma editors_ok_drop:
  assumes "editors_ok keys revisions" "(i, s, c) \<in> set keys"
  shows "editors_ok keys (filter (\<lambda>w. \<not> (vw_thought_id w = i \<and> vw_index w \<ge> c)) revisions)"
proof -
  have "editor_ok (filter (\<lambda>w. \<not> (vw_thought_id w = i \<and> vw_index w \<ge> c)) revisions) k" if k: "k \<in> set keys" for k
  proof -
    obtain j s' c' where kk: "k = (j, s', c')" by (metis prod_cases3)
    have ok: "editor_ok revisions (j, s', c')" using assms(1) k kk unfolding editors_ok_def by blast
    show ?thesis
    proof (cases "j = i")
      case True
      then have "c' = c" using eq_key_imp_eq_value [of keys i "(s', c')" "(s, c)"] assms k kk by (simp add: editors_ok_def)
      then have c: "0 \<le> c" "nat c \<le> length (filter (\<lambda>w. vw_thought_id w = i) revisions)" and
        g: "gapless vw_index (filter (\<lambda>w. vw_thought_id w = i) revisions)" using ok True by (auto simp: within_def)
      note below = gapless_below [OF g c(2), unfolded int_nat_eq if_P [OF c(1)]]
      show ?thesis unfolding kk True \<open>c' = c\<close> editor_ok.simps filter_own
        using below ok [unfolded True] c(1) by (simp add: within_def)
    next
      case False
      then show ?thesis using ok unfolding kk editor_ok.simps filter_other [OF False] by auto
    qed
  qed
  then show ?thesis using assms(1) by (auto simp: editors_ok_def)
qed

lemma truncate_revisions_ok:
  assumes "editors_ok (map editor_key (db_thoughts db)) (db_revisions db)"
  shows "editors_ok (map editor_key (db_thoughts db)) (db_revisions (truncate_revisions i db))"
    "set (db_revisions (truncate_revisions i db)) \<subseteq> set (db_revisions db)"
proof -
  show "editors_ok (map editor_key (db_thoughts db)) (db_revisions (truncate_revisions i db))"
  proof (cases "thought_row_of db i")
    case (Some r)
    then have "r \<in> set (db_thoughts db)" "t_id (tw_thought r) = i" by (auto simp: thought_row_of_def dest: find_Some_iff_mem)
    then have "(i, t_session_id (tw_thought r), tw_cursor r) \<in> set (map editor_key (db_thoughts db))" by (force simp: editor_key_def)
    from editors_ok_drop [OF assms this] show ?thesis by (simp add: truncate_revisions_def Some delete_revisions_from_def)
  qed (use assms in \<open>simp add: truncate_revisions_def\<close>)
qed (auto simp: truncate_revisions_def delete_revisions_from_def split: option.split)

lemma store_truncate_redo_ok:
  "editors_ok (map editor_key (db_thoughts db)) (db_revisions db) \<Longrightarrow>
    editors_ok (map editor_key (db_thoughts db)) (db_revisions (store_truncate_redo m db))
    \<and> set (db_revisions (store_truncate_redo m db)) \<subseteq> set (db_revisions db)"
proof (induction m db rule: store_truncate_redo.induct)
  case (1 ms db)
  have "editors_ok (map editor_key (db_thoughts db)) (db_revisions (fold store_truncate_redo ns db))
      \<and> set (db_revisions (fold store_truncate_redo ns db)) \<subseteq> set (db_revisions db)
      \<and> db_thoughts (fold store_truncate_redo ns db) = db_thoughts db"
    if "set ns \<subseteq> set ms" "editors_ok (map editor_key (db_thoughts db)) (db_revisions db)" for ns db
    using that
  proof (induction ns arbitrary: db)
    case (Cons n ns)
    then have "editors_ok (map editor_key (db_thoughts db)) (db_revisions (store_truncate_redo n db))
        \<and> set (db_revisions (store_truncate_redo n db)) \<subseteq> set (db_revisions db)" using "1.IH" [of n db] by auto
    with Cons.IH [of "store_truncate_redo n db"] Cons.prems(1) show ?case by auto
  qed simp
  with 1 show ?case by auto
qed (simp_all add: truncate_revisions_ok)

lemma editors_ok_extend:
  assumes "editors_ok keys revisions" "distinct (map fst (keys @ map (\<lambda>i. (i, s, 0)) is))"
  shows "editors_ok (keys @ map (\<lambda>i. (i, s, 0)) is) revisions"
proof -
  have "editor_ok revisions (i, s, 0)" if "i \<in> set is" for i
  proof -
    have "i \<notin> fst ` set keys" using assms(2) that by (auto simp: comp_def)
    then have "\<forall>w \<in> set revisions. vw_thought_id w \<noteq> i" using assms(1) by (auto simp: editors_ok_def)
    then have "filter (\<lambda>w. vw_thought_id w = i) revisions = []" by (simp add: filter_empty_conv)
    then show ?thesis using \<open>\<forall>w \<in> set revisions. vw_thought_id w \<noteq> i\<close> by (simp add: within_def)
  qed
  then show ?thesis using assms by (auto simp: editors_ok_def)
qed

section \<open>Commits of operations\<close>

lemma holds_sim:
  assumes "holds db b" "board_sim b c"
  shows "holds db c"
proof -
  have sim: "board_sim (b\<lparr>b_counters := default_counters\<rparr>) (c\<lparr>b_counters := default_counters\<rparr>)" using assms(2) by (simp add: board_sim_def)
  have e: "ses_id (b_session c) = ses_id (b_session b)" "b_counters c = b_counters b" "mset (b_thoughts c) = mset (b_thoughts b)"
    "mset (b_separators c) = mset (b_separators b)" using assms(2) by (simp_all add: board_sim_def)
  have "validate c = Inr ()" using assms sim_validate by (auto simp: holds_def)
  moreover have "marks_ok c"
  proof -
    from assms(1) obtain k where k: "try_fold (\<lambda>c t. observe c (t_annotations t)) default_counters (b_thoughts b) = Inr k"
      "image_counter k \<le> image_counter (b_counters b)" "file_counter k \<le> file_counter (b_counters b)"
      and m: "image_counter (b_counters b) \<le> i64_max" "file_counter (b_counters b) \<le> i64_max" unfolding holds_def marks_ok_def by blast
    have "observe_attachments (b\<lparr>b_counters := default_counters\<rparr>) = Inr (b\<lparr>b_counters := k\<rparr>)" by (simp add: observe_attachments_def k(1))
    with sim_observe [OF sim] obtain d where "observe_attachments (c\<lparr>b_counters := default_counters\<rparr>) = Inr d" "board_sim (b\<lparr>b_counters := k\<rparr>) d"
      by (auto simp: sim_result_def)
    then have "try_fold (\<lambda>c t. observe c (t_annotations t)) default_counters (b_thoughts c) = Inr k"
      by (auto simp: observe_attachments_def board_sim_def)
    with k m e(2) show ?thesis by (auto simp: marks_ok_def)
  qed
  ultimately show ?thesis using assms(1) unfolding holds_def e by blast
qed

text \<open>Only the session row, its items and their tables matter for holding a board.\<close>

lemma holds_transfer:
  assumes "holds db b" "db_thoughts db' = db_thoughts db" "db_separators db' = db_separators db"
    and "\<And>r. session_row_of db (ses_id (b_session b)) = Some r \<Longrightarrow>
      \<exists>r'. session_row_of db' (ses_id (b_session b)) = Some r' \<and> session_validate (sr_session r') = session_validate (sr_session r)
        \<and> sr_image_high r' = sr_image_high r \<and> sr_file_high r' = sr_file_high r"
  shows "holds db' b"
proof -
  have "thought_rows db' = thought_rows db" "separator_rows db' = separator_rows db"
    using assms(2,3) by (simp_all add: fun_eq_iff thought_rows_def separator_rows_def)
  moreover obtain r where r: "session_row_of db (ses_id (b_session b)) = Some r" "session_validate (sr_session r) = Inr ()"
      "sr_image_high r = uint (image_counter (b_counters b))" "sr_file_high r = uint (file_counter (b_counters b))"
    using assms(1) unfolding holds_def by blast
  ultimately show ?thesis using assms(1) assms(4) [OF r(1)] r unfolding holds_def by force
qed

lemma require_next_Inr:
  assumes "require_next_sequence db sid q = Inr u"
  obtains r where "session_row_of db sid = Some r" "uint q = uint (last_durable_sequence (sr_session r)) + 1" "uint q \<le> i64_top"
  using assms by (auto simp: require_next_sequence_def checked_add_i64_def sequence_to_i64_def split: if_splits)

lemma persist_counters_bound:
  "persist_counters sid c db = Inr db' \<Longrightarrow> le_counters c max_marks"
  by (auto simp: persist_counters_def sequence_to_i64_def le_counters_iff i64_max_int split: if_splits)

text \<open>Storing the board a mutation gives.\<close>

lemma store_mutation:
  assumes inv: "store_inv db" and h: "holds db c" and m: "apply_mutation c m at = Inr c'"
    and u: "unclaimed db (ses_id (b_session c)) m"
    and same: "db_sessions db1 = db_sessions db" "db_thoughts db1 = db_thoughts db" "db_separators db1 = db_separators db"
    and p: "persist_board c' db1 = Inr db2"
  shows "holds db2 c'" "stored_as db1 c' db2" "ses_id (b_session c') = ses_id (b_session c)"
proof -
  from p have "le_counters (b_counters c') max_marks"
    by (auto simp: persist_board_def dest: persist_counters_bound)
  note marks = apply_mutation_marks [OF m this]
  have "accepts db c'"
    by (rule accepts_grown [OF inv h marks(3,2)]) (use u in \<open>auto simp: unclaimed_def\<close>)
  then have a: "accepts db1 c'" by (simp add: accepts_def same session_row_of_def thought_rows_def separator_rows_def)
  have "validate c' = Inr ()" using m by (auto simp: apply_mutation_def)
  from persist_board_stores [OF a this marks(1)] p show "holds db2 c'" "stored_as db1 c' db2" by auto
  show "ses_id (b_session c') = ses_id (b_session c)" using marks(3) by (auto simp: grows_def footprint_def)
qed

lemma receipts_append:
  assumes "gapless (\<lambda>k. kw_sequence k - 1) rows" "length rows = unat durable" "kw_sequence k = uint q"
    and "uint q = uint durable + 1"
  shows "gapless (\<lambda>k. kw_sequence k - 1) (rows @ [k]) \<and> length (rows @ [k]) = unat q"
proof -
  have "int (unat q) = int (unat durable) + 1" using assms(4) by simp
  then have "unat q = Suc (unat durable)" by linarith
  moreover have "gapless (\<lambda>k. kw_sequence k - 1) (rows @ [k])" by (rule gapless_append(2)) (use assms in simp_all)
  ultimately show ?thesis using assms(2) by simp
qed

text \<open>One more receipt, with an unchanged history.\<close>

lemma session_ok_receipt:
  assumes "session_ok operations receipts sid cursor durable" "kw_session_id k = sid" "kw_sequence k = uint q"
    and "uint q = uint durable + 1" "uint q \<le> i64_top"
  shows "session_ok operations (receipts @ [k]) sid cursor q"
  using assms receipts_append [of "filter (\<lambda>k. kw_session_id k = sid) receipts" durable k q]
  by (simp add: session_ok_def)

text \<open>An operation behind the cursor, in place of the redo tail.\<close>

lemma session_ok_operation:
  assumes "session_ok operations receipts sid cursor durable" "ow_session_id w = sid" "ow_index w = cursor"
  shows "session_ok (filter (\<lambda>w. \<not> (ow_session_id w = sid \<and> ow_index w \<ge> cursor)) operations @ [w]) receipts sid (cursor + 1) durable"
    "sort_key ow_index (filter (\<lambda>w. ow_session_id w = sid) (filter (\<lambda>w. \<not> (ow_session_id w = sid \<and> ow_index w \<ge> cursor)) operations @ [w]))
      = take (nat cursor) (sort_key ow_index (filter (\<lambda>w. ow_session_id w = sid) operations)) @ [w]"
proof -
  let ?rows = "filter (\<lambda>w. ow_session_id w = sid) operations"
  have c: "0 \<le> cursor" "nat cursor \<le> length ?rows" and g: "gapless ow_index ?rows"
    using assms(1) by (auto simp: session_ok_def within_def)
  note below = gapless_below [OF g c(2), unfolded int_nat_eq if_P [OF c(1)]]
  have i: "ow_index w = int (length (filter (\<lambda>w. ow_index w < cursor) ?rows))" using below(2) c(1) assms(3) by simp
  have f: "filter (\<lambda>w. ow_session_id w = sid) (filter (\<lambda>w. \<not> (ow_session_id w = sid \<and> ow_index w \<ge> cursor)) operations @ [w])
      = filter (\<lambda>w. ow_index w < cursor) ?rows @ [w]"
    unfolding filter_append filter_own using assms(2) by simp
  note append = gapless_append [OF below(3) i]
  show "sort_key ow_index (filter (\<lambda>w. ow_session_id w = sid) (filter (\<lambda>w. \<not> (ow_session_id w = sid \<and> ow_index w \<ge> cursor)) operations @ [w]))
      = take (nat cursor) (sort_key ow_index ?rows) @ [w]" unfolding f append(1) below(1) ..
  have "length (filter (\<lambda>w. ow_index w < cursor) ?rows @ [w]) = Suc (nat cursor)" using below(2) by simp
  then show "session_ok (filter (\<lambda>w. \<not> (ow_session_id w = sid \<and> ow_index w \<ge> cursor)) operations @ [w]) receipts sid (cursor + 1) durable"
    using append(2) c(1) assms(1) unfolding session_ok_def f within_def by auto
qed

lemma session_ok_other:
  assumes "sid' \<noteq> sid" "session_ok operations receipts sid' cursor durable"
  shows "ow_session_id w = sid \<Longrightarrow>
      session_ok (filter (\<lambda>w. \<not> (ow_session_id w = sid \<and> ow_index w \<ge> c)) operations @ [w]) receipts sid' cursor durable"
    "session_ok (filter (\<lambda>w. \<not> (ow_session_id w = sid \<and> ow_index w \<ge> c)) operations) receipts sid' cursor durable"
    "kw_session_id k = sid \<Longrightarrow> session_ok operations (receipts @ [k]) sid' cursor durable"
  using assms filter_other [where i = sid and j = sid' and key = ow_session_id and index = ow_index and c = c and rows = operations] by (simp_all add: session_ok_def)

lemma finish_board_commit_tables:
  assumes "finish_board_commit operation cursor fp d = Inr (receipt, db')"
  obtains w k f where
    "w = \<lparr>ow_id = op_id operation, ow_session_id = op_session_id operation, ow_index = int cursor,
       ow_sequence = uint (op_sequence operation), ow_payload = operation, ow_created_at = op_created_at operation\<rparr>"
    "kw_session_id k = op_session_id operation" "kw_sequence k = uint (op_sequence operation)" "receipt_row_of d (kw_identity k) = None"
    "f = (\<lambda>r. r\<lparr>sr_cursor := int (cursor + 1), sr_session := (sr_session r)\<lparr>last_durable_sequence := op_sequence operation,
         last_active_at := max (last_active_at (sr_session r)) (op_created_at operation)\<rparr>\<rparr>)"
    "db_sessions db' = map (\<lambda>r. if ses_id (sr_session r) = op_session_id operation then f r else r) (db_sessions d)"
    "db_thoughts db' = db_thoughts d" "db_separators db' = db_separators d" "db_revisions db' = db_revisions d"
    "db_operations db' = db_operations d @ [w]" "db_receipts db' = db_receipts d @ [k]"
    "receipt = \<lparr>rc_session_id = op_session_id operation, rc_sequence = op_sequence operation,
       rc_identity = OperationIdentity (op_id operation), rc_idempotent_replay = False\<rparr>"
    "\<forall>w' \<in> set (db_operations d). ow_id w' \<noteq> op_id operation"
proof -
  from assms show thesis
  proof (rule finish_board_commitE)
    fix e1 e2 e3
    assume 1: "invalidate_activity_conflicts (op_session_id operation) d = Inr e1"
      and 2: "insert_operation \<lparr>ow_id = op_id operation, ow_session_id = op_session_id operation, ow_index = int cursor,
       ow_sequence = uint (op_sequence operation), ow_payload = operation, ow_created_at = op_created_at operation\<rparr> e1 = Inr e2"
      and 3: "insert_receipt \<lparr>kw_session_id = op_session_id operation, kw_sequence = uint (op_sequence operation),
       kw_identity = OperationIdentity (op_id operation), kw_request = BoardText operation, kw_fingerprint = fp,
       kw_created_at = op_created_at operation\<rparr> e2 = Inr e3"
      and 4: "receipt = \<lparr>rc_session_id = op_session_id operation, rc_sequence = op_sequence operation,
       rc_identity = OperationIdentity (op_id operation), rc_idempotent_replay = False\<rparr>"
      and 5: "db' = update_session_row (op_session_id operation) (\<lambda>r. r\<lparr>sr_cursor := int (cursor + 1),
       sr_session := (sr_session r)\<lparr>last_durable_sequence := op_sequence operation,
         last_active_at := max (last_active_at (sr_session r)) (op_created_at operation)\<rparr>\<rparr>) e3"
    note frame = invalidate_activity_conflicts_frame [OF 1, unfolded beside_browser_def prod.inject]
    from 2 have e2: "e2 = e1\<lparr>db_operations := db_operations e1 @ [\<lparr>ow_id = op_id operation, ow_session_id = op_session_id operation,
        ow_index = int cursor, ow_sequence = uint (op_sequence operation), ow_payload = operation, ow_created_at = op_created_at operation\<rparr>]\<rparr>"
      "\<forall>w' \<in> set (db_operations d). ow_id w' \<noteq> op_id operation"
      using frame by (auto simp: insert_operation_def list_ex_iff split: if_split_asm)
    note e3 = 3 [unfolded insert_receipt_Inr]
    show thesis
      by (rule that [OF refl _ _ _ refl _ _ _ _ _ _ 4 e2(2)])
        (use frame e3 e2 5 in \<open>simp_all add: update_session_row_def receipt_row_of_def\<close>)
  qed
qed

lemma not_replayed:
  "existing_receipt request_digest db identity request fp = Inr (Some receipt) \<Longrightarrow> rc_idempotent_replay receipt"
  by (auto simp: existing_receipt_Some_iff replayed_receipt_def)

lemma session_in: "session_row_of db sid = Some r \<Longrightarrow> r \<in> set (db_sessions db) \<and> ses_id (sr_session r) = sid"
  by (auto simp: session_row_of_def dest: find_Some_iff_mem)

lemma session_unique:
  assumes "store_inv db" "session_row_of db sid = Some r" "q \<in> set (db_sessions db)" "ses_id (sr_session q) = sid"
  shows "q = r"
proof -
  have "distinct (map (\<lambda>r. ses_id (sr_session r)) (db_sessions db))" using assms(1) by (simp add: store_inv_def)
  moreover have "ses_id (sr_session q) = ses_id (sr_session r)" using session_in [OF assms(2)] assms(4) by simp
  ultimately show ?thesis using assms(3) session_in [OF assms(2)] unfolding distinct_map by (metis inj_onD)
qed

lemma session_row_of_map:
  assumes "db_sessions db' = map (\<lambda>r. if ses_id (sr_session r) = sid' then f r else r) (db_sessions db)"
    and "\<And>r. ses_id (sr_session (f r)) = ses_id (sr_session r)"
  shows "session_row_of db' sid = map_option (\<lambda>r. if sid = sid' then f r else r) (session_row_of db sid)"
proof -
  have "session_row_of db' sid = session_row_of (update_session_row sid' f db) sid"
    using assms(1) by (simp add: session_row_of_def update_session_row_def)
  then show ?thesis by (simp add: session_row_of_update assms(2))
qed

text \<open>The parts of the invariant a commit of its session has to establish again.\<close>

lemma store_inv_commit:
  assumes inv: "store_inv db" and row: "session_row_of db sid = Some r"
    and sessions: "db_sessions db' = map (\<lambda>r. if ses_id (sr_session r) = sid then f r else r) (db_sessions db)"
      "\<And>r. ses_id (sr_session (f r)) = ses_id (sr_session r)"
    and own: "session_ok (db_operations db') (db_receipts db') sid (sr_cursor (f r)) (last_durable_sequence (sr_session (f r)))"
    and other: "\<And>sid' cursor durable. sid' \<noteq> sid \<Longrightarrow> session_ok (db_operations db) (db_receipts db) sid' cursor durable
      \<Longrightarrow> session_ok (db_operations db') (db_receipts db') sid' cursor durable"
    and receipts: "\<forall>k \<in> set (db_receipts db'). k \<in> set (db_receipts db) \<or> kw_session_id k = sid"
    and operations: "\<forall>w \<in> set (db_operations db'). w \<in> set (db_operations db) \<or> operation_row_ok w \<and> ow_session_id w = sid"
    and separators: "distinct (map (\<lambda>r. sep_id (sw_separator r)) (db_separators db'))"
    and editors: "editors_ok (map editor_key (db_thoughts db')) (db_revisions db')" "\<forall>w \<in> set (db_revisions db'). revision_row_ok w"
  shows "store_inv db'"
proof -
  have ids: "map (\<lambda>r. ses_id (sr_session r)) (db_sessions db') = map (\<lambda>r. ses_id (sr_session r)) (db_sessions db)"
    using sessions by simp
  from arg_cong [OF this, of set] have idset: "(\<lambda>r. ses_id (sr_session r)) ` set (db_sessions db') = (\<lambda>r. ses_id (sr_session r)) ` set (db_sessions db)"
    by simp
  have "session_ok (db_operations db') (db_receipts db') (ses_id (sr_session q')) (sr_cursor q') (last_durable_sequence (sr_session q'))"
    if "q' \<in> set (db_sessions db')" for q'
  proof -
    from that obtain q where q: "q \<in> set (db_sessions db)" "q' = (if ses_id (sr_session q) = sid then f q else q)"
      unfolding sessions(1) by auto
    show ?thesis
    proof (cases "ses_id (sr_session q) = sid")
      case True
      then have "q = r" by (rule session_unique [OF inv row q(1)])
      then show ?thesis using own q(2) True sessions(2) by simp
    next
      case False
      then show ?thesis using other [OF False] inv q by (auto simp: store_inv_def)
    qed
  qed
  moreover have "sid \<in> (\<lambda>r. ses_id (sr_session r)) ` set (db_sessions db)" using session_in [OF row] by (intro image_eqI [of _ _ r]) simp_all
  ultimately show ?thesis using inv receipts operations separators editors unfolding store_inv_def ids idset by blast
qed

lemma stored_editors:
  assumes s: "stored_as db0 b db2" and same: "db_thoughts db0 = db_thoughts db" and ids: "distinct (map t_id (b_thoughts b))"
    and keys: "distinct (map fst (map editor_key (db_thoughts db)))" and e: "editors_ok (map editor_key (db_thoughts db)) R"
  shows "editors_ok (map editor_key (db_thoughts db2)) R"
proof -
  have k: "map editor_key (db_thoughts db2) = map editor_key (db_thoughts db) @ map (\<lambda>i. (i, ses_id (b_session b), 0))
      (map t_id (filter (\<lambda>t. t_id t \<notin> t_id ` tw_thought ` set (db_thoughts db)) (b_thoughts b)))"
    using s by (simp add: stored_as_def same comp_def)
  have "distinct (map fst (map editor_key (db_thoughts db2)))"
    unfolding k using keys ids by (auto simp: comp_def editor_key_def distinct_map_filter image_iff)
  then show ?thesis unfolding k by (rule editors_ok_extend [OF e])
qed

lemma commit_board_effect:
  assumes inv: "store_inv db" and h: "holds db b" and sid: "ses_id (b_session b) = op_session_id operation"
    and u: "unclaimed db (op_session_id operation) (op_forward operation)"
    and ok: "operation_validate_annotations operation = Inr ()"
    and row: "session_row_of db (op_session_id operation) = Some r"
    and commit: "commit_board request_digest operation fp db = Inr (receipt, db')" "\<not> rc_idempotent_replay receipt"
  shows "\<exists>b' r'. apply_mutation b (op_forward operation) (op_created_at operation) = Inr b' \<and> holds db' b' \<and> store_inv db'
     \<and> session_row_of db' (op_session_id operation) = Some r' \<and> sr_cursor r' = sr_cursor r + 1
     \<and> last_durable_sequence (sr_session r') = op_sequence operation
     \<and> uint (op_sequence operation) = uint (last_durable_sequence (sr_session r)) + 1
     \<and> history_of db' (op_session_id operation) = take (nat (sr_cursor r)) (history_of db (op_session_id operation)) @ [operation]"
  using commit(1)
proof (cases rule: commit_boardE)
  case replay
  then show ?thesis using commit(2) not_replayed by blast
next
  case (fresh x c v c' row' cursor d)
  let ?sid = "op_session_id operation"
  have r: "row' = r" "sr_cursor r = int cursor" using fresh(6,7) row by simp_all
  from fresh(2) row have q: "uint (op_sequence operation) = uint (last_durable_sequence (sr_session r)) + 1" "uint (op_sequence operation) \<le> i64_top"
    by (auto elim!: require_next_Inr)
  from holds_load [OF h] fresh(3) sid have bc: "board_sim b c" by auto
  have hc: "holds db c" by (rule holds_sim [OF h bc])
  have sc: "ses_id (b_session c) = ?sid" using bc sid by (simp add: board_sim_def)
  have "ids_ok c" using hc by (auto simp: holds_def validate_iff board_inv_ids)
  from sim_apply_mutation [OF board_sim_sym [OF bc] this, of "op_forward operation" "op_created_at operation"] fresh(5) obtain b' where b': "apply_mutation b (op_forward operation) (op_created_at operation) = Inr b'"
      "board_sim c' b'" by (auto simp: sim_result_def)
  let ?d0 = "store_truncate_redo (op_forward operation) (delete_operations_from ?sid (int cursor) db)"
  note stored = store_mutation [OF inv hc fresh(5) u [folded sc] _ _ _ fresh(9), simplified]
  have sc': "ses_id (b_session c') = ?sid" using stored(3) sc by simp
  note as = stored(2) [unfolded stored_as_def sc']
  have frame: "db_operations d = db_operations (delete_operations_from ?sid (int cursor) db)"
    "db_receipts d = db_receipts db" "db_revisions d = db_revisions ?d0"
    using persist_board_frame [OF fresh(9)] by (simp_all add: beside_board_def)
  have e0: "editors_ok (map editor_key (db_thoughts db)) (db_revisions ?d0)" "set (db_revisions ?d0) \<subseteq> set (db_revisions db)"
    using store_truncate_redo_ok [of "delete_operations_from ?sid (int cursor) db" "op_forward operation"] inv
    by (simp_all add: store_inv_def)
  have ok0: "session_ok (db_operations db) (db_receipts db) ?sid (int cursor) (last_durable_sequence (sr_session r))"
    using inv session_in [OF row] r(2) by (auto simp: store_inv_def)
  from fresh(10) show ?thesis
  proof (rule finish_board_commit_tables)
    fix w k f
    assume w: "w = \<lparr>ow_id = op_id operation, ow_session_id = ?sid, ow_index = int cursor,
       ow_sequence = uint (op_sequence operation), ow_payload = operation, ow_created_at = op_created_at operation\<rparr>"
      and k: "kw_session_id k = ?sid" "kw_sequence k = uint (op_sequence operation)"
      and f: "f = (\<lambda>r. r\<lparr>sr_cursor := int (cursor + 1), sr_session := (sr_session r)\<lparr>last_durable_sequence := op_sequence operation,
         last_active_at := max (last_active_at (sr_session r)) (op_created_at operation)\<rparr>\<rparr>)"
      and t: "db_sessions db' = map (\<lambda>r. if ses_id (sr_session r) = ?sid then f r else r) (db_sessions d)"
        "db_thoughts db' = db_thoughts d" "db_separators db' = db_separators d" "db_revisions db' = db_revisions d"
        "db_operations db' = db_operations d @ [w]" "db_receipts db' = db_receipts d @ [k]"
    let ?g = "\<lambda>r. f (raise_marks (b_counters c') r)"
    have sess: "db_sessions db' = map (\<lambda>r. if ses_id (sr_session r) = ?sid then ?g r else r) (db_sessions db)"
      unfolding t(1) using as by (simp add: comp_def if_distrib cong: if_cong)
    have gid: "ses_id (sr_session (?g r)) = ses_id (sr_session r)" for r by (simp add: f)
    have row': "session_row_of db' ?sid = Some (?g r)" by (simp add: session_row_of_map [OF sess gid] row)
    have ops: "db_operations db' = filter (\<lambda>w. \<not> (ow_session_id w = ?sid \<and> ow_index w \<ge> int cursor)) (db_operations db) @ [w]"
      using t(5) frame(1) by (simp add: delete_operations_from_def)
    have recs: "db_receipts db' = db_receipts db @ [k]" using t(6) frame(2) by simp
    have ww: "ow_session_id w = ?sid" "ow_index w = int cursor" by (simp_all add: w)
    note own = session_ok_operation [OF ok0 ww]
    have "store_inv db'"
    proof (rule store_inv_commit [OF inv row sess gid])
      show "session_ok (db_operations db') (db_receipts db') ?sid (sr_cursor (?g r)) (last_durable_sequence (sr_session (?g r)))"
        unfolding ops recs using session_ok_receipt [OF own(1) k q] by (simp add: f add.commute)
      show "session_ok (db_operations db') (db_receipts db') sid' cursor' durable'"
        if "sid' \<noteq> ?sid" "session_ok (db_operations db) (db_receipts db) sid' cursor' durable'" for sid' cursor' durable'
        unfolding ops recs using session_ok_other(3) [OF that(1) session_ok_other(1) [OF that ww(1)] k(1)] .
      show "\<forall>w \<in> set (db_operations db'). w \<in> set (db_operations db) \<or> operation_row_ok w \<and> ow_session_id w = ?sid"
        using ok unfolding ops by (auto simp: w operation_row_ok_def)
      have "distinct (map t_id (b_thoughts c'))" using stored(1) by (auto simp: holds_def validate_iff board_inv_def)
      moreover have "distinct (map fst (map editor_key (db_thoughts db)))" using inv by (simp add: store_inv_def editors_ok_def)
      moreover have "db_thoughts ?d0 = db_thoughts db" by (simp add: delete_operations_from_def)
      moreover have "stored_as ?d0 c' d" using stored(2) by simp
      ultimately have "editors_ok (map editor_key (db_thoughts d)) (db_revisions ?d0)"
        using stored_editors [OF _ _ _ _ e0(1)] by blast
      then show "editors_ok (map editor_key (db_thoughts db')) (db_revisions db')" using t(2,4) frame(3) by simp
      show "\<forall>w \<in> set (db_revisions db'). revision_row_ok w" using e0(2) inv t(4) frame(3) by (auto simp: store_inv_def)
    qed (use recs k as t(3) in auto)
    moreover have "holds db' b'"
    proof (rule holds_sim [OF holds_transfer [OF stored(1) t(2,3)] b'(2)])
      fix p assume "session_row_of d (ses_id (b_session c')) = Some p"
      then show "\<exists>r'. session_row_of db' (ses_id (b_session c')) = Some r' \<and> session_validate (sr_session r') = session_validate (sr_session p)
        \<and> sr_image_high r' = sr_image_high p \<and> sr_file_high r' = sr_file_high p"
        using session_row_of_map [OF t(1), of "ses_id (b_session c')"] sc' by (simp add: f session_validate_def)
    qed
    moreover have "history_of db' ?sid = take (nat (sr_cursor r)) (history_of db ?sid) @ [operation]"
      using arg_cong [OF own(2), of "map ow_payload"] unfolding history_of_def operation_rows_def ops by (simp add: take_map r(2) w)
    ultimately show ?thesis using b'(1) row' q(1) r(2) by (auto simp: f)
  qed
qed

end
