(* ===== verification/Store_Edits.thy ===== *)
theory Store_Edits
  imports Store_Refinement
begin

text \<open>
  What a committed editor revision leaves in the store (\<open>commit_revision\<close>,
  \<open>src/src/adapters/sqlite/commits.rs\<close>): the rows hold the board with the new content, the
  conflicting redo tail of the board is gone, and the revision stands behind the editor's cursor.
\<close>

section \<open>Observing attachments that are already counted\<close>

definition counted :: "attachment_counters \<Rightarrow> content_annotation list \<Rightarrow> bool" where
  "counted c as \<longleftrightarrow> (\<forall>a \<in> set as. unassigned_kind (ann_kind a) = None) \<and> covered c as"

lemma counted_mono: "counted c as \<Longrightarrow> le_counters c d \<Longrightarrow> counted d as"
  unfolding counted_def covered_def le_counters_def word_le_nat_alt by (fastforce intro: order_trans)

lemma observe_counted: "observe c as = Inr c' \<Longrightarrow> counted c' as"
  using observe_Inr by (auto simp: counted_def)

lemma observe_kept: "counted c as \<Longrightarrow> observe c as = Inr c"
proof (induction as)
  case (Cons a as)
  then have "counted c as" by (auto simp: counted_def covered_def occurrences_Cons split: option.splits)
  moreover have "observe_one c a = Inr c"
  proof (cases "occurrence a")
    case None
    then show ?thesis using Cons.prems by (simp add: observe_one_cases counted_def)
  next
    case (Some x)
    obtain img n where x: "x = (img, n)" by force
    have "n \<le> unat (counter img c)" using Cons.prems Some x by (auto simp: counted_def covered_def occurrences_Cons)
    moreover have "unat (of_nat n :: u64) = n" using occurrence_unat Some x by blast
    ultimately have "of_nat n \<le> counter img c" by (simp add: word_le_nat_alt)
    then have "max (counter img c) (of_nat n) = counter img c" by (rule max_absorb1)
    moreover have "set_counter img (counter img c) c = c" by (simp add: set_counter_def counter_def)
    ultimately show ?thesis by (simp add: observe_one_cases Some x)
  qed
  ultimately show ?case using Cons.IH by (simp add: observe_def)
qed (simp add: observe_def)

lemma observe_all_counted:
  "try_fold (\<lambda>c t. observe c (f t)) c ts = Inr c' \<Longrightarrow> t \<in> set ts \<Longrightarrow> counted c' (f t)"
proof (induction ts arbitrary: c)
  case (Cons u ts)
  then obtain d where d: "observe c (f u) = Inr d" "try_fold (\<lambda>c t. observe c (f t)) d ts = Inr c'" by auto
  show ?case
  proof (cases "t = u")
    case True
    have "le_counters d c'" using observe_all_mono [OF d(2)] by (auto simp: le_counters_def)
    then show ?thesis using counted_mono [OF observe_counted [OF d(1)]] True by simp
  next
    case False
    then show ?thesis using Cons.IH [OF d(2)] Cons.prems(2) by simp
  qed
qed simp

lemma marks_counted: "marks_ok b \<Longrightarrow> t \<in> set (b_thoughts b) \<Longrightarrow> counted (b_counters b) (t_annotations t)"
  unfolding marks_ok_def using observe_all_counted [of t_annotations default_counters "b_thoughts b" _ t]
    counted_mono [of _ "t_annotations t" "b_counters b"] by (auto simp: le_counters_iff)

lemma observe_one_new:
  assumes "\<forall>t \<in> set ts. counted c (f t) \<or> f t = X" "observe c X = Inr k" "d = c \<or> d = k"
  shows "try_fold (\<lambda>c t. observe c (f t)) d ts = Inr (if d = k \<or> (\<exists>t \<in> set ts. f t = X) then k else d)"
  using assms(1,3)
proof (induction ts arbitrary: d)
  case (Cons t ts)
  have le: "le_counters c k" using observe_mono [OF assms(2)] by (auto simp: le_counters_def)
  have X: "observe k X = Inr k" by (rule observe_kept [OF observe_counted [OF assms(2)]])
  have t: "observe d (f t) = Inr (if d = k \<or> f t = X then k else d)"
    using Cons.prems assms(2) X observe_kept [of c "f t"] observe_kept [OF counted_mono [OF _ le], of "f t"] by auto
  have "(if d = k \<or> f t = X then k else d) = c \<or> (if d = k \<or> f t = X then k else d) = k" using Cons.prems(2) by auto
  from Cons.IH [OF _ this] Cons.prems(1) t show ?case by auto
qed simp

section \<open>The edited board\<close>

text \<open>A change of timestamps and high-water marks does not affect validity.\<close>

definition undated :: "session_board \<Rightarrow> session_board" where
  "undated b = b\<lparr>b_thoughts := map (\<lambda>t. t\<lparr>t_updated_at := 0\<rparr>) (b_thoughts b), b_counters := default_counters\<rparr>"

lemma table_kept:
  assumes "\<And>x. key (h x) = key x" "\<And>x. live (h x) = live x" "\<And>x. pos (h x) = pos x"
  shows "position_table key live pos (map h xs) = position_table key live pos xs"
  by (induction xs) (simp_all add: position_table_def assms)

lemma entries_undated: "entries (undated b) = entries b"
  unfolding entries_def undated_def by (simp add: table_kept t_is_live_def)

lemma live_annotations_undated: "live_annotations (map (\<lambda>t. t\<lparr>t_updated_at := a\<rparr>) ts) = live_annotations ts"
  by (induction ts) (simp_all add: live_annotations_def t_is_live_def)

lemma order_of_entries: "board_inv b \<longleftrightarrow> (\<exists>xs. represents (entries b) xs) \<and> distinct (map t_id (b_thoughts b))
   \<and> distinct (map sep_id (b_separators b)) \<and> (\<forall>t \<in> set (b_thoughts b). t_session_id t = ses_id (b_session b))
   \<and> (\<forall>s \<in> set (b_separators b). sep_session_id s = ses_id (b_session b))"
  by (auto simp: board_inv_def dest: represents_order)

lemma validate_undated: "validate (undated b) = Inr () \<longleftrightarrow> validate b = Inr ()"
  unfolding validate_iff order_of_entries entries_undated
  by (simp add: undated_def live_annotations_undated t_ok_def comp_def)

definition edited :: "thought_revision \<Rightarrow> session_board \<Rightarrow> session_board" where
  "edited r b = thought_mut b (rev_thought_id r)
     (\<lambda>t. t\<lparr>t_content := after_content r, t_annotations := after_annotations r, t_updated_at := rev_created_at r\<rparr>)"

lemma update_first_twice:
  assumes "\<And>x. h (f x) = h (g x)"
  shows "map h (update_first P f xs) = map h (update_first P g xs)"
  by (induction xs) (simp_all add: assms)

lemma undated_edited:
  "undated (edited r b)
    = undated (thought_mut b (rev_thought_id r) (\<lambda>t. t\<lparr>t_content := after_content r, t_annotations := after_annotations r\<rparr>))"
proof -
  have "map (\<lambda>t. t\<lparr>t_updated_at := 0\<rparr>) (b_thoughts (edited r b)) = map (\<lambda>t. t\<lparr>t_updated_at := 0\<rparr>)
      (b_thoughts (thought_mut b (rev_thought_id r) (\<lambda>t. t\<lparr>t_content := after_content r, t_annotations := after_annotations r\<rparr>)))"
    unfolding edited_def thought_mut_def by simp (rule update_first_twice, simp)
  then show ?thesis unfolding undated_def by (simp add: edited_def thought_mut_def)
qed

lemma undated_counters: "undated (b\<lparr>b_counters := k\<rparr>) = undated b"
  by (simp add: undated_def)

lemma edited_session [simp]:
  "b_session (edited r b) = b_session b" "b_separators (edited r b) = b_separators b" "b_counters (edited r b) = b_counters b"
  by (simp_all add: edited_def thought_mut_def)

lemma load_counters_ok:
  assumes "holds db b" "ses_id (b_session b) = sid"
  shows "load_counters db sid = Inr (b_counters b)"
proof -
  from assms obtain r where "session_row_of db sid = Some r" "sr_image_high r = uint (image_counter (b_counters b))"
      "sr_file_high r = uint (file_counter (b_counters b))" by (auto simp: holds_def)
  moreover have "image_counter (b_counters b) \<le> i64_max" "file_counter (b_counters b) \<le> i64_max"
    using assms(1) by (auto simp: holds_def marks_ok_def)
  ultimately show ?thesis by (simp add: load_counters_def sequence_from_i64_uint new_counters_def not_less)
qed

lemma number_edit:
  assumes h: "holds db b" and sid: "ses_id (b_session b) = rev_session_id r" and n: "number_revision r db = Inr d1"
  obtains t k where "thought_of b (rev_thought_id r) = Some t" "validate (edited r b) = Inr ()"
    "observe (b_counters b) (after_annotations r) = Inr k" "persist_counters (rev_session_id r) k db = Inr d1"
proof -
  from n obtain u c v w t k where
    c: "load_counters db (rev_session_id r) = Inr c" and lb: "load_board db (rev_session_id r) = Inr v"
    and t: "thought_of v (rev_thought_id r) = Some t"
    and ok: "validate (thought_mut v (rev_thought_id r)
        (\<lambda>t. t\<lparr>t_content := after_content r, t_annotations := after_annotations r\<rparr>)) = Inr w"
    and k: "observe c (after_annotations r) = Inr k" "persist_counters (rev_session_id r) k db = Inr d1"
    unfolding number_revision_def try_bind_Inr_iff map_err_Inr_iff ok_or_simps by blast
  have cc: "c = b_counters b" using c load_counters_ok [OF h sid] by simp
  from holds_load [OF h] lb sid have s: "board_sim b v" by auto
  have i: "ids_ok b" "ids_ok v" using h sim_ids [OF s] by (auto simp: holds_def validate_iff board_inv_ids)
  have "thought_of b (rev_thought_id r) = Some t" using sim_lookup(1) [OF s i(1)] t by simp
  moreover have "validate (edited r b) = Inr ()"
  proof -
    have "validate (thought_mut b (rev_thought_id r) (\<lambda>t. t\<lparr>t_content := after_content r, t_annotations := after_annotations r\<rparr>)) = Inr ()"
      by (rule sim_validate [OF board_sim_sym [OF sim_mut(1) [OF s i(1)]]]) (use ok in simp)
    then have "validate (undated (edited r b)) = Inr ()" unfolding undated_edited validate_undated .
    then show ?thesis unfolding validate_undated .
  qed
  ultimately show thesis using that k cc by blast
qed

lemma set_update_first_cases:
  "x \<in> set (update_first P f xs) \<Longrightarrow> (\<exists>y \<in> set xs. P y \<and> x = f y) \<or> x \<in> set xs"
  by (induction xs) (auto split: if_splits)

lemma update_first_hit: "List.find P xs = Some x \<Longrightarrow> f x \<in> set (update_first P f xs)"
  by (induction xs) (auto split: if_splits)

lemma observe_edited:
  assumes m: "marks_ok b" and t: "thought_of b (rev_thought_id r) = Some t" and k: "observe (b_counters b) (after_annotations r) = Inr k"
  shows "observe_attachments (edited r b) = Inr ((edited r b)\<lparr>b_counters := k\<rparr>)"
proof -
  let ?ts = "b_thoughts (edited r b)"
  have "counted (b_counters b) (t_annotations x) \<or> t_annotations x = after_annotations r" if "x \<in> set ?ts" for x
    using set_update_first_cases [of x "\<lambda>t. t_id t = rev_thought_id r" _ "b_thoughts b"] that marks_counted [OF m]
    by (force simp: edited_def thought_mut_def)
  moreover have "\<exists>x \<in> set ?ts. t_annotations x = after_annotations r"
    using update_first_hit [OF t [unfolded thought_of_def]] by (force simp: edited_def thought_mut_def)
  ultimately show ?thesis
    using observe_one_new [where ts = ?ts and f = t_annotations and c = "b_counters b" and d = "b_counters b", OF _ k]
    by (simp add: observe_attachments_def)
qed

lemma edited_marks:
  assumes "observe_attachments (edited r b) = Inr b'" "le_counters (b_counters b') max_marks"
  shows "marks_ok b'"
proof -
  from assms(1) have o: "try_fold (\<lambda>c t. observe c (t_annotations t)) (b_counters b) (b_thoughts b') = Inr (b_counters b')"
    by (auto simp: observe_attachments_def)
  have "le_counters default_counters (b_counters b)" by (simp add: le_counters_iff default_counters_def)
  from observe_all_mono [OF o this] assms(2) show ?thesis by (auto simp: marks_ok_def le_counters_iff)
qed

section \<open>Truncating conflicting operations\<close>

abbreviation concerns :: "thought_id \<Rightarrow> board_operation \<Rightarrow> bool" where
  "concerns i operation \<equiv> addresses i (op_forward operation) \<or> addresses i (op_inverse operation)"

definition kept_history :: "thought_id \<Rightarrow> nat \<Rightarrow> board_operation list \<Rightarrow> board_operation list" where
  "kept_history i c H = (case index_of (concerns i) (drop c H) of None \<Rightarrow> H | Some k \<Rightarrow> take (c + k) H)"

lemma find_index_of: "List.find P xs = map_option (\<lambda>k. xs ! k) (index_of P xs)"
  by (induction xs) (auto simp: option.map_comp comp_def)

lemma index_of_bound: "index_of P xs = Some k \<Longrightarrow> k < length xs"
  by (induction xs arbitrary: k) (auto split: if_splits)

lemma index_of_mapped: "index_of P (map f xs) = index_of (\<lambda>x. P (f x)) xs"
  by (induction xs) simp_all

lemma session_ok_delete:
  assumes "session_ok operations receipts sid cursor durable" "cursor \<le> int n" "n \<le> length (filter (\<lambda>w. ow_session_id w = sid) operations)"
  shows "session_ok (filter (\<lambda>w. \<not> (ow_session_id w = sid \<and> ow_index w \<ge> int n)) operations) receipts sid cursor durable"
    "sort_key ow_index (filter (\<lambda>w. ow_session_id w = sid) (filter (\<lambda>w. \<not> (ow_session_id w = sid \<and> ow_index w \<ge> int n)) operations))
      = take n (sort_key ow_index (filter (\<lambda>w. ow_session_id w = sid) operations))"
proof -
  have g: "gapless ow_index (filter (\<lambda>w. ow_session_id w = sid) operations)" using assms(1) by (simp add: session_ok_def)
  note below = gapless_below [OF g assms(3)]
  show "sort_key ow_index (filter (\<lambda>w. ow_session_id w = sid) (filter (\<lambda>w. \<not> (ow_session_id w = sid \<and> ow_index w \<ge> int n)) operations))
      = take n (sort_key ow_index (filter (\<lambda>w. ow_session_id w = sid) operations))" unfolding filter_own by (fact below(1))
  show "session_ok (filter (\<lambda>w. \<not> (ow_session_id w = sid \<and> ow_index w \<ge> int n)) operations) receipts sid cursor durable"
    using assms below(2,3) unfolding session_ok_def filter_own within_def by simp
qed

lemma truncate_board_redo_ok:
  assumes row: "session_row_of db sid = Some r"
    and ok: "session_ok (db_operations db) (db_receipts db) sid (sr_cursor r) durable"
    and t: "store_truncate_board_redo sid i db = Inr db'"
  shows "\<exists>ops. db' = db\<lparr>db_operations := ops\<rparr> \<and> set ops \<subseteq> set (db_operations db)
    \<and> session_ok ops (db_receipts db) sid (sr_cursor r) durable
    \<and> map ow_payload (sort_key ow_index (filter (\<lambda>w. ow_session_id w = sid) ops)) = kept_history i (nat (sr_cursor r)) (history_of db sid)
    \<and> (\<forall>j c d. j \<noteq> sid \<longrightarrow> session_ok (db_operations db) (db_receipts db) j c d \<longrightarrow> session_ok ops (db_receipts db) j c d)"
proof -
  let ?c = "nat (sr_cursor r)" and ?rows = "filter (\<lambda>w. ow_session_id w = sid) (db_operations db)"
  have g: "gapless ow_index ?rows" and c: "sr_cursor r = int ?c" "?c \<le> length ?rows"
    using ok by (auto simp: session_ok_def within_def)
  let ?S = "sort_key ow_index ?rows"
  let ?k = "index_of (\<lambda>w. concerns i (ow_payload w)) (drop ?c ?S)"
  have k: "index_of (concerns i) (drop ?c (history_of db sid)) = ?k"
    unfolding history_of_def operation_rows_def drop_map index_of_mapped ..
  have find: "List.find (\<lambda>w. concerns i (ow_payload w)) (sort_key ow_index (filter (\<lambda>w. ow_index w \<ge> sr_cursor r) (operation_rows db sid)))
      = map_option (\<lambda>k. ?S ! (?c + k)) ?k"
  proof -
    have "sort_key ow_index (filter (\<lambda>w. ow_index w \<ge> sr_cursor r) (operation_rows db sid)) = drop ?c ?S"
      using gapless_from [OF g, of ?c] c(1) by (simp add: operation_rows_def)
    then show ?thesis using c(2) by (cases ?k) (auto simp: find_index_of dest: index_of_bound)
  qed
  have db': "db' = (case List.find (\<lambda>w. concerns i (ow_payload w)) (sort_key ow_index (filter (\<lambda>w. ow_index w \<ge> sr_cursor r) (operation_rows db sid))) of
      None \<Rightarrow> db | Some w \<Rightarrow> delete_operations_from sid (ow_index w) db)"
    using t by (simp add: store_truncate_board_redo_def row)
  show ?thesis
  proof (cases ?k)
    case None
    have "db' = db" unfolding db' find None by simp
    moreover have "kept_history i ?c (history_of db sid) = history_of db sid" unfolding kept_history_def k None by simp
    ultimately show ?thesis using ok by (intro exI [of _ "db_operations db"]) (simp add: history_of_def operation_rows_def)
  next
    case (Some k)
    have b: "?c + k < length ?rows" using index_of_bound [OF Some] by simp
    have "ow_index (?S ! (?c + k)) = int (?c + k)" by (rule gapless_nth [OF g b])
    then have db': "db' = delete_operations_from sid (int (?c + k)) db" unfolding db' find Some by simp
    have le: "sr_cursor r \<le> int (?c + k)" using c(1) by simp
    note del = session_ok_delete [OF ok le less_imp_le [OF b]]
    let ?ops = "filter (\<lambda>w. \<not> (ow_session_id w = sid \<and> ow_index w \<ge> int (?c + k))) (db_operations db)"
    show ?thesis
    proof (intro exI [of _ ?ops] conjI allI impI)
      show "db' = db\<lparr>db_operations := ?ops\<rparr>" unfolding db' delete_operations_from_def ..
      show "map ow_payload (sort_key ow_index (filter (\<lambda>w. ow_session_id w = sid) ?ops)) = kept_history i ?c (history_of db sid)"
        unfolding del(2) kept_history_def k Some by (simp add: take_map history_of_def operation_rows_def)
      show "set ?ops \<subseteq> set (db_operations db)" by auto
      show "session_ok ?ops (db_receipts db) sid (sr_cursor r) durable" by (fact del(1))
      show "session_ok ?ops (db_receipts db) j c d" if "j \<noteq> sid" "session_ok (db_operations db) (db_receipts db) j c d" for j c d
        by (rule session_ok_other(2) [OF that])
    qed
  qed
qed

section \<open>Appending to an editor's history\<close>

definition set_cursor :: "thought_id \<Rightarrow> int \<Rightarrow> (thought_id \<times> session_id \<times> int) list \<Rightarrow> (thought_id \<times> session_id \<times> int) list" where
  "set_cursor i c keys = map (\<lambda>k. if fst k = i then (i, fst (snd k), c) else k) keys"

lemma set_cursor_keys: "map fst (set_cursor i c keys) = map fst keys" "fst ` set (set_cursor i c keys) = fst ` set keys"
proof -
  show f: "map fst (set_cursor i c keys) = map fst keys" by (simp add: set_cursor_def comp_def)
  from arg_cong [OF f, of set] show "fst ` set (set_cursor i c keys) = fst ` set keys" by simp
qed

lemma set_cursor_all:
  "(\<And>j s x. (j, s, x) \<in> set keys \<Longrightarrow> P (j, s, if j = i then c else x)) \<Longrightarrow> k \<in> set (set_cursor i c keys) \<Longrightarrow> P k"
proof -
  assume all: "\<And>j s x. (j, s, x) \<in> set keys \<Longrightarrow> P (j, s, if j = i then c else x)" and "k \<in> set (set_cursor i c keys)"
  then obtain q where q: "q \<in> set keys" "k = (if fst q = i then (i, fst (snd q), c) else q)"
    unfolding set_cursor_def set_map by blast
  obtain j s x where "q = (j, s, x)" by (metis prod_cases3)
  with all [of j s x] q show "P k" by (cases "j = i") simp_all
qed

lemma editors_ok_move:
  assumes ok: "editors_ok keys revisions"
    and c: "within c (length (filter (\<lambda>w. vw_thought_id w = i) revisions))"
  shows "editors_ok (set_cursor i c keys) revisions"
proof -
  have "editor_ok revisions k" if "k \<in> set (set_cursor i c keys)" for k
  proof (rule set_cursor_all [OF _ that, of "editor_ok revisions"])
    fix j s x assume "(j, s, x) \<in> set keys"
    then have "editor_ok revisions (j, s, x)" using ok by (auto simp: editors_ok_def)
    then show "editor_ok revisions (j, s, if j = i then c else x)" using c by (cases "j = i") simp_all
  qed
  then show ?thesis using ok unfolding editors_ok_def set_cursor_keys by blast
qed

lemma editors_ok_push:
  assumes ok: "editors_ok keys revisions" and key: "(i, s, c) \<in> set keys"
    and w: "vw_thought_id w = i" "vw_session_id w = s" "vw_index w = c"
  shows "editors_ok (set_cursor i (c + 1) keys)
      (filter (\<lambda>w. \<not> (vw_thought_id w = i \<and> vw_index w \<ge> c)) revisions @ [w])"
    "sort_key vw_index (filter (\<lambda>w. vw_thought_id w = i) (filter (\<lambda>w. \<not> (vw_thought_id w = i \<and> vw_index w \<ge> c)) revisions @ [w]))
      = take (nat c) (sort_key vw_index (filter (\<lambda>w. vw_thought_id w = i) revisions)) @ [w]"
proof -
  let ?R = "filter (\<lambda>w. \<not> (vw_thought_id w = i \<and> vw_index w \<ge> c)) revisions"
  let ?own = "filter (\<lambda>w. vw_thought_id w = i) revisions"
  have o: "editor_ok revisions (i, s, c)" using ok key by (auto simp: editors_ok_def)
  then have c: "0 \<le> c" "nat c \<le> length ?own" and g: "gapless vw_index ?own" by (auto simp: within_def)
  note below = gapless_below [OF g c(2), unfolded int_nat_eq if_P [OF c(1)]]
  have at: "vw_index w = int (length (filter (\<lambda>w. vw_index w < c) ?own))" using below(2) c(1) w(3) by simp
  note append = gapless_append [OF below(3) at]
  have f: "filter (\<lambda>w. vw_thought_id w = i) (?R @ [w]) = filter (\<lambda>w. vw_index w < c) ?own @ [w]"
    unfolding filter_append filter_own using w(1) by simp
  show "sort_key vw_index (filter (\<lambda>w. vw_thought_id w = i) (?R @ [w])) = take (nat c) (sort_key vw_index ?own) @ [w]"
    unfolding f append(1) below(1) ..
  have drop: "editors_ok keys ?R" by (rule editors_ok_drop [OF ok key])
  have mem: "i \<in> fst ` set keys" using key by force
  have all: "editor_ok (?R @ [w]) k" if "k \<in> set (set_cursor i (c + 1) keys)" for k
  proof (rule set_cursor_all [OF _ that, of "editor_ok (?R @ [w])"])
    fix j s0 c0 assume jk: "(j, s0, c0) \<in> set keys"
    show "editor_ok (?R @ [w]) (j, s0, if j = i then c + 1 else c0)"
    proof (cases "j = i")
      case True
      have "(s0, c0) = (s, c)" using eq_key_imp_eq_value [of keys i "(s0, c0)" "(s, c)"] ok key jk True by (simp add: editors_ok_def)
      moreover have "gapless vw_index (filter (\<lambda>w. vw_thought_id w = i) (?R @ [w]))"
        "length (filter (\<lambda>w. vw_thought_id w = i) (?R @ [w])) = Suc (nat c)" unfolding f using append(2) below(2) by simp_all
      ultimately show ?thesis using o c w(2) True unfolding editor_ok.simps within_def by auto
    next
      case False
      have "editor_ok ?R (j, s0, c0)" using drop jk by (auto simp: editors_ok_def)
      then show ?thesis using False w(1) unfolding editor_ok.simps filter_append by auto
    qed
  qed
  have "\<forall>v \<in> set (?R @ [w]). vw_thought_id v \<in> fst ` set keys" using drop mem w(1) by (auto simp: editors_ok_def)
  then show "editors_ok (set_cursor i (c + 1) keys) (?R @ [w])"
    using ok all unfolding editors_ok_def set_cursor_keys by blast
qed

section \<open>Writing the content of a thought\<close>

lemma write_holds:
  assumes h: "holds db b" and rows: "db_thoughts db' = map (\<lambda>r. if t_id (tw_thought r) = rev_thought_id r0
      then r\<lparr>tw_thought := (tw_thought r)\<lparr>t_content := after_content r0, t_annotations := after_annotations r0,
        t_updated_at := rev_created_at r0\<rparr>, tw_cursor := c\<rparr> else r) (db_thoughts db)"
    and seps: "db_separators db' = db_separators db"
    and ok: "validate b' = Inr ()" "marks_ok b'" "b' = (edited r0 b)\<lparr>b_counters := k\<rparr>"
    and session: "\<exists>r. session_row_of db' (ses_id (b_session b)) = Some r \<and> session_validate (sr_session r) = Inr ()
      \<and> sr_image_high r = uint (image_counter k) \<and> sr_file_high r = uint (file_counter k)"
  shows "holds db' b'"
proof -
  let ?sid = "ses_id (b_session b)"
  let ?g = "\<lambda>t. if t_id t = rev_thought_id r0 then t\<lparr>t_content := after_content r0, t_annotations := after_annotations r0,
        t_updated_at := rev_created_at r0\<rparr> else t"
  let ?G = "\<lambda>r. if t_id (tw_thought r) = rev_thought_id r0
      then r\<lparr>tw_thought := (tw_thought r)\<lparr>t_content := after_content r0, t_annotations := after_annotations r0,
        t_updated_at := rev_created_at r0\<rparr>, tw_cursor := c\<rparr> else r"
  have tr: "thought_rows db' ?sid = map ?G (thought_rows db ?sid)"
    unfolding thought_rows_def rows filter_map by (auto simp: comp_def intro!: arg_cong [of _ _ "map _"] filter_cong)
  have sr: "separator_rows db' ?sid = separator_rows db ?sid" by (simp add: separator_rows_def seps)
  have "row_thought (?G r) = ?g (row_thought r)" for r by (simp add: row_thought_def)
  then have "map row_thought (thought_rows db' ?sid) = map ?g (map row_thought (thought_rows db ?sid))" by (simp add: tr)
  from arg_cong [OF this, of mset] have "mset (map row_thought (thought_rows db' ?sid)) = image_mset ?g (mset (map row_thought (thought_rows db ?sid)))"
    by (simp only: mset_map)
  moreover have "mset (map row_thought (thought_rows db ?sid)) = mset (b_thoughts b)" using h unfolding holds_def by blast
  moreover have "b_thoughts b' = map ?g (b_thoughts b)"
  proof -
    have "distinct (map t_id (b_thoughts b))" using h by (auto simp: holds_def validate_iff board_inv_def)
    then show ?thesis unfolding ok(3) edited_def thought_mut_def by (simp add: update_first_map)
  qed
  ultimately have m: "mset (map row_thought (thought_rows db' ?sid)) = mset (b_thoughts b')" by (simp only: mset_map)
  have p: "\<forall>r \<in> set (thought_rows db' ?sid). in_u32 (tw_position r)" using h unfolding tr by (auto simp: holds_def)
  show ?thesis using h session ok m p unfolding holds_def sr by (simp add: sr)
qed

section \<open>Commits of revisions\<close>

lemma persist_counters_row:
  assumes "persist_counters sid k db = Inr db'"
  shows "db_sessions db' = map (\<lambda>r. if ses_id (sr_session r) = sid then raise_marks k r else r) (db_sessions db)
    \<and> db_thoughts db' = db_thoughts db \<and> db_separators db' = db_separators db \<and> db_operations db' = db_operations db
    \<and> db_revisions db' = db_revisions db \<and> db_receipts db' = db_receipts db"
  using assms by (auto simp: persist_counters_def update_session_row_def raise_marks_def)

lemma persist_revision_tables:
  assumes "persist_revision revision cursor db = Inr db'"
  obtains w where "vw_thought_id w = rev_thought_id revision" "vw_session_id w = rev_session_id revision" "vw_index w = cursor"
    "vw_payload w = revision" "vw_id w = rev_id revision" "vw_sequence w = uint (rev_sequence revision)"
    "db_revisions db' = filter (\<lambda>w. \<not> (vw_thought_id w = rev_thought_id revision \<and> vw_index w \<ge> cursor)) (db_revisions db) @ [w]"
    "db_thoughts db' = map (\<lambda>r. if t_id (tw_thought r) = rev_thought_id revision
      then r\<lparr>tw_thought := (tw_thought r)\<lparr>t_content := after_content revision, t_annotations := after_annotations revision,
        t_updated_at := rev_created_at revision\<rparr>, tw_cursor := cursor + 1\<rparr> else r) (db_thoughts db)"
    "db_sessions db' = db_sessions db" "db_separators db' = db_separators db" "db_operations db' = db_operations db"
    "db_receipts db' = db_receipts db"
proof -
  let ?w = "\<lparr>vw_id = rev_id revision, vw_session_id = rev_session_id revision, vw_thought_id = rev_thought_id revision,
     vw_index = cursor, vw_sequence = uint (rev_sequence revision), vw_payload = revision, vw_created_at = rev_created_at revision\<rparr>"
  from assms obtain d where d: "insert_revision ?w (delete_revisions_from (rev_thought_id revision) cursor db) = Inr d"
    "db' = write_content (rev_thought_id revision) (after_content revision) (after_annotations revision) (rev_created_at revision) (cursor + 1) d"
    by (auto simp: persist_revision_def sequence_to_i64_Inr checked_add_i64_def split: if_splits)
  then show thesis
    by (intro that [of ?w])
      (auto simp: insert_revision_def write_content_def update_thought_row_def delete_revisions_from_def split: if_splits)
qed

lemma update_sequence_tables:
  assumes "update_session_sequence sid q at db = Inr db'"
  shows "db_sessions db' = map (\<lambda>r. if ses_id (sr_session r) = sid then r\<lparr>sr_session := (sr_session r)\<lparr>last_durable_sequence := q,
      last_active_at := max (last_active_at (sr_session r)) at\<rparr>\<rparr> else r) (db_sessions db)
    \<and> db_thoughts db' = db_thoughts db \<and> db_separators db' = db_separators db \<and> db_operations db' = db_operations db
    \<and> db_revisions db' = db_revisions db \<and> db_receipts db' = db_receipts db"
proof -
  from assms obtain d where d: "invalidate_activity_conflicts sid db = Inr d"
    "db' = update_session_row sid (\<lambda>r. r\<lparr>sr_session := (sr_session r)\<lparr>last_durable_sequence := q,
      last_active_at := max (last_active_at (sr_session r)) at\<rparr>\<rparr>) d"
    by (auto simp: update_session_sequence_def)
  show ?thesis using invalidate_activity_conflicts_frame [OF d(1), unfolded beside_browser_def prod.inject] d(2)
    by (simp add: update_session_row_def)
qed

lemma revision_cursor_Inr:
  assumes "revision_cursor revision db = Inr cursor"
  obtains r where "thought_row_of db (rev_thought_id revision) = Some r" "t_session_id (tw_thought r) = rev_session_id revision"
    "t_is_live (tw_thought r)" "t_content (tw_thought r) = before_content revision" "t_annotations (tw_thought r) = before_annotations revision"
    "tw_cursor r = cursor"
  using assms by (auto simp: revision_cursor_def Let_def split: if_splits)

lemma find_updated:
  "(\<And>x. key (f x) = key x) \<Longrightarrow>
    List.find (\<lambda>x. key x = k) (map (\<lambda>x. if key x = k then f x else x) xs) = map_option f (List.find (\<lambda>x. key x = k) xs)"
  by (induction xs) auto

lemma held_revision_ok:
  assumes h: "holds db b" and sid: "ses_id (b_session b) = rev_session_id revision"
    and c: "revision_cursor revision db = Inr cursor" and v: "validate (edited revision b) = Inr ()"
    and t: "thought_of b (rev_thought_id revision) = Some t"
  shows "revision_validate_annotations revision = Inr ()"
proof -
  from c obtain r where r: "thought_row_of db (rev_thought_id revision) = Some r" "t_session_id (tw_thought r) = rev_session_id revision"
      "t_content (tw_thought r) = before_content revision" "t_annotations (tw_thought r) = before_annotations revision"
    by (rule revision_cursor_Inr)
  then have "r \<in> set (thought_rows db (ses_id (b_session b)))"
    by (auto simp: sid thought_rows_def thought_row_of_def dest: find_Some_iff_mem)
  then have "row_thought r \<in> set (map row_thought (thought_rows db (ses_id (b_session b))))" by simp
  moreover have "mset (map row_thought (thought_rows db (ses_id (b_session b)))) = mset (b_thoughts b)" using h unfolding holds_def by blast
  ultimately have "row_thought r \<in> set (b_thoughts b)" using mset_eq_setD by blast
  then have "t_ok (row_thought r)" using h by (auto simp: holds_def validate_iff)
  then have "anns_ok (before_content revision) 0 (before_annotations revision)" using r(3,4) by (simp add: t_ok_def row_thought_def)
  moreover have "t\<lparr>t_content := after_content revision, t_annotations := after_annotations revision, t_updated_at := rev_created_at revision\<rparr>
      \<in> set (b_thoughts (edited revision b))"
    unfolding edited_def thought_mut_def by simp (rule update_first_hit [OF t [unfolded thought_of_def]])
  then have "anns_ok (after_content revision) 0 (after_annotations revision)" using v by (auto simp: validate_iff t_ok_def)
  ultimately show ?thesis by (simp add: revision_validate_annotations_def validate_annotations_iff)
qed

lemma commit_revision_effect:
  assumes inv: "store_inv db" and h: "holds db b" and sid: "ses_id (b_session b) = rev_session_id revision"
    and row: "session_row_of db (rev_session_id revision) = Some r"
    and commit: "commit_revision request_digest revision fp db = Inr (receipt, db')" "\<not> rc_idempotent_replay receipt"
  shows "\<exists>b' r' old. observe_attachments (edited revision b) = Inr b' \<and> holds db' b' \<and> store_inv db'
     \<and> session_row_of db' (rev_session_id revision) = Some r' \<and> sr_cursor r' = sr_cursor r
     \<and> last_durable_sequence (sr_session r') = rev_sequence revision
     \<and> uint (rev_sequence revision) = uint (last_durable_sequence (sr_session r)) + 1
     \<and> history_of db' (rev_session_id revision)
        = kept_history (rev_thought_id revision) (nat (sr_cursor r)) (history_of db (rev_session_id revision))
     \<and> thought_row_of db (rev_thought_id revision) = Some old
     \<and> t_content (tw_thought old) = before_content revision \<and> t_annotations (tw_thought old) = before_annotations revision
     \<and> revisions_of db' (rev_thought_id revision)
        = take (nat (tw_cursor old)) (revisions_of db (rev_thought_id revision)) @ [revision]
     \<and> map_option tw_cursor (thought_row_of db' (rev_thought_id revision)) = Some (tw_cursor old + 1)"
  using commit(1)
proof (cases rule: commit_revisionE)
  case replay
  then show ?thesis using commit(2) not_replayed by blast
next
  case (fresh x cursor d1 d2 d3 d4)
  let ?sid = "rev_session_id revision" and ?i = "rev_thought_id revision"
  from fresh(2) row have q: "uint (rev_sequence revision) = uint (last_durable_sequence (sr_session r)) + 1" "uint (rev_sequence revision) \<le> i64_top"
    by (auto elim!: require_next_Inr)
  from fresh(3) obtain old where old: "thought_row_of db ?i = Some old" "t_session_id (tw_thought old) = ?sid"
      "t_content (tw_thought old) = before_content revision" "t_annotations (tw_thought old) = before_annotations revision" "tw_cursor old = cursor"
    by (rule revision_cursor_Inr)
  obtain t k where t: "thought_of b ?i = Some t" and v: "validate (edited revision b) = Inr ()"
    and k: "observe (b_counters b) (after_annotations revision) = Inr k" "persist_counters ?sid k db = Inr d1"
    by (rule number_edit [OF h sid fresh(4)])
  let ?b = "(edited revision b)\<lparr>b_counters := k\<rparr>"
  have m: "marks_ok b" using h by (simp add: holds_def)
  have o: "observe_attachments (edited revision b) = Inr ?b" by (rule observe_edited [OF m t k(1)])
  have le: "le_counters k max_marks" using persist_counters_bound [OF k(2)] .
  have mb: "marks_ok ?b" using edited_marks [OF o] le by simp
  have vb: "validate ?b = Inr ()" using v validate_undated undated_counters by metis
  have rev_ok: "revision_validate_annotations revision = Inr ()" by (rule held_revision_ok [OF h sid fresh(3) v t])
  note t1 = persist_counters_row [OF k(2)]
  have s1: "session_row_of d1 ?sid = Some (raise_marks k r)"
    using session_row_of_map [of d1 ?sid "raise_marks k" db ?sid] t1 row by (simp add: raise_marks_def)
  have ok0: "session_ok (db_operations db) (db_receipts db) ?sid (sr_cursor r) (last_durable_sequence (sr_session r))"
    using inv session_in [OF row] by (auto simp: store_inv_def)
  have e1: "db_operations d1 = db_operations db" "db_receipts d1 = db_receipts db" "history_of d1 ?sid = history_of db ?sid"
    using t1 by (simp_all add: history_of_def operation_rows_def)
  obtain ops where d2: "d2 = d1\<lparr>db_operations := ops\<rparr>" and ops: "set ops \<subseteq> set (db_operations db)"
      "session_ok ops (db_receipts db) ?sid (sr_cursor r) (last_durable_sequence (sr_session r))"
      "map ow_payload (sort_key ow_index (filter (\<lambda>w. ow_session_id w = ?sid) ops)) = kept_history ?i (nat (sr_cursor r)) (history_of db ?sid)"
      "\<And>j c d. j \<noteq> ?sid \<Longrightarrow> session_ok (db_operations db) (db_receipts db) j c d \<Longrightarrow> session_ok ops (db_receipts db) j c d"
    using truncate_board_redo_ok [OF s1 _ fresh(5), of "last_durable_sequence (sr_session r)", unfolded e1 raise_marks_simps, OF ok0]
    by blast
  from fresh(6) show ?thesis
  proof (rule persist_revision_tables)
    fix w assume w: "vw_thought_id w = ?i" "vw_session_id w = ?sid" "vw_index w = cursor" "vw_payload w = revision"
        "vw_id w = rev_id revision" "vw_sequence w = uint (rev_sequence revision)"
      and t3: "db_revisions d3 = filter (\<lambda>w. \<not> (vw_thought_id w = ?i \<and> vw_index w \<ge> cursor)) (db_revisions d2) @ [w]"
        "db_thoughts d3 = map (\<lambda>r. if t_id (tw_thought r) = ?i
          then r\<lparr>tw_thought := (tw_thought r)\<lparr>t_content := after_content revision, t_annotations := after_annotations revision,
            t_updated_at := rev_created_at revision\<rparr>, tw_cursor := cursor + 1\<rparr> else r) (db_thoughts d2)"
        "db_sessions d3 = db_sessions d2" "db_separators d3 = db_separators d2" "db_operations d3 = db_operations d2"
        "db_receipts d3 = db_receipts d2"
    let ?f = "\<lambda>p. (raise_marks k p)\<lparr>sr_session := (sr_session p)\<lparr>last_durable_sequence := rev_sequence revision,
      last_active_at := max (last_active_at (sr_session p)) (rev_created_at revision)\<rparr>\<rparr>"
    note t4 = fresh(7) [unfolded insert_receipt_Inr]
    note t5 = update_sequence_tables [OF fresh(8)]
    obtain kw where recs: "db_receipts db' = db_receipts db @ [kw]" and kw: "kw_session_id kw = ?sid" "kw_sequence kw = uint (rev_sequence revision)"
      using t4 t5 t3(6) t1 d2 by auto
    have sess: "db_sessions db' = map (\<lambda>p. if ses_id (sr_session p) = ?sid then ?f p else p) (db_sessions db)"
      using t5 t4 t3(3) t1 by (simp add: d2 comp_def if_distrib cong: if_cong)
    have revs: "db_revisions db' = filter (\<lambda>w. \<not> (vw_thought_id w = ?i \<and> vw_index w \<ge> cursor)) (db_revisions db) @ [w]"
      and ths: "db_thoughts db' = map (\<lambda>r. if t_id (tw_thought r) = ?i
          then r\<lparr>tw_thought := (tw_thought r)\<lparr>t_content := after_content revision, t_annotations := after_annotations revision,
            t_updated_at := rev_created_at revision\<rparr>, tw_cursor := cursor + 1\<rparr> else r) (db_thoughts db)"
      and seps: "db_separators db' = db_separators db" and opsd: "db_operations db' = ops"
      using t5 t4 t3 t1 by (simp_all add: d2)
    have fid: "ses_id (sr_session (?f p)) = ses_id (sr_session p)" for p by simp
    have row': "session_row_of db' ?sid = Some (?f r)" by (simp add: session_row_of_map [OF sess fid] row)
    have holds': "holds db' ?b"
    proof (rule write_holds [OF h ths seps vb mb refl])
      have "le_counters (b_counters b) k" using observe_mono [OF k(1), of "b_counters b"] by (simp add: le_counters_def)
      then have "uint (image_counter (b_counters b)) \<le> uint (image_counter k)" "uint (file_counter (b_counters b)) \<le> uint (file_counter k)"
        by (simp_all add: le_counters_iff word_le_def)
      moreover have "session_validate (sr_session r) = Inr ()" "sr_image_high r = uint (image_counter (b_counters b))"
        "sr_file_high r = uint (file_counter (b_counters b))" using h row by (auto simp: holds_def sid)
      ultimately show "\<exists>r. session_row_of db' (ses_id (b_session b)) = Some r \<and> session_validate (sr_session r) = Inr ()
          \<and> sr_image_high r = uint (image_counter k) \<and> sr_file_high r = uint (file_counter k)"
        using row' by (simp add: sid session_validate_def raise_marks_def)
    qed
    have keys: "map editor_key (db_thoughts db') = set_cursor ?i (cursor + 1) (map editor_key (db_thoughts db))"
      by (simp add: ths set_cursor_def editor_key_def)
    have eds: "editors_ok (map editor_key (db_thoughts db)) (db_revisions db)" using inv by (simp add: store_inv_def)
    have old_in: "old \<in> set (db_thoughts db)" "t_id (tw_thought old) = ?i"
      using old(1) by (auto simp: thought_row_of_def dest: find_Some_iff_mem)
    then have key: "(?i, ?sid, cursor) \<in> set (map editor_key (db_thoughts db))" using old(2,5) by (force simp: editor_key_def)
    note push = editors_ok_push [OF eds key w(1,2,3)]
    have "store_inv db'"
    proof (rule store_inv_commit [OF inv row sess fid])
      show "session_ok (db_operations db') (db_receipts db') ?sid (sr_cursor (?f r)) (last_durable_sequence (sr_session (?f r)))"
        unfolding opsd recs using session_ok_receipt [OF ops(2) kw q] by simp
      show "session_ok (db_operations db') (db_receipts db') j c d"
        if "j \<noteq> ?sid" "session_ok (db_operations db) (db_receipts db) j c d" for j c d
        unfolding opsd recs by (rule session_ok_other(3) [OF that(1) ops(4) [OF that] kw(1)])
      show "\<forall>w \<in> set (db_operations db'). w \<in> set (db_operations db) \<or> operation_row_ok w \<and> ow_session_id w = ?sid"
        using ops(1) opsd by auto
      show "distinct (map (\<lambda>r. sep_id (sw_separator r)) (db_separators db'))" using inv seps by (simp add: store_inv_def)
      show "editors_ok (map editor_key (db_thoughts db')) (db_revisions db')" unfolding keys revs by (fact push(1))
      show "\<forall>w \<in> set (db_revisions db'). revision_row_ok w"
        unfolding revs using inv w rev_ok by (auto simp: store_inv_def revision_row_ok_def)
      show "\<forall>k \<in> set (db_receipts db'). k \<in> set (db_receipts db) \<or> kw_session_id k = ?sid" using recs kw(1) by auto
    qed
    moreover have "revisions_of db' ?i = take (nat (tw_cursor old)) (revisions_of db ?i) @ [revision]"
      using arg_cong [OF push(2), of "map vw_payload"] unfolding revisions_of_def revision_rows_def revs
      by (simp add: take_map w(4) old(5))
    moreover have "map_option tw_cursor (thought_row_of db' ?i) = Some (tw_cursor old + 1)"
      unfolding thought_row_of_def ths by (subst find_updated) (use old(1,5) in \<open>simp_all add: thought_row_of_def\<close>)
    moreover have "history_of db' ?sid = kept_history ?i (nat (sr_cursor r)) (history_of db ?sid)"
      using ops(3) by (simp add: history_of_def operation_rows_def opsd)
    ultimately show ?thesis using o holds' row' q(1) old by auto
  qed
qed

end
