(* ===== verification/Store_Moves.thy ===== *)
theory Store_Moves
  imports Store_Edits
begin

text \<open>
  History moves and same-value renames in the store (\<open>commit_history_move\<close>, \<open>commit_noop_rename\<close>,
  \<open>src/src/adapters/sqlite/history_commit.rs\<close>): a move applies the inverse or the forward mutation
  of the operation before or behind the cursor and moves the cursor by one; the histories stay as they are.
\<close>

section \<open>Closing a commit\<close>

definition receive :: "operation_sequence \<Rightarrow> timestamp \<Rightarrow> session_row \<Rightarrow> session_row" where
  "receive q at r = r\<lparr>sr_session := (sr_session r)\<lparr>last_durable_sequence := q, last_active_at := max (last_active_at (sr_session r)) at\<rparr>\<rparr>"

lemma receive_simps [simp]:
  "ses_id (sr_session (receive q at r)) = ses_id (sr_session r)" "last_durable_sequence (sr_session (receive q at r)) = q"
  "sr_cursor (receive q at r) = sr_cursor r" "sr_image_high (receive q at r) = sr_image_high r"
  "sr_file_high (receive q at r) = sr_file_high r" "session_validate (sr_session (receive q at r)) = session_validate (sr_session r)"
  by (simp_all add: receive_def session_validate_def)

text \<open>What a commit leaves behind besides the items it changed.\<close>

definition sealed :: "database \<Rightarrow> session_id \<Rightarrow> operation_sequence \<Rightarrow> timestamp \<Rightarrow> database \<Rightarrow> bool" where
  "sealed d sid q at db' \<longleftrightarrow>
     db_sessions db' = map (\<lambda>r. if ses_id (sr_session r) = sid then receive q at r else r) (db_sessions d)
     \<and> db_thoughts db' = db_thoughts d \<and> db_separators db' = db_separators d \<and> db_operations db' = db_operations d
     \<and> db_revisions db' = db_revisions d
     \<and> (\<exists>k. db_receipts db' = db_receipts d @ [k] \<and> kw_session_id k = sid \<and> kw_sequence k = uint q)"

lemma sealedI:
  assumes "insert_receipt k d = Inr d2" "kw_session_id k = sid" "kw_sequence k = uint q" "update_session_sequence sid q at d2 = Inr db'"
  shows "sealed d sid q at db'"
  using assms(1) [unfolded insert_receipt_Inr] update_sequence_tables [OF assms(4)] assms(2,3)
  by (simp add: sealed_def receive_def)

lemma sealed_row:
  "sealed d sid q at db' \<Longrightarrow> session_row_of db' sid = map_option (receive q at) (session_row_of d sid)"
  using session_row_of_map [of db' sid "receive q at" d sid] by (cases "session_row_of d sid") (simp_all add: sealed_def)

lemma sealed_holds:
  assumes "sealed d sid q at db'" "holds d b" "ses_id (b_session b) = sid"
  shows "holds db' b"
proof (rule holds_transfer [OF assms(2)])
  show "db_thoughts db' = db_thoughts d" "db_separators db' = db_separators d" using assms(1) by (simp_all add: sealed_def)
  fix r assume "session_row_of d (ses_id (b_session b)) = Some r"
  then show "\<exists>r'. session_row_of db' (ses_id (b_session b)) = Some r' \<and> session_validate (sr_session r') = session_validate (sr_session r)
        \<and> sr_image_high r' = sr_image_high r \<and> sr_file_high r' = sr_file_high r"
    using sealed_row [OF assms(1)] assms(3) by simp
qed

lemma sealed_inv:
  assumes inv: "store_inv db" and row: "session_row_of db sid = Some r"
    and s: "sealed d sid q at db'" and q: "uint q = uint (last_durable_sequence (sr_session r)) + 1" "uint q \<le> i64_top"
    and d: "db_sessions d = map (\<lambda>r. if ses_id (sr_session r) = sid then g r else r) (db_sessions db)"
      "\<And>p. sr_session (g p) = sr_session p" "db_operations d = db_operations db" "db_receipts d = db_receipts db"
      "db_revisions d = db_revisions db"
    and cursor: "within (sr_cursor (g r)) (length (operation_rows db sid))"
    and editors: "editors_ok (map editor_key (db_thoughts d)) (db_revisions db)"
    and separators: "distinct (map (\<lambda>r. sep_id (sw_separator r)) (db_separators d))"
  shows "store_inv db'"
proof -
  from s obtain k where k: "db_receipts db' = db_receipts db @ [k]" "kw_session_id k = sid" "kw_sequence k = uint q"
    by (auto simp: sealed_def d)
  have sess: "db_sessions db' = map (\<lambda>r. if ses_id (sr_session r) = sid then receive q at (g r) else r) (db_sessions db)"
    using s by (simp add: sealed_def d(1,2) comp_def if_distrib cong: if_cong)
  have ok: "session_ok (db_operations db) (db_receipts db) sid (sr_cursor r) (last_durable_sequence (sr_session r))"
    using inv session_in [OF row] by (auto simp: store_inv_def)
  then have ok: "session_ok (db_operations db) (db_receipts db) sid (sr_cursor (g r)) (last_durable_sequence (sr_session r))"
    using cursor by (simp add: session_ok_def operation_rows_def)
  have ops: "db_operations db' = db_operations db" and revs: "db_revisions db' = db_revisions db"
    using s d by (simp_all add: sealed_def)
  show ?thesis
  proof (rule store_inv_commit [OF inv row sess])
    show "ses_id (sr_session (receive q at (g p))) = ses_id (sr_session p)" for p by (simp add: d(2))
    show "session_ok (db_operations db') (db_receipts db') sid (sr_cursor (receive q at (g r))) (last_durable_sequence (sr_session (receive q at (g r))))"
      unfolding ops k(1) using session_ok_receipt [OF ok k(2,3) q] by simp
    show "session_ok (db_operations db') (db_receipts db') j c e"
      if "j \<noteq> sid" "session_ok (db_operations db) (db_receipts db) j c e" for j c e
      unfolding ops k(1) by (rule session_ok_other(3) [OF that k(2)])
    show "editors_ok (map editor_key (db_thoughts db')) (db_revisions db')"
      using editors s revs by (simp add: sealed_def)
  qed (use k ops revs s separators inv in \<open>auto simp: sealed_def store_inv_def\<close>)
qed

section \<open>Same-value renames\<close>

lemma commit_noop_rename_keeps:
  assumes inv: "store_inv db" and row: "session_row_of db sid = Some r"
    and commit: "commit_noop_rename request_digest oid sid i name q at fp db = Inr (receipt, db')"
  shows "store_inv db' \<and> history_of db' sid = history_of db sid \<and> (\<forall>b. holds db b \<longrightarrow> ses_id (b_session b) = sid \<longrightarrow> holds db' b)"
  using commit
proof (cases rule: commit_noop_renameE)
  case replay
  then show ?thesis using inv by simp
next
  case (fresh u b t d1)
  from fresh(6) have s: "sealed db sid q at db'" by (rule sealedI [OF _ _ _ fresh(7)]) simp_all
  from fresh(2) row have q: "uint q = uint (last_durable_sequence (sr_session r)) + 1" "uint q \<le> i64_top"
    by (auto elim!: require_next_Inr)
  have ok: "session_ok (db_operations db) (db_receipts db) sid (sr_cursor r) (last_durable_sequence (sr_session r))"
    using inv session_in [OF row] by (auto simp: store_inv_def)
  have "store_inv db'"
    by (rule sealed_inv [OF inv row s q, where g = "\<lambda>r. r"])
      (use ok inv in \<open>simp_all add: session_ok_def operation_rows_def store_inv_def\<close>)
  moreover have "history_of db' sid = history_of db sid" using s by (simp add: sealed_def history_of_def operation_rows_def)
  ultimately show ?thesis using sealed_holds [OF s] by blast
qed

section \<open>Moves in the history of the board\<close>

abbreviation moved :: "bool \<Rightarrow> board_operation \<Rightarrow> board_mutation" where
  "moved undo operation \<equiv> (if undo then op_inverse operation else op_forward operation)"

lemma store_move_boardE:
  assumes "store_move_board sid undo at db = Inr db'"
  obtains r index operation b b' d where "session_row_of db sid = Some r" "index = (if undo then sr_cursor r - 1 else sr_cursor r)"
    "map_option ow_payload (List.find (\<lambda>w. ow_index w = index) (operation_rows db sid)) = Some operation"
    "load_board db sid = Inr b" "apply_mutation b (moved undo operation) at = Inr b'" "persist_board b' db = Inr d"
    "db' = update_session_row sid (\<lambda>r. r\<lparr>sr_cursor := (if undo then index else index + 1)\<rparr>) d"
proof -
  from assms obtain cursor index operation u b b' d after where
    c: "map_option sr_cursor (session_row_of db sid) = Some cursor"
    and i: "(if undo then checked_add_i64 cursor (- 1) else Some cursor) = Some index"
    and o: "map_option ow_payload (List.find (\<lambda>w. ow_index w = index) (operation_rows db sid)) = Some operation"
    and b: "load_board db sid = Inr b" "apply_mutation b (moved undo operation) at = Inr b'" "persist_board b' db = Inr d"
    and n: "(if undo then Some index else checked_add_i64 cursor 1) = Some after"
    and db': "db' = update_session_row sid (\<lambda>r. r\<lparr>sr_cursor := after\<rparr>) d"
    unfolding store_move_board_def try_bind_Inr_iff map_err_Inr_iff ok_or_simps by blast
  from c obtain r where r: "session_row_of db sid = Some r" "sr_cursor r = cursor" by auto
  have "index = (if undo then cursor - 1 else cursor)" "after = (if undo then index else index + 1)"
    using i n by (auto simp: checked_add_i64_def split: if_splits)
  then show thesis by (intro that [OF r(1) _ o b]) (simp_all add: r(2) db')
qed

lemma history_at:
  assumes "store_inv db" "session_row_of db sid = Some r"
    and "map_option ow_payload (List.find (\<lambda>w. ow_index w = index) (operation_rows db sid)) = Some operation"
  shows "0 \<le> index \<and> nat index < length (history_of db sid) \<and> operation = history_of db sid ! nat index"
proof -
  have g: "gapless ow_index (operation_rows db sid)"
    using assms(1) session_in [OF assms(2)] by (auto simp: store_inv_def session_ok_def operation_rows_def)
  have i: "0 \<le> index" using gapless_find_neg [OF g, of index] assms(3) by force
  have "List.find (\<lambda>w. ow_index w = int (nat index)) (operation_rows db sid)
      = (if nat index < length (operation_rows db sid) then Some (sort_key ow_index (operation_rows db sid) ! nat index) else None)"
    by (rule gapless_find [OF g])
  then show ?thesis using i assms(3) by (auto simp: history_of_def split: if_splits)
qed

lemma commit_board_move_effect:
  assumes inv: "store_inv db" and h: "holds db b" and sid: "ses_id (b_session b) = sid"
    and row: "session_row_of db sid = Some r"
    and u: "\<forall>operation \<in> set (history_of db sid). unclaimed db sid (moved undo operation)"
    and commit: "commit_history_move request_digest oid sid BoardScope undo q at fp db = Inr (receipt, db')" "\<not> rc_idempotent_replay receipt"
  shows "\<exists>n b' r'. sr_cursor r = int (if undo then Suc n else n) \<and> n < length (history_of db sid)
     \<and> apply_mutation b (moved undo (history_of db sid ! n)) at = Inr b' \<and> holds db' b' \<and> store_inv db'
     \<and> session_row_of db' sid = Some r' \<and> sr_cursor r' = int (if undo then n else Suc n)
     \<and> last_durable_sequence (sr_session r') = q \<and> uint q = uint (last_durable_sequence (sr_session r)) + 1
     \<and> history_of db' sid = history_of db sid"
  using commit(1)
proof (cases rule: commit_history_moveE)
  case replay
  then show ?thesis using commit(2) not_replayed by blast
next
  case (fresh x d1 d2)
  from fresh(2) row have q: "uint q = uint (last_durable_sequence (sr_session r)) + 1" "uint q \<le> i64_top"
    by (auto elim!: require_next_Inr)
  from fresh(3) have m: "store_move_board sid undo at db = Inr d1" by simp
  then obtain r0 index operation c c' d where r0: "session_row_of db sid = Some r0"
    and index: "index = (if undo then sr_cursor r0 - 1 else sr_cursor r0)"
    and found: "map_option ow_payload (List.find (\<lambda>w. ow_index w = index) (operation_rows db sid)) = Some operation"
    and c: "load_board db sid = Inr c" "apply_mutation c (moved undo operation) at = Inr c'" "persist_board c' db = Inr d"
    and d1: "d1 = update_session_row sid (\<lambda>r. r\<lparr>sr_cursor := (if undo then index else index + 1)\<rparr>) d"
    by (rule store_move_boardE)
  have r: "r0 = r" using r0 row by simp
  note at = history_at [OF inv row found]
  from holds_load [OF h] c(1) sid have bc: "board_sim b c" by auto
  have hc: "holds db c" by (rule holds_sim [OF h bc])
  have sc: "ses_id (b_session c) = sid" using bc sid by (simp add: board_sim_def)
  have ids: "ids_ok c" using hc by (auto simp: holds_def validate_iff board_inv_ids)
  from sim_apply_mutation [OF board_sim_sym [OF bc] ids, of "moved undo operation" at] c(2)
  obtain b' where b': "apply_mutation b (moved undo operation) at = Inr b'" "board_sim c' b'" by (auto simp: sim_result_def)
  have uo: "unclaimed db (ses_id (b_session c)) (moved undo operation)" using u at sc by auto
  note stored = store_mutation [OF inv hc c(2) uo refl refl refl c(3)]
  have sc': "ses_id (b_session c') = sid" using stored(3) sc by simp
  note as = stored(2) [unfolded stored_as_def sc']
  have frame: "db_operations d = db_operations db" "db_receipts d = db_receipts db" "db_revisions d = db_revisions db"
    using persist_board_frame [OF c(3)] by (simp_all add: beside_board_def)
  from fresh(4) have s: "sealed d1 sid q at db'" by (rule sealedI [OF _ _ _ fresh(5)]) simp_all
  let ?g = "\<lambda>r. (raise_marks (b_counters c') r)\<lparr>sr_cursor := (if undo then index else index + 1)\<rparr>"
  have sess: "db_sessions d1 = map (\<lambda>r. if ses_id (sr_session r) = sid then ?g r else r) (db_sessions db)"
    using as by (simp add: d1 update_session_row_def comp_def if_distrib cong: if_cong)
  have row1: "session_row_of d1 sid = Some (?g r)" by (simp add: session_row_of_map [OF sess] row)
  have ok: "session_ok (db_operations db) (db_receipts db) sid (sr_cursor r) (last_durable_sequence (sr_session r))"
    using inv session_in [OF row] by (auto simp: store_inv_def)
  have "store_inv db'"
  proof (rule sealed_inv [OF inv row s q sess])
    show "within (sr_cursor (?g r)) (length (operation_rows db sid))"
      using at index r by (auto simp: within_def history_of_def)
    have eds: "editors_ok (map editor_key (db_thoughts db)) (db_revisions db)" using inv by (simp add: store_inv_def)
    have "distinct (map t_id (b_thoughts c'))" using stored(1) by (auto simp: holds_def validate_iff board_inv_def)
    from stored_editors [OF stored(2) refl this _ eds] eds
    show "editors_ok (map editor_key (db_thoughts d1)) (db_revisions db)" by (simp add: d1 update_session_row_def editors_ok_def)
    show "distinct (map (\<lambda>r. sep_id (sw_separator r)) (db_separators d1))" using as by (simp add: d1 update_session_row_def)
  qed (use frame in \<open>simp_all add: d1 update_session_row_def\<close>)
  moreover have "holds d1 c'"
  proof (rule holds_transfer [OF stored(1)])
    fix p assume "session_row_of d (ses_id (b_session c')) = Some p"
    then show "\<exists>r'. session_row_of d1 (ses_id (b_session c')) = Some r' \<and> session_validate (sr_session r') = session_validate (sr_session p)
        \<and> sr_image_high r' = sr_image_high p \<and> sr_file_high r' = sr_file_high p"
      unfolding d1 sc' by (simp add: session_row_of_update)
  qed (simp_all add: d1 update_session_row_def)
  then have "holds db' b'" by (rule holds_sim [OF sealed_holds [OF s _ sc'] b'(2)])
  moreover have "history_of db' sid = history_of db sid"
    using s frame by (simp add: sealed_def d1 update_session_row_def history_of_def operation_rows_def)
  moreover have "sr_cursor r = int (if undo then Suc (nat index) else nat index)" using at index r by (cases undo) auto
  moreover have "sr_cursor (?g r) = int (if undo then nat index else Suc (nat index))" using at by simp
  moreover have "session_row_of db' sid = Some (receive q at (?g r))" using sealed_row [OF s] row1 by simp
  ultimately show ?thesis using at b'(1) q(1)
    by (intro exI [of _ "nat index"] exI [of _ b'] exI [of _ "receive q at (?g r)"], cases undo) simp_all
qed

section \<open>Moves in the history of a thought's editor\<close>

text \<open>A move writes the content of the other side of the revision; it is the edit of this revision.\<close>

definition restored :: "bool \<Rightarrow> timestamp \<Rightarrow> thought_revision \<Rightarrow> thought_revision" where
  "restored undo at revision = revision\<lparr>after_content := (if undo then before_content revision else after_content revision),
     after_annotations := (if undo then before_annotations revision else after_annotations revision), rev_created_at := at\<rparr>"

lemma store_move_editorE:
  assumes "store_move_editor sid i undo at db = Inr db'"
  obtains r index revision where "thought_row_of db i = Some r" "t_is_live (tw_thought r)" "t_session_id (tw_thought r) = sid"
    "index = (if undo then tw_cursor r - 1 else tw_cursor r)"
    "map_option vw_payload (List.find (\<lambda>w. vw_index w = index) (revision_rows db i)) = Some revision"
    "t_content (tw_thought r) = (if undo then after_content revision else before_content revision)"
    "t_annotations (tw_thought r) = (if undo then after_annotations revision else before_annotations revision)"
    "db' = write_content i (after_content (restored undo at revision)) (after_annotations (restored undo at revision)) at
      (if undo then index else index + 1) db"
proof -
  from assms obtain r where r: "thought_row_of db i = Some r" "t_is_live (tw_thought r)" "t_session_id (tw_thought r) = sid"
    and rest: "\<exists>index. (if undo then checked_add_i64 (tw_cursor r) (- 1) else Some (tw_cursor r)) = Some index
      \<and> (\<exists>revision. map_option vw_payload (List.find (\<lambda>w. vw_index w = index) (revision_rows db i)) = Some revision
      \<and> t_content (tw_thought r) = (if undo then after_content revision else before_content revision)
      \<and> t_annotations (tw_thought r) = (if undo then after_annotations revision else before_annotations revision)
      \<and> (\<exists>after. (if undo then Some index else checked_add_i64 (tw_cursor r) 1) = Some after
      \<and> db' = write_content i (if undo then before_content revision else after_content revision)
         (if undo then before_annotations revision else after_annotations revision) at after db))"
    unfolding store_move_editor_def try_bind_Inr_iff map_err_Inr_iff ok_or_simps
    by (auto simp: filter_opt_def split: if_split_asm option.splits)
  from rest obtain index revision after where
    i: "(if undo then checked_add_i64 (tw_cursor r) (- 1) else Some (tw_cursor r)) = Some index"
      "(if undo then Some index else checked_add_i64 (tw_cursor r) 1) = Some after"
    and v: "map_option vw_payload (List.find (\<lambda>w. vw_index w = index) (revision_rows db i)) = Some revision"
      "t_content (tw_thought r) = (if undo then after_content revision else before_content revision)"
      "t_annotations (tw_thought r) = (if undo then after_annotations revision else before_annotations revision)"
      "db' = write_content i (if undo then before_content revision else after_content revision)
         (if undo then before_annotations revision else after_annotations revision) at after db" by blast
  have "index = (if undo then tw_cursor r - 1 else tw_cursor r)" "after = (if undo then index else index + 1)"
    using i by (auto simp: checked_add_i64_def split: if_splits)
  then show thesis by (intro that [OF r _ v(1,2,3)]) (simp_all add: v(4) restored_def)
qed

lemma revisions_at:
  assumes "store_inv db" "thought_row_of db i = Some r"
    and "map_option vw_payload (List.find (\<lambda>w. vw_index w = index) (revision_rows db i)) = Some revision"
  shows "0 \<le> index \<and> nat index < length (revisions_of db i) \<and> revision = revisions_of db i ! nat index \<and> rev_thought_id revision = i"
proof -
  have r: "r \<in> set (db_thoughts db)" "t_id (tw_thought r) = i" using assms(2) by (auto simp: thought_row_of_def dest: find_Some_iff_mem)
  then have "editor_key r \<in> set (map editor_key (db_thoughts db))" by simp
  then have "editor_ok (db_revisions db) (editor_key r)" using assms(1) unfolding store_inv_def editors_ok_def by blast
  then have g: "gapless vw_index (revision_rows db i)" by (simp add: editor_key_def r(2) revision_rows_def)
  have i: "0 \<le> index" using gapless_find_neg [OF g, of index] assms(3) by force
  have f: "List.find (\<lambda>w. vw_index w = int (nat index)) (revision_rows db i)
      = (if nat index < length (revision_rows db i) then Some (sort_key vw_index (revision_rows db i) ! nat index) else None)"
    by (rule gapless_find [OF g])
  from assms(3) obtain w where w: "List.find (\<lambda>w. vw_index w = index) (revision_rows db i) = Some w" "vw_payload w = revision" by auto
  then have "w \<in> set (db_revisions db)" "vw_thought_id w = i" by (auto simp: revision_rows_def dest: find_Some_iff_mem)
  then have "rev_thought_id revision = i" using assms(1) w(2) by (auto simp: store_inv_def revision_row_ok_def)
  then show ?thesis using i f w by (auto simp: revisions_of_def split: if_splits)
qed

lemma observe_all_kept: "\<forall>t \<in> set ts. counted c (f t) \<Longrightarrow> try_fold (\<lambda>c t. observe c (f t)) c ts = Inr c"
  by (induction ts) (simp_all add: observe_kept)

lemma commit_editor_move_effect:
  assumes inv: "store_inv db" and h: "holds db b" and sid: "ses_id (b_session b) = sid"
    and row: "session_row_of db sid = Some r"
    and ok: "\<And>revision. revision \<in> set (revisions_of db i) \<Longrightarrow>
      validate (edited (restored undo at revision) b) = Inr () \<and> counted (b_counters b) (after_annotations (restored undo at revision))"
    and commit: "commit_history_move request_digest oid sid (EditorScope i) undo q at fp db = Inr (receipt, db')" "\<not> rc_idempotent_replay receipt"
  shows "\<exists>n old r'. thought_row_of db i = Some old \<and> tw_cursor old = int (if undo then Suc n else n) \<and> n < length (revisions_of db i)
     \<and> holds db' (edited (restored undo at (revisions_of db i ! n)) b) \<and> store_inv db'
     \<and> session_row_of db' sid = Some r' \<and> sr_cursor r' = sr_cursor r
     \<and> last_durable_sequence (sr_session r') = q \<and> uint q = uint (last_durable_sequence (sr_session r)) + 1
     \<and> map_option tw_cursor (thought_row_of db' i) = Some (int (if undo then n else Suc n))
     \<and> history_of db' sid = history_of db sid \<and> revisions_of db' i = revisions_of db i"
  using commit(1)
proof (cases rule: commit_history_moveE)
  case replay
  then show ?thesis using commit(2) not_replayed by blast
next
  case (fresh x d1 d2)
  from fresh(2) row have q: "uint q = uint (last_durable_sequence (sr_session r)) + 1" "uint q \<le> i64_top"
    by (auto elim!: require_next_Inr)
  from fresh(3) have m: "store_move_editor sid i undo at db = Inr d1" by simp
  then obtain old index revision where old: "thought_row_of db i = Some old" "t_session_id (tw_thought old) = sid"
    and index: "index = (if undo then tw_cursor old - 1 else tw_cursor old)"
    and found: "map_option vw_payload (List.find (\<lambda>w. vw_index w = index) (revision_rows db i)) = Some revision"
    and d1: "d1 = write_content i (after_content (restored undo at revision)) (after_annotations (restored undo at revision)) at
      (if undo then index else index + 1) db"
    by (rule store_move_editorE)
  note at = revisions_at [OF inv old(1) found]
  let ?v = "restored undo at revision" and ?c = "if undo then index else index + 1"
  have v: "validate (edited ?v b) = Inr ()" "counted (b_counters b) (after_annotations ?v)" using ok [of revision] at by auto
  have vi: "rev_thought_id ?v = i" "rev_created_at ?v = at" using conjunct2 [OF conjunct2 [OF conjunct2 [OF at]]] by (simp_all add: restored_def)
  have ths: "db_thoughts d1 = map (\<lambda>r. if t_id (tw_thought r) = rev_thought_id ?v
          then r\<lparr>tw_thought := (tw_thought r)\<lparr>t_content := after_content ?v, t_annotations := after_annotations ?v,
            t_updated_at := rev_created_at ?v\<rparr>, tw_cursor := ?c\<rparr> else r) (db_thoughts db)"
    unfolding vi by (simp add: d1 write_content_def update_thought_row_def)
  have rest: "db_sessions d1 = db_sessions db" "db_separators d1 = db_separators db" "db_operations d1 = db_operations db"
    "db_receipts d1 = db_receipts db" "db_revisions d1 = db_revisions db"
    by (simp_all add: d1 write_content_def update_thought_row_def)
  have mb: "marks_ok b" using h by (simp add: holds_def)
  have marks: "marks_ok (edited ?v b)"
  proof -
    have "observe_attachments (edited ?v b) = Inr (edited ?v b)"
    proof -
      have "counted (b_counters b) (t_annotations t)" if "t \<in> set (b_thoughts (edited ?v b))" for t
        using set_update_first_cases [of t "\<lambda>t. t_id t = rev_thought_id ?v" _ "b_thoughts b"] that marks_counted [OF mb] v(2)
        by (force simp: edited_def thought_mut_def)
      then have "try_fold (\<lambda>c t. observe c (t_annotations t)) (b_counters b) (b_thoughts (edited ?v b)) = Inr (b_counters b)"
        by (intro observe_all_kept) blast
      then show ?thesis by (simp add: observe_attachments_def edited_def thought_mut_def)
    qed
    moreover have "le_counters (b_counters (edited ?v b)) max_marks" using mb by (simp add: marks_ok_def le_counters_iff)
    ultimately show ?thesis by (rule edited_marks)
  qed
  have h1: "holds d1 (edited ?v b)"
  proof (rule write_holds [OF h ths rest(2) v(1) marks])
    show "\<exists>r. session_row_of d1 (ses_id (b_session b)) = Some r \<and> session_validate (sr_session r) = Inr ()
      \<and> sr_image_high r = uint (image_counter (b_counters b)) \<and> sr_file_high r = uint (file_counter (b_counters b))"
      using h by (auto simp: holds_def session_row_of_def rest(1))
  qed (simp add: edited_def thought_mut_def)
  from fresh(4) have s: "sealed d1 sid q at db'" by (rule sealedI [OF _ _ _ fresh(5)]) simp_all
  have eds: "editors_ok (map editor_key (db_thoughts db)) (db_revisions db)" using inv by (simp add: store_inv_def)
  have keys: "map editor_key (db_thoughts d1) = set_cursor i ?c (map editor_key (db_thoughts db))"
    by (simp add: ths vi(1) set_cursor_def editor_key_def)
  have cursor: "tw_cursor old = int (if undo then Suc (nat index) else nat index)" "?c = int (if undo then nat index else Suc (nat index))"
    using at index by (cases undo; force)+
  have ok0: "session_ok (db_operations db) (db_receipts db) sid (sr_cursor r) (last_durable_sequence (sr_session r))"
    using inv session_in [OF row] by (auto simp: store_inv_def)
  have "store_inv db'"
  proof (rule sealed_inv [OF inv row s q, where g = "\<lambda>r. r"])
    show "within (sr_cursor r) (length (operation_rows db sid))" using ok0 by (simp add: session_ok_def operation_rows_def)
    show "editors_ok (map editor_key (db_thoughts d1)) (db_revisions db)" unfolding keys
    proof (rule editors_ok_move [OF eds])
      show "within ?c (length (filter (\<lambda>w. vw_thought_id w = i) (db_revisions db)))"
        unfolding cursor(2) using at by (auto simp: within_def revisions_of_def revision_rows_def)
    qed
    show "distinct (map (\<lambda>r. sep_id (sw_separator r)) (db_separators d1))" using inv by (simp add: rest store_inv_def)
  qed (simp_all add: rest)
  moreover have "holds db' (edited (restored undo at (revisions_of db i ! nat index)) b)"
    using sealed_holds [OF s h1] sid at by (simp add: edited_def thought_mut_def)
  moreover have "session_row_of db' sid = Some (receive q at r)" using sealed_row [OF s] row by (simp add: session_row_of_def rest)
  moreover have "map_option tw_cursor (thought_row_of db' i) = Some ?c"
  proof -
    have "thought_row_of db' i = List.find (\<lambda>r. t_id (tw_thought r) = i) (db_thoughts d1)" using s by (simp add: sealed_def thought_row_of_def)
    then show ?thesis unfolding ths vi(1) by (subst (asm) find_updated) (use old(1) in \<open>simp_all add: thought_row_of_def\<close>)
  qed
  moreover have "history_of db' sid = history_of db sid" "revisions_of db' i = revisions_of db i"
    using s rest by (simp_all add: sealed_def history_of_def operation_rows_def revisions_of_def revision_rows_def)
  ultimately show ?thesis using at old(1) cursor q(1)
    by (intro exI [of _ "nat index"] exI [of _ old] exI [of _ "receive q at r"]) simp
qed

end
