(* ===== verification/Store_Properties.thy ===== *)
theory Store_Properties
  imports Store_Moves
begin

text \<open>
  What the store promises the lane: every commit that is not a replay has the effect the lane has already
  applied, on the rows of the items, on the session row and on the histories, and keeps the invariant under
  which the whole session loads again.
\<close>

section \<open>A store with an empty board\<close>

definition sample_board :: session_board where
  "sample_board = \<lparr>b_session = store_session, b_thoughts = [], b_separators = [], b_counters = default_counters\<rparr>"

lemma sample_row: "session_row_of sample_store (SessionId [1])
    = Some \<lparr>sr_session = store_session, sr_cursor = 0, sr_image_high = 0, sr_file_high = 0\<rparr>"
  by code_simp

lemma sample_inv: "store_inv sample_store"
  by (simp add: store_inv_def sample_store_def empty_database_def session_ok_def within_def editors_ok_def i64_top_def
      store_session_def)

lemma sample_parts:
  "ses_id (b_session sample_board) = SessionId [1]" "b_thoughts sample_board = []" "b_separators sample_board = []"
  "b_counters sample_board = default_counters" "thought_rows sample_store sid = []" "separator_rows sample_store sid = []"
  by (simp_all add: sample_board_def store_session_def thought_rows_def separator_rows_def sample_store_def empty_database_def)

lemma sample_holds: "holds sample_store sample_board"
proof -
  have "validate sample_board = Inr ()" by code_simp
  moreover have "marks_ok sample_board"
    unfolding marks_ok_def sample_parts by (intro conjI exI [of _ default_counters]) (simp_all add: default_counters_def i64_max_def)
  moreover have "session_validate store_session = Inr ()" by code_simp
  ultimately show ?thesis unfolding holds_def sample_parts sample_row by (simp add: default_counters_def)
qed

section \<open>A run of four commits\<close>

definition sample_revision :: thought_revision where
  "sample_revision = \<lparr>rev_id = RevisionId [3], rev_session_id = SessionId [1], rev_thought_id = ThoughtId [7], rev_sequence = 2,
     before_content = [97], after_content = [98], before_annotations = [], after_annotations = [],
     before_cursor = \<lparr>line = 0, grapheme = 0\<rparr>, before_selection_anchor = None, after_cursor = \<lparr>line = 0, grapheme = 1\<rparr>, after_selection_anchor = None, rev_created_at = 6\<rparr>"

definition sample_run :: "store_error + (bool \<times> database) list" where
  "sample_run =
     try_bind (commit_board (\<lambda>_. []) (sample_operation 7 1) None sample_store) (\<lambda>(r1, d1).
     try_bind (commit_revision (\<lambda>_. []) sample_revision None d1) (\<lambda>(r2, d2).
     try_bind (commit_history_move (\<lambda>_. []) (OperationId [8]) (SessionId [1]) (EditorScope (ThoughtId [7])) True 3 7 None d2) (\<lambda>(r3, d3).
     try_bind (commit_history_move (\<lambda>_. []) (OperationId [9]) (SessionId [1]) BoardScope True 4 8 None d3) (\<lambda>(r4, d4).
       Inr [(rc_idempotent_replay r1, d1), (rc_idempotent_replay r2, d2), (rc_idempotent_replay r3, d3), (rc_idempotent_replay r4, d4)]))))"

definition run_ok :: "store_error + (bool \<times> database) list \<Rightarrow> bool" where
  "run_ok result = (case result of
     Inr [(p1, d1), (p2, d2), (p3, d3), (p4, d4)] \<Rightarrow> \<not> p1 \<and> \<not> p2 \<and> \<not> p3 \<and> \<not> p4
       \<and> revisions_of d2 (ThoughtId [7]) = [sample_revision] \<and> history_of d3 (SessionId [1]) = [sample_operation 7 1]
   | _ \<Rightarrow> False)"

lemma sample_run_ok: "run_ok sample_run"
  by code_simp

lemma sample_stages:
  obtains c1 d1 c2 d2 c3 d3 c4 d4 where
    "commit_board (\<lambda>_. []) (sample_operation 7 1) None sample_store = Inr (c1, d1)" "\<not> rc_idempotent_replay c1"
    "commit_revision (\<lambda>_. []) sample_revision None d1 = Inr (c2, d2)" "\<not> rc_idempotent_replay c2"
    "commit_history_move (\<lambda>_. []) (OperationId [8]) (SessionId [1]) (EditorScope (ThoughtId [7])) True 3 7 None d2 = Inr (c3, d3)"
    "\<not> rc_idempotent_replay c3"
    "commit_history_move (\<lambda>_. []) (OperationId [9]) (SessionId [1]) BoardScope True 4 8 None d3 = Inr (c4, d4)" "\<not> rc_idempotent_replay c4"
    "revisions_of d2 (ThoughtId [7]) = [sample_revision]" "history_of d3 (SessionId [1]) = [sample_operation 7 1]"
proof -
  have "\<not> run_ok (Inl e)" for e by (simp add: run_ok_def)
  then obtain a where "sample_run = Inr a" using sample_run_ok by (metis sum.exhaust)
  then obtain c1 d1 c2 d2 c3 d3 c4 d4 where
    c: "commit_board (\<lambda>_. []) (sample_operation 7 1) None sample_store = Inr (c1, d1)"
      "commit_revision (\<lambda>_. []) sample_revision None d1 = Inr (c2, d2)"
      "commit_history_move (\<lambda>_. []) (OperationId [8]) (SessionId [1]) (EditorScope (ThoughtId [7])) True 3 7 None d2 = Inr (c3, d3)"
      "commit_history_move (\<lambda>_. []) (OperationId [9]) (SessionId [1]) BoardScope True 4 8 None d3 = Inr (c4, d4)"
    unfolding sample_run_def try_bind_Inr_iff by force
  have "run_ok (Inr [(rc_idempotent_replay c1, d1), (rc_idempotent_replay c2, d2), (rc_idempotent_replay c3, d3), (rc_idempotent_replay c4, d4)])"
    using sample_run_ok by (simp add: sample_run_def c)
  then show thesis using that [OF c(1) _ c(2) _ c(3) _ c(4)] by (simp add: run_ok_def)
qed

text \<open>The boards the run goes through.\<close>

definition board1 :: session_board where
  "board1 = projr (apply_mutation sample_board (op_forward (sample_operation 7 1)) 5)"

definition board2 :: session_board where
  "board2 = projr (observe_attachments (edited sample_revision board1))"

lemma boards_owner: "ses_id (b_session board1) = SessionId [1]" "ses_id (b_session board2) = SessionId [1]"
  "validate (edited (restored True 7 sample_revision) board2) = Inr ()"
  by code_simp+

lemma stage1:
  assumes "commit_board (\<lambda>_. []) (sample_operation 7 1) None sample_store = Inr (c1, d1)" "\<not> rc_idempotent_replay c1"
  shows "holds d1 board1 \<and> store_inv d1 \<and> (\<exists>r. session_row_of d1 (SessionId [1]) = Some r)"
proof -
  have s: "op_session_id (sample_operation 7 1) = SessionId [1]" by (simp add: sample_operation_def)
  have "unclaimed sample_store (SessionId [1]) (op_forward (sample_operation 7 1))"
    by (simp add: unclaimed_def sample_store_def empty_database_def)
  moreover have "operation_validate_annotations (sample_operation 7 1) = Inr ()" by code_simp
  moreover have "op_created_at (sample_operation 7 1) = 5" by (simp add: sample_operation_def)
  ultimately show ?thesis
    using commit_board_effect [OF sample_inv sample_holds _ _ _ _ assms] by (auto simp: s sample_parts sample_row board1_def)
qed

lemma stage2:
  assumes "holds d1 board1" "store_inv d1" "session_row_of d1 (SessionId [1]) = Some r"
    and "commit_revision (\<lambda>_. []) sample_revision None d1 = Inr (c2, d2)" "\<not> rc_idempotent_replay c2"
  shows "holds d2 board2 \<and> store_inv d2 \<and> (\<exists>r. session_row_of d2 (SessionId [1]) = Some r)"
proof -
  have s: "rev_session_id sample_revision = SessionId [1]" by (simp add: sample_revision_def)
  show ?thesis
    using commit_revision_effect [OF assms(2,1) _ _ assms(4,5)] assms(3) boards_owner by (auto simp: s board2_def)
qed

lemma restored_ok:
  assumes "revisions_of d2 (ThoughtId [7]) = [sample_revision]" "revision \<in> set (revisions_of d2 (ThoughtId [7]))"
  shows "validate (edited (restored True 7 revision) board2) = Inr () \<and> counted (b_counters board2) (after_annotations (restored True 7 revision))"
  using assms boards_owner(3) by (simp add: restored_def sample_revision_def counted_def covered_def)

lemma stage3:
  assumes "holds d2 board2" "store_inv d2" "session_row_of d2 (SessionId [1]) = Some r" "revisions_of d2 (ThoughtId [7]) = [sample_revision]"
    and "commit_history_move (\<lambda>_. []) (OperationId [8]) (SessionId [1]) (EditorScope (ThoughtId [7])) True 3 7 None d2 = Inr (c3, d3)"
      "\<not> rc_idempotent_replay c3"
  shows "\<exists>b3 r. holds d3 b3 \<and> ses_id (b_session b3) = SessionId [1] \<and> store_inv d3 \<and> session_row_of d3 (SessionId [1]) = Some r"
proof -
  obtain n r' where "holds d3 (edited (restored True 7 (revisions_of d2 (ThoughtId [7]) ! n)) board2)" "store_inv d3"
      "session_row_of d3 (SessionId [1]) = Some r'"
    using commit_editor_move_effect [OF assms(2,1) boards_owner(2) assms(3) restored_ok [OF assms(4)] assms(5,6)] by blast
  then show ?thesis using boards_owner(2) by (intro exI conjI) (assumption, simp_all)
qed

section \<open>The promises\<close>

text \<open>C20: A committed structural operation has in the store the effect the lane has already applied: the rows
  hold the board the operation's forward mutation gives, the operation takes the place of the redo tail behind
  the cursor, the cursor and the durable sequence advance by one and the invariant of the store is kept.\<close>

theorem commit_board_refines:
  assumes "store_inv db" and "holds db b" and "ses_id (b_session b) = op_session_id operation"
    and "unclaimed db (op_session_id operation) (op_forward operation)"
    and "operation_validate_annotations operation = Inr ()"
    and "session_row_of db (op_session_id operation) = Some r"
    and "commit_board request_digest operation fp db = Inr (receipt, db')" and "\<not> rc_idempotent_replay receipt"
  shows "\<exists>b' r'. apply_mutation b (op_forward operation) (op_created_at operation) = Inr b' \<and> holds db' b' \<and> store_inv db'
     \<and> session_row_of db' (op_session_id operation) = Some r' \<and> sr_cursor r' = sr_cursor r + 1
     \<and> last_durable_sequence (sr_session r') = op_sequence operation
     \<and> uint (op_sequence operation) = uint (last_durable_sequence (sr_session r)) + 1
     \<and> history_of db' (op_session_id operation) = take (nat (sr_cursor r)) (history_of db (op_session_id operation)) @ [operation]"
  by (rule commit_board_effect [OF assms])

theorem commit_board_refines_witness:
  "\<exists>c1 d1 b1. commit_board (\<lambda>_. []) (sample_operation 7 1) None sample_store = Inr (c1, d1) \<and> holds d1 b1
     \<and> apply_mutation sample_board (op_forward (sample_operation 7 1)) 5 = Inr b1
     \<and> history_of d1 (SessionId [1]) = [sample_operation 7 1]"
proof -
  obtain c1 d1 where c: "commit_board (\<lambda>_. []) (sample_operation 7 1) None sample_store = Inr (c1, d1)" "\<not> rc_idempotent_replay c1"
    by (rule sample_stages)
  have s: "op_session_id (sample_operation 7 1) = SessionId [1]" "op_created_at (sample_operation 7 1) = 5"
    by (simp_all add: sample_operation_def)
  have u: "unclaimed sample_store (op_session_id (sample_operation 7 1)) (op_forward (sample_operation 7 1))"
    by (simp add: unclaimed_def sample_store_def empty_database_def)
  have v: "operation_validate_annotations (sample_operation 7 1) = Inr ()" by code_simp
  have o: "ses_id (b_session sample_board) = op_session_id (sample_operation 7 1)" by (simp add: s sample_parts)
  from commit_board_refines [OF sample_inv sample_holds o u v sample_row [folded s(1)] c]
  show ?thesis using c(1) by (auto simp: s)
qed

text \<open>C21: A committed revision has in the store the effect of the edit: the rows hold the board with the new
  content and the raised high-water marks, the redo tail of the board is cut at the first operation that
  concerns the thought, and the revision takes the place of the redo tail behind the editor's cursor.\<close>

theorem commit_revision_refines:
  assumes "store_inv db" and "holds db b" and "ses_id (b_session b) = rev_session_id revision"
    and "session_row_of db (rev_session_id revision) = Some r"
    and "commit_revision request_digest revision fp db = Inr (receipt, db')" and "\<not> rc_idempotent_replay receipt"
  shows "\<exists>b' r' old. observe_attachments (edited revision b) = Inr b' \<and> holds db' b' \<and> store_inv db'
     \<and> session_row_of db' (rev_session_id revision) = Some r' \<and> sr_cursor r' = sr_cursor r
     \<and> last_durable_sequence (sr_session r') = rev_sequence revision
     \<and> uint (rev_sequence revision) = uint (last_durable_sequence (sr_session r)) + 1
     \<and> history_of db' (rev_session_id revision)
        = kept_history (rev_thought_id revision) (nat (sr_cursor r)) (history_of db (rev_session_id revision))
     \<and> thought_row_of db (rev_thought_id revision) = Some old
     \<and> t_content (tw_thought old) = before_content revision \<and> t_annotations (tw_thought old) = before_annotations revision
     \<and> revisions_of db' (rev_thought_id revision)
        = take (nat (tw_cursor old)) (revisions_of db (rev_thought_id revision)) @ [revision]
     \<and> map_option tw_cursor (thought_row_of db' (rev_thought_id revision)) = Some (tw_cursor old + 1)"
  by (rule commit_revision_effect [OF assms])

theorem commit_revision_refines_witness:
  "\<exists>d1 c2 d2 b2. commit_revision (\<lambda>_. []) sample_revision None d1 = Inr (c2, d2) \<and> holds d2 b2
     \<and> observe_attachments (edited sample_revision board1) = Inr b2 \<and> store_inv d2"
proof -
  obtain c1 d1 c2 d2 where c: "commit_board (\<lambda>_. []) (sample_operation 7 1) None sample_store = Inr (c1, d1)" "\<not> rc_idempotent_replay c1"
    "commit_revision (\<lambda>_. []) sample_revision None d1 = Inr (c2, d2)" "\<not> rc_idempotent_replay c2"
    by (rule sample_stages)
  from stage1 [OF c(1,2)] obtain r where h: "holds d1 board1" "store_inv d1" "session_row_of d1 (SessionId [1]) = Some r" by blast
  have s: "rev_session_id sample_revision = SessionId [1]" by (simp add: sample_revision_def)
  have o: "ses_id (b_session board1) = rev_session_id sample_revision" by (simp add: s boards_owner)
  from commit_revision_refines [OF h(2,1) o h(3) [folded s] c(3,4)] show ?thesis using c(3) by blast
qed

text \<open>C22: A committed move in the board's history applies in the store the inverse of the operation before the
  cursor, or the forward mutation of the operation behind it, moves the cursor by one and leaves the history as it is.\<close>

theorem commit_board_move_refines:
  assumes "store_inv db" and "holds db b" and "ses_id (b_session b) = sid"
    and "session_row_of db sid = Some r"
    and "\<forall>operation \<in> set (history_of db sid). unclaimed db sid (moved undo operation)"
    and "commit_history_move request_digest oid sid BoardScope undo q at fp db = Inr (receipt, db')" and "\<not> rc_idempotent_replay receipt"
  shows "\<exists>n b' r'. sr_cursor r = int (if undo then Suc n else n) \<and> n < length (history_of db sid)
     \<and> apply_mutation b (moved undo (history_of db sid ! n)) at = Inr b' \<and> holds db' b' \<and> store_inv db'
     \<and> session_row_of db' sid = Some r' \<and> sr_cursor r' = int (if undo then n else Suc n)
     \<and> last_durable_sequence (sr_session r') = q \<and> uint q = uint (last_durable_sequence (sr_session r)) + 1
     \<and> history_of db' sid = history_of db sid"
  by (rule commit_board_move_effect [OF assms])

theorem commit_board_move_refines_witness:
  "\<exists>d3 b3 c4 d4 b4. commit_history_move (\<lambda>_. []) (OperationId [9]) (SessionId [1]) BoardScope True 4 8 None d3 = Inr (c4, d4)
     \<and> apply_mutation b3 (SetDeletion (ThoughtId [7]) None 0) 8 = Inr b4 \<and> holds d3 b3 \<and> holds d4 b4 \<and> store_inv d4"
proof -
  obtain c1 d1 c2 d2 c3 d3 c4 d4 where c: "commit_board (\<lambda>_. []) (sample_operation 7 1) None sample_store = Inr (c1, d1)" "\<not> rc_idempotent_replay c1"
    "commit_revision (\<lambda>_. []) sample_revision None d1 = Inr (c2, d2)" "\<not> rc_idempotent_replay c2"
    "commit_history_move (\<lambda>_. []) (OperationId [8]) (SessionId [1]) (EditorScope (ThoughtId [7])) True 3 7 None d2 = Inr (c3, d3)"
    "\<not> rc_idempotent_replay c3"
    "commit_history_move (\<lambda>_. []) (OperationId [9]) (SessionId [1]) BoardScope True 4 8 None d3 = Inr (c4, d4)" "\<not> rc_idempotent_replay c4"
    "revisions_of d2 (ThoughtId [7]) = [sample_revision]" "history_of d3 (SessionId [1]) = [sample_operation 7 1]"
    by (rule sample_stages)
  from stage1 [OF c(1,2)] obtain r1 where h1: "holds d1 board1" "store_inv d1" "session_row_of d1 (SessionId [1]) = Some r1" by blast
  from stage2 [OF h1 c(3,4)] obtain r2 where h2: "holds d2 board2" "store_inv d2" "session_row_of d2 (SessionId [1]) = Some r2" by blast
  from stage3 [OF h2 c(9) c(5,6)] obtain b3 r3 where h3: "holds d3 b3" "ses_id (b_session b3) = SessionId [1]" "store_inv d3"
    "session_row_of d3 (SessionId [1]) = Some r3" by blast
  have inv: "op_inverse (sample_operation 7 1) = SetDeletion (ThoughtId [7]) None 0" by (simp add: sample_operation_def)
  have u: "\<forall>operation \<in> set (history_of d3 (SessionId [1])). unclaimed d3 (SessionId [1]) (moved True operation)"
    by (simp add: c(10) inv unclaimed_def)
  from commit_board_move_refines [OF h3(3,1,2,4) u c(7,8)] obtain n b4 where
    n: "n < length (history_of d3 (SessionId [1]))" "apply_mutation b3 (op_inverse (history_of d3 (SessionId [1]) ! n)) 8 = Inr b4"
    "holds d4 b4" "store_inv d4" by auto
  then have "apply_mutation b3 (SetDeletion (ThoughtId [7]) None 0) 8 = Inr b4" by (simp add: c(10) inv)
  then show ?thesis using c(7) h3(1) n(3,4) by blast
qed



end
