(* ===== verification/Store_Journals.thy ===== *)
theory Store_Journals
  imports Store_Receipts
begin

text \<open>
  The two journals of deliveries beside the boards of the store: attempts to submit thoughts to an agent
  (\<open>src/adapters/sqlite/submission.rs\<close>) and transfers of thoughts to another session
  (\<open>src/adapters/sqlite/transfer.rs\<close>), with the types of \<open>src/ports/store.rs\<close>,
  \<open>src/ports/store/submission_route.rs\<close>, \<open>src/ports/agent.rs\<close> and \<open>src/ports/transfer.rs\<close>. Their tables and the
  constraints the statements can violate are those of \<open>schema.rs\<close>; a violated constraint is a conflict, and a query
  for a missing row an input or output error. As in the rest of the store, a JSON column holds the value it encodes.
\<close>

section \<open>Submissions\<close>

datatype agent_state = AgentIdle | AgentWorking | AgentDone | AgentBlocked | AgentUnknown

datatype submission_disposition = DispositionKeep | RemoveAfterSuccess

datatype submission_route_kind = AdjacentPane | HerdrAgent

record submission_journal_route =
  jr_version :: nat
  jr_kind :: submission_route_kind
  jr_adjacent_direction :: "direction option"

definition SUBMISSION_ROUTE_VERSION :: nat where
  "SUBMISSION_ROUTE_VERSION = 1"

definition adjacent_route :: "direction \<Rightarrow> submission_journal_route" where
  "adjacent_route d = \<lparr>jr_version = SUBMISSION_ROUTE_VERSION, jr_kind = AdjacentPane, jr_adjacent_direction = Some d\<rparr>"

definition herdr_agent_route :: submission_journal_route where
  "herdr_agent_route = \<lparr>jr_version = SUBMISSION_ROUTE_VERSION, jr_kind = HerdrAgent, jr_adjacent_direction = None\<rparr>"

definition legacy_adjacent_route :: "direction \<Rightarrow> submission_journal_route" where
  "legacy_adjacent_route d = \<lparr>jr_version = 0, jr_kind = AdjacentPane, jr_adjacent_direction = Some d\<rparr>"

datatype attempt_state =
    AttemptPrepared | AttemptSending | AttemptAccepted | AttemptFailed | AttemptCancelled | AttemptOutcomeUnknown

record submission_source =
  so_thought_id :: thought_id
  so_digest :: fingerprint

record submission_attempt =
  sa_id :: submission_id
  sa_session_id :: session_id
  sa_sources :: "submission_source list"
  sa_payload_digest :: fingerprint
  sa_source_sequence :: operation_sequence
  sa_disposition :: submission_disposition
  sa_route :: submission_journal_route
  sa_provider :: rstr
  sa_protocol :: u32
  sa_target_fingerprint :: fingerprint
  sa_pre_state :: agent_state
  sa_prepared_at :: timestamp

record submission_outcome =
  su_state :: attempt_state
  su_post_state :: "agent_state option"
  su_error_code :: "rstr option"
  su_deletion :: "operation_id option"
  su_at :: timestamp

text \<open>A row of \<open>submission_attempts\<close> and one of \<open>submission_attempt_items\<close>.\<close>

record attempt_row =
  at_id :: submission_id
  at_session_id :: session_id
  at_thought_id :: thought_id
  at_source_digest :: fingerprint
  at_source_sequence :: int
  at_disposition :: submission_disposition
  at_route :: submission_journal_route
  at_provider :: rstr
  at_protocol :: int
  at_target_fingerprint :: fingerprint
  at_pre_state :: agent_state
  at_post_state :: "agent_state option"
  at_error_code :: "rstr option"
  at_deletion :: "operation_id option"
  at_state :: attempt_state
  at_prepared_at :: timestamp
  at_updated_at :: timestamp

record item_row =
  im_submission :: submission_id
  im_thought :: thought_id
  im_ordinal :: nat
  im_digest :: fingerprint
  im_active :: bool

section \<open>Transfers\<close>

record session_transfer =
  st_source_session_id :: session_id
  st_destination_session_id :: session_id
  st_operation_id :: operation_id
  st_removal_operation_id :: operation_id
  st_items :: "transfer_item list"
  st_remove_source :: bool

datatype transfer_status = TransferPrepared | TransferSending | TransferAccepted | TransferCompleted

text \<open>A row of \<open>transfer_attempts\<close>; a row of \<open>transfer_source_claims\<close> is a pair.\<close>

record transfer_row =
  tf_operation_id :: operation_id
  tf_source :: session_id
  tf_destination :: session_id
  tf_removal :: operation_id
  tf_request :: session_transfer
  tf_status :: transfer_status
  tf_receipt :: "commit_receipt option"
  tf_reason :: "rstr option"
  tf_created_at :: timestamp

record journal =
  jn_store :: database
  jn_attempts :: "attempt_row list"
  jn_items :: "item_row list"
  jn_transfers :: "transfer_row list"
  jn_claims :: "(thought_id \<times> operation_id) list"

section \<open>The journal of submissions\<close>

definition attempt_row_of :: "journal \<Rightarrow> submission_id \<Rightarrow> attempt_row option" where
  "attempt_row_of j i = List.find (\<lambda>r. at_id r = i) (jn_attempts j)"

definition new_attempt_row :: "submission_attempt \<Rightarrow> submission_source \<Rightarrow> attempt_row" where
  "new_attempt_row a source =
     \<lparr>at_id = sa_id a, at_session_id = sa_session_id a, at_thought_id = so_thought_id source,
      at_source_digest = sa_payload_digest a, at_source_sequence = min (uint (sa_source_sequence a)) i64_top,
      at_disposition = sa_disposition a, at_route = sa_route a, at_provider = sa_provider a, at_protocol = uint (sa_protocol a),
      at_target_fingerprint = sa_target_fingerprint a, at_pre_state = sa_pre_state a, at_post_state = None,
      at_error_code = None, at_deletion = None, at_state = AttemptPrepared, at_prepared_at = sa_prepared_at a,
      at_updated_at = sa_prepared_at a\<rparr>"

text \<open>The insertion violates a constraint when the submission has the ordinal or the thought already, or when the
  thought is active in any submission.\<close>

definition insert_item :: "item_row \<Rightarrow> journal \<Rightarrow> store_error + journal" where
  "insert_item row j =
     (if list_ex (\<lambda>r. im_submission r = im_submission row \<and> (im_ordinal r = im_ordinal row \<or> im_thought r = im_thought row)
           \<or> im_active r \<and> im_active row \<and> im_thought r = im_thought row) (jn_items j)
      then Inl StoreConflict else Inr (j\<lparr>jn_items := jn_items j @ [row]\<rparr>))"

definition prepare_attempt :: "submission_attempt \<Rightarrow> journal \<Rightarrow> store_error + journal" where
  "prepare_attempt a j =
     (case sa_sources a of
        [] \<Rightarrow> Inl StoreIntegrity
      | first # _ \<Rightarrow>
          if attempt_row_of j (sa_id a) \<noteq> None then Inl StoreConflict
          else try_fold (\<lambda>j (ordinal, source). insert_item \<lparr>im_submission = sa_id a, im_thought = so_thought_id source,
                   im_ordinal = ordinal, im_digest = so_digest source, im_active = True\<rparr> j)
                 (j\<lparr>jn_attempts := jn_attempts j @ [new_attempt_row a first]\<rparr>) (enumerate 0 (sa_sources a)))"

definition update_attempts :: "(attempt_row \<Rightarrow> bool) \<Rightarrow> (attempt_row \<Rightarrow> attempt_row) \<Rightarrow> journal \<Rightarrow> journal" where
  "update_attempts p f j = j\<lparr>jn_attempts := map (\<lambda>r. if p r then f r else r) (jn_attempts j)\<rparr>"

definition changed_attempts :: "(attempt_row \<Rightarrow> bool) \<Rightarrow> journal \<Rightarrow> nat" where
  "changed_attempts p j = length (filter p (jn_attempts j))"

definition require_one :: "nat \<Rightarrow> store_error + unit" where
  "require_one changed = (if changed = 1 then Inr () else Inl StoreConflict)"

definition attempt_transition :: "submission_id \<Rightarrow> attempt_state \<Rightarrow> attempt_state \<Rightarrow> timestamp \<Rightarrow> rstr option \<Rightarrow> journal
    \<Rightarrow> store_error + journal" where
  "attempt_transition i from_state to_state at code j =
     (let p = (\<lambda>r. at_id r = i \<and> at_state r = from_state) in
      try_bind (require_one (changed_attempts p j)) (\<lambda>_.
        Inr (update_attempts p (\<lambda>r. r\<lparr>at_state := to_state, at_error_code := code, at_updated_at := at\<rparr>) j)))"

definition mark_sending :: "submission_id \<Rightarrow> timestamp \<Rightarrow> journal \<Rightarrow> store_error + journal" where
  "mark_sending i at j = attempt_transition i AttemptPrepared AttemptSending at None j"

definition deactivate_sources :: "submission_id \<Rightarrow> journal \<Rightarrow> journal" where
  "deactivate_sources i j =
     j\<lparr>jn_items := map (\<lambda>r. if im_submission r = i then r\<lparr>im_active := False\<rparr> else r) (jn_items j)\<rparr>"

definition outcome_row :: "submission_outcome \<Rightarrow> attempt_row \<Rightarrow> attempt_row" where
  "outcome_row outcome r = r\<lparr>at_state := su_state outcome, at_post_state := su_post_state outcome,
     at_error_code := su_error_code outcome, at_deletion := su_deletion outcome, at_updated_at := su_at outcome\<rparr>"

definition finish_attempt :: "submission_id \<Rightarrow> submission_outcome \<Rightarrow> journal \<Rightarrow> store_error + journal" where
  "finish_attempt i outcome j =
     (if su_state outcome \<in> {AttemptPrepared, AttemptSending} then Inl StoreIntegrity
      else (let p = (\<lambda>r. at_id r = i \<and> at_state r = AttemptSending) in
        try_bind (require_one (changed_attempts p j)) (\<lambda>_.
          Inr (deactivate_sources i (update_attempts p (outcome_row outcome) j)))))"

definition outcome_matches :: "journal \<Rightarrow> submission_id \<Rightarrow> submission_outcome \<Rightarrow> bool" where
  "outcome_matches j i outcome =
     (case attempt_row_of j i of
        None \<Rightarrow> False
      | Some r \<Rightarrow> at_state r = su_state outcome \<and> at_post_state r = su_post_state outcome
          \<and> at_error_code r = su_error_code outcome \<and> at_deletion r = su_deletion outcome \<and> at_updated_at r = su_at outcome)"

definition finish_with_removal :: "digest_of \<Rightarrow> submission_id \<Rightarrow> submission_outcome \<Rightarrow> board_operation \<Rightarrow> journal
    \<Rightarrow> store_error + commit_receipt \<times> journal" where
  "finish_with_removal request_digest i outcome removal j =
     (if su_state outcome \<noteq> AttemptAccepted \<or> su_deletion outcome \<noteq> Some (op_id removal) then Inl StoreIntegrity
      else (case finish_attempt i outcome j of
          Inr j' \<Rightarrow>
            try_bind (commit_batch request_digest (BatchBoard removal None) (jn_store j')) (\<lambda>(receipt, db).
            try_bind (ok_or StoreIntegrity receipt) (\<lambda>receipt. Inr (receipt, j'\<lparr>jn_store := db\<rparr>)))
        | Inl StoreConflict \<Rightarrow>
            if \<not> outcome_matches j i outcome then Inl StoreConflict
            else try_bind (operation_request (jn_store j) (op_id removal)) (\<lambda>request.
              case request of
                Some (StoredBoard operation _ receipt) \<Rightarrow> if operation = removal then Inr (receipt, j) else Inl StoreConflict
              | _ \<Rightarrow> Inl StoreConflict)
        | Inl e \<Rightarrow> Inl e))"

definition recover_attempts :: "session_id \<Rightarrow> timestamp \<Rightarrow> journal \<Rightarrow> journal" where
  "recover_attempts sid at j =
     (let j' = update_attempts (\<lambda>r. at_session_id r = sid \<and> at_state r \<in> {AttemptPrepared, AttemptSending})
            (\<lambda>r. r\<lparr>at_state := (if at_state r = AttemptPrepared then AttemptCancelled
                    else if at_state r = AttemptSending then AttemptOutcomeUnknown else at_state r),
                 at_updated_at := at\<rparr>) j in
      j'\<lparr>jn_items := map (\<lambda>r. if im_submission r \<in> set (map at_id (filter (\<lambda>a. at_session_id a = sid) (jn_attempts j')))
                        then r\<lparr>im_active := False\<rparr> else r) (jn_items j')\<rparr>)"

section \<open>The journal of transfers\<close>

definition transfer_row_of :: "journal \<Rightarrow> operation_id \<Rightarrow> transfer_row option" where
  "transfer_row_of j i = List.find (\<lambda>r. tf_operation_id r = i) (jn_transfers j)"

definition update_transfers :: "(transfer_row \<Rightarrow> bool) \<Rightarrow> (transfer_row \<Rightarrow> transfer_row) \<Rightarrow> journal \<Rightarrow> journal" where
  "update_transfers p f j = j\<lparr>jn_transfers := map (\<lambda>r. if p r then f r else r) (jn_transfers j)\<rparr>"

definition pending_transfers :: "session_id \<Rightarrow> journal \<Rightarrow> session_transfer list" where
  "pending_transfers source j =
     map tf_request (sort_key tf_created_at (sort_key (operation_bytes \<circ> tf_operation_id)
       (filter (\<lambda>r. tf_source r = source \<and> tf_status r \<noteq> TransferCompleted) (jn_transfers j))))"

definition replay_prepared :: "session_transfer \<Rightarrow> transfer_row \<Rightarrow> store_error + commit_receipt option" where
  "replay_prepared request r = (if tf_request r \<noteq> request then Inl StoreConflict else Inr (tf_receipt r))"

definition insert_claim :: "operation_id \<Rightarrow> thought_id \<Rightarrow> journal \<Rightarrow> store_error + journal" where
  "insert_claim oid i j =
     (if i \<in> set (map fst (jn_claims j)) then Inl StoreConflict else Inr (j\<lparr>jn_claims := jn_claims j @ [(i, oid)]\<rparr>))"

definition prepare_transfer :: "session_transfer \<Rightarrow> timestamp \<Rightarrow> journal \<Rightarrow> store_error + commit_receipt option \<times> journal" where
  "prepare_transfer request at j =
     (if st_items request = [] \<or> st_source_session_id request = st_destination_session_id request
         \<or> st_operation_id request = st_removal_operation_id request
      then Inl StoreConflict
      else (case transfer_row_of j (st_operation_id request) of
          Some r \<Rightarrow> try_bind (replay_prepared request r) (\<lambda>receipt. Inr (receipt, j))
        | None \<Rightarrow>
            if list_ex (\<lambda>r. tf_removal r = st_removal_operation_id request) (jn_transfers j) then Inl StoreConflict
            else try_bind (try_fold (\<lambda>j item. insert_claim (st_operation_id request) (source_thought_id item) j)
                   (j\<lparr>jn_transfers := jn_transfers j @ [\<lparr>tf_operation_id = st_operation_id request,
                      tf_source = st_source_session_id request, tf_destination = st_destination_session_id request,
                      tf_removal = st_removal_operation_id request, tf_request = request, tf_status = TransferPrepared,
                      tf_receipt = None, tf_reason = None, tf_created_at = at\<rparr>]\<rparr>) (st_items request)) (\<lambda>j.
                 Inr (None, j))))"

definition validate_sending_status :: "transfer_status \<Rightarrow> store_error + unit" where
  "validate_sending_status status =
     (if status \<in> {TransferSending, TransferAccepted, TransferCompleted} then Inr () else Inl StoreConflict)"

definition mark_transfer_sending :: "operation_id \<Rightarrow> journal \<Rightarrow> store_error + journal" where
  "mark_transfer_sending i j =
     (let p = (\<lambda>r. tf_operation_id r = i \<and> tf_status r = TransferPrepared) in
      if filter p (jn_transfers j) = []
      then try_bind (ok_or StoreIo (transfer_row_of j i)) (\<lambda>r.
           try_bind (validate_sending_status (tf_status r)) (\<lambda>_. Inr j))
      else Inr (update_transfers p (\<lambda>r. r\<lparr>tf_status := TransferSending\<rparr>) j))"

definition validate_receipt_replay :: "commit_receipt \<Rightarrow> commit_receipt \<Rightarrow> store_error + unit" where
  "validate_receipt_replay previous receipt =
     (if rc_session_id previous = rc_session_id receipt \<and> rc_sequence previous = rc_sequence receipt
         \<and> rc_identity previous = rc_identity receipt
      then Inr () else Inl StoreConflict)"

definition accept_transfer :: "session_transfer \<Rightarrow> commit_receipt \<Rightarrow> journal \<Rightarrow> store_error + journal" where
  "accept_transfer request receipt j =
     (if rc_session_id receipt \<noteq> st_destination_session_id request
         \<or> rc_identity receipt \<noteq> OperationIdentity (st_operation_id request)
      then Inl StoreConflict
      else try_bind (ok_or StoreIo (transfer_row_of j (st_operation_id request))) (\<lambda>r.
        if tf_request r \<noteq> request then Inl StoreConflict
        else (case tf_receipt r of
            Some previous \<Rightarrow> try_bind (validate_receipt_replay previous receipt) (\<lambda>_. Inr j)
          | None \<Rightarrow> Inr (update_transfers (\<lambda>r. tf_operation_id r = st_operation_id request
                       \<and> tf_status r \<in> {TransferPrepared, TransferSending})
                     (\<lambda>r. r\<lparr>tf_status := TransferAccepted, tf_receipt := Some receipt\<rparr>) j))))"

fun collect_deleted :: "board_mutation \<Rightarrow> thought_id list" where
  "collect_deleted (Batch mutations) = concat (map collect_deleted mutations)"
| "collect_deleted (SetDeletion i (Some _) _) = [i]"
| "collect_deleted _ = []"

definition validate_removal :: "session_transfer \<Rightarrow> board_operation \<Rightarrow> store_error + unit" where
  "validate_removal request operation =
     (if op_id operation \<noteq> st_removal_operation_id request \<or> op_session_id operation \<noteq> st_source_session_id request
         \<or> op_kind operation \<noteq> TransferAndRemove
         \<or> rev (collect_deleted (op_forward operation)) \<noteq> map source_thought_id (st_items request)
      then Inl StoreConflict else Inr ())"

definition completed_transfer_receipt :: "digest_of \<Rightarrow> database \<Rightarrow> session_transfer \<Rightarrow> board_operation option \<Rightarrow> rstr option
    \<Rightarrow> store_error + commit_receipt option" where
  "completed_transfer_receipt request_digest db request removal reason =
     (case (reason, removal) of
        (None, _) \<Rightarrow> Inl StoreCorrupt
      | (Some why, Some operation) \<Rightarrow>
          if why = lit ''removed''
          then try_bind (validate_removal request operation) (\<lambda>_.
               try_bind (existing_receipt request_digest db (OperationIdentity (op_id operation)) (BoardText operation) None) (\<lambda>existing.
               try_bind (ok_or StoreIntegrity existing) (\<lambda>receipt. Inr (Some receipt))))
          else if why = lit ''kept'' \<or> why = lit ''source_changed'' then Inl StoreConflict
          else Inl StoreCorrupt
      | (Some why, None) \<Rightarrow>
          if why = lit ''removed'' then Inl StoreConflict
          else if why = lit ''kept'' \<or> why = lit ''source_changed'' then Inr None
          else Inl StoreCorrupt)"

definition completion_mode :: "bool \<Rightarrow> bool \<Rightarrow> rstr \<Rightarrow> bool" where
  "completion_mode remove_source removes reason \<longleftrightarrow>
     remove_source \<and> removes \<and> reason = lit ''removed''
     \<or> remove_source \<and> \<not> removes \<and> reason = lit ''source_changed''
     \<or> \<not> remove_source \<and> \<not> removes \<and> reason = lit ''kept''"

definition finish_transfer :: "digest_of \<Rightarrow> session_transfer \<Rightarrow> board_operation option \<Rightarrow> rstr \<Rightarrow> journal
    \<Rightarrow> store_error + commit_receipt option \<times> journal" where
  "finish_transfer request_digest request removal reason j =
     (if \<not> completion_mode (st_remove_source request) (removal \<noteq> None) reason then Inl StoreConflict
      else try_bind (ok_or StoreIo (transfer_row_of j (st_operation_id request))) (\<lambda>r.
        if tf_request r \<noteq> request then Inl StoreConflict
        else if tf_status r = TransferCompleted
        then try_bind (completed_transfer_receipt request_digest (jn_store j) request removal (tf_reason r)) (\<lambda>receipt. Inr (receipt, j))
        else if tf_status r \<noteq> TransferAccepted then Inl StoreConflict
        else try_bind (case removal of
               Some operation \<Rightarrow>
                 try_bind (validate_removal request operation) (\<lambda>_.
                 try_bind (commit_board request_digest operation None (jn_store j)) (\<lambda>(receipt, db). Inr (Some receipt, db)))
             | None \<Rightarrow> Inr (None, jn_store j)) (\<lambda>(receipt, db).
             Inr (receipt, (update_transfers (\<lambda>r. tf_operation_id r = st_operation_id request)
                  (\<lambda>r. r\<lparr>tf_status := TransferCompleted, tf_reason := Some reason\<rparr>) j)
                \<lparr>jn_store := db, jn_claims := filter (\<lambda>c. snd c \<noteq> st_operation_id request) (jn_claims j)\<rparr>))))"

end
