(* ===== verification/Journal_Properties.thy ===== *)
theory Journal_Properties
  imports Store_Journals
begin

text \<open>
  What the journals of deliveries promise in every state the operations can reach: a thought takes part in at most one
  unsettled submission and in at most one unfinished transfer, a settled submission never changes again, and a
  delivery that removes its sources is done once, however often its last step is repeated.
\<close>

section \<open>Steps\<close>

inductive journal_step :: "digest_of \<Rightarrow> journal \<Rightarrow> journal \<Rightarrow> bool" for request_digest where
  prepare: "prepare_attempt a j = Inr j' \<Longrightarrow> journal_step request_digest j j'"
| sending: "mark_sending i at j = Inr j' \<Longrightarrow> journal_step request_digest j j'"
| finish: "finish_attempt i outcome j = Inr j' \<Longrightarrow> journal_step request_digest j j'"
| removal: "finish_with_removal request_digest i outcome operation j = Inr (receipt, j') \<Longrightarrow> journal_step request_digest j j'"
| recover: "journal_step request_digest j (recover_attempts sid at j)"
| transfer: "prepare_transfer request at j = Inr (previous, j') \<Longrightarrow> journal_step request_digest j j'"
| transfer_sending: "mark_transfer_sending oid j = Inr j' \<Longrightarrow> journal_step request_digest j j'"
| accept: "accept_transfer request receipt j = Inr j' \<Longrightarrow> journal_step request_digest j j'"
| transfer_finish: "finish_transfer request_digest request removed reason j = Inr (answer, j') \<Longrightarrow> journal_step request_digest j j'"
| commit: "commit_batch request_digest batch (jn_store j) = Inr (answer, db) \<Longrightarrow> journal_step request_digest j (j\<lparr>jn_store := db\<rparr>)"

section \<open>Submissions\<close>

definition settled :: "attempt_state \<Rightarrow> bool" where
  "settled s \<longleftrightarrow> s \<notin> {AttemptPrepared, AttemptSending}"

text \<open>Every item belongs to an attempt and is active exactly while the attempt is unsettled, and no two active items
  have the same thought.\<close>

definition active_distinct :: "item_row list \<Rightarrow> bool" where
  "active_distinct items \<longleftrightarrow> distinct (map im_thought (filter im_active items))"

definition attempts_ok :: "attempt_row list \<Rightarrow> item_row list \<Rightarrow> bool" where
  "attempts_ok attempts items \<longleftrightarrow> distinct (map at_id attempts) \<and> active_distinct items
     \<and> (\<forall>r \<in> set items. \<exists>a \<in> set attempts. at_id a = im_submission r \<and> (im_active r \<longleftrightarrow> \<not> settled (at_state a)))"

lemma insert_item_Inr:
  "insert_item row j = Inr j' \<longleftrightarrow> j' = j\<lparr>jn_items := jn_items j @ [row]\<rparr>
     \<and> (\<forall>r \<in> set (jn_items j). \<not> (im_submission r = im_submission row \<and> (im_ordinal r = im_ordinal row \<or> im_thought r = im_thought row)
           \<or> im_active r \<and> im_active row \<and> im_thought r = im_thought row))"
  by (auto simp: insert_item_def list_ex_iff)

lemma insert_item_distinct: "insert_item row j = Inr j' \<Longrightarrow> active_distinct (jn_items j) \<Longrightarrow> active_distinct (jn_items j')"
  by (auto simp: insert_item_Inr active_distinct_def)

lemma insert_items:
  assumes "try_fold (\<lambda>j x. insert_item (f x) j) j xs = Inr j'"
  shows "j' = j\<lparr>jn_items := jn_items j @ map f xs\<rparr>" and "active_distinct (jn_items j) \<Longrightarrow> active_distinct (jn_items j')"
proof -
  show "j' = j\<lparr>jn_items := jn_items j @ map f xs\<rparr>" using assms
  proof (induction xs arbitrary: j)
    case (Cons x xs)
    then obtain k where k: "insert_item (f x) j = Inr k" "try_fold (\<lambda>j x. insert_item (f x) j) k xs = Inr j'" by auto
    from Cons.IH [OF k(2)] show ?case using k(1) by (simp add: insert_item_Inr)
  qed simp
  show "active_distinct (jn_items j')" if "active_distinct (jn_items j)"
    by (rule try_fold_invariant [where P = "\<lambda>j. active_distinct (jn_items j)", OF that insert_item_distinct assms])
qed

lemma prepare_attempt_effect:
  assumes "prepare_attempt a j = Inr j'"
  obtains first where "attempt_row_of j (sa_id a) = None"
    "j' = j\<lparr>jn_attempts := jn_attempts j @ [new_attempt_row a first], jn_items := jn_items j' \<rparr>"
    "\<exists>new. jn_items j' = jn_items j @ new \<and> (\<forall>r \<in> set new. im_submission r = sa_id a \<and> im_active r)"
    "active_distinct (jn_items j) \<longrightarrow> active_distinct (jn_items j')"
proof -
  let ?f = "\<lambda>(ordinal, source). \<lparr>im_submission = sa_id a, im_thought = so_thought_id source,
    im_ordinal = ordinal, im_digest = so_digest source, im_active = True\<rparr>"
  from assms obtain first rest where s: "sa_sources a = first # rest" "attempt_row_of j (sa_id a) = None"
    "try_fold (\<lambda>j x. insert_item (?f x) j) (j\<lparr>jn_attempts := jn_attempts j @ [new_attempt_row a first]\<rparr>) (enumerate 0 (sa_sources a)) = Inr j'"
    by (auto simp: prepare_attempt_def case_prod_beta' split: list.splits if_splits)
  note i = insert_items [OF s(3)]
  show ?thesis
  proof (rule that [OF s(2), of first])
    show "j' = j\<lparr>jn_attempts := jn_attempts j @ [new_attempt_row a first], jn_items := jn_items j'\<rparr>" using i by simp
    show "\<exists>new. jn_items j' = jn_items j @ new \<and> (\<forall>r \<in> set new. im_submission r = sa_id a \<and> im_active r)"
      using i by (intro exI [of _ "map ?f (enumerate 0 (sa_sources a))"]) (auto simp: case_prod_beta)
  qed (use i in auto)
qed

text \<open>Rows of attempts and items under the two updates.\<close>

lemma update_attempts_simps [simp]:
  "jn_attempts (update_attempts p f j) = map (\<lambda>r. if p r then f r else r) (jn_attempts j)"
  "jn_items (update_attempts p f j) = jn_items j" "jn_store (update_attempts p f j) = jn_store j"
  "jn_transfers (update_attempts p f j) = jn_transfers j" "jn_claims (update_attempts p f j) = jn_claims j"
  by (simp_all add: update_attempts_def)

lemma deactivate_sources_simps [simp]:
  "jn_attempts (deactivate_sources i j) = jn_attempts j" "jn_store (deactivate_sources i j) = jn_store j"
  "jn_items (deactivate_sources i j) = map (\<lambda>r. if im_submission r = i then r\<lparr>im_active := False\<rparr> else r) (jn_items j)"
  "jn_transfers (deactivate_sources i j) = jn_transfers j" "jn_claims (deactivate_sources i j) = jn_claims j"
  by (simp_all add: deactivate_sources_def)

lemma active_distinct_deactivate:
  "active_distinct items \<Longrightarrow> active_distinct (map (\<lambda>r. if p r then r\<lparr>im_active := False\<rparr> else r) items)"
proof -
  have "map im_thought (filter im_active (map (\<lambda>r. if p r then r\<lparr>im_active := False\<rparr> else r) items))
      = map im_thought (filter (\<lambda>r. \<not> p r) (filter im_active items))" by (induction items) auto
  then show "active_distinct items \<Longrightarrow> ?thesis" unfolding active_distinct_def by (simp only: distinct_map_filter)
qed

text \<open>An update of attempts, with the items of the attempts it settles deactivated.\<close>

lemma attempts_ok_update:
  assumes "attempts_ok attempts items" "\<And>a. p a \<Longrightarrow> at_id (f a) = at_id a" "\<And>a. p a \<Longrightarrow> \<not> settled (at_state a)"
    "\<And>a. a \<in> set attempts \<Longrightarrow> p a \<Longrightarrow> settled (at_state (f a)) \<longleftrightarrow> at_id a \<in> gone"
    "\<And>a. a \<in> set attempts \<Longrightarrow> \<not> p a \<Longrightarrow> at_id a \<in> gone \<Longrightarrow> settled (at_state a)"
  shows "attempts_ok (map (\<lambda>r. if p r then f r else r) attempts)
    (map (\<lambda>r. if im_submission r \<in> gone then r\<lparr>im_active := False\<rparr> else r) items)"
proof -
  have ids: "map at_id (map (\<lambda>r. if p r then f r else r) attempts) = map at_id attempts" using assms(2) by simp
  have rows: "\<exists>a \<in> set (map (\<lambda>r. if p r then f r else r) attempts). at_id a = im_submission r' \<and> (im_active r' \<longleftrightarrow> \<not> settled (at_state a))"
    if r': "r' \<in> set (map (\<lambda>r. if im_submission r \<in> gone then r\<lparr>im_active := False\<rparr> else r) items)" for r'
  proof -
    from r' obtain r where r: "r \<in> set items" "r' = (if im_submission r \<in> gone then r\<lparr>im_active := False\<rparr> else r)" by auto
    then obtain a where a: "a \<in> set attempts" "at_id a = im_submission r" "im_active r \<longleftrightarrow> \<not> settled (at_state a)"
      using assms(1) by (auto simp: attempts_ok_def)
    let ?a = "if p a then f a else a"
    have "im_submission r' = im_submission r" using r(2) by simp
    moreover have "at_id ?a = at_id a" using assms(2) by simp
    moreover have "im_active r' \<longleftrightarrow> \<not> settled (at_state ?a)"
      using a r(2) assms(3) [of a] assms(4) [OF a(1)] assms(5) [OF a(1)] by (cases "p a"; cases "at_id a \<in> gone") auto
    ultimately have "at_id ?a = im_submission r'" "im_active r' \<longleftrightarrow> \<not> settled (at_state ?a)" using a(2) by simp_all
    then show ?thesis using a(1) by (intro bexI [of _ ?a]) auto
  qed
  show ?thesis unfolding attempts_ok_def ids
    using assms(1) rows active_distinct_deactivate [of items "\<lambda>r. im_submission r \<in> gone"] by (simp only: attempts_ok_def simp_thms) blast
qed

lemma attempts_ok_prepare:
  assumes "prepare_attempt a j = Inr j'" "attempts_ok (jn_attempts j) (jn_items j)"
  shows "attempts_ok (jn_attempts j') (jn_items j')"
proof -
  from assms(1) obtain first new where n: "attempt_row_of j (sa_id a) = None"
    "j' = j\<lparr>jn_attempts := jn_attempts j @ [new_attempt_row a first], jn_items := jn_items j' \<rparr>"
    "jn_items j' = jn_items j @ new" "\<forall>r \<in> set new. im_submission r = sa_id a \<and> im_active r"
    "active_distinct (jn_items j) \<longrightarrow> active_distinct (jn_items j')" by (rule prepare_attempt_effect) blast
  have row: "at_id (new_attempt_row a first) = sa_id a" "\<not> settled (at_state (new_attempt_row a first))"
    by (simp_all add: new_attempt_row_def settled_def)
  have at: "jn_attempts j' = jn_attempts j @ [new_attempt_row a first]" by (subst n(2)) simp
  have "sa_id a \<notin> set (map at_id (jn_attempts j))" using n(1) by (auto simp: attempt_row_of_def find_None_iff)
  then show ?thesis using assms(2) n(3-5) row unfolding attempts_ok_def at by auto
qed

lemma attempts_ok_transition:
  assumes "attempt_transition i s s' at c j = Inr j'" "settled s = settled s'" "\<not> settled s" "attempts_ok (jn_attempts j) (jn_items j)"
  shows "attempts_ok (jn_attempts j') (jn_items j')"
  using assms attempts_ok_update [OF assms(4), of "\<lambda>r. at_id r = i \<and> at_state r = s"
      "\<lambda>r. r\<lparr>at_state := s', at_error_code := c, at_updated_at := at\<rparr>" "{}"]
  by (auto simp: attempt_transition_def Let_def)

lemma finish_attempt_Inr:
  "finish_attempt i outcome j = Inr j' \<longleftrightarrow> settled (su_state outcome)
     \<and> length (filter (\<lambda>r. at_id r = i \<and> at_state r = AttemptSending) (jn_attempts j)) = 1
     \<and> j' = deactivate_sources i (update_attempts (\<lambda>r. at_id r = i \<and> at_state r = AttemptSending) (outcome_row outcome) j)"
  by (auto simp: finish_attempt_def Let_def require_one_def changed_attempts_def settled_def)

lemma attempts_ok_finish:
  assumes "finish_attempt i outcome j = Inr j'" "attempts_ok (jn_attempts j) (jn_items j)"
  shows "attempts_ok (jn_attempts j') (jn_items j')"
proof -
  from assms(1) have f: "settled (su_state outcome)"
    "length (filter (\<lambda>r. at_id r = i \<and> at_state r = AttemptSending) (jn_attempts j)) = 1"
    "j' = deactivate_sources i (update_attempts (\<lambda>r. at_id r = i \<and> at_state r = AttemptSending) (outcome_row outcome) j)"
    by (simp_all add: finish_attempt_Inr)
  obtain a where a: "a \<in> set (jn_attempts j)" "at_id a = i" "at_state a = AttemptSending"
  proof -
    have "filter (\<lambda>r. at_id r = i \<and> at_state r = AttemptSending) (jn_attempts j) \<noteq> []" using f(2) by auto
    then show ?thesis using that by (auto simp: filter_empty_conv)
  qed
  have one: "b = a" if "b \<in> set (jn_attempts j)" "at_id b = i" for b
    using assms(2) a that by (auto simp: attempts_ok_def distinct_map inj_on_def)
  have "attempts_ok (map (\<lambda>r. if at_id r = i \<and> at_state r = AttemptSending then outcome_row outcome r else r) (jn_attempts j))
    (map (\<lambda>r. if im_submission r \<in> {i} then r\<lparr>im_active := False\<rparr> else r) (jn_items j))"
  proof (rule attempts_ok_update [OF assms(2)])
    show "settled (at_state b)" if "b \<in> set (jn_attempts j)" "\<not> (at_id b = i \<and> at_state b = AttemptSending)" "at_id b \<in> {i}" for b
      using one [OF that(1)] that(2,3) a(2,3) by simp
  qed (use f(1) in \<open>auto simp: outcome_row_def settled_def\<close>)
  then show ?thesis by (simp add: f(3))
qed

lemma filter_map_keep:
  "(\<And>r. q (g r) = q r \<and> h (g r) = h r) \<Longrightarrow> map h (filter q (map g rs)) = map h (filter q rs)"
  by (induction rs) simp_all

lemma attempts_ok_recover:
  assumes "attempts_ok (jn_attempts j) (jn_items j)"
  shows "attempts_ok (jn_attempts (recover_attempts sid at j)) (jn_items (recover_attempts sid at j))"
proof -
  let ?p = "\<lambda>r. at_session_id r = sid \<and> at_state r \<in> {AttemptPrepared, AttemptSending}"
  let ?f = "\<lambda>r. r\<lparr>at_state := (if at_state r = AttemptPrepared then AttemptCancelled
                    else if at_state r = AttemptSending then AttemptOutcomeUnknown else at_state r), at_updated_at := at\<rparr>"
  let ?gone = "set (map at_id (filter (\<lambda>a. at_session_id a = sid) (jn_attempts j)))"
  have gone: "at_id a \<in> ?gone \<longleftrightarrow> at_session_id a = sid" if "a \<in> set (jn_attempts j)" for a
    using assms that by (auto simp: attempts_ok_def distinct_map inj_on_def)
  have "set (map at_id (filter (\<lambda>a. at_session_id a = sid) (map (\<lambda>r. if ?p r then ?f r else r) (jn_attempts j)))) = ?gone"
    by (subst filter_map_keep) simp_all
  moreover have "attempts_ok (map (\<lambda>r. if ?p r then ?f r else r) (jn_attempts j))
    (map (\<lambda>r. if im_submission r \<in> ?gone then r\<lparr>im_active := False\<rparr> else r) (jn_items j))"
    by (rule attempts_ok_update [OF assms]) (use gone in \<open>auto simp: settled_def\<close>)
  ultimately show ?thesis by (simp add: recover_attempts_def Let_def)
qed

lemma finish_with_removal_cases:
  assumes "finish_with_removal request_digest i outcome removal j = Inr (receipt, j')"
  obtains (replay) "j' = j" "outcome_matches j i outcome" "finish_attempt i outcome j = Inl StoreConflict"
      "\<exists>fp. operation_request (jn_store j) (op_id removal) = Inr (Some (StoredBoard removal fp receipt))"
    | (fresh) k db where "finish_attempt i outcome j = Inr k"
      "commit_board request_digest removal None (jn_store k) = Inr (receipt, db)" "j' = k\<lparr>jn_store := db\<rparr>"
proof -
  have c: "su_state outcome = AttemptAccepted" "su_deletion outcome = Some (op_id removal)"
    using assms by (auto simp: finish_with_removal_def split: if_split_asm)
  show ?thesis
  proof (cases "finish_attempt i outcome j")
    case (Inr k)
    then show ?thesis using assms c fresh by (auto simp: finish_with_removal_def)
  next
    case (Inl e)
    then have e: "e = StoreConflict" using assms c by (cases e) (simp_all add: finish_with_removal_def)
    then have m: "outcome_matches j i outcome" using assms c Inl by (simp add: finish_with_removal_def split: if_split_asm)
    then obtain request where r: "operation_request (jn_store j) (op_id removal) = Inr request"
      "(case request of Some (StoredBoard operation _ receipt) \<Rightarrow> if operation = removal then Inr (receipt, j) else Inl StoreConflict
              | _ \<Rightarrow> Inl StoreConflict) = Inr (receipt, j')"
      using assms c Inl e by (auto simp: finish_with_removal_def)
    from r(2) obtain fp where "request = Some (StoredBoard removal fp receipt)" "j' = j"
      by (auto split: option.splits stored_request.splits if_split_asm)
    then show ?thesis using replay m Inl e r(1) by blast
  qed
qed

section \<open>Transfers\<close>

definition claims_of :: "transfer_row \<Rightarrow> (thought_id \<times> operation_id) set" where
  "claims_of r = (if tf_status r = TransferCompleted then {}
     else (\<lambda>item. (source_thought_id item, tf_operation_id r)) ` set (st_items (tf_request r)))"

text \<open>The columns of a row agree with its request, its receipt is there from the acceptance on, and its reason, one
  that fits the request, when it is completed.\<close>

definition transfer_row_ok :: "transfer_row \<Rightarrow> bool" where
  "transfer_row_ok r \<longleftrightarrow> tf_operation_id r = st_operation_id (tf_request r) \<and> tf_removal r = st_removal_operation_id (tf_request r)
     \<and> (tf_receipt r = None \<longleftrightarrow> tf_status r \<in> {TransferPrepared, TransferSending})
     \<and> (tf_reason r = None \<longleftrightarrow> tf_status r \<noteq> TransferCompleted)
     \<and> (\<forall>why. tf_reason r = Some why \<longrightarrow> (\<exists>removes. completion_mode (st_remove_source (tf_request r)) removes why))"

definition removal_done :: "database \<Rightarrow> transfer_row \<Rightarrow> bool" where
  "removal_done db r \<longleftrightarrow> (tf_reason r = Some (lit ''removed'') \<longrightarrow>
     (\<exists>row. receipt_row_of db (OperationIdentity (tf_removal r)) = Some row))"

text \<open>The claims are those of the unfinished transfers, no thought is claimed twice, and every transfer that removed its
  sources has left the receipt of the removal.\<close>

definition transfers_ok :: "journal \<Rightarrow> bool" where
  "transfers_ok j \<longleftrightarrow> distinct (map tf_operation_id (jn_transfers j)) \<and> (\<forall>r \<in> set (jn_transfers j). transfer_row_ok r)
     \<and> distinct (map fst (jn_claims j)) \<and> set (jn_claims j) = (\<Union>r \<in> set (jn_transfers j). claims_of r)
     \<and> (\<forall>r \<in> set (jn_transfers j). removal_done (jn_store j) r)"

lemma removal_done_kept: "removal_done db r \<Longrightarrow> db_receipts db' = db_receipts db @ rs \<Longrightarrow> removal_done db' r"
  using receipt_row_of_kept unfolding removal_done_def by blast

lemma update_transfers_simps [simp]:
  "jn_transfers (update_transfers p f j) = map (\<lambda>r. if p r then f r else r) (jn_transfers j)"
  "jn_items (update_transfers p f j) = jn_items j" "jn_store (update_transfers p f j) = jn_store j"
  "jn_attempts (update_transfers p f j) = jn_attempts j" "jn_claims (update_transfers p f j) = jn_claims j"
  by (simp_all add: update_transfers_def)

lemma transfers_ok_store:
  "transfers_ok j \<Longrightarrow> db_receipts db = db_receipts (jn_store j) @ rs \<Longrightarrow> jn_transfers j' = jn_transfers j
    \<Longrightarrow> jn_claims j' = jn_claims j \<Longrightarrow> jn_store j' = db \<Longrightarrow> transfers_ok j'"
  unfolding transfers_ok_def using removal_done_kept by metis

text \<open>An update that keeps the claims.\<close>

lemma transfers_ok_update:
  assumes "transfers_ok j" "\<And>r. p r \<Longrightarrow> tf_operation_id (f r) = tf_operation_id r \<and> claims_of (f r) = claims_of r \<and> tf_reason (f r) = tf_reason r
      \<and> tf_removal (f r) = tf_removal r" "\<And>r. r \<in> set (jn_transfers j) \<Longrightarrow> transfer_row_ok r \<Longrightarrow> p r \<Longrightarrow> transfer_row_ok (f r)"
  shows "transfers_ok (update_transfers p f j)"
proof -
  have same: "claims_of (if p r then f r else r) = claims_of r" for r using assms(2) by simp
  have ids: "map tf_operation_id (map (\<lambda>r. if p r then f r else r) (jn_transfers j)) = map tf_operation_id (jn_transfers j)"
    using assms(2) by simp
  have claims: "(\<Union>r \<in> set (map (\<lambda>r. if p r then f r else r) (jn_transfers j)). claims_of r) = (\<Union>r \<in> set (jn_transfers j). claims_of r)"
    by (simp only: set_map image_image same)
  have rows: "\<forall>r \<in> set (map (\<lambda>r. if p r then f r else r) (jn_transfers j)). transfer_row_ok r"
    using assms(1,3) by (auto simp: transfers_ok_def)
  have "removal_done db (f r) = removal_done db r" if "p r" for db r using assms(2) [OF that] by (simp add: removal_done_def)
  then have removed: "\<forall>r \<in> set (map (\<lambda>r. if p r then f r else r) (jn_transfers j)). removal_done (jn_store j) r"
    using assms(1) by (auto simp: transfers_ok_def)
  show ?thesis unfolding transfers_ok_def update_transfers_simps ids claims
    by (intro conjI rows removed) (use assms(1) in \<open>simp_all add: transfers_ok_def\<close>)
qed

lemma insert_claims:
  assumes "try_fold (\<lambda>j item. insert_claim oid (g item) j) j items = Inr j'"
  shows "j' = j\<lparr>jn_claims := jn_claims j @ map (\<lambda>item. (g item, oid)) items\<rparr>"
    and "distinct (map fst (jn_claims j)) \<Longrightarrow> distinct (map fst (jn_claims j'))"
proof -
  show "j' = j\<lparr>jn_claims := jn_claims j @ map (\<lambda>item. (g item, oid)) items\<rparr>" using assms
  proof (induction items arbitrary: j)
    case (Cons x xs)
    then obtain k where k: "insert_claim oid (g x) j = Inr k" "try_fold (\<lambda>j item. insert_claim oid (g item) j) k xs = Inr j'" by auto
    from Cons.IH [OF k(2)] show ?case using k(1) by (auto simp: insert_claim_def split: if_splits)
  qed simp
  have step: "distinct (map fst (jn_claims j))" if "distinct (map fst (jn_claims i))" "insert_claim oid (g x) i = Inr j" for i j x
    using that by (auto simp: insert_claim_def split: if_splits)
  show "distinct (map fst (jn_claims j'))" if "distinct (map fst (jn_claims j))"
    by (rule try_fold_invariant [where P = "\<lambda>j. distinct (map fst (jn_claims j))", OF that step assms])
qed

lemma prepare_transfer_cases:
  assumes "prepare_transfer request at j = Inr (previous, j')"
  obtains (replay) "j' = j"
    | (fresh) row where "transfer_row_of j (st_operation_id request) = None" "transfer_row_ok row" "tf_request row = request"
      "tf_status row = TransferPrepared" "tf_reason row = None"
      "j' = j\<lparr>jn_transfers := jn_transfers j @ [row],
        jn_claims := jn_claims j @ map (\<lambda>item. (source_thought_id item, st_operation_id request)) (st_items request)\<rparr>"
      "distinct (map fst (jn_claims j)) \<longrightarrow> distinct (map fst (jn_claims j'))"
proof (cases "transfer_row_of j (st_operation_id request)")
  case (Some r)
  then show ?thesis using assms replay by (auto simp: prepare_transfer_def split: if_split_asm)
next
  case None
  let ?row = "\<lparr>tf_operation_id = st_operation_id request,
    tf_source = st_source_session_id request, tf_destination = st_destination_session_id request,
    tf_removal = st_removal_operation_id request, tf_request = request, tf_status = TransferPrepared,
    tf_receipt = None, tf_reason = None, tf_created_at = at\<rparr>"
  have f: "try_fold (\<lambda>j item. insert_claim (st_operation_id request) (source_thought_id item) j)
     (j\<lparr>jn_transfers := jn_transfers j @ [?row]\<rparr>) (st_items request) = Inr j'"
    using assms None by (auto simp: prepare_transfer_def split: if_split_asm)
  show ?thesis
    by (rule fresh [of ?row]) (use None insert_claims [OF f] in \<open>simp_all add: transfer_row_ok_def\<close>)
qed

lemma transfers_ok_prepare:
  assumes "prepare_transfer request at j = Inr (previous, j')" "transfers_ok j"
  shows "transfers_ok j'"
  using assms(1)
proof (cases rule: prepare_transfer_cases)
  case replay
  then show ?thesis using assms(2) by simp
next
  case (fresh row)
  have id: "tf_operation_id row = st_operation_id request" using fresh by (simp add: transfer_row_ok_def)
  then have "tf_operation_id row \<notin> set (map tf_operation_id (jn_transfers j))"
    using fresh(1) by (auto simp: transfer_row_of_def find_None_iff)
  moreover have "claims_of row = set (map (\<lambda>item. (source_thought_id item, st_operation_id request)) (st_items request))"
    using fresh id by (simp add: claims_of_def)
  moreover have "removal_done (jn_store j) row" using fresh by (simp add: removal_done_def)
  moreover have "jn_transfers j' = jn_transfers j @ [row]" "jn_store j' = jn_store j"
    "jn_claims j' = jn_claims j @ map (\<lambda>item. (source_thought_id item, st_operation_id request)) (st_items request)"
    using fresh(6) by simp_all
  ultimately show ?thesis using assms(2) fresh(2,7) unfolding transfers_ok_def by auto
qed

lemma transfers_ok_sending:
  assumes "mark_transfer_sending oid j = Inr j'" "transfers_ok j"
  shows "transfers_ok j'"
proof -
  have "transfers_ok (update_transfers (\<lambda>r. tf_operation_id r = oid \<and> tf_status r = TransferPrepared) (\<lambda>r. r\<lparr>tf_status := TransferSending\<rparr>) j)"
    by (rule transfers_ok_update [OF assms(2)]) (auto simp: claims_of_def transfer_row_ok_def)
  then show ?thesis using assms by (auto simp: mark_transfer_sending_def Let_def split: if_split_asm)
qed

lemma transfers_ok_accept:
  assumes "accept_transfer request receipt j = Inr j'" "transfers_ok j"
  shows "transfers_ok j'"
proof -
  have "transfers_ok (update_transfers (\<lambda>r. tf_operation_id r = st_operation_id request \<and> tf_status r \<in> {TransferPrepared, TransferSending})
      (\<lambda>r. r\<lparr>tf_status := TransferAccepted, tf_receipt := Some receipt\<rparr>) j)"
    by (rule transfers_ok_update [OF assms(2)]) (auto simp: claims_of_def transfer_row_ok_def)
  then show ?thesis using assms by (auto simp: accept_transfer_def split: if_split_asm option.splits)
qed

text \<open>The completion of a transfer: a replay of one that is completed, or the removal and the change of the row.\<close>

lemma finish_transfer_cases:
  assumes "finish_transfer request_digest request removal reason j = Inr (answer, j')"
  obtains (replay) r where "j' = j" "transfer_row_of j (st_operation_id request) = Some r" "tf_request r = request"
      "tf_status r = TransferCompleted"
      "completed_transfer_receipt request_digest (jn_store j) request removal (tf_reason r) = Inr answer"
    | (fresh) r db where "transfer_row_of j (st_operation_id request) = Some r" "tf_request r = request"
      "tf_status r = TransferAccepted" "completion_mode (st_remove_source request) (removal \<noteq> None) reason"
      "case removal of None \<Rightarrow> answer = None \<and> db = jn_store j
       | Some operation \<Rightarrow> validate_removal request operation = Inr () \<and>
           (\<exists>receipt. answer = Some receipt \<and> commit_board request_digest operation None (jn_store j) = Inr (receipt, db))"
      "j' = (update_transfers (\<lambda>r. tf_operation_id r = st_operation_id request)
              (\<lambda>r. r\<lparr>tf_status := TransferCompleted, tf_reason := Some reason\<rparr>) j)
            \<lparr>jn_store := db, jn_claims := filter (\<lambda>c. snd c \<noteq> st_operation_id request) (jn_claims j)\<rparr>"
proof -
  have m: "completion_mode (st_remove_source request) (removal \<noteq> None) reason"
    using assms by (auto simp: finish_transfer_def split: if_split_asm)
  obtain r where r: "transfer_row_of j (st_operation_id request) = Some r"
    using assms m by (cases "transfer_row_of j (st_operation_id request)") (simp_all add: finish_transfer_def)
  then have q: "tf_request r = request" using assms m by (simp add: finish_transfer_def split: if_split_asm)
  show ?thesis
  proof (cases "tf_status r = TransferCompleted")
    case True
    then show ?thesis using assms m r q replay by (auto simp: finish_transfer_def)
  next
    case False
    then have a: "tf_status r = TransferAccepted" using assms m r q by (simp add: finish_transfer_def split: if_split_asm)
    show ?thesis using assms fresh [OF r q a m] m r q a by (cases removal) (auto simp: finish_transfer_def)
  qed
qed

lemma transfers_ok_finish:
  assumes "finish_transfer request_digest request removal reason j = Inr (answer, j')" "transfers_ok j"
  shows "transfers_ok j'"
  using assms(1)
proof (cases rule: finish_transfer_cases)
  case (replay r)
  then show ?thesis using assms(2) by simp
next
  case (fresh r db)
  let ?p = "\<lambda>r. tf_operation_id r = st_operation_id request"
  let ?f = "\<lambda>r. r\<lparr>tf_status := TransferCompleted, tf_reason := Some reason\<rparr>"
  have r: "r \<in> set (jn_transfers j)" "?p r" using fresh(1) by (auto simp: transfer_row_of_def find_Some_iff)
  have one: "s = r" if "s \<in> set (jn_transfers j)" "?p s" for s
    using assms(2) r that by (auto simp: transfers_ok_def distinct_map inj_on_def)
  have rows: "transfer_row_ok (?f s)" "tf_removal s = st_removal_operation_id request" if "s \<in> set (jn_transfers j)" "?p s" for s
    using assms(2) one [OF that] r(1) fresh(2,3,4) by (auto simp: transfers_ok_def transfer_row_ok_def)
  obtain rs where rs: "db_receipts db = db_receipts (jn_store j) @ rs"
    using fresh(5) commit_batch_receipts [of request_digest "BatchBoard (the removal) None" "jn_store j" _ db]
    by (cases removal) fastforce+
  have removed: "removal_done db (?f s)" if "s \<in> set (jn_transfers j)" "?p s" for s
  proof (cases removal)
    case None
    then show ?thesis using fresh(4) by (auto simp: completion_mode_def removal_done_def)
  next
    case (Some operation)
    then obtain receipt where c: "commit_board request_digest operation None (jn_store j) = Inr (receipt, db)"
      and v: "op_id operation = st_removal_operation_id request"
      using fresh(5) by (auto simp: validate_removal_def split: if_split_asm)
    then have "\<exists>row. receipt_row_of db (OperationIdentity (op_id operation)) = Some row"
      using commit_board_answered [OF c] by (auto simp: answered_by_def)
    then show ?thesis using rows(2) [OF that] v by (simp add: removal_done_def)
  qed
  have map: "map tf_operation_id (map (\<lambda>r. if ?p r then ?f r else r) (jn_transfers j)) = map tf_operation_id (jn_transfers j)" by simp
  have claims: "set (filter (\<lambda>c. snd c \<noteq> st_operation_id request) (jn_claims j))
      = (\<Union>r \<in> set (map (\<lambda>r. if ?p r then ?f r else r) (jn_transfers j)). claims_of r)"
  proof -
    have "{c \<in> claims_of s. snd c \<noteq> st_operation_id request} = claims_of (if ?p s then ?f s else s)" for s
      by (auto simp: claims_of_def)
    then have "(\<Union>s \<in> set (jn_transfers j). {c \<in> claims_of s. snd c \<noteq> st_operation_id request})
        = (\<Union>r \<in> set (map (\<lambda>r. if ?p r then ?f r else r) (jn_transfers j)). claims_of r)"
      by (simp only: set_map image_image)
    moreover have "set (jn_claims j) = (\<Union>r \<in> set (jn_transfers j). claims_of r)" using assms(2) by (simp add: transfers_ok_def)
    ultimately show ?thesis by (simp only: set_filter) blast
  qed
  have dis: "distinct (map fst (filter (\<lambda>c. snd c \<noteq> st_operation_id request) (jn_claims j)))"
    using assms(2) by (simp add: transfers_ok_def distinct_map_filter)
  have all: "\<forall>r \<in> set (map (\<lambda>r. if ?p r then ?f r else r) (jn_transfers j)). transfer_row_ok r"
    "\<forall>r \<in> set (map (\<lambda>r. if ?p r then ?f r else r) (jn_transfers j)). removal_done db r"
    using assms(2) rows(1) removed removal_done_kept [OF _ rs] by (auto simp: transfers_ok_def)
  have j': "jn_transfers j' = map (\<lambda>r. if ?p r then ?f r else r) (jn_transfers j)" "jn_store j' = db"
    "jn_claims j' = filter (\<lambda>c. snd c \<noteq> st_operation_id request) (jn_claims j)" using fresh(6) by simp_all
  show ?thesis unfolding transfers_ok_def j' map
    by (intro conjI all dis claims) (use assms(2) in \<open>simp add: transfers_ok_def\<close>)
qed

section \<open>Every step\<close>

definition journal_ok :: "journal \<Rightarrow> bool" where
  "journal_ok j \<longleftrightarrow> attempts_ok (jn_attempts j) (jn_items j) \<and> transfers_ok j"

text \<open>What an operation of one journal leaves of the other and of the store.\<close>

lemma submission_frames:
  "prepare_attempt a j = Inr j' \<Longrightarrow> jn_transfers j' = jn_transfers j \<and> jn_claims j' = jn_claims j \<and> jn_store j' = jn_store j"
  "attempt_transition i s s' at c j = Inr j' \<Longrightarrow> jn_transfers j' = jn_transfers j \<and> jn_claims j' = jn_claims j \<and> jn_store j' = jn_store j"
  "finish_attempt i outcome j = Inr j' \<Longrightarrow> jn_transfers j' = jn_transfers j \<and> jn_claims j' = jn_claims j \<and> jn_store j' = jn_store j"
  "jn_transfers (recover_attempts sid at j) = jn_transfers j \<and> jn_claims (recover_attempts sid at j) = jn_claims j
    \<and> jn_store (recover_attempts sid at j) = jn_store j"
proof -
  assume "prepare_attempt a j = Inr j'"
  then show "jn_transfers j' = jn_transfers j \<and> jn_claims j' = jn_claims j \<and> jn_store j' = jn_store j"
  proof (rule prepare_attempt_effect)
    fix first
    assume e: "j' = j\<lparr>jn_attempts := jn_attempts j @ [new_attempt_row a first], jn_items := jn_items j'\<rparr>"
    show ?thesis by (subst e, subst (2) e, subst (3) e) simp
  qed
qed (auto simp: attempt_transition_def finish_attempt_Inr recover_attempts_def Let_def)

lemma transfer_frames:
  "prepare_transfer request at j = Inr (previous, j') \<Longrightarrow> jn_attempts j' = jn_attempts j \<and> jn_items j' = jn_items j \<and> jn_store j' = jn_store j"
  "mark_transfer_sending oid j = Inr j' \<Longrightarrow> jn_attempts j' = jn_attempts j \<and> jn_items j' = jn_items j \<and> jn_store j' = jn_store j"
  "accept_transfer request receipt j = Inr j' \<Longrightarrow> jn_attempts j' = jn_attempts j \<and> jn_items j' = jn_items j \<and> jn_store j' = jn_store j"
  "finish_transfer request_digest request removal reason j = Inr (answer, j') \<Longrightarrow> jn_attempts j' = jn_attempts j \<and> jn_items j' = jn_items j"
  by (auto elim: prepare_transfer_cases finish_transfer_cases simp: mark_transfer_sending_def accept_transfer_def Let_def
    split: if_split_asm option.splits)

lemma step_receipts: "journal_step request_digest j j' \<Longrightarrow> \<exists>rs. db_receipts (jn_store j') = db_receipts (jn_store j) @ rs"
proof (induction rule: journal_step.induct)
  case (removal i outcome operation j receipt j')
  then show ?case
  proof (cases rule: finish_with_removal_cases)
    case (fresh k db)
    then show ?thesis using submission_frames(3) [OF fresh(1)] commit_batch_receipts [of request_digest "BatchBoard operation None" "jn_store k" _ db]
      by fastforce
  qed simp
next
  case (transfer_finish request removed reason j answer j')
  then show ?case
  proof (cases rule: finish_transfer_cases)
    case (fresh r db)
    then show ?thesis using commit_batch_receipts [of request_digest "BatchBoard (the removed) None" "jn_store j" _ db]
      by (cases removed) fastforce+
  qed simp
next
  case (commit batch j answer db)
  then show ?case by (auto elim: commit_batch_receipts)
qed (use submission_frames transfer_frames in \<open>fastforce simp: mark_sending_def\<close>)+

lemma journal_ok_step: "journal_step request_digest j j' \<Longrightarrow> journal_ok j \<Longrightarrow> journal_ok j'"
proof (induction rule: journal_step.induct)
  case (prepare a j j')
  then show ?case using attempts_ok_prepare [OF prepare(1)] submission_frames(1) [OF prepare(1)] transfers_ok_store [of j "jn_store j" "[]" j']
    by (simp add: journal_ok_def)
next
  case (sending i at j j')
  then show ?case using attempts_ok_transition [of i AttemptPrepared AttemptSending at None j j'] transfers_ok_store [of j "jn_store j" "[]" j']
      submission_frames(2) [of i AttemptPrepared AttemptSending at None j j']
    by (simp add: journal_ok_def mark_sending_def settled_def)
next
  case (finish i outcome j j')
  then show ?case using attempts_ok_finish [OF finish(1)] submission_frames(3) [OF finish(1)] transfers_ok_store [of j "jn_store j" "[]" j']
    by (simp add: journal_ok_def)
next
  case (removal i outcome operation j receipt j')
  obtain rs where rs: "db_receipts (jn_store j') = db_receipts (jn_store j) @ rs"
    using step_receipts journal_step.removal removal(1) by blast
  from removal(1) show ?case
  proof (cases rule: finish_with_removal_cases)
    case (fresh k db)
    then show ?thesis
      using removal(2) rs attempts_ok_finish [OF fresh(1)] submission_frames(3) [OF fresh(1)] transfers_ok_store [of j db rs j']
      by (simp add: journal_ok_def)
  qed (use removal(2) in simp)
next
  case (recover j sid at)
  then show ?case using attempts_ok_recover submission_frames(4) transfers_ok_store [of j "jn_store j" "[]" "recover_attempts sid at j"]
    by (simp add: journal_ok_def)
next
  case (transfer request at j previous j')
  then show ?case using transfers_ok_prepare [OF transfer(1)] transfer_frames(1) [OF transfer(1)] by (simp add: journal_ok_def)
next
  case (transfer_sending oid j j')
  then show ?case using transfers_ok_sending [OF transfer_sending(1)] transfer_frames(2) [OF transfer_sending(1)] by (simp add: journal_ok_def)
next
  case (accept request receipt j j')
  then show ?case using transfers_ok_accept [OF accept(1)] transfer_frames(3) [OF accept(1)] by (simp add: journal_ok_def)
next
  case (transfer_finish request removed reason j answer j')
  then show ?case using transfers_ok_finish [OF transfer_finish(1)] transfer_frames(4) [OF transfer_finish(1)] by (simp add: journal_ok_def)
next
  case (commit batch j answer db)
  obtain rs where "db_receipts db = db_receipts (jn_store j) @ rs" using commit(1) by (rule commit_batch_receipts)
  then show ?case using commit(2) transfers_ok_store [of j db rs "j\<lparr>jn_store := db\<rparr>"] by (simp add: journal_ok_def)
qed

section \<open>What stays\<close>

lemma find_unique: "distinct (map g xs) \<Longrightarrow> a \<in> set xs \<Longrightarrow> List.find (\<lambda>r. g r = g a) xs = Some a"
  by (induction xs) (auto simp: image_iff)

lemma find_map_keep:
  "(\<And>r. q (g r) = q r) \<Longrightarrow> List.find q (map g rs) = map_option g (List.find q rs)"
  by (induction rs) auto

lemma attempt_row_of_update:
  assumes "attempt_row_of j i = Some r" "\<And>r. at_id (f r) = at_id r" "\<not> p r"
  shows "attempt_row_of (update_attempts p f j) i = Some r"
proof -
  have "at_id (if p r then f r else r) = i \<longleftrightarrow> at_id r = i" for r using assms(2) by simp
  then show ?thesis using assms(1,3) find_map_keep [of "\<lambda>r. at_id r = i" "\<lambda>r. if p r then f r else r" "jn_attempts j"]
    by (simp add: attempt_row_of_def)
qed

lemma attempt_row_of_cong: "jn_attempts j' = jn_attempts j \<Longrightarrow> attempt_row_of j' i = attempt_row_of j i"
  by (simp add: attempt_row_of_def)

lemma settled_kept_updates:
  assumes "attempt_row_of j i = Some r" "settled (at_state r)"
  shows "prepare_attempt a j = Inr j' \<Longrightarrow> attempt_row_of j' i = Some r"
    and "\<not> settled s \<Longrightarrow> attempt_transition k s s' at c j = Inr j' \<Longrightarrow> attempt_row_of j' i = Some r"
    and "finish_attempt k outcome j = Inr j' \<Longrightarrow> attempt_row_of j' i = Some r"
    and "attempt_row_of (recover_attempts sid at j) i = Some r"
proof -
  show "attempt_row_of j' i = Some r" if "prepare_attempt a j = Inr j'"
    using that
  proof (rule prepare_attempt_effect)
    fix first
    assume "j' = j\<lparr>jn_attempts := jn_attempts j @ [new_attempt_row a first], jn_items := jn_items j'\<rparr>"
    then have "jn_attempts j' = jn_attempts j @ [new_attempt_row a first]" by (metis journal.select_convs(2) journal.surjective journal.update_convs(2) journal.update_convs(3))
    then show ?thesis using assms(1) by (simp add: attempt_row_of_def find_append)
  qed
  show "attempt_row_of j' i = Some r" if "\<not> settled s" "attempt_transition k s s' at c j = Inr j'"
  proof -
    have "j' = update_attempts (\<lambda>r. at_id r = k \<and> at_state r = s) (\<lambda>r. r\<lparr>at_state := s', at_error_code := c, at_updated_at := at\<rparr>) j"
      using that(2) by (auto simp: attempt_transition_def Let_def)
    then show ?thesis using assms that(1) by (auto intro!: attempt_row_of_update)
  qed
  show "attempt_row_of j' i = Some r" if "finish_attempt k outcome j = Inr j'"
  proof -
    have "attempt_row_of (update_attempts (\<lambda>r. at_id r = k \<and> at_state r = AttemptSending) (outcome_row outcome) j) i = Some r"
      using assms by (intro attempt_row_of_update) (auto simp: outcome_row_def settled_def)
    then show ?thesis using that by (simp add: finish_attempt_Inr attempt_row_of_cong [OF deactivate_sources_simps(1)])
  qed
  have "attempt_row_of (update_attempts (\<lambda>r. at_session_id r = sid \<and> at_state r \<in> {AttemptPrepared, AttemptSending})
      (\<lambda>r. r\<lparr>at_state := (if at_state r = AttemptPrepared then AttemptCancelled
        else if at_state r = AttemptSending then AttemptOutcomeUnknown else at_state r), at_updated_at := at\<rparr>) j) i = Some r"
    using assms by (intro attempt_row_of_update) (auto simp: settled_def)
  then show "attempt_row_of (recover_attempts sid at j) i = Some r"
    by (simp add: recover_attempts_def Let_def attempt_row_of_def)
qed

lemma settled_kept:
  "journal_step request_digest j j' \<Longrightarrow> attempt_row_of j i = Some r \<Longrightarrow> settled (at_state r) \<Longrightarrow> attempt_row_of j' i = Some r"
proof (induction rule: journal_step.induct)
  case (sending k at j j')
  then show ?case using settled_kept_updates(2) [of j i r AttemptPrepared] by (simp add: mark_sending_def settled_def)
next
  case (removal k outcome operation j receipt j')
  from removal(1) show ?case
  proof (cases rule: finish_with_removal_cases)
    case (fresh k' db)
    then show ?thesis using settled_kept_updates(3) [OF removal(2,3) fresh(1)] by (simp add: attempt_row_of_def)
  qed (use removal(2) in simp)
next
  case (prepare a j j')
  then show ?case using settled_kept_updates(1) by blast
next
  case (finish k outcome j j')
  then show ?case using settled_kept_updates(3) by blast
next
  case (recover j sid at)
  then show ?case using settled_kept_updates(4) by blast
next
  case (transfer request at j previous j')
  then show ?case using transfer_frames(1) [OF transfer(1)] by (simp add: attempt_row_of_def)
next
  case (transfer_sending oid j j')
  then show ?case using transfer_frames(2) [OF transfer_sending(1)] by (simp add: attempt_row_of_def)
next
  case (accept request receipt j j')
  then show ?case using transfer_frames(3) [OF accept(1)] by (simp add: attempt_row_of_def)
next
  case (transfer_finish request removed reason j answer j')
  then show ?case using transfer_frames(4) [OF transfer_finish(1)] by (simp add: attempt_row_of_def)
next
  case (commit batch j answer db)
  then show ?case by (simp add: attempt_row_of_def)
qed

lemma completed_kept:
  "journal_step request_digest j j' \<Longrightarrow> transfer_row_of j oid = Some r \<Longrightarrow> tf_status r = TransferCompleted \<Longrightarrow> transfer_row_of j' oid = Some r"
proof (induction rule: journal_step.induct)
  case (removal k outcome operation j receipt j')
  from removal(1) show ?case
  proof (cases rule: finish_with_removal_cases)
    case (fresh k' db)
    then show ?thesis using submission_frames(3) [OF fresh(1)] removal(2) by (simp add: transfer_row_of_def)
  qed (use removal(2) in simp)
next
  case (transfer request at j previous j')
  from transfer(1) show ?case
    by (cases rule: prepare_transfer_cases) (use transfer(2) in \<open>auto simp: transfer_row_of_def find_append\<close>)
next
  case (transfer_finish request removed reason j answer j')
  from transfer_finish(1) show ?case
  proof (cases rule: finish_transfer_cases)
    case (fresh r' db)
    have "oid \<noteq> st_operation_id request" using fresh(1,3) transfer_finish(2,3) by auto
    moreover have "tf_operation_id r = oid" using transfer_finish(2) by (auto simp: transfer_row_of_def find_Some_iff)
    ultimately show ?thesis using transfer_finish(2) by (auto simp: fresh(6) transfer_row_of_def find_map_keep)
  qed (use transfer_finish(2) in simp)
next
  case (transfer_sending k j j')
  then show ?case by (auto simp: mark_transfer_sending_def Let_def transfer_row_of_def find_map_keep split: if_split_asm)
next
  case (accept request receipt j j')
  then show ?case by (auto simp: accept_transfer_def transfer_row_of_def find_map_keep split: if_split_asm option.splits)
qed (use submission_frames in \<open>force simp: transfer_row_of_def mark_sending_def\<close>)+

lemma steps_keep:
  assumes "(journal_step request_digest)\<^sup>*\<^sup>* j j'"
  shows "(journal_ok j \<longrightarrow> journal_ok j') \<and> (\<exists>rs. db_receipts (jn_store j') = db_receipts (jn_store j) @ rs)
    \<and> (\<forall>i r. attempt_row_of j i = Some r \<and> settled (at_state r) \<longrightarrow> attempt_row_of j' i = Some r)
    \<and> (\<forall>oid t. transfer_row_of j oid = Some t \<and> tf_status t = TransferCompleted \<longrightarrow> transfer_row_of j' oid = Some t)"
  using assms
proof (induction rule: rtranclp_induct)
  case (step y z)
  obtain rs rs' where "db_receipts (jn_store y) = db_receipts (jn_store j) @ rs" "db_receipts (jn_store z) = db_receipts (jn_store y) @ rs'"
    using step.IH step_receipts [OF step.hyps(2)] by blast
  then have "\<exists>rs. db_receipts (jn_store z) = db_receipts (jn_store j) @ rs" by simp
  then show ?case using step.IH journal_ok_step [OF step.hyps(2)] settled_kept [OF step.hyps(2)] completed_kept [OF step.hyps(2)] by blast
qed simp

section \<open>Done once\<close>

lemma commit_board_fresh_row:
  assumes "commit_board request_digest operation fp db = Inr (receipt, db')" "\<not> rc_idempotent_replay receipt"
  obtains row where "receipt_row_of db' (OperationIdentity (op_id operation)) = Some row" "kw_request row = BoardText operation"
    "kw_session_id row = op_session_id operation" "replayed_receipt row = Inr (receipt\<lparr>rc_idempotent_replay := True\<rparr>)"
    "rc_sequence receipt = op_sequence operation"
  using assms(1)
proof (cases rule: commit_boardE)
  case replay
  then have "rc_idempotent_replay receipt" by (auto simp: existing_receipt_Some_iff replayed_receipt_def)
  then show ?thesis using assms(2) by simp
next
  case (fresh u b v b' row cursor d1)
  from fresh(10) show ?thesis
  proof (rule finish_board_commitE)
    fix e1 e2 e3
    let ?row = "\<lparr>kw_session_id = op_session_id operation, kw_sequence = uint (op_sequence operation),
       kw_identity = OperationIdentity (op_id operation), kw_request = BoardText operation, kw_fingerprint = fp,
       kw_created_at = op_created_at operation\<rparr>"
    assume 3: "insert_receipt ?row e2 = Inr e3"
      and 4: "receipt = \<lparr>rc_session_id = op_session_id operation, rc_sequence = op_sequence operation,
       rc_identity = OperationIdentity (op_id operation), rc_idempotent_replay = False\<rparr>"
      and 5: "db' = update_session_row (op_session_id operation) (\<lambda>r. r\<lparr>sr_cursor := int (cursor + 1),
       sr_session := (sr_session r)\<lparr>last_durable_sequence := op_sequence operation,
         last_active_at := max (last_active_at (sr_session r)) (op_created_at operation)\<rparr>\<rparr>) e3"
    have "receipt_row_of e2 (kw_identity ?row) = None" "db_receipts db' = db_receipts e2 @ [?row]"
      using 3 5 by (auto simp: insert_receipt_Inr receipt_row_of_def)
    then have "receipt_row_of db' (kw_identity ?row) = Some ?row" by (rule receipt_row_of_added)
    then show ?thesis by (intro that [of ?row]) (simp_all add: 4 replayed_receipt_row)
  qed
qed

lemma operation_request_replay: "operation_request db oid = Inr (Some (StoredBoard operation fp receipt)) \<Longrightarrow> rc_idempotent_replay receipt"
proof (cases "receipt_row_of db (OperationIdentity oid)")
  case (Some r)
  then show "operation_request db oid = Inr (Some (StoredBoard operation fp receipt)) \<Longrightarrow> ?thesis"
    by (cases "kw_request r") (auto simp: operation_request_def replayed_receipt_def split: if_split_asm)
qed (auto simp: operation_request_def split: if_split_asm)

lemma removal_replays:
  assumes first: "finish_with_removal request_digest i outcome removal j = Inr (receipt, j1)" "\<not> rc_idempotent_replay receipt"
    and valid: "operation_validate_annotations removal = Inr ()" and ok: "journal_ok j"
    and later: "(journal_step request_digest)\<^sup>*\<^sup>* j1 j2"
  shows "finish_with_removal request_digest i outcome removal j2 = Inr (receipt\<lparr>rc_idempotent_replay := True\<rparr>, j2)"
  using first(1)
proof (cases rule: finish_with_removal_cases)
  case replay
  then have "rc_idempotent_replay receipt" using operation_request_replay by blast
  then show ?thesis using first(2) by simp
next
  case (fresh k db)
  have c: "su_state outcome = AttemptAccepted" "su_deletion outcome = Some (op_id removal)"
    using first(1) by (auto simp: finish_with_removal_def split: if_split_asm)
  from fresh(1) have f: "length (filter (\<lambda>r. at_id r = i \<and> at_state r = AttemptSending) (jn_attempts j)) = 1"
    "jn_attempts k = map (\<lambda>r. if at_id r = i \<and> at_state r = AttemptSending then outcome_row outcome r else r) (jn_attempts j)"
    by (simp_all add: finish_attempt_Inr)
  then have "filter (\<lambda>r. at_id r = i \<and> at_state r = AttemptSending) (jn_attempts j) \<noteq> []" by auto
  then obtain a where a: "a \<in> set (jn_attempts j)" "at_id a = i" "at_state a = AttemptSending" by (auto simp: filter_empty_conv)
  have "attempt_row_of j i = Some a"
    using find_unique [of at_id "jn_attempts j" a] a ok by (simp add: journal_ok_def attempts_ok_def attempt_row_of_def)
  then have "attempt_row_of j1 i = Some (outcome_row outcome a)"
    using a f(2) by (simp add: fresh(3) attempt_row_of_def find_map_keep outcome_row_def)
  moreover have "settled (at_state (outcome_row outcome a))" using c by (simp add: outcome_row_def settled_def)
  ultimately have row2: "attempt_row_of j2 i = Some (outcome_row outcome a)" using steps_keep [OF later] by blast
  have ok2: "journal_ok j2" using ok journal_ok_step [OF journal_step.removal [OF first(1)]] steps_keep [OF later] by blast
  have "filter (\<lambda>r. at_id r = i \<and> at_state r = AttemptSending) (jn_attempts j2) = []"
  proof -
    have only: "b = outcome_row outcome a" if "b \<in> set (jn_attempts j2)" "at_id b = i" for b
      using row2 ok2 that by (auto simp: journal_ok_def attempts_ok_def attempt_row_of_def find_Some_iff distinct_map inj_on_def)
    have "at_state b \<noteq> AttemptSending" if "b \<in> set (jn_attempts j2)" "at_id b = i" for b
      using only [OF that] c by (simp add: outcome_row_def)
    then show ?thesis by (auto simp: filter_empty_conv)
  qed
  then have conflict: "finish_attempt i outcome j2 = Inl StoreConflict"
    using c by (simp add: finish_attempt_def require_one_def changed_attempts_def)
  have matches: "outcome_matches j2 i outcome" using row2 by (simp add: outcome_matches_def outcome_row_def)
  obtain row where row: "receipt_row_of db (OperationIdentity (op_id removal)) = Some row" "kw_request row = BoardText removal"
      "kw_session_id row = op_session_id removal" "replayed_receipt row = Inr (receipt\<lparr>rc_idempotent_replay := True\<rparr>)"
      "rc_sequence receipt = op_sequence removal"
    using commit_board_fresh_row [OF fresh(2) first(2)] by blast
  have "jn_store j1 = db" by (simp add: fresh(3))
  then obtain rs where "db_receipts (jn_store j2) = db_receipts db @ rs" using steps_keep [OF later] by blast
  then have "receipt_row_of (jn_store j2) (OperationIdentity (op_id removal)) = Some row" by (rule receipt_row_of_kept [OF row(1)])
  then have "operation_request (jn_store j2) (op_id removal)
      = Inr (Some (StoredBoard removal (kw_fingerprint row) (receipt\<lparr>rc_idempotent_replay := True\<rparr>)))"
    using row valid by (simp add: operation_request_def validate_board_record_def)
  then show ?thesis using c conflict matches by (simp add: finish_with_removal_def)
qed

lemma existing_receipt_kept:
  "existing_receipt request_digest db identity request fp = Inr (Some receipt) \<Longrightarrow> db_receipts db' = db_receipts db @ rs
    \<Longrightarrow> existing_receipt request_digest db' identity request fp = Inr (Some receipt)"
  unfolding existing_receipt_Some_iff using receipt_row_of_kept by blast

lemma completed_receipt_kept:
  "completed_transfer_receipt request_digest db request removal reason = Inr answer \<Longrightarrow> db_receipts db' = db_receipts db @ rs
    \<Longrightarrow> completed_transfer_receipt request_digest db' request removal reason = Inr answer"
proof (cases "(reason, removal)" rule: prod.exhaust)
  case (Pair a b)
  then show "completed_transfer_receipt request_digest db request removal reason = Inr answer \<Longrightarrow> db_receipts db' = db_receipts db @ rs
      \<Longrightarrow> ?thesis"
    using existing_receipt_kept [of request_digest db _ _ None _ db' rs]
    by (cases reason; cases removal) (auto simp: completed_transfer_receipt_def split: if_split_asm)
qed

lemma completed_answer:
  "completed_transfer_receipt request_digest db request removal reason = Inr answer
    \<Longrightarrow> map_option (\<lambda>r. r\<lparr>rc_idempotent_replay := True\<rparr>) answer = answer"
  by (cases reason; cases removal)
    (auto simp: completed_transfer_receipt_def existing_receipt_Some_iff replayed_receipt_replay split: if_split_asm)

lemma transfer_replays:
  assumes first: "finish_transfer request_digest request removal reason j = Inr (answer, j1)"
    and later: "(journal_step request_digest)\<^sup>*\<^sup>* j1 j2"
  shows "finish_transfer request_digest request removal reason j2 = Inr (map_option (\<lambda>r. r\<lparr>rc_idempotent_replay := True\<rparr>) answer, j2)"
proof -
  let ?answer = "map_option (\<lambda>r. r\<lparr>rc_idempotent_replay := True\<rparr>) answer"
  have m: "completion_mode (st_remove_source request) (removal \<noteq> None) reason"
    using first by (auto simp: finish_transfer_def split: if_split_asm)
  obtain rs where rs: "db_receipts (jn_store j2) = db_receipts (jn_store j1) @ rs" using steps_keep [OF later] by blast
  have "\<exists>r. transfer_row_of j1 (st_operation_id request) = Some r \<and> tf_request r = request \<and> tf_status r = TransferCompleted
      \<and> completed_transfer_receipt request_digest (jn_store j1) request removal (tf_reason r) = Inr ?answer"
    using first
  proof (cases rule: finish_transfer_cases)
    case (replay r)
    then show ?thesis using completed_answer [OF replay(5)] by simp
  next
    case (fresh r db)
    have id: "tf_operation_id r = st_operation_id request" using fresh(1) by (auto simp: transfer_row_of_def find_Some_iff)
    have row: "transfer_row_of j1 (st_operation_id request) = Some (r\<lparr>tf_status := TransferCompleted, tf_reason := Some reason\<rparr>)"
      using fresh(1) id by (simp add: fresh(6) transfer_row_of_def find_map_keep)
    have "completed_transfer_receipt request_digest db request removal (Some reason) = Inr ?answer"
    proof (cases removal)
      case None
      then show ?thesis using fresh(4,5) by (auto simp: completed_transfer_receipt_def completion_mode_def)
    next
      case (Some operation)
      then obtain receipt where c: "answer = Some receipt" "commit_board request_digest operation None (jn_store j) = Inr (receipt, db)"
        "validate_removal request operation = Inr ()" using fresh(5) by auto
      have "\<exists>r. receipt_row_of db (kw_identity r) = Some r \<and> answers request_digest (BatchBoard operation None) (receipt\<lparr>rc_idempotent_replay := True\<rparr>) r"
        using commit_board_answered [OF c(2)] by (auto simp: answered_by_def)
      then have "existing_receipt request_digest db (OperationIdentity (op_id operation)) (BoardText operation) None
          = Inr (Some (receipt\<lparr>rc_idempotent_replay := True\<rparr>))"
        by (auto simp: existing_receipt_Some_iff)
      then show ?thesis using c fresh(4) Some by (auto simp: completed_transfer_receipt_def completion_mode_def)
    qed
    then show ?thesis using row fresh(2) by (simp add: fresh(6))
  qed
  then obtain r where r: "transfer_row_of j1 (st_operation_id request) = Some r" "tf_request r = request" "tf_status r = TransferCompleted"
      "completed_transfer_receipt request_digest (jn_store j1) request removal (tf_reason r) = Inr ?answer" by blast
  have "transfer_row_of j2 (st_operation_id request) = Some r" using r(1,3) steps_keep [OF later] by blast
  then show ?thesis using m r(2,3) completed_receipt_kept [OF r(4) rs] by (simp add: finish_transfer_def)
qed

section \<open>The properties\<close>

definition fresh_journal :: "database \<Rightarrow> journal" where
  "fresh_journal db = \<lparr>jn_store = db, jn_attempts = [], jn_items = [], jn_transfers = [], jn_claims = []\<rparr>"

lemma fresh_journal_ok: "journal_ok (fresh_journal db)"
  by (simp add: journal_ok_def fresh_journal_def attempts_ok_def active_distinct_def transfers_ok_def)

lemma reached_journal_ok: "(journal_step request_digest)\<^sup>*\<^sup>* (fresh_journal db) j \<Longrightarrow> journal_ok j"
  using steps_keep fresh_journal_ok by blast

text \<open>C32: In every state the submissions, transfers and commits of a store can reach, a thought is active in at most one
  submission, an item is active exactly while its submission is prepared or sending, the claimed thoughts are those of
  the unfinished transfers, each claimed once, and a transfer completed as removed has left the receipt of the removal.\<close>

theorem deliveries_exclusive:
  assumes "(journal_step request_digest)\<^sup>*\<^sup>* (fresh_journal db) j"
  shows "distinct (map im_thought (filter im_active (jn_items j)))
    \<and> (\<forall>r \<in> set (jn_items j). \<exists>a \<in> set (jn_attempts j). at_id a = im_submission r
         \<and> (im_active r \<longleftrightarrow> at_state a \<in> {AttemptPrepared, AttemptSending}))
    \<and> distinct (map fst (jn_claims j)) \<and> set (jn_claims j) = (\<Union>r \<in> set (jn_transfers j). claims_of r)
    \<and> (\<forall>r \<in> set (jn_transfers j). tf_reason r = Some (lit ''removed'') \<longrightarrow>
         (\<exists>row. receipt_row_of (jn_store j) (OperationIdentity (tf_removal r)) = Some row))"
  using reached_journal_ok [OF assms]
  unfolding journal_ok_def attempts_ok_def transfers_ok_def active_distinct_def removal_done_def settled_def by blast

text \<open>C33: A submission that was accepted and removed its source is done once: when the last step is repeated, after any
  further operations, it returns the same receipt, marked as a replay, and changes nothing.\<close>

theorem retried_removal_replays:
  assumes "finish_with_removal request_digest i outcome removal j = Inr (receipt, j1)" "\<not> rc_idempotent_replay receipt"
    and "operation_validate_annotations removal = Inr ()" and "(journal_step request_digest)\<^sup>*\<^sup>* (fresh_journal db) j"
    and "(journal_step request_digest)\<^sup>*\<^sup>* j1 j2"
  shows "finish_with_removal request_digest i outcome removal j2 = Inr (receipt\<lparr>rc_idempotent_replay := True\<rparr>, j2)"
  using removal_replays [OF assms(1,2,3) reached_journal_ok [OF assms(4)] assms(5)] .

text \<open>C34: A transfer that was completed stays completed: when its last step is repeated, after any further operations,
  it returns the same answer, marked as a replay, and changes nothing.\<close>

theorem retried_transfer_replays:
  assumes "finish_transfer request_digest request removal reason j = Inr (answer, j1)"
    and "(journal_step request_digest)\<^sup>*\<^sup>* j1 j2"
  shows "finish_transfer request_digest request removal reason j2 = Inr (map_option (\<lambda>r. r\<lparr>rc_idempotent_replay := True\<rparr>) answer, j2)"
  using assms by (rule transfer_replays)

section \<open>A run\<close>

definition sample_removal :: "u8 \<Rightarrow> u64 \<Rightarrow> board_operation_kind \<Rightarrow> board_operation" where
  "sample_removal n q kind = \<lparr>op_id = OperationId [n], op_session_id = SessionId [1], op_sequence = q, op_kind = kind,
     op_forward = SetDeletion (ThoughtId [7]) (Some 6) 0, op_inverse = SetDeletion (ThoughtId [7]) None 0, op_created_at = 6\<rparr>"

definition sample_attempt :: submission_attempt where
  "sample_attempt = \<lparr>sa_id = SubmissionId [2], sa_session_id = SessionId [1],
     sa_sources = [\<lparr>so_thought_id = ThoughtId [7], so_digest = []\<rparr>], sa_payload_digest = [], sa_source_sequence = 1,
     sa_disposition = RemoveAfterSuccess, sa_route = herdr_agent_route, sa_provider = [], sa_protocol = 1,
     sa_target_fingerprint = [], sa_pre_state = AgentIdle, sa_prepared_at = 5\<rparr>"

definition sample_outcome :: submission_outcome where
  "sample_outcome = \<lparr>su_state = AttemptAccepted, su_post_state = None, su_error_code = None,
     su_deletion = Some (OperationId [9]), su_at = 6\<rparr>"

definition sample_transfer :: session_transfer where
  "sample_transfer = \<lparr>st_source_session_id = SessionId [1], st_destination_session_id = SessionId [3],
     st_operation_id = OperationId [4], st_removal_operation_id = OperationId [9],
     st_items = [\<lparr>source_thought_id = ThoughtId [7], destination_thought_id = ThoughtId [8], ti_content = [97],
       ti_annotations = [], ti_name = None\<rparr>], st_remove_source = True\<rparr>"

definition sample_receipt :: commit_receipt where
  "sample_receipt = \<lparr>rc_session_id = SessionId [3], rc_sequence = 1, rc_identity = OperationIdentity (OperationId [4]),
     rc_idempotent_replay = False\<rparr>"

text \<open>The steps of a submission and of a transfer up to the last one, on a store with one thought.\<close>

definition submission_run :: "store_error + journal" where
  "submission_run =
     try_bind (commit_board (\<lambda>_. []) (sample_operation 7 1) None sample_store) (\<lambda>(_, db).
     try_bind (prepare_attempt sample_attempt (fresh_journal db)) (\<lambda>j. mark_sending (SubmissionId [2]) 6 j))"

definition transfer_run :: "store_error + journal" where
  "transfer_run =
     try_bind (commit_board (\<lambda>_. []) (sample_operation 7 1) None sample_store) (\<lambda>(_, db).
     try_bind (prepare_transfer sample_transfer 5 (fresh_journal db)) (\<lambda>(_, j).
     try_bind (mark_transfer_sending (OperationId [4]) j) (\<lambda>j. accept_transfer sample_transfer sample_receipt j)))"

definition answer_fresh :: "store_error + commit_receipt \<times> journal \<Rightarrow> bool" where
  "answer_fresh result = (case result of Inr (receipt, _) \<Rightarrow> \<not> rc_idempotent_replay receipt | _ \<Rightarrow> False)"

lemma runs_ok:
  "answer_fresh (try_bind submission_run (finish_with_removal (\<lambda>_. []) (SubmissionId [2]) sample_outcome (sample_removal 9 2 SubmitAndRemove)))"
  "\<not> isl (try_bind transfer_run (finish_transfer (\<lambda>_. []) sample_transfer (Some (sample_removal 9 2 TransferAndRemove)) (lit ''removed'')))"
  "operation_validate_annotations (sample_removal 9 2 SubmitAndRemove) = Inr ()"
  by code_simp+

lemma submission_run_active: "case submission_run of Inr j \<Rightarrow> list_ex im_active (jn_items j) | Inl e \<Rightarrow> False"
  by code_simp

lemma submission_run_steps:
  assumes "submission_run = Inr j"
  obtains db where "(journal_step (\<lambda>_. []))\<^sup>*\<^sup>* (fresh_journal db) j"
proof -
  from assms obtain db j0 where run: "prepare_attempt sample_attempt (fresh_journal db) = Inr j0" "mark_sending (SubmissionId [2]) 6 j0 = Inr j"
    by (auto simp: submission_run_def)
  then show ?thesis using that journal_step.prepare journal_step.sending by (meson r_into_rtranclp rtranclp.rtrancl_into_rtrancl)
qed

theorem deliveries_exclusive_witness:
  "\<exists>j :: journal. list_ex im_active (jn_items j) \<and> distinct (map im_thought (filter im_active (jn_items j)))"
proof -
  obtain j where j: "submission_run = Inr j" "list_ex im_active (jn_items j)" using submission_run_active by (auto split: sum.splits)
  obtain db where "(journal_step (\<lambda>_. []))\<^sup>*\<^sup>* (fresh_journal db) j" using j(1) by (rule submission_run_steps)
  have "distinct (map im_thought (filter im_active (jn_items j)))"
    by (rule deliveries_exclusive [OF \<open>(journal_step (\<lambda>_. []))\<^sup>*\<^sup>* (fresh_journal db) j\<close>, THEN conjunct1])
  then show ?thesis using j(2) by blast
qed

theorem retried_removal_replays_witness:
  "\<exists>j receipt. rc_idempotent_replay receipt
    \<and> finish_with_removal (\<lambda>_. []) (SubmissionId [2]) sample_outcome (sample_removal 9 2 SubmitAndRemove) j = Inr (receipt, j)"
proof -
  let ?finish = "finish_with_removal (\<lambda>_. []) (SubmissionId [2]) sample_outcome (sample_removal 9 2 SubmitAndRemove)"
  obtain receipt j1 where "try_bind submission_run ?finish = Inr (receipt, j1)" and fresh: "\<not> rc_idempotent_replay receipt"
    using runs_ok(1) by (auto simp: answer_fresh_def split: sum.splits)
  then obtain j where j: "submission_run = Inr j" and fin: "?finish j = Inr (receipt, j1)" unfolding try_bind_Inr_iff by blast
  obtain db where "(journal_step (\<lambda>_. []))\<^sup>*\<^sup>* (fresh_journal db) j" using j by (rule submission_run_steps)
  from retried_removal_replays [OF fin fresh runs_ok(3) this rtranclp.rtrancl_refl] show ?thesis
    by (intro exI [of _ j1] exI [of _ "receipt\<lparr>rc_idempotent_replay := True\<rparr>"]) simp
qed

theorem retried_transfer_replays_witness:
  "\<exists>j answer. finish_transfer (\<lambda>_. []) sample_transfer (Some (sample_removal 9 2 TransferAndRemove)) (lit ''removed'') j = Inr (answer, j)"
proof -
  let ?finish = "finish_transfer (\<lambda>_. []) sample_transfer (Some (sample_removal 9 2 TransferAndRemove)) (lit ''removed'')"
  obtain x where "try_bind transfer_run ?finish = Inr x" using runs_ok(2) by (metis sum.collapse(2))
  moreover obtain answer j1 where "x = (answer, j1)" by force
  ultimately obtain j where "?finish j = Inr (answer, j1)" unfolding try_bind_Inr_iff by blast
  from retried_transfer_replays [OF this rtranclp.rtrancl_refl] show ?thesis by blast
qed

end
