(* ===== verification/Structured_Text.thy ===== *)
theory Structured_Text
  imports Rust_Text
begin

text \<open>
  Recognition of Markdown structure (\<open>src/src/ports/structured_text.rs\<close>) and of logical lines
  (\<open>logical_lines\<close>, \<open>grapheme_cell_width\<close> in \<open>src/src/ports/text_layout.rs\<close>). What the program takes from
  the crates \<open>unicode-width\<close> and \<open>unicode-segmentation\<close> and from the Unicode tables of the standard
  library is one argument \<open>u\<close> of the definitions that use it.
\<close>

record unicode =
  str_width :: "rstr \<Rightarrow> nat"
  graphemes_of :: "rstr \<Rightarrow> rstr list"
  alphanumeric :: "nat \<Rightarrow> bool"

text \<open>An ASCII instance of it.\<close>

definition ascii :: unicode where
  "ascii = \<lparr>str_width = length, graphemes_of = map (\<lambda>c. [c]),
     alphanumeric = (\<lambda>c. 48 \<le> c \<and> c \<le> 57 \<or> 65 \<le> c \<and> c \<le> 90 \<or> 97 \<le> c \<and> c \<le> 122)\<rparr>"

section \<open>Slices\<close>

text \<open>The slices \<open>&s[a..b]\<close>, \<open>&s[..i]\<close>, \<open>&s[i..]\<close>; the program takes them on character boundaries only.\<close>

definition slice :: "rstr \<Rightarrow> nat \<Rightarrow> nat \<Rightarrow> rstr" where
  "slice s a b = (case str_get s a b of Some t \<Rightarrow> t | None \<Rightarrow> [])"

definition slice_to :: "rstr \<Rightarrow> nat \<Rightarrow> rstr" where
  "slice_to s i = (case get_to s i of Some t \<Rightarrow> t | None \<Rightarrow> [])"

definition slice_from :: "rstr \<Rightarrow> nat \<Rightarrow> rstr" where
  "slice_from s i = (case get_from s i of Some t \<Rightarrow> t | None \<Rightarrow> [])"

definition is_blank :: "nat \<Rightarrow> bool" where
  "is_blank c \<longleftrightarrow> c = 32 \<or> c = 9"

definition trim_blanks :: "rstr \<Rightarrow> rstr" where
  "trim_blanks s = rev (dropWhile is_blank (rev (dropWhile is_blank s)))"

section \<open>Columns\<close>

definition TAB_WIDTH :: nat where
  "TAB_WIDTH = 4"

definition grapheme_cell_width :: "unicode \<Rightarrow> rstr \<Rightarrow> nat \<Rightarrow> nat" where
  "grapheme_cell_width u g column =
     (if g = [9] then TAB_WIDTH - column mod TAB_WIDTH
      else if list_ex is_control g then 1 else str_width u g)"

definition whitespace_prefix :: "rstr \<Rightarrow> nat" where
  "whitespace_prefix s = str_len (takeWhile is_blank s)"

definition indentation_columns :: "unicode \<Rightarrow> rstr \<Rightarrow> nat" where
  "indentation_columns u s = fold (\<lambda>c column. column + grapheme_cell_width u [c] column) s 0"

section \<open>List markers\<close>

datatype marker = Bullet nat | Ordered rstr nat

record list_marker =
  lm_indentation :: rstr
  lm_marker :: marker
  lm_spacing :: rstr
  lm_task_spacing :: "rstr option"
  lm_content :: rstr

fun marker_text :: "marker \<Rightarrow> rstr" where
  "marker_text (Bullet c) = [c]"
| "marker_text (Ordered number delimiter) = number @ [delimiter]"

definition prefix_len :: "list_marker \<Rightarrow> nat" where
  "prefix_len m = str_len (lm_indentation m)
     + (case lm_marker m of Bullet c \<Rightarrow> utf8_len c | Ordered number delimiter \<Rightarrow> str_len number + utf8_len delimiter)
     + str_len (lm_spacing m) + (case lm_task_spacing m of None \<Rightarrow> 0 | Some spacing \<Rightarrow> 3 + str_len spacing)"

definition indentation_and_prefix :: "list_marker \<Rightarrow> rstr" where
  "indentation_and_prefix m = lm_indentation m @ marker_text (lm_marker m) @ lm_spacing m
     @ (case lm_task_spacing m of None \<Rightarrow> [] | Some spacing \<Rightarrow> lit ''[ ]'' @ spacing)"

definition content_column :: "unicode \<Rightarrow> list_marker \<Rightarrow> nat" where
  "content_column u m = indentation_columns u (indentation_and_prefix m)"

definition marker_indentation_columns :: "unicode \<Rightarrow> list_marker \<Rightarrow> nat" where
  "marker_indentation_columns u m = indentation_columns u (lm_indentation m)"

definition is_digit :: "nat \<Rightarrow> bool" where
  "is_digit c \<longleftrightarrow> 48 \<le> c \<and> c \<le> 57"

text \<open>The number a run of digits denotes, and the digits of a number. A marker has at most nine digits, so
  \<open>parse::<u64>\<close> accepts it.\<close>

definition digits_value :: "rstr \<Rightarrow> nat" where
  "digits_value s = fold (\<lambda>c n. 10 * n + (c - 48)) s 0"

fun digits_of :: "nat \<Rightarrow> rstr" where
  "digits_of n = (if n < 10 then [48 + n] else digits_of (n div 10) @ [48 + n mod 10])"

declare digits_of.simps [simp del]

definition continuation :: "list_marker \<Rightarrow> rstr" where
  "continuation m = lm_indentation m
     @ (case lm_marker m of Bullet c \<Rightarrow> [c] | Ordered number delimiter \<Rightarrow> digits_of (digits_value number + 1) @ [delimiter])
     @ lm_spacing m @ (case lm_task_spacing m of None \<Rightarrow> [] | Some spacing \<Rightarrow> lit ''[ ]'' @ spacing)"

definition parse_base_marker :: "rstr \<Rightarrow> (marker \<times> nat) option" where
  "parse_base_marker rest =
     (case rest of
        [] \<Rightarrow> None
      | first # _ \<Rightarrow>
          if first = 45 \<or> first = 42 \<or> first = 43 then Some (Bullet first, utf8_len first)
          else (let digit_end = length (takeWhile is_digit (take 9 rest)) in
            if digit_end = 0 \<or> (digit_end < length rest \<and> is_digit (rest ! digit_end)) then None
            else (case slice_from rest digit_end of
                [] \<Rightarrow> None
              | delimiter # _ \<Rightarrow>
                  if delimiter = 46 \<or> delimiter = 41
                  then Some (Ordered (slice_to rest digit_end) delimiter, digit_end + utf8_len delimiter) else None)))"

definition parse_task :: "rstr \<Rightarrow> (rstr \<times> rstr) option" where
  "parse_task after_marker =
     Option.bind (str_get after_marker 0 3) (\<lambda>task.
       if task \<notin> {lit ''[ ]'', lit ''[x]'', lit ''[X]''} then None
       else (let spacing_end = 3 + whitespace_prefix (slice_from after_marker 3) in
         if spacing_end > 3 then Some (slice after_marker 3 spacing_end, slice_from after_marker spacing_end) else None))"

definition parse_list_marker :: "rstr \<Rightarrow> list_marker option" where
  "parse_list_marker line =
     (let indentation_end = whitespace_prefix line;
          indentation = slice_to line indentation_end;
          rest = slice_from line indentation_end in
      Option.bind (parse_base_marker rest) (\<lambda>(marker, marker_end).
        (let spacing_end = marker_end + whitespace_prefix (slice_from rest marker_end) in
         if spacing_end = marker_end then None
         else (let spacing = slice rest marker_end spacing_end;
                   after_marker = slice_from rest spacing_end;
                   (task_spacing, content) = (case parse_task after_marker of
                      None \<Rightarrow> (None, after_marker) | Some (spacing, content) \<Rightarrow> (Some spacing, content)) in
               Some \<lparr>lm_indentation = indentation, lm_marker = marker, lm_spacing = spacing,
                      lm_task_spacing = task_spacing, lm_content = content\<rparr>))))"

section \<open>Thematic breaks and fences\<close>

definition is_thematic_break :: "rstr \<Rightarrow> bool" where
  "is_thematic_break line =
     (let compact = filter (\<lambda>c. \<not> is_blank c) (trim_blanks line) in
      str_len compact \<ge> 3
      \<and> (case compact of [] \<Rightarrow> False
         | m # _ \<Rightarrow> (m = 45 \<or> m = 42 \<or> m = 95) \<and> list_all (\<lambda>c. c = m) compact))"

type_synonym fence_state = "(nat \<times> nat) option"

definition fence :: "unicode \<Rightarrow> rstr \<Rightarrow> (nat \<times> nat \<times> rstr) option" where
  "fence u line =
     (let indentation = whitespace_prefix line in
      if indentation_columns u (slice_to line indentation) > 3 then None
      else (let rest = slice_from line indentation in
        case rest of
          [] \<Rightarrow> None
        | m # _ \<Rightarrow>
            if m \<noteq> 96 \<and> m \<noteq> 126 then None
            else (let run = length (takeWhile (\<lambda>c. c = m) rest) in
              if run \<ge> 3 then Some (m, run, slice_from rest run) else None)))"

definition update_fence :: "unicode \<Rightarrow> rstr \<Rightarrow> fence_state \<Rightarrow> bool \<times> fence_state" where
  "update_fence u text state =
     (case fence u text of
        None \<Rightarrow> (False, state)
      | Some (m, run, trailing) \<Rightarrow>
          (True, case state of
             None \<Rightarrow> Some (m, run)
           | Some (open_marker, minimum) \<Rightarrow>
               if m = open_marker \<and> run \<ge> minimum \<and> trim_blanks trailing = [] then None else state))"

section \<open>Logical lines\<close>

record logical_line =
  line_start :: nat
  content_end :: nat
  line_end :: nat

definition is_separator_char :: "nat \<Rightarrow> bool" where
  "is_separator_char c \<longleftrightarrow> c = 10 \<or> c = 0x2028 \<or> c = 0x2029"

text \<open>The loop over the characters: the byte position, the start of the line and the character before.\<close>

fun lines_from :: "nat \<Rightarrow> nat \<Rightarrow> nat option \<Rightarrow> rstr \<Rightarrow> logical_line list" where
  "lines_from pos start previous [] = [\<lparr>line_start = start, content_end = pos, line_end = pos\<rparr>]"
| "lines_from pos start previous (c # s) =
     (if is_separator_char c
      then \<lparr>line_start = start, content_end = (if c = 10 \<and> pos > start \<and> previous = Some 13 then pos - 1 else pos),
             line_end = pos + utf8_len c\<rparr> # lines_from (pos + utf8_len c) (pos + utf8_len c) (Some c) s
      else lines_from (pos + utf8_len c) start (Some c) s)"

definition logical_lines :: "rstr \<Rightarrow> logical_line list" where
  "logical_lines content = lines_from 0 0 None content"

end
