(* ===== verification/Text_Changes.thy ===== *)
theory Text_Changes
  imports Rust_Text
begin

text \<open>
  Explicit text transactions (\<open>src/src/ports/editor/change.rs\<close>): a change pairs a byte range of the
  document before the transaction with one of the document after it, a change set is a validated
  sequence of them, and offsets of the old document are mapped into the new one. The theorems: a
  validated set describes the edit completely, its inverse is the validated set of the reverse edit,
  and mapping offsets is monotone and stays within the new document, on character boundaries.
\<close>

section \<open>Changes and their errors\<close>

datatype text_coordinate_space = SpaceBefore | SpaceAfter

datatype offset_affinity = AffinityBefore | AffinityAfter

datatype text_change_error =
    ChangeInvalidRange text_coordinate_space nat nat nat
  | InvalidUtf8Boundary text_coordinate_space nat
  | UnorderedOrOverlapping nat
  | InconsistentCoordinates nat
  | UnchangedEntry nat
  | UnrepresentedContent
  | InvalidOffset nat nat
  | MappingDocumentLength nat nat

type_synonym range = "nat \<times> nat"

record text_change =
  old_range :: range
  new_range :: range

definition is_insertion :: "text_change \<Rightarrow> bool" where
  "is_insertion c \<longleftrightarrow> fst (old_range c) \<ge> snd (old_range c)"

definition validate_text_range :: "rstr \<Rightarrow> range \<Rightarrow> text_coordinate_space \<Rightarrow> text_change_error + unit" where
  "validate_text_range document r space =
     (if fst r > snd r \<or> snd r > str_len document
      then Inl (ChangeInvalidRange space (fst r) (snd r) (str_len document))
      else try_fold (\<lambda>_ offset. if is_char_boundary document offset then Inr () else Inl (InvalidUtf8Boundary space offset))
        () [fst r, snd r])"

definition new_text_change :: "rstr \<Rightarrow> rstr \<Rightarrow> range \<Rightarrow> range \<Rightarrow> text_change_error + text_change" where
  "new_text_change before after old new =
     try_bind (validate_text_range before old SpaceBefore) (\<lambda>_.
     try_bind (validate_text_range after new SpaceAfter) (\<lambda>_.
       Inr \<lparr>old_range = old, new_range = new\<rparr>))"

section \<open>Change sets\<close>

record text_change_set =
  set_changes :: "text_change list"
  before_len :: nat
  after_len :: nat

text \<open>The two loops of the validation. The first keeps the ends and the starts of the previous change.\<close>

fun check_order :: "rstr \<Rightarrow> rstr \<Rightarrow> nat \<Rightarrow> nat \<times> nat \<Rightarrow> (nat \<times> nat) option \<Rightarrow> text_change list \<Rightarrow> text_change_error + unit" where
  "check_order before after index ends starts [] = Inr ()"
| "check_order before after index ends starts (c # cs) =
     try_bind (validate_text_range before (old_range c) SpaceBefore) (\<lambda>_.
     try_bind (validate_text_range after (new_range c) SpaceAfter) (\<lambda>_.
     if fst (old_range c) < fst ends \<or> fst (new_range c) < snd ends
        \<or> (case starts of None \<Rightarrow> False | Some (os, ns) \<Rightarrow> fst (old_range c) \<le> os \<or> fst (new_range c) \<le> ns)
     then Inl (UnorderedOrOverlapping index)
     else check_order before after (index + 1) (snd (old_range c), snd (new_range c))
            (Some (fst (old_range c), fst (new_range c))) cs))"

fun check_gaps :: "rstr \<Rightarrow> rstr \<Rightarrow> nat \<Rightarrow> nat \<times> nat \<Rightarrow> text_change list \<Rightarrow> text_change_error + unit" where
  "check_gaps before after index (oc, nc) [] =
     (if get_from before oc \<noteq> get_from after nc then Inl (InconsistentCoordinates index) else Inr ())"
| "check_gaps before after index (oc, nc) (c # cs) =
     (if str_get before oc (fst (old_range c)) \<noteq> str_get after nc (fst (new_range c))
      then Inl (InconsistentCoordinates index)
      else if str_get before (fst (old_range c)) (snd (old_range c)) = str_get after (fst (new_range c)) (snd (new_range c))
      then Inl (UnchangedEntry index)
      else check_gaps before after (index + 1) (snd (old_range c), snd (new_range c)) cs)"

definition validate_text_changes :: "rstr \<Rightarrow> rstr \<Rightarrow> text_change list \<Rightarrow> text_change_error + unit" where
  "validate_text_changes before after cs =
     try_bind (check_order before after 0 (0, 0) None cs) (\<lambda>_. check_gaps before after 0 (0, 0) cs)"

definition unchanged_set :: "nat \<Rightarrow> text_change_set" where
  "unchanged_set n = \<lparr>set_changes = [], before_len = n, after_len = n\<rparr>"

definition new_change_set :: "rstr \<Rightarrow> rstr \<Rightarrow> text_change list \<Rightarrow> text_change_error + text_change_set" where
  "new_change_set before after cs =
     (if cs = []
      then (if before \<noteq> after then Inl UnrepresentedContent else Inr (unchanged_set (str_len before)))
      else try_bind (validate_text_changes before after cs) (\<lambda>_.
        Inr \<lparr>set_changes = cs, before_len = str_len before, after_len = str_len after\<rparr>))"

definition replace_all :: "rstr \<Rightarrow> rstr \<Rightarrow> text_change_set" where
  "replace_all before after =
     (if before = after then unchanged_set (str_len before)
      else \<lparr>set_changes = [\<lparr>old_range = (0, str_len before), new_range = (0, str_len after)\<rparr>],
             before_len = str_len before, after_len = str_len after\<rparr>)"

definition inverse_set :: "text_change_set \<Rightarrow> text_change_set" where
  "inverse_set s = \<lparr>set_changes = map (\<lambda>c. \<lparr>old_range = new_range c, new_range = old_range c\<rparr>) (set_changes s),
     before_len = after_len s, after_len = before_len s\<rparr>"

section \<open>Mapping offsets\<close>

definition edge :: "offset_affinity \<Rightarrow> text_change \<Rightarrow> nat" where
  "edge affinity c = (case affinity of AffinityBefore \<Rightarrow> fst (new_range c) | AffinityAfter \<Rightarrow> snd (new_range c))"

fun map_from :: "nat \<Rightarrow> offset_affinity \<Rightarrow> nat \<times> nat \<Rightarrow> text_change list \<Rightarrow> nat" where
  "map_from offset affinity (oc, nc) [] = nc + (offset - oc)"
| "map_from offset affinity (oc, nc) (c # cs) =
     (if offset < fst (old_range c) then nc + (offset - oc)
      else if is_insertion c \<and> offset = fst (old_range c) then edge affinity c
      else if offset < snd (old_range c) then edge affinity c
      else map_from offset affinity (snd (old_range c), snd (new_range c)) cs)"

definition map_valid_offset :: "text_change_set \<Rightarrow> nat \<Rightarrow> offset_affinity \<Rightarrow> nat" where
  "map_valid_offset s offset affinity = map_from offset affinity (0, 0) (set_changes s)"

definition map_old_offset :: "text_change_set \<Rightarrow> rstr \<Rightarrow> nat \<Rightarrow> offset_affinity \<Rightarrow> text_change_error + nat" where
  "map_old_offset s before offset affinity =
     (if str_len before \<noteq> before_len s then Inl (MappingDocumentLength (before_len s) (str_len before))
      else if offset > before_len s then Inl (InvalidOffset offset (before_len s))
      else if \<not> is_char_boundary before offset then Inl (InvalidUtf8Boundary SpaceBefore offset)
      else Inr (map_valid_offset s offset affinity))"

section \<open>Edit scripts\<close>

text \<open>An edit script is a list of pieces, each a stretch of kept text followed by a replaced and a new text, and a
  kept tail. It determines both documents and the ranges of the changes.\<close>

type_synonym piece = "rstr \<times> rstr \<times> rstr"

fun old_text :: "piece list \<Rightarrow> rstr \<Rightarrow> rstr" where
  "old_text [] tail = tail"
| "old_text ((gap, old, new) # ps) tail = gap @ old @ old_text ps tail"

fun new_text :: "piece list \<Rightarrow> rstr \<Rightarrow> rstr" where
  "new_text [] tail = tail"
| "new_text ((gap, old, new) # ps) tail = gap @ new @ new_text ps tail"

fun script_changes :: "piece list \<Rightarrow> nat \<Rightarrow> nat \<Rightarrow> text_change list" where
  "script_changes [] oc nc = []"
| "script_changes ((gap, old, new) # ps) oc nc =
     \<lparr>old_range = (oc + str_len gap, oc + str_len gap + str_len old),
       new_range = (nc + str_len gap, nc + str_len gap + str_len new)\<rparr>
     # script_changes ps (oc + str_len gap + str_len old) (nc + str_len gap + str_len new)"

text \<open>Every piece changes its text, and no two changes start at the same place of either document.\<close>

fun script_ok :: "(nat \<times> nat) option \<Rightarrow> nat \<Rightarrow> nat \<Rightarrow> piece list \<Rightarrow> bool" where
  "script_ok starts oc nc [] = True"
| "script_ok starts oc nc ((gap, old, new) # ps) \<longleftrightarrow> old \<noteq> new
     \<and> (case starts of None \<Rightarrow> True | Some (os, ns) \<Rightarrow> os < oc + str_len gap \<and> ns < nc + str_len gap)
     \<and> script_ok (Some (oc + str_len gap, nc + str_len gap)) (oc + str_len gap + str_len old) (nc + str_len gap + str_len new) ps"

lemma validate_text_range_iff:
  "validate_text_range d r space = Inr u \<longleftrightarrow> fst r \<le> snd r \<and> is_char_boundary d (fst r) \<and> is_char_boundary d (snd r)"
  by (auto simp: validate_text_range_def dest: is_char_boundary_le)

lemma cut_range:
  assumes "is_char_boundary (P @ d) s" "is_char_boundary (P @ d) e" "str_len P \<le> s" "s \<le> e"
  obtains g x d' where "d = g @ x @ d'" "s = str_len P + str_len g" "e = s + str_len x"
proof -
  from assms(1,3) have "is_char_boundary d (s - str_len P)" by (simp add: boundary_shift_right)
  then obtain g d1 where g: "d = g @ d1" "str_len g = s - str_len P" by (auto simp: is_char_boundary_iff)
  have "is_char_boundary ((P @ g) @ d1) e" using assms(2) g by simp
  moreover have "str_len (P @ g) = s" using g assms(3) by simp
  ultimately have "is_char_boundary d1 (e - s)" using assms(4) by (metis boundary_shift_right)
  then obtain x d' where "d1 = x @ d'" "str_len x = e - s" by (auto simp: is_char_boundary_iff)
  then show thesis using that [of g x d'] g assms by simp
qed

lemma str_get_mid: "str_get (P @ x @ d) (str_len P) (str_len P + str_len x) = Some x"
  by (auto simp: str_get_Some_iff)

lemma get_from_mid: "get_from (P @ d) (str_len P) = Some d"
  by (auto simp: get_from_Some_iff)

lemma checked_script:
  assumes "before = P @ b" "after = Q @ a"
  shows "check_order before after i (str_len P, str_len Q) starts cs = Inr () \<and> check_gaps before after j (str_len P, str_len Q) cs = Inr ()
    \<longleftrightarrow> (\<exists>ps tail. b = old_text ps tail \<and> a = new_text ps tail \<and> cs = script_changes ps (str_len P) (str_len Q)
        \<and> script_ok starts (str_len P) (str_len Q) ps)"
  using assms
proof (induction cs arbitrary: P Q b a starts i j)
  case Nil
  have "(\<exists>ps tail. b = old_text ps tail \<and> a = new_text ps tail \<and> [] = script_changes ps (str_len P) (str_len Q)
        \<and> script_ok starts (str_len P) (str_len Q) ps) \<longleftrightarrow> b = a"
  proof
    assume "\<exists>ps tail. b = old_text ps tail \<and> a = new_text ps tail \<and> [] = script_changes ps (str_len P) (str_len Q)
        \<and> script_ok starts (str_len P) (str_len Q) ps"
    then obtain ps tail where "b = old_text ps tail" "a = new_text ps tail" "[] = script_changes ps (str_len P) (str_len Q)" by blast
    then show "b = a" by (cases ps) auto
  next
    assume "b = a"
    then show "\<exists>ps tail. b = old_text ps tail \<and> a = new_text ps tail \<and> [] = script_changes ps (str_len P) (str_len Q)
        \<and> script_ok starts (str_len P) (str_len Q) ps" by (intro exI [of _ "[]"] exI [of _ b]) simp
  qed
  then show ?case using Nil by (simp add: get_from_mid)
next
  case (Cons c cs)
  obtain os oe ns ne where c: "c = \<lparr>old_range = (os, oe), new_range = (ns, ne)\<rparr>" by (cases c) force
  show ?case (is "?L \<longleftrightarrow> ?R")
  proof
    assume L: ?L
    then have v: "os \<le> oe" "is_char_boundary before os" "is_char_boundary before oe" "ns \<le> ne" "is_char_boundary after ns"
        "is_char_boundary after ne" "str_len P \<le> os" "str_len Q \<le> ns"
      and st: "case starts of None \<Rightarrow> True | Some (s, n) \<Rightarrow> s < os \<and> n < ns"
      and o: "check_order before after (i + 1) (oe, ne) (Some (os, ns)) cs = Inr ()"
      by (auto simp: c validate_text_range_iff split: if_splits option.splits)
    from L have g: "str_get before (str_len P) os = str_get after (str_len Q) ns" "str_get before os oe \<noteq> str_get after ns ne"
      and gs: "check_gaps before after (j + 1) (oe, ne) cs = Inr ()" by (auto simp: c split: if_splits)
    obtain g1 x b' where b: "b = g1 @ x @ b'" "os = str_len P + str_len g1" "oe = os + str_len x"
      using cut_range [of P b os oe] v Cons.prems(1) by metis
    obtain g2 y a' where a: "a = g2 @ y @ a'" "ns = str_len Q + str_len g2" "ne = ns + str_len y"
      using cut_range [of Q a ns ne] v Cons.prems(2) by metis
    have gg: "g2 = g1" using g(1) unfolding Cons.prems b(2) a(2) b(1) a(1) by (simp add: str_get_mid)
    have bx: "before = (P @ g1 @ x) @ b'" "after = (Q @ g1 @ y) @ a'" using Cons.prems b(1) a(1) gg by simp_all
    have "str_get before os oe = Some x" "str_get after ns ne = Some y"
      using str_get_mid [of "P @ g1" x b'] str_get_mid [of "Q @ g1" y a'] by (simp_all add: bx b(2,3) a(2,3) gg add.assoc)
    then have xy: "x \<noteq> y" using g(2) by auto
    have len: "str_len (P @ g1 @ x) = oe" "str_len (Q @ g1 @ y) = ne" using b a gg by simp_all
    from Cons.IH [OF bx, of "i + 1" "Some (os, ns)" "j + 1"] o gs obtain ps tail where
      ps: "b' = old_text ps tail" "a' = new_text ps tail" "cs = script_changes ps oe ne" "script_ok (Some (os, ns)) oe ne ps"
      unfolding len by blast
    show ?R
      by (rule exI [of _ "(g1, x, y) # ps"], rule exI [of _ tail])
        (use ps b a gg xy st in \<open>auto simp: c split: option.splits\<close>)
  next
    assume ?R
    then obtain p ps tail where R: "b = old_text (p # ps) tail" "a = new_text (p # ps) tail"
        "c # cs = script_changes (p # ps) (str_len P) (str_len Q)" "script_ok starts (str_len P) (str_len Q) (p # ps)"
      by (metis list.distinct(1) neq_Nil_conv script_changes.simps(1))
    obtain g x y where p: "p = (g, x, y)" by (metis prod_cases3)
    have bx: "before = (P @ g @ x) @ old_text ps tail" "after = (Q @ g @ y) @ new_text ps tail" using Cons.prems R p by simp_all
    have lens: "str_len (P @ g @ x) = oe" "str_len (Q @ g @ y) = ne" "os = str_len (P @ g)" "ns = str_len (Q @ g)"
      using R(3) by (simp_all add: c p)
    have bd: "is_char_boundary before os" "is_char_boundary before oe" "is_char_boundary after ns" "is_char_boundary after ne"
      using is_char_boundary_append [of "P @ g" "x @ old_text ps tail"] is_char_boundary_append [of "P @ g @ x" "old_text ps tail"]
        is_char_boundary_append [of "Q @ g" "y @ new_text ps tail"] is_char_boundary_append [of "Q @ g @ y" "new_text ps tail"]
      unfolding lens [symmetric] bx by simp_all
    have gets: "str_get before (str_len P) os = Some g" "str_get after (str_len Q) ns = Some g"
      "str_get before os oe = Some x" "str_get after ns ne = Some y"
      using str_get_mid [of P g "x @ old_text ps tail"] str_get_mid [of Q g "y @ new_text ps tail"]
        str_get_mid [of "P @ g" x "old_text ps tail"] str_get_mid [of "Q @ g" y "new_text ps tail"]
      unfolding bx using lens by (simp_all add: add.assoc [symmetric] lens(1,2) [symmetric])
    have rest: "cs = script_changes ps oe ne" "script_ok (Some (os, ns)) oe ne ps" "x \<noteq> y"
      "case starts of None \<Rightarrow> True | Some (s, n) \<Rightarrow> s < os \<and> n < ns"
      using R(3,4) lens by (auto simp: c p split: option.splits)
    have "check_order before after (i + 1) (oe, ne) (Some (os, ns)) cs = Inr () \<and> check_gaps before after (j + 1) (oe, ne) cs = Inr ()"
      using Cons.IH [OF bx, of "i + 1" "Some (os, ns)" "j + 1"] rest unfolding lens by blast
    then show ?L using bd gets rest lens
      by (auto simp: c validate_text_range_iff validate_text_range_def split: option.splits dest: is_char_boundary_le)
  qed
qed

definition is_script :: "rstr \<Rightarrow> rstr \<Rightarrow> text_change list \<Rightarrow> bool" where
  "is_script before after cs \<longleftrightarrow> (\<exists>ps tail. before = old_text ps tail \<and> after = new_text ps tail
     \<and> cs = script_changes ps 0 0 \<and> script_ok None 0 0 ps)"

lemma validate_text_changes_iff: "validate_text_changes before after cs = Inr () \<longleftrightarrow> is_script before after cs"
  using checked_script [of before "[]" before after "[]" after 0 None cs 0]
  by (simp add: validate_text_changes_def is_script_def)

lemma is_script_Nil: "is_script before after [] \<longleftrightarrow> before = after"
proof
  assume "is_script before after []"
  then obtain ps tail where "before = old_text ps tail" "after = new_text ps tail" "[] = script_changes ps 0 0"
    unfolding is_script_def by blast
  then show "before = after" by (cases ps) auto
next
  assume "before = after"
  then show "is_script before after []" unfolding is_script_def by (intro exI [of _ "[]"] exI [of _ before]) simp
qed

lemma new_change_set_iff:
  "new_change_set before after cs = Inr s \<longleftrightarrow> is_script before after cs
    \<and> s = \<lparr>set_changes = cs, before_len = str_len before, after_len = str_len after\<rparr>"
proof (cases "cs = []")
  case True
  then show ?thesis by (auto simp: new_change_set_def is_script_Nil unchanged_set_def)
next
  case False
  then show ?thesis using validate_text_changes_iff [of before after cs] by (auto simp: new_change_set_def)
qed

text \<open>The reverse edit.\<close>

lemma swap_script:
  "old_text (map (\<lambda>(g, x, y). (g, y, x)) ps) tail = new_text ps tail" "new_text (map (\<lambda>(g, x, y). (g, y, x)) ps) tail = old_text ps tail"
  "script_changes (map (\<lambda>(g, x, y). (g, y, x)) ps) nc oc = map (\<lambda>c. \<lparr>old_range = new_range c, new_range = old_range c\<rparr>) (script_changes ps oc nc)"
  "script_ok (map_option prod.swap starts) nc oc (map (\<lambda>(g, x, y). (g, y, x)) ps) \<longleftrightarrow> script_ok starts oc nc ps"
proof -
  show "old_text (map (\<lambda>(g, x, y). (g, y, x)) ps) tail = new_text ps tail" by (induction ps) auto
  show "new_text (map (\<lambda>(g, x, y). (g, y, x)) ps) tail = old_text ps tail" by (induction ps) auto
  show "script_changes (map (\<lambda>(g, x, y). (g, y, x)) ps) nc oc = map (\<lambda>c. \<lparr>old_range = new_range c, new_range = old_range c\<rparr>) (script_changes ps oc nc)"
    by (induction ps arbitrary: oc nc) auto
  show "script_ok (map_option prod.swap starts) nc oc (map (\<lambda>(g, x, y). (g, y, x)) ps) \<longleftrightarrow> script_ok starts oc nc ps"
  proof (induction ps arbitrary: starts oc nc)
    case (Cons p ps)
    obtain g x y where p: "p = (g, x, y)" by (metis prod_cases3)
    have "(case map_option prod.swap starts of None \<Rightarrow> True | Some (os, ns) \<Rightarrow> os < nc + str_len g \<and> ns < oc + str_len g)
      \<longleftrightarrow> (case starts of None \<Rightarrow> True | Some (os, ns) \<Rightarrow> os < oc + str_len g \<and> ns < nc + str_len g)" by (cases starts) auto
    then show ?case using Cons.IH [where starts = "Some (oc + str_len g, nc + str_len g)" and oc = "oc + str_len g + str_len x"
        and nc = "nc + str_len g + str_len y"] by (auto simp: p)
  qed simp
qed

lemma is_script_inverse:
  assumes "is_script before after cs"
  shows "is_script after before (map (\<lambda>c. \<lparr>old_range = new_range c, new_range = old_range c\<rparr>) cs)"
proof -
  from assms obtain ps tail where ps: "before = old_text ps tail" "after = new_text ps tail" "cs = script_changes ps 0 0" "script_ok None 0 0 ps"
    unfolding is_script_def by blast
  then show ?thesis unfolding is_script_def
    by (intro exI [of _ "map (\<lambda>(g, x, y). (g, y, x)) ps"] exI [of _ tail])
      (use swap_script(4) [of None 0 0 ps] in \<open>simp add: swap_script\<close>)
qed

section \<open>Where offsets go\<close>

lemma map_from_lower: "nc \<le> map_from offset affinity (oc, nc) (script_changes ps oc nc)"
proof (induction ps arbitrary: oc nc)
  case (Cons p ps)
  obtain g x y where p: "p = (g, x, y)" by (metis prod_cases3)
  show ?case using Cons.IH [where nc = "nc + str_len g + str_len y" and oc = "oc + str_len g + str_len x"]
    by (auto simp: p edge_def split: offset_affinity.split)
qed simp

lemma map_from_mono:
  assumes "oc \<le> i" "i \<le> j"
  shows "map_from i affinity (oc, nc) (script_changes ps oc nc) \<le> map_from j affinity (oc, nc) (script_changes ps oc nc)"
  using assms
proof (induction ps arbitrary: oc nc)
  case (Cons p ps)
  obtain g x y where p: "p = (g, x, y)" by (metis prod_cases3)
  let ?oc = "oc + str_len g + str_len x" and ?nc = "nc + str_len g + str_len y"
  have low: "?nc \<le> map_from j affinity (?oc, ?nc) (script_changes ps ?oc ?nc)" by (rule map_from_lower)
  show ?case using Cons.IH [of ?oc ?nc] Cons.prems low
    by (auto simp: p edge_def is_insertion_def split: offset_affinity.split)
qed simp

lemma map_from_sides:
  assumes "oc \<le> i"
  shows "map_from i AffinityBefore (oc, nc) (script_changes ps oc nc) \<le> map_from i AffinityAfter (oc, nc) (script_changes ps oc nc)"
  using assms
proof (induction ps arbitrary: oc nc)
  case (Cons p ps)
  obtain g x y where p: "p = (g, x, y)" by (metis prod_cases3)
  show ?case using Cons.IH [of "oc + str_len g + str_len x" "nc + str_len g + str_len y"] Cons.prems
    by (auto simp: p edge_def is_insertion_def)
qed simp

lemma boundary_in_gap:
  assumes "is_char_boundary (P @ g @ d) i" "str_len P \<le> i" "i \<le> str_len P + str_len g"
  shows "is_char_boundary (Q @ g @ e) (str_len Q + (i - str_len P))"
proof -
  have "is_char_boundary (g @ d) (i - str_len P)" using assms(1,2) by (simp add: boundary_shift_right)
  then have "is_char_boundary g (i - str_len P)" using assms(3) by (simp add: boundary_shift_left)
  then have "is_char_boundary (g @ e) (i - str_len P)" using is_char_boundary_le by (simp add: boundary_shift_left)
  then show ?thesis by (simp add: boundary_shift_right)
qed

lemma map_from_boundary:
  assumes "is_char_boundary (P @ old_text ps tail) i" "str_len P \<le> i"
  shows "is_char_boundary (Q @ new_text ps tail) (map_from i affinity (str_len P, str_len Q) (script_changes ps (str_len P) (str_len Q)))"
  using assms
proof (induction ps arbitrary: P Q)
  case Nil
  then have "i \<le> str_len P + str_len tail" using is_char_boundary_le by fastforce
  then show ?case using boundary_in_gap [of P tail "[]" i Q "[]"] Nil by simp
next
  case (Cons p ps)
  obtain g x y where p: "p = (g, x, y)" by (metis prod_cases3)
  have gap: "is_char_boundary (Q @ g @ y @ new_text ps tail) (str_len Q + (i - str_len P))" if "i < str_len P + str_len g"
    using boundary_in_gap [of P g "x @ old_text ps tail" i Q] Cons.prems that by (simp add: p)
  have edges: "is_char_boundary (Q @ g @ y @ new_text ps tail) (str_len Q + str_len g)"
    "is_char_boundary (Q @ g @ y @ new_text ps tail) (str_len Q + str_len g + str_len y)"
    using is_char_boundary_append [of "Q @ g" "y @ new_text ps tail"] is_char_boundary_append [of "Q @ g @ y" "new_text ps tail"]
    by (simp_all add: add.assoc)
  have rec: "is_char_boundary (Q @ g @ y @ new_text ps tail) (map_from i affinity (str_len P + str_len g + str_len x, str_len Q + str_len g + str_len y)
      (script_changes ps (str_len P + str_len g + str_len x) (str_len Q + str_len g + str_len y)))"
    if "str_len P + str_len g + str_len x \<le> i"
    using Cons.IH [of "P @ g @ x" "Q @ g @ y"] Cons.prems that by (simp add: p add.assoc)
  show ?case using gap edges rec by (auto simp: p edge_def is_insertion_def split: offset_affinity.split)
qed

definition untouched :: "text_change list \<Rightarrow> nat \<Rightarrow> nat \<Rightarrow> bool" where
  "untouched cs i j \<longleftrightarrow> list_all (\<lambda>c. snd (old_range c) \<le> i \<or> j \<le> fst (old_range c)) cs"

lemma str_get_gap:
  assumes "is_char_boundary (P @ g @ d) i" "is_char_boundary (P @ g @ d) j" "str_len P \<le> i" "i \<le> j" "j \<le> str_len P + str_len g"
  shows "str_get (Q @ g @ e) (str_len Q + (i - str_len P)) (str_len Q + (j - str_len P)) = str_get (P @ g @ d) i j"
proof -
  obtain a b where a: "i = str_len P + a" and b: "j = str_len P + b" using assms(3,4) by (metis le_iff_add le_trans)
  have g: "str_get (g @ d') a b = str_get g a b" for d' using assms(5) b by (simp add: str_get_append_left)
  show ?thesis unfolding a b by (simp add: str_get_append_right g)
qed

lemma map_from_at_cursor:
  assumes "script_ok (Some (oc, n)) oc nc ps"
  shows "map_from oc affinity (oc, nc) (script_changes ps oc nc) = nc"
  using assms by (cases ps) auto

lemma kept_text:
  assumes "is_char_boundary (P @ old_text ps tail) i" "is_char_boundary (P @ old_text ps tail) j" "str_len P \<le> i" "i < j"
    and "untouched (script_changes ps (str_len P) (str_len Q)) i j" "script_ok starts (str_len P) (str_len Q) ps"
  shows "str_get (Q @ new_text ps tail) (map_from i AffinityAfter (str_len P, str_len Q) (script_changes ps (str_len P) (str_len Q)))
      (map_from j AffinityBefore (str_len P, str_len Q) (script_changes ps (str_len P) (str_len Q)))
    = str_get (P @ old_text ps tail) i j"
  using assms
proof (induction ps arbitrary: P Q starts)
  case Nil
  then have "j \<le> str_len P + str_len tail" using is_char_boundary_le by fastforce
  then show ?case using str_get_gap [of P tail "[]" i j Q "[]"] Nil by simp
next
  case (Cons p ps)
  obtain g x y where p: "p = (g, x, y)" by (metis prod_cases3)
  let ?s = "str_len P + str_len g" and ?n = "str_len Q + str_len g"
  let ?rest = "script_changes ps (?s + str_len x) (?n + str_len y)"
  from Cons.prems(5) have u: "?s + str_len x \<le> i \<or> j \<le> ?s" "untouched ?rest i j" by (auto simp: untouched_def p)
  have ok: "script_ok (Some (?s, ?n)) (?s + str_len x) (?n + str_len y) ps" using Cons.prems(6) by (simp add: p)
  show ?case
  proof (cases "?s + str_len x \<le> i")
    case True
    have i: "map_from i AffinityAfter (str_len P, str_len Q) (script_changes (p # ps) (str_len P) (str_len Q))
        = map_from i AffinityAfter (?s + str_len x, ?n + str_len y) ?rest"
    proof (cases "x = [] \<and> i = ?s")
      case t: True
      have "script_ok (Some (?s + str_len x, ?n)) (?s + str_len x) (?n + str_len y) ps" using ok t by simp
      then show ?thesis using map_from_at_cursor [of "?s + str_len x" ?n "?n + str_len y" ps AffinityAfter] t
        by (simp add: p is_insertion_def edge_def)
    qed (use True in \<open>auto simp: p is_insertion_def\<close>)
    have j: "map_from j AffinityBefore (str_len P, str_len Q) (script_changes (p # ps) (str_len P) (str_len Q))
        = map_from j AffinityBefore (?s + str_len x, ?n + str_len y) ?rest"
      using True Cons.prems(4) by (auto simp: p is_insertion_def)
    have len: "str_len (P @ g @ x) = ?s + str_len x" "str_len (Q @ g @ y) = ?n + str_len y" by simp_all
    show ?thesis unfolding i j
      using Cons.IH [of "P @ g @ x" "Q @ g @ y" "Some (?s, ?n)", unfolded len] Cons.prems(1,2,4) u(2) ok True by (simp add: p)
  next
    case False
    then have js: "j \<le> ?s" using u by blast
    have m: "map_from i AffinityAfter (str_len P, str_len Q) (script_changes (p # ps) (str_len P) (str_len Q)) = str_len Q + (i - str_len P)"
      "map_from j AffinityBefore (str_len P, str_len Q) (script_changes (p # ps) (str_len P) (str_len Q)) = str_len Q + (j - str_len P)"
      using js Cons.prems(3,4) by (auto simp: p is_insertion_def edge_def)
    show ?thesis unfolding m using str_get_gap [of P g "x @ old_text ps tail" i j Q "y @ new_text ps tail"] Cons.prems js
      by (simp add: p)
  qed
qed

section \<open>What a change set promises\<close>

text \<open>C25: A sequence of changes is accepted for two documents exactly when it consists of the ranges of an edit script
  between them: kept stretches of text that are equal on both sides, each followed by a replacement that really
  changes the text, in increasing order on both sides.\<close>

theorem change_set_describes_edit:
  "new_change_set before after cs = Inr s \<longleftrightarrow> is_script before after cs
    \<and> s = \<lparr>set_changes = cs, before_len = str_len before, after_len = str_len after\<rparr>"
  by (rule new_change_set_iff)

text \<open>C26: The inverse of an accepted change set is accepted for the reverse edit, and inverting twice gives the set back.\<close>

theorem inverse_change_set:
  assumes "new_change_set before after cs = Inr s"
  shows "new_change_set after before (set_changes (inverse_set s)) = Inr (inverse_set s) \<and> inverse_set (inverse_set s) = s"
proof -
  from assms have s: "is_script before after cs" "s = \<lparr>set_changes = cs, before_len = str_len before, after_len = str_len after\<rparr>"
    by (simp_all add: new_change_set_iff)
  have "map (\<lambda>c. \<lparr>old_range = old_range c, new_range = new_range c\<rparr>) cs = cs" by (intro map_idI) simp
  then show ?thesis using is_script_inverse [OF s(1)] by (simp add: new_change_set_iff s(2) inverse_set_def comp_def)
qed

theorem inverse_change_set_witness:
  "new_change_set (lit ''ab'') (lit ''a'') [\<lparr>old_range = (1, 2), new_range = (1, 1)\<rparr>]
     = Inr \<lparr>set_changes = [\<lparr>old_range = (1, 2), new_range = (1, 1)\<rparr>], before_len = 2, after_len = 1\<rparr>"
proof -
  have "new_change_set (lit ''a'') (lit ''ab'') [\<lparr>old_range = (1, 1), new_range = (1, 2)\<rparr>]
      = Inr \<lparr>set_changes = [\<lparr>old_range = (1, 1), new_range = (1, 2)\<rparr>], before_len = 1, after_len = 2\<rparr>" by code_simp
  from conjunct1 [OF inverse_change_set [OF this]] show ?thesis by (simp add: inverse_set_def)
qed

text \<open>C27: Mapping an offset of the old document through an accepted change set succeeds, gives a character boundary
  within the new document, is monotone, and moves a stretch of text that no change touches to an equal stretch.\<close>

theorem offsets_map_within:
  assumes "new_change_set before after cs = Inr s"
    and "is_char_boundary before i" and "is_char_boundary before j" and "i < j"
  shows "\<exists>m n m' n'. map_old_offset s before i AffinityBefore = Inr m \<and> map_old_offset s before j AffinityBefore = Inr n
    \<and> map_old_offset s before i AffinityAfter = Inr m' \<and> map_old_offset s before j AffinityAfter = Inr n'
    \<and> m \<le> n \<and> m' \<le> n' \<and> m \<le> m' \<and> n' \<le> str_len after
    \<and> is_char_boundary after m \<and> is_char_boundary after n \<and> is_char_boundary after m' \<and> is_char_boundary after n'
    \<and> (untouched cs i j \<longrightarrow> str_get after m' n = str_get before i j)"
proof -
  from assms(1) obtain ps tail where ps: "before = old_text ps tail" "after = new_text ps tail" "cs = script_changes ps 0 0" "script_ok None 0 0 ps"
    and s: "s = \<lparr>set_changes = cs, before_len = str_len before, after_len = str_len after\<rparr>"
    unfolding new_change_set_iff is_script_def by blast
  have b: "is_char_boundary after (map_from k a (0, 0) cs)" if "is_char_boundary before k" for k a
    using map_from_boundary [of "[]" ps tail k "[]" a] that ps by simp
  have ok: "map_old_offset s before k a = Inr (map_from k a (0, 0) cs)" if "is_char_boundary before k" for k a
    using that is_char_boundary_le [OF that] by (simp add: map_old_offset_def map_valid_offset_def s)
  have mono: "map_from i a (0, 0) cs \<le> map_from j a (0, 0) cs" for a
    using map_from_mono [of 0 i j a 0 ps] assms(4) ps(3) by simp
  have kept: "untouched cs i j \<longrightarrow> str_get after (map_from i AffinityAfter (0, 0) cs) (map_from j AffinityBefore (0, 0) cs) = str_get before i j"
    using kept_text [of "[]" ps tail i j "[]" None] assms(2-4) ps by simp
  have "map_from i AffinityBefore (0, 0) cs \<le> map_from i AffinityAfter (0, 0) cs" using map_from_sides [of 0 i 0 ps] ps(3) by simp
  then show ?thesis using ok [OF assms(2)] ok [OF assms(3)] b [OF assms(2)] b [OF assms(3)] mono kept is_char_boundary_le by blast
qed

theorem offsets_map_within_witness:
  "\<exists>s m. new_change_set (lit ''ab'') (lit ''axb'') [\<lparr>old_range = (1, 1), new_range = (1, 2)\<rparr>] = Inr s
    \<and> map_old_offset s (lit ''ab'') 1 AffinityAfter = Inr m \<and> is_char_boundary (lit ''axb'') m"
proof -
  have s: "new_change_set (lit ''ab'') (lit ''axb'') [\<lparr>old_range = (1, 1), new_range = (1, 2)\<rparr>]
      = Inr \<lparr>set_changes = [\<lparr>old_range = (1, 1), new_range = (1, 2)\<rparr>], before_len = 2, after_len = 3\<rparr>" by code_simp
  have b: "is_char_boundary (lit ''ab'') 1" "is_char_boundary (lit ''ab'') 2" by code_simp+
  from offsets_map_within [OF s b] show ?thesis using s by auto
qed

end
