(* ===== verification/Text_Reflow.thy ===== *)
theory Text_Reflow
  imports Structured_Text Text_Changes Annotations
begin

text \<open>
  Cleanup of the spacing of whole texts (\<open>src/src/application/text_reflow.rs\<close> and
  \<open>src/src/application/text_reflow/format\<close>): lines are classified, runs of equal kind are replaced by
  their collapsed form, large pastes are transformed in isolation, and annotations follow the changes.
\<close>

section \<open>Classification of lines\<close>

datatype line_kind = Protected | Reflow | ListParagraph nat | Separator

definition ranges_intersect :: "range \<Rightarrow> range \<Rightarrow> bool" where
  "ranges_intersect left right \<longleftrightarrow> fst left < snd right \<and> fst right < snd left"

definition line_text :: "rstr \<Rightarrow> logical_line \<Rightarrow> rstr" where
  "line_text content l = slice content (line_start l) (content_end l)"

fun strip_text :: "rstr \<Rightarrow> rstr \<Rightarrow> rstr option" where
  "strip_text [] s = Some s"
| "strip_text (c # p) [] = None"
| "strip_text (c # p) (d # s) = (if c = d then strip_text p s else None)"

definition starts_with :: "rstr \<Rightarrow> rstr \<Rightarrow> bool" where
  "starts_with s p \<longleftrightarrow> strip_text p s \<noteq> None"

fun contains_str :: "rstr \<Rightarrow> rstr \<Rightarrow> bool" where
  "contains_str [] p \<longleftrightarrow> p = []"
| "contains_str (c # s) p \<longleftrightarrow> starts_with (c # s) p \<or> contains_str s p"

text \<open>\<open>split\<close> at every character that satisfies a predicate, empty pieces included.\<close>

fun split_on :: "(nat \<Rightarrow> bool) \<Rightarrow> rstr \<Rightarrow> rstr list" where
  "split_on P [] = [[]]"
| "split_on P (c # s) =
     (if P c then [] # split_on P s else (case split_on P s of w # ws \<Rightarrow> (c # w) # ws | [] \<Rightarrow> [[c]]))"

definition split_whitespace :: "rstr \<Rightarrow> rstr list" where
  "split_whitespace s = filter (\<lambda>w. w \<noteq> []) (split_on is_whitespace s)"

definition trim_matches :: "(nat \<Rightarrow> bool) \<Rightarrow> rstr \<Rightarrow> rstr" where
  "trim_matches P s = rev (dropWhile P (rev (dropWhile P s)))"

definition trim_end_matches :: "(nat \<Rightarrow> bool) \<Rightarrow> rstr \<Rightarrow> rstr" where
  "trim_end_matches P s = rev (dropWhile P (rev s))"

definition is_windows_path :: "rstr \<Rightarrow> bool" where
  "is_windows_path token \<longleftrightarrow>
     (case token of
        a # b # c # _ \<Rightarrow> (65 \<le> a \<and> a \<le> 90 \<or> 97 \<le> a \<and> a \<le> 122) \<and> b = 58 \<and> (c = 92 \<or> c = 47)
      | _ \<Rightarrow> False)"

definition is_relative_path :: "rstr \<Rightarrow> bool" where
  "is_relative_path token \<longleftrightarrow>
     \<not> contains_str token (lit ''://'') \<and> length (filter (\<lambda>part. part \<noteq> []) (split_on (\<lambda>c. c = 47) token)) \<ge> 2"

definition contains_path_or_url :: "rstr \<Rightarrow> bool" where
  "contains_path_or_url ln = list_ex (\<lambda>word.
     (let token = trim_matches (\<lambda>c. c \<in> set (lit ''()[]{},;'') \<or> c = 34 \<or> c = 39) word in
        starts_with token (lit ''http://'')
        \<or> starts_with token (lit ''https://'')
        \<or> starts_with token (lit ''file://'')
        \<or> starts_with token (lit ''/'') \<and> str_len token > 1
        \<or> starts_with token (lit ''~/'')
        \<or> starts_with token (lit ''./'')
        \<or> starts_with token (lit ''../'')
        \<or> 92 \<in> set (trim_end_matches (\<lambda>c. c = 92) token)
        \<or> is_windows_path token
        \<or> is_relative_path token)) (split_whitespace ln)"

definition is_atx_heading :: "rstr \<Rightarrow> bool" where
  "is_atx_heading ln =
     (let trimmed = dropWhile is_blank ln;
          hashes = length (takeWhile (\<lambda>c. c = 35) trimmed) in
      1 \<le> hashes \<and> hashes \<le> 6 \<and> (case drop hashes trimmed of [] \<Rightarrow> True | c # _ \<Rightarrow> is_blank c))"

definition is_setext_underline :: "rstr \<Rightarrow> bool" where
  "is_setext_underline ln =
     (case trim_blanks ln of [] \<Rightarrow> False
      | m # rest \<Rightarrow> (m = 61 \<or> m = 45) \<and> list_all (\<lambda>c. c = m) (m # rest))"

definition is_bare_filename :: "unicode \<Rightarrow> rstr \<Rightarrow> bool" where
  "is_bare_filename u value =
     (let name_char = (\<lambda>c. alphanumeric u c \<or> c = 45 \<or> c = 95 \<or> c = 46) in
      case strip_text [46] value of
        Some stripped \<Rightarrow> stripped \<noteq> [] \<and> list_all name_char stripped
      | None \<Rightarrow>
          if 46 \<notin> set value then False
          else (let extension = rev (takeWhile (\<lambda>c. c \<noteq> 46) (rev value));
                    stem = rev (tl (dropWhile (\<lambda>c. c \<noteq> 46) (rev value))) in
            stem \<noteq> [] \<and> extension \<noteq> [] \<and> str_len extension \<le> 12
            \<and> list_all name_char stem \<and> list_all (alphanumeric u) extension))"

definition looks_like_filename_list :: "unicode \<Rightarrow> rstr \<Rightarrow> logical_line list \<Rightarrow> bool" where
  "looks_like_filename_list u content ls \<longleftrightarrow> length ls \<ge> 2
     \<and> list_all (\<lambda>l. (let word = trim_blanks (line_text content l) in
          word \<noteq> [] \<and> \<not> list_ex is_whitespace word \<and> is_bare_filename u word)) ls"

section \<open>Aligned tables\<close>

record field_start =
  fs_column :: nat
  fs_left :: range
  fs_right :: range

record shared_field =
  sf_column :: nat
  sf_first_left :: range
  sf_first_right :: range
  sf_distinct :: bool

record field_scan =
  sc_starts :: "field_start list"
  sc_column :: nat
  sc_separator_width :: nat
  sc_separator_has_tab :: bool
  sc_seen_content :: bool
  sc_field_start :: nat
  sc_field_end :: nat
  sc_pending_right :: "nat option"

definition extend_pending_right :: "field_start list \<Rightarrow> nat option \<Rightarrow> nat \<Rightarrow> field_start list" where
  "extend_pending_right starts pending e =
     (case pending of None \<Rightarrow> starts
      | Some k \<Rightarrow> starts[k := (starts ! k)\<lparr>fs_right := (fst (fs_right (starts ! k)), e)\<rparr>])"

definition scan_grapheme :: "unicode \<Rightarrow> field_scan \<Rightarrow> nat \<times> rstr \<Rightarrow> field_scan" where
  "scan_grapheme u s = (\<lambda>(index, g).
     (let width = grapheme_cell_width u g (sc_column s);
          visible = (trim g \<noteq> []);
          s' = (if sc_seen_content s \<and> (g = [32] \<or> g = [9])
            then s\<lparr>sc_pending_right := None, sc_separator_width := sc_separator_width s + width,
                   sc_separator_has_tab := sc_separator_has_tab s \<or> g = [9]\<rparr>
            else (let s1 = (if (sc_separator_width s \<ge> 2 \<or> sc_separator_has_tab s) \<and> visible
                        then s\<lparr>sc_starts := sc_starts s @ [\<lparr>fs_column = sc_column s,
                                  fs_left = (sc_field_start s, sc_field_end s), fs_right = (index, index + str_len g)\<rparr>],
                               sc_pending_right := Some (length (sc_starts s))\<rparr> else s);
                      s2 = (if sc_separator_width s1 > 0 \<or> \<not> sc_seen_content s1 then s1\<lparr>sc_field_start := index\<rparr> else s1);
                      s3 = (if visible then s2\<lparr>sc_field_end := index + str_len g,
                               sc_starts := extend_pending_right (sc_starts s2) (sc_pending_right s2) (index + str_len g)\<rparr> else s2)
                  in s3\<lparr>sc_separator_width := 0, sc_separator_has_tab := False, sc_seen_content := sc_seen_content s3 \<or> visible\<rparr>))
      in s'\<lparr>sc_column := sc_column s + width\<rparr>))"

fun with_offsets :: "nat \<Rightarrow> rstr list \<Rightarrow> (nat \<times> rstr) list" where
  "with_offsets k [] = []"
| "with_offsets k (g # gs) = (k, g) # with_offsets (k + str_len g) gs"

definition aligned_field_starts :: "unicode \<Rightarrow> rstr \<Rightarrow> field_start list" where
  "aligned_field_starts u ln = sc_starts (fold (\<lambda>x s. scan_grapheme u s x) (with_offsets 0 (graphemes_of u ln))
     \<lparr>sc_starts = [], sc_column = 0, sc_separator_width = 0, sc_separator_has_tab = False, sc_seen_content = False,
      sc_field_start = 0, sc_field_end = 0, sc_pending_right = None\<rparr>)"

fun intersect_fields :: "rstr \<Rightarrow> rstr \<Rightarrow> shared_field list \<Rightarrow> field_start list \<Rightarrow> shared_field list" where
  "intersect_fields first_line current_line [] rs = []"
| "intersect_fields first_line current_line (l # ls) [] = []"
| "intersect_fields first_line current_line (l # ls) (r # rs) =
     (if sf_column l < fs_column r then intersect_fields first_line current_line ls (r # rs)
      else if fs_column r < sf_column l then intersect_fields first_line current_line (l # ls) rs
      else l\<lparr>sf_distinct := sf_distinct l
             \<or> slice first_line (fst (sf_first_left l)) (snd (sf_first_left l)) \<noteq> slice current_line (fst (fs_left r)) (snd (fs_left r))
             \<or> slice first_line (fst (sf_first_right l)) (snd (sf_first_right l)) \<noteq> slice current_line (fst (fs_right r)) (snd (fs_right r))\<rparr>
           # intersect_fields first_line current_line ls rs)"

fun shared_fields :: "unicode \<Rightarrow> rstr \<Rightarrow> rstr \<Rightarrow> shared_field list \<Rightarrow> logical_line list \<Rightarrow> shared_field list option" where
  "shared_fields u content first_text shared [] = Some shared"
| "shared_fields u content first_text shared (l # ls) =
     (let shared' = intersect_fields first_text (line_text content l) shared (aligned_field_starts u (line_text content l)) in
      if shared' = [] then None else shared_fields u content first_text shared' ls)"

definition looks_like_aligned_table :: "unicode \<Rightarrow> rstr \<Rightarrow> logical_line list \<Rightarrow> bool" where
  "looks_like_aligned_table u content ls =
     (case ls of
        [] \<Rightarrow> False
      | first # rest \<Rightarrow>
          (let first_text = line_text content first;
               shared = map (\<lambda>f. \<lparr>sf_column = fs_column f, sf_first_left = fs_left f, sf_first_right = fs_right f, sf_distinct = False\<rparr>)
                 (aligned_field_starts u first_text) in
           case shared_fields u content first_text shared rest of
             None \<Rightarrow> False
           | Some shared \<Rightarrow> length ls \<ge> 2 \<and> list_ex sf_distinct shared))"

section \<open>The classification loop\<close>

definition classify_line :: "unicode \<Rightarrow> rstr \<Rightarrow> logical_line \<Rightarrow> rstr \<Rightarrow> bool \<Rightarrow> bool \<Rightarrow> bool \<Rightarrow> line_kind" where
  "classify_line u content l txt annotation_owned fenced list_owned =
     (if annotation_owned then Protected
      else if trim_blanks txt = [] \<and> \<not> fenced then Separator
      else (let indentation = indentation_columns u (slice_to txt (whitespace_prefix txt));
                structural = (fenced
                  \<or> starts_with (dropWhile is_blank txt) (lit ''>'')
                  \<or> is_atx_heading txt
                  \<or> 124 \<in> set txt
                  \<or> is_thematic_break txt
                  \<or> indentation \<ge> 4 \<and> \<not> list_owned
                  \<or> contains_path_or_url txt) in
        if structural then Protected
        else if str_get content (line_start l) (content_end l) \<noteq> None then Reflow
        else Protected))"

record classify_state =
  cl_fence :: fence_state
  cl_list_column :: "nat option"
  cl_after_separator :: bool
  cl_in_paragraph :: bool
  cl_protected :: "range list"

definition skip_protected :: "nat \<Rightarrow> range list \<Rightarrow> range list" where
  "skip_protected position ps = dropWhile (\<lambda>p. snd p \<le> position) ps"

text \<open>One line: its kind, whether it is indented code, and the state for the next line. The protected ranges that
  end before the line are dropped, which is the index of the source into their list.\<close>

definition classify_step :: "unicode \<Rightarrow> rstr \<Rightarrow> classify_state \<Rightarrow> logical_line \<Rightarrow> (line_kind \<times> bool) \<times> classify_state" where
  "classify_step u content s l =
     (let txt = line_text content l;
          was_in_fence = (cl_fence s \<noteq> None);
          (is_fence, fence) = update_fence u txt (cl_fence s);
          marker = parse_list_marker txt;
          ps = skip_protected (line_start l) (cl_protected s);
          annotation_owned = (case ps of [] \<Rightarrow> False | p # _ \<Rightarrow> ranges_intersect (line_start l, line_end l) p);
          marker_owned = (case marker of None \<Rightarrow> False
            | Some m \<Rightarrow> marker_indentation_columns u m < 4 \<or> cl_list_column s \<noteq> None);
          indentation = indentation_columns u (slice_to txt (whitespace_prefix txt));
          aligned_continuation = (case cl_list_column s of None \<Rightarrow> False
            | Some column \<Rightarrow> marker = None \<and> trim_blanks txt \<noteq> [] \<and> indentation = column);
          list_paragraph = (marker = None \<and> aligned_continuation \<and> (cl_after_separator s \<or> cl_in_paragraph s));
          indented_code = (trim_blanks txt \<noteq> [] \<and> indentation \<ge> 4 \<and> \<not> (marker_owned \<or> aligned_continuation));
          kind0 = classify_line u content l txt annotation_owned (was_in_fence \<or> is_fence) (marker_owned \<or> aligned_continuation);
          kind = (case cl_list_column s of
              Some column \<Rightarrow> if kind0 = Reflow \<and> list_paragraph then ListParagraph column else kind0
            | None \<Rightarrow> kind0);
          s' = s\<lparr>cl_fence := fence, cl_protected := ps\<rparr>;
          s'' = (if kind = Separator
            then s'\<lparr>cl_after_separator := (cl_list_column s \<noteq> None), cl_in_paragraph := False\<rparr>
            else case (if marker_owned then marker else None) of
              Some m \<Rightarrow> s'\<lparr>cl_list_column := Some (content_column u m), cl_after_separator := False, cl_in_paragraph := False\<rparr>
            | None \<Rightarrow>
                if list_paragraph then s'\<lparr>cl_after_separator := False, cl_in_paragraph := True\<rparr>
                else if aligned_continuation then s'\<lparr>cl_after_separator := False, cl_in_paragraph := False\<rparr>
                else s'\<lparr>cl_list_column := None, cl_after_separator := False, cl_in_paragraph := False\<rparr>)
      in ((kind, indented_code), s''))"

fun classify_loop :: "unicode \<Rightarrow> rstr \<Rightarrow> classify_state \<Rightarrow> logical_line list \<Rightarrow> (line_kind \<times> bool) list" where
  "classify_loop u content s [] = []"
| "classify_loop u content s (l # ls) =
     (let (k, s') = classify_step u content s l in k # classify_loop u content s' ls)"

text \<open>Blank lines between two lines of indented code belong to the code. The flag is the one of the line before.\<close>

function protect_indented_code_gaps :: "bool option \<Rightarrow> (line_kind \<times> bool) list \<Rightarrow> line_kind list" where
  "protect_indented_code_gaps previous [] = []"
| "protect_indented_code_gaps previous ((kind, code) # rest) =
     (if kind \<noteq> Separator then kind # protect_indented_code_gaps (Some code) rest
      else (let run = takeWhile (\<lambda>(k, _). k = Separator) rest;
                after = dropWhile (\<lambda>(k, _). k = Separator) rest;
                between = (previous = Some True \<and> (case after of [] \<Rightarrow> False | (_, c) # _ \<Rightarrow> c)) in
        replicate (Suc (length run)) (if between then Protected else Separator)
        @ protect_indented_code_gaps (Some (snd (last ((kind, code) # run)))) after))"
  by pat_completeness auto
termination by (relation "measure (length \<circ> snd)") (auto simp: length_dropWhile_le le_imp_less_Suc)

text \<open>A block of lines between separators is protected as a whole.\<close>

definition block_is_structural :: "unicode \<Rightarrow> rstr \<Rightarrow> (logical_line \<times> line_kind) list \<Rightarrow> bool" where
  "block_is_structural u content block \<longleftrightarrow>
     Protected \<in> set (map snd block)
     \<or> contains_path_or_url (slice content (line_start (fst (hd block))) (content_end (fst (last block))))
     \<or> looks_like_aligned_table u content (map fst block)
     \<or> looks_like_filename_list u content (map fst block)
     \<or> list_ex (\<lambda>(l, _). is_setext_underline (line_text content l)) block"

function protect_structural_blocks :: "unicode \<Rightarrow> rstr \<Rightarrow> (logical_line \<times> line_kind) list \<Rightarrow> line_kind list" where
  "protect_structural_blocks u content [] = []"
| "protect_structural_blocks u content ((l, kind) # rest) =
     (if kind = Separator then kind # protect_structural_blocks u content rest
      else (let block = (l, kind) # takeWhile (\<lambda>(_, k). k \<noteq> Separator) rest in
        (if block_is_structural u content block then replicate (length block) Protected else map snd block)
        @ protect_structural_blocks u content (dropWhile (\<lambda>(_, k). k \<noteq> Separator) rest)))"
  by pat_completeness auto
termination by (relation "measure (\<lambda>(_, _, xs). length xs)") (auto simp: length_dropWhile_le le_imp_less_Suc)

definition classify_lines :: "unicode \<Rightarrow> rstr \<Rightarrow> logical_line list \<Rightarrow> range list \<Rightarrow> line_kind list" where
  "classify_lines u content ls protected =
     protect_structural_blocks u content (zip ls
       (protect_indented_code_gaps None (classify_loop u content
          \<lparr>cl_fence = None, cl_list_column = None, cl_after_separator = False, cl_in_paragraph = False, cl_protected = protected\<rparr> ls)))"

section \<open>Collapsed text\<close>

text \<open>The output so far, and whether a space is pending.\<close>

definition collapse_step :: "nat \<Rightarrow> rstr \<times> bool \<Rightarrow> rstr \<times> bool" where
  "collapse_step c = (\<lambda>(output, pending).
     if is_blank c then (output, output \<noteq> []) else (output @ (if pending then [32] else []) @ [c], False))"

definition collapse_inline :: "rstr \<Rightarrow> rstr" where
  "collapse_inline l = fst (fold collapse_step (trim_blanks l) ([], False))"

definition is_aligned_continuation :: "unicode \<Rightarrow> rstr \<Rightarrow> logical_line \<Rightarrow> nat \<Rightarrow> bool" where
  "is_aligned_continuation u grp l column =
     (let txt = line_text grp l in
      parse_list_marker txt = None \<and> trim_blanks txt \<noteq> []
      \<and> indentation_columns u (slice_to txt (whitespace_prefix txt)) = column)"

text \<open>The indentation of a line kept, its content collapsed.\<close>

definition indented :: "rstr \<Rightarrow> rstr option" where
  "indented txt =
     (let prefix_end = whitespace_prefix txt; content = collapse_inline (slice_from txt prefix_end) in
      if content = [] then None else Some (slice_to txt prefix_end @ content))"

definition transform_indented_group :: "rstr \<Rightarrow> rstr \<Rightarrow> rstr" where
  "transform_indented_group grp newline = join newline (List.map_filter (\<lambda>l. indented (line_text grp l)) (logical_lines grp))"

definition collapsed_lines :: "rstr \<Rightarrow> rstr \<Rightarrow> logical_line list \<Rightarrow> rstr" where
  "collapsed_lines newline grp ls = join newline (filter (\<lambda>l. l \<noteq> []) (map (\<lambda>l. collapse_inline (line_text grp l)) ls))"

function list_group :: "unicode \<Rightarrow> rstr \<Rightarrow> rstr \<Rightarrow> logical_line list \<Rightarrow> rstr list" where
  "list_group u newline grp [] = []"
| "list_group u newline grp (l # ls) =
     (case parse_list_marker (line_text grp l) of
        None \<Rightarrow>
          collapsed_lines newline grp (l # takeWhile (\<lambda>k. parse_list_marker (line_text grp k) = None) ls)
          # list_group u newline grp (dropWhile (\<lambda>k. parse_list_marker (line_text grp k) = None) ls)
      | Some m \<Rightarrow>
          (slice_to (line_text grp l) (prefix_len m) @ collapse_inline (lm_content m))
          # List.map_filter (\<lambda>k. indented (line_text grp k)) (takeWhile (\<lambda>k. is_aligned_continuation u grp k (content_column u m)) ls)
          @ list_group u newline grp (dropWhile (\<lambda>k. is_aligned_continuation u grp k (content_column u m)) ls))"
  by pat_completeness auto
termination by (relation "measure (\<lambda>(_, _, _, xs). length xs)") (auto simp: length_dropWhile_le le_imp_less_Suc)

definition transform_list_group :: "unicode \<Rightarrow> rstr \<Rightarrow> logical_line list \<Rightarrow> rstr \<Rightarrow> rstr" where
  "transform_list_group u grp ls newline = join newline (list_group u newline grp ls)"

definition transform_group :: "unicode \<Rightarrow> rstr \<Rightarrow> rstr \<Rightarrow> rstr" where
  "transform_group u grp newline =
     (let ls = logical_lines grp in
      if list_ex (\<lambda>l. parse_list_marker (line_text grp l) \<noteq> None) ls
      then transform_list_group u grp ls newline
      else collapsed_lines newline grp ls)"

section \<open>Replacements\<close>

record text_replacement =
  rp_old :: range
  rp_value :: rstr

record reflowed_text =
  rt_content :: rstr
  rt_changes :: text_change_set
  rt_isolated :: "(range \<times> range) list"

datatype reflow_error = ReflowTextChange text_change_error | ReflowInvalidBoundary

definition separator_value :: "bool \<Rightarrow> bool \<Rightarrow> rstr \<Rightarrow> rstr" where
  "separator_value at_start at_end newline = (if at_start \<or> at_end then [] else newline @ newline)"

text \<open>A run of lines of one kind, with the line before it and the lines after it.\<close>

definition replacement_range :: "rstr \<Rightarrow> logical_line option \<Rightarrow> logical_line list \<Rightarrow> logical_line list \<Rightarrow> line_kind \<Rightarrow> range" where
  "replacement_range content previous run after kind =
     (if kind \<noteq> Separator then (line_start (hd run), content_end (last run))
      else (case previous of None \<Rightarrow> 0 | Some l \<Rightarrow> content_end l,
            case after of [] \<Rightarrow> str_len content | l # _ \<Rightarrow> line_start l))"

definition replacement_value :: "unicode \<Rightarrow> rstr \<Rightarrow> rstr \<Rightarrow> bool \<Rightarrow> bool \<Rightarrow> range \<Rightarrow> line_kind \<Rightarrow> rstr" where
  "replacement_value u content newline at_start at_end r kind =
     (case kind of
        Separator \<Rightarrow> separator_value at_start at_end newline
      | ListParagraph _ \<Rightarrow> transform_indented_group (slice content (fst r) (snd r)) newline
      | _ \<Rightarrow> transform_group u (slice content (fst r) (snd r)) newline)"

function plan_loop :: "unicode \<Rightarrow> rstr \<Rightarrow> rstr \<Rightarrow> logical_line option \<Rightarrow> range list \<Rightarrow> (logical_line \<times> line_kind) list \<Rightarrow> text_replacement list" where
  "plan_loop u content newline previous ps [] = []"
| "plan_loop u content newline previous ps ((l, kind) # rest) =
     (let run = l # map fst (takeWhile (\<lambda>(_, k). k = kind) rest);
          after = dropWhile (\<lambda>(_, k). k = kind) rest;
          r = replacement_range content previous run (map fst after) kind in
      if kind = Protected then plan_loop u content newline (Some (last run)) ps after
      else (let ps' = skip_protected (fst r) ps in
        if (case ps' of [] \<Rightarrow> False | p # _ \<Rightarrow> ranges_intersect r p)
        then plan_loop u content newline (Some (last run)) ps' after
        else (let value = replacement_value u content newline (previous = None) (after = []) r kind in
          (if slice content (fst r) (snd r) \<noteq> value then [\<lparr>rp_old = r, rp_value = value\<rparr>] else [])
          @ plan_loop u content newline (Some (last run)) ps' after)))"
  by pat_completeness auto
termination by (relation "measure (\<lambda>(_, _, _, _, _, xs). length xs)") (auto simp: length_dropWhile_le le_imp_less_Suc)

definition plan_replacements :: "unicode \<Rightarrow> rstr \<Rightarrow> logical_line list \<Rightarrow> line_kind list \<Rightarrow> range list \<Rightarrow> rstr \<Rightarrow> text_replacement list" where
  "plan_replacements u content ls kinds protected newline = plan_loop u content newline None protected (zip ls kinds)"

text \<open>The loop keeps the output, the end of the last replacement and the ranges already mapped.\<close>

definition apply_replacement :: "rstr \<Rightarrow> rstr \<times> nat \<times> (range \<times> range) list \<Rightarrow> text_replacement \<Rightarrow> rstr \<times> nat \<times> (range \<times> range) list" where
  "apply_replacement content = (\<lambda>(output, cursor, mapped) r.
     (let output1 = output @ slice content cursor (fst (rp_old r)); output2 = output1 @ rp_value r in
      (output2, snd (rp_old r), mapped @ [(rp_old r, (str_len output1, str_len output2))])))"

definition changes_between :: "rstr \<Rightarrow> rstr \<Rightarrow> (range \<times> range) list \<Rightarrow> reflow_error + text_change_set" where
  "changes_between content output mapped =
     map_err ReflowTextChange (try_bind (try_map (\<lambda>(old, new). new_text_change content output old new) mapped) (\<lambda>changes.
       new_change_set content output changes))"

definition apply_replacements :: "rstr \<Rightarrow> text_replacement list \<Rightarrow> reflow_error + reflowed_text" where
  "apply_replacements content rs =
     (let (output, cursor, mapped) = foldl (apply_replacement content) ([], 0, []) rs;
          output = output @ slice_from content cursor in
      try_bind (changes_between content output mapped) (\<lambda>changes.
        Inr \<lparr>rt_content = output, rt_changes = changes, rt_isolated = []\<rparr>))"

definition reflow_slice :: "unicode \<Rightarrow> rstr \<Rightarrow> range list \<Rightarrow> rstr \<Rightarrow> reflow_error + reflowed_text" where
  "reflow_slice u content protected newline =
     (let ls = logical_lines content in
      apply_replacements content (plan_replacements u content ls (classify_lines u content ls protected) protected newline))"

definition unchanged_text :: "rstr \<Rightarrow> range list \<Rightarrow> reflowed_text" where
  "unchanged_text content isolated =
     \<lparr>rt_content = content, rt_changes = unchanged_set (str_len content), rt_isolated = map (\<lambda>r. (r, r)) isolated\<rparr>"

fun contains_unsupported_control :: "rstr \<Rightarrow> bool" where
  "contains_unsupported_control [] = False"
| "contains_unsupported_control (c # s) \<longleftrightarrow>
     is_control c \<and> c \<noteq> 10 \<and> c \<noteq> 13 \<and> c \<noteq> 9
     \<or> c = 0x2028 \<or> c = 0x2029
     \<or> c = 13 \<and> (case s of d # _ \<Rightarrow> d \<noteq> 10 | [] \<Rightarrow> True)
     \<or> contains_unsupported_control s"

definition preferred_newline :: "rstr \<Rightarrow> rstr" where
  "preferred_newline content = (if contains_str content [13, 10] then [13, 10] else [10])"

section \<open>Isolated ranges\<close>

definition is_boundary_whitespace :: "nat \<Rightarrow> bool" where
  "is_boundary_whitespace c \<longleftrightarrow> c = 32 \<or> c = 9 \<or> c = 13 \<or> c = 10"

definition partition_core :: "rstr \<Rightarrow> range" where
  "partition_core value =
     (let start = str_len (takeWhile is_boundary_whitespace value);
          e = (if list_all is_boundary_whitespace value then start
               else str_len value - str_len (takeWhile is_boundary_whitespace (rev value))) in
      (start, max e start))"

fun dedup :: "nat list \<Rightarrow> nat list" where
  "dedup (x # y # xs) = (if x = y then dedup (y # xs) else x # dedup (y # xs))"
| "dedup xs = xs"

fun isolated_points :: "rstr \<Rightarrow> nat \<Rightarrow> range list \<Rightarrow> reflow_error + nat list" where
  "isolated_points content prior_end [] = Inr []"
| "isolated_points content prior_end (r # rs) =
     (if fst r < prior_end \<or> fst r > snd r \<or> snd r > str_len content
         \<or> \<not> is_char_boundary content (fst r) \<or> \<not> is_char_boundary content (snd r)
      then Inl ReflowInvalidBoundary
      else try_bind (isolated_points content (snd r) rs) (\<lambda>points. Inr (fst r # snd r # points)))"

definition partition_points :: "rstr \<Rightarrow> range list \<Rightarrow> reflow_error + nat list" where
  "partition_points content isolated =
     try_bind (isolated_points content 0 isolated) (\<lambda>points. Inr (dedup (0 # points @ [str_len content])))"

text \<open>The protected ranges within the core, relative to its start, and the ranges left for the next core.\<close>

fun local_ranges :: "range list \<Rightarrow> range \<Rightarrow> range list \<times> range list" where
  "local_ranges [] core = ([], [])"
| "local_ranges (p # ps) core =
     (if fst p \<ge> snd core then ([], p # ps)
      else (let start = max (fst p) (fst core) - fst core; e = min (snd p) (snd core) - fst core;
                own = (if start < e then [(start, e)] else []) in
        if snd p > snd core then (own, p # ps)
        else (let (more, rest) = local_ranges ps core in (own @ more, rest))))"

definition local_protected_ranges :: "range list \<Rightarrow> range \<Rightarrow> range list \<times> range list" where
  "local_protected_ranges ps core = local_ranges (skip_protected (fst core) ps) core"

definition intersects_protected :: "range \<Rightarrow> range list \<Rightarrow> bool" where
  "intersects_protected r protected = (case skip_protected (fst r) protected of [] \<Rightarrow> False | p # _ \<Rightarrow> fst p < snd r)"

definition count_breaks :: "rstr \<Rightarrow> range list \<Rightarrow> nat" where
  "count_breaks content pending = sum_list (map (\<lambda>r. length (filter (\<lambda>c. c = 10) (slice content (fst r) (snd r)))) pending)"

record reflow_state =
  rs_output :: rstr
  rs_mapped :: "(range \<times> range) list"
  rs_pending :: "range list"
  rs_protected :: "range list"
  rs_has_content :: bool
  rs_isolated_old :: "range list"
  rs_isolated_new :: "range option list"

definition new_reflow_state :: "range list \<Rightarrow> range list \<Rightarrow> reflow_state" where
  "new_reflow_state protected isolated =
     \<lparr>rs_output = [], rs_mapped = [], rs_pending = [], rs_protected = protected, rs_has_content = False,
      rs_isolated_old = isolated, rs_isolated_new = replicate (length isolated) None\<rparr>"

definition queue_whitespace :: "range \<Rightarrow> reflow_state \<Rightarrow> reflow_state" where
  "queue_whitespace r s = (if fst r < snd r then s\<lparr>rs_pending := rs_pending s @ [r]\<rparr> else s)"

definition note_owner :: "nat option \<Rightarrow> range \<Rightarrow> reflow_state \<Rightarrow> reflow_state" where
  "note_owner owner new s =
     (case owner of None \<Rightarrow> s
      | Some k \<Rightarrow> s\<lparr>rs_isolated_new := (rs_isolated_new s)[k := Some (case rs_isolated_new s ! k of
            None \<Rightarrow> new | Some old \<Rightarrow> (min (fst old) (fst new), max (snd old) (snd new)))]\<rparr>)"

definition flush_whitespace :: "rstr \<Rightarrow> range list \<Rightarrow> rstr \<Rightarrow> bool \<Rightarrow> reflow_state \<Rightarrow> reflow_state" where
  "flush_whitespace content protected newline trailing s =
     (if rs_pending s = [] then s
      else (let pending = rs_pending s;
                old = (fst (hd pending), snd (last pending));
                separator = (if intersects_protected old protected then slice content (fst old) (snd old)
                  else if \<not> rs_has_content s \<or> trailing then []
                  else (case count_breaks content pending of 0 \<Rightarrow> [32] | Suc 0 \<Rightarrow> newline | _ \<Rightarrow> newline @ newline));
                output = rs_output s @ separator in
        s\<lparr>rs_pending := [], rs_output := output,
           rs_mapped := rs_mapped s @ (if slice content (fst old) (snd old) \<noteq> separator
             then [(old, (str_len (rs_output s), str_len output))] else [])\<rparr>))"

definition offset_range :: "range \<Rightarrow> nat \<Rightarrow> range" where
  "offset_range r base = (base + fst r, base + snd r)"

definition append_partition :: "unicode \<Rightarrow> rstr \<Rightarrow> range list \<Rightarrow> rstr \<Rightarrow> range \<times> nat option \<Rightarrow> reflow_state
    \<Rightarrow> reflow_error + reflow_state" where
  "append_partition u content protected newline = (\<lambda>(part, owner) s.
     (let core = partition_core (slice content (fst part) (snd part));
          old_base = fst part + fst core;
          old_end = fst part + snd core;
          s = queue_whitespace (fst part, old_base) s in
      try_bind (if old_base < old_end
        then (let s = flush_whitespace content protected newline False s;
                  (own, rest) = local_protected_ranges (rs_protected s) (old_base, old_end) in
          try_bind (reflow_slice u (slice content old_base old_end) own newline) (\<lambda>transformed.
            (let new_base = str_len (rs_output s);
                 output = rs_output s @ rt_content transformed;
                 s = note_owner owner (new_base, str_len output) (s\<lparr>rs_output := output, rs_protected := rest\<rparr>) in
             Inr (s\<lparr>rs_mapped := rs_mapped s @ map (\<lambda>c. (offset_range (old_range c) old_base, offset_range (new_range c) new_base))
                    (set_changes (rt_changes transformed)),
                  rs_has_content := True\<rparr>))))
        else Inr (note_owner owner (str_len (rs_output s), str_len (rs_output s)) s)) (\<lambda>s.
        Inr (queue_whitespace (old_end, snd part) s))))"

text \<open>Consecutive points are the partitions; each isolated range owns the partition it is equal to.\<close>

fun partitions :: "nat \<Rightarrow> range list \<Rightarrow> nat list \<Rightarrow> (range \<times> nat option) list" where
  "partitions k isolated (a # b # points) =
     (case isolated of
        r # rs \<Rightarrow> if r = (a, b) then ((a, b), Some k) # partitions (Suc k) rs (b # points)
                   else ((a, b), None) # partitions k isolated (b # points)
      | [] \<Rightarrow> ((a, b), None) # partitions k [] (b # points))"
| "partitions k isolated points = []"

fun coalesce_from :: "range \<times> range \<Rightarrow> (range \<times> range) list \<Rightarrow> (range \<times> range) list" where
  "coalesce_from prior [] = [prior]"
| "coalesce_from (po, pn) ((old, new) # ms) =
     (if fst old = snd po \<or> fst new = snd pn
      then coalesce_from ((fst po, snd old), (fst pn, snd new)) ms
      else (po, pn) # coalesce_from (old, new) ms)"

fun coalesce_mappings :: "(range \<times> range) list \<Rightarrow> (range \<times> range) list" where
  "coalesce_mappings [] = []"
| "coalesce_mappings (m # ms) = coalesce_from m ms"

definition finish_reflow :: "rstr \<Rightarrow> range list \<Rightarrow> reflow_state \<Rightarrow> reflow_error + reflowed_text" where
  "finish_reflow content protected s =
     (let s = flush_whitespace content protected (preferred_newline content) True s;
          mapped = coalesce_mappings (sort_key (fst \<circ> fst) (rs_mapped s)) in
      try_bind (changes_between content (rs_output s) mapped) (\<lambda>changes.
        Inr \<lparr>rt_content = rs_output s, rt_changes = changes,
              rt_isolated = List.map_filter (\<lambda>(old, new). map_option (Pair old) new) (zip (rs_isolated_old s) (rs_isolated_new s))\<rparr>))"

definition reflow_text_isolated :: "unicode \<Rightarrow> rstr \<Rightarrow> range list \<Rightarrow> range list \<Rightarrow> reflow_error + reflowed_text" where
  "reflow_text_isolated u content protected isolated =
     (if contains_unsupported_control content then Inr (unchanged_text content isolated)
      else (let newline = preferred_newline content in
        if isolated = [] then reflow_slice u content protected newline
        else try_bind (partition_points content isolated) (\<lambda>points.
             try_bind (try_fold (\<lambda>s p. append_partition u content protected newline p s) (new_reflow_state protected isolated)
                (partitions 0 isolated points)) (\<lambda>s.
               finish_reflow content protected s))))"

section \<open>Positions within a replacement\<close>

definition layout_prefix :: "rstr \<Rightarrow> nat" where
  "layout_prefix value = str_len (takeWhile is_boundary_whitespace value)"

text \<open>The loop over one group, on the text left of both sides and the offsets reached. Common characters are kept, and
  whitespace on either side becomes a change; no progress is an error.\<close>

function position_loop :: "nat \<Rightarrow> nat \<Rightarrow> rstr \<Rightarrow> rstr \<Rightarrow> reflow_error + (range \<times> range) list" where
  "position_loop source target xs ys =
     (if xs = [] \<and> ys = [] then Inr []
      else if xs \<noteq> [] \<and> ys \<noteq> [] \<and> hd xs = hd ys
      then position_loop (source + utf8_len (hd xs)) (target + utf8_len (hd xs)) (tl xs) (tl ys)
      else if layout_prefix xs = 0 \<and> layout_prefix ys = 0 then Inl ReflowInvalidBoundary
      else try_bind (position_loop (source + layout_prefix xs) (target + layout_prefix ys)
              (dropWhile is_boundary_whitespace xs) (dropWhile is_boundary_whitespace ys)) (\<lambda>changes.
            Inr (((source, source + layout_prefix xs), (target, target + layout_prefix ys)) # changes)))"
  by pat_completeness auto

termination
proof (relation "measure (\<lambda>(_, _, xs, ys). length xs + length ys)", goal_cases)
  case (2 source target xs ys)
  then show ?case by (cases xs; cases ys) auto
next
  case (3 source target xs ys)
  have "takeWhile is_boundary_whitespace xs \<noteq> [] \<or> takeWhile is_boundary_whitespace ys \<noteq> []"
    using 3 by (auto simp: layout_prefix_def)
  moreover have "length zs = length (takeWhile is_boundary_whitespace zs) + length (dropWhile is_boundary_whitespace zs)" for zs
    by (metis length_append takeWhile_dropWhile_id)
  ultimately have "length (dropWhile is_boundary_whitespace xs) + length (dropWhile is_boundary_whitespace ys) < length xs + length ys"
    by (metis add.commute add_le_less_mono add_less_le_mono length_greater_0_conv length_dropWhile_le less_add_same_cancel2)
  then show ?case by simp
qed simp

declare position_loop.simps [simp del]

definition position_changes :: "rstr \<Rightarrow> rstr \<Rightarrow> text_change_set \<Rightarrow> reflow_error + text_change_set" where
  "position_changes before after groups =
     try_bind (try_map (\<lambda>c. position_loop (fst (old_range c)) (fst (new_range c))
         (slice before (fst (old_range c)) (snd (old_range c))) (slice after (fst (new_range c)) (snd (new_range c))))
       (set_changes groups)) (\<lambda>changes.
       changes_between before after (coalesce_mappings (concat changes)))"

section \<open>Annotations\<close>

definition LARGE_PASTE_LINES :: nat where
  "LARGE_PASTE_LINES = 12"

definition LARGE_PASTE_GRAPHEMES :: nat where
  "LARGE_PASTE_GRAPHEMES = 1200"

fun is_large :: "content_annotation \<Rightarrow> bool" where
  "is_large a \<longleftrightarrow> (case ann_kind a of LargePaste _ _ \<Rightarrow> True | _ \<Rightarrow> False)"

text \<open>The number of lines \<open>str::lines\<close> yields: a newline at the end opens no further line.\<close>

definition lines_count :: "rstr \<Rightarrow> nat" where
  "lines_count s = (let pieces = split_on (\<lambda>c. c = 10) s in if last pieces = [] then length pieces - 1 else length pieces)"

definition large_paste_annotation :: "unicode \<Rightarrow> rstr \<Rightarrow> nat \<Rightarrow> nat \<Rightarrow> content_annotation option" where
  "large_paste_annotation u content start e =
     Option.bind (str_get content start e) (\<lambda>value.
       (let ls = max (lines_count value) 1; gs = length (graphemes_of u value) in
        if value \<noteq> [] \<and> (ls \<ge> LARGE_PASTE_LINES \<or> gs \<ge> LARGE_PASTE_GRAPHEMES)
        then Some \<lparr>ann_start = start, ann_end = e, ann_kind = LargePaste ls gs\<rparr> else None))"

text \<open>The mapper walks the changes once; \<open>None\<close> is an offset that lies before its cursor.\<close>

record offset_mapper =
  om_changes :: "text_change list"
  om_index :: nat
  om_old_cursor :: nat
  om_new_cursor :: nat

definition new_mapper :: "text_change list \<Rightarrow> offset_mapper" where
  "new_mapper cs = \<lparr>om_changes = cs, om_index = 0, om_old_cursor = 0, om_new_cursor = 0\<rparr>"

definition moved_offset :: "offset_mapper \<Rightarrow> nat \<Rightarrow> nat option" where
  "moved_offset m offset = (if om_old_cursor m \<le> offset then Some (om_new_cursor m + (offset - om_old_cursor m)) else None)"

function map_offset_streaming :: "offset_mapper \<Rightarrow> nat \<Rightarrow> offset_affinity \<Rightarrow> nat option \<times> offset_mapper" where
  "map_offset_streaming m offset affinity =
     (if om_index m < length (om_changes m)
      then (let c = om_changes m ! om_index m in
        if offset < fst (old_range c) then (moved_offset m offset, m)
        else if is_insertion c \<and> offset = fst (old_range c) then (Some (edge affinity c), m)
        else if offset < snd (old_range c) then (Some (edge affinity c), m)
        else map_offset_streaming (m\<lparr>om_old_cursor := snd (old_range c), om_new_cursor := snd (new_range c),
               om_index := om_index m + 1\<rparr>) offset affinity)
      else (moved_offset m offset, m))"
  by pat_completeness auto
termination by (relation "measure (\<lambda>(m, _, _). length (om_changes m) - om_index m)") auto

declare map_offset_streaming.simps [simp del]

text \<open>One annotation: a large paste takes the next isolated range and may stop being large, any other one must keep its
  text.\<close>

definition reflow_annotation :: "unicode \<Rightarrow> rstr \<Rightarrow> rstr \<Rightarrow> content_annotation
    \<Rightarrow> offset_mapper \<times> (range \<times> range) list \<Rightarrow> domain_error + content_annotation option \<times> offset_mapper \<times> (range \<times> range) list" where
  "reflow_annotation u content output a = (\<lambda>(mapper, isolated).
     if is_large a
     then (case isolated of
         [] \<Rightarrow> Inl InvalidContentAnnotation
       | (old, new) # rest \<Rightarrow>
           if old \<noteq> (ann_start a, ann_end a) then Inl InvalidContentAnnotation
           else Inr (large_paste_annotation u output (fst new) (snd new), mapper, rest))
     else (let (start, mapper) = map_offset_streaming mapper (ann_start a) AffinityAfter in
       try_bind (ok_or InvalidContentAnnotation start) (\<lambda>start.
       (let (e, mapper) = map_offset_streaming mapper (ann_end a) AffinityBefore in
       try_bind (ok_or InvalidContentAnnotation e) (\<lambda>e.
         if str_get content (ann_start a) (ann_end a) = None
            \<or> str_get content (ann_start a) (ann_end a) \<noteq> str_get output start e
         then Inl InvalidContentAnnotation
         else Inr (Some \<lparr>ann_start = start, ann_end = e, ann_kind = ann_kind a\<rparr>, mapper, isolated))))))"

fun reflow_annotation_loop :: "unicode \<Rightarrow> rstr \<Rightarrow> rstr \<Rightarrow> nat \<Rightarrow> content_annotation list
    \<Rightarrow> offset_mapper \<times> (range \<times> range) list \<Rightarrow> content_annotation list \<times> (nat \<times> nat) list
    \<Rightarrow> domain_error + content_annotation list \<times> (nat \<times> nat) list" where
  "reflow_annotation_loop u content output index [] (mapper, isolated) result =
     (if isolated \<noteq> [] then Inl InvalidContentAnnotation
      else try_bind (validate_annotations output (fst result)) (\<lambda>_. Inr result))"
| "reflow_annotation_loop u content output index (a # as) state (annotations, origins) =
     try_bind (reflow_annotation u content output a state) (\<lambda>(new, state).
       reflow_annotation_loop u content output (index + 1) as state
         (case new of None \<Rightarrow> (annotations, origins)
          | Some b \<Rightarrow> (annotations @ [b], origins @ [(index, length annotations)])))"

definition reflow_annotations :: "unicode \<Rightarrow> rstr \<Rightarrow> content_annotation list \<Rightarrow> reflowed_text
    \<Rightarrow> domain_error + content_annotation list \<times> (nat \<times> nat) list" where
  "reflow_annotations u content annotations transformed =
     reflow_annotation_loop u content (rt_content transformed) 0 annotations
       (new_mapper (set_changes (rt_changes transformed)), rt_isolated transformed) ([], [])"

datatype text_reflow_outcome = TextChanged rstr "content_annotation list" | TextUnchanged | TextEmpty

record text_reflow_projection =
  tr_outcome :: text_reflow_outcome
  tr_changes :: text_change_set
  tr_origins :: "(nat \<times> nat) list"

definition reflow :: "unicode \<Rightarrow> rstr \<Rightarrow> content_annotation list \<Rightarrow> unit + text_reflow_projection" where
  "reflow u content annotations =
     try_bind (map_err (\<lambda>_. ()) (validate_annotations content annotations)) (\<lambda>_.
     (let protected = map (\<lambda>a. (ann_start a, ann_end a)) (filter (\<lambda>a. \<not> is_large a) annotations);
          isolated = map (\<lambda>a. (ann_start a, ann_end a)) (filter is_large annotations) in
      try_bind (map_err (\<lambda>_. ()) (reflow_text_isolated u content protected isolated)) (\<lambda>transformed.
      if rt_content transformed = []
      then Inr \<lparr>tr_outcome = TextEmpty, tr_changes = rt_changes transformed, tr_origins = []\<rparr>
      else try_bind (map_err (\<lambda>_. ()) (reflow_annotations u content annotations transformed)) (\<lambda>(new, origins).
        if set_changes (rt_changes transformed) = [] \<and> new = annotations
        then Inr \<lparr>tr_outcome = TextUnchanged, tr_changes = rt_changes transformed, tr_origins = origins\<rparr>
        else Inr \<lparr>tr_outcome = TextChanged (rt_content transformed) new, tr_changes = rt_changes transformed,
                    tr_origins = origins\<rparr>))))"

end
