(* ===== verification/Reflow_Ink.thy ===== *)
theory Reflow_Ink
  imports Text_Reflow
begin

text \<open>
  What the cleanup of spacing keeps: the characters of a text other than blanks and line breaks, in their
  order. The lemmas follow the transformation from one collapsed line up to whole texts with isolated ranges.
\<close>

definition ink :: "rstr \<Rightarrow> rstr" where
  "ink s = filter (\<lambda>c. \<not> is_boundary_whitespace c) s"

lemma ink_simps [simp]:
  "ink [] = []" "ink (s @ t) = ink s @ ink t"
  "ink (c # s) = (if is_boundary_whitespace c then ink s else c # ink s)"
  by (simp_all add: ink_def)

lemma ink_concat: "ink (concat xs) = concat (map ink xs)"
  by (induction xs) simp_all

lemma blank_whitespace [simp]: "is_blank c \<Longrightarrow> is_boundary_whitespace c"
  by (auto simp: is_blank_def is_boundary_whitespace_def)

lemma ink_dropWhile: "(\<And>c. P c \<Longrightarrow> is_boundary_whitespace c) \<Longrightarrow> ink (dropWhile P s) = ink s"
  by (induction s) auto

lemma ink_takeWhile: "(\<And>c. P c \<Longrightarrow> is_boundary_whitespace c) \<Longrightarrow> ink (takeWhile P s) = []"
  by (induction s) auto

lemma ink_rev: "ink (rev s) = rev (ink s)"
  by (simp add: ink_def rev_filter)

lemma ink_trim [simp]: "ink (trim_blanks s) = ink s"
proof -
  have "ink (trim_blanks s) = rev (ink (dropWhile is_blank (rev (dropWhile is_blank s))))" by (simp add: trim_blanks_def ink_rev)
  also have "\<dots> = rev (ink (rev (dropWhile is_blank s)))" by (subst ink_dropWhile) simp_all
  also have "\<dots> = ink s" by (simp add: ink_rev ink_dropWhile)
  finally show ?thesis .
qed

lemma ink_empty_iff: "ink s = [] \<longleftrightarrow> list_all is_boundary_whitespace s"
  by (induction s) auto

section \<open>Slices\<close>

lemma slice_mid: "slice (p @ t @ q) (str_len p) (str_len p + str_len t) = t"
  using str_get_Some_iff [of "p @ t @ q" "str_len p" "str_len p + str_len t" t] by (auto simp: slice_def)

lemma slice_to_append: "slice_to (p @ q) (str_len p) = p"
  using get_to_Some_iff [of "p @ q" "str_len p" p] by (auto simp: slice_to_def)

lemma slice_from_append: "slice_from (p @ q) (str_len p) = q"
  using get_from_Some_iff [of "p @ q" "str_len p" q] by (auto simp: slice_from_def)

lemma blank_cut:
  "slice_to s (whitespace_prefix s) = takeWhile is_blank s" "slice_from s (whitespace_prefix s) = dropWhile is_blank s"
  using slice_to_append [of "takeWhile is_blank s" "dropWhile is_blank s"] slice_from_append [of "takeWhile is_blank s" "dropWhile is_blank s"]
  by (simp_all add: whitespace_prefix_def)

section \<open>Collapsed lines\<close>

lemma ink_collapse_fold: "ink (fst (fold collapse_step s acc)) = ink (fst acc) @ ink s"
proof (induction s arbitrary: acc)
  case (Cons c s)
  have "ink (fst (collapse_step c acc)) = ink (fst acc) @ ink [c]"
    by (cases acc) (auto simp: collapse_step_def is_boundary_whitespace_def is_blank_def)
  then show ?case using Cons.IH [of "collapse_step c acc"] by simp
qed simp

lemma ink_collapse [simp]: "ink (collapse_inline s) = ink s"
  by (simp add: collapse_inline_def ink_collapse_fold)

lemma ink_join: "ink newline = [] \<Longrightarrow> ink (join newline ls) = concat (map ink ls)"
  by (induction ls rule: induct_list012) simp_all

lemma ink_nonempty: "concat (map ink (filter (\<lambda>l. l \<noteq> []) ls)) = concat (map ink ls)"
  by (induction ls) auto

lemma ink_indented: "(case indented txt of None \<Rightarrow> [] | Some s \<Rightarrow> ink s) = ink txt"
proof -
  have "ink txt = ink (takeWhile is_blank txt @ dropWhile is_blank txt)" by simp
  also have "\<dots> = ink (collapse_inline (dropWhile is_blank txt))" by (simp add: ink_takeWhile ink_dropWhile)
  finally have e: "ink (collapse_inline (dropWhile is_blank txt)) = ink txt" by simp
  show ?thesis
  proof (cases "collapse_inline (dropWhile is_blank txt) = []")
    case True
    then have "ink txt = []" using e by (metis ink_simps(1))
    then show ?thesis using True by (simp add: indented_def Let_def blank_cut)
  next
    case False
    then show ?thesis using e by (simp add: indented_def Let_def blank_cut ink_takeWhile)
  qed
qed

lemma ink_map_filter: "(\<And>x. (case f x of None \<Rightarrow> [] | Some s \<Rightarrow> ink s) = g x) \<Longrightarrow> concat (map ink (List.map_filter f xs)) = concat (map g xs)"
proof (induction xs)
  case (Cons x xs)
  show ?case using Cons.IH [OF Cons.prems] Cons.prems [of x, symmetric] by (cases "f x") (simp_all add: List.map_filter_simps)
qed (simp add: List.map_filter_simps)

section \<open>Logical lines\<close>

text \<open>The lines of a text are the pieces of a partition of it, each with its terminator.\<close>

fun placed :: "nat \<Rightarrow> (rstr \<times> rstr) list \<Rightarrow> logical_line list" where
  "placed k [] = []"
| "placed k ((t, e) # ps) = \<lparr>line_start = k, content_end = k + str_len t, line_end = k + str_len t + str_len e\<rparr>
     # placed (k + str_len t + str_len e) ps"

definition whole :: "(rstr \<times> rstr) list \<Rightarrow> rstr" where
  "whole ps = concat (map (\<lambda>(t, e). t @ e) ps)"

lemma whole_simps [simp]: "whole [] = []" "whole ((t, e) # ps) = t @ e @ whole ps" "whole (ps @ qs) = whole ps @ whole qs"
  by (simp_all add: whole_def)

definition terminator :: "rstr \<Rightarrow> bool" where
  "terminator e \<longleftrightarrow> e \<in> {[], [10], [13, 10], [0x2028], [0x2029]}"

lemma lines_from_placed:
  assumes "w \<noteq> [] \<longrightarrow> previous = Some (last w)"
  shows "\<exists>ps. lines_from (k + str_len w) k previous s = placed k ps \<and> w @ s = whole ps \<and> ps \<noteq> []
    \<and> (\<forall>(t, e) \<in> set ps. terminator e)"
  using assms
proof (induction s arbitrary: w k previous)
  case Nil
  show ?case by (rule exI [of _ "[(w, [])]"]) (simp add: terminator_def)
next
  case (Cons c s)
  show ?case
  proof (cases "is_separator_char c")
    case False
    have "\<exists>ps. lines_from (k + str_len (w @ [c])) k (Some c) s = placed k ps \<and> (w @ [c]) @ s = whole ps \<and> ps \<noteq> []
        \<and> (\<forall>(t, e) \<in> set ps. terminator e)" by (rule Cons.IH) simp
    then show ?thesis using False by (simp add: add.assoc)
  next
    case True
    let ?cr = "c = 10 \<and> w \<noteq> [] \<and> last w = 13"
    define t where "t = (if ?cr then butlast w else w)"
    define e where "e = (if ?cr then [13, c] else [c])"
    have te: "t @ e = w @ [c]"
    proof (cases ?cr)
      case cr: True
      then have "butlast w @ [13] = w" using append_butlast_last_id [of w] by simp
      then show ?thesis using cr by (simp add: t_def e_def)
    next
      case False
      then have "t = w" "e = [c]" unfolding t_def e_def by (simp_all only: if_False)
      then show ?thesis by simp
    qed
    have len: "str_len t + str_len e = str_len w + utf8_len c" using arg_cong [OF te, of str_len] by simp
    have e13: "?cr \<Longrightarrow> str_len w = str_len t + 1"
    proof -
      assume cr: ?cr
      then have "butlast w @ [13] = w" using append_butlast_last_id [of w] by simp
      from arg_cong [OF this, of str_len] show ?thesis using cr by (simp add: t_def utf8_len_def)
    qed
    obtain ps where ps: "lines_from (k + (str_len w + utf8_len c)) (k + (str_len w + utf8_len c)) (Some c) s = placed (k + (str_len w + utf8_len c)) ps"
      "s = whole ps" "ps \<noteq> []" "\<forall>(t, e) \<in> set ps. terminator e"
      using Cons.IH [of "[]" "Some c" "k + (str_len w + utf8_len c)"] by auto
    have "lines_from (k + str_len w) k previous (c # s) = placed k ((t, e) # ps)"
    proof -
      have pr: "k < k + str_len w \<and> previous = Some 13 \<longleftrightarrow> w \<noteq> [] \<and> last w = 13"
        using Cons.prems str_len_0_iff [of w] by (auto simp del: str_len_0_iff)
      have ce: "(if c = 10 \<and> k < k + str_len w \<and> previous = Some 13 then k + str_len w - 1 else k + str_len w) = k + str_len t"
        using e13 unfolding pr by (auto simp: t_def)
      show ?thesis using True ps(1) ce len by (simp add: add.assoc)
    qed
    moreover have "w @ c # s = whole ((t, e) # ps)" using te ps(2) by simp
    moreover have "terminator e" using True by (auto simp: e_def terminator_def is_separator_char_def)
    ultimately show ?thesis using ps(3,4) by (intro exI [of _ "(t, e) # ps"]) auto
  qed
qed

lemma logical_lines_placed:
  obtains ps where "logical_lines s = placed 0 ps" "s = whole ps" "ps \<noteq> []" "\<forall>(t, e) \<in> set ps. terminator e"
  using lines_from_placed [of "[]" None 0 s] by (auto simp: logical_lines_def)

lemma length_placed [simp]: "length (placed k ps) = length ps"
  by (induction k ps rule: placed.induct) simp_all

lemma placed_append: "placed k (ps @ qs) = placed k ps @ placed (k + str_len (whole ps)) qs"
  by (induction k ps rule: placed.induct) (simp_all add: add.assoc)

lemma placed_texts: "map (line_text (p @ whole ps @ q)) (placed (str_len p) ps) = map fst ps"
proof (induction ps arbitrary: p)
  case (Cons x ps)
  obtain t e where x: "x = (t, e)" by force
  have "slice (p @ t @ (e @ whole ps @ q)) (str_len p) (str_len p + str_len t) = t" by (rule slice_mid)
  then have "line_text (p @ t @ e @ whole ps @ q) \<lparr>line_start = str_len p, content_end = str_len p + str_len t,
      line_end = str_len p + str_len t + str_len e\<rparr> = t" by (simp add: line_text_def)
  moreover have "map (line_text ((p @ t @ e) @ whole ps @ q)) (placed (str_len (p @ t @ e)) ps) = map fst ps" by (rule Cons.IH)
  ultimately show ?case by (simp add: x add.assoc)
qed simp

text \<open>Texts whose only line terminators are newlines, alone or after a carriage return.\<close>

definition plain :: "rstr \<Rightarrow> bool" where
  "plain s \<longleftrightarrow> 0x2028 \<notin> set s \<and> 0x2029 \<notin> set s"

lemma plain_simps [simp]: "plain (s @ t) \<longleftrightarrow> plain s \<and> plain t" "plain []"
  by (auto simp: plain_def)

lemma supported_plain: "\<not> contains_unsupported_control s \<Longrightarrow> plain s"
  by (induction s) (auto simp: plain_def)

lemma ink_terminator: "terminator e \<Longrightarrow> plain e \<Longrightarrow> ink e = []"
  by (auto simp: terminator_def plain_def is_boundary_whitespace_def)

lemma ink_whole: "\<forall>(t, e) \<in> set ps. terminator e \<Longrightarrow> plain (whole ps) \<Longrightarrow> ink (whole ps) = concat (map (\<lambda>p. ink (fst p)) ps)"
  by (induction ps) (auto simp: ink_terminator)

lemma lines_texts:
  assumes "plain s"
  shows "concat (map (\<lambda>l. ink (line_text s l)) (logical_lines s)) = ink s"
proof -
  obtain ps where ps: "logical_lines s = placed 0 ps" "s = whole ps" "\<forall>(t, e) \<in> set ps. terminator e" by (rule logical_lines_placed)
  have "map (line_text s) (logical_lines s) = map fst ps" using placed_texts [of "[]" ps "[]"] ps by simp
  from arg_cong [OF this, of "\<lambda>xs. concat (map ink xs)"] show ?thesis
    using ink_whole [OF ps(3)] assms by (simp add: ps(2) [symmetric] comp_def)
qed

section \<open>Groups of lines\<close>

lemma parse_base_marker_cut:
  assumes "parse_base_marker rest = Some (mk, mend)"
  shows "\<exists>tail. rest = marker_text mk @ tail \<and> str_len (marker_text mk) = mend
      \<and> mend = (case mk of Bullet c \<Rightarrow> utf8_len c | Ordered number delimiter \<Rightarrow> str_len number + utf8_len delimiter)"
proof (cases rest)
  case Nil
  then show ?thesis using assms by (simp add: parse_base_marker_def)
next
  case (Cons c cs)
  show ?thesis
  proof (cases "c = 45 \<or> c = 42 \<or> c = 43")
    case True
    then have "mk = Bullet c" "mend = utf8_len c" using assms by (simp_all add: parse_base_marker_def Cons)
    then show ?thesis by (simp add: Cons)
  next
    case False
    let ?D = "takeWhile is_digit (take 9 rest)"
    have one: "str_len ds = length ds" if "list_all is_digit ds" for ds
      using that by (induction ds) (auto simp: is_digit_def utf8_len_def)
    have "list_all is_digit ?D" by (auto simp: list_all_iff dest: set_takeWhileD)
    then have len: "str_len ?D = length ?D" by (rule one)
    have "take (length ?D) (take 9 rest) = ?D" by (metis takeWhile_eq_take)
    moreover have "length ?D \<le> 9" using length_takeWhile_le [of is_digit "take 9 rest"] by simp
    ultimately have "take (length ?D) rest = ?D" by (simp add: min_absorb1)
    then have r: "rest = ?D @ drop (length ?D) rest" by (metis append_take_drop_id)
    have cuts: "slice_from rest (length ?D) = drop (length ?D) rest" "slice_to rest (length ?D) = ?D"
      using slice_from_append [of ?D "drop (length ?D) rest"] slice_to_append [of ?D "drop (length ?D) rest"] r len by simp_all
    obtain d ds where d: "drop (length ?D) rest = d # ds" "mk = Ordered ?D d" "mend = length ?D + utf8_len d"
      using assms False unfolding parse_base_marker_def Let_def cuts
      by (auto simp: Cons split: if_splits list.splits)
    then show ?thesis using r len by (intro exI [of _ ds]) simp
  qed
qed

lemma parse_task_cut:
  assumes "parse_task s = Some (spacing, content)"
  shows "\<exists>box. s = box @ spacing @ content \<and> str_len box = 3"
proof -
  obtain task where task: "str_get s 0 3 = Some task"
    and r: "spacing = slice s 3 (3 + whitespace_prefix (slice_from s 3))" "content = slice_from s (3 + whitespace_prefix (slice_from s 3))"
    using assms by (auto simp: parse_task_def Let_def bind_eq_Some_conv split: if_splits)
  from task obtain q where q: "s = task @ q" "str_len task = 3" by (auto simp: str_get_Some_iff)
  have f: "slice_from s 3 = q" using slice_from_append [of task q] q by simp
  let ?b = "takeWhile is_blank q"
  have s: "s = task @ ?b @ dropWhile is_blank q" using q(1) by simp
  have "spacing = ?b" unfolding r(1) f whitespace_prefix_def using slice_mid [of task ?b "dropWhile is_blank q"] s q(2) by simp
  moreover have "content = dropWhile is_blank q"
    unfolding r(2) f whitespace_prefix_def using slice_from_append [of "task @ ?b" "dropWhile is_blank q"] s q(2) by simp
  ultimately show ?thesis using s q(2) by blast
qed

lemma parse_list_marker_cut:
  assumes "parse_list_marker txt = Some m"
  shows "\<exists>pre. txt = pre @ lm_content m \<and> str_len pre = prefix_len m"
proof -
  let ?i = "takeWhile is_blank txt" and ?rest = "dropWhile is_blank txt"
  obtain mk mend where base: "parse_base_marker ?rest = Some (mk, mend)"
    and sp: "whitespace_prefix (slice_from ?rest mend) \<noteq> 0"
    and m: "m = (let spacing_end = mend + whitespace_prefix (slice_from ?rest mend); after_marker = slice_from ?rest spacing_end;
        (task_spacing, content) = (case parse_task after_marker of None \<Rightarrow> (None, after_marker) | Some (s, c) \<Rightarrow> (Some s, c))
      in \<lparr>lm_indentation = ?i, lm_marker = mk, lm_spacing = slice ?rest mend spacing_end, lm_task_spacing = task_spacing, lm_content = content\<rparr>)"
    using assms unfolding parse_list_marker_def Let_def blank_cut
    by (auto simp: bind_eq_Some_conv split: if_splits option.splits prod.splits)
  have mark: "\<exists>tail. ?rest = marker_text mk @ tail \<and> str_len (marker_text mk) = mend
      \<and> str_len (marker_text mk) = (case mk of Bullet c \<Rightarrow> utf8_len c | Ordered number delimiter \<Rightarrow> str_len number + utf8_len delimiter)"
    using parse_base_marker_cut [OF base] by auto
  then obtain tail where tail: "?rest = marker_text mk @ tail" "str_len (marker_text mk) = mend"
    "str_len (marker_text mk) = (case mk of Bullet c \<Rightarrow> utf8_len c | Ordered number delimiter \<Rightarrow> str_len number + utf8_len delimiter)" by blast
  have s1: "slice_from ?rest mend = tail" unfolding tail(1) tail(2) [symmetric] by (rule slice_from_append)
  let ?sp = "takeWhile is_blank tail" and ?after = "dropWhile is_blank tail"
  have r2: "?rest = marker_text mk @ ?sp @ ?after" using tail(1) by simp
  have s2: "slice ?rest mend (mend + whitespace_prefix tail) = ?sp"
    unfolding r2 tail(2) [symmetric] whitespace_prefix_def by (rule slice_mid)
  have s3: "slice_from ?rest (mend + whitespace_prefix tail) = ?after"
  proof -
    have "slice_from ((marker_text mk @ ?sp) @ ?after) (str_len (marker_text mk @ ?sp)) = ?after" by (rule slice_from_append)
    then show ?thesis using r2 tail(2) by (simp add: whitespace_prefix_def)
  qed
  note m' = m [unfolded Let_def s1 s2 s3]
  have cut: "txt = (?i @ marker_text mk @ ?sp) @ ?after" using r2 by (metis append.assoc takeWhile_dropWhile_id)
  have len: "str_len (?i @ marker_text mk @ ?sp) = str_len ?i
      + (case mk of Bullet c \<Rightarrow> utf8_len c | Ordered number delimiter \<Rightarrow> str_len number + utf8_len delimiter) + str_len ?sp"
    using tail(3) by simp
  show ?thesis
  proof (cases "parse_task ?after")
    case None
    then have "m = \<lparr>lm_indentation = ?i, lm_marker = mk, lm_spacing = ?sp, lm_task_spacing = None, lm_content = ?after\<rparr>"
      using m' by simp
    then have "lm_content m = ?after" "prefix_len m = str_len (?i @ marker_text mk @ ?sp)" using len by (simp_all add: prefix_len_def)
    then show ?thesis using cut by metis
  next
    case (Some x)
    obtain spc content where x: "x = (spc, content)" by force
    obtain box where box: "?after = box @ spc @ content" "str_len box = 3" using parse_task_cut Some x by blast
    have "m = \<lparr>lm_indentation = ?i, lm_marker = mk, lm_spacing = ?sp, lm_task_spacing = Some spc, lm_content = content\<rparr>"
      using m' Some x by simp
    then have "lm_content m = content" "prefix_len m = str_len ((?i @ marker_text mk @ ?sp) @ box @ spc)"
      using len box(2) by (simp_all add: prefix_len_def)
    moreover have "txt = ((?i @ marker_text mk @ ?sp) @ box @ spc) @ content" using cut box(1) by (metis append.assoc)
    ultimately show ?thesis by metis
  qed
qed

abbreviation texts_ink :: "rstr \<Rightarrow> logical_line list \<Rightarrow> rstr" where
  "texts_ink grp ls \<equiv> concat (map (\<lambda>l. ink (line_text grp l)) ls)"

lemma texts_ink_split: "texts_ink grp (takeWhile P ls) @ texts_ink grp (dropWhile P ls) = texts_ink grp ls"
  by (metis concat_append map_append takeWhile_dropWhile_id)

lemma ink_collapsed_lines: "ink newline = [] \<Longrightarrow> ink (collapsed_lines newline grp ls) = texts_ink grp ls"
  by (simp add: collapsed_lines_def ink_join ink_nonempty comp_def)

lemma ink_list_group: "ink newline = [] \<Longrightarrow> concat (map ink (list_group u newline grp ls)) = texts_ink grp ls"
proof (induction u newline grp ls rule: list_group.induct)
  case (2 u newline grp l ls)
  show ?case
  proof (cases "parse_list_marker (line_text grp l)")
    case None
    let ?P = "\<lambda>k. parse_list_marker (line_text grp k) = None"
    have "concat (map ink (list_group u newline grp (dropWhile ?P ls))) = texts_ink grp (dropWhile ?P ls)"
      using "2.IH"(1) [OF None] "2.prems" by blast
    then show ?thesis using ink_collapsed_lines [OF "2.prems", of grp "l # takeWhile ?P ls"] texts_ink_split [of grp ?P ls] None by simp
  next
    case (Some m)
    let ?P = "\<lambda>k. is_aligned_continuation u grp k (content_column u m)"
    have rec: "concat (map ink (list_group u newline grp (dropWhile ?P ls))) = texts_ink grp (dropWhile ?P ls)"
      using "2.IH"(2) [OF Some] "2.prems" by blast
    obtain pre where pre: "line_text grp l = pre @ lm_content m" "str_len pre = prefix_len m" using parse_list_marker_cut [OF Some] by blast
    have "slice_to (line_text grp l) (prefix_len m) = pre" unfolding pre(1) pre(2) [symmetric] by (rule slice_to_append)
    then have "ink (slice_to (line_text grp l) (prefix_len m) @ collapse_inline (lm_content m)) = ink (line_text grp l)"
      using pre(1) by simp
    moreover have "concat (map ink (List.map_filter (\<lambda>k. indented (line_text grp k)) (takeWhile ?P ls))) = texts_ink grp (takeWhile ?P ls)"
      by (rule ink_map_filter) (rule ink_indented)
    ultimately show ?thesis using rec texts_ink_split [of grp ?P ls] Some by simp
  qed
qed simp

lemma ink_transform_group: "ink newline = [] \<Longrightarrow> plain grp \<Longrightarrow> ink (transform_group u grp newline) = ink grp"
  by (simp add: transform_group_def Let_def transform_list_group_def ink_join ink_list_group ink_collapsed_lines lines_texts)

lemma ink_transform_indented: "ink newline = [] \<Longrightarrow> plain grp \<Longrightarrow> ink (transform_indented_group grp newline) = ink grp"
  by (simp add: transform_indented_group_def ink_join lines_texts
      ink_map_filter [where f = "\<lambda>l. indented (line_text grp l)" and g = "\<lambda>l. ink (line_text grp l)", OF ink_indented])

section \<open>Kinds of lines\<close>

text \<open>Only a line without visible characters is a separator.\<close>

definition kind_ok :: "rstr \<Rightarrow> logical_line \<Rightarrow> line_kind \<Rightarrow> bool" where
  "kind_ok content l kind \<longleftrightarrow> (kind = Separator \<longrightarrow> ink (line_text content l) = [])"

lemma kind_ok_Protected [simp]: "kind_ok content l Protected"
  by (simp add: kind_ok_def)

lemma classify_step_ok: "kind_ok content l (fst (fst (classify_step u content s l)))"
proof -
  have "kind = Separator \<Longrightarrow> kind = classify_line u content l (line_text content l) a b c \<Longrightarrow> trim_blanks (line_text content l) = []"
    for kind a b c by (auto simp: classify_line_def Let_def split: if_splits)
  then have "kind = Separator \<Longrightarrow> kind = classify_line u content l (line_text content l) a b c \<Longrightarrow> ink (line_text content l) = []"
    for kind a b c by (metis ink_trim ink_simps(1))
  then show ?thesis
    by (auto simp: kind_ok_def classify_step_def Let_def split: prod.splits option.splits if_splits)
qed

lemma classify_loop_ok: "list_all2 (\<lambda>l k. kind_ok content l (fst k)) ls (classify_loop u content s ls)"
proof (induction ls arbitrary: s)
  case (Cons l ls)
  then show ?case using classify_step_ok [of content l u s] by (auto simp: Let_def split: prod.splits)
qed simp

lemma gaps_ok: "list_all2 (\<lambda>k k'. k' = fst k \<or> k' = Protected) ks (protect_indented_code_gaps previous ks)"
proof (induction previous ks rule: protect_indented_code_gaps.induct)
  case (2 previous kind code rest)
  show ?case
  proof (cases "kind = Separator")
    case False
    then show ?thesis using "2.IH"(1) by simp
  next
    case True
    let ?run = "takeWhile (\<lambda>(k, _). k = Separator) rest" and ?after = "dropWhile (\<lambda>(k, _). k = Separator) rest"
    let ?between = "previous = Some True \<and> (case ?after of [] \<Rightarrow> False | (_, c) # _ \<Rightarrow> c)"
    have "\<forall>k \<in> set ?run. fst k = Separator" by (auto dest: set_takeWhileD)
    then have run: "list_all2 (\<lambda>k k'. k' = fst k \<or> k' = Protected) ?run (replicate (length ?run) (if ?between then Protected else Separator))"
      by (auto simp: list_all2_conv_all_nth)
    have rec: "list_all2 (\<lambda>k k'. k' = fst k \<or> k' = Protected) ?after (protect_indented_code_gaps (Some (snd (last ((kind, code) # ?run)))) ?after)"
      by (rule "2.IH"(2)) (use True in simp_all)
    have "list_all2 (\<lambda>k k'. k' = fst k \<or> k' = Protected) (?run @ ?after)
        (replicate (length ?run) (if ?between then Protected else Separator)
          @ protect_indented_code_gaps (Some (snd (last ((kind, code) # ?run)))) ?after)"
      by (rule list_all2_appendI [OF run rec])
    then show ?thesis using True by (simp add: Let_def)
  qed
qed simp

lemma blocks_ok: "list_all2 (\<lambda>k k'. k' = snd k \<or> k' = Protected) ks (protect_structural_blocks u content ks)"
proof (induction u content ks rule: protect_structural_blocks.induct)
  case (2 u content l kind rest)
  show ?case
  proof (cases "kind = Separator")
    case True
    then show ?thesis using "2.IH"(1) by simp
  next
    case False
    let ?block = "(l, kind) # takeWhile (\<lambda>(_, k). k \<noteq> Separator) rest" and ?after = "dropWhile (\<lambda>(_, k). k \<noteq> Separator) rest"
    have rec: "list_all2 (\<lambda>k k'. k' = snd k \<or> k' = Protected) ?after (protect_structural_blocks u content ?after)"
      by (rule "2.IH"(2)) (use False in simp_all)
    have "list_all2 (\<lambda>k k'. k' = snd k \<or> k' = Protected) ?block
        (if block_is_structural u content ?block then replicate (length ?block) Protected else map snd ?block)"
      by (auto simp: list_all2_conv_all_nth nth_Cons split: nat.splits)
    from list_all2_appendI [OF this rec] show ?thesis using False by (simp add: Let_def)
  qed
qed simp

lemma classify_lines_ok: "list_all2 (kind_ok content) ls (classify_lines u content ls protected)"
proof -
  let ?s = "\<lparr>cl_fence = None, cl_list_column = None, cl_after_separator = False, cl_in_paragraph = False, cl_protected = protected\<rparr>"
  let ?gaps = "protect_indented_code_gaps None (classify_loop u content ?s ls)"
  have 1: "list_all2 (\<lambda>l k. kind_ok content l (fst k)) ls (classify_loop u content ?s ls)" by (rule classify_loop_ok)
  have 2: "list_all2 (kind_ok content) ls ?gaps"
    by (rule list_all2_trans [OF _ 1 gaps_ok]) auto
  then have len: "length ls = length ?gaps" by (rule list_all2_lengthD)
  have 3: "list_all2 (\<lambda>k k'. k' = snd k \<or> k' = Protected) (zip ls ?gaps) (protect_structural_blocks u content (zip ls ?gaps))"
    by (rule blocks_ok)
  have 4: "list_all2 (\<lambda>l lk. l = fst lk \<and> kind_ok content (fst lk) (snd lk)) ls (zip ls ?gaps)"
    using 2 len by (auto simp: list_all2_conv_all_nth)
  show ?thesis unfolding classify_lines_def by (rule list_all2_trans [OF _ 4 3]) auto
qed

section \<open>Applying replacements\<close>

fun plan_ok :: "rstr \<Rightarrow> nat \<Rightarrow> text_replacement list \<Rightarrow> bool" where
  "plan_ok content c [] = True"
| "plan_ok content c (r # rs) \<longleftrightarrow>
     (\<exists>p g x q. content = p @ g @ x @ q \<and> str_len p = c \<and> fst (rp_old r) = c + str_len g \<and> snd (rp_old r) = c + str_len g + str_len x
        \<and> ink (rp_value r) = ink x) \<and> plan_ok content (snd (rp_old r)) rs"

lemma apply_fold_ink:
  assumes "plan_ok content c rs" "content = p @ q" "str_len p = c"
  shows "\<exists>out' c' m'. foldl (apply_replacement content) (out, c, m) rs = (out', c', m')
    \<and> ink out' @ ink (slice_from content c') = ink out @ ink q"
  using assms
proof (induction rs arbitrary: c p q out m)
  case Nil
  have "slice_from content c = q" using Nil slice_from_append [of p q] by simp
  then show ?case by simp
next
  case (Cons r rs)
  from Cons.prems(1) obtain p' g x q' where d: "content = p' @ g @ x @ q'" "str_len p' = c" "fst (rp_old r) = c + str_len g"
    "snd (rp_old r) = c + str_len g + str_len x" "ink (rp_value r) = ink x" and ok: "plan_ok content (snd (rp_old r)) rs" by auto
  have pq: "p' = p" "g @ x @ q' = q" using append_str_len_inject [of p' "g @ x @ q'" p q] d Cons.prems(2,3) by simp_all
  have s: "slice content c (fst (rp_old r)) = g" using slice_mid [of p' g "x @ q'"] d by simp
  obtain m2 where step: "apply_replacement content (out, c, m) r = (out @ g @ rp_value r, snd (rp_old r), m2)"
    by (simp add: apply_replacement_def s Let_def)
  have "content = (p @ g @ x) @ q'" "str_len (p @ g @ x) = snd (rp_old r)" using d pq by simp_all
  from Cons.IH [OF ok this, of "out @ g @ rp_value r" m2] show ?case using pq(2) d(5) by (auto simp: step)
qed

lemma apply_replacements_ink:
  assumes "apply_replacements content rs = Inr t" "plan_ok content 0 rs"
  shows "ink (rt_content t) = ink content"
proof -
  obtain out' c' m' where f: "foldl (apply_replacement content) ([], 0, []) rs = (out', c', m')"
    "ink out' @ ink (slice_from content c') = ink content"
    using apply_fold_ink [OF assms(2), of "[]" content "[]" "[]"] by auto
  have "rt_content t = out' @ slice_from content c'" using assms(1) unfolding apply_replacements_def f(1) by (auto simp: Let_def)
  then show ?thesis using f(2) by simp
qed

section \<open>Planning replacements\<close>

text \<open>The lines with their kinds that make up the text from a position on.\<close>

fun laid :: "rstr \<Rightarrow> nat \<Rightarrow> (logical_line \<times> line_kind) list \<Rightarrow> bool" where
  "laid s k [] \<longleftrightarrow> s = []"
| "laid s k ((l, kind) # rest) \<longleftrightarrow> (\<exists>t e s'. s = t @ e @ s' \<and> line_start l = k \<and> content_end l = k + str_len t \<and> ink e = []
     \<and> (kind = Separator \<longrightarrow> ink t = []) \<and> laid s' (k + str_len t + str_len e) rest)"

lemma laid_append: "laid s k (xs @ ys) \<Longrightarrow> \<exists>s1 s2. s = s1 @ s2 \<and> laid s1 k xs \<and> laid s2 (k + str_len s1) ys"
proof (induction xs arbitrary: s k)
  case (Cons x xs)
  obtain l kind where x: "x = (l, kind)" by force
  from Cons.prems obtain t e s' where s: "s = t @ e @ s'" "line_start l = k" "content_end l = k + str_len t" "ink e = []"
    "kind = Separator \<longrightarrow> ink t = []" "laid s' (k + str_len t + str_len e) (xs @ ys)" by (auto simp: x)
  from Cons.IH [OF s(6)] obtain s1 s2 where s12: "s' = s1 @ s2" "laid s1 (k + str_len t + str_len e) xs"
    "laid s2 (k + str_len t + str_len e + str_len s1) ys" by blast
  show ?case
    by (rule exI [of _ "t @ e @ s1"], rule exI [of _ s2]) (use s s12 in \<open>auto simp: x add.assoc\<close>)
qed simp

lemma laid_last:
  "laid s k xs \<Longrightarrow> xs \<noteq> [] \<Longrightarrow> \<exists>body e. s = body @ e \<and> ink e = [] \<and> content_end (fst (last xs)) = k + str_len body"
proof (induction xs arbitrary: s k)
  case (Cons x xs)
  obtain l kind where x: "x = (l, kind)" by force
  from Cons.prems(1) obtain t e s' where s: "s = t @ e @ s'" "content_end l = k + str_len t" "ink e = []"
    "laid s' (k + str_len t + str_len e) xs" by (auto simp: x)
  show ?case
  proof (cases "xs = []")
    case True
    then show ?thesis using s by (auto simp: x)
  next
    case False
    from Cons.IH [OF s(4) False] obtain body e' where "s' = body @ e'" "ink e' = []"
      "content_end (fst (last xs)) = k + str_len t + str_len e + str_len body" by blast
    then show ?thesis using s(1) False by (intro exI [of _ "t @ e @ body"] exI [of _ e']) simp
  qed
qed simp

lemma laid_separators: "laid s k xs \<Longrightarrow> \<forall>x \<in> set xs. snd x = Separator \<Longrightarrow> ink s = []"
  by (induction s k xs rule: laid.induct) auto

lemma laid_start: "laid s k (x # xs) \<Longrightarrow> line_start (fst x) = k"
  by (cases x) auto

text \<open>The line before the rest of the lines, and where the text before them ends.\<close>

definition preceded :: "logical_line option \<Rightarrow> rstr \<Rightarrow> rstr \<Rightarrow> rstr \<Rightarrow> bool" where
  "preceded previous d b e \<longleftrightarrow> d = b @ e \<and> ink e = []
     \<and> (case previous of None \<Rightarrow> d = [] | Some l \<Rightarrow> content_end l = str_len b)"

lemma plan_loop_ok:
  assumes "ink newline = []" "plain content" "content = d @ s" "laid s (str_len d) items" "preceded previous d b e"
    and "d = d1 @ d2" "c = str_len d1" "items \<noteq> [] \<Longrightarrow> snd (hd items) = Separator \<Longrightarrow> str_len d1 \<le> str_len b"
  shows "plan_ok content c (plan_loop u content newline previous ps items)"
  using assms
proof (induction u content newline previous ps items arbitrary: d s b e d1 d2 c rule: plan_loop.induct)
  case (2 u content newline previous ps l kind rest)
  let ?P = "\<lambda>(_ :: logical_line, k). k = kind"
  let ?items = "(l, kind) # takeWhile ?P rest" and ?after = "dropWhile ?P rest"
  let ?run = "l # map fst (takeWhile ?P rest)"
  let ?r = "replacement_range content previous ?run (map fst ?after) kind"
  have run: "?run = map fst ?items" "last ?run = fst (last ?items)" by (simp_all add: last_map)
  have "laid s (str_len d) (?items @ ?after)" using "2.prems"(4) by simp
  from laid_append [OF this] obtain s1 s2 where s: "s = s1 @ s2" "laid s1 (str_len d) ?items" "laid s2 (str_len d + str_len s1) ?after" by blast
  from laid_last [OF s(2)] obtain body e1 where body: "s1 = body @ e1" "ink e1 = []" "content_end (last ?run) = str_len d + str_len body"
    unfolding run(2) by blast
  have d': "content = (d @ s1) @ s2" "laid s2 (str_len (d @ s1)) ?after" "preceded (Some (last ?run)) (d @ s1) (d @ body) e1"
    using "2.prems"(3) s body by (simp_all add: preceded_def)
  have next_kind: "?after \<noteq> [] \<Longrightarrow> snd (hd ?after) \<noteq> kind" using hd_dropWhile [of ?P rest] by (auto simp: split_beta)
  have keep: "plan_ok content c (plan_loop u content newline (Some (last ?run)) ps' ?after)"
    if "\<And>d s b e d1 d2 c. ink newline = [] \<Longrightarrow> plain content \<Longrightarrow> content = d @ s \<Longrightarrow> laid s (str_len d) ?after
      \<Longrightarrow> preceded (Some (last ?run)) d b e \<Longrightarrow> d = d1 @ d2 \<Longrightarrow> c = str_len d1
      \<Longrightarrow> (?after \<noteq> [] \<Longrightarrow> snd (hd ?after) = Separator \<Longrightarrow> str_len d1 \<le> str_len b)
      \<Longrightarrow> plan_ok content c (plan_loop u content newline (Some (last ?run)) ps' ?after)" for ps'
    by (rule that [OF "2.prems"(1,2) d', of d1 "d2 @ s1"]) (use "2.prems"(6,7) in simp_all)
  show ?case
  proof (cases "kind = Protected")
    case True
    have "plan_ok content c (plan_loop u content newline (Some (last ?run)) ps ?after)"
      by (rule keep) (rule "2.IH"(1) [OF refl refl refl True])
    then show ?thesis using True by (simp add: Let_def)
  next
    case False
    let ?ps = "skip_protected (fst ?r) ps"
    show ?thesis
    proof (cases "case ?ps of [] \<Rightarrow> False | p # _ \<Rightarrow> ranges_intersect ?r p")
      case True
      have "plan_ok content c (plan_loop u content newline (Some (last ?run)) ?ps ?after)"
        by (rule keep) (rule "2.IH"(2) [OF refl refl refl False refl True])
      then show ?thesis using True False by (simp add: Let_def)
    next
      case t: False
      let ?new_text = "replacement_value u content newline (previous = None) (?after = []) ?r kind"
      note IH = "2.IH"(3) [OF refl refl refl False refl t refl]
      have "plan_ok content c (plan_loop u content newline (Some (last ?run)) ?ps ?after)" by (rule keep) (rule IH)
      moreover have "plan_ok content c (\<lparr>rp_old = ?r, rp_value = ?new_text\<rparr> # plan_loop u content newline (Some (last ?run)) ?ps ?after)"
      proof (cases "kind = Separator")
        case sep: True
        have b: "fst ?r = str_len b" using "2.prems"(5) sep
          by (auto simp: replacement_range_def preceded_def split: option.splits)
        have e: "snd ?r = str_len (d @ s1)"
        proof (cases ?after)
          case Nil
          have "s2 = []" using s(3) unfolding Nil by simp
          then have "content = d @ s1" using "2.prems"(3) s(1) by simp
          then show ?thesis unfolding replacement_range_def Nil using sep by simp
        next
          case (Cons x xs)
          then have "line_start (fst x) = str_len (d @ s1)" using d'(2) laid_start by metis
          then show ?thesis using sep Cons by (simp add: replacement_range_def)
        qed
        have "str_len d1 \<le> str_len b" using "2.prems"(8) sep by simp
        moreover have "d1 @ d2 = b @ e" using "2.prems"(5,6) by (simp add: preceded_def)
        ultimately obtain g where g: "b = d1 @ g" by (auto simp: append_eq_append_conv2)
        have "\<forall>x \<in> set ?items. snd x = Separator" using sep by (auto dest: set_takeWhileD)
        then have x: "ink (e @ s1) = []" using laid_separators [OF s(2)] "2.prems"(5) by (simp add: preceded_def)
        have content: "content = d1 @ g @ (e @ s1) @ s2" using d'(1) "2.prems"(5) g by (simp add: preceded_def)
        have lens: "snd ?r = c + str_len g + str_len (e @ s1)" using e g "2.prems"(5,7) by (simp add: preceded_def)
        have val: "ink ?new_text = []" using sep "2.prems"(1) by (simp add: replacement_value_def separator_value_def)
        have rec: "plan_ok content (snd ?r) (plan_loop u content newline (Some (last ?run)) ?ps ?after)"
          by (rule IH [OF "2.prems"(1,2) d', of "d @ s1" "[]"]) (use e next_kind sep in simp_all)
        have "\<exists>p g x q. content = p @ g @ x @ q \<and> str_len p = c \<and> fst ?r = c + str_len g \<and> snd ?r = c + str_len g + str_len x \<and> ink ?new_text = ink x"
          using content lens b g val x "2.prems"(7) by (intro exI [of _ d1] exI [of _ g] exI [of _ "e @ s1"] exI [of _ s2]) simp
        then show ?thesis using rec by simp
      next
        case sep: False
        have "line_start l = str_len d" using laid_start [OF s(2)] by simp
        then have r: "?r = (str_len d, str_len d + str_len body)" using sep body(3) by (simp add: replacement_range_def)
        have content: "content = d1 @ d2 @ body @ (e1 @ s2)" using d'(1) body(1) "2.prems"(6) by simp
        then have sl: "slice content (fst ?r) (snd ?r) = body" using slice_mid [of d body "e1 @ s2"] "2.prems"(6) r by simp
        have "plain body" using content "2.prems"(2) by simp
        then have val: "ink ?new_text = ink body" 
          unfolding replacement_value_def sl using sep False "2.prems"(1)
          by (simp add: ink_transform_group ink_transform_indented split: line_kind.split)
        have rec: "plan_ok content (snd ?r) (plan_loop u content newline (Some (last ?run)) ?ps ?after)"
          by (rule IH [OF "2.prems"(1,2) d', of "d @ body" e1]) (use r body(1) in simp_all)
        have "\<exists>p g x q. content = p @ g @ x @ q \<and> str_len p = c \<and> fst ?r = c + str_len g \<and> snd ?r = c + str_len g + str_len x \<and> ink ?new_text = ink x"
          using content r val "2.prems"(6,7) by (intro exI [of _ d1] exI [of _ d2] exI [of _ body] exI [of _ "e1 @ s2"]) simp
        then show ?thesis using rec by simp
      qed
      ultimately show ?thesis using t False by (simp add: Let_def)
    qed
  qed
qed simp

section \<open>Slices of text\<close>

lemma placed_laid:
  assumes "\<forall>(t, e) \<in> set ps. terminator e" "plain (whole ps)" "list_all2 (kind_ok (p @ whole ps)) (placed (str_len p) ps) kinds"
  shows "laid (whole ps) (str_len p) (zip (placed (str_len p) ps) kinds)"
  using assms
proof (induction ps arbitrary: p kinds)
  case (Cons x ps)
  obtain t e where x: "x = (t, e)" by force
  from Cons.prems(3) obtain kind ks where k: "kinds = kind # ks" "kind_ok (p @ whole (x # ps)) (hd (placed (str_len p) (x # ps))) kind"
    "list_all2 (kind_ok ((p @ t @ e) @ whole ps)) (placed (str_len (p @ t @ e)) ps) ks" by (auto simp: x list_all2_Cons1 add.assoc)
  have "line_text (p @ t @ e @ whole ps) \<lparr>line_start = str_len p, content_end = str_len p + str_len t,
      line_end = str_len p + str_len t + str_len e\<rparr> = t"
    using slice_mid [of p t "e @ whole ps"] by (simp add: line_text_def)
  then have "kind = Separator \<longrightarrow> ink t = []" using k(2) by (simp add: x kind_ok_def)
  moreover have "ink e = []" using Cons.prems(1,2) by (intro ink_terminator) (auto simp: x)
  moreover have "laid (whole ps) (str_len (p @ t @ e)) (zip (placed (str_len (p @ t @ e)) ps) ks)"
    by (rule Cons.IH [OF _ _ k(3)]) (use Cons.prems(1,2) in \<open>auto simp: x\<close>)
  ultimately show ?case
    by (simp add: x k(1)) (intro exI [of _ t] exI [of _ e] exI [of _ "whole ps"], simp add: add.assoc)
qed simp

lemma reflow_slice_ink:
  assumes "reflow_slice u content protected newline = Inr t" "ink newline = []" "plain content"
  shows "ink (rt_content t) = ink content"
proof -
  obtain ps where ps: "logical_lines content = placed 0 ps" "content = whole ps" "\<forall>(t, e) \<in> set ps. terminator e"
    by (rule logical_lines_placed)
  let ?kinds = "classify_lines u content (placed 0 ps) protected"
  have "list_all2 (kind_ok ([] @ whole ps)) (placed (str_len []) ps) ?kinds" using classify_lines_ok [of content "placed 0 ps" u protected] ps(2) by simp
  from placed_laid [OF ps(3) _ this] assms(3) ps(2) have "laid content (str_len []) (zip (placed 0 ps) ?kinds)" by simp
  then have "plan_ok content 0 (plan_loop u content newline None protected (zip (placed 0 ps) ?kinds))"
    by (intro plan_loop_ok [of newline content "[]" content _ None "[]" "[]" "[]" "[]"]) (use assms in \<open>simp_all add: preceded_def\<close>)
  then show ?thesis
    using assms(1) ps(1) by (intro apply_replacements_ink) (simp_all add: reflow_slice_def plan_replacements_def Let_def)
qed

section \<open>Texts with isolated ranges\<close>

text \<open>What the state holds of the part of the text that is done: its ink is in the output, and the pending whitespace
  is a stretch without ink at its end.\<close>

definition kept :: "rstr \<Rightarrow> reflow_state \<Rightarrow> bool" where
  "kept d s \<longleftrightarrow> ink (rs_output s) = ink d
     \<and> (rs_pending s \<noteq> [] \<longrightarrow> (\<exists>b w. d = b @ w \<and> ink w = [] \<and> fst (hd (rs_pending s)) = str_len b \<and> snd (last (rs_pending s)) = str_len d))"

lemma kept_queue:
  assumes "kept d s" "ink w = []" "r = (str_len d, str_len d + str_len w)"
  shows "kept (d @ w) (queue_whitespace r s)"
proof (cases "w = []")
  case True
  then show ?thesis using assms by (simp add: queue_whitespace_def)
next
  case False
  then have "str_len w \<noteq> 0" by simp
  then have q: "queue_whitespace r s = s\<lparr>rs_pending := rs_pending s @ [r]\<rparr>" using assms(3) by (simp add: queue_whitespace_def del: str_len_0_iff)
  show ?thesis
  proof (cases "rs_pending s = []")
    case True
    have "\<exists>b v. d @ w = b @ v \<and> ink v = [] \<and> fst r = str_len b \<and> snd r = str_len (d @ w)"
      by (rule exI [of _ d], rule exI [of _ w]) (use assms in simp)
    then show ?thesis using assms(1,2) True unfolding q kept_def by simp
  next
    case f: False
    then obtain b v where "d = b @ v" "ink v = []" "fst (hd (rs_pending s)) = str_len b" using assms(1) by (auto simp: kept_def)
    then have "\<exists>b v. d @ w = b @ v \<and> ink v = [] \<and> fst (hd (rs_pending s)) = str_len b \<and> snd r = str_len (d @ w)"
      by (intro exI [of _ b] exI [of _ "v @ w"]) (use assms in simp)
    then show ?thesis using assms(1,2) f unfolding q kept_def by simp
  qed
qed

lemma kept_flush:
  assumes "kept d s" "content = d @ rest" "ink newline = []"
  shows "kept d (flush_whitespace content protected newline trailing s)" "rs_pending (flush_whitespace content protected newline trailing s) = []"
proof -
  have "kept d (flush_whitespace content protected newline trailing s) \<and> rs_pending (flush_whitespace content protected newline trailing s) = []"
  proof (cases "rs_pending s = []")
    case True
    then show ?thesis using assms by (simp add: flush_whitespace_def)
  next
    case False
    then obtain b w where w: "d = b @ w" "ink w = []" "fst (hd (rs_pending s)) = str_len b" "snd (last (rs_pending s)) = str_len d"
      using assms(1) by (auto simp: kept_def)
    have "slice content (fst (hd (rs_pending s))) (snd (last (rs_pending s))) = w"
      using slice_mid [of b w rest] assms(2) w by simp
    moreover have "ink (case n of 0 \<Rightarrow> [32] | Suc 0 \<Rightarrow> newline | _ \<Rightarrow> newline @ newline) = []" for n
      using assms(3) by (simp add: is_boundary_whitespace_def split: nat.split)
    ultimately show ?thesis using assms(1) w(2) False by (simp add: flush_whitespace_def Let_def kept_def)
  qed
  then show "kept d (flush_whitespace content protected newline trailing s)" "rs_pending (flush_whitespace content protected newline trailing s) = []"
    by simp_all
qed

lemma note_owner_simps [simp]:
  "rs_output (note_owner owner r s) = rs_output s" "rs_pending (note_owner owner r s) = rs_pending s"
  by (simp_all add: note_owner_def split: option.split)

lemma str_len_rev: "str_len (rev s) = str_len s"
  by (induction s) simp_all

lemma partition_core_cut:
  obtains a core z where "value = a @ core @ z" "ink a = []" "ink z = []" "partition_core value = (str_len a, str_len a + str_len core)"
proof (cases "list_all is_boundary_whitespace value")
  case True
  then have tw: "takeWhile is_boundary_whitespace value = value" by (simp add: takeWhile_eq_all_conv list_all_iff)
  have "partition_core value = (str_len value, str_len value + str_len [])" unfolding partition_core_def Let_def tw using True by simp
  moreover have "ink value = []" using True by (simp add: ink_empty_iff)
  ultimately show thesis using that [of "value" "[]" "[]"] by simp
next
  case False
  let ?W = is_boundary_whitespace
  let ?a = "takeWhile ?W value" and ?r = "dropWhile ?W value"
  obtain c cs where r: "?r = c # cs" "\<not> ?W c"
    using False hd_dropWhile [of ?W "value"] by (cases ?r) (auto simp: dropWhile_eq_Nil_conv list_all_iff)
  let ?z = "rev (takeWhile ?W (rev value))"
  have "takeWhile ?W (rev value) = takeWhile ?W (rev ?r)"
  proof -
    have "rev value = rev ?r @ rev ?a" by (metis rev_append takeWhile_dropWhile_id)
    moreover have "c \<in> set (rev ?r)" using r by simp
    ultimately show ?thesis using takeWhile_append1 [of c "rev ?r" ?W "rev ?a"] r(2) by simp
  qed
  then obtain core where core: "?r = core @ ?z"
    by (metis rev_rev_ident rev_append takeWhile_dropWhile_id)
  have "partition_core value = (str_len ?a, max (str_len value - str_len (takeWhile ?W (rev value))) (str_len ?a))"
    using False by (simp add: partition_core_def Let_def)
  moreover have "str_len value = str_len ?a + str_len core + str_len ?z"
    using arg_cong [OF core, of str_len] takeWhile_dropWhile_id [of ?W "value"] by (metis (no_types) add.assoc str_len_simps(3))
  ultimately have "partition_core value = (str_len ?a, str_len ?a + str_len core)" by (simp add: str_len_rev)
  moreover have "value = ?a @ core @ ?z" using core by (metis takeWhile_dropWhile_id)
  moreover have "ink ?a = []" "ink ?z = []" by (simp_all add: ink_takeWhile ink_rev)
  ultimately show thesis using that by blast
qed

lemma kept_append:
  assumes "append_partition u content protected newline (part, owner) s = Inr s'" "kept d s"
    and "content = d @ v @ rest" "part = (str_len d, str_len d + str_len v)" "ink newline = []" "plain content"
  shows "kept (d @ v) s'"
proof -
  have sl: "slice content (fst part) (snd part) = v" using slice_mid [of d v rest] assms(3,4) by simp
  obtain a core z where c: "v = a @ core @ z" "ink a = []" "ink z = []" "partition_core v = (str_len a, str_len a + str_len core)"
    by (rule partition_core_cut)
  let ?q = "queue_whitespace (str_len d, str_len d + str_len a) s"
  have q: "kept (d @ a) ?q" by (rule kept_queue [OF assms(2) c(2)]) simp
  have fin: "kept (d @ v) (queue_whitespace (str_len d + (str_len a + str_len core), snd part) s1)" if "kept ((d @ a) @ core) s1" for s1
    using kept_queue [OF that c(3), of "(str_len d + (str_len a + str_len core), snd part)"] c(1) assms(4) by (simp add: add.assoc)
  show ?thesis
  proof (cases "core = []")
    case True
    have s': "s' = queue_whitespace (str_len d + (str_len a + str_len core), snd part)
        (note_owner owner (str_len (rs_output ?q), str_len (rs_output ?q)) ?q)"
      using assms(1) True unfolding append_partition_def prod.case sl c(4) Let_def fst_conv snd_conv by (simp add: assms(4))
    show ?thesis unfolding s' by (intro fin) (use q True in \<open>simp add: kept_def\<close>)
  next
    case False
    then have lt: "str_len d + str_len a < str_len d + (str_len a + str_len core)" by (metis add_less_cancel_left gr0I less_add_same_cancel1 str_len_0_iff)
    let ?f = "flush_whitespace content protected newline False ?q"
    obtain own ps where l: "local_protected_ranges (rs_protected ?f) (str_len d + str_len a, str_len d + (str_len a + str_len core)) = (own, ps)"
      by force
    have core: "slice content (str_len d + str_len a) (str_len d + (str_len a + str_len core)) = core"
      using slice_mid [of "d @ a" core "z @ rest"] assms(3) c(1) by (simp add: add.assoc)
    obtain t where t: "reflow_slice u core own newline = Inr t"
      and s': "s' = queue_whitespace (str_len d + (str_len a + str_len core), snd part)
        ((note_owner owner (str_len (rs_output ?f), str_len (rs_output ?f @ rt_content t))
          (?f\<lparr>rs_output := rs_output ?f @ rt_content t, rs_protected := ps\<rparr>))
          \<lparr>rs_mapped := rs_mapped (note_owner owner (str_len (rs_output ?f), str_len (rs_output ?f @ rt_content t))
             (?f\<lparr>rs_output := rs_output ?f @ rt_content t, rs_protected := ps\<rparr>))
             @ map (\<lambda>c. (offset_range (old_range c) (str_len d + str_len a), offset_range (new_range c) (str_len (rs_output ?f))))
                (set_changes (rt_changes t)), rs_has_content := True\<rparr>)"
      using assms(1,4) lt l unfolding append_partition_def prod.case sl c(4) Let_def fst_conv snd_conv
      by (auto simp: core)
    have f: "kept (d @ a) ?f" "rs_pending ?f = []"
      using kept_flush [OF q _ assms(5), of content "core @ z @ rest"] assms(3) c(1) by simp_all
    have "plain core" using assms(3,6) c(1) by simp
    then have "ink (rt_content t) = ink core" using reflow_slice_ink [OF t assms(5)] by simp
    then show ?thesis unfolding s' by (intro fin) (use f in \<open>simp add: kept_def\<close>)
  qed
qed

text \<open>Partition points: boundaries in order, from the start of the text to its end.\<close>

lemma isolated_points_ok:
  "isolated_points content k rs = Inr points \<Longrightarrow> k \<le> str_len content \<Longrightarrow>
    sorted (k # points @ [str_len content]) \<and> (\<forall>x \<in> set points. is_char_boundary content x)"
proof (induction content k rs arbitrary: points rule: isolated_points.induct)
  case (2 content k r rs)
  let ?bad = "fst r < k \<or> fst r > snd r \<or> snd r > str_len content \<or> \<not> is_char_boundary content (fst r) \<or> \<not> is_char_boundary content (snd r)"
  have ok: "\<not> ?bad" using "2.prems"(1) by (metis isolated_points.simps(2) sum.distinct(1))
  then have r: "k \<le> fst r" "fst r \<le> snd r" "snd r \<le> str_len content" "is_char_boundary content (fst r)" "is_char_boundary content (snd r)"
    by (simp_all add: not_less)
  obtain ps where ps: "isolated_points content (snd r) rs = Inr ps" "points = fst r # snd r # ps"
    using "2.prems"(1) unfolding isolated_points.simps if_not_P [OF ok] by auto
  have "sorted (snd r # ps @ [str_len content]) \<and> (\<forall>x \<in> set ps. is_char_boundary content x)"
    by (rule "2.IH" [OF _ ps(1) r(3)]) (use r in simp)
  then show ?case using ps(2) r by auto
qed simp

lemma dedup_ok: "set (dedup xs) = set xs" "hd (dedup xs) = hd xs" "xs \<noteq> [] \<Longrightarrow> last (dedup xs) = last xs" "sorted xs \<Longrightarrow> sorted (dedup xs)"
  "xs \<noteq> [] \<Longrightarrow> dedup xs \<noteq> []"
proof -
  show s: "set (dedup xs) = set xs" for xs by (induction xs rule: dedup.induct) auto
  show "hd (dedup xs) = hd xs" by (induction xs rule: dedup.induct) auto
  show ne: "xs \<noteq> [] \<Longrightarrow> dedup xs \<noteq> []" for xs by (induction xs rule: dedup.induct) auto
  show "xs \<noteq> [] \<Longrightarrow> last (dedup xs) = last xs"
  proof (induction xs rule: dedup.induct)
    case (1 x y xs)
    then show ?case using ne [of "y # xs"] by auto
  qed auto
  show "sorted xs \<Longrightarrow> sorted (dedup xs)"
  proof (induction xs rule: dedup.induct)
    case (1 x y xs)
    then show ?case using s [of "y # xs"] by auto
  qed auto
qed

lemma partitions_kept:
  assumes "try_fold (\<lambda>s p. append_partition u content protected newline p s) s (partitions n isolated points) = Inr s'"
    and "kept d s" "content = d @ rest" "points \<noteq> []" "hd points = str_len d" "sorted points" "\<forall>x \<in> set points. is_char_boundary content x"
    and "ink newline = []" "plain content"
  shows "\<exists>d' rest'. content = d' @ rest' \<and> str_len d' = last points \<and> kept d' s'"
  using assms
proof (induction n isolated points arbitrary: s d rest rule: partitions.induct)
  case (1 n isolated a b points)
  let ?owner = "case isolated of r # rs \<Rightarrow> if r = (a, b) then Some n else None | [] \<Rightarrow> None"
  let ?n = "case isolated of r # rs \<Rightarrow> if r = (a, b) then Suc n else n | [] \<Rightarrow> n"
  let ?iso = "case isolated of r # rs \<Rightarrow> if r = (a, b) then rs else isolated | [] \<Rightarrow> []"
  have p: "partitions n isolated (a # b # points) = ((a, b), ?owner) # partitions ?n ?iso (b # points)"
    by (cases isolated) auto
  from "1.prems"(1) obtain s1 where s1: "append_partition u content protected newline ((a, b), ?owner) s = Inr s1"
    "try_fold (\<lambda>s p. append_partition u content protected newline p s) s1 (partitions ?n ?iso (b # points)) = Inr s'"
    unfolding p by auto
  have ab: "a = str_len d" "a \<le> b" "is_char_boundary content b" using "1.prems"(5,6,7) by simp_all
  then have "is_char_boundary rest (b - str_len d)" using "1.prems"(3) by (simp add: boundary_shift_right)
  then obtain v rest' where v: "rest = v @ rest'" "str_len v = b - str_len d" by (auto simp: is_char_boundary_iff)
  have k: "kept (d @ v) s1"
    by (rule kept_append [OF s1(1) "1.prems"(2), of v rest']) (use "1.prems" v ab in simp_all)
  have goal: "\<exists>d' rest'. content = d' @ rest' \<and> str_len d' = last (b # points) \<and> kept d' s'"
    if "\<And>s d rest. try_fold (\<lambda>s p. append_partition u content protected newline p s) s (partitions ?n ?iso (b # points)) = Inr s'
      \<Longrightarrow> kept d s \<Longrightarrow> content = d @ rest \<Longrightarrow> b # points \<noteq> [] \<Longrightarrow> hd (b # points) = str_len d \<Longrightarrow> sorted (b # points)
      \<Longrightarrow> \<forall>x \<in> set (b # points). is_char_boundary content x \<Longrightarrow> ink newline = [] \<Longrightarrow> plain content
      \<Longrightarrow> \<exists>d' rest'. content = d' @ rest' \<and> str_len d' = last (b # points) \<and> kept d' s'"
    by (rule that [OF s1(2) k, of rest']) (use "1.prems" v ab in simp_all)
  have "\<exists>d' rest'. content = d' @ rest' \<and> str_len d' = last (b # points) \<and> kept d' s'"
  proof (cases isolated)
    case Nil
    show ?thesis by (rule goal) (rule "1.IH"(1) [OF Nil], simp_all add: Nil)
  next
    case (Cons r rs)
    show ?thesis
    proof (cases "r = (a, b)")
      case True
      show ?thesis by (rule goal) (rule "1.IH"(2) [OF Cons True], simp_all add: Cons True)
    next
      case False
      show ?thesis by (rule goal) (rule "1.IH"(3) [OF Cons False], simp_all add: Cons False)
    qed
  qed
  then show ?case by simp
qed (auto intro: exI)

lemma newline_ink: "ink (preferred_newline content) = []"
  by (simp add: preferred_newline_def is_boundary_whitespace_def)

lemma reflow_text_ink:
  assumes "reflow_text_isolated u content protected isolated = Inr t"
  shows "ink (rt_content t) = ink content"
proof (cases "contains_unsupported_control content")
  case True
  then show ?thesis using assms by (auto simp: reflow_text_isolated_def unchanged_text_def)
next
  case False
  then have plain: "plain content" by (rule supported_plain)
  show ?thesis
  proof (cases "isolated = []")
    case True
    then show ?thesis using assms False reflow_slice_ink [OF _ newline_ink plain] by (simp add: reflow_text_isolated_def Let_def)
  next
    case iso: False
    let ?n = "preferred_newline content"
    obtain points s where points: "partition_points content isolated = Inr points"
      and s: "try_fold (\<lambda>s p. append_partition u content protected ?n p s) (new_reflow_state protected isolated)
        (partitions 0 isolated points) = Inr s"
      and t: "finish_reflow content protected s = Inr t"
      using assms False iso by (auto simp: reflow_text_isolated_def Let_def)
    from points obtain raw where raw: "isolated_points content 0 isolated = Inr raw" "points = dedup (0 # raw @ [str_len content])"
      by (auto simp: partition_points_def)
    have ok: "sorted (0 # raw @ [str_len content])" "\<forall>x \<in> set raw. is_char_boundary content x"
      using isolated_points_ok [OF raw(1)] by simp_all
    let ?raw = "0 # raw @ [str_len content]"
    have pts: "points \<noteq> []" "hd points = 0" "last points = str_len content" "sorted points"
      unfolding raw(2) using dedup_ok(5) [of ?raw] dedup_ok(3) [of ?raw] by (simp_all only: dedup_ok(2,4) [of ?raw] ok(1)) simp_all
    have bd: "\<forall>x \<in> set points. is_char_boundary content x"
      unfolding raw(2) dedup_ok(1) using ok(2) by simp
    have k0: "kept [] (new_reflow_state protected isolated)" by (simp add: kept_def new_reflow_state_def)
    have "\<exists>d rest. content = d @ rest \<and> str_len d = last points \<and> kept d s"
      by (rule partitions_kept [OF s k0 _ pts(1) _ pts(4) bd newline_ink plain, of content]) (simp_all add: pts)
    then obtain d rest where d: "content = d @ rest" "str_len d = str_len content" "kept d s" unfolding pts(3) by blast
    then have "rest = []" by (metis add_cancel_right_right str_len_0_iff str_len_simps(3))
    then have k: "kept content s" using d by simp
    have "kept content (flush_whitespace content protected ?n True s)" by (rule kept_flush(1) [OF k _ newline_ink, of content "[]"]) simp
    then show ?thesis using t by (auto simp: finish_reflow_def Let_def kept_def)
  qed
qed

end
