(* ===== verification/Text_Layout.thy ===== *)
theory Text_Layout
  imports Reflow_Ink Board_Model
begin

text \<open>
  Layout of text in terminal cells (\<open>src/src/ports/text_layout.rs\<close>): truncation, the cell and byte
  positions of a cursor, word movement, the window of a field, and the wrapping of a text into rows.
  Graphemes and widths are those of the argument \<open>u\<close>; sums of widths are far below \<open>usize::MAX\<close>, so the
  saturating additions of the source are plain ones.
\<close>

section \<open>Cells of a line\<close>

definition display_grapheme :: "unicode \<Rightarrow> rstr \<Rightarrow> nat \<Rightarrow> rstr \<times> nat" where
  "display_grapheme u g column =
     (let width = grapheme_cell_width u g column in
      (if g = [9] then replicate width 32 else if list_ex is_control g then [0xFFFD] else g, width))"

fun truncate_from :: "unicode \<Rightarrow> nat \<Rightarrow> nat \<Rightarrow> rstr list \<Rightarrow> rstr" where
  "truncate_from u width cells [] = []"
| "truncate_from u width cells (g # gs) =
     (let (display, w) = display_grapheme u g cells in
      if cells + w > width then [] else display @ truncate_from u width (cells + w) gs)"

definition truncate_cells :: "unicode \<Rightarrow> rstr \<Rightarrow> nat \<Rightarrow> rstr" where
  "truncate_cells u s width = truncate_from u width 0 (graphemes_of u s)"

definition cells_from :: "unicode \<Rightarrow> nat \<Rightarrow> rstr list \<Rightarrow> nat" where
  "cells_from u cells gs = foldl (\<lambda>cells g. cells + grapheme_cell_width u g cells) cells gs"

definition terminal_cell_width :: "unicode \<Rightarrow> rstr \<Rightarrow> nat" where
  "terminal_cell_width u s = cells_from u 0 (graphemes_of u s)"

definition terminal_cell_width_u16 :: "unicode \<Rightarrow> rstr \<Rightarrow> nat" where
  "terminal_cell_width_u16 u s = (if terminal_cell_width u s < 65536 then terminal_cell_width u s else 65535)"

definition ellipsize_cells :: "unicode \<Rightarrow> rstr \<Rightarrow> nat \<Rightarrow> rstr" where
  "ellipsize_cells u s width =
     (if terminal_cell_width u s \<le> width then truncate_cells u s width
      else if width = 0 then [] else truncate_cells u s (width - 1) @ [0x2026])"

fun cursor_from :: "unicode \<Rightarrow> nat \<Rightarrow> nat \<Rightarrow> (nat \<times> rstr) list \<Rightarrow> nat" where
  "cursor_from u cursor cells [] = cells"
| "cursor_from u cursor cells ((byte, g) # gs) =
     (if byte + str_len g > cursor then cells else cursor_from u cursor (cells + grapheme_cell_width u g cells) gs)"

definition cursor_cell :: "unicode \<Rightarrow> rstr \<Rightarrow> nat \<Rightarrow> nat" where
  "cursor_cell u s cursor_byte = cursor_from u (min cursor_byte (str_len s)) 0 (with_offsets 0 (graphemes_of u s))"

fun byte_from :: "unicode \<Rightarrow> nat \<Rightarrow> nat \<Rightarrow> (nat \<times> rstr) list \<Rightarrow> nat option" where
  "byte_from u target cells [] = None"
| "byte_from u target cells ((byte, g) # gs) =
     (let width = grapheme_cell_width u g cells in
      if target < cells + width then Some byte else byte_from u target (cells + width) gs)"

definition byte_at_display_cell :: "unicode \<Rightarrow> rstr \<Rightarrow> nat \<Rightarrow> nat" where
  "byte_at_display_cell u s target =
     (case byte_from u target 0 (with_offsets 0 (graphemes_of u s)) of None \<Rightarrow> str_len s | Some byte \<Rightarrow> byte)"

section \<open>Words\<close>

text \<open>The argument \<open>bounds\<close> gives the segments between the word bounds of a text, each with whether it holds a word.\<close>

fun segments_from :: "nat \<Rightarrow> (rstr \<times> bool) list \<Rightarrow> (nat \<times> nat) list" where
  "segments_from k [] = []"
| "segments_from k ((segment, is_word) # rest) =
     (if is_word then [(k, k + str_len segment)] else []) @ segments_from (k + str_len segment) rest"

definition word_segments :: "(rstr \<Rightarrow> (rstr \<times> bool) list) \<Rightarrow> rstr \<Rightarrow> (nat \<times> nat) list" where
  "word_segments bounds s = segments_from 0 (bounds s)"

definition word_back :: "(rstr \<Rightarrow> (rstr \<times> bool) list) \<Rightarrow> rstr \<Rightarrow> nat \<Rightarrow> nat" where
  "word_back bounds s cursor =
     (case List.find (\<lambda>(start, _). start < cursor) (rev (word_segments bounds s)) of None \<Rightarrow> 0 | Some (start, _) \<Rightarrow> start)"

definition word_forward :: "(rstr \<Rightarrow> (rstr \<times> bool) list) \<Rightarrow> rstr \<Rightarrow> nat \<Rightarrow> nat" where
  "word_forward bounds s cursor =
     (case List.find (\<lambda>(_, e). cursor < e) (word_segments bounds s) of
        None \<Rightarrow> str_len s | Some (start, e) \<Rightarrow> if cursor \<ge> start then e else start)"

section \<open>The window of a field\<close>

record visible_cell_window =
  vw_text :: rstr
  vw_cursor_cell :: nat
  vw_start_cell :: nat

fun display_from :: "unicode \<Rightarrow> nat \<Rightarrow> rstr list \<Rightarrow> (rstr \<times> nat) list" where
  "display_from u cells [] = []"
| "display_from u cells (g # gs) = display_grapheme u g cells # display_from u (cells + snd (display_grapheme u g cells)) gs"

definition display_graphemes :: "unicode \<Rightarrow> rstr \<Rightarrow> (rstr \<times> nat) list" where
  "display_graphemes u s = display_from u 0 (graphemes_of u s)"

fun scroll_to :: "nat \<Rightarrow> nat \<Rightarrow> nat \<Rightarrow> (rstr \<times> nat) list \<Rightarrow> nat \<times> (rstr \<times> nat) list" where
  "scroll_to width cursor start_cell [] = (start_cell, [])"
| "scroll_to width cursor start_cell (g # gs) =
     (if cursor - start_cell > width then scroll_to width cursor (start_cell + snd g) gs else (start_cell, g # gs))"

fun take_cells :: "nat \<Rightarrow> nat \<Rightarrow> (rstr \<times> nat) list \<Rightarrow> rstr" where
  "take_cells width cells [] = []"
| "take_cells width cells ((display, w) # gs) = (if cells + w > width then [] else display @ take_cells width (cells + w) gs)"

definition visible_window :: "unicode \<Rightarrow> rstr \<Rightarrow> nat \<Rightarrow> nat \<Rightarrow> visible_cell_window" where
  "visible_window u s cursor_byte width =
     (if width = 0 then \<lparr>vw_text = [], vw_cursor_cell = 0, vw_start_cell = 0\<rparr>
      else (let cursor = cursor_cell u s cursor_byte;
                (start_cell, rest) = scroll_to width cursor 0 (display_graphemes u s) in
        \<lparr>vw_text = take_cells width 0 rest, vw_cursor_cell = min (cursor - start_cell) width, vw_start_cell = start_cell\<rparr>))"

section \<open>Wrapping\<close>

record visual_line =
  vl_start_byte :: nat
  vl_end_byte :: nat
  vl_logical_line :: nat
  vl_start_grapheme :: nat
  vl_end_grapheme :: nat
  vl_cell_width :: nat
  vl_text :: rstr
  vl_selected_cells :: "(nat \<times> nat) option"

record wrapped_row =
  wr_visual :: visual_line
  wr_start :: nat
  wr_end :: nat

datatype visual_cursor_affinity = PreviousRow | NextRow

definition breakable_whitespace :: "rstr \<Rightarrow> bool" where
  "breakable_whitespace g \<longleftrightarrow> list_all is_whitespace g \<and> 0xa0 \<notin> set g \<and> 0x202f \<notin> set g"

function segment_loop :: "unicode \<Rightarrow> nat \<Rightarrow> rstr list \<Rightarrow> nat \<Rightarrow> nat \<Rightarrow> nat \<Rightarrow> (nat \<times> nat) option \<Rightarrow> nat \<times> nat" where
  "segment_loop u width gs start e cells whitespace_break =
     (if e < length gs
      then (let w = grapheme_cell_width u (gs ! e) cells in
        if e > start \<and> cells + w > width
        then (case whitespace_break of None \<Rightarrow> (e, cells) | Some b \<Rightarrow> b)
        else segment_loop u width gs start (e + 1) (cells + w)
               (if breakable_whitespace (gs ! e) then Some (e + 1, cells + w) else whitespace_break))
      else (e, cells))"
  by pat_completeness auto
termination by (relation "measure (\<lambda>(_, _, gs, _, e, _, _). length gs - e)") auto

declare segment_loop.simps [simp del]

definition segment_end :: "unicode \<Rightarrow> rstr list \<Rightarrow> nat \<Rightarrow> nat \<Rightarrow> nat \<times> nat" where
  "segment_end u gs start width = segment_loop u width gs start start 0 None"

definition display_text :: "unicode \<Rightarrow> rstr list \<Rightarrow> rstr" where
  "display_text u gs = concat (map fst (display_from u 0 gs))"

definition empty_row :: "nat \<Rightarrow> nat \<Rightarrow> nat \<Rightarrow> wrapped_row" where
  "empty_row logical_line byte g =
     \<lparr>wr_visual = \<lparr>vl_start_byte = byte, vl_end_byte = byte, vl_logical_line = logical_line, vl_start_grapheme = g,
        vl_end_grapheme = g, vl_cell_width = 0, vl_text = [], vl_selected_cells = None\<rparr>,
      wr_start = byte, wr_end = byte\<rparr>"

text \<open>Every step of the loop keeps: the cells are those of the graphemes passed, which fit or are a single one, and the
  break is the end of the last breakable one.\<close>

definition segment_state :: "unicode \<Rightarrow> nat \<Rightarrow> rstr list \<Rightarrow> nat \<Rightarrow> nat \<Rightarrow> nat \<Rightarrow> bool" where
  "segment_state u width gs start e cells \<longleftrightarrow> start \<le> e \<and> e \<le> length gs
     \<and> cells = cells_from u 0 (take (e - start) (drop start gs)) \<and> (cells \<le> width \<or> e \<le> start + 1)"

definition break_state :: "unicode \<Rightarrow> nat \<Rightarrow> rstr list \<Rightarrow> nat \<Rightarrow> nat \<Rightarrow> (nat \<times> nat) option \<Rightarrow> bool" where
  "break_state u width gs start e b \<longleftrightarrow> (case b of
       None \<Rightarrow> \<forall>k. start \<le> k \<and> k < e \<longrightarrow> \<not> breakable_whitespace (gs ! k)
     | Some (k, cells) \<Rightarrow> start < k \<and> k \<le> e \<and> segment_state u width gs start k cells \<and> breakable_whitespace (gs ! (k - 1))
         \<and> (\<forall>j. k \<le> j \<and> j < e \<longrightarrow> \<not> breakable_whitespace (gs ! j)))"

text \<open>Where a row ends: at the end of the line, behind the last breakable whitespace that fits, or, without one, before
  the first grapheme that does not fit.\<close>

definition row_ends :: "unicode \<Rightarrow> nat \<Rightarrow> rstr list \<Rightarrow> nat \<Rightarrow> nat \<Rightarrow> nat \<Rightarrow> bool" where
  "row_ends u width gs start e cells \<longleftrightarrow> start < e \<and> segment_state u width gs start e cells
     \<and> (e < length gs \<longrightarrow> breakable_whitespace (gs ! (e - 1))
         \<or> (cells + grapheme_cell_width u (gs ! e) cells > width \<and> (\<forall>k. start \<le> k \<and> k < e \<longrightarrow> \<not> breakable_whitespace (gs ! k))))"

lemma segment_state_step:
  assumes "segment_state u width gs start e cells" "e < length gs" "\<not> (e > start \<and> cells + grapheme_cell_width u (gs ! e) cells > width)"
  shows "segment_state u width gs start (e + 1) (cells + grapheme_cell_width u (gs ! e) cells)"
proof -
  have "take (e + 1 - start) (drop start gs) = take (e - start) (drop start gs) @ [gs ! e]"
    using assms(1,2) take_Suc_conv_app_nth [of "e - start" "drop start gs"]
    by (simp add: segment_state_def Suc_diff_le diff_less_mono)
  then show ?thesis using assms by (auto simp: segment_state_def cells_from_def)
qed

lemma segment_loop_ends:
  assumes "segment_state u width gs start e cells" "break_state u width gs start e b" "start < length gs" "start < e \<or> e = start \<and> b = None"
  shows "case segment_loop u width gs start e cells b of (k, c) \<Rightarrow> row_ends u width gs start k c"
  using assms
proof (induction u width gs start e cells b rule: segment_loop.induct)
  case (1 u width gs start e cells b)
  let ?w = "grapheme_cell_width u (gs ! e) cells"
  let ?stop = "e > start \<and> cells + ?w > width"
  let ?b = "if breakable_whitespace (gs ! e) then Some (e + 1, cells + ?w) else b"
  show ?case
  proof (cases "e < length gs")
    case False
    then show ?thesis using 1 by (auto simp: segment_loop.simps [of u] row_ends_def segment_state_def)
  next
    case lt: True
    show ?thesis
    proof (cases ?stop)
      case True
      then show ?thesis using 1 lt
        by (auto simp: segment_loop.simps [of u] Let_def row_ends_def break_state_def split: option.splits)
    next
      case False
      have "break_state u width gs start (e + 1) ?b"
      proof (cases "breakable_whitespace (gs ! e)")
        case True
        moreover have "start \<le> e" using 1(2) by (simp add: segment_state_def)
        ultimately show ?thesis using segment_state_step [OF 1(2) lt False] by (auto simp: break_state_def)
      next
        case no: False
        have "\<not> breakable_whitespace (gs ! k)" if "k < e + 1" "e \<le> k" for k using that no by (metis Suc_eq_plus1 le_less_Suc_eq)
        then show ?thesis using 1(3) no by (auto simp: break_state_def less_Suc_eq split: option.splits)
      qed
      moreover have "start < e + 1" using 1(2) by (simp add: segment_state_def)
      ultimately have "case segment_loop u width gs start (e + 1) (cells + ?w) ?b of (k, c) \<Rightarrow> row_ends u width gs start k c"
        by (intro 1(1) [OF lt refl False segment_state_step [OF 1(2) lt False]] 1(4) disjI1)
      then show ?thesis unfolding segment_loop.simps [of u width gs start e] Let_def if_P [OF lt] if_not_P [OF False] .
    qed
  qed
qed

lemma segment_end_row:
  "start < length gs \<Longrightarrow> segment_end u gs start width = (e, cells) \<Longrightarrow> row_ends u width gs start e cells"
  using segment_loop_ends [of u width gs start start 0 None]
  by (force simp: segment_end_def segment_state_def break_state_def cells_from_def)

text \<open>The rows of one line: \<open>gs\<close> its graphemes with their offsets.\<close>

function wrap_from :: "unicode \<Rightarrow> nat \<Rightarrow> nat \<Rightarrow> nat \<Rightarrow> rstr \<Rightarrow> (nat \<times> rstr) list \<Rightarrow> nat \<Rightarrow> wrapped_row list" where
  "wrap_from u width logical_line base txt gs start =
     (if start < length gs
      then (let (e, cells) = segment_end u (map snd gs) start width;
                a = base + fst (gs ! start); b = base + (if e < length gs then fst (gs ! e) else str_len txt) in
        \<lparr>wr_visual = \<lparr>vl_start_byte = a, vl_end_byte = b, vl_logical_line = logical_line, vl_start_grapheme = start,
           vl_end_grapheme = e, vl_cell_width = cells, vl_text = display_text u (take (e - start) (drop start (map snd gs))),
           vl_selected_cells = None\<rparr>, wr_start = a, wr_end = b\<rparr>
        # wrap_from u width logical_line base txt gs e)
      else [])"
  by pat_completeness auto
termination
proof (relation "measure (\<lambda>(_, _, _, _, _, gs, start). length gs - start)", goal_cases)
  case (2 u width logical_line base t gs start x e cells)
  then have "row_ends u width (map snd gs) start e cells" by (intro segment_end_row) simp_all
  then show ?case using 2 by (simp add: row_ends_def diff_less_mono2)
qed simp

declare wrap_from.simps [simp del]

definition wrap_line :: "unicode \<Rightarrow> rstr \<Rightarrow> nat \<Rightarrow> nat \<times> logical_line \<Rightarrow> wrapped_row list" where
  "wrap_line u content width = (\<lambda>(logical_line, l).
     (let txt = line_text content l; gs = with_offsets 0 (graphemes_of u txt) in
      if gs = [] then [empty_row logical_line (line_start l) 0]
      else (let rows = wrap_from u width logical_line (line_start l) txt gs 0 in
        if vl_cell_width (wr_visual (last rows)) = width
        then rows @ [empty_row logical_line (content_end l) (length gs)] else rows)))"

definition wrap_rows :: "unicode \<Rightarrow> rstr \<Rightarrow> nat \<Rightarrow> wrapped_row list" where
  "wrap_rows u content width = concat (map (wrap_line u content (max width 1)) (enumerate 0 (logical_lines content)))"

section \<open>Positions\<close>

definition row_text :: "rstr \<Rightarrow> wrapped_row \<Rightarrow> rstr" where
  "row_text content row = slice content (wr_start row) (wr_end row)"

definition byte_at_cell :: "unicode \<Rightarrow> rstr \<Rightarrow> wrapped_row \<Rightarrow> nat \<Rightarrow> nat" where
  "byte_at_cell u content row target =
     (case byte_from u target 0 (with_offsets 0 (graphemes_of u (row_text content row))) of
        None \<Rightarrow> wr_end row | Some offset \<Rightarrow> wr_start row + offset)"

definition cell_column_at_byte :: "unicode \<Rightarrow> rstr \<Rightarrow> wrapped_row \<Rightarrow> nat \<Rightarrow> nat" where
  "cell_column_at_byte u content row byte = cells_from u 0 (graphemes_of u (slice content (wr_start row) (min byte (wr_end row))))"

definition position_of :: "('a \<Rightarrow> bool) \<Rightarrow> 'a list \<Rightarrow> nat option" where
  "position_of p xs = (let k = length (takeWhile (\<lambda>x. \<not> p x) xs) in if k < length xs then Some k else None)"

definition rposition_of :: "('a \<Rightarrow> bool) \<Rightarrow> 'a list \<Rightarrow> nat option" where
  "rposition_of p xs = map_option (\<lambda>k. length xs - 1 - k) (position_of p (rev xs))"

definition wrapped_row_index :: "wrapped_row list \<Rightarrow> nat \<Rightarrow> nat" where
  "wrapped_row_index rows byte =
     (case position_of (\<lambda>row. wr_start row = wr_end row \<and> byte = wr_start row \<or> wr_start row \<le> byte \<and> byte < wr_end row) rows of
        Some k \<Rightarrow> k
      | None \<Rightarrow> (case rposition_of (\<lambda>row. wr_start row \<le> byte) rows of Some k \<Rightarrow> k | None \<Rightarrow> 0))"

definition wrapped_row_index_with_affinity :: "wrapped_row list \<Rightarrow> nat \<Rightarrow> visual_cursor_affinity \<Rightarrow> nat" where
  "wrapped_row_index_with_affinity rows byte affinity =
     (let index = wrapped_row_index rows byte in
      if affinity = PreviousRow \<and> index > 0 \<and> wr_start (rows ! index) = byte \<and> wr_end (rows ! (index - 1)) = byte
      then index - 1 else index)"

definition byte_for_position :: "unicode \<Rightarrow> rstr \<Rightarrow> text_position \<Rightarrow> nat" where
  "byte_for_position u content position =
     (let ls = logical_lines content; l = ls ! min (line position) (length ls - 1);
          gs = with_offsets 0 (graphemes_of u (line_text content l)) in
      if grapheme position < length gs then line_start l + fst (gs ! grapheme position) else content_end l)"

definition position_for_byte :: "unicode \<Rightarrow> rstr \<Rightarrow> nat \<Rightarrow> text_position" where
  "position_for_byte u content byte =
     (let byte = min byte (str_len content); ls = logical_lines content;
          index = (case position_of (\<lambda>(index, l). byte < line_end l \<or> index + 1 = length ls) (enumerate 0 ls) of
            Some k \<Rightarrow> k | None \<Rightarrow> length ls - 1);
          l = ls ! index; local_end = min byte (content_end l) - line_start l in
      \<lparr>line = index, grapheme = length (graphemes_of u (slice content (line_start l) (line_start l + local_end)))\<rparr>)"

end
