(* ===== verification/Reflow_Properties.thy ===== *)
theory Reflow_Properties
  imports Reflow_Ink
begin

text \<open>
  What the cleanup of spacing promises: no visible character is lost, added or moved, the annotations that
  stay keep their text, the streaming offset mapper agrees with the mapping of the change set, and the
  refinement of a replacement into positions ends and fails only where the visible characters differ.
\<close>

section \<open>The streaming mapper\<close>

text \<open>The answers to a sequence of queries of one mapper.\<close>

fun stream_offsets :: "offset_mapper \<Rightarrow> (nat \<times> offset_affinity) list \<Rightarrow> nat option list" where
  "stream_offsets m [] = []"
| "stream_offsets m ((offset, affinity) # queries) =
     (let (answer, m') = map_offset_streaming m offset affinity in answer # stream_offsets m' queries)"

abbreviation mapped_from :: "offset_mapper \<Rightarrow> nat \<Rightarrow> offset_affinity \<Rightarrow> nat" where
  "mapped_from m offset affinity \<equiv> map_from offset affinity (om_old_cursor m, om_new_cursor m) (drop (om_index m) (om_changes m))"

lemma streaming_step:
  "om_old_cursor m \<le> offset \<Longrightarrow> map_offset_streaming m offset affinity = (answer, m')
    \<Longrightarrow> answer = Some (mapped_from m offset affinity) \<and> om_old_cursor m' \<le> offset
      \<and> (\<forall>o' a'. offset \<le> o' \<longrightarrow> mapped_from m' o' a' = mapped_from m o' a')"
proof (induction m offset affinity rule: map_offset_streaming.induct)
  case (1 m offset affinity)
  show ?case
  proof (cases "om_index m < length (om_changes m)")
    case False
    then show ?thesis using 1 by (auto simp: map_offset_streaming.simps [of m] moved_offset_def)
  next
    case True
    let ?c = "om_changes m ! om_index m"
    let ?m = "m\<lparr>om_old_cursor := snd (old_range ?c), om_new_cursor := snd (new_range ?c), om_index := om_index m + 1\<rparr>"
    have d: "drop (om_index m) (om_changes m) = ?c # drop (om_index m + 1) (om_changes m)" using True by (simp add: Cons_nth_drop_Suc)
    show ?thesis
    proof (cases "offset < fst (old_range ?c) \<or> is_insertion ?c \<and> offset = fst (old_range ?c) \<or> offset < snd (old_range ?c)")
      case t: True
      then have "map_offset_streaming m offset affinity = (Some (mapped_from m offset affinity), m)"
        using 1(2) True by (auto simp: map_offset_streaming.simps [of m] moved_offset_def d Let_def)
      then show ?thesis using 1(2,3) by auto
    next
      case f: False
      then have f': "\<not> offset < fst (old_range ?c)" "\<not> (is_insertion ?c \<and> offset = fst (old_range ?c))" "\<not> offset < snd (old_range ?c)"
        by blast+
      have step: "map_offset_streaming ?m offset affinity = (answer, m')"
        using 1(3) unfolding map_offset_streaming.simps [of m] Let_def if_P [OF True] if_not_P [OF f'(1)] if_not_P [OF f'(2)] if_not_P [OF f'(3)] .
      have pass: "mapped_from m o' a' = mapped_from ?m o' a'" if "offset \<le> o'" for o' a'
        using f that by (auto simp: d)
      have "answer = Some (mapped_from ?m offset affinity) \<and> om_old_cursor m' \<le> offset
          \<and> (\<forall>o' a'. offset \<le> o' \<longrightarrow> mapped_from m' o' a' = mapped_from ?m o' a')"
        by (rule 1(1) [OF True refl _ _ _ _ step]) (use f in auto)
      then show ?thesis using pass by simp
    qed
  qed
qed

lemma stream_offsets_ok:
  "sorted (map fst queries) \<Longrightarrow> \<forall>x \<in> set queries. om_old_cursor m \<le> fst x
    \<Longrightarrow> stream_offsets m queries = map (\<lambda>(offset, affinity). Some (mapped_from m offset affinity)) queries"
proof (induction queries arbitrary: m)
  case (Cons x queries)
  obtain offset affinity where x: "x = (offset, affinity)" by force
  obtain answer m' where s: "map_offset_streaming m offset affinity = (answer, m')" by force
  have le: "om_old_cursor m \<le> offset" using Cons.prems(2) by (simp add: x)
  note step = streaming_step [OF le s]
  have "stream_offsets m' queries = map (\<lambda>(offset, affinity). Some (mapped_from m' offset affinity)) queries"
    by (rule Cons.IH) (use Cons.prems(1) step in \<open>force simp: x\<close>)+
  also have "\<dots> = map (\<lambda>(offset, affinity). Some (mapped_from m offset affinity)) queries"
    using Cons.prems(1) step by (auto simp: x)
  finally show ?case using s step by (simp add: x)
qed simp

text \<open>C28: Asked for offsets in ascending order, the mapper that walks the changes once answers each of them as the
  mapping of the change set, which starts over at every offset, would.\<close>

theorem streaming_mapper_equivalent:
  assumes "sorted (map fst queries)"
  shows "stream_offsets (new_mapper (set_changes s)) queries
    = map (\<lambda>(offset, affinity). Some (map_valid_offset s offset affinity)) queries"
  using stream_offsets_ok [OF assms, of "new_mapper (set_changes s)"] by (simp add: new_mapper_def map_valid_offset_def)

theorem streaming_mapper_equivalent_witness:
  "stream_offsets (new_mapper [\<lparr>old_range = (1, 3), new_range = (1, 2)\<rparr>]) [(0, AffinityAfter), (2, AffinityBefore), (5, AffinityAfter)]
    = [Some 0, Some 1, Some 4]"
proof -
  have s: "sorted (map fst [(0 :: nat, AffinityAfter), (2, AffinityBefore), (5, AffinityAfter)])" by simp
  show ?thesis
    using streaming_mapper_equivalent [OF s, of "\<lparr>set_changes = [\<lparr>old_range = (1, 3), new_range = (1, 2)\<rparr>], before_len = 6, after_len = 5\<rparr>"]
    by (simp add: map_valid_offset_def is_insertion_def edge_def)
qed

section \<open>Positions\<close>

lemma position_loop_ink: "(\<exists>changes. position_loop source target xs ys = Inr changes) \<longleftrightarrow> ink xs = ink ys"
proof (induction source target xs ys rule: position_loop.induct)
  case (1 source target xs ys)
  let ?same = "xs \<noteq> [] \<and> ys \<noteq> [] \<and> hd xs = hd ys"
  let ?stuck = "layout_prefix xs = 0 \<and> layout_prefix ys = 0"
  consider "xs = [] \<and> ys = []" | "\<not> (xs = [] \<and> ys = [])" ?same | "\<not> (xs = [] \<and> ys = [])" "\<not> ?same" ?stuck
    | "\<not> (xs = [] \<and> ys = [])" "\<not> ?same" "\<not> ?stuck" by blast
  then show ?case
  proof cases
    case 1
    then show ?thesis by (simp add: position_loop.simps)
  next
    case 2
    then obtain c xs' ys' where "xs = c # xs'" "ys = c # ys'" by (cases xs; cases ys) auto
    then show ?thesis using "1.IH"(1) [OF 2] by (simp add: position_loop.simps [of source])
  next
    case 3
    have tw: "takeWhile is_boundary_whitespace zs = [] \<longleftrightarrow> (case zs of [] \<Rightarrow> True | c # _ \<Rightarrow> \<not> is_boundary_whitespace c)" for zs
      by (cases zs) auto
    have "ink xs \<noteq> ink ys" using 3 by (cases xs; cases ys) (auto simp: layout_prefix_def tw split: if_splits)
    then show ?thesis unfolding position_loop.simps [of source] if_not_P [OF 3(1)] if_not_P [OF 3(2)] if_P [OF 3(3)] by simp
  next
    case 4
    have "ink (dropWhile is_boundary_whitespace zs) = ink zs" for zs by (rule ink_dropWhile)
    then show ?thesis using "1.IH"(2) [OF 4] unfolding position_loop.simps [of source] if_not_P [OF 4(1)] if_not_P [OF 4(2)] if_not_P [OF 4(3)]
      by auto
  qed
qed

text \<open>C29: Refining one replacement into positions always ends, and it reports an error exactly when the old and the new
  text differ in more than blanks and line breaks.\<close>

theorem position_loop_succeeds_iff:
  "(\<exists>changes. position_loop source target xs ys = Inr changes) \<longleftrightarrow> ink xs = ink ys"
  by (rule position_loop_ink)

section \<open>Annotations and outcomes\<close>

text \<open>Every new annotation has its origin, in order; one that is no large paste keeps its kind and its text, and none of
  these is dropped.\<close>

definition tracked :: "rstr \<Rightarrow> rstr \<Rightarrow> content_annotation list \<Rightarrow> content_annotation list \<Rightarrow> (nat \<times> nat) list \<Rightarrow> bool" where
  "tracked content output old new origins \<longleftrightarrow>
     map snd origins = [0..<length new]
     \<and> (\<forall>(i, j) \<in> set origins. i < length old \<and> (\<not> is_large (old ! i) \<longrightarrow> ann_kind (new ! j) = ann_kind (old ! i)
          \<and> str_get output (ann_start (new ! j)) (ann_end (new ! j)) = str_get content (ann_start (old ! i)) (ann_end (old ! i))))
     \<and> (\<forall>i < length old. \<not> is_large (old ! i) \<longrightarrow> i \<in> fst ` set origins)"

lemma tracked_Nil: "tracked content output [] [] []"
  by (simp add: tracked_def)

lemma tracked_drop: "tracked content output old new origins \<Longrightarrow> is_large a \<Longrightarrow> tracked content output (old @ [a]) new origins"
  unfolding tracked_def by (force simp: nth_append less_Suc_eq)

lemma tracked_keep:
  assumes "tracked content output old new origins"
    and "\<not> is_large a \<Longrightarrow> ann_kind b = ann_kind a \<and> str_get output (ann_start b) (ann_end b) = str_get content (ann_start a) (ann_end a)"
  shows "tracked content output (old @ [a]) (new @ [b]) (origins @ [(length old, length new)])"
proof -
  have j: "j < length new" if "(i, j) \<in> set origins" for i j
  proof -
    have "j \<in> set (map snd origins)" using that by force
    then show ?thesis using assms(1) unfolding tracked_def by auto
  qed
  have 1: "map snd (origins @ [(length old, length new)]) = [0..<length (new @ [b])]" using assms(1) by (simp add: tracked_def)
  have 2: "\<forall>(i, k) \<in> set (origins @ [(length old, length new)]). i < length (old @ [a])
      \<and> (\<not> is_large ((old @ [a]) ! i) \<longrightarrow> ann_kind ((new @ [b]) ! k) = ann_kind ((old @ [a]) ! i)
        \<and> str_get output (ann_start ((new @ [b]) ! k)) (ann_end ((new @ [b]) ! k))
          = str_get content (ann_start ((old @ [a]) ! i)) (ann_end ((old @ [a]) ! i)))"
  proof (safe, goal_cases)
    case (1 i k) then show ?case using assms(1) by (auto simp: tracked_def)
  next
    case (2 i k) then show ?case using assms j [of i k] by (auto simp: tracked_def nth_append split: if_splits)
  next
    case (3 i k) then show ?case using assms j [of i k] by (auto simp: tracked_def nth_append split: if_splits)
  qed
  have 3: "\<forall>i < length (old @ [a]). \<not> is_large ((old @ [a]) ! i) \<longrightarrow> i \<in> fst ` set (origins @ [(length old, length new)])"
    using assms(1) by (auto simp: tracked_def nth_append less_Suc_eq)
  show ?thesis unfolding tracked_def using 1 2 3 by blast
qed

lemma reflow_annotation_kept:
  assumes "reflow_annotation u content output a state = Inr (new, state')"
  shows "\<not> is_large a \<longrightarrow> (\<exists>b. new = Some b \<and> ann_kind b = ann_kind a
    \<and> str_get output (ann_start b) (ann_end b) = str_get content (ann_start a) (ann_end a))"
proof
  assume small: "\<not> is_large a"
  obtain mapper isolated where state: "state = (mapper, isolated)" by force
  obtain s0 m1 where 1: "map_offset_streaming mapper (ann_start a) AffinityAfter = (s0, m1)" by force
  obtain e0 m2 where 2: "map_offset_streaming m1 (ann_end a) AffinityBefore = (e0, m2)" by force
  have "try_bind (ok_or InvalidContentAnnotation s0) (\<lambda>start. try_bind (ok_or InvalidContentAnnotation e0) (\<lambda>e.
         if str_get content (ann_start a) (ann_end a) = None
            \<or> str_get content (ann_start a) (ann_end a) \<noteq> str_get output start e
         then Inl InvalidContentAnnotation
         else Inr (Some \<lparr>ann_start = start, ann_end = e, ann_kind = ann_kind a\<rparr>, m2, isolated))) = Inr (new, state')"
    using assms unfolding reflow_annotation_def state prod.case if_not_P [OF small] 1 2 Let_def .
  then show "\<exists>b. new = Some b \<and> ann_kind b = ann_kind a
    \<and> str_get output (ann_start b) (ann_end b) = str_get content (ann_start a) (ann_end a)"
    unfolding try_bind_Inr_iff ok_or_simps by (auto split: if_split_asm)
qed

lemma reflow_annotation_loop_ok:
  "reflow_annotation_loop u content output (length old) as state (new, origins) = Inr (new', origins')
    \<Longrightarrow> tracked content output old new origins
    \<Longrightarrow> tracked content output (old @ as) new' origins' \<and> validate_annotations output new' = Inr ()"
proof (induction as arbitrary: old state new origins)
  case Nil
  obtain mapper isolated where "state = (mapper, isolated)" by force
  then show ?case using Nil by (auto split: if_splits)
next
  case (Cons a as)
  from Cons.prems(1) obtain b state' where b: "reflow_annotation u content output a state = Inr (b, state')"
    and r: "reflow_annotation_loop u content output (length (old @ [a])) as state'
      (case b of None \<Rightarrow> (new, origins) | Some b \<Rightarrow> (new @ [b], origins @ [(length old, length new)])) = Inr (new', origins')"
    by (auto split: prod.splits)
  have "tracked content output (old @ [a]) (fst (case b of None \<Rightarrow> (new, origins) | Some b \<Rightarrow> (new @ [b], origins @ [(length old, length new)])))
      (snd (case b of None \<Rightarrow> (new, origins) | Some b \<Rightarrow> (new @ [b], origins @ [(length old, length new)])))"
    using reflow_annotation_kept [OF b] tracked_drop [OF Cons.prems(2), of a] tracked_keep [OF Cons.prems(2), of a]
    by (auto simp del: is_large.simps split: option.splits)
  from Cons.IH [OF _ this, of state'] r show ?case by simp
qed

lemma changes_between_iff:
  "changes_between content output mapped = Inr s \<Longrightarrow> new_change_set content output (set_changes s) = Inr s"
  by (auto simp: changes_between_def new_change_set_iff)

lemma reflow_slice_changes:
  "reflow_slice u content protected newline = Inr t \<Longrightarrow> new_change_set content (rt_content t) (set_changes (rt_changes t)) = Inr (rt_changes t)"
  by (auto simp: reflow_slice_def apply_replacements_def Let_def changes_between_iff split: prod.splits)

lemma reflow_text_changes:
  assumes "reflow_text_isolated u content protected isolated = Inr t"
  shows "new_change_set content (rt_content t) (set_changes (rt_changes t)) = Inr (rt_changes t)"
proof (cases "contains_unsupported_control content")
  case True
  have "new_change_set content content [] = Inr (unchanged_set (str_len content))" by (simp add: new_change_set_def)
  then show ?thesis using assms True by (auto simp: reflow_text_isolated_def unchanged_text_def unchanged_set_def)
next
  case False
  then show ?thesis using assms
    by (cases "isolated = []") (auto simp: reflow_text_isolated_def Let_def finish_reflow_def changes_between_iff reflow_slice_changes)
qed

section \<open>An evaluated run\<close>

text \<open>Bundles that evaluate the reflow on given text.\<close>

lemma split_at_if:
  "split_at [] n = (if n = 0 then Some ([], []) else None)"
  "split_at (c # s) n = (if n = 0 then Some ([], c # s) else if utf8_len c \<le> n then map_option (apfst (Cons c)) (split_at s (n - utf8_len c)) else None)"
  by (cases n; simp)+

lemmas text_eval = split_at_if slice_def slice_to_def slice_from_def str_get_def get_to_def get_from_def is_char_boundary_def utf8_len_def is_whitespace_def is_control_def
  is_blank_def trim_blanks_def TAB_WIDTH_def grapheme_cell_width_def whitespace_prefix_def indentation_columns_def ascii_def
  trim_def trim_start_def trim_end_def
  parse_base_marker_def parse_task_def parse_list_marker_def is_digit_def is_thematic_break_def fence_def update_fence_def
  logical_lines_def is_separator_char_def prefix_len_def content_column_def indentation_and_prefix_def

lemmas reflow_eval = line_text_def starts_with_def split_whitespace_def trim_matches_def trim_end_matches_def is_windows_path_def is_relative_path_def
  contains_path_or_url_def is_atx_heading_def is_setext_underline_def is_bare_filename_def looks_like_filename_list_def extend_pending_right_def
  scan_grapheme_def aligned_field_starts_def looks_like_aligned_table_def classify_line_def skip_protected_def classify_step_def block_is_structural_def
  classify_lines_def collapse_step_def collapse_inline_def is_aligned_continuation_def indented_def transform_indented_group_def collapsed_lines_def
  transform_list_group_def transform_group_def separator_value_def replacement_range_def replacement_value_def plan_replacements_def apply_replacement_def
  changes_between_def apply_replacements_def reflow_slice_def

lemmas isolated_eval = reflow_text_isolated_def preferred_newline_def reflow_def validate_annotations_def reflow_annotations_def
  new_text_change_def validate_text_range_def new_change_set_def validate_text_changes_def unchanged_text_def unchanged_set_def
  new_mapper_def is_insertion_def

definition reflowed_to :: "unit + text_reflow_projection \<Rightarrow> rstr \<Rightarrow> bool" where
  "reflowed_to result output = (case result of Inr p \<Rightarrow> (case tr_outcome p of TextChanged s _ \<Rightarrow> s = output | _ \<Rightarrow> False) | Inl _ \<Rightarrow> False)"

section \<open>The whole cleanup\<close>

text \<open>C24: Whatever the cleanup of spacing does to a text, it keeps every visible character in its place in their order,
  reports a change set that describes the whole edit, leaves valid annotations, and an annotation other than a large
  paste keeps its kind and covers the same text. An empty result comes from a text of blanks and line breaks only.\<close>

theorem reflow_keeps_text:
  assumes "reflow u content annotations = Inr p"
  shows "case tr_outcome p of
      TextChanged output new \<Rightarrow> ink output = ink content
        \<and> new_change_set content output (set_changes (tr_changes p)) = Inr (tr_changes p)
        \<and> validate_annotations output new = Inr () \<and> tracked content output annotations new (tr_origins p)
    | TextUnchanged \<Rightarrow> set_changes (tr_changes p) = [] \<and> tracked content content annotations annotations (tr_origins p)
    | TextEmpty \<Rightarrow> ink content = []"
proof -
  obtain protected isolated t where t: "reflow_text_isolated u content protected isolated = Inr t"
    and r: "(if rt_content t = []
      then Inr \<lparr>tr_outcome = TextEmpty, tr_changes = rt_changes t, tr_origins = []\<rparr>
      else try_bind (map_err (\<lambda>_. ()) (reflow_annotations u content annotations t)) (\<lambda>(new, origins).
        if set_changes (rt_changes t) = [] \<and> new = annotations
        then Inr \<lparr>tr_outcome = TextUnchanged, tr_changes = rt_changes t, tr_origins = origins\<rparr>
        else Inr \<lparr>tr_outcome = TextChanged (rt_content t) new, tr_changes = rt_changes t, tr_origins = origins\<rparr>)) = Inr p"
    using assms unfolding reflow_def Let_def try_bind_Inr_iff map_err_Inr_iff by blast
  note kept = reflow_text_ink [OF t] and changes = reflow_text_changes [OF t]
  show ?thesis
  proof (cases "rt_content t = []")
    case True
    then show ?thesis using r kept by auto
  next
    case False
    then obtain new origins where a: "reflow_annotations u content annotations t = Inr (new, origins)"
      and p: "p = (if set_changes (rt_changes t) = [] \<and> new = annotations
        then \<lparr>tr_outcome = TextUnchanged, tr_changes = rt_changes t, tr_origins = origins\<rparr>
        else \<lparr>tr_outcome = TextChanged (rt_content t) new, tr_changes = rt_changes t, tr_origins = origins\<rparr>)"
      using r by (auto split: if_splits)
    have "tracked content (rt_content t) annotations new origins \<and> validate_annotations (rt_content t) new = Inr ()"
      using reflow_annotation_loop_ok [of u content "rt_content t" "[]" annotations _ "[]" "[]"] a tracked_Nil
      by (auto simp: reflow_annotations_def)
    moreover have "set_changes (rt_changes t) = [] \<Longrightarrow> rt_content t = content"
      using changes by (auto simp: new_change_set_iff is_script_Nil)
    ultimately show ?thesis using kept changes by (auto simp: p)
  qed
qed

theorem reflow_keeps_text_witness:
  "\<exists>p new. reflow ascii (lit ''a   b'') [] = Inr p \<and> tr_outcome p = TextChanged (lit ''a b'') new \<and> ink (lit ''a b'') = ink (lit ''a   b'')"
proof -
  have "reflowed_to (reflow ascii (lit ''a   b'') []) (lit ''a b'')"
    by (simp add: reflowed_to_def text_eval reflow_eval isolated_eval Let_def)
  then obtain p new where p: "reflow ascii (lit ''a   b'') [] = Inr p" "tr_outcome p = TextChanged (lit ''a b'') new"
    by (auto simp: reflowed_to_def split: sum.splits text_reflow_outcome.splits)
  from reflow_keeps_text [OF p(1)] show ?thesis using p by (intro exI conjI) (assumption, assumption, simp add: p(2))
qed

end
