(* ===== verification/Layout_Properties.thy ===== *)
theory Layout_Properties
  imports Text_Layout Reflow_Properties
begin

text \<open>
  What the layout promises: the rows of a text partition its lines, fit the width and break behind whitespace where
  they can, and a position in lines and graphemes survives the conversion to a byte offset and back.
\<close>

text \<open>What the program relies on in \<open>unicode-segmentation\<close>: the graphemes of a text make up the text, and those of a
  prefix that ends between two graphemes are the graphemes before that place.\<close>

definition segmentation :: "unicode \<Rightarrow> bool" where
  "segmentation u \<longleftrightarrow> (\<forall>t. concat (graphemes_of u t) = t)
     \<and> (\<forall>t k. graphemes_of u (concat (take k (graphemes_of u t))) = take k (graphemes_of u t))"

lemma segmentation_ascii: "segmentation ascii"
  by (simp add: segmentation_def ascii_def take_map)

section \<open>Rows\<close>

fun laid_rows :: "unicode \<Rightarrow> nat \<Rightarrow> nat \<Rightarrow> nat \<Rightarrow> rstr list list \<Rightarrow> wrapped_row list" where
  "laid_rows u i byte k [] = []"
| "laid_rows u i byte k (seg # segs) =
     \<lparr>wr_visual = \<lparr>vl_start_byte = byte, vl_end_byte = byte + str_len (concat seg), vl_logical_line = i, vl_start_grapheme = k,
        vl_end_grapheme = k + length seg, vl_cell_width = cells_from u 0 seg, vl_text = display_text u seg,
        vl_selected_cells = None\<rparr>, wr_start = byte, wr_end = byte + str_len (concat seg)\<rparr>
     # laid_rows u i (byte + str_len (concat seg)) (k + length seg) segs"

text \<open>No row is empty, none is wider than the width unless it is a single grapheme, and a row that is not the last one
  of its line ends behind breakable whitespace, or has none and the next grapheme does not fit.\<close>

fun wrapped_ok :: "unicode \<Rightarrow> nat \<Rightarrow> rstr list list \<Rightarrow> bool" where
  "wrapped_ok u width [] \<longleftrightarrow> True"
| "wrapped_ok u width (seg # segs) \<longleftrightarrow> seg \<noteq> [] \<and> (cells_from u 0 seg \<le> width \<or> length seg = 1)
     \<and> (segs \<noteq> [] \<longrightarrow> breakable_whitespace (last seg)
         \<or> (\<not> list_ex breakable_whitespace seg \<and> cells_from u 0 (seg @ [hd (hd segs)]) > width))
     \<and> wrapped_ok u width segs"

definition line_rows :: "unicode \<Rightarrow> nat \<Rightarrow> nat \<Rightarrow> logical_line \<Rightarrow> rstr list list \<Rightarrow> wrapped_row list" where
  "line_rows u width i l segs = laid_rows u i (line_start l) 0 segs
     @ (if segs = [] then [empty_row i (line_start l) 0]
        else if cells_from u 0 (last segs) = width then [empty_row i (content_end l) (length (concat segs))] else [])"

lemma with_offsets_simps [simp]:
  "length (with_offsets k gs) = length gs" "map snd (with_offsets k gs) = gs"
  "with_offsets k gs = [] \<longleftrightarrow> gs = []"
  by (induction k gs rule: with_offsets.induct) simp_all

lemma nth_with_offsets: "i < length gs \<Longrightarrow> with_offsets k gs ! i = (k + str_len (concat (take i gs)), gs ! i)"
  by (induction k gs arbitrary: i rule: with_offsets.induct) (auto simp: nth_Cons' take_Cons' add.assoc)

lemma take_concat_split: "e \<le> length gs \<Longrightarrow> start \<le> e \<Longrightarrow> take e gs = take start gs @ take (e - start) (drop start gs)"
  by (metis le_add_diff_inverse take_add)

lemma wrap_from_laid:
  assumes "start \<le> length gs" "str = concat gs"
  shows "\<exists>segs. wrap_from u width i base str (with_offsets 0 gs) start
      = laid_rows u i (base + str_len (concat (take start gs))) start segs
    \<and> concat segs = drop start gs \<and> wrapped_ok u width segs"
  using assms(1)
proof (induction "length gs - start" arbitrary: start rule: less_induct)
  case less
  show ?case
  proof (cases "start < length gs")
    case False
    then have "wrap_from u width i base str (with_offsets 0 gs) start = laid_rows u i (base + str_len (concat (take start gs))) start []"
      by (simp add: wrap_from.simps [of u])
    then show ?thesis using False by (intro exI [of _ "[]"]) simp
  next
    case lt: True
    obtain e cells where stop: "segment_end u gs start width = (e, cells)" by force
    note row = segment_end_row [OF lt stop]
    let ?seg = "take (e - start) (drop start gs)"
    have e: "start < e" "e \<le> length gs" "cells = cells_from u 0 ?seg" "cells \<le> width \<or> e = start + 1"
      using row by (auto simp: row_ends_def segment_state_def)
    obtain segs where segs: "wrap_from u width i base str (with_offsets 0 gs) e = laid_rows u i (base + str_len (concat (take e gs))) e segs"
        "concat segs = drop e gs" "wrapped_ok u width segs"
      using less(1) [of e] e lt by (auto simp: diff_less_mono2)
    have split: "take e gs = take start gs @ ?seg" using e by (intro take_concat_split) simp_all
    have to: "(if e < length gs then fst (with_offsets 0 gs ! e) else str_len str) = str_len (concat (take start gs)) + str_len (concat ?seg)"
    proof (cases "e < length gs")
      case True
      then show ?thesis using split by (simp add: nth_with_offsets)
    next
      case False
      then have "take e gs = gs" using e by simp
      then show ?thesis using split False assms(2) by (metis concat_append str_len_simps(3))
    qed
    have ends: "segs \<noteq> [] \<longrightarrow> breakable_whitespace (last ?seg)
        \<or> (\<not> list_ex breakable_whitespace ?seg \<and> cells_from u 0 (?seg @ [hd (hd segs)]) > width)"
    proof
      assume ne: "segs \<noteq> []"
      then have hd: "hd segs \<noteq> []" using segs(3) by (cases segs) auto
      then have "hd (hd segs) = hd (concat segs)" "concat segs \<noteq> []" using ne by (cases segs; auto)+
      then have el: "e < length gs" "hd (hd segs) = gs ! e" using segs(2) by (auto simp: hd_drop_conv_nth)
      have last: "last ?seg = gs ! (e - 1)" using e by (simp add: last_conv_nth)
      have "list_ex breakable_whitespace ?seg \<Longrightarrow> \<exists>k. start \<le> k \<and> k < e \<and> breakable_whitespace (gs ! k)"
        using e by (auto simp: list_ex_length) (metis add.commute le_add2 less_diff_conv)
      then show "breakable_whitespace (last ?seg) \<or> (\<not> list_ex breakable_whitespace ?seg \<and> cells_from u 0 (?seg @ [hd (hd segs)]) > width)"
        using row el last e(3) by (auto simp: row_ends_def cells_from_def)
    qed
    have m: "min (length gs - start) (e - start) = e - start" using e by (simp add: min_absorb2 diff_le_mono)
    have "wrap_from u width i base str (with_offsets 0 gs) start
        = laid_rows u i (base + str_len (concat (take start gs))) start (?seg # segs)"
      using lt stop e to segs(1) split m
      by (simp add: Let_def wrap_from.simps [of u width i base _ "with_offsets 0 gs" start] nth_with_offsets add.assoc)
    moreover have "concat (?seg # segs) = drop start gs" using segs(2) e by (metis append_take_drop_id concat.simps(2) drop_drop le_add_diff_inverse2 less_imp_le)
    moreover have "wrapped_ok u width (?seg # segs)" using segs(3) ends e lt by auto
    ultimately show ?thesis by blast
  qed
qed

lemma laid_rows_last:
  "segs \<noteq> [] \<Longrightarrow> vl_cell_width (wr_visual (last (laid_rows u i byte k segs))) = cells_from u 0 (last segs)"
proof (induction u i byte k segs rule: laid_rows.induct)
  case (2 u i byte k seg segs)
  then show ?case by (cases segs) simp_all
qed simp

lemma wrap_line_laid:
  assumes "segmentation u"
  obtains segs where "wrap_line u content width (i, l) = line_rows u width i l segs"
    "concat segs = graphemes_of u (line_text content l)" "wrapped_ok u width segs"
proof -
  let ?t = "line_text content l"
  have "?t = concat (graphemes_of u ?t)" using assms by (simp add: segmentation_def)
  then obtain segs where segs: "wrap_from u width i (line_start l) ?t (with_offsets 0 (graphemes_of u ?t)) 0
      = laid_rows u i (line_start l) 0 segs" "concat segs = graphemes_of u ?t" "wrapped_ok u width segs"
    using wrap_from_laid [of 0 "graphemes_of u ?t" ?t u width i "line_start l"] by auto
  moreover have "segs = [] \<longleftrightarrow> graphemes_of u ?t = []" using segs(2,3) by (cases segs) auto
  ultimately have "wrap_line u content width (i, l) = line_rows u width i l segs"
    by (cases "segs = []") (simp_all add: wrap_line_def line_rows_def Let_def laid_rows_last)
  then show ?thesis using that segs by blast
qed

text \<open>C30: The rows of a wrapped text are, line by line, consecutive pieces of the graphemes of the line with their bytes,
  cells and displayed text. None is empty but the one row of an empty line and the row opened behind a full last row;
  none is wider than the width, which is at least one, unless it is a single grapheme; and a row that is not the
  last one of its line ends behind breakable whitespace, or has none and the next grapheme does not fit.\<close>

theorem wrap_rows_layout:
  assumes "segmentation u"
  shows "\<exists>segs. wrap_rows u content width
      = concat (map (\<lambda>(i, l). line_rows u (max width 1) i l (segs (i, l))) (enumerate 0 (logical_lines content)))
    \<and> (\<forall>(i, l) \<in> set (enumerate 0 (logical_lines content)).
        concat (segs (i, l)) = graphemes_of u (line_text content l) \<and> wrapped_ok u (max width 1) (segs (i, l)))"
proof -
  have "\<exists>s. wrap_line u content (max width 1) x = line_rows u (max width 1) (fst x) (snd x) s
      \<and> concat s = graphemes_of u (line_text content (snd x)) \<and> wrapped_ok u (max width 1) s" for x
    using wrap_line_laid [OF assms, of content "max width 1" "fst x" "snd x"] by (metis prod.collapse)
  then obtain segs where "\<And>x. wrap_line u content (max width 1) x = line_rows u (max width 1) (fst x) (snd x) (segs x)
      \<and> concat (segs x) = graphemes_of u (line_text content (snd x)) \<and> wrapped_ok u (max width 1) (segs x)"
    by metis
  then show ?thesis by (intro exI [of _ segs]) (auto simp: wrap_rows_def intro!: arg_cong [of _ _ concat])
qed

theorem wrap_rows_layout_witness:
  "map (\<lambda>r. (wr_start r, wr_end r)) (wrap_rows ascii (lit ''ab cd'') 4) = [(0, 3), (3, 5)] \<and>
   (\<exists>segs. wrap_rows ascii (lit ''ab cd'') 4
      = concat (map (\<lambda>(i, l). line_rows ascii (max 4 1) i l (segs (i, l))) (enumerate 0 (logical_lines (lit ''ab cd'')))))"
proof
  show "map (\<lambda>r. (wr_start r, wr_end r)) (wrap_rows ascii (lit ''ab cd'') 4) = [(0, 3), (3, 5)]"
    by (simp add: wrap_rows_def wrap_line_def wrap_from.simps segment_end_def segment_loop.simps text_eval line_text_def
      breakable_whitespace_def Let_def enumerate_eq_zip)
  show "\<exists>segs. wrap_rows ascii (lit ''ab cd'') 4
      = concat (map (\<lambda>(i, l). line_rows ascii (max 4 1) i l (segs (i, l))) (enumerate 0 (logical_lines (lit ''ab cd''))))"
    using wrap_rows_layout [OF segmentation_ascii, of "lit ''ab cd''" 4] by (elim exE conjE) (rule exI)
qed

section \<open>Positions\<close>

lemma position_of_eq: "i < length xs \<Longrightarrow> p (xs ! i) \<Longrightarrow> (\<And>j. j < i \<Longrightarrow> \<not> p (xs ! j)) \<Longrightarrow> position_of p xs = Some i"
proof -
  assume i: "i < length xs" "p (xs ! i)" "\<And>j. j < i \<Longrightarrow> \<not> p (xs ! j)"
  have "takeWhile (\<lambda>x. \<not> p x) xs = take i xs" by (rule takeWhile_eq_take_P_nth) (use i in auto)
  then show ?thesis using i(1) by (simp add: position_of_def min_def)
qed

lemma placed_nth:
  "i < length ps \<Longrightarrow> placed k ps ! i = \<lparr>line_start = k + str_len (whole (take i ps)),
     content_end = k + str_len (whole (take i ps)) + str_len (fst (ps ! i)),
     line_end = k + str_len (whole (take i ps)) + str_len (fst (ps ! i)) + str_len (snd (ps ! i))\<rparr>"
proof (induction k ps arbitrary: i rule: placed.induct)
  case (2 k t e ps)
  then show ?case by (cases i) (simp_all add: add.assoc)
qed simp

lemma whole_take_le: "i \<le> j \<Longrightarrow> str_len (whole (take i ps)) \<le> str_len (whole (take j ps))"
proof -
  assume "i \<le> j"
  then have "take j ps = take i ps @ take (j - i) (drop i ps)" by (metis le_add_diff_inverse take_add)
  then show ?thesis by simp
qed

lemma lines_from_ends: "start \<le> pos \<Longrightarrow> l \<in> set (butlast (lines_from pos start previous s)) \<Longrightarrow> content_end l < line_end l"
proof (induction pos start previous s rule: lines_from.induct)
  case (2 pos start previous c s)
  then show ?case by (auto split: if_splits simp: less_imp_diff_less)
qed simp

lemma logical_line_facts:
  assumes i: "i < length (logical_lines content)"
  shows "line_start (logical_lines content ! i) + str_len (line_text content (logical_lines content ! i)) = content_end (logical_lines content ! i)"
    and "content_end (logical_lines content ! i) \<le> str_len content"
    and "Suc i < length (logical_lines content) \<Longrightarrow> content_end (logical_lines content ! i) < line_end (logical_lines content ! i)"
    and "j < i \<Longrightarrow> line_end (logical_lines content ! j) \<le> line_start (logical_lines content ! i)"
    and "\<exists>p q. content = p @ line_text content (logical_lines content ! i) @ q \<and> str_len p = line_start (logical_lines content ! i)"
proof -
  let ?l = "logical_lines content ! i"
  obtain ps where ps: "logical_lines content = placed 0 ps" "content = whole ps" by (rule logical_lines_placed)
  have il: "i < length ps" using i ps by simp
  have nth: "j < length ps \<Longrightarrow> logical_lines content ! j = \<lparr>line_start = str_len (whole (take j ps)),
     content_end = str_len (whole (take j ps)) + str_len (fst (ps ! j)),
     line_end = str_len (whole (take j ps)) + str_len (fst (ps ! j)) + str_len (snd (ps ! j))\<rparr>" for j
    using placed_nth [of j ps 0] ps by simp
  have ln: "line_text content ?l = fst (ps ! i)"
    using placed_texts [of "[]" ps "[]"] ps il by (metis append_Nil append_Nil2 i length_placed nth_map str_len_simps(1))
  have split: "content = whole (take i ps) @ fst (ps ! i) @ snd (ps ! i) @ whole (drop (Suc i) ps)"
    using ps(2) il id_take_nth_drop [OF il] by (metis append.assoc prod.collapse whole_simps(2) whole_simps(3))
  show "line_start ?l + str_len (line_text content ?l) = content_end ?l" using nth [OF il] ln by simp
  show "content_end ?l \<le> str_len content" using nth [OF il] by (subst split) simp
  show "\<exists>p q. content = p @ line_text content ?l @ q \<and> str_len p = line_start ?l" using split nth [OF il] ln by auto
  show "content_end ?l < line_end ?l" if "Suc i < length (logical_lines content)"
  proof -
    have "?l \<in> set (butlast (logical_lines content))" using that by (metis i in_set_conv_nth length_butlast less_diff_conv nth_butlast Suc_eq_plus1)
    then show ?thesis using lines_from_ends [of 0 0 ?l None content] by (simp add: logical_lines_def)
  qed
  show "line_end (logical_lines content ! j) \<le> line_start ?l" if "j < i"
  proof -
    have jl: "j < length ps" using that il by simp
    have "whole (take (Suc j) ps) = whole (take j ps) @ fst (ps ! j) @ snd (ps ! j)"
      using jl by (simp add: take_Suc_conv_app_nth) (metis prod.collapse whole_simps(1) whole_simps(2) append_Nil2)
    then show ?thesis using whole_take_le [of "Suc j" i ps] that nth [OF jl] nth [OF il] by simp
  qed
qed

text \<open>C31: The byte offset of a position leads back to it, whatever the text and the position: a line or a grapheme
  beyond the end is taken to the end, and every other position is restored exactly.\<close>

theorem position_roundtrip:
  assumes "segmentation u"
  shows "position_for_byte u content (byte_for_position u content position)
    = (let ls = logical_lines content; i = min (line position) (length ls - 1) in
       \<lparr>line = i, grapheme = min (grapheme position) (length (graphemes_of u (line_text content (ls ! i))))\<rparr>)"
proof -
  let ?ls = "logical_lines content"
  define i where "i = min (line position) (length ?ls - 1)"
  let ?l = "?ls ! i" and ?gs = "graphemes_of u (line_text content (?ls ! i))"
  define g where "g = min (grapheme position) (length ?gs)"
  have "?ls \<noteq> []" by (metis logical_lines_placed length_0_conv length_placed)
  then have il: "i < length ?ls" unfolding i_def by (cases ?ls) auto
  note facts = logical_line_facts [OF il]
  have gs: "concat ?gs = line_text content ?l" "graphemes_of u (concat (take g ?gs)) = take g ?gs"
    using assms by (simp_all add: segmentation_def)
  let ?offset = "str_len (concat (take g ?gs))"
  have "line_text content ?l = concat (take g ?gs) @ concat (drop g ?gs)" using gs(1) by (metis append_take_drop_id concat_append)
  then have off: "\<exists>q. line_text content ?l = concat (take g ?gs) @ q" by blast
  then have le: "?offset \<le> str_len (line_text content ?l)" by (metis le_add1 str_len_simps(3))
  have byte: "byte_for_position u content position = line_start ?l + ?offset"
    using facts(1) gs(1) by (auto simp: byte_for_position_def Let_def nth_with_offsets g_def i_def min_def)
  let ?b = "line_start ?l + ?offset"
  have b: "?b \<le> content_end ?l" "min ?b (str_len content) = ?b" using le facts(1,2) by auto
  have "position_of (\<lambda>(index, l). ?b < line_end l \<or> index + 1 = length ?ls) (enumerate 0 ?ls) = Some i"
  proof (rule position_of_eq)
    show "case enumerate 0 ?ls ! i of (index, l) \<Rightarrow> ?b < line_end l \<or> index + 1 = length ?ls"
      using il b(1) facts(3) by (auto simp: nth_enumerate_eq)
    show "\<not> (case enumerate 0 ?ls ! j of (index, l) \<Rightarrow> ?b < line_end l \<or> index + 1 = length ?ls)" if "j < i" for j
      using that il facts(4) [OF that] by (auto simp: nth_enumerate_eq)
  qed (simp add: il)
  moreover have "slice content (line_start ?l) ?b = concat (take g ?gs)"
  proof -
    obtain p q r where "content = p @ line_text content ?l @ q" "str_len p = line_start ?l" "line_text content ?l = concat (take g ?gs) @ r"
      using facts(5) off by blast
    then show ?thesis using slice_mid [of p "concat (take g ?gs)" "r @ q"] by (metis append.assoc)
  qed
  ultimately have "position_for_byte u content ?b = \<lparr>line = i, grapheme = g\<rparr>"
    using b gs(2) by (simp add: position_for_byte_def Let_def min_def g_def)
  then show ?thesis using byte by (simp add: i_def g_def Let_def)
qed

theorem position_roundtrip_witness:
  "position_for_byte ascii (lit ''ab cd'') (byte_for_position ascii (lit ''ab cd'') \<lparr>line = 0, grapheme = 9\<rparr>)
    = (let ls = logical_lines (lit ''ab cd''); i = min 0 (length ls - 1) in
       \<lparr>line = i, grapheme = min 9 (length (graphemes_of ascii (line_text (lit ''ab cd'') (ls ! i))))\<rparr>)"
  using position_roundtrip [OF segmentation_ascii, of "lit ''ab cd''" "\<lparr>line = 0, grapheme = 9\<rparr>"] by simp

end
