(* ===== verification/Update_Values.thy ===== *)
theory Update_Values
  imports Structured_Text Board_Model
begin

text \<open>
  The values of installation-wide updates (\<open>src/domain/update.rs\<close>) and of release highlights
  (\<open>src/domain/release_highlights.rs\<close>, \<open>src/application/release_highlights.rs\<close>). The parser of the crate
  \<open>semver\<close> is the argument \<open>semver\<close>: the three numbers and the two labels of a version. A stable version has no
  labels, so it is printed as its numbers and ordered by them. Decoding of JSON is outside the model, so a manifest is
  validated from its raw groups.
\<close>

section \<open>Stable versions\<close>

datatype stable_version = StableVersion u64 u64 u64

datatype update_value_error = InvalidVersion | InvalidInstallationIdentity | InvalidExternalRestart

type_synonym semver = "rstr \<Rightarrow> (u64 \<times> u64 \<times> u64 \<times> rstr \<times> rstr) option"

fun version_numbers :: "stable_version \<Rightarrow> u64 \<times> u64 \<times> u64" where
  "version_numbers (StableVersion major minor patch) = (major, minor, patch)"

instantiation stable_version :: linorder
begin

fun less_eq_stable_version :: "stable_version \<Rightarrow> stable_version \<Rightarrow> bool" where
  "less_eq_stable_version (StableVersion a b c) (StableVersion x y z) \<longleftrightarrow> a < x \<or> a = x \<and> (b < y \<or> b = y \<and> c \<le> z)"

definition less_stable_version :: "stable_version \<Rightarrow> stable_version \<Rightarrow> bool" where
  "less_stable_version v w \<longleftrightarrow> v \<le> w \<and> \<not> w \<le> v"

instance
proof
  fix x y z :: stable_version
  show "x < y \<longleftrightarrow> x \<le> y \<and> \<not> y \<le> x" by (rule less_stable_version_def)
  show "x \<le> x" by (cases x) simp
  show "x \<le> y \<Longrightarrow> y \<le> z \<Longrightarrow> x \<le> z" by (cases x; cases y; cases z) auto
  show "x \<le> y \<Longrightarrow> y \<le> x \<Longrightarrow> x = y" by (cases x; cases y) auto
  show "x \<le> y \<or> y \<le> x" by (cases x; cases y) auto
qed

end

fun display_version :: "stable_version \<Rightarrow> rstr" where
  "display_version (StableVersion major minor patch) =
     digits_of (unat major) @ [46] @ digits_of (unat minor) @ [46] @ digits_of (unat patch)"

definition parse_version :: "semver \<Rightarrow> rstr \<Rightarrow> update_value_error + stable_version" where
  "parse_version semver s =
     (case semver s of
        None \<Rightarrow> Inl InvalidVersion
      | Some (major, minor, patch, pre, build) \<Rightarrow>
          if pre \<noteq> [] \<or> build \<noteq> [] \<or> display_version (StableVersion major minor patch) \<noteq> s then Inl InvalidVersion
          else Inr (StableVersion major minor patch))"

definition parse_tag :: "semver \<Rightarrow> rstr \<Rightarrow> update_value_error + stable_version" where
  "parse_tag semver s = (case s of [] \<Rightarrow> Inl InvalidVersion | c # rest \<Rightarrow> if c = 118 then parse_version semver rest else Inl InvalidVersion)"

definition version_tag :: "stable_version \<Rightarrow> rstr" where
  "version_tag v = 118 # display_version v"

datatype installed_version_relation = VersionEqual | CurrentOlder | CurrentNewer

definition relation_to_observed :: "stable_version \<Rightarrow> stable_version \<Rightarrow> installed_version_relation" where
  "relation_to_observed current observed =
     (if current = observed then VersionEqual else if current < observed then CurrentOlder else CurrentNewer)"

section \<open>Installations\<close>

datatype installation_kind = HomebrewFormula | StandaloneArchive | SourceOrUnknown

text \<open>The digest has 32 bytes.\<close>

datatype installation_identity = InstallationIdentity "u8 list"

definition INSTALLATION_ID_BYTES :: nat where
  "INSTALLATION_ID_BYTES = 32"

definition hex_digit :: "nat \<Rightarrow> nat" where
  "hex_digit n = (if n < 10 then 48 + n else 87 + n)"

definition hex_value :: "nat \<Rightarrow> nat" where
  "hex_value c = (if c < 58 then c - 48 else c - 87)"

definition is_lower_hex :: "nat \<Rightarrow> bool" where
  "is_lower_hex c \<longleftrightarrow> 48 \<le> c \<and> c \<le> 57 \<or> 97 \<le> c \<and> c \<le> 102"

fun display_identity :: "installation_identity \<Rightarrow> rstr" where
  "display_identity (InstallationIdentity digest) = concat (map (\<lambda>b. [hex_digit (unat b div 16), hex_digit (unat b mod 16)]) digest)"

fun hex_pairs :: "rstr \<Rightarrow> u8 list" where
  "hex_pairs (a # b # s) = of_nat (16 * hex_value a + hex_value b) # hex_pairs s"
| "hex_pairs _ = []"

definition identity_from_str :: "rstr \<Rightarrow> update_value_error + installation_identity" where
  "identity_from_str s =
     (if str_len s \<noteq> INSTALLATION_ID_BYTES * 2 \<or> list_ex (\<lambda>c. \<not> is_lower_hex c) s then Inl InvalidInstallationIdentity
      else Inr (InstallationIdentity (hex_pairs s)))"

record installation =
  in_identity :: installation_identity
  in_kind :: installation_kind
  in_executable :: path
  in_restart_executable :: "path option"

section \<open>External restarts\<close>

record external_restart_expectation =
  er_session_id :: session_id
  er_previous_instance_id :: instance_id
  er_previous_pid :: u32
  er_previous_version :: stable_version

record external_restart_pending =
  ep_target_version :: stable_version
  ep_operation_id :: request_id
  ep_expectations :: "external_restart_expectation list"
  ep_acknowledged :: "external_restart_expectation list"

definition EXTERNAL_RESTART_MAX_EXPECTATIONS :: nat where
  "EXTERNAL_RESTART_MAX_EXPECTATIONS = 32"

fun expectations_unique :: "external_restart_expectation list \<Rightarrow> bool" where
  "expectations_unique [] \<longleftrightarrow> True"
| "expectations_unique (e # es) \<longleftrightarrow> list_all (\<lambda>other. er_session_id e \<noteq> er_session_id other
     \<and> er_previous_instance_id e \<noteq> er_previous_instance_id other) es \<and> expectations_unique es"

definition restart_from_parts :: "stable_version \<Rightarrow> request_id \<Rightarrow> external_restart_expectation list
    \<Rightarrow> external_restart_expectation list \<Rightarrow> update_value_error + external_restart_pending" where
  "restart_from_parts target oid expectations acknowledged =
     (let every = expectations @ acknowledged;
          valid_len = (expectations \<noteq> [] \<and> length every \<le> EXTERNAL_RESTART_MAX_EXPECTATIONS);
          valid_entries = list_all (\<lambda>e. er_previous_pid e > 0 \<and> er_previous_version e < target) every in
      if \<not> valid_len \<or> \<not> valid_entries \<or> \<not> expectations_unique every then Inl InvalidExternalRestart
      else Inr \<lparr>ep_target_version = target, ep_operation_id = oid, ep_expectations = expectations, ep_acknowledged = acknowledged\<rparr>)"

definition new_restart_pending :: "stable_version \<Rightarrow> request_id \<Rightarrow> external_restart_expectation list
    \<Rightarrow> update_value_error + external_restart_pending" where
  "new_restart_pending target oid expectations = restart_from_parts target oid expectations []"

definition expectation_for_session :: "external_restart_pending \<Rightarrow> session_id \<Rightarrow> external_restart_expectation option" where
  "expectation_for_session p sid = List.find (\<lambda>e. er_session_id e = sid) (ep_expectations p)"

definition manually_acknowledged :: "external_restart_pending \<Rightarrow> session_id \<Rightarrow> bool" where
  "manually_acknowledged p sid = list_ex (\<lambda>e. er_session_id e = sid) (ep_acknowledged p)"

fun remove_expectation :: "session_id \<Rightarrow> external_restart_expectation list \<Rightarrow> external_restart_expectation list" where
  "remove_expectation sid [] = []"
| "remove_expectation sid (e # es) = (if er_session_id e = sid then es else e # remove_expectation sid es)"

definition after_manual_resume :: "external_restart_pending \<Rightarrow> session_id \<Rightarrow> update_value_error + external_restart_pending option" where
  "after_manual_resume p sid =
     (case expectation_for_session p sid of
        None \<Rightarrow> Inl InvalidExternalRestart
      | Some restored \<Rightarrow>
          (let remaining = remove_expectation sid (ep_expectations p) in
           if remaining = [] then Inr None
           else try_bind (restart_from_parts (ep_target_version p) (ep_operation_id p) remaining (ep_acknowledged p @ [restored]))
                  (\<lambda>q. Inr (Some q))))"

section \<open>Release highlights\<close>

record highlight_announcement =
  ha_session_id :: session_id
  ha_previous_version :: stable_version
  ha_target_version :: stable_version
  ha_acknowledged :: bool

datatype announcement_error = InvalidVersionRange

definition pending_announcement :: "session_id \<Rightarrow> stable_version \<Rightarrow> stable_version \<Rightarrow> announcement_error + highlight_announcement" where
  "pending_announcement sid previous target =
     (if previous \<ge> target then Inl InvalidVersionRange
      else Inr \<lparr>ha_session_id = sid, ha_previous_version = previous, ha_target_version = target, ha_acknowledged = False\<rparr>)"

definition is_pending_for :: "highlight_announcement \<Rightarrow> session_id \<Rightarrow> stable_version \<Rightarrow> bool" where
  "is_pending_for a sid installed \<longleftrightarrow> \<not> ha_acknowledged a \<and> ha_session_id a = sid \<and> ha_target_version a = installed"

definition same_upgrade :: "highlight_announcement \<Rightarrow> highlight_announcement \<Rightarrow> bool" where
  "same_upgrade a b \<longleftrightarrow> ha_session_id a = ha_session_id b \<and> ha_previous_version a = ha_previous_version b
     \<and> ha_target_version a = ha_target_version b"

definition acknowledge_announcement :: "highlight_announcement \<Rightarrow> highlight_announcement" where
  "acknowledge_announcement a = a\<lparr>ha_acknowledged := True\<rparr>"

record highlight_group =
  hg_version :: stable_version
  hg_highlights :: "rstr list"

datatype highlights_error =
    HighlightsTooLarge | HighlightsMalformed | HighlightsUnsupportedSchema | HighlightsInvalidVersion
  | UnorderedVersions | InvalidItemCount | InvalidHighlight

fun validate_highlight_items :: "rstr list \<Rightarrow> rstr list \<Rightarrow> highlights_error + unit" where
  "validate_highlight_items seen [] = Inr ()"
| "validate_highlight_items seen (h # hs) =
     (if h = [] \<or> trim h \<noteq> h \<or> length h > 240 \<or> list_ex is_control h \<or> h \<in> set seen then Inl InvalidHighlight
      else validate_highlight_items (seen @ [h]) hs)"

definition validate_highlights :: "rstr list \<Rightarrow> highlights_error + unit" where
  "validate_highlights hs = (if length hs < 3 \<or> length hs > 6 then Inl InvalidItemCount else validate_highlight_items [] hs)"

text \<open>A raw manifest is its schema version and its groups; \<open>None\<close> is text that does not decode.\<close>

definition manifest_group :: "semver \<Rightarrow> highlight_group list \<Rightarrow> rstr \<times> rstr list \<Rightarrow> highlights_error + highlight_group list" where
  "manifest_group semver releases = (\<lambda>(version, highlights).
     try_bind (map_err (\<lambda>_. HighlightsInvalidVersion) (parse_version semver version)) (\<lambda>version.
     try_bind (validate_highlights highlights) (\<lambda>_.
       if releases \<noteq> [] \<and> hg_version (last releases) \<ge> version then Inl UnorderedVersions
       else Inr (releases @ [\<lparr>hg_version = version, hg_highlights = highlights\<rparr>]))))"

definition parse_manifest :: "semver \<Rightarrow> (rstr \<Rightarrow> (u32 \<times> (rstr \<times> rstr list) list) option) \<Rightarrow> rstr
    \<Rightarrow> highlights_error + highlight_group list" where
  "parse_manifest semver json s =
     (if str_len s > 64 * 1024 then Inl HighlightsTooLarge
      else (case json s of
          None \<Rightarrow> Inl HighlightsMalformed
        | Some (schema, groups) \<Rightarrow>
            if schema \<noteq> 1 \<or> groups = [] then Inl HighlightsUnsupportedSchema
            else try_fold (manifest_group semver) [] groups))"

definition installed_group :: "highlight_group list \<Rightarrow> stable_version \<Rightarrow> highlight_group option" where
  "installed_group releases version = List.find (\<lambda>g. hg_version g = version) releases"

definition groups_between :: "highlight_group list \<Rightarrow> stable_version \<Rightarrow> stable_version \<Rightarrow> highlight_group list option" where
  "groups_between releases previous target =
     (if previous \<ge> target \<or> installed_group releases target = None then None
      else (let groups = filter (\<lambda>g. hg_version g > previous \<and> hg_version g \<le> target) releases in
        if groups = [] then None else Some groups))"

section \<open>The update cache\<close>

record update_cache_state =
  uc_latest_stable :: "stable_version option"
  uc_refresh_generation :: u64
  uc_last_checked_at :: "timestamp option"
  uc_dismissed_version :: "stable_version option"
  uc_skipped_version :: "stable_version option"
  uc_observed_installed_version :: "stable_version option"
  uc_restart_needed :: bool
  uc_external_restart :: "external_restart_pending option"
  uc_release_highlights :: "highlight_announcement option"
  uc_etag :: "rstr option"

record highlight_selection =
  hs_installed :: "highlight_group option"
  hs_automatic :: "(highlight_announcement \<times> highlight_group list) option"

definition select_highlights :: "highlight_group list \<Rightarrow> update_cache_state \<Rightarrow> session_id \<Rightarrow> stable_version \<Rightarrow> highlight_selection" where
  "select_highlights releases cache sid installed =
     \<lparr>hs_installed = installed_group releases installed,
      hs_automatic = (case uc_release_highlights cache of
          None \<Rightarrow> None
        | Some a \<Rightarrow>
            if \<not> is_pending_for a sid installed then None
            else map_option (Pair a) (groups_between releases (ha_previous_version a) (ha_target_version a)))\<rparr>"

end
