(* ===== verification/Update_Coordination.thy ===== *)
theory Update_Coordination
  imports Update_Values
begin

text \<open>
  The upgrade of all sessions of an installation (\<open>src/application/update_coordination.rs\<close> with \<open>preflight.rs\<close>,
  \<open>quiescence.rs\<close> and \<open>restart.rs\<close>) and the check for a release (\<open>src/application/update.rs\<close>), over the ports of
  \<open>src/ports/update.rs\<close> and \<open>src/ports/runtime.rs\<close>. The ports are the argument \<open>p\<close>: every operation of theirs is a
  function of a world, which it may change as it likes, so nothing is assumed of files, processes or the network. A run
  is a world with the calls made so far to the sessions, to the installer and to the locks, in order; a lease is given
  up where its value is dropped.
\<close>

section \<open>Sessions\<close>

record update_replacement_context =
  rx_operation_id :: request_id
  rx_previous_instance_id :: instance_id
  rx_target_version :: stable_version

record update_instance_context =
  ux_installation_identity :: installation_identity
  ux_protocol :: u32
  ux_replacement :: "update_replacement_context option"

record instance_info =
  ii_instance_id :: instance_id
  ii_session_id :: session_id
  ii_pid :: u32
  ii_version :: rstr
  ii_storage_protocol :: u32
  ii_control_protocol :: "u32 option"
  ii_control_endpoint :: "rstr option"
  ii_update :: "update_instance_context option"
  ii_launch_directory :: rstr
  ii_started_at :: timestamp

definition STORAGE_PROTOCOL_VERSION :: u32 where
  "STORAGE_PROTOCOL_VERSION = 21"

definition CONTROL_PROTOCOL_VERSION :: u32 where
  "CONTROL_PROTOCOL_VERSION = 13"

definition UPDATE_MUTATION_MINIMUM_PROTOCOL :: u32 where
  "UPDATE_MUTATION_MINIMUM_PROTOCOL = 3"

definition UPDATE_CONTROL_PROTOCOL_VERSION :: u32 where
  "UPDATE_CONTROL_PROTOCOL_VERSION = 3"

definition control_protocol_supports :: "u32 option \<Rightarrow> u32 \<Rightarrow> bool" where
  "control_protocol_supports protocol minimum =
     (case protocol of Some version \<Rightarrow> version \<ge> minimum \<and> version \<le> CONTROL_PROTOCOL_VERSION | None \<Rightarrow> False)"

definition is_compatible_update_participant :: "instance_info \<Rightarrow> installation_identity \<Rightarrow> bool" where
  "is_compatible_update_participant participant identity \<longleftrightarrow>
     ii_storage_protocol participant = STORAGE_PROTOCOL_VERSION
     \<and> control_protocol_supports (ii_control_protocol participant) UPDATE_MUTATION_MINIMUM_PROTOCOL
     \<and> ii_control_endpoint participant \<noteq> None
     \<and> (case ii_update participant of None \<Rightarrow> False
        | Some context \<Rightarrow> ux_installation_identity context = identity \<and> ux_protocol context = UPDATE_CONTROL_PROTOCOL_VERSION)"

section \<open>Ports\<close>

datatype update_error =
    UpdateNetwork | UpdateInvalidResponse | UpdateResponseTooLarge | UpdateInstallation rstr | UpdateState rstr
  | UpdateCoordinationFailed rstr | UpdateInstallerFailed

datatype update_lock_kind = LockRefresh | LockPrompt | LockInstaller | LockConvergence

datatype release_observation = ObservedLatest stable_version "rstr option" | NotModified

record update_prepare_request =
  pr_operation_id :: request_id
  pr_target_version :: stable_version
  pr_installation_identity :: installation_identity
  pr_deadline :: timestamp

datatype update_prepare_reply = PrepareReady instance_id session_id | PrepareBlocked instance_id rstr

record update_transition_request =
  tq_operation_id :: request_id
  tq_installed_version :: stable_version

record update_quiesce_reply =
  qr_instance_id :: instance_id
  qr_session_id :: session_id

record update_restart_reply =
  sr_instance_id :: instance_id
  sr_accepted :: bool

record update_replacement_expectation =
  re_session_id :: session_id
  re_previous_instance_id :: instance_id
  re_previous_pid :: u32
  re_operation_id :: request_id

record 'w update_ports =
  up_prepare :: "instance_info \<Rightarrow> update_prepare_request \<Rightarrow> 'w \<Rightarrow> (update_error + update_prepare_reply) \<times> 'w"
  up_release :: "instance_info \<Rightarrow> request_id \<Rightarrow> 'w \<Rightarrow> (update_error + unit) \<times> 'w"
  up_quiesce :: "instance_info \<Rightarrow> update_transition_request \<Rightarrow> 'w \<Rightarrow> (update_error + update_quiesce_reply) \<times> 'w"
  up_restart :: "instance_info \<Rightarrow> update_transition_request \<Rightarrow> 'w \<Rightarrow> (update_error + update_restart_reply) \<times> 'w"
  up_active_instances :: "'w \<Rightarrow> (update_error + instance_info list) \<times> 'w"
  up_wait_for_replacements :: "installation_identity \<Rightarrow> stable_version \<Rightarrow> update_replacement_expectation list \<Rightarrow> nat
     \<Rightarrow> 'w \<Rightarrow> (update_error + instance_id list) \<times> 'w"
  up_upgrade :: "stable_version \<Rightarrow> 'w \<Rightarrow> (update_error + stable_version) \<times> 'w"
  up_load :: "installation_identity \<Rightarrow> 'w \<Rightarrow> (update_error + update_cache_state) \<times> 'w"
  up_try_lock :: "installation_identity \<Rightarrow> update_lock_kind \<Rightarrow> 'w \<Rightarrow> (update_error + bool) \<times> 'w"
  up_unlock :: "update_lock_kind \<Rightarrow> 'w \<Rightarrow> unit \<times> 'w"
  up_begin_refresh :: "installation_identity \<Rightarrow> u64 option \<Rightarrow> 'w \<Rightarrow> (update_error + update_cache_state option) \<times> 'w"
  up_record_success :: "installation_identity \<Rightarrow> release_observation \<Rightarrow> stable_version \<Rightarrow> timestamp
     \<Rightarrow> 'w \<Rightarrow> (update_error + update_cache_state) \<times> 'w"
  up_record_restart_state :: "installation_identity \<Rightarrow> stable_version \<Rightarrow> bool \<Rightarrow> 'w \<Rightarrow> (update_error + update_cache_state) \<times> 'w"
  up_record_highlights :: "installation_identity \<Rightarrow> highlight_announcement \<Rightarrow> 'w \<Rightarrow> (update_error + update_cache_state) \<times> 'w"
  up_discard_highlights :: "installation_identity \<Rightarrow> highlight_announcement \<Rightarrow> 'w \<Rightarrow> (update_error + bool) \<times> 'w"
  up_latest_stable :: "installation_kind \<Rightarrow> rstr option \<Rightarrow> 'w \<Rightarrow> (update_error + release_observation) \<times> 'w"
  up_detect :: "'w \<Rightarrow> (update_error + installation) \<times> 'w"
  up_now :: "'w \<Rightarrow> timestamp \<times> 'w"
  up_is_cancelled :: "'w \<Rightarrow> bool \<times> 'w"

text \<open>A call with what came of it: a receipt that names the session asked, a restart accepted, a lock taken, a change of the cache made.\<close>

datatype external_lease = StartupLease | AdoptionLease

datatype update_call =
    CallPrepare instance_info bool | CallRelease instance_info | CallUpgrade stable_version
  | CallQuiesce instance_info bool | CallRestart instance_info bool
  | CallLock update_lock_kind bool | CallUnlock update_lock_kind
  | CallTake external_lease bool | CallDrop external_lease | CallAdoptCache bool | CallCompleteCache bool

record 'w update_run =
  ur_world :: 'w
  ur_calls :: "update_call list"

definition port_call :: "('w \<Rightarrow> 'a \<times> 'w) \<Rightarrow> ('a \<Rightarrow> update_call list) \<Rightarrow> 'w update_run \<Rightarrow> 'a \<times> 'w update_run" where
  "port_call f calls s = (let (a, w) = f (ur_world s) in (a, \<lparr>ur_world = w, ur_calls = ur_calls s @ calls a\<rparr>))"

definition silent :: "('w \<Rightarrow> 'a \<times> 'w) \<Rightarrow> 'w update_run \<Rightarrow> 'a \<times> 'w update_run" where
  "silent f s = (let (a, w) = f (ur_world s) in (a, s\<lparr>ur_world := w\<rparr>))"

definition try_lock :: "'w update_ports \<Rightarrow> installation_identity \<Rightarrow> update_lock_kind \<Rightarrow> 'w update_run
    \<Rightarrow> (update_error + bool) \<times> 'w update_run" where
  "try_lock p identity kind s = port_call (up_try_lock p identity kind) (\<lambda>taken. [CallLock kind (taken = Inr True)]) s"

definition unlock :: "'w update_ports \<Rightarrow> update_lock_kind \<Rightarrow> 'w update_run \<Rightarrow> 'w update_run" where
  "unlock p kind s = snd (port_call (up_unlock p kind) (\<lambda>_. [CallUnlock kind]) s)"

definition sat_i64 :: "int \<Rightarrow> int" where
  "sat_i64 n = max (- (2 ^ 63)) (min (2 ^ 63 - 1) n)"

section \<open>Reports\<close>

datatype update_execution_status = AlreadyInProgress | UpdateAborted "instance_id option" rstr | UpdateInstalled stable_version

record update_execution =
  ux_operation_id :: request_id
  ux_selected_participants :: nat
  ux_prepared_participants :: nat
  ux_restart_requests :: nat
  ux_quiescence_requests :: nat
  ux_quiesced_participants :: nat
  ux_quiescence_failed :: "instance_id list"
  ux_restart_accepted :: nat
  ux_replacement_ready :: nat
  ux_replacement_missing :: nat
  ux_restart_failed :: "instance_id list"
  ux_resumable_sessions :: "session_id list"
  ux_convergence_state_recorded :: bool
  ux_status :: update_execution_status

definition execution :: "request_id \<Rightarrow> update_execution_status \<Rightarrow> update_execution" where
  "execution oid status = \<lparr>ux_operation_id = oid, ux_selected_participants = 0, ux_prepared_participants = 0,
     ux_restart_requests = 0, ux_quiescence_requests = 0, ux_quiesced_participants = 0, ux_quiescence_failed = [],
     ux_restart_accepted = 0, ux_replacement_ready = 0, ux_replacement_missing = 0, ux_restart_failed = [],
     ux_resumable_sessions = [], ux_convergence_state_recorded = True, ux_status = status\<rparr>"

definition aborted_execution :: "request_id \<Rightarrow> nat \<Rightarrow> nat \<Rightarrow> instance_id option \<Rightarrow> rstr \<Rightarrow> update_execution" where
  "aborted_execution oid selected prepared blocker code = (execution oid (UpdateAborted blocker code))
     \<lparr>ux_selected_participants := selected, ux_prepared_participants := prepared\<rparr>"

section \<open>Preparation\<close>

record update_request =
  rq_operation_id :: request_id
  rq_initiating_instance :: instance_id
  rq_installation :: installation_identity
  rq_target :: stable_version
  rq_deadline :: timestamp

definition matching_instances :: "instance_info list \<Rightarrow> installation_identity \<Rightarrow> instance_info list" where
  "matching_instances instances identity = filter (\<lambda>info. is_compatible_update_participant info identity) instances"

definition validate_reply :: "instance_info \<Rightarrow> update_error + update_prepare_reply \<Rightarrow> update_execution_status option" where
  "validate_reply participant reply =
     (case reply of
        Inr (PrepareReady instance session) \<Rightarrow>
          if instance = ii_instance_id participant \<and> session = ii_session_id participant then None
          else Some (UpdateAborted (Some (ii_instance_id participant)) (lit ''invalid_readiness_receipt''))
      | Inr (PrepareBlocked instance code) \<Rightarrow> Some (UpdateAborted (Some instance) code)
      | Inl _ \<Rightarrow> Some (UpdateAborted (Some (ii_instance_id participant)) (lit ''participant_unavailable'')))"

record preflight_failure =
  pf_ready :: "instance_info list"
  pf_blocker :: "instance_id option"
  pf_code :: rstr

fun preflight :: "'w update_ports \<Rightarrow> update_prepare_request \<Rightarrow> instance_info list \<Rightarrow> instance_info list \<Rightarrow> 'w update_run
    \<Rightarrow> (preflight_failure + instance_info list) \<times> 'w update_run" where
  "preflight p request ready [] s = (Inr ready, s)"
| "preflight p request ready (participant # rest) s =
     (let (reply, s) = port_call (up_prepare p participant request) 
              (\<lambda>reply. [CallPrepare participant (validate_reply participant reply = None)]) s in
      case validate_reply participant reply of
        Some status \<Rightarrow>
          (Inl (case status of
             UpdateAborted blocker code \<Rightarrow> \<lparr>pf_ready = ready, pf_blocker = blocker, pf_code = code\<rparr>
           | _ \<Rightarrow> \<lparr>pf_ready = ready, pf_blocker = Some (ii_instance_id participant), pf_code = lit ''invalid_preflight_status''\<rparr>), s)
      | None \<Rightarrow> preflight p request (ready @ [participant]) rest s)"

fun release_all :: "'w update_ports \<Rightarrow> request_id \<Rightarrow> instance_info list \<Rightarrow> 'w update_run \<Rightarrow> 'w update_run" where
  "release_all p oid [] s = s"
| "release_all p oid (participant # rest) s =
     release_all p oid rest (snd (port_call (up_release p participant oid) (\<lambda>_. [CallRelease participant]) s))"

definition initiating_upgrade :: "semver \<Rightarrow> instance_info list \<Rightarrow> instance_id \<Rightarrow> (session_id \<times> stable_version) option" where
  "initiating_upgrade semver prepared initiating =
     Option.bind (List.find (\<lambda>participant. ii_instance_id participant = initiating) prepared) (\<lambda>participant.
       (case parse_version semver (ii_version participant) of
          Inr version \<Rightarrow> Some (ii_session_id participant, version) | Inl _ \<Rightarrow> None))"

record prepared_participants =
  pp_selected :: "instance_info list"
  pp_ready :: "instance_info list"
  pp_initiating_session :: session_id
  pp_previous :: stable_version

definition prepare_request :: "update_request \<Rightarrow> update_prepare_request" where
  "prepare_request request = \<lparr>pr_operation_id = rq_operation_id request, pr_target_version = rq_target request,
     pr_installation_identity = rq_installation request, pr_deadline = rq_deadline request\<rparr>"

text \<open>\<open>Inl\<close> of the outer sum is an error; \<open>Inl\<close> of the inner one a terminal report.\<close>

definition prepare_current :: "semver \<Rightarrow> 'w update_ports \<Rightarrow> update_request \<Rightarrow> 'w update_run
    \<Rightarrow> (update_error + (update_execution + prepared_participants)) \<times> 'w update_run" where
  "prepare_current semver p request s =
     (let (instances, s) = silent (up_active_instances p) s in
      case instances of
        Inl e \<Rightarrow> (Inl e, s)
      | Inr instances \<Rightarrow>
          (let participants = matching_instances instances (rq_installation request);
               oid = rq_operation_id request; selected = length participants in
           if participants = []
           then (Inr (Inl (aborted_execution oid selected 0 None (lit ''no_compatible_participants''))), s)
           else if \<not> list_ex (\<lambda>participant. ii_instance_id participant = rq_initiating_instance request) participants
           then (Inr (Inl (aborted_execution oid selected 0 (Some (rq_initiating_instance request)) (lit ''coordinator_not_registered''))), s)
           else (let (ready, s) = preflight p (prepare_request request) [] participants s in
             case ready of
               Inl failure \<Rightarrow>
                 (Inr (Inl (aborted_execution oid selected (length (pf_ready failure)) (pf_blocker failure) (pf_code failure))),
                  release_all p oid (pf_ready failure) s)
             | Inr ready \<Rightarrow>
                 (case initiating_upgrade semver ready (rq_initiating_instance request) of
                    None \<Rightarrow>
                      (Inr (Inl (aborted_execution oid selected (length ready) (Some (rq_initiating_instance request))
                          (lit ''invalid_coordinator_version''))), release_all p oid ready s)
                  | Some (session, previous) \<Rightarrow>
                      (Inr (Inr \<lparr>pp_selected = participants, pp_ready = ready, pp_initiating_session = session,
                          pp_previous = previous\<rparr>), s)))))"

definition installed_preparation_failed :: "update_request \<Rightarrow> nat \<Rightarrow> nat \<Rightarrow> instance_info list \<Rightarrow> instance_info list
    \<Rightarrow> stable_version \<Rightarrow> bool \<Rightarrow> update_execution" where
  "installed_preparation_failed request selected prepared observed initial installed recorded =
     (let affected = fold (\<lambda>participant affected.
            if list_ex (\<lambda>k. ii_instance_id k = ii_instance_id participant) affected then affected else affected @ [participant])
            observed initial in
      (execution (rq_operation_id request) (UpdateInstalled installed))
        \<lparr>ux_selected_participants := selected, ux_prepared_participants := prepared,
         ux_restart_failed := map ii_instance_id affected, ux_resumable_sessions := map ii_session_id affected,
         ux_convergence_state_recorded := recorded\<rparr>)"

record prepared_upgrade =
  pu_request :: update_request
  pu_ready :: "instance_info list"
  pu_initiating_session :: session_id
  pu_previous :: stable_version
  pu_installed :: stable_version
  pu_state_recorded :: bool

definition prepare_after_install :: "'w update_ports \<Rightarrow> update_request \<Rightarrow> int \<Rightarrow> prepared_participants \<Rightarrow> stable_version \<Rightarrow> bool
    \<Rightarrow> 'w update_run \<Rightarrow> (update_error + (update_execution + prepared_upgrade)) \<times> 'w update_run" where
  "prepare_after_install p request window prepared installed recorded s =
     (let participants = pp_selected prepared;
          (now, s) = silent (up_now p) s;
          request = request\<lparr>rq_deadline := sat_i64 (now + window)\<rparr>;
          oid = rq_operation_id request;
          (instances, s) = silent (up_active_instances p) s in
      case instances of
        Inl e \<Rightarrow> (Inl e, s)
      | Inr instances \<Rightarrow>
          (let current = matching_instances instances (rq_installation request);
               selected = length participants
                 + length (filter (\<lambda>c. \<not> list_ex (\<lambda>i. ii_instance_id i = ii_instance_id c) participants) current);
               (ready, s) = preflight p (prepare_request request) [] current s in
           case ready of
             Inr ready \<Rightarrow>
               if list_ex (\<lambda>participant. ii_instance_id participant = rq_initiating_instance request) ready
               then (Inr (Inr \<lparr>pu_request = request, pu_ready = ready, pu_initiating_session = pp_initiating_session prepared,
                      pu_previous = pp_previous prepared, pu_installed = installed, pu_state_recorded = recorded\<rparr>), s)
               else (Inr (Inl (installed_preparation_failed request selected (length ready) current participants installed recorded)),
                     release_all p oid ready s)
           | Inl failure \<Rightarrow>
               (Inr (Inl (installed_preparation_failed request selected (length (pf_ready failure)) current participants installed recorded)),
                release_all p oid (pf_ready failure) s)))"

section \<open>Quiescence\<close>

record quiescence_progress =
  qp_requested :: nat
  qp_quiesced :: "instance_info list"
  qp_unchanged :: "instance_info list"
  qp_failed :: "instance_id list"

definition runs_version :: "instance_info \<Rightarrow> stable_version \<Rightarrow> bool" where
  "runs_version participant installed \<longleftrightarrow> ii_version participant = display_version installed"

definition quiesced_exactly :: "instance_info \<Rightarrow> update_error + update_quiesce_reply \<Rightarrow> bool" where
  "quiesced_exactly participant reply =
     (case reply of Inr reply \<Rightarrow> qr_instance_id reply = ii_instance_id participant \<and> qr_session_id reply = ii_session_id participant
      | Inl _ \<Rightarrow> False)"

fun quiesce_loop :: "'w update_ports \<Rightarrow> request_id \<Rightarrow> stable_version \<Rightarrow> quiescence_progress \<Rightarrow> instance_info list
    \<Rightarrow> 'w update_run \<Rightarrow> quiescence_progress \<times> 'w update_run" where
  "quiesce_loop p oid installed progress [] s = (progress, s)"
| "quiesce_loop p oid installed progress (participant # rest) s =
     (if runs_version participant installed
      then quiesce_loop p oid installed (progress\<lparr>qp_unchanged := qp_unchanged progress @ [participant]\<rparr>) rest
             (snd (port_call (up_release p participant oid) (\<lambda>_. [CallRelease participant]) s))
      else
        (let progress = progress\<lparr>qp_requested := qp_requested progress + 1\<rparr>;
             (reply, s) = port_call (up_quiesce p participant \<lparr>tq_operation_id = oid, tq_installed_version = installed\<rparr>)
                (\<lambda>reply. [CallQuiesce participant (quiesced_exactly participant reply)]) s in
         quiesce_loop p oid installed
           (if quiesced_exactly participant reply then progress\<lparr>qp_quiesced := qp_quiesced progress @ [participant]\<rparr>
            else progress\<lparr>qp_failed := qp_failed progress @ [ii_instance_id participant]\<rparr>) rest s))"

definition quiesce_prepared :: "'w update_ports \<Rightarrow> instance_info list \<Rightarrow> request_id \<Rightarrow> stable_version
    \<Rightarrow> 'w update_run \<Rightarrow> quiescence_progress \<times> 'w update_run" where
  "quiesce_prepared p prepared oid installed =
     quiesce_loop p oid installed \<lparr>qp_requested = 0, qp_quiesced = [], qp_unchanged = [], qp_failed = []\<rparr> prepared"

section \<open>Restarts\<close>

record restart_progress =
  rp_initiating :: "instance_info option"
  rp_requested :: nat
  rp_accepted :: nat
  rp_failed :: "instance_id list"
  rp_replacements :: "update_replacement_expectation list"

record pending_highlights =
  ph_recorded :: bool
  ph_announcement :: "highlight_announcement option"

definition installed_without_restart :: "'w update_ports \<Rightarrow> instance_info list \<Rightarrow> request_id \<Rightarrow> stable_version \<Rightarrow> bool
    \<Rightarrow> 'w update_run \<Rightarrow> update_execution \<times> 'w update_run" where
  "installed_without_restart p participants oid installed recorded s =
     ((execution oid (UpdateInstalled installed))
        \<lparr>ux_selected_participants := length participants, ux_prepared_participants := length participants,
         ux_restart_failed := map ii_instance_id participants, ux_resumable_sessions := map ii_session_id participants,
         ux_convergence_state_recorded := recorded\<rparr>,
      release_all p oid participants s)"

definition participant_needs_restart :: "instance_info option \<Rightarrow> stable_version \<Rightarrow> bool" where
  "participant_needs_restart participant installed =
     (case participant of Some participant \<Rightarrow> \<not> runs_version participant installed | None \<Rightarrow> False)"

definition accepts_restart :: "instance_info \<Rightarrow> update_error + update_restart_reply \<Rightarrow> bool" where
  "accepts_restart participant reply =
     (case reply of Inr reply \<Rightarrow> sr_instance_id reply = ii_instance_id participant \<and> sr_accepted reply | Inl _ \<Rightarrow> False)"

definition restart_accepted :: "'w update_ports \<Rightarrow> instance_info \<Rightarrow> request_id \<Rightarrow> stable_version \<Rightarrow> 'w update_run
    \<Rightarrow> bool \<times> 'w update_run" where
  "restart_accepted p participant oid installed s =
     (let (reply, s) = port_call (up_restart p participant \<lparr>tq_operation_id = oid, tq_installed_version = installed\<rparr>)
            (\<lambda>reply. [CallRestart participant (accepts_restart participant reply)]) s in
      (accepts_restart participant reply, s))"

definition expectation_of :: "request_id \<Rightarrow> instance_info \<Rightarrow> update_replacement_expectation" where
  "expectation_of oid participant = \<lparr>re_session_id = ii_session_id participant,
     re_previous_instance_id = ii_instance_id participant, re_previous_pid = ii_pid participant, re_operation_id = oid\<rparr>"

fun restart_loop :: "'w update_ports \<Rightarrow> request_id \<Rightarrow> stable_version \<Rightarrow> restart_progress \<Rightarrow> instance_info list
    \<Rightarrow> 'w update_run \<Rightarrow> restart_progress \<times> 'w update_run" where
  "restart_loop p oid installed progress [] s = (progress, s)"
| "restart_loop p oid installed progress (participant # rest) s =
     (if runs_version participant installed then restart_loop p oid installed progress rest s
      else
        (let progress = progress\<lparr>rp_requested := rp_requested progress + 1\<rparr>;
             (ok, s) = restart_accepted p participant oid installed s in
         restart_loop p oid installed
           (if ok then progress\<lparr>rp_accepted := rp_accepted progress + 1,
                         rp_replacements := rp_replacements progress @ [expectation_of oid participant]\<rparr>
            else progress\<lparr>rp_failed := rp_failed progress @ [ii_instance_id participant]\<rparr>) rest s))"

fun take_participant :: "instance_id \<Rightarrow> instance_info list \<Rightarrow> instance_info option \<times> instance_info list" where
  "take_participant i [] = (None, [])"
| "take_participant i (x # xs) =
     (if ii_instance_id x = i then (Some x, xs) else (let (found, rest) = take_participant i xs in (found, x # rest)))"

definition restart_peers :: "'w update_ports \<Rightarrow> instance_info list \<Rightarrow> request_id \<Rightarrow> instance_id \<Rightarrow> stable_version
    \<Rightarrow> 'w update_run \<Rightarrow> restart_progress \<times> 'w update_run" where
  "restart_peers p participants oid initiating installed s =
     (let (found, peers) = take_participant initiating participants in
      restart_loop p oid installed
        \<lparr>rp_initiating = found, rp_requested = 0, rp_accepted = 0, rp_failed = [], rp_replacements = []\<rparr> peers s)"

definition push_new :: "instance_id \<Rightarrow> instance_id list \<Rightarrow> instance_id list" where
  "push_new i failed = (if i \<in> set failed then failed else failed @ [i])"

definition restart_initiating :: "'w update_ports \<Rightarrow> request_id \<Rightarrow> instance_id \<Rightarrow> stable_version \<Rightarrow> bool \<Rightarrow> restart_progress
    \<Rightarrow> 'w update_run \<Rightarrow> restart_progress \<times> 'w update_run" where
  "restart_initiating p oid initiating installed allowed progress s =
     (case rp_initiating progress of
        None \<Rightarrow> (progress\<lparr>rp_failed := push_new initiating (rp_failed progress)\<rparr>, s)
      | Some participant \<Rightarrow>
          if runs_version participant installed then (progress, s)
          else if \<not> allowed then (progress\<lparr>rp_failed := rp_failed progress @ [ii_instance_id participant]\<rparr>, s)
          else
            (let progress = progress\<lparr>rp_requested := rp_requested progress + 1\<rparr>;
                 (ok, s) = restart_accepted p participant oid installed s in
             (if ok then progress\<lparr>rp_accepted := rp_accepted progress + 1\<rparr>
              else progress\<lparr>rp_failed := rp_failed progress @ [ii_instance_id participant]\<rparr>, s)))"

section \<open>Recording the outcome\<close>

definition is_ok :: "'e + 'a \<Rightarrow> bool" where
  "is_ok r = (case r of Inr _ \<Rightarrow> True | Inl _ \<Rightarrow> False)"

definition record_pending_highlights :: "'w update_ports \<Rightarrow> installation_identity \<Rightarrow> session_id option \<Rightarrow> stable_version
    \<Rightarrow> stable_version \<Rightarrow> 'w update_run \<Rightarrow> pending_highlights option \<times> 'w update_run" where
  "record_pending_highlights p identity session previous target s =
     (case session of
        None \<Rightarrow> (None, s)
      | Some session \<Rightarrow>
          if previous = target then (Some \<lparr>ph_recorded = True, ph_announcement = None\<rparr>, s)
          else (case pending_announcement session previous target of
             Inl _ \<Rightarrow> (Some \<lparr>ph_recorded = False, ph_announcement = None\<rparr>, s)
           | Inr announcement \<Rightarrow>
               (let (r, s) = silent (up_record_highlights p identity announcement) s; recorded = is_ok r in
                (Some \<lparr>ph_recorded = recorded, ph_announcement = (if recorded then Some announcement else None)\<rparr>, s))))"

definition record_final_restart_state :: "'w update_ports \<Rightarrow> installation_identity \<Rightarrow> stable_version \<Rightarrow> bool \<Rightarrow> bool
    \<Rightarrow> 'w update_run \<Rightarrow> bool \<times> 'w update_run" where
  "record_final_restart_state p identity installed needed initiating_accepted s =
     (if initiating_accepted then (True, s)
      else (let (r, s) = silent (up_record_restart_state p identity installed needed) s in (is_ok r, s)))"

definition record_converged_highlights :: "'w update_ports \<Rightarrow> update_request \<Rightarrow> restart_progress \<Rightarrow> session_id option
    \<Rightarrow> stable_version \<Rightarrow> stable_version \<Rightarrow> 'w update_run \<Rightarrow> pending_highlights option \<times> 'w update_run" where
  "record_converged_highlights p request progress session previous installed s =
     (if rp_failed progress \<noteq> [] \<or> rp_initiating progress = None then (None, s)
      else (let (cancelled, s) = silent (up_is_cancelled p) s in
        if cancelled then (None, s)
        else record_pending_highlights p (rq_installation request) session previous installed s))"

definition discard_rejected_announcement :: "'w update_ports \<Rightarrow> installation_identity \<Rightarrow> pending_highlights option \<Rightarrow> bool
    \<Rightarrow> bool \<Rightarrow> 'w update_run \<Rightarrow> bool \<times> 'w update_run" where
  "discard_rejected_announcement p identity pending requested accepted s =
     (case pending of
        None \<Rightarrow> (True, s)
      | Some pending \<Rightarrow>
          if \<not> ph_recorded pending then (False, s)
          else if \<not> requested \<or> accepted then (True, s)
          else (case ph_announcement pending of
             None \<Rightarrow> (True, s)
           | Some announcement \<Rightarrow>
               (let (r, s) = silent (up_discard_highlights p identity announcement) s in (r = Inr True, s))))"

section \<open>The upgrade\<close>

definition REPLACEMENT_TIMEOUT_MILLIS :: nat where
  "REPLACEMENT_TIMEOUT_MILLIS = 10000"

definition observe_peer_replacements :: "'w update_ports \<Rightarrow> update_request \<Rightarrow> stable_version \<Rightarrow> restart_progress
    \<Rightarrow> 'w update_run \<Rightarrow> (restart_progress \<times> nat \<times> nat) \<times> 'w update_run" where
  "observe_peer_replacements p request installed progress s =
     (let expected = length (rp_replacements progress);
          timeout = (if rp_failed progress = [] then REPLACEMENT_TIMEOUT_MILLIS else 0);
          (reply, s) = silent (up_wait_for_replacements p (rq_installation request) installed (rp_replacements progress) timeout) s;
          missing = (case reply of Inr missing \<Rightarrow> missing | Inl _ \<Rightarrow> map re_previous_instance_id (rp_replacements progress)) in
      ((progress\<lparr>rp_failed := fold push_new missing (rp_failed progress)\<rparr>, expected - length missing, length missing), s))"

definition restart_and_observe_peers :: "'w update_ports \<Rightarrow> update_request \<Rightarrow> instance_info list \<Rightarrow> stable_version
    \<Rightarrow> 'w update_run \<Rightarrow> (restart_progress \<times> nat \<times> nat) \<times> 'w update_run" where
  "restart_and_observe_peers p request restartable installed s =
     (let (progress, s) = restart_peers p restartable (rq_operation_id request) (rq_initiating_instance request) installed s in
      observe_peer_replacements p request installed progress s)"

definition finish_restart :: "'w update_ports \<Rightarrow> prepared_upgrade \<Rightarrow> quiescence_progress \<Rightarrow> restart_progress \<Rightarrow> nat \<Rightarrow> nat
    \<Rightarrow> 'w update_run \<Rightarrow> update_execution \<times> 'w update_run" where
  "finish_restart p upgrade quiescence progress replaced missing s =
     (let request = pu_request upgrade; installed = pu_installed upgrade; ready = pu_ready upgrade;
          (pending, s) = record_converged_highlights p request progress (Some (pu_initiating_session upgrade))
             (pu_previous upgrade) installed s;
          allowed = list_ex (\<lambda>participant. ii_instance_id participant = rq_initiating_instance request) (qp_quiesced quiescence);
          needs_restart = participant_needs_restart (rp_initiating progress) installed;
          peer_accepted = rp_accepted progress;
          (progress, s) = restart_initiating p (rq_operation_id request) (rq_initiating_instance request) installed allowed progress s;
          initiating_accepted = rp_accepted progress > peer_accepted;
          (announcement_recorded, s) = discard_rejected_announcement p (rq_installation request) pending allowed initiating_accepted s;
          restart_needed = (rp_failed progress \<noteq> [] \<or> needs_restart \<and> \<not> initiating_accepted);
          (final_state, s) = record_final_restart_state p (rq_installation request) installed restart_needed initiating_accepted s in
      (\<lparr>ux_operation_id = rq_operation_id request, ux_selected_participants = length ready,
         ux_prepared_participants = length ready, ux_restart_requests = rp_requested progress,
         ux_quiescence_requests = qp_requested quiescence, ux_quiesced_participants = length (qp_quiesced quiescence),
         ux_quiescence_failed = qp_failed quiescence, ux_restart_accepted = rp_accepted progress,
         ux_replacement_ready = replaced, ux_replacement_missing = missing, ux_restart_failed = rp_failed progress,
         ux_resumable_sessions = map ii_session_id (filter (\<lambda>participant. ii_instance_id participant \<in> set (rp_failed progress)) ready),
         ux_convergence_state_recorded = (pu_state_recorded upgrade \<and> final_state \<and> announcement_recorded
           \<and> (case pending of None \<Rightarrow> True | Some pending \<Rightarrow> ph_recorded pending)),
         ux_status = UpdateInstalled installed\<rparr>, s))"

definition restart_installed :: "'w update_ports \<Rightarrow> prepared_upgrade \<Rightarrow> 'w update_run \<Rightarrow> update_execution \<times> 'w update_run" where
  "restart_installed p upgrade s =
     (let request = pu_request upgrade; oid = rq_operation_id request; installed = pu_installed upgrade;
          (cancelled, s) = silent (up_is_cancelled p) s in
      if cancelled \<or> \<not> pu_state_recorded upgrade
      then (let (report, s) = installed_without_restart p (pu_ready upgrade) oid installed (pu_state_recorded upgrade) s in
            (report, unlock p LockConvergence s))
      else
        (let (quiescence, s) = quiesce_prepared p (pu_ready upgrade) oid installed s;
             s = unlock p LockConvergence s;
             ((progress, replaced, missing), s) =
               restart_and_observe_peers p request (qp_quiesced quiescence @ qp_unchanged quiescence) installed s;
             progress = progress\<lparr>rp_failed := fold push_new (qp_failed quiescence) (rp_failed progress)\<rparr> in
         finish_restart p upgrade quiescence progress replaced missing s))"

definition execute_locked :: "semver \<Rightarrow> 'w update_ports \<Rightarrow> update_request \<Rightarrow> int \<Rightarrow> 'w update_run
    \<Rightarrow> (update_error + update_execution) \<times> 'w update_run" where
  "execute_locked semver p request window s =
     (let (prepared, s) = prepare_current semver p request s in
      case prepared of
        Inl e \<Rightarrow> (Inl e, unlock p LockConvergence s)
      | Inr (Inl report) \<Rightarrow> (Inr report, unlock p LockConvergence s)
      | Inr (Inr prepared) \<Rightarrow>
          (let s = release_all p (rq_operation_id request) (pp_ready prepared) s;
               (installed, s) = port_call (up_upgrade p (rq_target request)) (\<lambda>_. [CallUpgrade (rq_target request)]) s in
           case installed of
             Inl e \<Rightarrow> (Inl e, unlock p LockConvergence s)
           | Inr installed \<Rightarrow>
               if installed \<noteq> rq_target request then (Inl UpdateInstallerFailed, unlock p LockConvergence s)
               else
                 (let (r, s) = silent (up_record_restart_state p (rq_installation request) installed True) s;
                      (after, s) = prepare_after_install p request window prepared installed (is_ok r) s in
                  case after of
                    Inl e \<Rightarrow> (Inl e, unlock p LockConvergence s)
                  | Inr (Inl report) \<Rightarrow> (Inr report, unlock p LockConvergence s)
                  | Inr (Inr upgrade) \<Rightarrow> (let (report, s) = restart_installed p upgrade s in (Inr report, s)))))"

definition execute_update :: "semver \<Rightarrow> 'w update_ports \<Rightarrow> update_request \<Rightarrow> 'w update_run
    \<Rightarrow> (update_error + update_execution) \<times> 'w update_run" where
  "execute_update semver p request s =
     (let oid = rq_operation_id request; identity = rq_installation request;
          (installer, s) = try_lock p identity LockInstaller s in
      case installer of
        Inl e \<Rightarrow> (Inl e, s)
      | Inr False \<Rightarrow> (Inr (execution oid AlreadyInProgress), s)
      | Inr True \<Rightarrow>
          (let (result, s) =
             (let (convergence, s) = try_lock p identity LockConvergence s in
              case convergence of
                Inl e \<Rightarrow> (Inl e, s)
              | Inr False \<Rightarrow> (Inr (execution oid AlreadyInProgress), s)
              | Inr True \<Rightarrow>
                  (let (loaded, s) = silent (up_load p identity) s in
                   case loaded of
                     Inl e \<Rightarrow> (Inl e, unlock p LockConvergence s)
                   | Inr state \<Rightarrow>
                       if uc_external_restart state \<noteq> None
                       then (Inr (execution oid (UpdateAborted None (lit ''external_restart_pending''))), unlock p LockConvergence s)
                       else (let (now, s) = silent (up_now p) s in
                         execute_locked semver p request (max (sat_i64 (rq_deadline request - now)) 0) s))) in
           (result, unlock p LockInstaller s)))"

end
