(* ===== verification/Update_Traces.thy ===== *)
theory Update_Traces
  imports Update_Coordination
begin

text \<open>
  What one upgrade does, call by call: the calls each step of \<open>Update_Coordination\<close> adds to a run, with the report
  that comes out of them. The ports are arbitrary throughout.
\<close>

section \<open>Calls of a run\<close>

definition prepared_calls :: "instance_info list \<Rightarrow> update_call list" where
  "prepared_calls xs = map (\<lambda>x. CallPrepare x True) xs"

definition refused_calls :: "instance_info list \<Rightarrow> update_call list" where
  "refused_calls xs = map (\<lambda>x. CallPrepare x False) xs"

definition quiesce_calls :: "stable_version \<Rightarrow> (instance_info \<times> bool) list \<Rightarrow> update_call list" where
  "quiesce_calls v bs = map (\<lambda>(x, b). if runs_version x v then CallRelease x else CallQuiesce x b) bs"

definition restart_calls :: "(instance_info \<times> bool) list \<Rightarrow> update_call list" where
  "restart_calls bs = map (\<lambda>(x, b). CallRestart x b) bs"

text \<open>The sessions a quiescence log says are quiesced, and those it says are not.\<close>

definition quiesced_of :: "stable_version \<Rightarrow> (instance_info \<times> bool) list \<Rightarrow> instance_info list" where
  "quiesced_of v bs = map fst (filter (\<lambda>(x, b). \<not> runs_version x v \<and> b) bs)"

definition unquiesced_of :: "stable_version \<Rightarrow> (instance_info \<times> bool) list \<Rightarrow> instance_info list" where
  "unquiesced_of v bs = map fst (filter (\<lambda>(x, b). \<not> runs_version x v \<and> \<not> b) bs)"

lemmas call_defs = prepared_calls_def refused_calls_def quiesce_calls_def restart_calls_def quiesced_of_def unquiesced_of_def

lemma calls_silent [simp]: "ur_calls (snd (silent f s)) = ur_calls s"
  by (simp add: silent_def split_beta)

lemma calls_silentD: "silent f s = (a, s') \<Longrightarrow> ur_calls s' = ur_calls s"
  by (auto simp: silent_def split_beta)

lemma calls_portD: "port_call f log s = (a, s') \<Longrightarrow> ur_calls s' = ur_calls s @ log a"
  by (auto simp: port_call_def split_beta)

lemma calls_port_snd: "ur_calls (snd (port_call f log s)) = ur_calls s @ log (fst (port_call f log s))"
  by (simp add: port_call_def split_beta)

lemma calls_unlock [simp]: "ur_calls (unlock p kind s) = ur_calls s @ [CallUnlock kind]"
  by (simp add: unlock_def calls_port_snd)

lemma calls_release_all [simp]: "ur_calls (release_all p oid xs s) = ur_calls s @ map CallRelease xs"
  by (induction p oid xs s rule: release_all.induct) (simp_all add: calls_port_snd)

section \<open>Steps\<close>

lemma preflight_calls:
  assumes "preflight p request ready ps s = (r, s')"
  shows "\<exists>xs zs. ur_calls s' = ur_calls s @ prepared_calls xs @ refused_calls zs \<and> length zs \<le> 1
    \<and> (case r of Inr rs \<Rightarrow> rs = ready @ xs \<and> zs = [] \<and> xs = ps | Inl f \<Rightarrow> pf_ready f = ready @ xs \<and> (\<exists>rest. ps = xs @ rest))"
  using assms
proof (induction p request ready ps s arbitrary: r s' rule: preflight.induct)
  case (1 p request ready s)
  show ?case by (rule exI [of _ "[]"], rule exI [of _ "[]"]) (use 1 in \<open>auto simp: call_defs\<close>)
next
  case (2 p request ready x rest s)
  obtain reply s1 where call: "port_call (up_prepare p x request) (\<lambda>reply. [CallPrepare x (validate_reply x reply = None)]) s = (reply, s1)"
    by fastforce
  note calls = calls_portD [OF call]
  show ?case
  proof (cases "validate_reply x reply")
    case None
    have "preflight p request (ready @ [x]) rest s1 = (r, s')" using 2(2) by (simp add: call None)
    from 2(1) [OF call [symmetric] refl None this] obtain xs zs where
      ih: "ur_calls s' = ur_calls s1 @ prepared_calls xs @ refused_calls zs" "length zs \<le> 1"
        "case r of Inr rs \<Rightarrow> rs = (ready @ [x]) @ xs \<and> zs = [] \<and> xs = rest | Inl f \<Rightarrow> pf_ready f = (ready @ [x]) @ xs \<and> (\<exists>tail. rest = xs @ tail)" by blast
    show ?thesis
      by (rule exI [of _ "x # xs"], rule exI [of _ zs]) (use ih calls None in \<open>auto simp: call_defs split: sum.splits\<close>)
  next
    case (Some status)
    show ?thesis
      by (rule exI [of _ "[]"], rule exI [of _ "[x]"])
        (use 2(2) calls Some in \<open>auto simp: call call_defs split: update_execution_status.splits\<close>)
  qed
qed

lemma quiesce_loop_calls:
  assumes "quiesce_loop p oid v progress ps s = (progress', s')"
  shows "\<exists>bs. ur_calls s' = ur_calls s @ quiesce_calls v bs \<and> map fst bs = ps
    \<and> qp_requested progress' = qp_requested progress + length (quiesced_of v bs) + length (unquiesced_of v bs)
    \<and> qp_quiesced progress' = qp_quiesced progress @ quiesced_of v bs
    \<and> qp_unchanged progress' = qp_unchanged progress @ filter (\<lambda>x. runs_version x v) ps
    \<and> qp_failed progress' = qp_failed progress @ map ii_instance_id (unquiesced_of v bs)"
  using assms
proof (induction p oid v progress ps s arbitrary: progress' s' rule: quiesce_loop.induct)
  case (1 p oid v progress s)
  then show ?case by (simp add: call_defs)
next
  case (2 p oid v progress x rest s)
  show ?case
  proof (cases "runs_version x v")
    case True
    from 2(1) [OF True] 2(3) True obtain bs where
      "ur_calls s' = ur_calls s @ CallRelease x # quiesce_calls v bs" "map fst bs = rest"
      "qp_requested progress' = qp_requested progress + length (quiesced_of v bs) + length (unquiesced_of v bs)"
      "qp_quiesced progress' = qp_quiesced progress @ quiesced_of v bs"
      "qp_unchanged progress' = qp_unchanged progress @ x # filter (\<lambda>x. runs_version x v) rest"
      "qp_failed progress' = qp_failed progress @ map ii_instance_id (unquiesced_of v bs)"
      by (fastforce simp: calls_port_snd)
    then show ?thesis by (intro exI [of _ "(x, True) # bs"]) (simp add: call_defs True)
  next
    case False
    obtain reply s1 where call: "port_call (up_quiesce p x \<lparr>tq_operation_id = oid, tq_installed_version = v\<rparr>)
        (\<lambda>reply. [CallQuiesce x (quiesced_exactly x reply)]) s = (reply, s1)" by fastforce
    note calls = calls_portD [OF call]
    let ?p1 = "progress\<lparr>qp_requested := qp_requested progress + 1\<rparr>"
    let ?p2 = "if quiesced_exactly x reply then ?p1\<lparr>qp_quiesced := qp_quiesced ?p1 @ [x]\<rparr>
               else ?p1\<lparr>qp_failed := qp_failed ?p1 @ [ii_instance_id x]\<rparr>"
    have step: "quiesce_loop p oid v ?p2 rest s1 = (progress', s')" using 2(3) by (simp add: Let_def call False split: if_splits)
    from 2(2) [OF False refl call [symmetric] refl step] obtain bs where
      "ur_calls s' = ur_calls s1 @ quiesce_calls v bs" "map fst bs = rest"
      "qp_requested progress' = qp_requested ?p2 + length (quiesced_of v bs) + length (unquiesced_of v bs)"
      "qp_quiesced progress' = qp_quiesced ?p2 @ quiesced_of v bs"
      "qp_unchanged progress' = qp_unchanged ?p2 @ filter (\<lambda>x. runs_version x v) rest"
      "qp_failed progress' = qp_failed ?p2 @ map ii_instance_id (unquiesced_of v bs)" by blast
    then show ?thesis
      by (intro exI [of _ "(x, quiesced_exactly x reply) # bs"]) (simp add: call_defs False calls)
  qed
qed

lemma restart_acceptedD: "restart_accepted p x oid v s = (ok, s') \<Longrightarrow> ur_calls s' = ur_calls s @ [CallRestart x ok]"
  by (auto simp: restart_accepted_def split_beta calls_port_snd)

lemma restart_loop_calls:
  assumes "restart_loop p oid v progress ps s = (progress', s')"
  shows "\<exists>bs. ur_calls s' = ur_calls s @ restart_calls bs \<and> map fst bs = filter (\<lambda>x. \<not> runs_version x v) ps
    \<and> rp_initiating progress' = rp_initiating progress
    \<and> rp_requested progress' = rp_requested progress + length bs
    \<and> rp_accepted progress' = rp_accepted progress + length (filter snd bs)
    \<and> rp_failed progress' = rp_failed progress @ map (ii_instance_id \<circ> fst) (filter (\<lambda>b. \<not> snd b) bs)
    \<and> rp_replacements progress' = rp_replacements progress @ map (expectation_of oid \<circ> fst) (filter snd bs)"
  using assms
proof (induction p oid v progress ps s arbitrary: progress' s' rule: restart_loop.induct)
  case (1 p oid v progress s)
  then show ?case by (simp add: call_defs)
next
  case (2 p oid v progress x rest s)
  show ?case
  proof (cases "runs_version x v")
    case True
    from 2(1) [OF True] 2(3) True show ?thesis by simp
  next
    case False
    obtain ok s1 where call: "restart_accepted p x oid v s = (ok, s1)" by fastforce
    note calls = restart_acceptedD [OF call]
    let ?p1 = "progress\<lparr>rp_requested := rp_requested progress + 1\<rparr>"
    let ?p2 = "if ok then ?p1\<lparr>rp_accepted := rp_accepted ?p1 + 1, rp_replacements := rp_replacements ?p1 @ [expectation_of oid x]\<rparr>
               else ?p1\<lparr>rp_failed := rp_failed ?p1 @ [ii_instance_id x]\<rparr>"
    have step: "restart_loop p oid v ?p2 rest s1 = (progress', s')" using 2(3) by (simp add: Let_def call False split: if_splits)
    from 2(2) [OF False refl call [symmetric] refl step] obtain bs where
      "ur_calls s' = ur_calls s1 @ restart_calls bs" "map fst bs = filter (\<lambda>x. \<not> runs_version x v) rest"
      "rp_initiating progress' = rp_initiating ?p2"
      "rp_requested progress' = rp_requested ?p2 + length bs"
      "rp_accepted progress' = rp_accepted ?p2 + length (filter snd bs)"
      "rp_failed progress' = rp_failed ?p2 @ map (ii_instance_id \<circ> fst) (filter (\<lambda>b. \<not> snd b) bs)"
      "rp_replacements progress' = rp_replacements ?p2 @ map (expectation_of oid \<circ> fst) (filter snd bs)" by blast
    then show ?thesis by (intro exI [of _ "(x, ok) # bs"]) (simp add: call_defs False calls)
  qed
qed

section \<open>Replacing the sessions\<close>

lemma take_participant_mset:
  "take_participant i xs = (found, rest) \<Longrightarrow> mset xs = mset rest + mset (case found of Some x \<Rightarrow> [x] | None \<Rightarrow> [])"
  by (induction xs arbitrary: found rest) (auto split: if_splits prod.splits)

lemma restart_initiating_calls:
  assumes "restart_initiating p oid i v allowed progress s = (progress', s')"
  shows "\<exists>ds. ur_calls s' = ur_calls s @ restart_calls ds
    \<and> map fst ds = (case rp_initiating progress of None \<Rightarrow> [] | Some x \<Rightarrow> if \<not> runs_version x v \<and> allowed then [x] else [])
    \<and> rp_requested progress' = rp_requested progress + length ds
    \<and> rp_accepted progress' = rp_accepted progress + length (filter snd ds)
    \<and> set (rp_failed progress) \<subseteq> set (rp_failed progress')
    \<and> (\<forall>x. rp_initiating progress = Some x \<longrightarrow> \<not> runs_version x v
         \<longrightarrow> (x, True) \<in> set ds \<or> ii_instance_id x \<in> set (rp_failed progress'))"
proof (cases "rp_initiating progress")
  case None
  then show ?thesis using assms by (intro exI [of _ "[]"]) (auto simp: restart_initiating_def push_new_def call_defs)
next
  case (Some x)
  show ?thesis
  proof (cases "\<not> runs_version x v \<and> allowed")
    case False
    then show ?thesis using assms Some
      by (intro exI [of _ "[]"]) (auto simp: restart_initiating_def call_defs split: if_splits)
  next
    case True
    obtain ok s1 where call: "restart_accepted p x oid v s = (ok, s1)" by fastforce
    show ?thesis using assms Some True restart_acceptedD [OF call]
      by (intro exI [of _ "[(x, ok)]"]) (auto simp: restart_initiating_def call_defs call split: if_splits)
  qed
qed

lemma set_fold_push_new [simp]: "set (fold push_new is js) = set is \<union> set js"
  by (induction "is" arbitrary: js) (auto simp: push_new_def)

lemma observe_peer_replacementsD:
  assumes "observe_peer_replacements p request v progress s = ((progress', replaced, missing), s')"
  shows "ur_calls s' = ur_calls s" "rp_initiating progress' = rp_initiating progress"
    "rp_requested progress' = rp_requested progress" "rp_accepted progress' = rp_accepted progress"
    "set (rp_failed progress) \<subseteq> set (rp_failed progress')"
  using assms by (auto simp: observe_peer_replacements_def Let_def split_beta)

lemma calls_record_pending_highlights: "record_pending_highlights p identity session v w s = (r, s') \<Longrightarrow> ur_calls s' = ur_calls s"
  by (auto simp: record_pending_highlights_def Let_def split: option.splits if_splits sum.splits prod.splits dest!: calls_silentD)

lemma calls_record_converged_highlights:
  "record_converged_highlights p request progress session v w s = (r, s') \<Longrightarrow> ur_calls s' = ur_calls s"
  by (auto simp: record_converged_highlights_def split: if_splits prod.splits dest!: calls_silentD calls_record_pending_highlights)

lemma calls_record_final_restart_state: "record_final_restart_state p identity v b c s = (r, s') \<Longrightarrow> ur_calls s' = ur_calls s"
  by (auto simp: record_final_restart_state_def Let_def split: if_splits prod.splits dest!: calls_silentD)

lemma calls_discard_rejected_announcement:
  "discard_rejected_announcement p identity pending b c s = (r, s') \<Longrightarrow> ur_calls s' = ur_calls s"
  by (auto simp: discard_rejected_announcement_def split: option.splits if_splits prod.splits dest!: calls_silentD)

text \<open>
  A report for sessions \<open>ready\<close>, with the answers \<open>bs\<close> to quiescence and \<open>es\<close> to restarts. A session left alone is
  listed by the instance, and among the sessions to resume under one of the entries \<open>seen\<close> for that instance.
\<close>

definition restart_report :: "stable_version \<Rightarrow> instance_info list \<Rightarrow> instance_info list \<Rightarrow> (instance_info \<times> bool) list
    \<Rightarrow> (instance_info \<times> bool) list \<Rightarrow> update_execution \<Rightarrow> bool" where
  "restart_report v seen ready bs es report \<longleftrightarrow>
     ux_status report = UpdateInstalled v
     \<and> ux_prepared_participants report = length ready
     \<and> ux_quiescence_requests report = length (quiesced_of v bs) + length (unquiesced_of v bs)
     \<and> ux_quiesced_participants report = length (quiesced_of v bs)
     \<and> ux_quiescence_failed report = map ii_instance_id (unquiesced_of v bs)
     \<and> ux_restart_requests report = length es
     \<and> ux_restart_accepted report = length (filter snd es)
     \<and> (\<forall>x\<in>set ready. runs_version x v \<or> (x, True) \<in> set es
          \<or> ii_instance_id x \<in> set (ux_restart_failed report)
             \<and> (\<exists>k\<in>set seen. ii_instance_id k = ii_instance_id x \<and> ii_session_id k \<in> set (ux_resumable_sessions report)))"

lemma finish_restart_calls:
  assumes "finish_restart p upgrade quiescence progress replaced missing s = (report, s')"
  shows "\<exists>ds. ur_calls s' = ur_calls s @ restart_calls ds
    \<and> map fst ds = (case rp_initiating progress of None \<Rightarrow> []
        | Some x \<Rightarrow> if \<not> runs_version x (pu_installed upgrade)
             \<and> list_ex (\<lambda>y. ii_instance_id y = rq_initiating_instance (pu_request upgrade)) (qp_quiesced quiescence) then [x] else [])
    \<and> ux_restart_requests report = rp_requested progress + length ds
    \<and> ux_restart_accepted report = rp_accepted progress + length (filter snd ds)
    \<and> set (rp_failed progress) \<subseteq> set (ux_restart_failed report)
    \<and> (\<forall>x. rp_initiating progress = Some x \<longrightarrow> \<not> runs_version x (pu_installed upgrade)
         \<longrightarrow> (x, True) \<in> set ds \<or> ii_instance_id x \<in> set (ux_restart_failed report))
    \<and> ux_status report = UpdateInstalled (pu_installed upgrade)
    \<and> ux_prepared_participants report = length (pu_ready upgrade)
    \<and> ux_quiescence_requests report = qp_requested quiescence
    \<and> ux_quiesced_participants report = length (qp_quiesced quiescence)
    \<and> ux_quiescence_failed report = qp_failed quiescence
    \<and> (\<forall>x\<in>set (pu_ready upgrade). ii_instance_id x \<in> set (ux_restart_failed report)
         \<longrightarrow> ii_session_id x \<in> set (ux_resumable_sessions report))"
proof -
  let ?request = "pu_request upgrade"
  let ?v = "pu_installed upgrade"
  let ?allowed = "list_ex (\<lambda>y. ii_instance_id y = rq_initiating_instance ?request) (qp_quiesced quiescence)"
  obtain pending s1 where 1: "record_converged_highlights p ?request progress (Some (pu_initiating_session upgrade))
      (pu_previous upgrade) ?v s = (pending, s1)" by fastforce
  obtain progress2 s2 where 2: "restart_initiating p (rq_operation_id ?request) (rq_initiating_instance ?request) ?v ?allowed
      progress s1 = (progress2, s2)" by fastforce
  obtain a s3 where 3: "discard_rejected_announcement p (rq_installation ?request) pending ?allowed
      (rp_accepted progress2 > rp_accepted progress) s2 = (a, s3)" by fastforce
  note calls = calls_record_converged_highlights [OF 1] calls_discard_rejected_announcement [OF 3]
  from assms have s': "ur_calls s' = ur_calls s3" and r: "ux_restart_requests report = rp_requested progress2"
    "ux_restart_accepted report = rp_accepted progress2" "ux_restart_failed report = rp_failed progress2"
    "ux_status report = UpdateInstalled ?v" "ux_prepared_participants report = length (pu_ready upgrade)"
    "ux_quiescence_requests report = qp_requested quiescence" "ux_quiesced_participants report = length (qp_quiesced quiescence)"
    "ux_quiescence_failed report = qp_failed quiescence"
    "ux_resumable_sessions report = map ii_session_id (filter (\<lambda>x. ii_instance_id x \<in> set (rp_failed progress2)) (pu_ready upgrade))"
    by (auto simp: finish_restart_def Let_def 1 2 3 split: prod.splits dest!: calls_record_final_restart_state)
  show ?thesis using restart_initiating_calls [OF 2] by (simp add: calls s' r)
qed

lemma restart_peers_calls:
  assumes "restart_peers p xs oid i v s = (progress, s')"
  shows "\<exists>cs rest. ur_calls s' = ur_calls s @ restart_calls cs \<and> map fst cs = filter (\<lambda>x. \<not> runs_version x v) rest
    \<and> mset xs = mset rest + mset (case rp_initiating progress of Some x \<Rightarrow> [x] | None \<Rightarrow> [])
    \<and> rp_requested progress = length cs \<and> rp_accepted progress = length (filter snd cs)
    \<and> rp_failed progress = map (ii_instance_id \<circ> fst) (filter (\<lambda>b. \<not> snd b) cs)"
proof -
  obtain found rest where t: "take_participant i xs = (found, rest)" by fastforce
  from assms have "restart_loop p oid v \<lparr>rp_initiating = found, rp_requested = 0, rp_accepted = 0, rp_failed = [],
      rp_replacements = []\<rparr> rest s = (progress, s')" by (simp add: restart_peers_def t)
  from restart_loop_calls [OF this] take_participant_mset [OF t] show ?thesis by auto
qed

lemma restarted_subset:
  assumes "mset (quiesced_of v bs @ filter (\<lambda>x. runs_version x v) ys) = mset rest + mset (case found of Some x \<Rightarrow> [x] | None \<Rightarrow> [])"
    and "map fst cs = filter (\<lambda>x. \<not> runs_version x v) rest"
    and "map fst ds = (case found of None \<Rightarrow> [] | Some x \<Rightarrow> if \<not> runs_version x v \<and> allowed then [x] else [])"
  shows "mset (map fst (cs @ ds)) \<subseteq># mset (quiesced_of v bs)"
proof -
  let ?P = "\<lambda>x. \<not> runs_version x v"
  have "mset (quiesced_of v bs) = filter_mset ?P (mset (quiesced_of v bs @ filter (\<lambda>x. runs_version x v) ys))"
    unfolding mset_filter [symmetric] by (auto simp: quiesced_of_def filter_empty_conv intro!: arg_cong [where f = mset] filter_True [symmetric])
  also have "\<dots> = mset (map fst cs) + filter_mset ?P (mset (case found of Some x \<Rightarrow> [x] | None \<Rightarrow> []))"
    by (simp only: assms(1,2) mset_filter filter_union_mset)
  finally have eq: "mset (quiesced_of v bs) = mset (map fst cs) + filter_mset ?P (mset (case found of Some x \<Rightarrow> [x] | None \<Rightarrow> []))" .
  have "mset (map fst ds) \<subseteq># filter_mset ?P (mset (case found of Some x \<Rightarrow> [x] | None \<Rightarrow> []))"
    unfolding assms(3) by (cases found) auto
  then show ?thesis unfolding eq map_append mset_append by (rule subset_mset.add_left_mono)
qed

lemma restarted_or_failed:
  assumes ready: "map fst bs = ready" and x: "x \<in> set ready" "\<not> runs_version x v"
    and rest: "mset (quiesced_of v bs @ filter (\<lambda>x. runs_version x v) ready) = mset rest + mset (case found of Some x \<Rightarrow> [x] | None \<Rightarrow> [])"
    and cs: "map fst cs = filter (\<lambda>x. \<not> runs_version x v) rest"
    and peers: "set (map (ii_instance_id \<circ> fst) (filter (\<lambda>b. \<not> snd b) cs)) \<subseteq> failed"
    and initiating: "found = Some x \<Longrightarrow> (x, True) \<in> set ds \<or> ii_instance_id x \<in> failed"
    and unquiesced: "ii_instance_id ` set (unquiesced_of v bs) \<subseteq> failed"
  shows "(x, True) \<in> set (cs @ ds) \<or> ii_instance_id x \<in> failed"
proof -
  from x(1) ready obtain b where b: "(x, b) \<in> set bs" by force
  show ?thesis
  proof (cases b)
    case False
    then have "x \<in> set (unquiesced_of v bs)" using b x(2) by (force simp: unquiesced_of_def)
    then show ?thesis using unquiesced by blast
  next
    case True
    then have "x \<in># mset (quiesced_of v bs @ filter (\<lambda>x. runs_version x v) ready)" using b x(2) by (force simp: quiesced_of_def)
    then have "x \<in> set rest \<or> found = Some x" unfolding rest by (auto split: option.splits)
    then show ?thesis
    proof
      assume "x \<in> set rest"
      then have "x \<in> set (map fst cs)" using cs x(2) by simp
      then obtain c where "(x, c) \<in> set cs" by force
      then show ?thesis using peers by (cases c) force+
    next
      assume "found = Some x" then show ?thesis using initiating by auto
    qed
  qed
qed

lemma restart_installed_calls:
  assumes run: "restart_installed p upgrade s = (report, s')"
    and seen: "set (pu_ready upgrade) \<subseteq> set seen"
  defines "v \<equiv> pu_installed upgrade" and "ready \<equiv> pu_ready upgrade"
  shows "ur_calls s' = ur_calls s @ map CallRelease ready @ [CallUnlock LockConvergence] \<and> restart_report v seen ready [] [] report
    \<or> (\<exists>bs es. ur_calls s' = ur_calls s @ quiesce_calls v bs @ [CallUnlock LockConvergence] @ restart_calls es
        \<and> map fst bs = ready \<and> mset (map fst es) \<subseteq># mset (quiesced_of v bs) \<and> restart_report v seen ready bs es report)"
proof -
  let ?request = "pu_request upgrade"
  obtain cancelled s1 where 1: "silent (up_is_cancelled p) s = (cancelled, s1)" by fastforce
  note calls1 = calls_silentD [OF 1]
  show ?thesis
  proof (cases "cancelled \<or> \<not> pu_state_recorded upgrade")
    case True
    then show ?thesis using run calls1 seen
      by (auto simp: restart_installed_def Let_def 1 installed_without_restart_def restart_report_def v_def ready_def execution_def call_defs)
  next
    case False
    obtain quiescence s2 where 2: "quiesce_prepared p ready (rq_operation_id ?request) v s1 = (quiescence, s2)" by fastforce
    obtain progress s3 where 3: "restart_peers p (qp_quiesced quiescence @ qp_unchanged quiescence) (rq_operation_id ?request)
        (rq_initiating_instance ?request) v (unlock p LockConvergence s2) = (progress, s3)" by fastforce
    obtain progress2 replaced missing s4 where 4:
      "observe_peer_replacements p ?request v progress s3 = ((progress2, replaced, missing), s4)" by (metis prod_cases3 surj_pair)
    let ?progress3 = "progress2\<lparr>rp_failed := fold push_new (qp_failed quiescence) (rp_failed progress2)\<rparr>"
    have fin: "finish_restart p upgrade quiescence ?progress3 replaced missing s4 = (report, s')"
      using run False by (simp add: restart_installed_def restart_and_observe_peers_def Let_def 1 2 3 4 flip: v_def ready_def)
    from quiesce_loop_calls [OF 2 [unfolded quiesce_prepared_def]] obtain bs where
      q: "ur_calls s2 = ur_calls s1 @ quiesce_calls v bs" "map fst bs = ready"
        "qp_requested quiescence = length (quiesced_of v bs) + length (unquiesced_of v bs)"
        "qp_quiesced quiescence = quiesced_of v bs" "qp_unchanged quiescence = filter (\<lambda>x. runs_version x v) ready"
        "qp_failed quiescence = map ii_instance_id (unquiesced_of v bs)" by auto
    from restart_peers_calls [OF 3] obtain cs rest where
      r: "ur_calls s3 = ur_calls s2 @ [CallUnlock LockConvergence] @ restart_calls cs"
        "map fst cs = filter (\<lambda>x. \<not> runs_version x v) rest"
        "mset (quiesced_of v bs @ filter (\<lambda>x. runs_version x v) ready)
           = mset rest + mset (case rp_initiating progress of Some x \<Rightarrow> [x] | None \<Rightarrow> [])"
        "rp_requested progress = length cs" "rp_accepted progress = length (filter snd cs)"
        "rp_failed progress = map (ii_instance_id \<circ> fst) (filter (\<lambda>b. \<not> snd b) cs)" by (auto simp: q(4,5))
    note o = observe_peer_replacementsD [OF 4]
    from finish_restart_calls [OF fin, folded v_def ready_def] obtain ds where
      f: "ur_calls s' = ur_calls s4 @ restart_calls ds"
        "map fst ds = (case rp_initiating progress of None \<Rightarrow> []
          | Some x \<Rightarrow> if \<not> runs_version x v \<and> list_ex (\<lambda>y. ii_instance_id y = rq_initiating_instance ?request) (qp_quiesced quiescence)
              then [x] else [])"
        "ux_restart_requests report = length cs + length ds"
        "ux_restart_accepted report = length (filter snd cs) + length (filter snd ds)"
        "set (rp_failed progress2) \<union> set (qp_failed quiescence) \<subseteq> set (ux_restart_failed report)"
        "\<And>x. rp_initiating progress = Some x \<Longrightarrow> \<not> runs_version x v
           \<Longrightarrow> (x, True) \<in> set ds \<or> ii_instance_id x \<in> set (ux_restart_failed report)"
        "ux_status report = UpdateInstalled v" "ux_prepared_participants report = length ready"
        "ux_quiescence_requests report = qp_requested quiescence"
        "ux_quiesced_participants report = length (qp_quiesced quiescence)"
        "ux_quiescence_failed report = qp_failed quiescence"
        "\<forall>x\<in>set ready. ii_instance_id x \<in> set (ux_restart_failed report) \<longrightarrow> ii_session_id x \<in> set (ux_resumable_sessions report)"
      by (auto simp: o r(4,5))
    have sub: "mset (map fst (cs @ ds)) \<subseteq># mset (quiesced_of v bs)" by (rule restarted_subset [OF r(3) r(2) f(2)])
    have lost: "(x, True) \<in> set (cs @ ds) \<or> ii_instance_id x \<in> set (ux_restart_failed report)"
      if "x \<in> set ready" "\<not> runs_version x v" for x
      by (rule restarted_or_failed [OF q(2) that r(3) r(2)]) (use f(5) f(6) [OF _ that(2)] o(5) r(6) q(6) in auto)
    have "restart_report v seen ready bs (cs @ ds) report"
      unfolding restart_report_def
    proof (intro conjI ballI)
      fix x assume "x \<in> set ready"
      then show "runs_version x v \<or> (x, True) \<in> set (cs @ ds)
          \<or> ii_instance_id x \<in> set (ux_restart_failed report)
             \<and> (\<exists>k\<in>set seen. ii_instance_id k = ii_instance_id x \<and> ii_session_id k \<in> set (ux_resumable_sessions report))"
        using lost f(12) seen by (auto simp: ready_def)
    qed (simp_all add: f q)
    moreover have "ur_calls s' = ur_calls s @ quiesce_calls v bs @ [CallUnlock LockConvergence] @ restart_calls (cs @ ds)"
      by (simp add: f(1) o(1) r(1) q(1) calls1 restart_calls_def)
    ultimately show ?thesis using q(2) sub by blast
  qed
qed

section \<open>Preparing the sessions\<close>

text \<open>A report of a run that installs nothing.\<close>

definition idle_report :: "update_execution \<Rightarrow> bool" where
  "idle_report report \<longleftrightarrow> (\<forall>w. ux_status report \<noteq> UpdateInstalled w) \<and> ux_quiescence_requests report = 0
     \<and> ux_restart_requests report = 0 \<and> ux_restart_failed report = []"

lemma idle_execution [simp]: "idle_report (execution oid status) \<longleftrightarrow> (\<forall>w. status \<noteq> UpdateInstalled w)"
  by (auto simp: idle_report_def execution_def)

lemma idle_aborted [simp]: "idle_report (aborted_execution oid selected prepared blocker code)"
  by (simp add: idle_report_def aborted_execution_def execution_def)

lemma prepare_current_calls:
  assumes "prepare_current semver p request s = (r, s')"
  shows "\<exists>xs ys. length ys \<le> 1 \<and>
    (case r of
       Inr (Inr prepared) \<Rightarrow> ur_calls s' = ur_calls s @ prepared_calls xs \<and> pp_selected prepared = xs \<and> pp_ready prepared = xs
     | Inr (Inl report) \<Rightarrow> ur_calls s' = ur_calls s @ prepared_calls xs @ refused_calls ys @ map CallRelease xs \<and> idle_report report
     | Inl e \<Rightarrow> ur_calls s' = ur_calls s)"
proof -
  obtain reply s1 where 1: "silent (up_active_instances p) s = (reply, s1)" by fastforce
  note c1 = calls_silentD [OF 1]
  show ?thesis
  proof (cases reply)
    case (Inl e)
    then show ?thesis using assms c1 by (intro exI [of _ "[]"]) (auto simp: prepare_current_def 1)
  next
    case (Inr instances)
    let ?ps = "matching_instances instances (rq_installation request)"
    obtain ready s2 where 2: "preflight p (prepare_request request) [] ?ps s1 = (ready, s2)" by fastforce
    from preflight_calls [OF 2, unfolded append_Nil] obtain xs ys where
      p: "ur_calls s2 = ur_calls s1 @ prepared_calls xs @ refused_calls ys" "length ys \<le> 1"
        "case ready of Inr rs \<Rightarrow> rs = xs \<and> ys = [] \<and> xs = ?ps | Inl f \<Rightarrow> pf_ready f = xs"
      by (cases ready) auto
    show ?thesis
    proof (cases "?ps = [] \<or> \<not> list_ex (\<lambda>x. ii_instance_id x = rq_initiating_instance request) ?ps")
      case True
      then show ?thesis using assms c1 Inr
        by (intro exI [of _ "[]"]) (auto simp: prepare_current_def 1 Let_def call_defs split: if_splits)
    next
      case False
      then show ?thesis using assms c1 Inr p
        by - (rule exI [of _ xs], rule exI [of _ ys],
           auto simp: prepare_current_def 1 2 Let_def call_defs split: if_splits sum.splits option.splits)
    qed
  qed
qed

definition add_missing :: "instance_info \<Rightarrow> instance_info list \<Rightarrow> instance_info list" where
  "add_missing x affected = (if list_ex (\<lambda>k. ii_instance_id k = ii_instance_id x) affected then affected else affected @ [x])"

lemma fold_add_missing_mono: "set init \<subseteq> set (fold add_missing obs init)"
proof (induction obs arbitrary: init)
  case (Cons x obs)
  have "set init \<subseteq> set (add_missing x init)" by (auto simp: add_missing_def)
  then show ?case using Cons [of "add_missing x init"] by auto
qed simp

lemma fold_add_missing_seen:
  "set (fold add_missing ys init) \<subseteq> set init \<union> set ys
   \<and> (\<forall>x\<in>set ys. \<exists>k\<in>set (fold add_missing ys init). ii_instance_id k = ii_instance_id x)"
proof (induction ys arbitrary: init)
  case (Cons x ys)
  obtain k where k: "k \<in> set (add_missing x init)" "ii_instance_id k = ii_instance_id x"
    by (cases "list_ex (\<lambda>k. ii_instance_id k = ii_instance_id x) init") (auto simp: add_missing_def list_ex_iff)
  have sub: "set (add_missing x init) \<subseteq> insert x (set init)" by (auto simp: add_missing_def)
  show ?case using Cons [of "add_missing x init"] k sub fold_add_missing_mono [of "add_missing x init" ys] by fastforce
qed simp

lemma preparation_failed_report:
  "restart_report installed (initial @ ys) ys [] []
     (installed_preparation_failed request selected (length ys) (ys @ rest) initial installed recorded)"
proof -
  let ?affected = "fold add_missing (ys @ rest) initial"
  have aff: "installed_preparation_failed request selected (length ys) (ys @ rest) initial installed recorded
    = (execution (rq_operation_id request) (UpdateInstalled installed))
        \<lparr>ux_selected_participants := selected, ux_prepared_participants := length ys,
         ux_restart_failed := map ii_instance_id ?affected, ux_resumable_sessions := map ii_session_id ?affected,
         ux_convergence_state_recorded := recorded\<rparr>"
    by (simp add: installed_preparation_failed_def Let_def add_missing_def [abs_def])
  have "\<exists>k\<in>set ?affected \<inter> set (initial @ ys). ii_instance_id k = ii_instance_id x" if "x \<in> set ys" for x
    using fold_add_missing_seen [of ys initial] fold_add_missing_mono [of "fold add_missing ys initial" rest] that by fastforce
  then show ?thesis unfolding restart_report_def aff by (auto simp: execution_def call_defs) (metis Int_iff Un_iff image_eqI)+
qed

lemma prepare_after_install_calls:
  assumes "prepare_after_install p request window prepared installed recorded s = (r, s')"
  shows "\<exists>ys zs. length zs \<le> 1 \<and>
    (case r of
       Inr (Inr upgrade) \<Rightarrow> ur_calls s' = ur_calls s @ prepared_calls ys \<and> pu_ready upgrade = ys \<and> pu_installed upgrade = installed
     | Inr (Inl report) \<Rightarrow> ur_calls s' = ur_calls s @ prepared_calls ys @ refused_calls zs @ map CallRelease ys
         \<and> restart_report installed (pp_selected prepared @ ys) ys [] [] report
     | Inl e \<Rightarrow> ur_calls s' = ur_calls s)"
proof -
  obtain now s0 where 0: "silent (up_now p) s = (now, s0)" by fastforce
  let ?request = "request\<lparr>rq_deadline := sat_i64 (now + window)\<rparr>"
  obtain reply s1 where 1: "silent (up_active_instances p) s0 = (reply, s1)" by fastforce
  note c = calls_silentD [OF 0] calls_silentD [OF 1]
  show ?thesis
  proof (cases reply)
    case (Inl e)
    then show ?thesis using assms c by (intro exI [of _ "[]"]) (auto simp: prepare_after_install_def 0 1)
  next
    case (Inr instances)
    let ?ps = "matching_instances instances (rq_installation request)"
    obtain ready s2 where 2: "preflight p (prepare_request ?request) [] ?ps s1 = (ready, s2)" by fastforce
    from preflight_calls [OF 2, unfolded append_Nil] obtain ys zs where
      q: "ur_calls s2 = ur_calls s1 @ prepared_calls ys @ refused_calls zs" "length zs \<le> 1"
        "case ready of Inr rs \<Rightarrow> rs = ys \<and> zs = [] \<and> ys = ?ps | Inl f \<Rightarrow> pf_ready f = ys \<and> (\<exists>rest. ?ps = ys @ rest)" by blast
    have report: "restart_report installed (pp_selected prepared @ ys) ys [] []
        (installed_preparation_failed ?request selected (length ys) ?ps (pp_selected prepared) installed recorded)" for selected
    proof -
      obtain rest where "?ps = ys @ rest" using q(3) by (cases ready) auto
      then show ?thesis by (metis preparation_failed_report)
    qed
    show ?thesis
    proof (cases ready)
      case l: (Inl f)
      then have pf: "pf_ready f = ys" using q(3) by simp
      show ?thesis using pf assms c q(1,2) l
        by - (rule exI [of _ ys], rule exI [of _ zs],
           auto simp: prepare_after_install_def 0 1 2 Inr Let_def call_defs intro: report [folded pf])
    next
      case r: (Inr rs)
      then have "?ps = ys" "rs = ys" "zs = []" using q(3) by auto
      then show ?thesis using assms c q(1,2) r report
        by - (rule exI [of _ ys], rule exI [of _ zs],
           auto simp: prepare_after_install_def 0 1 2 Inr Let_def call_defs split: if_splits)
    qed
  qed
qed

section \<open>The whole run\<close>

inductive upgrade_trace :: "stable_version \<Rightarrow> update_call list \<Rightarrow> update_error + update_execution \<Rightarrow> bool" for v where
  aborted: "\<lbrakk>length ys \<le> 1; case r of Inl e \<Rightarrow> True | Inr report \<Rightarrow> idle_report report\<rbrakk>
    \<Longrightarrow> upgrade_trace v (prepared_calls xs @ refused_calls ys @ map CallRelease xs @ [CallUnlock LockConvergence]) r"
| failed: "upgrade_trace v (prepared_calls xs @ map CallRelease xs @ [CallUpgrade v, CallUnlock LockConvergence]) (Inl e)"
| unprepared: "\<lbrakk>length zs \<le> 1; case r of Inl e \<Rightarrow> True | Inr report \<Rightarrow> restart_report v (xs @ ys) ys [] [] report\<rbrakk>
    \<Longrightarrow> upgrade_trace v (prepared_calls xs @ map CallRelease xs @ [CallUpgrade v] @ prepared_calls ys @ refused_calls zs
          @ map CallRelease ys @ [CallUnlock LockConvergence]) r"
| restarted: "\<lbrakk>map fst bs = ys; mset (map fst es) \<subseteq># mset (quiesced_of v bs); restart_report v (xs @ ys) ys bs es report\<rbrakk>
    \<Longrightarrow> upgrade_trace v (prepared_calls xs @ map CallRelease xs @ [CallUpgrade v] @ prepared_calls ys @ quiesce_calls v bs
          @ [CallUnlock LockConvergence] @ restart_calls es) (Inr report)"

lemma execute_locked_trace:
  assumes run: "execute_locked semver p request window s = (r, s')"
  shows "\<exists>calls. ur_calls s' = ur_calls s @ calls \<and> upgrade_trace (rq_target request) calls r"
proof -
  let ?v = "rq_target request"
  let ?U = "[CallUnlock LockConvergence]"
  obtain first s1 where 1: "prepare_current semver p request s = (first, s1)" by fastforce
  from prepare_current_calls [OF 1] obtain xs ys where c1: "length ys \<le> 1"
    "case first of
       Inr (Inr prepared) \<Rightarrow> ur_calls s1 = ur_calls s @ prepared_calls xs \<and> pp_selected prepared = xs \<and> pp_ready prepared = xs
     | Inr (Inl report) \<Rightarrow> ur_calls s1 = ur_calls s @ prepared_calls xs @ refused_calls ys @ map CallRelease xs \<and> idle_report report
     | Inl e \<Rightarrow> ur_calls s1 = ur_calls s" by blast
  consider (error) e where "first = Inl e" | (terminal) report where "first = Inr (Inl report)" | (ready) prepared where "first = Inr (Inr prepared)"
    by (metis sum.exhaust)
  then show ?thesis
  proof cases
    case error
    have "r = Inl e" "ur_calls s' = ur_calls s @ ?U" using run c1 error by (auto simp: execute_locked_def 1)
    then show ?thesis using upgrade_trace.aborted [where ys = "[]" and xs = "[]" and r = r and v = ?v] by (simp add: call_defs)
  next
    case terminal
    have "r = Inr report" "ur_calls s' = ur_calls s @ prepared_calls xs @ refused_calls ys @ map CallRelease xs @ ?U" "idle_report report"
      using run c1 terminal by (auto simp: execute_locked_def 1)
    then show ?thesis using upgrade_trace.aborted [where ys = ys and xs = xs and r = r and v = ?v] c1(1) by auto
  next
    case ready
    let ?s2 = "release_all p (rq_operation_id request) xs s1"
    have prep: "ur_calls s1 = ur_calls s @ prepared_calls xs" "pp_selected prepared = xs" "pp_ready prepared = xs"
      using c1 ready by auto
    obtain installed s3 where 3: "port_call (up_upgrade p ?v) (\<lambda>_. [CallUpgrade ?v]) ?s2 = (installed, s3)" by fastforce
    have c3: "ur_calls s3 = ur_calls s @ prepared_calls xs @ map CallRelease xs @ [CallUpgrade ?v]"
      using calls_portD [OF 3] by (simp add: prep)
    show ?thesis
    proof (cases "installed = Inr ?v")
      case False
      have "\<exists>e. r = Inl e" "ur_calls s' = ur_calls s @ prepared_calls xs @ map CallRelease xs @ [CallUpgrade ?v] @ ?U"
        using run False by (auto simp: execute_locked_def 1 3 ready prep c3 split: sum.splits if_splits)
      then show ?thesis using upgrade_trace.failed [where xs = xs and v = ?v] by auto
    next
      case True
      obtain recorded s4 where 4: "silent (up_record_restart_state p (rq_installation request) ?v True) s3 = (recorded, s4)" by fastforce
      obtain after s5 where 5: "prepare_after_install p request window prepared ?v (is_ok recorded) s4 = (after, s5)" by fastforce
      from prepare_after_install_calls [OF 5] obtain ys zs where c5: "length zs \<le> 1"
        "case after of
           Inr (Inr upgrade) \<Rightarrow> ur_calls s5 = ur_calls s4 @ prepared_calls ys \<and> pu_ready upgrade = ys \<and> pu_installed upgrade = ?v
         | Inr (Inl report) \<Rightarrow> ur_calls s5 = ur_calls s4 @ prepared_calls ys @ refused_calls zs @ map CallRelease ys
             \<and> restart_report ?v (xs @ ys) ys [] [] report
         | Inl e \<Rightarrow> ur_calls s5 = ur_calls s4" unfolding prep by blast
      note c4 = calls_silentD [OF 4]
      consider (error) e where "after = Inl e" | (terminal) report where "after = Inr (Inl report)"
        | (ok) upgrade where "after = Inr (Inr upgrade)" by (metis sum.exhaust)
      then show ?thesis
      proof cases
        case error
        have "r = Inl e" "ur_calls s' = ur_calls s @ prepared_calls xs @ map CallRelease xs @ [CallUpgrade ?v] @ ?U"
          using run c5 error True by (auto simp: execute_locked_def 1 3 4 5 ready prep c3 c4)
        then show ?thesis using upgrade_trace.failed [where xs = xs and v = ?v] by auto
      next
        case terminal
        have "r = Inr report" "ur_calls s' = ur_calls s @ prepared_calls xs @ map CallRelease xs @ [CallUpgrade ?v]
            @ prepared_calls ys @ refused_calls zs @ map CallRelease ys @ ?U" "restart_report ?v (xs @ ys) ys [] [] report"
          using run c5 terminal True by (auto simp: execute_locked_def 1 3 4 5 ready prep c3 c4)
        then show ?thesis using upgrade_trace.unprepared [where zs = zs and r = r and v = ?v and xs = xs and ys = ys] c5(1) by auto
      next
        case ok
        then have up: "ur_calls s5 = ur_calls s @ prepared_calls xs @ map CallRelease xs @ [CallUpgrade ?v] @ prepared_calls ys"
          "pu_ready upgrade = ys" "pu_installed upgrade = ?v" using c5(2) by (auto simp: c4 c3)
        obtain report s6 where 6: "restart_installed p upgrade s5 = (report, s6)" by fastforce
        have fin: "r = Inr report" "s' = s6" using run ok True by (auto simp: execute_locked_def 1 3 4 5 6 ready prep)
        have "set (pu_ready upgrade) \<subseteq> set (xs @ ys)" by (simp add: up)
        from restart_installed_calls [OF 6 this] consider
          (left) "ur_calls s6 = ur_calls s5 @ map CallRelease ys @ ?U" "restart_report ?v (xs @ ys) ys [] [] report"
        | (restarted) bs es where "ur_calls s6 = ur_calls s5 @ quiesce_calls ?v bs @ ?U @ restart_calls es" "map fst bs = ys"
            "mset (map fst es) \<subseteq># mset (quiesced_of ?v bs)" "restart_report ?v (xs @ ys) ys bs es report"
          unfolding up by blast
        then show ?thesis
        proof cases
          case left
          then show ?thesis using upgrade_trace.unprepared [where zs = "[]" and r = r and v = ?v and xs = xs and ys = ys] by (simp add: fin up refused_calls_def)
        next
          case restarted
          then show ?thesis using upgrade_trace.restarted [OF restarted(2-4)] by (simp add: fin up)
        qed
      qed
    qed
  qed
qed

end
