(* ===== verification/Update_External.thy ===== *)
theory Update_External
  imports Update_Traces
begin

text \<open>
  The adoption of an installation that was replaced outside the program
  (\<open>src/application/update_coordination/external.rs\<close> with \<open>cache.rs\<close>, \<open>manual.rs\<close>, \<open>participants.rs\<close> and
  \<open>replacement.rs\<close>): the sessions still running an older version are prepared, quiesced, and replaced under a durable
  record of who has to come back. The caller holds the convergence lock, which a run gives up on every way out that does
  not hand it back.
\<close>

section \<open>Ports\<close>

datatype runtime_error =
    SessionBusy session_id "instance_info option" | SchemaBusy | RuntimeIo rstr | MalformedMetadata rstr | RuntimeInvalid rstr

datatype authority_error = AuthorityRuntime runtime_error | AuthorityUpdate update_error

datatype external_cache_transition = TransitionApplied | TransitionAlreadyApplied | TransitionConflict

record 'w external_ports =
  xp_update :: "'w update_ports"
  xp_establish :: "'w \<Rightarrow> (authority_error + unit) \<times> 'w"
  xp_revalidate :: "'w \<Rightarrow> (authority_error + unit) \<times> 'w"
  xp_acquire :: "'w \<Rightarrow> (authority_error + unit) \<times> 'w"
  xp_drop :: "external_lease \<Rightarrow> 'w \<Rightarrow> unit \<times> 'w"
  xp_wait_for_startup :: "installation_identity \<Rightarrow> nat \<Rightarrow> 'w \<Rightarrow> (update_error + bool) \<times> 'w"
  xp_reconcile_cache :: "installation_identity \<Rightarrow> stable_version \<Rightarrow> stable_version \<Rightarrow> external_restart_pending option
     \<Rightarrow> 'w \<Rightarrow> (update_error + external_cache_transition) \<times> 'w"
  xp_complete_cache :: "installation_identity \<Rightarrow> stable_version \<Rightarrow> external_restart_pending
     \<Rightarrow> 'w \<Rightarrow> (update_error + external_cache_transition) \<times> 'w"

definition drop_lease :: "'w external_ports \<Rightarrow> external_lease \<Rightarrow> 'w update_run \<Rightarrow> 'w update_run" where
  "drop_lease x kind s = snd (port_call (xp_drop x kind) (\<lambda>_. [CallDrop kind]) s)"

section \<open>Blockers\<close>

datatype external_blocker_reason =
    OlderIncompatible | IncompatibleWriter | NewerRuntime | PreparationFailed | RestartUnsupported
  | CohortCapacityExceeded | QuiescenceUnverified | ReplacementIncomplete

record external_blocker =
  eb_instance_id :: instance_id
  eb_session_id :: session_id
  eb_version :: "stable_version option"
  eb_reason :: external_blocker_reason

datatype external_failure =
    ExternalBlocked "external_blocker list"
  | ExternalCapacity "external_blocker list" nat nat
  | ExternalIncomplete "external_blocker list"
  | ExternalPersistence "external_blocker list" update_error
  | ExternalAuthority "external_blocker list" authority_error
  | ExternalAuthorityUnavailable authority_error
  | ExternalUpdate update_error

definition external_blocker_of :: "semver \<Rightarrow> instance_info \<Rightarrow> external_blocker_reason \<Rightarrow> external_blocker" where
  "external_blocker_of semver participant reason =
     \<lparr>eb_instance_id = ii_instance_id participant, eb_session_id = ii_session_id participant,
      eb_version = (case parse_version semver (ii_version participant) of Inr v \<Rightarrow> Some v | Inl _ \<Rightarrow> None), eb_reason = reason\<rparr>"

definition external_blockers :: "semver \<Rightarrow> instance_info list \<Rightarrow> external_blocker_reason \<Rightarrow> external_blocker list" where
  "external_blockers semver participants reason = map (\<lambda>p. external_blocker_of semver p reason) participants"

definition blockers_by_instance :: "semver \<Rightarrow> instance_info list \<Rightarrow> instance_id list \<Rightarrow> external_blocker_reason \<Rightarrow> external_blocker list" where
  "blockers_by_instance semver participants instances reason =
     map (\<lambda>p. external_blocker_of semver p reason) (filter (\<lambda>p. ii_instance_id p \<in> set instances) participants)"

definition preparation_blockers :: "semver \<Rightarrow> instance_info list \<Rightarrow> instance_id option \<Rightarrow> external_blocker list" where
  "preparation_blockers semver participants failed =
     (let exact = (case failed of None \<Rightarrow> [] | Some i \<Rightarrow> blockers_by_instance semver participants [i] PreparationFailed) in
      if exact = [] then external_blockers semver participants PreparationFailed else exact)"

definition supports_external_quiescence :: "instance_info \<Rightarrow> installation_identity \<Rightarrow> bool" where
  "supports_external_quiescence participant identity \<longleftrightarrow>
     ii_storage_protocol participant \<le> STORAGE_PROTOCOL_VERSION
     \<and> control_protocol_supports (ii_control_protocol participant) UPDATE_MUTATION_MINIMUM_PROTOCOL
     \<and> ii_control_endpoint participant \<noteq> None
     \<and> (case ii_update participant of None \<Rightarrow> False
        | Some context \<Rightarrow> ux_installation_identity context = identity \<and> ux_protocol context = UPDATE_CONTROL_PROTOCOL_VERSION)"

text \<open>What becomes of one live session: it takes part (\<open>Inr True\<close>), needs nothing (\<open>Inr False\<close>), or blocks.\<close>

definition classify_participant :: "semver \<Rightarrow> installation_identity \<Rightarrow> installation_kind \<Rightarrow> stable_version \<Rightarrow> instance_info
    \<Rightarrow> external_blocker + bool" where
  "classify_participant semver identity kind current participant =
     (case parse_version semver (ii_version participant) of
        Inl _ \<Rightarrow> Inl (external_blocker_of semver participant IncompatibleWriter)
      | Inr version \<Rightarrow>
          if version > current then Inl (external_blocker_of semver participant NewerRuntime)
          else if version = current then
            (if ii_storage_protocol participant \<noteq> STORAGE_PROTOCOL_VERSION
             then Inl (external_blocker_of semver participant IncompatibleWriter) else Inr False)
          else if kind = SourceOrUnknown then Inl (external_blocker_of semver participant RestartUnsupported)
          else if supports_external_quiescence participant identity then Inr True
          else Inl (external_blocker_of semver participant OlderIncompatible))"

record external_plan =
  el_compatible_older :: "instance_info list"
  el_blockers :: "external_blocker list"

fun plan_external :: "semver \<Rightarrow> installation_identity \<Rightarrow> installation_kind \<Rightarrow> stable_version \<Rightarrow> instance_info list \<Rightarrow> external_plan" where
  "plan_external semver identity kind current [] = \<lparr>el_compatible_older = [], el_blockers = []\<rparr>"
| "plan_external semver identity kind current (participant # rest) =
     (let plan = plan_external semver identity kind current rest in
      case classify_participant semver identity kind current participant of
        Inl b \<Rightarrow> plan\<lparr>el_blockers := b # el_blockers plan\<rparr>
      | Inr True \<Rightarrow> plan\<lparr>el_compatible_older := participant # el_compatible_older plan\<rparr>
      | Inr False \<Rightarrow> plan)"

definition capacity_exceeded :: "semver \<Rightarrow> instance_info list \<Rightarrow> external_failure option" where
  "capacity_exceeded semver participants =
     (if length participants > EXTERNAL_RESTART_MAX_EXPECTATIONS
      then Some (ExternalCapacity
        (external_blockers semver (take (EXTERNAL_RESTART_MAX_EXPECTATIONS + 1) participants) CohortCapacityExceeded)
        (length participants) EXTERNAL_RESTART_MAX_EXPECTATIONS)
      else None)"

section \<open>Replacements\<close>

fun restart_all :: "'w update_ports \<Rightarrow> request_id \<Rightarrow> stable_version \<Rightarrow> instance_info list \<Rightarrow> 'w update_run
    \<Rightarrow> instance_id list \<times> 'w update_run" where
  "restart_all p oid current [] s = ([], s)"
| "restart_all p oid current (participant # rest) s =
     (let (ok, s) = restart_accepted p participant oid current s; (failed, s) = restart_all p oid current rest s in
      (if ok then failed else ii_instance_id participant # failed, s))"

fun display_update_value_error :: "update_value_error \<Rightarrow> rstr" where
  "display_update_value_error InvalidVersion = lit ''stable version is invalid''"
| "display_update_value_error InvalidInstallationIdentity = lit ''installation identity is invalid''"
| "display_update_value_error InvalidExternalRestart = lit ''external restart authority is invalid''"

fun external_expectations :: "semver \<Rightarrow> instance_info list \<Rightarrow> update_value_error + external_restart_expectation list" where
  "external_expectations semver [] = Inr []"
| "external_expectations semver (participant # rest) =
     try_bind (parse_version semver (ii_version participant)) (\<lambda>version.
     try_bind (external_expectations semver rest) (\<lambda>es.
       Inr (\<lparr>er_session_id = ii_session_id participant, er_previous_instance_id = ii_instance_id participant,
             er_previous_pid = ii_pid participant, er_previous_version = version\<rparr> # es)))"

definition pending_restart :: "semver \<Rightarrow> request_id \<Rightarrow> stable_version \<Rightarrow> instance_info list \<Rightarrow> external_failure + external_restart_pending" where
  "pending_restart semver oid current participants =
     map_err (\<lambda>e. ExternalUpdate (UpdateState (display_update_value_error e)))
       (try_bind (external_expectations semver participants) (\<lambda>es. new_restart_pending current oid es))"

definition replacement_expectations :: "external_restart_pending \<Rightarrow> update_replacement_expectation list" where
  "replacement_expectations pending = map (\<lambda>e. \<lparr>re_session_id = er_session_id e,
     re_previous_instance_id = er_previous_instance_id e, re_previous_pid = er_previous_pid e,
     re_operation_id = ep_operation_id pending\<rparr>) (ep_expectations pending)"

definition pending_replacement_blockers :: "external_restart_pending \<Rightarrow> instance_id list \<Rightarrow> external_blocker list" where
  "pending_replacement_blockers pending missing =
     map (\<lambda>e. \<lparr>eb_instance_id = er_previous_instance_id e, eb_session_id = er_session_id e,
            eb_version = Some (er_previous_version e), eb_reason = ReplacementIncomplete\<rparr>)
       (filter (\<lambda>e. er_previous_instance_id e \<in> set missing) (ep_expectations pending))"

definition replacement_blockers :: "semver \<Rightarrow> instance_info list \<Rightarrow> instance_id list \<Rightarrow> instance_id list \<Rightarrow> external_blocker list" where
  "replacement_blockers semver participants failed missing =
     map (\<lambda>p. external_blocker_of semver p ReplacementIncomplete)
       (filter (\<lambda>p. ii_instance_id p \<in> set failed \<or> ii_instance_id p \<in> set missing) participants)"

section \<open>Adoption\<close>

datatype external_cache_status = DeferredUntilStoreReady | Reconciled

text \<open>An admission hands the convergence lock, or the startup lease, to the caller, with the adoption lease if it is held.\<close>

record external_admission =
  xa_cache_status :: external_cache_status
  xa_adoption :: bool

record external_request =
  xr_operation_id :: request_id
  xr_installation :: installation_identity
  xr_kind :: installation_kind
  xr_observed :: stable_version
  xr_current :: stable_version
  xr_deadline :: timestamp

type_synonym 'w external_result = "(external_failure + external_admission) \<times> 'w update_run"

definition reconcile_cache :: "'w external_ports \<Rightarrow> external_request \<Rightarrow> external_restart_pending option \<Rightarrow> 'w update_run
    \<Rightarrow> (update_error + unit) \<times> 'w update_run" where
  "reconcile_cache x request pending s =
     (let (reply, s) = port_call (xp_reconcile_cache x (xr_installation request) (xr_observed request) (xr_current request) pending)
            (\<lambda>reply. [CallAdoptCache (reply = Inr TransitionApplied \<or> reply = Inr TransitionAlreadyApplied)]) s in
      (case reply of
         Inl e \<Rightarrow> Inl e
       | Inr TransitionConflict \<Rightarrow> Inl (UpdateState (lit ''update cache changed during external convergence''))
       | Inr _ \<Rightarrow> Inr (), s))"

definition complete_cache :: "'w external_ports \<Rightarrow> installation_identity \<Rightarrow> stable_version \<Rightarrow> external_restart_pending \<Rightarrow> rstr
    \<Rightarrow> 'w update_run \<Rightarrow> (external_failure + unit) \<times> 'w update_run" where
  "complete_cache x identity current pending conflict s =
     (let (reply, s) = port_call (xp_complete_cache x identity current pending)
            (\<lambda>reply. [CallCompleteCache (reply = Inr TransitionApplied \<or> reply = Inr TransitionAlreadyApplied)]) s in
      (case reply of
         Inl e \<Rightarrow> Inl (ExternalUpdate e)
       | Inr TransitionConflict \<Rightarrow> Inl (ExternalUpdate (UpdateState conflict))
       | Inr _ \<Rightarrow> Inr (), s))"

definition recover_partial_quiescence :: "semver \<Rightarrow> 'w external_ports \<Rightarrow> request_id \<Rightarrow> stable_version \<Rightarrow> instance_info list
    \<Rightarrow> instance_info list \<Rightarrow> instance_id list \<Rightarrow> 'w update_run \<Rightarrow> 'w external_result" where
  "recover_partial_quiescence semver x oid current prepared quiesced failed s =
     (let affected = blockers_by_instance semver prepared failed QuiescenceUnverified;
          s = unlock (xp_update x) LockConvergence s in
      if quiesced = [] then (Inl (ExternalBlocked affected), s)
      else (Inl (ExternalIncomplete (affected @ external_blockers semver quiesced ReplacementIncomplete)),
            snd (restart_all (xp_update x) oid current quiesced s)))"

definition recover_after_cache_failure :: "semver \<Rightarrow> 'w external_ports \<Rightarrow> request_id \<Rightarrow> stable_version \<Rightarrow> instance_info list
    \<Rightarrow> update_error \<Rightarrow> 'w update_run \<Rightarrow> 'w external_result" where
  "recover_after_cache_failure semver x oid current quiesced source s =
     (Inl (ExternalPersistence (external_blockers semver quiesced ReplacementIncomplete) source),
      snd (restart_all (xp_update x) oid current quiesced (unlock (xp_update x) LockConvergence s)))"

definition recover_after_authority_failure :: "semver \<Rightarrow> 'w external_ports \<Rightarrow> request_id \<Rightarrow> stable_version \<Rightarrow> instance_info list
    \<Rightarrow> authority_error \<Rightarrow> 'w update_run \<Rightarrow> 'w external_result" where
  "recover_after_authority_failure semver x oid current quiesced source s =
     (Inl (ExternalAuthority (external_blockers semver quiesced ReplacementIncomplete) source),
      snd (restart_all (xp_update x) oid current quiesced (unlock (xp_update x) LockConvergence s)))"

text \<open>The part of \<open>finish_quiesced\<close> after the cache is adopted and both leases are given up.\<close>

definition replace_quiesced :: "semver \<Rightarrow> 'w external_ports \<Rightarrow> external_request \<Rightarrow> instance_info list \<Rightarrow> external_restart_pending
    \<Rightarrow> 'w update_run \<Rightarrow> 'w external_result" where
  "replace_quiesced semver x request quiesced pending s =
     (let p = xp_update x; identity = xr_installation request; current = xr_current request;
          (failed, s) = restart_all p (xr_operation_id request) current quiesced s;
          (missing, s) = silent (up_wait_for_replacements p identity current (replacement_expectations pending)
             REPLACEMENT_TIMEOUT_MILLIS) s in
      case missing of
        Inl e \<Rightarrow> (Inl (ExternalUpdate e), s)
      | Inr missing \<Rightarrow>
          (let incomplete = replacement_blockers semver quiesced failed missing in
           if incomplete \<noteq> [] then (Inl (ExternalIncomplete incomplete), s)
           else
             (let (admitted, s) = port_call (xp_wait_for_startup x identity REPLACEMENT_TIMEOUT_MILLIS)
                     (\<lambda>admitted. [CallTake StartupLease (admitted = Inr True)]) s in
              case admitted of
                Inl e \<Rightarrow> (Inl (ExternalUpdate e), s)
              | Inr False \<Rightarrow>
                  (Inl (ExternalUpdate (UpdateCoordinationFailed (lit ''external replacement startup admission timed out''))), s)
              | Inr True \<Rightarrow>
                  (let (valid, s) = silent (xp_revalidate x) s in
                   case valid of
                     Inl e \<Rightarrow> (Inl (ExternalAuthorityUnavailable e), drop_lease x StartupLease s)
                   | Inr _ \<Rightarrow>
                       (let (completed, s) = complete_cache x identity current pending
                               (lit ''update cache changed before external restart completion'') s in
                        case completed of
                          Inl e \<Rightarrow> (Inl e, drop_lease x StartupLease s)
                        | Inr _ \<Rightarrow> (Inr \<lparr>xa_cache_status = Reconciled, xa_adoption = False\<rparr>, s))))))"

definition finish_quiesced :: "semver \<Rightarrow> 'w external_ports \<Rightarrow> external_request \<Rightarrow> instance_info list \<Rightarrow> external_restart_pending
    \<Rightarrow> 'w update_run \<Rightarrow> 'w external_result" where
  "finish_quiesced semver x request quiesced pending s =
     (let oid = xr_operation_id request; current = xr_current request;
          (adoption, s) = port_call (xp_acquire x) (\<lambda>r. [CallTake AdoptionLease (is_ok r)]) s in
      case adoption of
        Inl source \<Rightarrow> recover_after_authority_failure semver x oid current quiesced source s
      | Inr _ \<Rightarrow>
          (let (adopted, s) = reconcile_cache x request (Some pending) s; s = drop_lease x AdoptionLease s in
           case adopted of
             Inl source \<Rightarrow> recover_after_cache_failure semver x oid current quiesced source s
           | Inr _ \<Rightarrow> replace_quiesced semver x request quiesced pending (unlock (xp_update x) LockConvergence s)))"

definition reconcile_participants :: "semver \<Rightarrow> 'w external_ports \<Rightarrow> external_request \<Rightarrow> instance_info list \<Rightarrow> 'w update_run
    \<Rightarrow> 'w external_result" where
  "reconcile_participants semver x request older s =
     (let p = xp_update x; oid = xr_operation_id request; current = xr_current request;
          prepare = \<lparr>pr_operation_id = oid, pr_target_version = current, pr_installation_identity = xr_installation request,
            pr_deadline = xr_deadline request\<rparr>;
          (ready, s) = preflight p prepare [] older s in
      case ready of
        Inl failure \<Rightarrow>
          (Inl (ExternalBlocked (preparation_blockers semver older (pf_blocker failure))),
           unlock p LockConvergence (release_all p oid (pf_ready failure) s))
      | Inr ready \<Rightarrow>
          (case pending_restart semver oid current ready of
             Inl e \<Rightarrow> (Inl e, unlock p LockConvergence (release_all p oid ready s))
           | Inr pending \<Rightarrow>
               (let (quiescence, s) = quiesce_prepared p ready oid current s in
                if qp_failed quiescence \<noteq> []
                then recover_partial_quiescence semver x oid current ready (qp_quiesced quiescence) (qp_failed quiescence) s
                else finish_quiesced semver x request (qp_quiesced quiescence) pending s)))"

definition reconcile_external :: "semver \<Rightarrow> 'w external_ports \<Rightarrow> external_request \<Rightarrow> 'w update_run \<Rightarrow> 'w external_result" where
  "reconcile_external semver x request s =
     (let p = xp_update x; (established, s) = silent (xp_establish x) s in
      case established of
        Inl e \<Rightarrow> (Inl (ExternalAuthorityUnavailable e), unlock p LockConvergence s)
      | Inr _ \<Rightarrow>
          (let (instances, s) = silent (up_active_instances p) s in
           case instances of
             Inl e \<Rightarrow> (Inl (ExternalUpdate e), unlock p LockConvergence s)
           | Inr instances \<Rightarrow>
               (let plan = plan_external semver (xr_installation request) (xr_kind request) (xr_current request) instances in
                if el_blockers plan \<noteq> [] then (Inl (ExternalBlocked (el_blockers plan)), unlock p LockConvergence s)
                else case capacity_exceeded semver (el_compatible_older plan) of
                  Some failure \<Rightarrow> (Inl failure, unlock p LockConvergence s)
                | None \<Rightarrow>
                    if el_compatible_older plan = [] then
                      (let (adoption, s) = port_call (xp_acquire x) (\<lambda>r. [CallTake AdoptionLease (is_ok r)]) s in
                       case adoption of
                         Inl e \<Rightarrow> (Inl (ExternalAuthorityUnavailable e), unlock p LockConvergence s)
                       | Inr _ \<Rightarrow> (Inr \<lparr>xa_cache_status = DeferredUntilStoreReady, xa_adoption = True\<rparr>, s))
                    else
                      (let (cancelled, s) = silent (up_is_cancelled p) s in
                       if cancelled
                       then (Inl (ExternalUpdate (UpdateCoordinationFailed
                              (lit ''external convergence cancelled before preparation''))), unlock p LockConvergence s)
                       else reconcile_participants semver x request (el_compatible_older plan) s))))"

section \<open>Unfinished adoptions\<close>

text \<open>Both operations below keep the convergence lock on success and give it up on an error.\<close>

definition complete_pending_restart :: "semver \<Rightarrow> 'w external_ports \<Rightarrow> installation_identity \<Rightarrow> installation_kind \<Rightarrow> stable_version
    \<Rightarrow> external_restart_pending \<Rightarrow> 'w update_run \<Rightarrow> (external_failure + unit) \<times> 'w update_run" where
  "complete_pending_restart semver x identity kind current pending s =
     (let p = xp_update x;
          (result, s) =
            (if ep_target_version pending \<noteq> current
             then (Inl (ExternalUpdate (UpdateState (lit ''pending external restart target changed''))), s)
             else
               (let (established, s) = silent (xp_establish x) s in
                case established of
                  Inl e \<Rightarrow> (Inl (ExternalAuthorityUnavailable e), s)
                | Inr _ \<Rightarrow>
                    (let (instances, s) = silent (up_active_instances p) s in
                     case instances of
                       Inl e \<Rightarrow> (Inl (ExternalUpdate e), s)
                     | Inr instances \<Rightarrow>
                         (let plan = plan_external semver identity kind current instances;
                              (missing, s) = silent (up_wait_for_replacements p identity current (replacement_expectations pending) 0) s in
                          case missing of
                            Inl e \<Rightarrow> (Inl (ExternalUpdate e), s)
                          | Inr missing \<Rightarrow>
                              (let found = el_blockers plan @ external_blockers semver (el_compatible_older plan) ReplacementIncomplete
                                     @ pending_replacement_blockers pending missing in
                               if found \<noteq> [] then (Inl (ExternalIncomplete found), s)
                               else
                                 (let (valid, s) = silent (xp_revalidate x) s in
                                  case valid of
                                    Inl e \<Rightarrow> (Inl (ExternalAuthorityUnavailable e), s)
                                  | Inr _ \<Rightarrow> complete_cache x identity current pending
                                      (lit ''update cache changed before pending restart completion'') s)))))) in
      case result of Inl e \<Rightarrow> (Inl e, unlock p LockConvergence s) | Inr u \<Rightarrow> (Inr u, s))"

definition admit_pending_external_resume :: "semver \<Rightarrow> 'w external_ports \<Rightarrow> installation_identity \<Rightarrow> installation_kind \<Rightarrow> stable_version
    \<Rightarrow> external_restart_pending \<Rightarrow> session_id \<Rightarrow> 'w update_run \<Rightarrow> (external_failure + unit) \<times> 'w update_run" where
  "admit_pending_external_resume semver x identity kind current pending session s =
     (let p = xp_update x;
          (result, s) =
            (if ep_target_version pending \<noteq> current \<or> expectation_for_session pending session = None
             then (Inl (ExternalUpdate (UpdateState
                    (lit ''manual external recovery does not match the pending restart cohort''))), s)
             else
               (let (established, s) = silent (xp_establish x) s in
                case established of
                  Inl e \<Rightarrow> (Inl (ExternalAuthorityUnavailable e), s)
                | Inr _ \<Rightarrow>
                    (let (instances, s) = silent (up_active_instances p) s in
                     case instances of
                       Inl e \<Rightarrow> (Inl (ExternalUpdate e), s)
                     | Inr instances \<Rightarrow>
                         (let live = (case List.find (\<lambda>i. ii_session_id i = session) instances of
                                None \<Rightarrow> [] | Some i \<Rightarrow> [external_blocker_of semver i ReplacementIncomplete]);
                              plan = plan_external semver identity kind current instances;
                              found = el_blockers plan @ external_blockers semver (el_compatible_older plan) ReplacementIncomplete @ live in
                          if found \<noteq> [] then (Inl (ExternalIncomplete found), s)
                          else silent (\<lambda>w. (let (valid, w) = xp_revalidate x w in
                                (case valid of Inl e \<Rightarrow> Inl (ExternalAuthorityUnavailable e) | Inr u \<Rightarrow> Inr u, w))) s)))) in
      case result of Inl e \<Rightarrow> (Inl e, unlock p LockConvergence s) | Inr u \<Rightarrow> (Inr u, s))"

end
