(* ===== verification/Update_Properties.thy ===== *)
theory Update_Properties
  imports Update_Traces
begin

text \<open>
  What an upgrade promises its sessions, whatever the registry, the sessions, the installer and the files answer: the
  order of its calls (an abstract protocol), the truth of its report, and that no session is lost sight of.
\<close>

section \<open>The protocol\<close>

record upgrade_monitor =
  um_installer :: bool
  um_convergence :: bool
  um_installed :: bool
  um_held :: "instance_info multiset"
  um_quiesced :: "instance_info multiset"

definition monitor_start :: upgrade_monitor where
  "monitor_start = \<lparr>um_installer = False, um_convergence = False, um_installed = False, um_held = {#}, um_quiesced = {#}\<rparr>"

fun monitor_step :: "stable_version \<Rightarrow> update_call \<Rightarrow> upgrade_monitor \<Rightarrow> upgrade_monitor option" where
  "monitor_step v (CallLock LockInstaller taken) m =
     (if \<not> um_installer m \<and> \<not> um_convergence m then Some (m\<lparr>um_installer := taken\<rparr>) else None)"
| "monitor_step v (CallLock LockConvergence taken) m =
     (if um_installer m \<and> \<not> um_convergence m then Some (m\<lparr>um_convergence := taken\<rparr>) else None)"
| "monitor_step v (CallPrepare x ready) m =
     (if um_convergence m \<and> um_quiesced m = {#} then Some (if ready then m\<lparr>um_held := add_mset x (um_held m)\<rparr> else m) else None)"
| "monitor_step v (CallRelease x) m =
     (if um_convergence m \<and> x \<in># um_held m then Some (m\<lparr>um_held := um_held m - {#x#}\<rparr>) else None)"
| "monitor_step v (CallUpgrade w) m =
     (if um_convergence m \<and> \<not> um_installed m \<and> um_held m = {#} \<and> w = v then Some (m\<lparr>um_installed := True\<rparr>) else None)"
| "monitor_step v (CallQuiesce x acknowledged) m =
     (if um_convergence m \<and> um_installed m \<and> x \<in># um_held m \<and> \<not> runs_version x v
      then Some (m\<lparr>um_held := um_held m - {#x#},
                    um_quiesced := (if acknowledged then add_mset x (um_quiesced m) else um_quiesced m)\<rparr>) else None)"
| "monitor_step v (CallRestart x accepted) m =
     (if um_installer m \<and> \<not> um_convergence m \<and> um_installed m \<and> x \<in># um_quiesced m
      then Some (m\<lparr>um_quiesced := um_quiesced m - {#x#}\<rparr>) else None)"
| "monitor_step v (CallUnlock LockConvergence) m =
     (if um_convergence m \<and> um_held m = {#} then Some (m\<lparr>um_convergence := False\<rparr>) else None)"
| "monitor_step v (CallUnlock LockInstaller) m =
     (if um_installer m \<and> \<not> um_convergence m then Some (m\<lparr>um_installer := False\<rparr>) else None)"
| "monitor_step v _ m = None"

fun monitor_run :: "stable_version \<Rightarrow> update_call list \<Rightarrow> upgrade_monitor \<Rightarrow> upgrade_monitor option" where
  "monitor_run v [] m = Some m"
| "monitor_run v (c # cs) m = Option.bind (monitor_step v c m) (monitor_run v cs)"

lemma monitor_run_append: "monitor_run v (cs @ ds) m = Option.bind (monitor_run v cs m) (monitor_run v ds)"
  by (induction cs arbitrary: m) (auto split: Option.bind_splits)

lemma monitor_prepared:
  "um_convergence m \<Longrightarrow> um_quiesced m = {#} \<Longrightarrow> monitor_run v (prepared_calls xs) m = Some (m\<lparr>um_held := um_held m + mset xs\<rparr>)"
  by (induction xs arbitrary: m) (simp_all add: prepared_calls_def)

lemma monitor_refused:
  "um_convergence m \<Longrightarrow> um_quiesced m = {#} \<Longrightarrow> monitor_run v (refused_calls xs) m = Some m"
  by (induction xs) (simp_all add: refused_calls_def)

lemma monitor_released:
  "um_convergence m \<Longrightarrow> um_held m = mset xs \<Longrightarrow> monitor_run v (map CallRelease xs) m = Some (m\<lparr>um_held := {#}\<rparr>)"
  by (induction xs arbitrary: m) simp_all

lemma monitor_quiesced:
  "um_convergence m \<Longrightarrow> um_installed m \<Longrightarrow> um_held m = mset (map fst bs)
   \<Longrightarrow> monitor_run v (quiesce_calls v bs) m = Some (m\<lparr>um_held := {#}, um_quiesced := um_quiesced m + mset (quiesced_of v bs)\<rparr>)"
proof (induction bs arbitrary: m)
  case (Cons c bs)
  obtain x b where c: "c = (x, b)" by force
  let ?m = "m\<lparr>um_held := mset (map fst bs)\<rparr>"
  let ?n = "?m\<lparr>um_quiesced := (if b then add_mset x (um_quiesced m) else um_quiesced m)\<rparr>"
  show ?case
  proof (cases "runs_version x v")
    case True
    then show ?thesis using Cons.IH [of ?m] Cons.prems by (simp add: quiesce_calls_def quiesced_of_def c)
  next
    case False
    then show ?thesis using Cons.IH [of ?n] Cons.prems by (simp add: quiesce_calls_def quiesced_of_def c)
  qed
qed (simp add: quiesce_calls_def quiesced_of_def)

lemma monitor_restarted:
  "um_installer m \<Longrightarrow> \<not> um_convergence m \<Longrightarrow> um_installed m \<Longrightarrow> mset (map fst es) \<subseteq># um_quiesced m
   \<Longrightarrow> monitor_run v (restart_calls es) m = Some (m\<lparr>um_quiesced := um_quiesced m - mset (map fst es)\<rparr>)"
proof (induction es arbitrary: m)
  case (Cons e es)
  obtain x b where e: "e = (x, b)" by force
  have x: "x \<in># um_quiesced m" "mset (map fst es) \<subseteq># um_quiesced m - {#x#}"
    using Cons.prems(4) by (auto simp: e insert_subset_eq_iff)
  show ?case using Cons.IH [of "m\<lparr>um_quiesced := um_quiesced m - {#x#}\<rparr>"] Cons.prems x by (simp add: restart_calls_def e)
qed (simp add: restart_calls_def)

lemmas monitor_phases = monitor_run_append monitor_prepared monitor_refused monitor_released monitor_quiesced monitor_restarted

lemma upgrade_trace_monitored:
  assumes "upgrade_trace v calls r"
  shows "\<exists>m. monitor_run v calls (monitor_start\<lparr>um_installer := True, um_convergence := True\<rparr>) = Some m
    \<and> um_installer m \<and> \<not> um_convergence m \<and> um_held m = {#}"
  using assms
proof cases
  case (aborted ys xs)
  then show ?thesis by (simp add: monitor_phases monitor_start_def)
next
  case (failed xs e)
  then show ?thesis by (simp add: monitor_phases monitor_start_def)
next
  case (unprepared zs xs ys)
  then show ?thesis by (simp add: monitor_phases monitor_start_def)
next
  case (restarted bs ys es xs report)
  then show ?thesis by (simp add: monitor_phases monitor_start_def)
qed

lemma execute_update_trace:
  assumes "execute_update semver p request s = (r, s')"
  shows "\<exists>calls. ur_calls s' = ur_calls s @ calls \<and>
    ((calls = [CallLock LockInstaller False] \<or> calls = [CallLock LockInstaller True, CallLock LockConvergence False, CallUnlock LockInstaller])
        \<and> (case r of Inl e \<Rightarrow> True | Inr report \<Rightarrow> idle_report report)
     \<or> (\<exists>inner. calls = [CallLock LockInstaller True, CallLock LockConvergence True] @ inner @ [CallUnlock LockInstaller]
          \<and> upgrade_trace (rq_target request) inner r))"
proof -
  let ?i = "rq_installation request"
  obtain installer s1 where 1: "try_lock p ?i LockInstaller s = (installer, s1)" by fastforce
  obtain convergence s2 where 2: "try_lock p ?i LockConvergence s1 = (convergence, s2)" by fastforce
  obtain loaded s3 where 3: "silent (up_load p ?i) s2 = (loaded, s3)" by fastforce
  obtain now s4 where 4: "silent (up_now p) s3 = (now, s4)" by fastforce
  obtain r5 s5 where 5: "execute_locked semver p request (max (sat_i64 (rq_deadline request - now)) 0) s4 = (r5, s5)" by fastforce
  note c = calls_portD [OF 1 [unfolded try_lock_def]] calls_portD [OF 2 [unfolded try_lock_def]] calls_silentD [OF 3] calls_silentD [OF 4]
  have idle: "upgrade_trace (rq_target request) [CallUnlock LockConvergence] r"
    if "case r of Inl e \<Rightarrow> True | Inr report \<Rightarrow> idle_report report"
    using upgrade_trace.aborted [of "[]" r _ "[]"] that by (simp add: call_defs)
  show ?thesis
  proof (cases "installer = Inr True \<and> convergence = Inr True")
    case False
    then show ?thesis using assms c
      by (auto simp: execute_update_def Let_def 1 2 split: sum.splits bool.splits)
  next
    case True
    show ?thesis
    proof (cases "\<exists>state. loaded = Inr state \<and> uc_external_restart state = None")
      case False
      then have "ur_calls s' = ur_calls s @ [CallLock LockInstaller True, CallLock LockConvergence True] @ [CallUnlock LockConvergence]
          @ [CallUnlock LockInstaller]" "case r of Inl e \<Rightarrow> True | Inr report \<Rightarrow> idle_report report"
        using assms c True by (auto simp: execute_update_def Let_def 1 2 3 split: sum.splits if_splits)
      then show ?thesis using idle by blast
    next
      case ok: True
      from execute_locked_trace [OF 5] obtain inner where
        "ur_calls s5 = ur_calls s4 @ inner" "upgrade_trace (rq_target request) inner r5" by blast
      then show ?thesis using assms c True ok by (auto simp: execute_update_def Let_def 1 2 3 4 5)
    qed
  qed
qed

section \<open>The report\<close>

definition restarts_in :: "update_call list \<Rightarrow> (instance_info \<times> bool) list" where
  "restarts_in calls = concat (map (\<lambda>c. case c of CallRestart x b \<Rightarrow> [(x, b)] | _ \<Rightarrow> []) calls)"

definition quiesces_in :: "update_call list \<Rightarrow> (instance_info \<times> bool) list" where
  "quiesces_in calls = concat (map (\<lambda>c. case c of CallQuiesce x b \<Rightarrow> [(x, b)] | _ \<Rightarrow> []) calls)"

definition report_true :: "stable_version \<Rightarrow> update_call list \<Rightarrow> update_execution \<Rightarrow> bool" where
  "report_true v calls report \<longleftrightarrow>
     (ux_status report = UpdateInstalled v \<longleftrightarrow> CallUpgrade v \<in> set calls)
     \<and> (\<forall>w. ux_status report = UpdateInstalled w \<longrightarrow> w = v)
     \<and> ux_quiescence_requests report = length (quiesces_in calls)
     \<and> ux_restart_requests report = length (restarts_in calls)
     \<and> (CallUpgrade v \<in> set calls \<longrightarrow> ux_quiesced_participants report = length (filter snd (quiesces_in calls))
          \<and> ux_quiescence_failed report = map (ii_instance_id \<circ> fst) (filter (\<lambda>c. \<not> snd c) (quiesces_in calls))
          \<and> ux_restart_accepted report = length (filter snd (restarts_in calls)))"

lemma events_append [simp]:
  "restarts_in (cs @ ds) = restarts_in cs @ restarts_in ds" "quiesces_in (cs @ ds) = quiesces_in cs @ quiesces_in ds"
  by (simp_all add: restarts_in_def quiesces_in_def)

lemma events_Cons [simp]:
  "restarts_in (c # cs) = (case c of CallRestart x b \<Rightarrow> [(x, b)] | _ \<Rightarrow> []) @ restarts_in cs"
  "quiesces_in (c # cs) = (case c of CallQuiesce x b \<Rightarrow> [(x, b)] | _ \<Rightarrow> []) @ quiesces_in cs"
  "restarts_in [] = []" "quiesces_in [] = []"
  by (simp_all add: restarts_in_def quiesces_in_def)

lemma events_none [simp]:
  "restarts_in (prepared_calls xs) = []" "restarts_in (refused_calls xs) = []" "restarts_in (map CallRelease xs) = []"
  "quiesces_in (prepared_calls xs) = []" "quiesces_in (refused_calls xs) = []" "quiesces_in (map CallRelease xs) = []"
  "quiesces_in (restart_calls es) = []" "restarts_in (quiesce_calls v bs) = []"
  by (induction xs, simp_all add: call_defs) (induction es, auto, induction bs, auto)

lemma restarts_in_restart_calls [simp]: "restarts_in (restart_calls es) = es"
  by (induction es) (auto simp: restart_calls_def)

lemma quiesces_in_quiesce_calls [simp]: "quiesces_in (quiesce_calls v bs) = filter (\<lambda>(x, b). \<not> runs_version x v) bs"
  by (induction bs) (auto simp: quiesce_calls_def)

lemma no_upgrade_call [simp]:
  "CallUpgrade w \<notin> set (prepared_calls xs)" "CallUpgrade w \<notin> set (refused_calls xs)"
  "CallUpgrade w \<notin> set (quiesce_calls v bs)" "CallUpgrade w \<notin> set (restart_calls es)"
  by (auto simp: call_defs split: if_splits)

lemma quiesce_lengths:
  "length (quiesced_of v bs) + length (unquiesced_of v bs) = length (filter (\<lambda>(x, b). \<not> runs_version x v) bs)"
  "length (quiesced_of v bs) = length (filter snd (filter (\<lambda>(x, b). \<not> runs_version x v) bs))"
  "map ii_instance_id (unquiesced_of v bs) = map (ii_instance_id \<circ> fst) (filter (\<lambda>c. \<not> snd c) (filter (\<lambda>(x, b). \<not> runs_version x v) bs))"
  by (induction bs) (auto simp: quiesced_of_def unquiesced_of_def)

lemma restart_report_true:
  assumes "restart_report v seen ready bs es report" "CallUpgrade v \<in> set calls"
    "quiesces_in calls = filter (\<lambda>(x, b). \<not> runs_version x v) bs" "restarts_in calls = es"
  shows "report_true v calls report"
  using assms quiesce_lengths(1) [of v bs] by (simp add: restart_report_def report_true_def quiesce_lengths(2,3))

lemma upgrade_trace_report:
  assumes "upgrade_trace v calls r"
  shows "case r of Inl e \<Rightarrow> True | Inr report \<Rightarrow> report_true v calls report"
  using assms
proof cases
  case (aborted ys xs)
  then show ?thesis by (auto simp: report_true_def idle_report_def split: sum.splits)
next
  case (failed xs e)
  then show ?thesis by simp
next
  case (unprepared zs xs ys)
  then show ?thesis by (auto intro: restart_report_true split: sum.splits)
next
  case (restarted bs ys es xs report)
  then show ?thesis by (auto intro: restart_report_true)
qed

lemma execute_update_report:
  assumes "execute_update semver p request \<lparr>ur_world = w, ur_calls = []\<rparr> = (Inr report, s')"
  shows "report_true (rq_target request) (ur_calls s') report"
proof -
  from execute_update_trace [OF assms] obtain calls where calls: "ur_calls s' = calls"
    and cases: "(calls = [CallLock LockInstaller False] \<or> calls = [CallLock LockInstaller True, CallLock LockConvergence False, CallUnlock LockInstaller])
        \<and> idle_report report
      \<or> (\<exists>inner. calls = [CallLock LockInstaller True, CallLock LockConvergence True] @ inner @ [CallUnlock LockInstaller]
          \<and> upgrade_trace (rq_target request) inner (Inr report))" by auto
  from cases show ?thesis
  proof (elim disjE exE conjE)
    fix inner assume i: "calls = [CallLock LockInstaller True, CallLock LockConvergence True] @ inner @ [CallUnlock LockInstaller]"
      "upgrade_trace (rq_target request) inner (Inr report)"
    from upgrade_trace_report [OF i(2)] show ?thesis by (simp add: calls i(1) report_true_def)
  qed (auto simp: calls report_true_def idle_report_def)
qed

section \<open>No session lost\<close>

definition same_session_per_instance :: "update_call list \<Rightarrow> bool" where
  "same_session_per_instance calls \<longleftrightarrow> (\<forall>x y. CallPrepare x True \<in> set calls \<longrightarrow> CallPrepare y True \<in> set calls
     \<longrightarrow> ii_instance_id x = ii_instance_id y \<longrightarrow> ii_session_id x = ii_session_id y)"

definition accounted_for :: "stable_version \<Rightarrow> update_call list \<Rightarrow> update_execution \<Rightarrow> instance_info \<Rightarrow> bool" where
  "accounted_for v calls report x \<longleftrightarrow> runs_version x v \<or> CallRestart x True \<in> set calls
     \<or> ii_instance_id x \<in> set (ux_restart_failed report) \<and> ii_session_id x \<in> set (ux_resumable_sessions report)"

lemma prepared_in [simp]:
  "CallPrepare x True \<in> set (prepared_calls xs) \<longleftrightarrow> x \<in> set xs" "CallPrepare x True \<notin> set (refused_calls xs)"
  "CallPrepare x True \<notin> set (quiesce_calls v bs)" "CallPrepare x True \<notin> set (restart_calls es)"
  "CallPrepare x True \<notin> set (map CallRelease xs)"
  by (auto simp: call_defs split: if_splits)

lemma restart_report_accounted:
  assumes "restart_report v seen ready bs es report" and x: "x \<in> set ready" "set ready \<subseteq> set seen"
    and seen: "\<And>y. y \<in> set seen \<Longrightarrow> CallPrepare y True \<in> set calls" and same: "same_session_per_instance calls"
    and es: "\<And>y. (y, True) \<in> set es \<Longrightarrow> CallRestart y True \<in> set calls"
  shows "accounted_for v calls report x"
proof -
  from assms(1) x(1) consider "runs_version x v" | "(x, True) \<in> set es"
    | k where "ii_instance_id x \<in> set (ux_restart_failed report)" "k \<in> set seen" "ii_instance_id k = ii_instance_id x"
        "ii_session_id k \<in> set (ux_resumable_sessions report)" unfolding restart_report_def by blast
  then show ?thesis
  proof cases
    case 3
    have "ii_session_id k = ii_session_id x"
      using same seen [OF 3(2)] seen [of x] x 3(3) unfolding same_session_per_instance_def by blast
    then show ?thesis using 3 by (simp add: accounted_for_def)
  qed (use es in \<open>auto simp: accounted_for_def\<close>)
qed

lemma upgrade_trace_accounted:
  assumes "upgrade_trace v inner (Inr report)" "CallUpgrade v \<in> set inner" "same_session_per_instance (before @ inner @ after)"
  shows "\<exists>first second. inner = first @ CallUpgrade v # second \<and> CallUpgrade v \<notin> set first
    \<and> (\<forall>x. CallPrepare x True \<in> set second \<longrightarrow> accounted_for v (before @ inner @ after) report x)"
  using assms(1)
proof cases
  case (aborted ys xs)
  then show ?thesis using assms(2) by auto
next
  case (unprepared zs xs ys)
  let ?second = "prepared_calls ys @ refused_calls zs @ map CallRelease ys @ [CallUnlock LockConvergence]"
  have "accounted_for v (before @ inner @ after) report x" if "CallPrepare x True \<in> set ?second" for x
    by (rule restart_report_accounted [where seen = "xs @ ys" and ready = ys and bs = "[]" and es = "[]"])
      (use unprepared assms(3) that in auto)
  then show ?thesis by (intro exI [of _ "prepared_calls xs @ map CallRelease xs"] exI [of _ ?second]) (auto simp: unprepared(1))
next
  case (restarted bs ys es xs)
  let ?second = "prepared_calls ys @ quiesce_calls v bs @ [CallUnlock LockConvergence] @ restart_calls es"
  have "accounted_for v (before @ inner @ after) report x" if "CallPrepare x True \<in> set ?second" for x
    by (rule restart_report_accounted [where seen = "xs @ ys" and ready = ys and bs = bs and es = es])
      (use restarted assms(3) that in \<open>force simp: restart_calls_def\<close>)+
  then show ?thesis by (intro exI [of _ "prepared_calls xs @ map CallRelease xs"] exI [of _ ?second]) (auto simp: restarted(1))
qed

text \<open>The calls after the installer ran.\<close>

definition after_upgrade :: "stable_version \<Rightarrow> update_call list \<Rightarrow> update_call list" where
  "after_upgrade v calls = tl (dropWhile (\<lambda>c. c \<noteq> CallUpgrade v) calls)"

lemma after_upgrade_split: "CallUpgrade v \<notin> set first \<Longrightarrow> after_upgrade v (first @ CallUpgrade v # second) = second"
  by (induction first) (auto simp: after_upgrade_def)

lemma execute_update_accounted:
  assumes run: "execute_update semver p request \<lparr>ur_world = w, ur_calls = []\<rparr> = (Inr report, s')"
    and installed: "ux_status report = UpdateInstalled v"
    and same: "same_session_per_instance (ur_calls s')"
    and x: "CallPrepare x True \<in> set (after_upgrade v (ur_calls s'))"
  shows "accounted_for v (ur_calls s') report x"
proof -
  have v: "v = rq_target request" "CallUpgrade v \<in> set (ur_calls s')"
    using execute_update_report [OF run] installed by (auto simp: report_true_def)
  let ?before = "[CallLock LockInstaller True, CallLock LockConvergence True]"
  from execute_update_trace [OF run] v(2) obtain inner where
    i: "ur_calls s' = ?before @ inner @ [CallUnlock LockInstaller]" "upgrade_trace v inner (Inr report)"
    by (auto simp: v(1))
  have "CallUpgrade v \<in> set inner" using v(2) i(1) by simp
  from upgrade_trace_accounted [OF i(2) this same [unfolded i(1)]] obtain first second where
    split: "inner = first @ CallUpgrade v # second" "CallUpgrade v \<notin> set first"
    and all: "\<And>x. CallPrepare x True \<in> set second \<Longrightarrow> accounted_for v (?before @ inner @ [CallUnlock LockInstaller]) report x"
    by blast
  have "after_upgrade v (ur_calls s') = second @ [CallUnlock LockInstaller]"
    using after_upgrade_split [of v "?before @ first" "second @ [CallUnlock LockInstaller]"] split(2) by (simp add: i(1) split(1))
  then show ?thesis using all [of x] x by (simp add: i(1))
qed

section \<open>An upgrade of two sessions\<close>

text \<open>The initiating session restarts; the other one acknowledges quiescence but refuses its restart.\<close>

definition sample_identity :: installation_identity where
  "sample_identity = InstallationIdentity (replicate 32 7)"

definition sample_info :: "uuid \<Rightarrow> instance_info" where
  "sample_info n = \<lparr>ii_instance_id = InstanceId n, ii_session_id = SessionId n, ii_pid = 7, ii_version = [49, 46, 48, 46, 48],
     ii_storage_protocol = STORAGE_PROTOCOL_VERSION, ii_control_protocol = Some 13, ii_control_endpoint = Some [],
     ii_update = Some \<lparr>ux_installation_identity = sample_identity, ux_protocol = UPDATE_CONTROL_PROTOCOL_VERSION, ux_replacement = None\<rparr>,
     ii_launch_directory = [], ii_started_at = 0\<rparr>"

definition sample_cache :: update_cache_state where
  "sample_cache = \<lparr>uc_latest_stable = None, uc_refresh_generation = 0, uc_last_checked_at = None, uc_dismissed_version = None,
     uc_skipped_version = None, uc_observed_installed_version = None, uc_restart_needed = False, uc_external_restart = None,
     uc_release_highlights = None, uc_etag = None\<rparr>"

definition sample_ports :: "unit update_ports" where
  "sample_ports = \<lparr>
     up_prepare = (\<lambda>x _ w. (Inr (PrepareReady (ii_instance_id x) (ii_session_id x)), w)),
     up_release = (\<lambda>_ _ w. (Inr (), w)),
     up_quiesce = (\<lambda>x _ w. (Inr \<lparr>qr_instance_id = ii_instance_id x, qr_session_id = ii_session_id x\<rparr>, w)),
     up_restart = (\<lambda>x _ w. (Inr \<lparr>sr_instance_id = ii_instance_id x, sr_accepted = (x = sample_info [1])\<rparr>, w)),
     up_active_instances = (\<lambda>w. (Inr [sample_info [1], sample_info [2]], w)),
     up_wait_for_replacements = (\<lambda>_ _ _ _ w. (Inr [], w)),
     up_upgrade = (\<lambda>v w. (Inr v, w)),
     up_load = (\<lambda>_ w. (Inr sample_cache, w)),
     up_try_lock = (\<lambda>_ _ w. (Inr True, w)),
     up_unlock = (\<lambda>_ w. ((), w)),
     up_begin_refresh = (\<lambda>_ _ w. (Inr None, w)),
     up_record_success = (\<lambda>_ _ _ _ w. (Inr sample_cache, w)),
     up_record_restart_state = (\<lambda>_ _ _ w. (Inr sample_cache, w)),
     up_record_highlights = (\<lambda>_ _ w. (Inr sample_cache, w)),
     up_discard_highlights = (\<lambda>_ _ w. (Inr True, w)),
     up_latest_stable = (\<lambda>_ _ w. (Inr NotModified, w)),
     up_detect = (\<lambda>w. (Inl UpdateNetwork, w)),
     up_now = (\<lambda>w. (0, w)),
     up_is_cancelled = (\<lambda>w. (False, w))\<rparr>"

definition sample_request :: update_request where
  "sample_request = \<lparr>rq_operation_id = RequestId [9], rq_initiating_instance = InstanceId [1], rq_installation = sample_identity,
     rq_target = StableVersion 2 0 0, rq_deadline = 5000\<rparr>"

definition sample_semver :: semver where
  "sample_semver s = (if s = [49, 46, 48, 46, 48] then Some (1, 0, 0, [], []) else None)"

lemma sample_version [simp]:
  "display_version (StableVersion 2 0 0) = [50, 46, 48, 46, 48]" "display_version (StableVersion 1 0 0) = [49, 46, 48, 46, 48]"
  "parse_version sample_semver [49, 46, 48, 46, 48] = Inr (StableVersion 1 0 0)"
  by (simp_all add: parse_version_def sample_semver_def digits_of.simps)

lemma sample_compatible [simp]: "is_compatible_update_participant (sample_info n) sample_identity"
  by (simp add: is_compatible_update_participant_def sample_info_def control_protocol_supports_def
      UPDATE_MUTATION_MINIMUM_PROTOCOL_def CONTROL_PROTOCOL_VERSION_def)

lemma sample_runs [simp]: "\<not> runs_version (sample_info n) (StableVersion 2 0 0)"
  by (simp add: runs_version_def sample_info_def del: display_version.simps)

lemma sample_info_fields [simp]:
  "ii_instance_id (sample_info n) = InstanceId n" "ii_session_id (sample_info n) = SessionId n" "ii_pid (sample_info n) = 7"
  "ii_version (sample_info n) = [49, 46, 48, 46, 48]" "(sample_info n = sample_info m) = (n = m)"
  by (auto simp: sample_info_def)

definition sample_calls :: "update_call list" where
  "sample_calls = [CallLock LockInstaller True, CallLock LockConvergence True,
     CallPrepare (sample_info [1]) True, CallPrepare (sample_info [2]) True,
     CallRelease (sample_info [1]), CallRelease (sample_info [2]), CallUpgrade (StableVersion 2 0 0),
     CallPrepare (sample_info [1]) True, CallPrepare (sample_info [2]) True,
     CallQuiesce (sample_info [1]) True, CallQuiesce (sample_info [2]) True, CallUnlock LockConvergence,
     CallRestart (sample_info [2]) False, CallRestart (sample_info [1]) True, CallUnlock LockInstaller]"

lemma sample_upgrade:
  "\<exists>report s'. execute_update sample_semver sample_ports sample_request \<lparr>ur_world = (), ur_calls = []\<rparr> = (Inr report, s')
     \<and> ux_status report = UpdateInstalled (StableVersion 2 0 0) \<and> ur_calls s' = sample_calls"
  by (simp add: execute_update_def execute_locked_def prepare_current_def prepare_after_install_def restart_installed_def
      finish_restart_def restart_and_observe_peers_def restart_peers_def observe_peer_replacements_def quiesce_prepared_def
      record_converged_highlights_def record_pending_highlights_def record_final_restart_state_def discard_rejected_announcement_def
      restart_initiating_def restart_accepted_def accepts_restart_def quiesced_exactly_def validate_reply_def matching_instances_def
      initiating_upgrade_def try_lock_def unlock_def port_call_def silent_def sample_ports_def sample_request_def sample_cache_def
      pending_announcement_def less_eq_stable_version.simps is_ok_def Let_def push_new_def sample_calls_def prepare_request_def)

section \<open>Properties\<close>

text \<open>C35: Whatever the ports answer, the calls of an upgrade follow the protocol, and end with no lock taken and no
  session held: sessions are prepared under the convergence lock, the installer runs at most once, for the version
  asked, only once every prepared session is released again, a session is quiesced only when it was prepared after
  the installation and runs another version, a restart is asked only of a session that acknowledged quiescence,
  at most once for each acknowledgement, after the convergence lock is given up and before the installer lock is.\<close>

theorem upgrade_follows_protocol:
  "\<exists>m. monitor_run (rq_target request) (ur_calls (snd (execute_update semver p request \<lparr>ur_world = w, ur_calls = []\<rparr>)))
         monitor_start = Some m
     \<and> \<not> um_installer m \<and> \<not> um_convergence m \<and> um_held m = {#}"
proof -
  obtain r s' where run: "execute_update semver p request \<lparr>ur_world = w, ur_calls = []\<rparr> = (r, s')" by fastforce
  from execute_update_trace [OF run] consider
      "ur_calls s' = [CallLock LockInstaller False] \<or> ur_calls s' = [CallLock LockInstaller True, CallLock LockConvergence False, CallUnlock LockInstaller]"
    | inner where "ur_calls s' = [CallLock LockInstaller True, CallLock LockConvergence True] @ inner @ [CallUnlock LockInstaller]"
        "upgrade_trace (rq_target request) inner r" by auto
  then show ?thesis
  proof cases
    case 1
    then show ?thesis by (auto simp: run monitor_start_def)
  next
    case 2
    from upgrade_trace_monitored [OF 2(2)] show ?thesis by (auto simp: run 2(1) monitor_run_append monitor_start_def)
  qed
qed

text \<open>C37: The report of an upgrade is true of its calls: it says the version asked is installed exactly when the
  installer ran, and its numbers of quiescence and restart requests, acknowledgements, acceptances and the
  instances it says were not quiesced are those of the calls made.\<close>

theorem upgrade_report_is_true:
  "case execute_update semver p request \<lparr>ur_world = w, ur_calls = []\<rparr> of
     (Inl e, s') \<Rightarrow> True | (Inr report, s') \<Rightarrow> report_true (rq_target request) (ur_calls s') report"
  using execute_update_report by (auto split: prod.splits sum.splits)

text \<open>C36: When an upgrade reports the installation, no session that was prepared after it is lost sight of: it already
  runs the new version, or accepted its restart, or is listed by its instance among those that failed and by its
  session among those that can be resumed (where the registry names one session for one instance).\<close>

theorem no_session_lost:
  assumes "execute_update semver p request \<lparr>ur_world = w, ur_calls = []\<rparr> = (Inr report, s')"
    and "ux_status report = UpdateInstalled v"
    and "same_session_per_instance (ur_calls s')"
    and "CallPrepare x True \<in> set (after_upgrade v (ur_calls s'))"
  shows "accounted_for v (ur_calls s') report x"
  by (rule execute_update_accounted [OF assms])

theorem no_session_lost_witness:
  "\<exists>report. ux_status report = UpdateInstalled (StableVersion 2 0 0)
     \<and> accounted_for (StableVersion 2 0 0) sample_calls report (sample_info [2])"
proof -
  obtain report s' where run: "execute_update sample_semver sample_ports sample_request \<lparr>ur_world = (), ur_calls = []\<rparr> = (Inr report, s')"
    and status: "ux_status report = UpdateInstalled (StableVersion 2 0 0)" and calls: "ur_calls s' = sample_calls"
    using sample_upgrade by blast
  have "same_session_per_instance (ur_calls s')" by (auto simp: calls sample_calls_def same_session_per_instance_def)
  moreover have "CallPrepare (sample_info [2]) True \<in> set (after_upgrade (StableVersion 2 0 0) (ur_calls s'))"
    by (simp add: calls sample_calls_def after_upgrade_def)
  ultimately show ?thesis using no_session_lost [OF run status] status by (auto simp: calls)
qed

end
