(* ===== verification/External_Properties.thy ===== *)
theory External_Properties
  imports Update_External Update_Properties
begin

text \<open>
  What the adoption of an external installation promises, whatever the ports answer: its calls, one way out at a time,
  and that no session it made quiescent is left without a request to come back.
\<close>

section \<open>Calls\<close>

lemma calls_drop_lease [simp]: "ur_calls (drop_lease x kind s) = ur_calls s @ [CallDrop kind]"
  by (simp add: drop_lease_def calls_port_snd)

lemma restart_all_calls:
  "restart_all p oid v ps s = (failed, s') \<Longrightarrow> \<exists>es. ur_calls s' = ur_calls s @ restart_calls es \<and> map fst es = ps
     \<and> failed = map (ii_instance_id \<circ> fst) (filter (\<lambda>e. \<not> snd e) es)"
proof (induction p oid v ps s arbitrary: failed s' rule: restart_all.induct)
  case (1 p oid v s)
  then show ?case by (simp add: restart_calls_def)
next
  case (2 p oid v x rest s)
  obtain ok s1 where call: "restart_accepted p x oid v s = (ok, s1)" by fastforce
  obtain failed2 s2 where rest: "restart_all p oid v rest s1 = (failed2, s2)" by fastforce
  from 2(1) [OF call [symmetric] refl rest] obtain es where
    "ur_calls s2 = ur_calls s1 @ restart_calls es" "map fst es = rest"
    "failed2 = map (ii_instance_id \<circ> fst) (filter (\<lambda>e. \<not> snd e) es)" by blast
  then show ?case using 2(2) restart_acceptedD [OF call]
    by (intro exI [of _ "(x, ok) # es"]) (auto simp: call rest restart_calls_def)
qed

lemma restart_all_calls_snd:
  "\<exists>es. ur_calls (snd (restart_all p oid v ps s)) = ur_calls s @ restart_calls es \<and> map fst es = ps"
  using restart_all_calls [of p oid v ps s "fst (restart_all p oid v ps s)" "snd (restart_all p oid v ps s)"] by auto

text \<open>The way back once the cache is adopted: the calls after the restarts.\<close>

definition admission_calls :: "bool \<Rightarrow> update_call list \<Rightarrow> bool" where
  "admission_calls admitted calls \<longleftrightarrow>
     (if admitted then calls = [CallTake StartupLease True, CallCompleteCache True]
      else calls \<in> {[], [CallTake StartupLease False], [CallTake StartupLease True, CallDrop StartupLease],
                    [CallTake StartupLease True, CallCompleteCache False, CallDrop StartupLease]})"

inductive external_trace :: "stable_version \<Rightarrow> update_call list \<Rightarrow> external_failure + external_admission \<Rightarrow> bool" for v where
  refused: "external_trace v [CallUnlock LockConvergence] (Inl e)"
| unproved: "external_trace v [CallTake AdoptionLease False, CallUnlock LockConvergence] (Inl e)"
| deferred: "external_trace v [CallTake AdoptionLease True] (Inr \<lparr>xa_cache_status = DeferredUntilStoreReady, xa_adoption = True\<rparr>)"
| unprepared: "length ys \<le> 1
    \<Longrightarrow> external_trace v (prepared_calls xs @ refused_calls ys @ map CallRelease xs @ [CallUnlock LockConvergence]) (Inl e)"
| partial: "map fst es = quiesced_of v bs
    \<Longrightarrow> external_trace v (prepared_calls (map fst bs) @ quiesce_calls v bs @ [CallUnlock LockConvergence] @ restart_calls es) (Inl e)"
| unauthorized: "map fst es = quiesced_of v bs \<Longrightarrow> unquiesced_of v bs = []
    \<Longrightarrow> external_trace v (prepared_calls (map fst bs) @ quiesce_calls v bs
          @ [CallTake AdoptionLease False, CallUnlock LockConvergence] @ restart_calls es) (Inl e)"
| unadopted: "map fst es = quiesced_of v bs \<Longrightarrow> unquiesced_of v bs = []
    \<Longrightarrow> external_trace v (prepared_calls (map fst bs) @ quiesce_calls v bs
          @ [CallTake AdoptionLease True, CallAdoptCache False, CallDrop AdoptionLease, CallUnlock LockConvergence]
          @ restart_calls es) (Inl e)"
| unfinished: "map fst es = quiesced_of v bs \<Longrightarrow> unquiesced_of v bs = [] \<Longrightarrow> admission_calls False tail
    \<Longrightarrow> external_trace v (prepared_calls (map fst bs) @ quiesce_calls v bs
          @ [CallTake AdoptionLease True, CallAdoptCache True, CallDrop AdoptionLease, CallUnlock LockConvergence]
          @ restart_calls es @ tail) (Inl e)"
| reconciled: "map fst es = quiesced_of v bs \<Longrightarrow> unquiesced_of v bs = [] \<Longrightarrow> list_all snd es \<Longrightarrow> admission_calls True tail
    \<Longrightarrow> external_trace v (prepared_calls (map fst bs) @ quiesce_calls v bs
          @ [CallTake AdoptionLease True, CallAdoptCache True, CallDrop AdoptionLease, CallUnlock LockConvergence]
          @ restart_calls es @ tail) (Inr \<lparr>xa_cache_status = Reconciled, xa_adoption = False\<rparr>)"

lemma reconcile_cacheD:
  "reconcile_cache x request pending s = (r, s') \<Longrightarrow> ur_calls s' = ur_calls s @ [CallAdoptCache (is_ok r)]"
  by (auto simp: reconcile_cache_def split_beta calls_port_snd is_ok_def split: sum.splits external_cache_transition.splits)

lemma complete_cacheD:
  "complete_cache x identity v pending conflict s = (r, s') \<Longrightarrow> ur_calls s' = ur_calls s @ [CallCompleteCache (is_ok r)]"
  by (auto simp: complete_cache_def split_beta calls_port_snd is_ok_def split: sum.splits external_cache_transition.splits)

lemma replacement_blockers_none:
  "replacement_blockers semver ps failed missing = [] \<longleftrightarrow> (\<forall>p\<in>set ps. ii_instance_id p \<notin> set failed \<and> ii_instance_id p \<notin> set missing)"
  by (auto simp: replacement_blockers_def filter_empty_conv)

lemma replace_quiesced_calls:
  assumes "replace_quiesced semver x request ps pending s = (r, s')"
  shows "\<exists>es tail. ur_calls s' = ur_calls s @ restart_calls es @ tail \<and> map fst es = ps
    \<and> (case r of Inl e \<Rightarrow> admission_calls False tail
       | Inr a \<Rightarrow> a = \<lparr>xa_cache_status = Reconciled, xa_adoption = False\<rparr> \<and> admission_calls True tail \<and> list_all snd es)"
proof -
  let ?p = "xp_update x" and ?i = "xr_installation request" and ?v = "xr_current request"
  obtain failed s1 where 1: "restart_all ?p (xr_operation_id request) ?v ps s = (failed, s1)" by fastforce
  obtain missing s2 where 2: "silent (up_wait_for_replacements ?p ?i ?v (replacement_expectations pending)
      REPLACEMENT_TIMEOUT_MILLIS) s1 = (missing, s2)" by fastforce
  obtain admitted s3 where 3: "port_call (xp_wait_for_startup x ?i REPLACEMENT_TIMEOUT_MILLIS)
      (\<lambda>admitted. [CallTake StartupLease (admitted = Inr True)]) s2 = (admitted, s3)" by fastforce
  obtain valid s4 where 4: "silent (xp_revalidate x) s3 = (valid, s4)" by fastforce
  obtain completed s5 where 5: "complete_cache x ?i ?v pending (lit ''update cache changed before external restart completion'') s4
      = (completed, s5)" by fastforce
  from restart_all_calls [OF 1] obtain es where es: "ur_calls s1 = ur_calls s @ restart_calls es" "map fst es = ps"
    "failed = map (ii_instance_id \<circ> fst) (filter (\<lambda>e. \<not> snd e) es)" by blast
  note c = es(1) calls_silentD [OF 2] calls_portD [OF 3] calls_silentD [OF 4] complete_cacheD [OF 5]
  show ?thesis
  proof (cases "\<exists>m. missing = Inr m \<and> replacement_blockers semver ps failed m = []")
    case False
    then have "ur_calls s' = ur_calls s @ restart_calls es" "isl r"
      using assms c by (auto simp: replace_quiesced_def Let_def 1 2 split: sum.splits if_splits)
    then show ?thesis using es(2) by (intro exI [of _ es] exI [of _ "[]"]) (auto simp: admission_calls_def isl_def)
  next
    case True
    then obtain m where m: "missing = Inr m" "replacement_blockers semver ps failed m = []" by blast
    have "b" if "(y, b) \<in> set es" for y b
    proof (rule ccontr)
      assume "\<not> b"
      then have "ii_instance_id y \<in> set failed" using that by (force simp: es(3))
      moreover have "y \<in> set ps" using that es(2) by force
      ultimately show False using m(2) by (simp add: replacement_blockers_none)
    qed
    then have all: "list_all snd es" by (auto simp: list_all_iff)
    note run = replace_quiesced_def Let_def 1 2 m 3 4 5 [simplified]
    consider (timeout) "admitted \<noteq> Inr True" | (invalid) e where "admitted = Inr True" "valid = Inl e"
      | (conflict) e where "admitted = Inr True" "valid = Inr ()" "completed = Inl e"
      | (completed) "admitted = Inr True" "valid = Inr ()" "completed = Inr ()" by (cases valid; cases completed) auto
    then show ?thesis
    proof cases
      case timeout
      then show ?thesis using assms c es(2)
        by (intro exI [of _ es] exI [of _ "[CallTake StartupLease False]"])
          (auto simp: run admission_calls_def split: sum.splits bool.splits)
    next
      case invalid
      then show ?thesis using assms c es(2)
        by (intro exI [of _ es] exI [of _ "[CallTake StartupLease True, CallDrop StartupLease]"]) (auto simp: run admission_calls_def)
    next
      case conflict
      then show ?thesis using assms c es(2)
        by (intro exI [of _ es] exI [of _ "[CallTake StartupLease True, CallCompleteCache False, CallDrop StartupLease]"])
          (auto simp: run admission_calls_def is_ok_def)
    next
      case completed
      then show ?thesis using assms c es(2) all
        by (intro exI [of _ es] exI [of _ "[CallTake StartupLease True, CallCompleteCache True]"])
          (auto simp: run admission_calls_def is_ok_def)
    qed
  qed
qed

lemma is_ok_simps [simp]: "is_ok (Inr a)" "\<not> is_ok (Inl e)"
  by (simp_all add: is_ok_def)

lemma finish_quiesced_trace:
  assumes "finish_quiesced semver x request (quiesced_of v bs) pending s = (r, s')" "unquiesced_of v bs = []"
  shows "\<exists>calls. ur_calls s' = ur_calls s @ calls \<and> external_trace v (prepared_calls (map fst bs) @ quiesce_calls v bs @ calls) r"
proof -
  let ?q = "quiesced_of v bs"
  obtain adoption s1 where 1: "port_call (xp_acquire x) (\<lambda>r. [CallTake AdoptionLease (is_ok r)]) s = (adoption, s1)" by fastforce
  obtain adopted s2 where 2: "reconcile_cache x request (Some pending) s1 = (adopted, s2)" by fastforce
  note c = calls_portD [OF 1] reconcile_cacheD [OF 2]
  consider (unauthorized) e where "adoption = Inl e" | (unadopted) e where "adoption = Inr ()" "adopted = Inl e"
    | (adopted) "adoption = Inr ()" "adopted = Inr ()" by (cases adoption; cases adopted) auto
  then show ?thesis
  proof cases
    case unauthorized
    from restart_all_calls_snd [of "xp_update x" "xr_operation_id request" "xr_current request" ?q "unlock (xp_update x) LockConvergence s1"]
    obtain es where es: "ur_calls (snd (restart_all (xp_update x) (xr_operation_id request) (xr_current request) ?q
        (unlock (xp_update x) LockConvergence s1))) = ur_calls s1 @ [CallUnlock LockConvergence] @ restart_calls es" "map fst es = ?q" by auto
    have "ur_calls s' = ur_calls s @ [CallTake AdoptionLease False, CallUnlock LockConvergence] @ restart_calls es" "isl r"
      using assms(1) es c unauthorized
      by (auto simp: finish_quiesced_def recover_after_authority_failure_def 1)
    then show ?thesis using external_trace.unauthorized [OF es(2) assms(2)] by (auto simp: isl_def)
  next
    case unadopted
    from restart_all_calls_snd [of "xp_update x" "xr_operation_id request" "xr_current request" ?q
        "unlock (xp_update x) LockConvergence (drop_lease x AdoptionLease s2)"]
    obtain es where es: "ur_calls (snd (restart_all (xp_update x) (xr_operation_id request) (xr_current request) ?q
        (unlock (xp_update x) LockConvergence (drop_lease x AdoptionLease s2))))
        = ur_calls s2 @ [CallDrop AdoptionLease, CallUnlock LockConvergence] @ restart_calls es" "map fst es = ?q" by auto
    have "ur_calls s' = ur_calls s @ [CallTake AdoptionLease True, CallAdoptCache False, CallDrop AdoptionLease,
        CallUnlock LockConvergence] @ restart_calls es" "isl r"
      using assms(1) es c unadopted
      by (auto simp: finish_quiesced_def recover_after_cache_failure_def Let_def 1 2)
    then show ?thesis using external_trace.unadopted [OF es(2) assms(2)] by (auto simp: isl_def)
  next
    case adopted
    have run: "replace_quiesced semver x request ?q pending (unlock (xp_update x) LockConvergence (drop_lease x AdoptionLease s2)) = (r, s')"
      using assms(1) adopted by (simp add: finish_quiesced_def Let_def 1 2)
    from replace_quiesced_calls [OF run] obtain es tail where
      t: "ur_calls s' = ur_calls s @ [CallTake AdoptionLease True, CallAdoptCache True, CallDrop AdoptionLease,
          CallUnlock LockConvergence] @ restart_calls es @ tail" "map fst es = ?q"
        "case r of Inl e \<Rightarrow> admission_calls False tail
         | Inr a \<Rightarrow> a = \<lparr>xa_cache_status = Reconciled, xa_adoption = False\<rparr> \<and> admission_calls True tail \<and> list_all snd es"
      using c adopted by (auto simp:)
    show ?thesis
    proof (cases r)
      case (Inl e)
      then show ?thesis using t external_trace.unfinished [OF t(2) assms(2)] by auto
    next
      case (Inr a)
      then show ?thesis using t external_trace.reconciled [OF t(2) assms(2)] by auto
    qed
  qed
qed

lemma recover_partial_trace:
  assumes "recover_partial_quiescence semver x oid w ready (quiesced_of v bs) failed s = (r, s')"
  shows "\<exists>calls. ur_calls s' = ur_calls s @ calls \<and> external_trace v (prepared_calls (map fst bs) @ quiesce_calls v bs @ calls) r"
proof (cases "quiesced_of v bs = []")
  case True
  then have "ur_calls s' = ur_calls s @ [CallUnlock LockConvergence]" "isl r"
    using assms by (auto simp: recover_partial_quiescence_def Let_def)
  then show ?thesis using external_trace.partial [where es = "[]" and v = v and bs = bs] True
    by (auto simp: isl_def restart_calls_def)
next
  case False
  from restart_all_calls_snd [of "xp_update x" oid w "quiesced_of v bs" "unlock (xp_update x) LockConvergence s"]
  obtain es where es: "ur_calls (snd (restart_all (xp_update x) oid w (quiesced_of v bs) (unlock (xp_update x) LockConvergence s)))
      = ur_calls s @ [CallUnlock LockConvergence] @ restart_calls es" "map fst es = quiesced_of v bs" by auto
  have "ur_calls s' = ur_calls s @ [CallUnlock LockConvergence] @ restart_calls es" "isl r"
    using assms es False by (auto simp: recover_partial_quiescence_def Let_def)
  then show ?thesis using external_trace.partial [OF es(2)] by (auto simp: isl_def)
qed

lemma reconcile_participants_trace:
  assumes "reconcile_participants semver x request older s = (r, s')"
  shows "\<exists>calls. ur_calls s' = ur_calls s @ calls \<and> external_trace (xr_current request) calls r"
proof -
  let ?p = "xp_update x" and ?oid = "xr_operation_id request" and ?v = "xr_current request"
  obtain ready s1 where 1: "preflight ?p \<lparr>pr_operation_id = ?oid, pr_target_version = ?v,
      pr_installation_identity = xr_installation request, pr_deadline = xr_deadline request\<rparr> [] older s = (ready, s1)" by fastforce
  from preflight_calls [OF 1, unfolded append_Nil] obtain xs ys where
    p: "ur_calls s1 = ur_calls s @ prepared_calls xs @ refused_calls ys" "length ys \<le> 1"
      "case ready of Inr rs \<Rightarrow> rs = xs \<and> ys = [] | Inl f \<Rightarrow> pf_ready f = xs" by (cases ready) auto
  show ?thesis
  proof (cases "\<exists>rs pending. ready = Inr rs \<and> pending_restart semver ?oid ?v rs = Inr pending")
    case False
    then have "ur_calls s' = ur_calls s @ prepared_calls xs @ refused_calls ys @ map CallRelease xs @ [CallUnlock LockConvergence]" "isl r"
      using assms p by (auto simp: reconcile_participants_def Let_def 1 split: sum.splits)
    then show ?thesis using external_trace.unprepared [OF p(2), of ?v xs] by (auto simp: isl_def)
  next
    case True
    then obtain pending where r: "ready = Inr xs" "pending_restart semver ?oid ?v xs = Inr pending" "ys = []" using p(3) by auto
    obtain q s2 where 2: "quiesce_prepared ?p xs ?oid ?v s1 = (q, s2)" by fastforce
    from quiesce_loop_calls [OF 2 [unfolded quiesce_prepared_def]] obtain bs where
      b: "ur_calls s2 = ur_calls s @ prepared_calls (map fst bs) @ quiesce_calls ?v bs" "map fst bs = xs"
        "qp_quiesced q = quiesced_of ?v bs" "qp_failed q = map ii_instance_id (unquiesced_of ?v bs)"
      using p(1) r(3) by (auto simp: refused_calls_def)
    show ?thesis
    proof (cases "unquiesced_of ?v bs = []")
      case True
      have "finish_quiesced semver x request (quiesced_of ?v bs) pending s2 = (r, s')"
        using assms b True by (simp add: reconcile_participants_def Let_def 1 r 2)
      from finish_quiesced_trace [OF this True] show ?thesis using b(1) by auto
    next
      case False
      have "recover_partial_quiescence semver x ?oid ?v xs (quiesced_of ?v bs) (qp_failed q) s2 = (r, s')"
        using assms b False by (simp add: reconcile_participants_def Let_def 1 r 2)
      from recover_partial_trace [OF this] show ?thesis using b(1) by auto
    qed
  qed
qed

lemma reconcile_external_trace:
  assumes "reconcile_external semver x request s = (r, s')"
  shows "\<exists>calls. ur_calls s' = ur_calls s @ calls \<and> external_trace (xr_current request) calls r"
proof -
  obtain established s1 where 1: "silent (xp_establish x) s = (established, s1)" by fastforce
  obtain instances s2 where 2: "silent (up_active_instances (xp_update x)) s1 = (instances, s2)" by fastforce
  obtain cancelled s3 where 3: "silent (up_is_cancelled (xp_update x)) s2 = (cancelled, s3)" by fastforce
  obtain adoption s4 where 4: "port_call (xp_acquire x) (\<lambda>r. [CallTake AdoptionLease (is_ok r)]) s2 = (adoption, s4)" by fastforce
  note c = calls_silentD [OF 1] calls_silentD [OF 2] calls_silentD [OF 3] calls_portD [OF 4]
  note run = reconcile_external_def Let_def 1 2 3 4
  consider "ur_calls s' = ur_calls s @ [CallUnlock LockConvergence]" "isl r"
    | "ur_calls s' = ur_calls s @ [CallTake AdoptionLease False, CallUnlock LockConvergence]" "isl r"
    | "ur_calls s' = ur_calls s @ [CallTake AdoptionLease True]"
        "r = Inr \<lparr>xa_cache_status = DeferredUntilStoreReady, xa_adoption = True\<rparr>"
    | older where "reconcile_participants semver x request older s3 = (r, s')"
    using assms c by (auto simp: run split: sum.splits option.splits if_splits)
  then show ?thesis
  proof cases
    case 1
    then show ?thesis using external_trace.refused by (auto simp: isl_def)
  next
    case 2
    then show ?thesis using external_trace.unproved by (auto simp: isl_def)
  next
    case 3
    then show ?thesis using external_trace.deferred by auto
  next
    case 4
    from reconcile_participants_trace [OF this] show ?thesis using c by auto
  qed
qed

section \<open>Nobody is left behind\<close>

definition adoption_settled :: "update_call list \<Rightarrow> external_failure + external_admission \<Rightarrow> bool" where
  "adoption_settled calls r \<longleftrightarrow>
     map fst (restarts_in calls) = map fst (filter snd (quiesces_in calls))
     \<and> count_list calls (CallUnlock LockConvergence) = (case r of Inr a \<Rightarrow> if xa_adoption a then 0 else 1 | Inl e \<Rightarrow> 1)
     \<and> (\<forall>b. CallAdoptCache b \<in> set calls \<longrightarrow> list_all snd (quiesces_in calls) \<and> CallTake AdoptionLease True \<in> set calls)
     \<and> (case r of Inr a \<Rightarrow> xa_cache_status a = DeferredUntilStoreReady \<and> quiesces_in calls = []
          \<or> xa_cache_status a = Reconciled \<and> list_all snd (restarts_in calls) \<and> CallCompleteCache True \<in> set calls
        | Inl e \<Rightarrow> CallCompleteCache True \<notin> set calls)"

lemma quiesced_events [simp]: "map fst (filter (\<lambda>c. (case c of (x, b) \<Rightarrow> \<not> runs_version x v) \<and> snd c) bs) = quiesced_of v bs"
  by (induction bs) (auto simp: quiesced_of_def)

lemma all_quiesced: "unquiesced_of v bs = [] \<Longrightarrow> list_all snd (filter (\<lambda>(x, b). \<not> runs_version x v) bs)"
  by (auto simp: unquiesced_of_def filter_empty_conv list_all_iff)

lemma other_calls [simp]:
  "\<not> c \<in> set (prepared_calls xs)" "\<not> c \<in> set (refused_calls xs)" "\<not> c \<in> set (map CallRelease xs)"
  "\<not> c \<in> set (quiesce_calls v bs)" "\<not> c \<in> set (restart_calls es)"
  if "case c of CallUnlock k \<Rightarrow> True | CallTake k b \<Rightarrow> True | CallAdoptCache b \<Rightarrow> True | CallCompleteCache b \<Rightarrow> True | _ \<Rightarrow> False"
  using that by (auto simp: call_defs split: if_splits)

lemma count_other [simp]:
  "count_list (prepared_calls xs) (CallUnlock k) = 0" "count_list (refused_calls xs) (CallUnlock k) = 0"
  "count_list (map CallRelease xs) (CallUnlock k) = 0" "count_list (quiesce_calls v bs) (CallUnlock k) = 0"
  "count_list (restart_calls es) (CallUnlock k) = 0"
  by (simp_all add: count_list_0_iff del: set_map)

lemma admission_calls_plain:
  assumes "admission_calls b tail"
  shows "restarts_in tail = []" "quiesces_in tail = []" "count_list tail (CallUnlock k) = 0"
    "CallAdoptCache c \<notin> set tail" "CallCompleteCache True \<in> set tail \<longleftrightarrow> b"
  using assms by (auto simp: admission_calls_def split: if_splits)

lemma external_trace_settled: "external_trace v calls r \<Longrightarrow> adoption_settled calls r"
proof (induction rule: external_trace.induct)
  case (unfinished es bs tail e)
  note t = admission_calls_plain [OF unfinished(3)]
  show ?case using unfinished(1) all_quiesced [OF unfinished(2)] by (simp add: adoption_settled_def t count_list_append del: set_map)
next
  case (reconciled es bs tail)
  note t = admission_calls_plain [OF reconciled(4)]
  show ?case using reconciled(1,3) all_quiesced [OF reconciled(2)] by (simp add: adoption_settled_def t count_list_append del: set_map)
next
  case (unadopted es bs e)
  show ?case using unadopted(1) all_quiesced [OF unadopted(2)] by (simp add: adoption_settled_def count_list_append del: set_map)
qed (simp_all add: adoption_settled_def count_list_append del: set_map)

text \<open>C38: Whatever the ports answer, the adoption of an external installation leaves nobody behind: the sessions asked to
  restart are exactly those that acknowledged quiescence, in that order; the convergence lock is given up exactly
  once, except where it is handed back with the adoption lease; the cache is adopted only under the adoption lease
  and once every session asked acknowledged quiescence; and the adoption is reported as reconciled only when every
  restart was accepted and the cache records the completion.\<close>

theorem external_adoption_settled:
  "case reconcile_external semver x request \<lparr>ur_world = w, ur_calls = []\<rparr> of (r, s') \<Rightarrow> adoption_settled (ur_calls s') r"
proof -
  obtain r s' where run: "reconcile_external semver x request \<lparr>ur_world = w, ur_calls = []\<rparr> = (r, s')" by fastforce
  from reconcile_external_trace [OF run] obtain calls where "ur_calls s' = calls" "external_trace (xr_current request) calls r" by auto
  then show ?thesis using external_trace_settled by (simp add: run)
qed

end
