(* ===== verification/Update_Check.thy ===== *)
theory Update_Check
  imports Update_Coordination
begin

text \<open>
  The check for a newer release (\<open>src/application/update.rs\<close>): whether release metadata is refreshed, under which lock,
  and what the answer says of the running version. The ports and the run are those of \<open>Update_Coordination\<close>.
\<close>

datatype update_check_mode = ExplicitCheck | StartupCheck bool bool bool

datatype update_availability = CurrentVersion | AvailableVersion | SuppressedVersion

datatype update_refresh = CachedRefresh | Refreshed | RefreshInProgress | CoalescedRefresh

record update_check_result =
  cr_installation :: installation_kind
  cr_installed_version :: stable_version
  cr_latest_version :: "stable_version option"
  cr_availability :: update_availability
  cr_refresh :: update_refresh
  cr_release_url :: "rstr option"

definition RELEASE_URL :: rstr where
  "RELEASE_URL = lit ''https://github.com/oborchers/proqi/releases/latest''"

fun should_refresh :: "installation_kind \<Rightarrow> update_check_mode \<Rightarrow> bool" where
  "should_refresh kind ExplicitCheck \<longleftrightarrow> True"
| "should_refresh kind (StartupCheck enabled release_build interactive) \<longleftrightarrow>
     enabled \<and> release_build \<and> interactive \<and> kind \<noteq> SourceOrUnknown"

definition check_result :: "installation_kind \<Rightarrow> stable_version \<Rightarrow> update_cache_state \<Rightarrow> update_refresh \<Rightarrow> update_check_result" where
  "check_result kind installed state refresh =
     (let available = (case uc_latest_stable state of Some latest \<Rightarrow> latest > installed | None \<Rightarrow> False);
          suppressed = (uc_external_restart state \<noteq> None
            \<or> (case uc_latest_stable state of
                 Some latest \<Rightarrow> uc_skipped_version state = Some latest \<or> uc_dismissed_version state = Some latest
               | None \<Rightarrow> False)) in
      \<lparr>cr_installation = kind, cr_installed_version = installed, cr_latest_version = uc_latest_stable state,
       cr_availability = (if \<not> available then CurrentVersion else if suppressed then SuppressedVersion else AvailableVersion),
       cr_refresh = refresh, cr_release_url = (if available then Some RELEASE_URL else None)\<rparr>)"

definition observed_generation :: "update_check_mode \<Rightarrow> update_cache_state \<Rightarrow> u64 option" where
  "observed_generation mode state = (case mode of ExplicitCheck \<Rightarrow> None | StartupCheck _ _ _ \<Rightarrow> Some (uc_refresh_generation state))"

text \<open>The part of a check that holds the refresh lock; the lock is given up by the caller on an error.\<close>

definition check_locked :: "'w update_ports \<Rightarrow> installation \<Rightarrow> stable_version \<Rightarrow> update_check_mode \<Rightarrow> update_cache_state
    \<Rightarrow> 'w update_run \<Rightarrow> (update_error + update_check_result) \<times> 'w update_run" where
  "check_locked p inst installed mode state s =
     (let (begun, s) = silent (up_begin_refresh p (in_identity inst) (observed_generation mode state)) s in
      case begun of
        Inl e \<Rightarrow> (Inl e, unlock p LockRefresh s)
      | Inr None \<Rightarrow>
          (let s = unlock p LockRefresh s;
               (current, s) = silent (up_load p (in_identity inst)) s in
           case current of
             Inl e \<Rightarrow> (Inl e, s)
           | Inr current \<Rightarrow> (Inr (check_result (in_kind inst) installed current CoalescedRefresh), s))
      | Inr (Some refresh_state) \<Rightarrow>
          (let (observation, s) = silent (up_latest_stable p (in_kind inst) (uc_etag refresh_state)) s in
           case observation of
             Inl e \<Rightarrow> (Inl e, unlock p LockRefresh s)
           | Inr observation \<Rightarrow>
               (let (now, s) = silent (up_now p) s;
                    (recorded, s) = silent (up_record_success p (in_identity inst) observation installed now) s;
                    s = unlock p LockRefresh s in
                case recorded of
                  Inl e \<Rightarrow> (Inl e, s)
                | Inr state \<Rightarrow> (Inr (check_result (in_kind inst) installed state Refreshed), s))))"

definition update_check :: "'w update_ports \<Rightarrow> stable_version \<Rightarrow> update_check_mode \<Rightarrow> 'w update_run
    \<Rightarrow> (update_error + update_check_result) \<times> 'w update_run" where
  "update_check p installed mode s =
     (let (detected, s) = silent (up_detect p) s in
      case detected of
        Inl e \<Rightarrow> (Inl e, s)
      | Inr inst \<Rightarrow>
          (let (state, s) = silent (up_load p (in_identity inst)) s in
           case state of
             Inl e \<Rightarrow> (Inl e, s)
           | Inr state \<Rightarrow>
               if \<not> should_refresh (in_kind inst) mode then (Inr (check_result (in_kind inst) installed state CachedRefresh), s)
               else
                 (let (lease, s) = try_lock p (in_identity inst) LockRefresh s in
                  case lease of
                    Inl e \<Rightarrow> (Inl e, s)
                  | Inr False \<Rightarrow> (Inr (check_result (in_kind inst) installed state RefreshInProgress), s)
                  | Inr True \<Rightarrow> check_locked p inst installed mode state s)))"

section \<open>What a check promises\<close>

text \<open>An update is announced exactly when the newest known release is newer than the running version.\<close>

lemma check_result_available:
  "cr_availability (check_result kind installed state refresh) = CurrentVersion
     \<longleftrightarrow> (case uc_latest_stable state of Some latest \<Rightarrow> latest \<le> installed | None \<Rightarrow> True)"
  "(cr_release_url (check_result kind installed state refresh) = None)
     = (cr_availability (check_result kind installed state refresh) = CurrentVersion)"
  by (auto simp: check_result_def Let_def split: option.splits)

text \<open>The refresh lock is taken at most once, and given up on every way out of a check.\<close>

definition balanced_refresh :: "update_call list \<Rightarrow> bool" where
  "balanced_refresh calls \<longleftrightarrow> calls = [] \<or> calls = [CallLock LockRefresh False] \<or> calls = [CallLock LockRefresh True, CallUnlock LockRefresh]"

lemma calls_silent_fst: "ur_calls (snd (silent f s)) = ur_calls s"
  by (simp add: silent_def split_beta)

lemma calls_unlocked: "ur_calls (unlock p kind s) = ur_calls s @ [CallUnlock kind]"
  by (simp add: unlock_def port_call_def split_beta)

lemma check_locked_calls: "ur_calls (snd (check_locked p inst installed mode state s)) = ur_calls s @ [CallUnlock LockRefresh]"
  by (auto simp: check_locked_def Let_def split_beta calls_silent_fst calls_unlocked split: sum.splits option.splits)

lemma update_check_balanced:
  "\<exists>calls. ur_calls (snd (update_check p installed mode s)) = ur_calls s @ calls \<and> balanced_refresh calls"
  by (auto simp: update_check_def Let_def split_beta try_lock_def port_call_def check_locked_calls calls_silent_fst balanced_refresh_def
      split: sum.splits bool.splits)

end
