(* ===== verification/Spec2Isabelle.thy ===== *)
theory Spec2Isabelle
  imports Board_Undo Lane_Liveness Lane_Store Store_Properties Journal_Properties Layout_Properties
    External_Properties Update_Check
begin

text \<open>
  Verification library of proqi, a terminal board of thoughts that are written, arranged and submitted
  to coding agents. The library models the domain, the reducer lane, the durable store, the cleanup and
  layout of text and the coordination of updates, and proves the properties a durable, undoable board
  rests on.

  \<^bold>\<open>The program.\<close> A session owns one board: thoughts with annotated text and separators, in one shared
  order (\<open>src/domain\<close>). All changes go through one reducer lane (\<open>src/application\<close>): an action is routed
  to a handler, which builds a reversible operation, applies it to the board, records it in one of two
  undo histories (the board's and one per thought for its editor) and emits effects. Durable effects
  carry consecutive sequences; the store (\<open>src/adapters/sqlite\<close>) commits them in that order and the
  lane hears about each commit or failure. Around the lane are the terminal shell
  (\<open>src/ui\<close>, \<open>src/adapters/terminal\<close>), the command line (\<open>src/cli\<close>) and the host adapters.

  \<^bold>\<open>The theories.\<close>
  \<^item> \<open>Prelude\<close>, \<open>Rust_Text\<close>, \<open>Rust_Path\<close>: the \<open>?\<close> operator and early-return loops, machine integers, UTF-8
    strings with byte offsets, and path functions of the standard library.
  \<^item> \<open>Identifiers\<close>, \<open>Domain_Values\<close>: typed identifiers with their text codec and the value types
    (\<open>src/domain/identifiers.rs\<close>, \<open>thought_name.rs\<close>, \<open>model.rs\<close>).
  \<^item> \<open>Annotations\<close>, \<open>Numbering\<close>: byte-range annotations and attachment ordinals (\<open>src/domain/annotation\<close>,
    \<open>attachment_numbering.rs\<close>).
  \<^item> \<open>Board_Model\<close>, \<open>Board_Mutations\<close>: the board, its validation and its mutations
    (\<open>src/domain/operations.rs\<close>, \<open>operations/mutation.rs\<close>, \<open>board_item.rs\<close>).
  \<^item> \<open>Board_Order\<close>, \<open>Board_Refinement\<close>, \<open>Board_Undo\<close>, \<open>Board_Similarity\<close>: the abstract board (an ordered
    list of items and a payload per thought), the refinement of every mutation, undo, and boards that
    differ only in the order of their rows.
  \<^item> \<open>Attachments\<close>: the accessibility cache and its scheduler (\<open>src/application/attachments\<close>).
  \<^item> \<open>App_Model\<close>, \<open>App_Mutations\<close>, \<open>Reducer\<close>: the lane state, its handlers and the router
    (\<open>src/application/model.rs\<close>, \<open>mutations.rs\<close>, \<open>mutations/*.rs\<close>, \<open>reducer.rs\<close>, \<open>locks.rs\<close>, \<open>history_contract.rs\<close>).
  \<^item> \<open>Session_Lane\<close>: durable requests, rehydration and screenshot captures (\<open>model/effect.rs\<close>,
    \<open>rehydrate.rs\<close>, \<open>capture.rs\<close> and the store port).
  \<^item> \<open>Store_Model\<close>, \<open>Store_Commit\<close>, \<open>Store_Receipts\<close>: the tables of the store, its loads and commits, and
    the idempotency of commits (\<open>src/adapters/sqlite\<close>).
  \<^item> \<open>Keyed_Rows\<close>, \<open>Store_Histories\<close>, \<open>Store_Boards\<close>, \<open>Store_Refinement\<close>, \<open>Store_Edits\<close>, \<open>Store_Moves\<close>,
    \<open>Store_Properties\<close>: rows under unique keys, what the rows of a session hold of a board and its
    histories, and the refinement of the lane's operations, edits and history moves by their commits.
  \<^item> \<open>Store_Journals\<close>, \<open>Journal_Properties\<close>: the journals of submissions and transfers
    (\<open>src/adapters/sqlite/submission.rs\<close>, \<open>transfer.rs\<close>) as a step relation over their operations.
  \<^item> \<open>Lane_Store\<close>: the lane and the store run together.
  \<^item> \<open>Lane_Steps\<close>, \<open>Lane_Invariant\<close>, \<open>Lane_Properties\<close>, \<open>Lane_Liveness\<close>: the lane as a step relation, its
    invariant, and its safety and liveness properties.
  \<^item> \<open>Text_Changes\<close>, \<open>Structured_Text\<close>: change sets between two texts (\<open>src/ports/editor/change.rs\<close>) and the
    Markdown structure of a line (\<open>src/ports/structured_text.rs\<close>).
  \<^item> \<open>Text_Reflow\<close>, \<open>Reflow_Ink\<close>, \<open>Reflow_Properties\<close>: the cleanup of spacing
    (\<open>src/application/text_reflow.rs\<close>, \<open>text_reflow/\<close>).
  \<^item> \<open>Text_Layout\<close>, \<open>Layout_Properties\<close>: cells, words, wrapping and positions (\<open>src/ports/text_layout.rs\<close>).
  \<^item> \<open>Update_Values\<close>, \<open>Update_Check\<close>: versions, release highlights and the check for a release
    (\<open>src/domain/update.rs\<close>, \<open>release_highlights.rs\<close>, \<open>src/application/update.rs\<close>).
  \<^item> \<open>Update_Coordination\<close>, \<open>Update_Traces\<close>, \<open>Update_Properties\<close>: the upgrade of all sessions of an
    installation (\<open>src/application/update_coordination.rs\<close> with \<open>preflight.rs\<close>, \<open>quiescence.rs\<close>, \<open>restart.rs\<close>),
    its calls in order, and the protocol they follow.
  \<^item> \<open>Update_External\<close>, \<open>External_Properties\<close>: the adoption of an installation replaced from outside
    (\<open>update_coordination/external.rs\<close>, \<open>external/\<close>).

  \<^bold>\<open>How code becomes definitions.\<close> A struct is a record, an enum a datatype, a function that may fail
  returns a sum with the error on the left. A method on \<open>&mut self\<close> takes the state and returns its
  result with the state it leaves, also when it fails, so that partial changes are visible. Positions,
  sequences and counters are words of the width the code has, with its saturating and checked
  arithmetic; lengths and byte offsets are natural numbers. Strings are lists of code points with byte
  offsets computed from their UTF-8 widths. Hash maps are mappings, ordered sets of sequences are sets
  whose first and last element are the minimum and maximum. Loops are structural recursion; there is no
  fuel. What is not code of the repository is a parameter: SHA-256 (\<open>digest\<close>, \<open>request_digest\<close>), the
  Unicode tables for white space, graphemes and cell widths (\<open>unicode\<close>), the parser of semantic versions
  (\<open>semver\<close>) and of JSON. The update coordinator is defined over arbitrary ports: records of functions
  on a world they may change as they like; a run carries the calls made so far, with what came of each.

  \<^bold>\<open>What the theorems show.\<close>
  Identifiers are printed and parsed without loss. Annotations stay valid and attached to their text
  through edits, splits, extractions and merges; attachment numbers are fresh. Every board mutation
  refines its abstract counterpart and keeps the board valid, changes nothing it does not address, and
  is undone by the inverse the history records. The reducer lane keeps its invariant, refuses actions
  without changing state, takes consecutive sequences with one durable request each, freezes after a
  failed write, and drains: outstanding writes can always be acknowledged in order, and a staged removal
  cannot be stopped. The store answers a request that was committed once from its receipt for ever; a
  commit of the lane's operation, edit or history move leaves rows that hold the board the lane shows. A
  thought is in at most one unsettled delivery, and the last step of a delivery is done once however
  often it is repeated. The cleanup of spacing keeps the visible text, and its change sets describe the
  edit, invert, and map offsets to offsets. Wrapped rows are within the width and cover the line, and
  positions and byte offsets lead back to each other. An upgrade follows its protocol whatever its ports
  answer: the installer runs once, with no session held; a session is restarted only after it stopped
  using the schema; every lock is given up; the report is true, and no session is lost sight of. Two
  runs of the lane against the store show where they disagree: undoing an edit can bring back an
  attachment that was pasted elsewhere, after which the session cannot be loaded, and a redo of the lane
  can be refused by the store after an export.

  \<^bold>\<open>Bounds.\<close> Refinement and undo assume at most \<open>2 ^ 32\<close> items on a board during a mutation, below which
  no 32-bit position saturates.

  \<^bold>\<open>Not modelled.\<close> The terminal shell and its widgets, the command line, host adapters (processes,
  sockets, clipboard, file system, and the files, locks and downloads behind the update ports), request
  translation and replay in \<open>src/application/control\<close>, the session services, and of the store its schema
  migrations, compaction, search index and Browser history.
\<close>

end
